(* ===== verification/Cubrid_Prelude.thy ===== *)
theory Cubrid_Prelude
  imports Main "HOL-Library.Word" "HOL-Library.Signed_Division"
begin

text \<open>
  Shared material of the development: the machine types and the macros of
  \<^verbatim>\<open>storage_common.h\<close> and \<^verbatim>\<open>memory_alloc.h\<close> that every
  component of the log applier uses (log sequence addresses, alignment, the
  ceiling division), the error codes of \<^verbatim>\<open>error_code.h\<close>, little-endian
  decoding of C structures, and generic lemmas on lists.

  C arithmetic: \<^verbatim>\<open>/\<close> and \<^verbatim>\<open>%\<close> on signed operands truncate towards
  zero and are written \<open>sdiv\<close> and \<open>smod\<close>. Log page identifiers
  (\<^verbatim>\<open>LOG_PAGEID\<close>, 48 significant bits in a 64-bit integer), page counts and
  offsets are integers; counters that are meant to wrap are words.
\<close>

section \<open>Named collections\<close>

named_theorems lsa_simps "comparisons of log sequence addresses as the order of the type"
named_theorems la_defs "definitions of the log applier that proofs unfold together"

section \<open>Types\<close>

type_synonym byte = "8 word"
type_synonym log_pageid = int
type_synonym log_phy_pageid = int
type_synonym tranid = int
type_synonym errcode = int

abbreviation (input) NULL_PAGEID :: int where "NULL_PAGEID \<equiv> -1"
abbreviation (input) NULL_OFFSET :: int where "NULL_OFFSET \<equiv> -1"
abbreviation (input) NULL_TRANID :: int where "NULL_TRANID \<equiv> -1"
abbreviation (input) LOG_SYSTEM_TRANID :: int where "LOG_SYSTEM_TRANID \<equiv> 0"
abbreviation (input) LOGPB_HEADER_PAGE_ID :: int where "LOGPB_HEADER_PAGE_ID \<equiv> -9"
abbreviation (input) NULL_VOLDES :: int where "NULL_VOLDES \<equiv> -1"

text \<open>The types of log records (\<^verbatim>\<open>enum log_rectype\<close>, \<^verbatim>\<open>transaction/log_impl.h\<close>).\<close>

abbreviation (input) LOG_SMALLER_LOGREC_TYPE :: int where "LOG_SMALLER_LOGREC_TYPE \<equiv> 0"
abbreviation (input) LOG_CLIENT_NAME :: int where "LOG_CLIENT_NAME \<equiv> 1"
abbreviation (input) LOG_UNDOREDO_DATA :: int where "LOG_UNDOREDO_DATA \<equiv> 2"
abbreviation (input) LOG_UNDO_DATA :: int where "LOG_UNDO_DATA \<equiv> 3"
abbreviation (input) LOG_REDO_DATA :: int where "LOG_REDO_DATA \<equiv> 4"
abbreviation (input) LOG_DBEXTERN_REDO_DATA :: int where "LOG_DBEXTERN_REDO_DATA \<equiv> 5"
abbreviation (input) LOG_POSTPONE :: int where "LOG_POSTPONE \<equiv> 6"
abbreviation (input) LOG_RUN_POSTPONE :: int where "LOG_RUN_POSTPONE \<equiv> 7"
abbreviation (input) LOG_COMPENSATE :: int where "LOG_COMPENSATE \<equiv> 8"
abbreviation (input) LOG_LCOMPENSATE :: int where "LOG_LCOMPENSATE \<equiv> 9"
abbreviation (input) LOG_CLIENT_USER_UNDO_DATA :: int where "LOG_CLIENT_USER_UNDO_DATA \<equiv> 10"
abbreviation (input) LOG_CLIENT_USER_POSTPONE_DATA :: int where "LOG_CLIENT_USER_POSTPONE_DATA \<equiv> 11"
abbreviation (input) LOG_RUN_NEXT_CLIENT_UNDO :: int where "LOG_RUN_NEXT_CLIENT_UNDO \<equiv> 12"
abbreviation (input) LOG_RUN_NEXT_CLIENT_POSTPONE :: int where "LOG_RUN_NEXT_CLIENT_POSTPONE \<equiv> 13"
abbreviation (input) LOG_WILL_COMMIT :: int where "LOG_WILL_COMMIT \<equiv> 14"
abbreviation (input) LOG_COMMIT_WITH_POSTPONE :: int where "LOG_COMMIT_WITH_POSTPONE \<equiv> 15"
abbreviation (input) LOG_COMMIT_WITH_CLIENT_USER_LOOSE_ENDS :: int where "LOG_COMMIT_WITH_CLIENT_USER_LOOSE_ENDS \<equiv> 16"
abbreviation (input) LOG_COMMIT :: int where "LOG_COMMIT \<equiv> 17"
abbreviation (input) LOG_COMMIT_TOPOPE_WITH_POSTPONE :: int where "LOG_COMMIT_TOPOPE_WITH_POSTPONE \<equiv> 18"
abbreviation (input) LOG_COMMIT_TOPOPE_WITH_CLIENT_USER_LOOSE_ENDS :: int where "LOG_COMMIT_TOPOPE_WITH_CLIENT_USER_LOOSE_ENDS \<equiv> 19"
abbreviation (input) LOG_COMMIT_TOPOPE :: int where "LOG_COMMIT_TOPOPE \<equiv> 20"
abbreviation (input) LOG_ABORT_WITH_CLIENT_USER_LOOSE_ENDS :: int where "LOG_ABORT_WITH_CLIENT_USER_LOOSE_ENDS \<equiv> 21"
abbreviation (input) LOG_ABORT :: int where "LOG_ABORT \<equiv> 22"
abbreviation (input) LOG_ABORT_TOPOPE_WITH_CLIENT_USER_LOOSE_ENDS :: int where "LOG_ABORT_TOPOPE_WITH_CLIENT_USER_LOOSE_ENDS \<equiv> 23"
abbreviation (input) LOG_ABORT_TOPOPE :: int where "LOG_ABORT_TOPOPE \<equiv> 24"
abbreviation (input) LOG_START_CHKPT :: int where "LOG_START_CHKPT \<equiv> 25"
abbreviation (input) LOG_END_CHKPT :: int where "LOG_END_CHKPT \<equiv> 26"
abbreviation (input) LOG_SAVEPOINT :: int where "LOG_SAVEPOINT \<equiv> 27"
abbreviation (input) LOG_2PC_PREPARE :: int where "LOG_2PC_PREPARE \<equiv> 28"
abbreviation (input) LOG_2PC_START :: int where "LOG_2PC_START \<equiv> 29"
abbreviation (input) LOG_2PC_COMMIT_DECISION :: int where "LOG_2PC_COMMIT_DECISION \<equiv> 30"
abbreviation (input) LOG_2PC_ABORT_DECISION :: int where "LOG_2PC_ABORT_DECISION \<equiv> 31"
abbreviation (input) LOG_2PC_COMMIT_INFORM_PARTICPS :: int where "LOG_2PC_COMMIT_INFORM_PARTICPS \<equiv> 32"
abbreviation (input) LOG_2PC_ABORT_INFORM_PARTICPS :: int where "LOG_2PC_ABORT_INFORM_PARTICPS \<equiv> 33"
abbreviation (input) LOG_2PC_RECV_ACK :: int where "LOG_2PC_RECV_ACK \<equiv> 34"
abbreviation (input) LOG_END_OF_LOG :: int where "LOG_END_OF_LOG \<equiv> 35"
abbreviation (input) LOG_DUMMY_HEAD_POSTPONE :: int where "LOG_DUMMY_HEAD_POSTPONE \<equiv> 36"
abbreviation (input) LOG_DUMMY_CRASH_RECOVERY :: int where "LOG_DUMMY_CRASH_RECOVERY \<equiv> 37"
abbreviation (input) LOG_DUMMY_FILLPAGE_FORARCHIVE :: int where "LOG_DUMMY_FILLPAGE_FORARCHIVE \<equiv> 38"
abbreviation (input) LOG_REPLICATION_DATA :: int where "LOG_REPLICATION_DATA \<equiv> 39"
abbreviation (input) LOG_REPLICATION_SCHEMA :: int where "LOG_REPLICATION_SCHEMA \<equiv> 40"
abbreviation (input) LOG_UNLOCK_COMMIT :: int where "LOG_UNLOCK_COMMIT \<equiv> 41"
abbreviation (input) LOG_UNLOCK_ABORT :: int where "LOG_UNLOCK_ABORT \<equiv> 42"
abbreviation (input) LOG_DIFF_UNDOREDO_DATA :: int where "LOG_DIFF_UNDOREDO_DATA \<equiv> 43"
abbreviation (input) LOG_DUMMY_HA_SERVER_STATE :: int where "LOG_DUMMY_HA_SERVER_STATE \<equiv> 44"
abbreviation (input) LOG_DUMMY_OVF_RECORD :: int where "LOG_DUMMY_OVF_RECORD \<equiv> 45"
abbreviation (input) LOG_LARGER_LOGREC_TYPE :: int where "LOG_LARGER_LOGREC_TYPE \<equiv> 46"

text \<open>Error codes, with the numbers of \<^verbatim>\<open>error_code.h\<close>.\<close>

abbreviation (input) NO_ERROR :: errcode where "NO_ERROR \<equiv> 0"
abbreviation (input) ER_FAILED :: errcode where "ER_FAILED \<equiv> -1"
abbreviation (input) ER_OUT_OF_VIRTUAL_MEMORY :: errcode where "ER_OUT_OF_VIRTUAL_MEMORY \<equiv> -3"
abbreviation (input) ER_INTERRUPTED :: errcode where "ER_INTERRUPTED \<equiv> -4"
abbreviation (input) ER_IO_READ :: errcode where "ER_IO_READ \<equiv> -13"
abbreviation (input) ER_PB_BAD_PAGEID :: errcode where "ER_PB_BAD_PAGEID \<equiv> -17"
abbreviation (input) ER_LOG_READ :: errcode where "ER_LOG_READ \<equiv> -78"
abbreviation (input) ER_LOG_PAGE_CORRUPTED :: errcode where "ER_LOG_PAGE_CORRUPTED \<equiv> -81"
abbreviation (input) ER_LOG_MOUNT_FAIL :: errcode where "ER_LOG_MOUNT_FAIL \<equiv> -82"
abbreviation (input) ER_LOG_NOTIN_ARCHIVE :: errcode where "ER_LOG_NOTIN_ARCHIVE \<equiv> -97"
abbreviation (input) ER_NET_CANT_CONNECT_SERVER :: errcode where "ER_NET_CANT_CONNECT_SERVER \<equiv> -191"
abbreviation (input) ER_OBJ_NO_CONNECT :: errcode where "ER_OBJ_NO_CONNECT \<equiv> -224"
abbreviation (input) ER_HA_LA_EXCEED_MAX_MEM_SIZE :: errcode where "ER_HA_LA_EXCEED_MAX_MEM_SIZE \<equiv> -1035"
abbreviation (input) ER_LC_PARTIALLY_FAILED_TO_FLUSH :: errcode where "ER_LC_PARTIALLY_FAILED_TO_FLUSH \<equiv> -1105"
abbreviation (input) ER_PLUGIN_CREATE_OBJECT_FAIL :: errcode where "ER_PLUGIN_CREATE_OBJECT_FAIL \<equiv> -1164"
abbreviation (input) ER_PLUGIN_JVM_FATAL_EXCEPTION :: errcode where "ER_PLUGIN_JVM_FATAL_EXCEPTION \<equiv> -1165"

section \<open>Log sequence addresses\<close>

text \<open>
  \<^verbatim>\<open>struct log_lsa\<close>: a page identifier and an offset in the page. The
  comparison macros take pointers and first compare the pointers; equal
  pointers denote equal addresses, so the comparisons are on values here.
\<close>

datatype log_lsa = LSA (lsa_pageid: int) (lsa_offset: int)

definition LSA_NULL :: log_lsa where
  "LSA_NULL = LSA NULL_PAGEID NULL_OFFSET"

definition LSA_ISNULL :: "log_lsa \<Rightarrow> bool" where
  "LSA_ISNULL l \<longleftrightarrow> lsa_pageid l = NULL_PAGEID"

definition LSA_LT :: "log_lsa \<Rightarrow> log_lsa \<Rightarrow> bool" where
  "LSA_LT a b \<longleftrightarrow> a \<noteq> b \<and>
     (lsa_pageid a < lsa_pageid b \<or>
      (lsa_pageid a = lsa_pageid b \<and> lsa_offset a < lsa_offset b))"

definition LSA_EQ :: "log_lsa \<Rightarrow> log_lsa \<Rightarrow> bool" where
  "LSA_EQ a b \<longleftrightarrow> a = b \<or> (lsa_pageid a = lsa_pageid b \<and> lsa_offset a = lsa_offset b)"

definition LSA_LE :: "log_lsa \<Rightarrow> log_lsa \<Rightarrow> bool" where
  "LSA_LE a b \<longleftrightarrow> \<not> LSA_LT b a"

definition LSA_GT :: "log_lsa \<Rightarrow> log_lsa \<Rightarrow> bool" where
  "LSA_GT a b \<longleftrightarrow> LSA_LT b a"

definition LSA_GE :: "log_lsa \<Rightarrow> log_lsa \<Rightarrow> bool" where
  "LSA_GE a b \<longleftrightarrow> LSA_LE b a"

text \<open>
  The macros are the order of the address space: page first, then offset. The
  type is an instance of \<open>linorder\<close>, so that the library's facts on orders,
  sortedness and minima apply to addresses.
\<close>

instantiation log_lsa :: linorder
begin

definition less_eq_log_lsa :: "log_lsa \<Rightarrow> log_lsa \<Rightarrow> bool" where
  "less_eq_log_lsa a b \<longleftrightarrow> lsa_pageid a < lsa_pageid b \<or>
     (lsa_pageid a = lsa_pageid b \<and> lsa_offset a \<le> lsa_offset b)"

definition less_log_lsa :: "log_lsa \<Rightarrow> log_lsa \<Rightarrow> bool" where
  "less_log_lsa a b \<longleftrightarrow> lsa_pageid a < lsa_pageid b \<or>
     (lsa_pageid a = lsa_pageid b \<and> lsa_offset a < lsa_offset b)"

instance
  by standard
    (auto simp: less_eq_log_lsa_def less_log_lsa_def intro: log_lsa.expand)

end

lemma LSA_LT_less [lsa_simps]: "LSA_LT a b \<longleftrightarrow> a < b"
  by (auto simp: LSA_LT_def less_log_lsa_def)

lemma LSA_EQ_eq [lsa_simps]: "LSA_EQ a b \<longleftrightarrow> a = b"
  by (auto simp: LSA_EQ_def intro: log_lsa.expand)

lemma LSA_LE_le [lsa_simps]: "LSA_LE a b \<longleftrightarrow> a \<le> b"
  by (simp add: LSA_LE_def LSA_LT_less not_less)

lemma LSA_GT_less [lsa_simps]: "LSA_GT a b \<longleftrightarrow> b < a"
  by (simp add: LSA_GT_def LSA_LT_less)

lemma LSA_GE_le [lsa_simps]: "LSA_GE a b \<longleftrightarrow> b \<le> a"
  by (simp add: LSA_GE_def LSA_LE_le)

lemma LSA_ISNULL_NULL [simp]: "LSA_ISNULL LSA_NULL"
  by (simp add: LSA_ISNULL_def LSA_NULL_def)

section \<open>Arithmetic macros\<close>

definition CEIL_PTVDIV :: "int \<Rightarrow> int \<Rightarrow> int" where
  "CEIL_PTVDIV dividend divisor =
     (if dividend = 0 then 0 else (dividend - 1) sdiv divisor + 1)"

lemma CEIL_PTVDIV_2:
  assumes "0 \<le> l" and "l \<le> r"
  shows "l \<le> CEIL_PTVDIV (l + r) 2 \<and> CEIL_PTVDIV (l + r) 2 \<le> r"
proof (cases "l + r = 0")
  case True
  with assms show ?thesis by (simp add: CEIL_PTVDIV_def)
next
  case False
  with assms have "1 \<le> l + r" by linarith
  then have "(l + r - 1) sdiv 2 = (l + r - 1) div 2"
    by (cases "l + r = 1") (simp_all add: signed_divide_int_def)
  with False assms show ?thesis by (auto simp: CEIL_PTVDIV_def)
qed

text \<open>
  \<^verbatim>\<open>DB_ALIGN\<close> with \<^verbatim>\<open>MAX_ALIGNMENT\<close>, which is
  \<^verbatim>\<open>sizeof(double)\<close> = 8: clearing the three low bits of
  \<open>offset + 7\<close> on a non-negative offset.
\<close>

definition DB_ALIGN :: "nat \<Rightarrow> nat \<Rightarrow> nat" where
  "DB_ALIGN offset align = (offset + align - 1) div align * align"

abbreviation (input) MAX_ALIGNMENT :: nat where "MAX_ALIGNMENT \<equiv> 8"

lemma DB_ALIGN_bounds:
  "0 < a \<Longrightarrow> x \<le> DB_ALIGN x a \<and> DB_ALIGN x a < x + a"
proof -
  assume a: "0 < a"
  have eq: "(x + a - 1) div a * a + (x + a - 1) mod a = x + a - 1" by simp
  have lt: "(x + a - 1) mod a < a" using a by simp
  from eq lt a show ?thesis unfolding DB_ALIGN_def by linarith
qed

lemma DB_ALIGN_dvd: "a dvd DB_ALIGN x a"
  by (simp add: DB_ALIGN_def)

lemma DB_ALIGN_id: "0 < a \<Longrightarrow> a dvd x \<Longrightarrow> DB_ALIGN x a = x"
proof -
  assume a: "0 < a" and "a dvd x"
  then obtain k where x: "x = a * k" by (auto simp: dvd_def)
  have "(a * k + (a - 1)) div a = k + (a - 1) div a"
    using a by (intro div_mult_self4) simp
  moreover have "(a - 1) div a = 0" using a by simp
  moreover have "x + a - 1 = a * k + (a - 1)" using a x by simp
  ultimately show ?thesis using x by (simp add: DB_ALIGN_def)
qed

section \<open>Little-endian decoding of C structures\<close>

text \<open>
  A structure read from a page is the bytes of the page at its offset, as the
  C compilers of the supported 64-bit platforms lay it out: fields at their
  natural alignment, least significant byte first.
\<close>

fun le_nat :: "byte list \<Rightarrow> nat" where
  "le_nat [] = 0"
| "le_nat (b # bs) = unat b + 256 * le_nat bs"

fun le_bytes :: "nat \<Rightarrow> nat \<Rightarrow> byte list" where
  "le_bytes 0 n = []"
| "le_bytes (Suc k) n = of_nat (n mod 256) # le_bytes k (n div 256)"

lemma length_le_bytes [simp]: "length (le_bytes k n) = k"
  by (induction k arbitrary: n) auto

lemma le_nat_bytes: "le_nat (le_bytes k n) = n mod 256 ^ k"
proof (induction k arbitrary: n)
  case 0
  then show ?case by simp
next
  case (Suc k)
  have "unat (of_nat (n mod 256) :: byte) = n mod 256"
    by (simp add: unat_of_nat)
  then show ?case
    using Suc by (simp add: mod_mult2_eq)
qed

lemma le_nat_less: "le_nat bs < 256 ^ length bs"
proof (induction bs)
  case Nil
  then show ?case by simp
next
  case (Cons b bs)
  have "unat b < 256" using unsigned_less [of b] by simp
  with Cons show ?case by simp
qed

definition signed_of :: "nat \<Rightarrow> nat \<Rightarrow> int" where
  "signed_of w n = (if n < 2 ^ (w - 1) then int n else int n - 2 ^ w)"

definition unsigned_of :: "nat \<Rightarrow> int \<Rightarrow> nat" where
  "unsigned_of w i = nat (i mod 2 ^ w)"

lemma signed_unsigned:
  assumes "0 < w" and "- (2 ^ (w - 1)) \<le> i" and "i < 2 ^ (w - 1)"
  shows "signed_of w (unsigned_of w i) = i"
proof -
  have w: "(2::int) ^ w = 2 * 2 ^ (w - 1)"
    using assms(1) by (cases w) auto
  show ?thesis
  proof (cases "0 \<le> i")
    case True
    with assms w have "i mod 2 ^ w = i" by simp
    with True assms show ?thesis
      by (auto simp: signed_of_def unsigned_of_def nat_less_iff)
  next
    case False
    have "(i + 2 ^ w) mod 2 ^ w = i + 2 ^ w"
      using assms w False by (intro mod_pos_pos_trivial) auto
    then have m: "i mod 2 ^ w = i + 2 ^ w" by simp
    have p: "0 \<le> i + 2 ^ w" using assms w by linarith
    have "\<not> nat (i + 2 ^ w) < 2 ^ (w - 1)"
      using assms w by (simp add: nat_less_iff p)
    with m p show ?thesis
      by (simp add: signed_of_def unsigned_of_def)
  qed
qed

definition rd_int :: "nat \<Rightarrow> nat \<Rightarrow> byte list \<Rightarrow> int" where
  "rd_int k off bs = signed_of (8 * k) (le_nat (take k (drop off bs)))"

definition wr_int :: "nat \<Rightarrow> int \<Rightarrow> byte list" where
  "wr_int k i = le_bytes k (unsigned_of (8 * k) i)"

lemma length_wr_int [simp]: "length (wr_int k i) = k"
  by (simp add: wr_int_def)

lemma rd_wr_int:
  assumes "0 < k" and "- (2 ^ (8 * k - 1)) \<le> i" and "i < 2 ^ (8 * k - 1)"
  shows "rd_int k (length pre) (pre @ wr_int k i @ post) = i"
proof -
  have "unsigned_of (8 * k) i < 2 ^ (8 * k)"
    by (simp add: unsigned_of_def nat_less_iff)
  then have "unsigned_of (8 * k) i mod 256 ^ k = unsigned_of (8 * k) i"
    by (simp add: power_mult)
  then show ?thesis
    using assms by (simp add: rd_int_def wr_int_def le_nat_bytes signed_unsigned)
qed

text \<open>Every value read is one of the type, and writing it back gives the bytes.\<close>

lemma rd_int_range:
  assumes "0 < k"
  shows "- (2 ^ (8 * k - 1)) \<le> rd_int k off bs" and "rd_int k off bs < 2 ^ (8 * k - 1)"
proof -
  let ?n = "le_nat (take k (drop off bs))"
  have "?n < 256 ^ length (take k (drop off bs))" by (rule le_nat_less)
  also have "\<dots> \<le> 256 ^ k" by (rule power_increasing) simp_all
  also have "\<dots> = 2 ^ (8 * k)" by (simp add: power_mult)
  finally have n: "int ?n < 2 ^ (8 * k)" by (metis of_nat_less_iff of_nat_numeral of_nat_power)
  have w: "(2 :: int) ^ (8 * k) = 2 * 2 ^ (8 * k - 1)" using assms by (cases "8 * k") auto
  have s: "?n < 2 ^ (8 * k - 1) \<longleftrightarrow> int ?n < 2 ^ (8 * k - 1)" by (metis of_nat_less_iff of_nat_numeral of_nat_power)
  show "- (2 ^ (8 * k - 1)) \<le> rd_int k off bs" "rd_int k off bs < 2 ^ (8 * k - 1)"
    using n w s by (auto simp: rd_int_def signed_of_def)
qed

lemma le_bytes_nat: "length bs = k \<Longrightarrow> le_bytes k (le_nat bs) = bs"
proof (induction k arbitrary: bs)
  case 0
  then show ?case by simp
next
  case (Suc k)
  then obtain b bs' where b: "bs = b # bs'" by (cases bs) auto
  have "unat b < 256" using unsigned_less [of b] by simp
  with Suc b show ?case by simp
qed

lemma unsigned_signed:
  assumes "0 < w" and "n < 2 ^ w"
  shows "unsigned_of w (signed_of w n) = n"
proof -
  have n: "int n < 2 ^ w" using assms(2) by (metis of_nat_less_iff of_nat_numeral of_nat_power)
  then have "int n mod 2 ^ w = int n" by simp
  moreover have "(int n - 2 ^ w) mod 2 ^ w = int n mod 2 ^ w" by (metis minus_mod_self2)
  ultimately show ?thesis by (simp add: signed_of_def unsigned_of_def)
qed

lemma wr_rd_int:
  assumes "0 < k" and "off + k \<le> length bs"
  shows "wr_int k (rd_int k off bs) = take k (drop off bs)"
proof -
  have l: "length (take k (drop off bs)) = k" using assms(2) by simp
  have "le_nat (take k (drop off bs)) < 2 ^ (8 * k)" using le_nat_less [of "take k (drop off bs)"] l by (simp add: power_mult)
  then show ?thesis using assms(1) le_bytes_nat [OF l] by (simp add: wr_int_def rd_int_def unsigned_signed)
qed

section \<open>Lists\<close>

lemma nth_list_update_cases:
  "i < length xs \<Longrightarrow> xs[i := v] ! j = (if j = i then v else xs ! j)"
  by (cases "j < length xs") auto

lemma nth_list_update_lt:
  "j < length xs \<Longrightarrow> xs[i := v] ! j = (if i = j then v else xs ! j)"
  by simp

lemma length_filter_update:
  "i < length xs \<Longrightarrow> P (xs ! i) \<Longrightarrow> \<not> P v \<Longrightarrow> Suc (length (filter P (xs[i := v]))) = length (filter P xs)"
  by (induction xs arbitrary: i) (auto split: nat.splits)

text \<open>A walk around a ring of \<open>n\<close> slots from the one after \<open>p\<close> meets every slot in \<open>n\<close> steps.\<close>

lemma ring_walk_meets:
  fixes n p q :: nat
  assumes "q < n"
  shows "\<exists>k < n. (p + 1 + k) mod n = q"
proof (intro exI conjI)
  let ?s = "(p + 1) mod n"
  let ?k = "(q + (n - ?s)) mod n"
  have s: "?s < n" using assms by simp
  show "?k < n" using assms by simp
  have "(p + 1 + ?k) mod n = (?s + (q + (n - ?s))) mod n"
    by (metis mod_add_left_eq mod_add_right_eq)
  also have "?s + (q + (n - ?s)) = q + n" using s by linarith
  finally show "(p + 1 + ?k) mod n = q" using assms by simp
qed

end
