(* ===== verification/La_Page.thy ===== *)
theory La_Page
  imports Cubrid_Prelude "HOL-Library.Monad_Syntax"
begin

text \<open>
  Log pages and where the log applier reads them from
  (\<^verbatim>\<open>transaction/log_applier.c\<close>): the mapping of logical to physical
  pages of the circular active log, reading a page with retries, the search of
  the archive that holds a page, and fetching a page from an archive or from
  the active log.

  Volumes are written by another process while they are read, and system calls
  can fail. The operations therefore thread a world of arbitrary type through
  the calls of a record \<open>la_io\<close>, one field per primitive the source calls
  (opening an archive, reading its header, reading a page). A jump back to a
  label that may repeat for ever (\<^verbatim>\<open>goto log_reopen\<close>) is a
  \<^theory_text>\<open>partial_function\<close>, where \<open>None\<close> is not returning.
\<close>

section \<open>Headers and pages\<close>

text \<open>The fields of \<^verbatim>\<open>struct log_header\<close> that the applier reads.\<close>

record log_header =
  lh_npages :: int
  lh_fpageid :: log_pageid
  lh_append_lsa :: log_lsa
  lh_nxarv_pageid :: log_pageid
  lh_nxarv_num :: int
  lh_eof_lsa :: log_lsa
  lh_ha_server_state :: int
  lh_ha_file_status :: int

record log_arv_header =
  lah_magic :: string
  lah_npages :: int
  lah_fpageid :: log_pageid
  lah_arv_num :: int

definition CUBRID_MAGIC_LOG_ARCHIVE :: string where
  "CUBRID_MAGIC_LOG_ARCHIVE = ''CUBRID/LogArchive''"

text \<open>\<^verbatim>\<open>LOG_PAGE\<close>: the page header and the log area.\<close>

record log_page =
  lp_logical_pageid :: log_pageid
  lp_offset :: int
  lp_area :: "byte list"

text \<open>\<^verbatim>\<open>LOG_HDRPAGE\<close> takes 16 bytes: page identifier, offset and padding.\<close>

definition decode_log_page :: "byte list \<Rightarrow> log_page" where
  "decode_log_page bs =
     \<lparr>lp_logical_pageid = rd_int 8 0 bs, lp_offset = rd_int 2 8 bs, lp_area = drop 16 bs\<rparr>"

section \<open>Physical pages of the active log\<close>

definition la_log_phypageid :: "log_header \<Rightarrow> log_pageid \<Rightarrow> log_phy_pageid" where
  "la_log_phypageid hdr logical_pageid =
     (if logical_pageid = LOGPB_HEADER_PAGE_ID then 0
      else
        let tmp0 = logical_pageid - lh_fpageid hdr;
            tmp1 = (if lh_npages hdr \<le> tmp0 then tmp0 smod lh_npages hdr
                    else if tmp0 < 0 then lh_npages hdr - ((- tmp0) smod lh_npages hdr)
                    else tmp0);
            tmp2 = tmp1 + 1
        in if lh_npages hdr < tmp2 then tmp2 smod lh_npages hdr else tmp2)"

lemma smod_pos: "0 \<le> a \<Longrightarrow> 0 < b \<Longrightarrow> a smod b = a mod (b :: int)"
  by (cases "a = 0") (simp_all add: signed_modulo_int_def)

lemma la_log_phypageid_eq:
  assumes "2 \<le> lh_npages hdr" and "p \<noteq> LOGPB_HEADER_PAGE_ID"
  shows "la_log_phypageid hdr p = (p - lh_fpageid hdr) mod lh_npages hdr + 1"
proof -
  let ?n = "lh_npages hdr" and ?d = "p - lh_fpageid hdr"
  have n: "0 < ?n" using assms(1) by simp
  consider (ge) "?n \<le> ?d" | (neg) "?d < 0" | (mid) "0 \<le> ?d" "?d < ?n" by linarith
  then show ?thesis
  proof cases
    case ge
    then have "?d smod ?n = ?d mod ?n" using n by (simp add: smod_pos)
    moreover have "?d mod ?n < ?n" using n by simp
    ultimately have "\<not> ?n < ?d smod ?n + 1" by simp
    with \<open>?d smod ?n = _\<close> ge assms show ?thesis by (simp add: la_log_phypageid_def Let_def)
  next
    case mid
    then show ?thesis using assms by (simp add: la_log_phypageid_def Let_def)
  next
    case neg
    define r where "r = (- ?d) mod ?n"
    have r: "0 \<le> r" "r < ?n" using n by (simp_all add: r_def)
    have s: "(- ?d) smod ?n = r" using neg n by (simp add: r_def smod_pos)
    have dm: "?d mod ?n = (if r = 0 then 0 else ?n - r)"
      using zmod_zminus1_eq_if [of "- ?d" ?n] by (simp add: r_def)
    have phy: "la_log_phypageid hdr p =
        (if ?n < ?n - r + 1 then (?n - r + 1) smod ?n else ?n - r + 1)"
      using neg n assms(2) s by (simp add: la_log_phypageid_def Let_def)
    show ?thesis
    proof (cases "r = 0")
      case True
      have "(?n + 1) smod ?n = (1 + ?n) mod ?n" using n by (simp add: smod_pos add.commute)
      also have "\<dots> = 1" using assms(1) by (simp only: mod_add_self2) simp
      finally show ?thesis using True phy dm by simp
    next
      case False
      then show ?thesis using r phy dm by simp
    qed
  qed
qed

section \<open>Reading a page\<close>

text \<open>
  The outcomes of the \<^verbatim>\<open>read\<close> system call: a number of bytes, end of
  file, an interruption, or an error. \<open>reads\<close> is the sequence of outcomes
  the calls meet; \<open>None\<close> is that it ended while the loop still waits. The
  bytes come from the contents of the file at the current position.
  \<open>er\<close> is the number of the last error recorded, which the source asks for
  with \<^verbatim>\<open>er_errid\<close> after the loop.
\<close>

datatype read_result = Rd_bytes nat | Rd_eof | Rd_eintr | Rd_error

fun la_read_loop :: "byte list \<Rightarrow> nat \<Rightarrow> nat \<Rightarrow> int \<Rightarrow> errcode \<Rightarrow> byte list \<Rightarrow> read_result list
    \<Rightarrow> ((errcode \<times> byte list) \<times> read_result list) option" where
  "la_read_loop cont pos remain retries er buf reads =
     (if 0 < remain \<and> retries \<noteq> 0 then
        (let retries' = (if 0 < retries then retries - 1 else retries) in
         case reads of
           [] \<Rightarrow> None
         | Rd_eof # rs \<Rightarrow> la_read_loop cont pos remain retries' ER_PB_BAD_PAGEID buf rs
         | Rd_eintr # rs \<Rightarrow> la_read_loop cont pos remain retries' er buf rs
         | Rd_error # rs \<Rightarrow> Some ((ER_FAILED, buf), rs)
         | Rd_bytes n # rs \<Rightarrow>
             (let k = min n (min remain (length cont - pos)) in
              if k = 0 then la_read_loop cont pos remain retries' ER_PB_BAD_PAGEID buf rs
              else la_read_loop cont (pos + k) (remain - k) retries' er (buf @ take k (drop pos cont)) rs))
      else if 0 < remain then
        Some ((if retries \<le> 0 \<and> er = ER_PB_BAD_PAGEID then ER_PB_BAD_PAGEID else ER_FAILED, buf), reads)
      else Some ((NO_ERROR, buf), reads))"

declare la_read_loop.simps [simp del]

text \<open>
  \<open>seek_ok\<close> is whether \<^verbatim>\<open>lseek64\<close> succeeds; the position is
  \<open>pagesize * pageid\<close>.
\<close>

definition la_log_io_read_with_max_retries ::
    "byte list \<Rightarrow> bool \<Rightarrow> nat \<Rightarrow> nat \<Rightarrow> int \<Rightarrow> errcode \<Rightarrow> read_result list
      \<Rightarrow> ((errcode \<times> byte list) \<times> read_result list) option" where
  "la_log_io_read_with_max_retries cont seek_ok pageid pagesize retries er reads =
     (if \<not> seek_ok then Some ((ER_FAILED, []), reads)
      else la_read_loop cont (pagesize * pageid) pagesize retries er [] reads)"

definition la_log_io_read ::
    "byte list \<Rightarrow> bool \<Rightarrow> nat \<Rightarrow> nat \<Rightarrow> errcode \<Rightarrow> read_result list
      \<Rightarrow> ((errcode \<times> byte list) \<times> read_result list) option" where
  "la_log_io_read cont seek_ok pageid pagesize er reads =
     la_log_io_read_with_max_retries cont seek_ok pageid pagesize (-1) er reads"

text \<open>
  Whatever the sizes of the short reads, a successful read has assembled the
  bytes of the file at the position.
\<close>

lemma la_read_loop_bytes:
  "la_read_loop cont pos remain retries er buf reads = Some ((NO_ERROR, out), rest) \<Longrightarrow>
   out = buf @ take remain (drop pos cont) \<and> remain \<le> length cont - pos"
proof (induction reads arbitrary: pos remain retries er buf)
  case Nil
  then show ?case by (subst (asm) la_read_loop.simps) (auto split: if_splits)
next
  case (Cons r rs)
  note U = Cons.prems [unfolded la_read_loop.simps [of cont pos remain retries er buf "r # rs"]]
  show ?case
  proof (cases "0 < remain \<and> retries \<noteq> 0")
    case False
    with U show ?thesis by (auto split: if_splits)
  next
    case True
    show ?thesis
    proof (cases r)
      case (Rd_bytes n)
      define k where "k = min n (min remain (length cont - pos))"
      show ?thesis
      proof (cases "k = 0")
        case True
        with U \<open>0 < remain \<and> retries \<noteq> 0\<close> Rd_bytes Cons.IH show ?thesis
          by (simp add: k_def Let_def)
      next
        case False
        with U True Rd_bytes have "la_read_loop cont (pos + k) (remain - k)
            (if 0 < retries then retries - 1 else retries) er (buf @ take k (drop pos cont)) rs
            = Some ((NO_ERROR, out), rest)" by (simp add: Let_def k_def [symmetric] split: if_splits)
        from Cons.IH [OF this]
        have out: "out = (buf @ take k (drop pos cont)) @ take (remain - k) (drop (pos + k) cont)"
          and len: "remain - k \<le> length cont - (pos + k)" by simp_all
        have "take remain (drop pos cont) = take k (drop pos cont) @ take (remain - k) (drop k (drop pos cont))"
          using take_add [of k "remain - k" "drop pos cont"] by (simp add: k_def)
        moreover have "k \<le> remain" "k \<le> length cont - pos" by (simp_all add: k_def)
        ultimately show ?thesis using out len by (simp add: add.commute)
      qed
    qed (use U True Cons.IH in \<open>auto simp: Let_def\<close>)
  qed
qed

text \<open>With a positive number of retries the loop makes at most that many calls.\<close>

lemma la_read_loop_returns:
  "0 \<le> retries \<Longrightarrow> retries \<le> int (length reads) \<Longrightarrow>
   \<exists>res rest. la_read_loop cont pos remain retries er buf reads = Some (res, rest)
     \<and> int (length reads) - retries \<le> int (length rest)"
proof (induction reads arbitrary: pos remain retries er buf)
  case Nil
  then show ?case by (subst la_read_loop.simps) auto
next
  case (Cons r rs)
  note U = la_read_loop.simps [of cont pos remain retries er buf "r # rs"]
  show ?case
  proof (cases "0 < remain \<and> retries \<noteq> 0")
    case False
    with Cons.prems show ?thesis by (subst la_read_loop.simps) auto
  next
    case True
    with Cons.prems have rt: "0 \<le> retries - 1" "retries - 1 \<le> int (length rs)" "0 < retries" by auto
    note IH = Cons.IH [OF rt(1,2)]
    show ?thesis
    proof (cases r)
      case (Rd_bytes n)
      define k where "k = min n (min remain (length cont - pos))"
      show ?thesis
        using IH [of pos remain ER_PB_BAD_PAGEID buf]
          IH [of "pos + k" "remain - k" er "buf @ take k (drop pos cont)"] True rt(3) Rd_bytes
        by (subst U) (cases "k = 0", auto simp: Let_def k_def [symmetric])
    next
      case Rd_eof
      with IH [of pos remain ER_PB_BAD_PAGEID buf] True rt(3) show ?thesis
        by (subst U) (auto simp: Let_def)
    next
      case Rd_eintr
      with IH [of pos remain er buf] True rt(3) show ?thesis by (subst U) (auto simp: Let_def)
    next
      case Rd_error
      with True rt Cons.prems show ?thesis by (subst U) (auto simp: Let_def)
    qed
  qed
qed

section \<open>Archives\<close>

text \<open>
  The primitives the fetch operations call, over a world of type \<open>'w\<close>:
  opening an archive by number (the descriptor or \<^verbatim>\<open>NULL_VOLDES\<close>),
  reading its header page and a page at a physical position with ten retries,
  reading a page of the active log, reading the header page of the active log,
  and whether the \<^verbatim>\<open>malloc\<close> of a header page succeeds. With an error, a read
  gives what it left in the buffer.
\<close>

record 'w la_io =
  io_open_arv :: "int \<Rightarrow> 'w \<Rightarrow> int \<times> 'w"
  io_read_arv_hdr :: "int \<Rightarrow> 'w \<Rightarrow> (errcode \<times> log_arv_header) \<times> 'w"
  io_read_arv :: "int \<Rightarrow> log_phy_pageid \<Rightarrow> 'w \<Rightarrow> (errcode \<times> log_page) \<times> 'w"
  io_read_act :: "log_phy_pageid \<Rightarrow> 'w \<Rightarrow> (errcode \<times> log_page) \<times> 'w"
  io_read_act_hdr :: "'w \<Rightarrow> (errcode \<times> log_header) \<times> 'w"
  io_malloc :: "'w \<Rightarrow> bool \<times> 'w"

text \<open>
  The part of \<^verbatim>\<open>la_Info\<close> that fetching reads and writes:
  \<^verbatim>\<open>act_log.log_hdr\<close>, \<^verbatim>\<open>arv_log\<close> (descriptor, whether the header
  page is allocated, the header, the archive number),
  \<^verbatim>\<open>last_deleted_archive_num\<close>, and the flag
  \<^verbatim>\<open>la_applier_need_shutdown\<close>.
\<close>

record la_vols =
  act_log_hdr :: log_header
  arv_log_vdes :: int
  arv_hdr_page :: bool
  arv_log_hdr :: "log_arv_header option"
  arv_log_num :: int
  last_deleted_arv :: int
  need_shutdown :: bool

text \<open>
  \<^verbatim>\<open>la_get_range_of_archive\<close>. The header page is a static buffer,
  allocated by the first call that can; \<open>io_malloc\<close> says whether the buffer
  is there.
\<close>

partial_function (option) la_arv_range_reopen ::
    "'w la_io \<Rightarrow> int \<Rightarrow> 'w \<Rightarrow> ((errcode \<times> log_pageid \<times> int) \<times> 'w) option" where
  "la_arv_range_reopen io arv_num w =
     (case io_open_arv io arv_num w of
        (vdes, w1) \<Rightarrow>
          if vdes = NULL_VOLDES then Some ((ER_LOG_MOUNT_FAIL, 0, 0), w1)
          else (case io_read_arv_hdr io arv_num w1 of
                  ((err, hdr), w2) \<Rightarrow>
                    if err \<noteq> NO_ERROR then
                      (if err = ER_PB_BAD_PAGEID then la_arv_range_reopen io arv_num w2
                       else Some ((ER_LOG_READ, 0, 0), w2))
                    else Some ((NO_ERROR, lah_fpageid hdr, lah_npages hdr), w2)))"

definition la_get_range_of_archive ::
    "'w la_io \<Rightarrow> int \<Rightarrow> 'w \<Rightarrow> ((errcode \<times> log_pageid \<times> int) \<times> 'w) option" where
  "la_get_range_of_archive io arv_num w =
     (case io_malloc io w of
        (ok, w1) \<Rightarrow> if ok then la_arv_range_reopen io arv_num w1
                    else Some ((ER_OUT_OF_VIRTUAL_MEMORY, 0, 0), w1))"

text \<open>One round of the loop of \<^verbatim>\<open>la_find_archive_num\<close>: the range of the guess, then the comparison.\<close>

definition la_archive_range ::
    "'w la_io \<Rightarrow> la_vols \<Rightarrow> int \<Rightarrow> 'w \<Rightarrow> ((errcode \<times> log_pageid \<times> int) \<times> 'w) option" where
  "la_archive_range io st guess w =
     (case arv_log_hdr st of
        Some hdr \<Rightarrow>
          if arv_log_vdes st \<noteq> NULL_VOLDES \<and> guess = lah_arv_num hdr
          then Some ((NO_ERROR, lah_fpageid hdr, lah_npages hdr), w)
          else la_get_range_of_archive io guess w
      | None \<Rightarrow> la_get_range_of_archive io guess w)"

datatype 'w arv_step = Arv_ret errcode int 'w | Arv_go nat int 'w

definition la_find_archive_step ::
    "'w la_io \<Rightarrow> la_vols \<Rightarrow> log_pageid \<Rightarrow> int \<Rightarrow> int \<Rightarrow> nat \<Rightarrow> int \<Rightarrow> 'w \<Rightarrow> 'w arv_step option" where
  "la_find_archive_step io st pageid arv0 guess left right w =
     (case la_archive_range io st guess w of
        None \<Rightarrow> None
      | Some ((err, fpageid, npages), w') \<Rightarrow>
          Some (if err \<noteq> NO_ERROR then Arv_ret err arv0 w'
                else if fpageid \<le> pageid \<and> pageid < fpageid + npages then Arv_ret NO_ERROR guess w'
                else if pageid < fpageid then Arv_go left (guess - 1) w'
                else Arv_go (nat (guess + 1)) right w'))"

function la_find_archive_loop ::
    "'w la_io \<Rightarrow> la_vols \<Rightarrow> log_pageid \<Rightarrow> int \<Rightarrow> nat \<Rightarrow> int \<Rightarrow> 'w \<Rightarrow> ((errcode \<times> int) \<times> 'w) option" where
  "la_find_archive_loop io st pageid arv0 left right w =
     (let guess = CEIL_PTVDIV (int left + right) 2 in
      if 0 \<le> guess \<and> guess < lh_nxarv_num (act_log_hdr st) \<and> int left \<le> right then
        (case la_find_archive_step io st pageid arv0 guess left right w of
           None \<Rightarrow> None
         | Some (Arv_ret err n w') \<Rightarrow> Some ((err, n), w')
         | Some (Arv_go l r w') \<Rightarrow> la_find_archive_loop io st pageid arv0 l r w')
      else Some ((ER_LOG_NOTIN_ARCHIVE, arv0), w))"
  by pat_completeness auto

lemma la_find_archive_step_go:
  assumes "la_find_archive_step io st pageid arv0 guess left right w = Some (Arv_go l r w')"
  shows "(l = left \<and> r = guess - 1) \<or> (l = nat (guess + 1) \<and> r = right)"
  using assms by (auto simp: la_find_archive_step_def split: option.splits if_splits)

termination la_find_archive_loop
proof (relation "measure (\<lambda>(io, st, p, a, l, r, w). nat (r - int l + 1))", goal_cases)
  case 1
  then show ?case by simp
next
  case (2 io st pageid arv0 left right w guess step l r w')
  with CEIL_PTVDIV_2 [of "int left" right] la_find_archive_step_go [of io st pageid arv0 guess left right w l r w']
  show ?case by auto
qed

declare la_find_archive_loop.simps [simp del]

text \<open>
  The first guess is a quotient of page numbers, which the source keeps in an
  \<^verbatim>\<open>int\<close>: the number of an archive.
\<close>

definition la_find_archive_num ::
    "'w la_io \<Rightarrow> la_vols \<Rightarrow> int \<Rightarrow> log_pageid \<Rightarrow> 'w \<Rightarrow> ((errcode \<times> int) \<times> 'w) option" where
  "la_find_archive_num io st arv0 pageid w =
     (let hdr = act_log_hdr st;
          guess0 = (if arv0 = -1
                    then (let g = pageid sdiv lh_npages hdr in
                          if lh_nxarv_num hdr \<le> g then lh_nxarv_num hdr - 1 else g)
                    else arv0);
          left = nat (max 0 (last_deleted_arv st + 1));
          right = lh_nxarv_num hdr - 1;
          guess = max guess0 (int left)
      in case la_find_archive_step io st pageid arv0 guess left right w of
           None \<Rightarrow> None
         | Some (Arv_ret err n w') \<Rightarrow> Some ((err, n), w')
         | Some (Arv_go l r w') \<Rightarrow> la_find_archive_loop io st pageid arv0 l r w')"

section \<open>Fetching a page\<close>

text \<open>
  \<^verbatim>\<open>la_log_fetch_from_archive\<close>. First the archive is chosen
  (\<open>la_arv_choose\<close>): the open one if it holds the page, otherwise the one the
  search finds, closing an open archive of another number. From the label
  \<^verbatim>\<open>log_reopen\<close> on, the archive is opened if it is not open and its header is
  read if the one at hand is not its own (\<open>la_arv_prepare\<close>); then the page is
  read. Where a read reports \<^verbatim>\<open>ER_PB_BAD_PAGEID\<close> the archive is closed
  and the code jumps back to the label.
\<close>

definition la_arv_choose ::
    "'w la_io \<Rightarrow> log_pageid \<Rightarrow> la_vols \<Rightarrow> 'w \<Rightarrow> (errcode \<times> la_vols \<times> 'w) option" where
  "la_arv_choose io pageid st w =
     (let inside = (case arv_log_hdr st of
                      Some hdr \<Rightarrow> arv_log_vdes st \<noteq> NULL_VOLDES \<and>
                                  lah_fpageid hdr \<le> pageid \<and> pageid < lah_fpageid hdr + lah_npages hdr
                    | None \<Rightarrow> False)
      in if inside then Some (NO_ERROR, st, w)
         else (case la_find_archive_num io st (-1) pageid w of
                 None \<Rightarrow> None
               | Some ((err, n), w') \<Rightarrow>
                   if err < 0 then Some (err, st, w')
                   else if arv_log_num st \<noteq> n
                   then Some (NO_ERROR, st\<lparr>arv_log_vdes := (if 0 < arv_log_vdes st then NULL_VOLDES else arv_log_vdes st),
                                          arv_log_num := n\<rparr>, w')
                   else Some (NO_ERROR, st, w')))"

datatype arv_prep = Ap_ret errcode | Ap_reopen | Ap_read

definition la_arv_prepare :: "'w la_io \<Rightarrow> la_vols \<Rightarrow> 'w \<Rightarrow> arv_prep \<times> la_vols \<times> 'w" where
  "la_arv_prepare io st w =
     (let (vdes, w1) = (if arv_log_vdes st = NULL_VOLDES then io_open_arv io (arv_log_num st) w
                        else (arv_log_vdes st, w));
          st1 = st\<lparr>arv_log_vdes := vdes\<rparr>
      in if vdes = NULL_VOLDES then (Ap_ret ER_LOG_MOUNT_FAIL, st1, w1)
         else let (ok, w2) = (if arv_hdr_page st1 then (True, w1) else io_malloc io w1)
              in if \<not> ok then (Ap_ret ER_OUT_OF_VIRTUAL_MEMORY, st1, w2)
                 else let st2 = st1\<lparr>arv_hdr_page := True\<rparr>;
                          stale = (case arv_log_hdr st2 of
                                     None \<Rightarrow> True
                                   | Some hdr \<Rightarrow> lah_magic hdr \<noteq> CUBRID_MAGIC_LOG_ARCHIVE
                                        \<or> lah_arv_num hdr \<noteq> arv_log_num st2)
                      in if \<not> stale then (Ap_read, st2, w2)
                         else (case io_read_arv_hdr io (arv_log_num st2) w2 of
                                 ((err, hdr), w3) \<Rightarrow>
                                   let st3 = st2\<lparr>arv_log_hdr := map_option (\<lambda>_. hdr) (arv_log_hdr st2)\<rparr> in
                                   if err = NO_ERROR then (Ap_read, st2\<lparr>arv_log_hdr := Some hdr\<rparr>, w3)
                                   else if err = ER_PB_BAD_PAGEID
                                   then (Ap_reopen, st3\<lparr>arv_log_vdes := NULL_VOLDES\<rparr>, w3)
                                   else (Ap_ret ER_LOG_READ, st3, w3)))"

definition la_arv_read_page ::
    "'w la_io \<Rightarrow> log_pageid \<Rightarrow> la_vols \<Rightarrow> 'w \<Rightarrow> (errcode \<times> log_page) \<times> 'w" where
  "la_arv_read_page io pageid st w =
     (let fpageid = (case arv_log_hdr st of Some hdr \<Rightarrow> lah_fpageid hdr | None \<Rightarrow> 0)
      in io_read_arv io (arv_log_num st) (pageid - fpageid + 1) w)"

partial_function (option) la_arv_reopen ::
    "'w la_io \<Rightarrow> log_pageid \<Rightarrow> log_page \<Rightarrow> la_vols \<Rightarrow> 'w \<Rightarrow> ((errcode \<times> log_page) \<times> la_vols \<times> 'w) option" where
  "la_arv_reopen io pageid data st w =
     (case la_arv_prepare io st w of
        (prep, st1, w1) \<Rightarrow>
          (case prep of
             Ap_ret err \<Rightarrow> Some ((err, data), st1, w1)
           | Ap_reopen \<Rightarrow> la_arv_reopen io pageid data st1 w1
           | Ap_read \<Rightarrow>
               (case la_arv_read_page io pageid st1 w1 of
                  ((err, pg), w2) \<Rightarrow>
                    if err = NO_ERROR then Some ((NO_ERROR, pg), st1, w2)
                    else if err = ER_PB_BAD_PAGEID
                    then la_arv_reopen io pageid pg (st1\<lparr>arv_log_vdes := NULL_VOLDES\<rparr>) w2
                    else Some ((ER_LOG_READ, pg), st1, w2))))"

definition la_log_fetch_from_archive ::
    "'w la_io \<Rightarrow> log_pageid \<Rightarrow> log_page \<Rightarrow> la_vols \<Rightarrow> 'w \<Rightarrow> ((errcode \<times> log_page) \<times> la_vols \<times> 'w) option" where
  "la_log_fetch_from_archive io pageid data st w =
     (case la_arv_choose io pageid st w of
        None \<Rightarrow> None
      | Some (err, st1, w1) \<Rightarrow>
          if err < 0 then Some ((err, data), st1, w1)
          else la_arv_reopen io pageid data st1 w1)"

definition la_fetch_log_hdr :: "'w la_io \<Rightarrow> la_vols \<Rightarrow> 'w \<Rightarrow> errcode \<times> la_vols \<times> 'w" where
  "la_fetch_log_hdr io st w =
     (case io_read_act_hdr io w of
        ((err, hdr), w') \<Rightarrow>
          (if err \<noteq> NO_ERROR then ER_LOG_READ else NO_ERROR, st\<lparr>act_log_hdr := hdr\<rparr>, w'))"

definition LA_LOG_IS_IN_ARCHIVE :: "la_vols \<Rightarrow> log_pageid \<Rightarrow> bool" where
  "LA_LOG_IS_IN_ARCHIVE st pageid \<longleftrightarrow> pageid < lh_nxarv_pageid (act_log_hdr st)"

record la_cache_buffer =
  cb_fix_count :: int
  cb_recently_free :: bool
  cb_in_archive :: bool
  cb_pageid :: log_pageid
  cb_phy_pageid :: log_phy_pageid
  cb_logpage :: log_page

text \<open>One read of the target page, from an archive or from the active log.\<close>

definition la_log_fetch_read ::
    "'w la_io \<Rightarrow> log_pageid \<Rightarrow> log_phy_pageid \<Rightarrow> la_cache_buffer \<Rightarrow> la_vols \<Rightarrow> 'w
      \<Rightarrow> ((errcode \<times> la_cache_buffer) \<times> la_vols \<times> 'w) option" where
  "la_log_fetch_read io pageid phy buf st w =
     (if LA_LOG_IS_IN_ARCHIVE st pageid then
        (case la_log_fetch_from_archive io pageid (cb_logpage buf) st w of
           None \<Rightarrow> None
         | Some ((err, pg), st1, w1) \<Rightarrow>
             if err \<noteq> NO_ERROR
             then Some ((err, buf\<lparr>cb_logpage := pg\<rparr>), st1\<lparr>need_shutdown := True\<rparr>, w1)
             else Some ((NO_ERROR, buf\<lparr>cb_logpage := pg, cb_in_archive := True\<rparr>), st1, w1))
      else
        (case io_read_act io phy w of
           ((err, pg), w1) \<Rightarrow>
             if err \<noteq> NO_ERROR then Some ((ER_LOG_READ, buf\<lparr>cb_logpage := pg\<rparr>), st, w1)
             else Some ((NO_ERROR, buf\<lparr>cb_logpage := pg, cb_in_archive := False\<rparr>), st, w1)))"

text \<open>
  The loop: read, compare the identifier in the page, otherwise fetch the log
  header again and retry. The second result is the value of \<^verbatim>\<open>retry\<close>
  after the loop.
\<close>

fun la_log_fetch_loop ::
    "'w la_io \<Rightarrow> log_pageid \<Rightarrow> log_phy_pageid \<Rightarrow> nat \<Rightarrow> la_cache_buffer \<Rightarrow> la_vols \<Rightarrow> 'w
      \<Rightarrow> ((errcode \<times> nat \<times> la_cache_buffer) \<times> la_vols \<times> 'w) option" where
  "la_log_fetch_loop io pageid phy 0 buf st w = Some ((NO_ERROR, 0, buf), st, w)"
| "la_log_fetch_loop io pageid phy (Suc k) buf st w =
     (case la_log_fetch_read io pageid phy buf st w of
        None \<Rightarrow> None
      | Some ((err, buf1), st1, w1) \<Rightarrow>
          if err \<noteq> NO_ERROR then Some ((err, Suc k, buf1), st1, w1)
          else if lp_logical_pageid (cb_logpage buf1) = pageid
          then Some ((NO_ERROR, Suc k, buf1), st1, w1)
          else (case la_fetch_log_hdr io st1 w1 of
                  (err2, st2, w2) \<Rightarrow>
                    if err2 \<noteq> NO_ERROR then Some ((err2, Suc k, buf1), st2, w2)
                    else la_log_fetch_loop io pageid phy k buf1 st2 w2))"

definition la_log_fetch ::
    "'w la_io \<Rightarrow> log_pageid \<Rightarrow> la_cache_buffer \<Rightarrow> la_vols \<Rightarrow> 'w
      \<Rightarrow> ((errcode \<times> la_cache_buffer) \<times> la_vols \<times> 'w) option" where
  "la_log_fetch io pageid buf st w =
     (let phy = la_log_phypageid (act_log_hdr st) pageid;
          (err0, st0, w0) = (if lsa_pageid (lh_append_lsa (act_log_hdr st)) < pageid
                             then la_fetch_log_hdr io st w else (NO_ERROR, st, w))
      in if err0 \<noteq> NO_ERROR then Some ((err0, buf), st0, w0)
         else if lsa_pageid (lh_append_lsa (act_log_hdr st0)) < pageid
         then Some ((ER_LOG_NOTIN_ARCHIVE, buf), st0, w0)
         else (case la_log_fetch_loop io pageid phy 5 buf st0 w0 of
                 None \<Rightarrow> None
               | Some ((err, retry, buf1), st1, w1) \<Rightarrow>
                   if err \<noteq> NO_ERROR then Some ((err, buf1), st1, w1)
                   else if retry = 0 \<or> lsa_pageid (lh_append_lsa (act_log_hdr st1)) < pageid
                   then Some ((ER_LOG_NOTIN_ARCHIVE, buf1), st1, w1)
                   else Some ((NO_ERROR, buf1\<lparr>cb_pageid := pageid, cb_phy_pageid := phy\<rparr>), st1, w1)))"

section \<open>The archive search finds the page\<close>

text \<open>
  Archives \<open>lo\<close> to \<open>hi - 1\<close> are readable, archive \<open>n\<close> holding \<open>N n\<close>
  pages from \<open>F n\<close> on, and each continues the one before. A header at hand
  is that of its archive.
\<close>

definition archives_readable :: "'w la_io \<Rightarrow> (int \<Rightarrow> int) \<Rightarrow> (int \<Rightarrow> int) \<Rightarrow> int \<Rightarrow> int \<Rightarrow> bool" where
  "archives_readable io F N lo hi \<longleftrightarrow>
     (\<forall>n w. lo \<le> n \<and> n < hi \<longrightarrow> (\<exists>w'. la_get_range_of_archive io n w = Some ((NO_ERROR, F n, N n), w')))"

definition archives_chain :: "(int \<Rightarrow> int) \<Rightarrow> (int \<Rightarrow> int) \<Rightarrow> int \<Rightarrow> int \<Rightarrow> bool" where
  "archives_chain F N lo hi \<longleftrightarrow> (\<forall>n. lo \<le> n \<and> n < hi \<longrightarrow> 0 < N n \<and> F (n + 1) = F n + N n)"

definition archive_hdr_current :: "la_vols \<Rightarrow> (int \<Rightarrow> int) \<Rightarrow> (int \<Rightarrow> int) \<Rightarrow> bool" where
  "archive_hdr_current st F N \<longleftrightarrow>
     (\<forall>hdr. arv_log_hdr st = Some hdr \<and> arv_log_vdes st \<noteq> NULL_VOLDES \<longrightarrow>
        lah_fpageid hdr = F (lah_arv_num hdr) \<and> lah_npages hdr = N (lah_arv_num hdr))"

lemma archives_chain_mono:
  assumes "archives_chain F N lo hi" and "lo \<le> i" and "i \<le> j" and "j \<le> hi"
  shows "F i \<le> F j"
  using assms(3,4)
proof (induction "nat (j - i)" arbitrary: j)
  case 0
  then show ?case by simp
next
  case (Suc k)
  then have "F i \<le> F (j - 1)" by (intro Suc.hyps(1)) auto
  moreover have "lo \<le> j - 1 \<and> j - 1 < hi" using assms(2) Suc by auto
  then have "0 < N (j - 1) \<and> F (j - 1 + 1) = F (j - 1) + N (j - 1)"
    using assms(1) unfolding archives_chain_def by blast
  ultimately show ?case by simp
qed

lemma la_archive_range_readable:
  assumes "archives_readable io F N lo hi" and "archive_hdr_current st F N" and "lo \<le> n" and "n < hi"
  shows "\<exists>w'. la_archive_range io st n w = Some ((NO_ERROR, F n, N n), w')"
  using assms
  by (auto simp: la_archive_range_def archives_readable_def archive_hdr_current_def split: option.splits)

lemma la_find_archive_step_readable:
  assumes "archives_readable io F N lo hi" and "archive_hdr_current st F N" and "lo \<le> g" and "g < hi"
  shows "\<exists>w'. la_find_archive_step io st pageid arv0 g left right w = Some (
     if F g \<le> pageid \<and> pageid < F g + N g then Arv_ret NO_ERROR g w'
     else if pageid < F g then Arv_go left (g - 1) w' else Arv_go (nat (g + 1)) right w')"
  using la_archive_range_readable [OF assms, of w] by (auto simp: la_find_archive_step_def)

text \<open>The pages of the interval searched stay those from \<open>F left\<close> to \<open>F (right + 1)\<close>.\<close>

definition archive_target :: "(int \<Rightarrow> int) \<Rightarrow> int \<Rightarrow> int \<Rightarrow> log_pageid \<Rightarrow> nat \<Rightarrow> int \<Rightarrow> bool" where
  "archive_target F lo hi pageid left right \<longleftrightarrow>
     lo \<le> int left \<and> int left \<le> hi \<and> lo \<le> right + 1 \<and> right < hi \<and> F (int left) \<le> pageid \<and> pageid < F (right + 1)"

lemma archive_target_nonempty:
  assumes "archives_chain F N lo hi" and "archive_target F lo hi pageid left right"
  shows "int left \<le> right"
proof (rule ccontr)
  assume "\<not> int left \<le> right"
  with assms archives_chain_mono [OF assms(1), of "right + 1" "int left"] show False
    by (auto simp: archive_target_def)
qed

lemma archive_target_step:
  assumes "archives_chain F N lo hi" and "archive_target F lo hi pageid left right" and "0 \<le> lo"
    and "lo \<le> g" and "g < hi" and "\<not> (F g \<le> pageid \<and> pageid < F g + N g)"
  shows "if pageid < F g then archive_target F lo hi pageid left (g - 1)
         else archive_target F lo hi pageid (nat (g + 1)) right"
proof -
  have "F (g + 1) = F g + N g" using assms(1,4,5) by (simp add: archives_chain_def)
  with assms(2-) show ?thesis by (auto simp: archive_target_def)
qed

lemma la_find_archive_loop_finds:
  assumes "hi = lh_nxarv_num (act_log_hdr st)" and "archives_readable io F N lo hi"
    and "archives_chain F N lo hi" and "archive_hdr_current st F N" and "0 \<le> lo"
  shows "archive_target F lo hi pageid left right \<Longrightarrow>
     \<exists>n w'. la_find_archive_loop io st pageid arv0 left right w = Some ((NO_ERROR, n), w')
       \<and> lo \<le> n \<and> n < hi \<and> F n \<le> pageid \<and> pageid < F n + N n"
proof (induction "nat (right - int left + 1)" arbitrary: left right w rule: less_induct)
  case less
  let ?g = "CEIL_PTVDIV (int left + right) 2"
  have le: "int left \<le> right" using archive_target_nonempty [OF assms(3) less.prems] .
  then have g: "int left \<le> ?g" "?g \<le> right" using CEIL_PTVDIV_2 [of "int left" right] by auto
  have "lo \<le> ?g" "?g < hi" using g less.prems by (auto simp: archive_target_def)
  note step = la_find_archive_step_readable [OF assms(2,4) this, of pageid arv0 left right w]
  note U = la_find_archive_loop.simps [of io st pageid arv0 left right w]
  have guard: "0 \<le> ?g \<and> ?g < lh_nxarv_num (act_log_hdr st) \<and> int left \<le> right"
    using \<open>?g < hi\<close> g le assms(1) by auto
  show ?case
  proof (cases "F ?g \<le> pageid \<and> pageid < F ?g + N ?g")
    case True
    with step guard \<open>lo \<le> ?g\<close> \<open>?g < hi\<close> show ?thesis unfolding U by (auto simp: Let_def)
  next
    case False
    note T = archive_target_step [OF assms(3) less.prems assms(5) \<open>lo \<le> ?g\<close> \<open>?g < hi\<close> False]
    show ?thesis
    proof (cases "pageid < F ?g")
      case True
      obtain w' where "la_find_archive_step io st pageid arv0 ?g left right w = Some (Arv_go left (?g - 1) w')"
        using step True False by auto
      moreover have "nat (?g - 1 - int left + 1) < nat (right - int left + 1)" using g le by auto
      ultimately show ?thesis using less.hyps [of "?g - 1" left w'] T True guard
        unfolding U by (simp add: Let_def)
    next
      case ge: False
      obtain w' where "la_find_archive_step io st pageid arv0 ?g left right w
          = Some (Arv_go (nat (?g + 1)) right w')" using step False ge by auto
      moreover have "nat (right - int (nat (?g + 1)) + 1) < nat (right - int left + 1)"
        using g le by auto
      ultimately show ?thesis using less.hyps [of right "nat (?g + 1)" w'] T ge guard
        unfolding U by (simp add: Let_def)
    qed
  qed
qed

lemma la_find_archive_num_finds:
  assumes "hi = lh_nxarv_num (act_log_hdr st)" and "lo = max 0 (last_deleted_arv st + 1)"
    and "archives_readable io F N lo hi" and "archives_chain F N lo hi" and "archive_hdr_current st F N"
    and "lo < hi" and "F lo \<le> pageid" and "pageid < F hi"
  shows "\<exists>n w'. la_find_archive_num io st (-1) pageid w = Some ((NO_ERROR, n), w')
       \<and> lo \<le> n \<and> n < hi \<and> F n \<le> pageid \<and> pageid < F n + N n"
proof -
  let ?left = "nat lo" and ?right = "hi - 1"
  define g where "g = max (let q = pageid sdiv lh_npages (act_log_hdr st) in if hi \<le> q then hi - 1 else q) lo"
  have lo: "0 \<le> lo" "int ?left = lo" using assms(2) by auto
  have g: "lo \<le> g" "g < hi" using assms(6) by (auto simp: g_def Let_def)
  have tgt: "archive_target F lo hi pageid ?left ?right"
    using lo assms(6-8) by (simp add: archive_target_def)
  note step = la_find_archive_step_readable [OF assms(3,5) g, of pageid "-1" ?left ?right w]
  have U: "la_find_archive_num io st (-1) pageid w =
      (case la_find_archive_step io st pageid (-1) g ?left ?right w of None \<Rightarrow> None
       | Some (Arv_ret err n w') \<Rightarrow> Some ((err, n), w')
       | Some (Arv_go l r w') \<Rightarrow> la_find_archive_loop io st pageid (-1) l r w')"
    using lo assms(1,2) by (simp add: la_find_archive_num_def Let_def g_def)
  note loop = la_find_archive_loop_finds [OF assms(1,3-5) lo(1)]
  show ?thesis
  proof (cases "F g \<le> pageid \<and> pageid < F g + N g")
    case True
    with step g show ?thesis unfolding U by auto
  next
    case False
    then obtain l r w' where "la_find_archive_step io st pageid (-1) g ?left ?right w = Some (Arv_go l r w')"
      and "archive_target F lo hi pageid l r"
      using archive_target_step [OF assms(4) tgt lo(1) g False] step by (auto split: if_splits)
    with loop [of pageid l r "-1" w'] show ?thesis unfolding U by simp
  qed
qed

section \<open>What a fetch returns\<close>

lemma la_fetch_log_hdr_frame:
  "la_fetch_log_hdr io st w = (err, st', w') \<Longrightarrow> need_shutdown st' = need_shutdown st"
  by (auto simp: la_fetch_log_hdr_def split: prod.splits if_splits)

lemma la_log_fetch_read_frame:
  assumes "la_log_fetch_read io pageid phy buf st w = Some ((err, buf'), st', w')"
  shows "cb_fix_count buf' = cb_fix_count buf \<and> cb_recently_free buf' = cb_recently_free buf \<and>
    cb_pageid buf' = cb_pageid buf"
  using assms by (auto simp: la_log_fetch_read_def split: if_splits option.splits prod.splits)

lemma la_log_fetch_loop_frame:
  "la_log_fetch_loop io pageid phy k buf st w = Some ((err, r, buf'), st', w') \<Longrightarrow>
   cb_fix_count buf' = cb_fix_count buf \<and> cb_recently_free buf' = cb_recently_free buf \<and>
   cb_pageid buf' = cb_pageid buf \<and>
   (err = NO_ERROR \<and> 0 < r \<longrightarrow> lp_logical_pageid (cb_logpage buf') = pageid)"
proof (induction k arbitrary: buf st w)
  case 0
  then show ?case by simp
next
  case (Suc k)
  then show ?case
    by (auto split: option.splits if_splits prod.splits dest!: la_log_fetch_read_frame Suc.IH)
qed

lemma la_log_fetch_result:
  assumes "la_log_fetch io pageid buf st w = Some ((err, buf'), st', w')"
  shows "cb_fix_count buf' = cb_fix_count buf" and "cb_recently_free buf' = cb_recently_free buf"
    and "err = NO_ERROR \<Longrightarrow> cb_pageid buf' = pageid"
    and "err = NO_ERROR \<Longrightarrow> lp_logical_pageid (cb_logpage buf') = pageid"
    and "err = NO_ERROR \<Longrightarrow> pageid \<le> lsa_pageid (lh_append_lsa (act_log_hdr st'))"
    and "err \<noteq> NO_ERROR \<Longrightarrow> cb_pageid buf' = cb_pageid buf"
  using assms
  by (auto simp: la_log_fetch_def Let_def split: option.splits if_splits prod.splits
      dest!: la_log_fetch_loop_frame)

section \<open>Properties\<close>

text \<open>
  C30. The active log is a ring: within a window of as many consecutive pages as
  the active log has, every page has a position of its own between the first
  and the last page behind the header page, before the page the log starts at
  too.
\<close>

theorem la_log_phypageid_window:
  assumes "2 \<le> lh_npages hdr" and "p \<noteq> LOGPB_HEADER_PAGE_ID" and "q \<noteq> LOGPB_HEADER_PAGE_ID"
    and "a \<le> p" and "p < a + lh_npages hdr" and "a \<le> q" and "q < a + lh_npages hdr"
  shows "1 \<le> la_log_phypageid hdr p \<and> la_log_phypageid hdr p \<le> lh_npages hdr \<and>
    (la_log_phypageid hdr p = la_log_phypageid hdr q \<longleftrightarrow> p = q)"
proof -
  let ?n = "lh_npages hdr"
  have n: "0 < ?n" using assms(1) by simp
  note phy = la_log_phypageid_eq [OF assms(1,2)] la_log_phypageid_eq [OF assms(1,3)]
  have "p = q" if "(p - lh_fpageid hdr) mod ?n = (q - lh_fpageid hdr) mod ?n"
  proof -
    have "?n dvd (p - q)" using mod_eq_dvd_iff [THEN iffD1, OF that] by simp
    moreover have "\<bar>p - q\<bar> < ?n" using assms(4-7) by linarith
    ultimately show ?thesis using n zdvd_imp_le [of ?n "\<bar>p - q\<bar>"] by fastforce
  qed
  moreover have "0 \<le> (p - lh_fpageid hdr) mod ?n" "(p - lh_fpageid hdr) mod ?n < ?n" using n by simp_all
  ultimately show ?thesis unfolding phy by auto
qed

definition ex_hdr :: log_header where
  "ex_hdr = \<lparr>lh_npages = 10, lh_fpageid = 30, lh_append_lsa = LSA 38 0, lh_nxarv_pageid = 30, lh_nxarv_num = 3,
     lh_eof_lsa = LSA 38 0, lh_ha_server_state = 0, lh_ha_file_status = 0\<rparr>"

lemma la_log_phypageid_window_witness:
  "la_log_phypageid ex_hdr 28 = 9 \<and> (la_log_phypageid ex_hdr 28 = la_log_phypageid ex_hdr 31 \<longleftrightarrow> (28 :: int) = 31)"
  using la_log_phypageid_window [of ex_hdr 28 31 25]
  by (simp add: ex_hdr_def la_log_phypageid_def Let_def signed_modulo_int_def)

text \<open>
  C31. However the operating system splits a page read into short reads, end of
  file reports and interruptions, a read that succeeds has put exactly the
  bytes of that page of the file into the buffer.
\<close>

theorem la_log_io_read_page:
  assumes "la_log_io_read_with_max_retries cont seek_ok pageid pagesize retries er reads = Some ((NO_ERROR, out), rest)"
  shows "seek_ok \<and> length out = pagesize \<and> out = take pagesize (drop (pagesize * pageid) cont)"
  using assms la_read_loop_bytes [of cont "pagesize * pageid" pagesize retries er "[]" reads out rest]
  by (auto simp: la_log_io_read_with_max_retries_def split: if_splits)

lemma la_log_io_read_page_witness:
  "\<exists>out rest. la_log_io_read_with_max_retries [1, 2, 3, 4, 5, 6] True 1 3 10 0 [Rd_bytes 1, Rd_eintr, Rd_bytes 2]
     = Some ((NO_ERROR, out), rest) \<and> length out = 3 \<and> out = [4, 5, 6]"
proof -
  have "la_log_io_read_with_max_retries [1, 2, 3, 4, 5, 6] True 1 3 10 0 [Rd_bytes 1, Rd_eintr, Rd_bytes 2]
     = Some ((NO_ERROR, [4, 5, 6]), [])"
    by (simp add: la_log_io_read_with_max_retries_def la_read_loop.simps Let_def)
  from this la_log_io_read_page [OF this] show ?thesis by blast
qed

text \<open>
  C32. A read with a bound on its retries ends: it makes at most that many
  system calls, whatever they return.
\<close>

theorem la_log_io_read_ends:
  assumes "0 \<le> retries" and "retries \<le> int (length reads)"
  shows "\<exists>res rest. la_log_io_read_with_max_retries cont seek_ok pageid pagesize retries er reads = Some (res, rest) \<and>
    int (length reads) - retries \<le> int (length rest)"
  using assms la_read_loop_returns [OF assms] by (auto simp: la_log_io_read_with_max_retries_def)

lemma la_log_io_read_ends_witness:
  "\<exists>res rest. la_log_io_read_with_max_retries [] True 0 4 3 0 [Rd_eof, Rd_eof, Rd_eof, Rd_eof] = Some (res, rest) \<and>
    1 \<le> int (length rest)"
  using la_log_io_read_ends [of 3 "[Rd_eof, Rd_eof, Rd_eof, Rd_eof]" "[]" True 0 4 0] by simp

text \<open>
  C23. The search for the archive of a page ends and finds it: where the
  archives from the first one not deleted on can be read and cover consecutive
  ranges of pages, a page in one of them is found in an archive whose range
  holds it, from whatever guess the search begins.
\<close>

theorem la_find_archive_num_correct:
  assumes "archives_readable io F N (max 0 (last_deleted_arv st + 1)) (lh_nxarv_num (act_log_hdr st))"
    and "archives_chain F N (max 0 (last_deleted_arv st + 1)) (lh_nxarv_num (act_log_hdr st))"
    and "archive_hdr_current st F N" and "max 0 (last_deleted_arv st + 1) < lh_nxarv_num (act_log_hdr st)"
    and "F (max 0 (last_deleted_arv st + 1)) \<le> pageid" and "pageid < F (lh_nxarv_num (act_log_hdr st))"
  shows "\<exists>n w'. la_find_archive_num io st (-1) pageid w = Some ((NO_ERROR, n), w') \<and>
    last_deleted_arv st < n \<and> n < lh_nxarv_num (act_log_hdr st) \<and> F n \<le> pageid \<and> pageid < F n + N n"
  using la_find_archive_num_finds [OF refl refl assms, of w] by fastforce

definition ex_arv :: "int \<Rightarrow> log_arv_header" where
  "ex_arv n = \<lparr>lah_magic = CUBRID_MAGIC_LOG_ARCHIVE, lah_npages = 10, lah_fpageid = 10 * n, lah_arv_num = n\<rparr>"

definition ex_page :: "log_pageid \<Rightarrow> log_page" where
  "ex_page p = \<lparr>lp_logical_pageid = p, lp_offset = 0, lp_area = replicate 40 (of_int p)\<rparr>"

definition ex_io :: "'w la_io" where
  "ex_io = \<lparr>io_open_arv = \<lambda>n w. (n + 3, w), io_read_arv_hdr = \<lambda>n w. ((NO_ERROR, ex_arv n), w),
     io_read_arv = \<lambda>n p w. ((NO_ERROR, ex_page (10 * n + p - 1)), w),
     io_read_act = \<lambda>p w. ((NO_ERROR, ex_page (29 + p)), w), io_read_act_hdr = \<lambda>w. ((NO_ERROR, ex_hdr), w),
     io_malloc = \<lambda>w. (True, w)\<rparr>"

definition ex_vols :: la_vols where
  "ex_vols = \<lparr>act_log_hdr = ex_hdr, arv_log_vdes = NULL_VOLDES, arv_hdr_page = False, arv_log_hdr = None,
     arv_log_num = -1, last_deleted_arv = -1, need_shutdown = False\<rparr>"

lemma ex_io_range: "la_get_range_of_archive ex_io n w = Some ((NO_ERROR, 10 * n, 10), w)" if "0 \<le> n"
  using that by (simp add: la_get_range_of_archive_def ex_io_def la_arv_range_reopen.simps ex_arv_def)

lemma ex_io_readable: "archives_readable ex_io (\<lambda>n. 10 * n) (\<lambda>n. 10) 0 3"
  by (simp add: archives_readable_def ex_io_range)

lemma la_find_archive_num_correct_witness:
  "\<exists>n w'. la_find_archive_num ex_io ex_vols (-1) 17 () = Some ((NO_ERROR, n), w') \<and> 10 * n \<le> 17 \<and> 17 < 10 * n + 10"
  using la_find_archive_num_correct [of ex_io "\<lambda>n. 10 * n" "\<lambda>n. 10" ex_vols 17 "()"] ex_io_readable
  by (auto simp: ex_vols_def ex_hdr_def archives_chain_def archive_hdr_current_def)

text \<open>
  C24. A fetch that succeeds has put the page asked for into the buffer (the
  page says so itself), a page the log reaches to; a fetch that fails leaves
  the identity of the buffer, and no fetch changes its fix count.
\<close>

theorem la_log_fetch_page:
  assumes "la_log_fetch io pageid buf st w = Some ((err, buf'), st', w')"
  shows "cb_fix_count buf' = cb_fix_count buf \<and>
    (if err = NO_ERROR
     then cb_pageid buf' = pageid \<and> lp_logical_pageid (cb_logpage buf') = pageid \<and>
       pageid \<le> lsa_pageid (lh_append_lsa (act_log_hdr st'))
     else cb_pageid buf' = cb_pageid buf)"
  using la_log_fetch_result [OF assms] by simp

definition ex_buf :: la_cache_buffer where
  "ex_buf = \<lparr>cb_fix_count = 2, cb_recently_free = False, cb_in_archive = False, cb_pageid = 0, cb_phy_pageid = 0,
     cb_logpage = ex_page 0\<rparr>"

lemma la_log_fetch_page_witness:
  "\<exists>buf' st' w'. la_log_fetch ex_io 33 ex_buf ex_vols () = Some ((NO_ERROR, buf'), st', w') \<and> cb_pageid buf' = 33 \<and>
     cb_fix_count buf' = 2"
proof -
  have "\<exists>buf' st' w'. la_log_fetch ex_io 33 ex_buf ex_vols () = Some ((NO_ERROR, buf'), st', w')"
    by (simp add: la_log_fetch_def la_log_fetch_loop.simps la_log_fetch_read_def ex_io_def ex_vols_def ex_hdr_def
        la_log_phypageid_def LA_LOG_IS_IN_ARCHIVE_def ex_page_def eval_nat_numeral)
  then obtain buf' st' w' where f: "la_log_fetch ex_io 33 ex_buf ex_vols () = Some ((NO_ERROR, buf'), st', w')" by blast
  from la_log_fetch_page [OF f] f show ?thesis by (auto simp: ex_buf_def)
qed

end
