(* ===== verification/Memory_Hash.thy ===== *)
theory Memory_Hash
  imports Cubrid_Prelude "HOL-Library.While_Combinator"
begin

text \<open>
  The memory hash table of \<^verbatim>\<open>base/memory_hash.c\<close>: the size calculation
  over the table of primes, creation, lookup with its LRU adjustment,
  insertion with rehashing, removal, clearing and mapping, on chains of
  entries. The log applier keeps its page buffers in such a table.

  An entry (\<^verbatim>\<open>HENTRY\<close>) is a number into a store of key/data pairs; the
  chains, the list of active entries, the LRU list and the list of
  preallocated entries are lists of entry numbers, in the order of their
  links. Keys are pointers in the source, compared by address or by the
  table's comparison function, and the user may change what they point to; so
  the hash and comparison functions are arguments of every operation, applied
  to what the keys denote at the time of the call. Memory exhaustion is an
  argument too. The theory ends with the interface the users of the table rely
  on, as a locale, and its interpretation for tables keyed by log page
  identifiers.
\<close>

section \<open>Floating point\<close>

text \<open>
  The thresholds of the table are computed in \<^verbatim>\<open>float\<close> and
  \<^verbatim>\<open>double\<close>. A non-negative float is the fraction it denotes;
  \<open>fl_round p a b\<close> rounds \<open>a / b\<close> to \<open>p\<close> significant bits, ties to
  even (24 for \<^verbatim>\<open>float\<close>, 53 for \<^verbatim>\<open>double\<close>).
\<close>

fun ilog2 :: "nat \<Rightarrow> nat" where
  "ilog2 n = (if n < 2 then 0 else Suc (ilog2 (n div 2)))"

declare ilog2.simps [simp del]

definition fl_scale :: "int \<Rightarrow> nat \<Rightarrow> nat \<Rightarrow> nat \<times> nat" where
  "fl_scale e a b = (if 0 \<le> e then (a, b * 2 ^ nat e) else (a * 2 ^ nat (- e), b))"

definition fl_round :: "nat \<Rightarrow> nat \<Rightarrow> nat \<Rightarrow> nat \<times> nat" where
  "fl_round p a b =
     (if a = 0 then (0, 1)
      else let e0 = int (ilog2 a) - int (ilog2 b) - int p;
               (n0, d0) = fl_scale e0 a b;
               e = (if 2 ^ p * d0 \<le> n0 then e0 + 1 else e0);
               (n, d) = fl_scale e a b;
               q = n div d; r = n mod d;
               q' = (if d < 2 * r \<or> (d = 2 * r \<and> odd q) then Suc q else q)
           in if 0 \<le> e then (q' * 2 ^ nat e, 1) else (q', 2 ^ nat (- e)))"

definition fl_mul :: "nat \<Rightarrow> nat \<times> nat \<Rightarrow> nat \<times> nat \<Rightarrow> nat \<times> nat" where
  "fl_mul p x y = fl_round p (fst x * fst y) (snd x * snd y)"

definition fl_less :: "nat \<times> nat \<Rightarrow> nat \<times> nat \<Rightarrow> bool" where
  "fl_less x y \<longleftrightarrow> fst x * snd y < fst y * snd x"

definition fl_trunc :: "nat \<times> nat \<Rightarrow> nat" where
  "fl_trunc x = fst x div snd x"

definition MHT_REHASH_TRESHOLD :: "nat \<times> nat" where
  "MHT_REHASH_TRESHOLD = fl_round 24 7 10"

definition MHT_REHASH_FACTOR :: "nat \<times> nat" where
  "MHT_REHASH_FACTOR = fl_round 24 13 10"

section \<open>Table sizes\<close>

definition mht_Primes :: "nat list" where
  "mht_Primes = [
  11, 23, 37, 53, 67, 79, 97, 109, 127, 149,
  167, 191, 211, 227, 251, 269, 293, 311, 331, 349,
  367, 389, 409, 431, 449, 467, 487, 509, 541, 563,
  587, 607, 631, 653, 673, 521, 541, 557, 569, 587,
  599, 613, 641, 673, 701, 727, 751, 787, 821, 853,
  881, 907, 941, 977, 1039, 1087, 1129, 1171, 1213, 1259,
  1301, 1361, 1409, 1471, 1523, 1579, 1637, 1693, 1747, 1777,
  1823, 1867, 1913, 1973, 2017, 2129, 2237, 2339, 2441, 2543,
  2647, 2749, 2851, 2953, 3061, 3163, 3271, 3373, 3491, 3593,
  3697, 3803, 3907, 4013, 4177, 4337, 4493, 4649, 4801, 4957,
  5059, 5167, 5273, 5381, 5483, 5591, 5693, 5801, 5903, 6007,
  6113, 6217, 6317, 6421, 6521, 6637, 6737, 6841, 6847, 7057,
  7283, 7487, 7687, 7901, 8101, 8311, 8513, 8713, 8923, 9127,
  9337, 9539, 9739, 9941, 10141, 10343, 10559, 10771, 10973, 11177,
  11383, 11587, 11789, 12007, 12409, 12809, 13217, 13619, 14029, 14431,
  14831, 15233, 15641, 16057, 16477, 16879, 17291, 18097, 18899, 19699,
  20507, 21313, 22123, 23131, 24133, 25147, 26153, 27179, 28181, 29123]"

abbreviation (input) NPRIMES :: nat where "NPRIMES \<equiv> 170"

text \<open>The binary search over the table: the index of the last entry probed.\<close>

function mht_size_search :: "nat \<Rightarrow> nat \<Rightarrow> int \<Rightarrow> nat \<Rightarrow> nat" where
  "mht_size_search ht_size left right middle =
     (if int left \<le> right then
        let m = nat (CEIL_PTVDIV (int left + right) 2) in
        if ht_size = mht_Primes ! m then m
        else if mht_Primes ! m < ht_size then mht_size_search ht_size (m + 1) right m
        else mht_size_search ht_size left (int m - 1) m
      else middle)"
  by pat_completeness auto
termination
proof (relation "measure (\<lambda>(s, l, r, m). nat (r - int l + 1))", goal_cases)
  case 1
  then show ?case by simp
next
  case (2 s l r m x)
  with CEIL_PTVDIV_2 [of "int l" r] show ?case by auto
next
  case (3 s l r m x)
  with CEIL_PTVDIV_2 [of "int l" r] show ?case by auto
qed

declare mht_size_search.simps [simp del]

text \<open>
  \<^verbatim>\<open>mht_calculate_htsize\<close>. For a size beyond the table that is no power
  of two the source means to clear all bits but the leftmost one; the condition
  of that loop, \<^verbatim>\<open>!(ht_size & (ht_size - 1))\<close>, is the negation of the
  condition under which the loop is reached, so its body never runs and the
  size is only shifted (in 32 bits), although the comment of the function
  promises a power of two.
\<close>

definition mht_calculate_htsize :: "nat \<Rightarrow> nat" where
  "mht_calculate_htsize ht_size =
     (if mht_Primes ! (NPRIMES - 1) < ht_size then
        (if and ht_size (ht_size - 1) \<noteq> 0
         then while (\<lambda>s. and s (s - 1) = 0) (\<lambda>s. and s (s - 1)) ht_size * 2 mod 2 ^ 32 else ht_size)
      else
        let middle = mht_size_search ht_size 0 (int NPRIMES - 1) 0;
            middle' = (if mht_Primes ! middle < ht_size \<and> middle < NPRIMES - 1
                       then middle + 1 else middle)
        in mht_Primes ! middle')"

section \<open>The table\<close>

record ('k, 'd) mht_table =
  mht_ent :: "nat \<rightharpoonup> 'k \<times> 'd"
  mht_vec :: "nat list list"
  mht_act :: "nat list"
  mht_lru :: "nat list"
  mht_prealloc :: "nat list"
  mht_heap :: nat
  mht_size :: nat
  mht_rehash_at :: nat
  mht_nentries :: nat
  mht_nprealloc :: nat
  mht_ncollisions :: nat
  mht_build_lru :: bool

datatype mht_put_opt = MHT_OPT_DEFAULT | MHT_OPT_KEEP_KEY | MHT_OPT_INSERT_ONLY

text \<open>
  \<^verbatim>\<open>mht_create\<close>. The bytes of the vector are counted in an \<^verbatim>\<open>unsigned int\<close>;
  here and in the rehash the count does not wrap, so tables of 2 to the 29
  chains and more, of 4 GB and more, are not covered.
\<close>

definition mht_create :: "bool \<Rightarrow> int \<Rightarrow> ('k, 'd) mht_table option" where
  "mht_create mem est_size =
     (let est = (if est_size \<le> 0 then 2 else est_size);
          sz = mht_calculate_htsize (nat est)
      in if \<not> mem then None
         else Some \<lparr>mht_ent = Map.empty, mht_vec = replicate sz [], mht_act = [],
                    mht_lru = [], mht_prealloc = [], mht_heap = 0, mht_size = sz,
                    mht_rehash_at = fl_trunc (fl_mul 24 (fl_round 24 sz 1) MHT_REHASH_TRESHOLD),
                    mht_nentries = 0, mht_nprealloc = 0, mht_ncollisions = 0,
                    mht_build_lru = False\<rparr>)"

text \<open>Hash a key and bring the value into the range of the table.\<close>

definition mht_index :: "('k \<Rightarrow> nat \<Rightarrow> nat) \<Rightarrow> nat \<Rightarrow> 'k \<Rightarrow> nat" where
  "mht_index h sz key = (if sz \<le> h key sz then h key sz mod sz else h key sz)"

text \<open>Walk a chain to the first entry with the key.\<close>

fun mht_chain_find :: "('k \<Rightarrow> 'k \<Rightarrow> bool) \<Rightarrow> (nat \<rightharpoonup> 'k \<times> 'd) \<Rightarrow> 'k \<Rightarrow> nat list \<Rightarrow> nat option" where
  "mht_chain_find cmp E key [] = None"
| "mht_chain_find cmp E key (e # es) =
     (case E e of
        Some (k, d) \<Rightarrow> if k = key \<or> cmp k key then Some e else mht_chain_find cmp E key es
      | None \<Rightarrow> mht_chain_find cmp E key es)"

definition mht_search :: "('k \<Rightarrow> nat \<Rightarrow> nat) \<Rightarrow> ('k \<Rightarrow> 'k \<Rightarrow> bool) \<Rightarrow> ('k, 'd) mht_table \<Rightarrow> 'k \<Rightarrow> nat option" where
  "mht_search h cmp ht key =
     mht_chain_find cmp (mht_ent ht) key (mht_vec ht ! mht_index h (mht_size ht) key)"

definition mht_adjust_lru_list :: "('k, 'd) mht_table \<Rightarrow> nat \<Rightarrow> ('k, 'd) mht_table" where
  "mht_adjust_lru_list ht e =
     (if mht_build_lru ht \<and> \<not> (mht_lru ht \<noteq> [] \<and> last (mht_lru ht) = e)
      then ht\<lparr>mht_lru := remove1 e (mht_lru ht) @ [e]\<rparr> else ht)"

definition mht_get :: "('k \<Rightarrow> nat \<Rightarrow> nat) \<Rightarrow> ('k \<Rightarrow> 'k \<Rightarrow> bool) \<Rightarrow> ('k, 'd) mht_table \<Rightarrow> 'k
    \<Rightarrow> 'd option \<times> ('k, 'd) mht_table" where
  "mht_get h cmp ht key =
     (case mht_search h cmp ht key of
        Some e \<Rightarrow> (map_option snd (mht_ent ht e), mht_adjust_lru_list ht e)
      | None \<Rightarrow> (None, ht))"

text \<open>Move the entries of all chains, in their order, into a new vector.\<close>

definition mht_rehash_entry :: "('k \<Rightarrow> nat \<Rightarrow> nat) \<Rightarrow> (nat \<rightharpoonup> 'k \<times> 'd) \<Rightarrow> nat \<Rightarrow> nat
    \<Rightarrow> nat list list \<times> nat \<Rightarrow> nat list list \<times> nat" where
  "mht_rehash_entry h E est e vc =
     (case E e of
        None \<Rightarrow> vc
      | Some (k, d) \<Rightarrow>
          let i = mht_index h est k; (v, c) = vc
          in (v[i := e # v ! i], if v ! i \<noteq> [] then c + 1 else c))"

definition mht_rehash_est :: "('k, 'd) mht_table \<Rightarrow> nat" where
  "mht_rehash_est ht =
     (let q = fl_round 24 (fst (fl_round 24 (mht_ncollisions ht) 1) * snd (fl_round 24 (mht_nentries ht) 1))
                          (snd (fl_round 24 (mht_ncollisions ht) 1) * fst (fl_round 24 (mht_nentries ht) 1));
          s = fl_round 53 (fst q + snd q) (snd q);
          rehash_factor = fl_round 24 (fst s) (snd s);
          sz = fl_round 24 (mht_size ht) 1
      in fl_trunc (fl_mul 24 sz (if fl_less rehash_factor MHT_REHASH_FACTOR
                                 then MHT_REHASH_FACTOR else rehash_factor)) mod 2 ^ 32)"

definition mht_rehash :: "('k \<Rightarrow> nat \<Rightarrow> nat) \<Rightarrow> bool \<Rightarrow> ('k, 'd) mht_table \<Rightarrow> errcode \<times> ('k, 'd) mht_table" where
  "mht_rehash h mem ht =
     (let est = mht_calculate_htsize (mht_rehash_est ht) in
      if \<not> mem then (ER_OUT_OF_VIRTUAL_MEMORY, ht)
      else let (v, c) = fold (mht_rehash_entry h (mht_ent ht) est) (concat (mht_vec ht))
                             (replicate est [], 0)
           in (NO_ERROR, ht\<lparr>mht_vec := v, mht_ncollisions := c, mht_size := est,
                 mht_rehash_at := fl_trunc (fl_mul 24 (fl_round 24 est 1) MHT_REHASH_TRESHOLD)\<rparr>))"

text \<open>
  Insertion. \<open>mem\<close> says whether \<^verbatim>\<open>db_fixed_alloc\<close> and whether the
  \<^verbatim>\<open>malloc\<close> of a rehash succeed; the result is false where the source
  returns \<^verbatim>\<open>NULL\<close>, which it does as well when the entry is in the table and
  only the rehash fails.
\<close>

definition mht_new_entry :: "bool \<Rightarrow> ('k, 'd) mht_table \<Rightarrow> (nat \<times> ('k, 'd) mht_table) option" where
  "mht_new_entry mem ht =
     (case mht_prealloc ht of
        e # es \<Rightarrow> Some (e, ht\<lparr>mht_prealloc := es, mht_nprealloc := mht_nprealloc ht - 1\<rparr>)
      | [] \<Rightarrow> if mem then Some (mht_heap ht, ht\<lparr>mht_heap := mht_heap ht + 1\<rparr>) else None)"

definition mht_link_entry :: "nat \<Rightarrow> nat \<Rightarrow> 'k \<Rightarrow> 'd \<Rightarrow> ('k, 'd) mht_table \<Rightarrow> ('k, 'd) mht_table" where
  "mht_link_entry i e key data ht =
     ht\<lparr>mht_lru := (if mht_build_lru ht then mht_lru ht @ [e] else mht_lru ht),
        mht_ent := (mht_ent ht)(e \<mapsto> (key, data)),
        mht_act := mht_act ht @ [e],
        mht_ncollisions := (if mht_vec ht ! i \<noteq> [] then mht_ncollisions ht + 1 else mht_ncollisions ht),
        mht_vec := (mht_vec ht)[i := e # mht_vec ht ! i],
        mht_nentries := mht_nentries ht + 1\<rparr>"

definition mht_needs_rehash :: "('k, 'd) mht_table \<Rightarrow> bool" where
  "mht_needs_rehash ht \<longleftrightarrow> mht_rehash_at ht < mht_nentries ht \<and>
     fl_less (fl_mul 53 (mht_nentries ht, 1) (fl_round 53 5 100)) (mht_ncollisions ht, 1)"

definition mht_put_internal :: "('k \<Rightarrow> nat \<Rightarrow> nat) \<Rightarrow> ('k \<Rightarrow> 'k \<Rightarrow> bool) \<Rightarrow> bool \<times> bool \<Rightarrow> mht_put_opt
    \<Rightarrow> ('k, 'd) mht_table \<Rightarrow> 'k \<Rightarrow> 'd \<Rightarrow> bool \<times> ('k, 'd) mht_table" where
  "mht_put_internal h cmp mem opt ht key data =
     (case (if opt = MHT_OPT_INSERT_ONLY then None else mht_search h cmp ht key) of
        Some e \<Rightarrow>
          let key' = (if opt = MHT_OPT_KEEP_KEY
                      then (case mht_ent ht e of Some (k, d) \<Rightarrow> k | None \<Rightarrow> key) else key)
          in (True, ht\<lparr>mht_ent := (mht_ent ht)(e \<mapsto> (key', data))\<rparr>)
      | None \<Rightarrow>
          (case mht_new_entry (fst mem) ht of
             None \<Rightarrow> (False, ht)
           | Some (e, ht1) \<Rightarrow>
               let ht2 = mht_link_entry (mht_index h (mht_size ht) key) e key data ht1 in
               if mht_needs_rehash ht2
               then (let (err, ht3) = mht_rehash h (snd mem) ht2 in (\<not> err < 0, ht3))
               else (True, ht2)))"

definition mht_put :: "('k \<Rightarrow> nat \<Rightarrow> nat) \<Rightarrow> ('k \<Rightarrow> 'k \<Rightarrow> bool) \<Rightarrow> bool \<times> bool
    \<Rightarrow> ('k, 'd) mht_table \<Rightarrow> 'k \<Rightarrow> 'd \<Rightarrow> bool \<times> ('k, 'd) mht_table" where
  "mht_put h cmp mem = mht_put_internal h cmp mem MHT_OPT_DEFAULT"

definition mht_put_data :: "('k \<Rightarrow> nat \<Rightarrow> nat) \<Rightarrow> ('k \<Rightarrow> 'k \<Rightarrow> bool) \<Rightarrow> bool \<times> bool
    \<Rightarrow> ('k, 'd) mht_table \<Rightarrow> 'k \<Rightarrow> 'd \<Rightarrow> bool \<times> ('k, 'd) mht_table" where
  "mht_put_data h cmp mem = mht_put_internal h cmp mem MHT_OPT_KEEP_KEY"

definition mht_put_new :: "('k \<Rightarrow> nat \<Rightarrow> nat) \<Rightarrow> ('k \<Rightarrow> 'k \<Rightarrow> bool) \<Rightarrow> bool \<times> bool
    \<Rightarrow> ('k, 'd) mht_table \<Rightarrow> 'k \<Rightarrow> 'd \<Rightarrow> bool \<times> ('k, 'd) mht_table" where
  "mht_put_new h cmp mem = mht_put_internal h cmp mem MHT_OPT_INSERT_ONLY"

text \<open>Removal; \<open>rem_func\<close> is the optional callback on key and data.\<close>

definition mht_rem :: "('k \<Rightarrow> nat \<Rightarrow> nat) \<Rightarrow> ('k \<Rightarrow> 'k \<Rightarrow> bool) \<Rightarrow> ('k, 'd) mht_table \<Rightarrow> 'k
    \<Rightarrow> ('k \<Rightarrow> 'd \<Rightarrow> errcode) option \<Rightarrow> errcode \<times> ('k, 'd) mht_table" where
  "mht_rem h cmp ht key rem_func =
     (case mht_search h cmp ht key of
        None \<Rightarrow> (ER_FAILED, ht)
      | Some e \<Rightarrow>
          let err = (case (rem_func, mht_ent ht e) of
                       (Some f, Some (k, d)) \<Rightarrow> f k d | _ \<Rightarrow> NO_ERROR);
              i = mht_index h (mht_size ht) key;
              chain = mht_vec ht ! i
          in if err \<noteq> NO_ERROR then (err, ht)
             else (NO_ERROR,
               ht\<lparr>mht_lru := (if mht_build_lru ht then remove1 e (mht_lru ht) else mht_lru ht),
                  mht_act := remove1 e (mht_act ht),
                  mht_ncollisions := (if length chain \<noteq> 1 then mht_ncollisions ht - 1
                                      else mht_ncollisions ht),
                  mht_vec := (mht_vec ht)[i := remove1 e chain],
                  mht_nentries := mht_nentries ht - 1,
                  mht_nprealloc := mht_nprealloc ht + 1,
                  mht_prealloc := e # mht_prealloc ht\<rparr>))"

definition mht_count :: "('k, 'd) mht_table \<Rightarrow> nat" where
  "mht_count ht = mht_nentries ht"

text \<open>Mapping over the active entries in insertion order until an error.\<close>

fun mht_map_loop :: "(nat \<rightharpoonup> 'k \<times> 'd) \<Rightarrow> ('k \<Rightarrow> 'd \<Rightarrow> 's \<Rightarrow> errcode \<times> 's) \<Rightarrow> nat list \<Rightarrow> 's \<Rightarrow> errcode \<times> 's" where
  "mht_map_loop E f [] s = (NO_ERROR, s)"
| "mht_map_loop E f (e # es) s =
     (case E e of
        None \<Rightarrow> mht_map_loop E f es s
      | Some (k, d) \<Rightarrow>
          (case f k d s of (err, s') \<Rightarrow> if err \<noteq> NO_ERROR then (err, s') else mht_map_loop E f es s'))"

definition mht_map :: "('k, 'd) mht_table \<Rightarrow> ('k \<Rightarrow> 'd \<Rightarrow> 's \<Rightarrow> errcode \<times> 's) \<Rightarrow> 's \<Rightarrow> errcode \<times> 's" where
  "mht_map ht f s = mht_map_loop (mht_ent ht) f (mht_act ht) s"

text \<open>\<^verbatim>\<open>mht_logpageidhash\<close> and \<^verbatim>\<open>mht_compare_logpageids_are_equal\<close>, on the page identifiers the keys denote.\<close>

definition mht_logpageidhash :: "log_pageid \<Rightarrow> nat \<Rightarrow> nat" where
  "mht_logpageidhash key htsize =
     (if key = LOGPB_HEADER_PAGE_ID then 0 else nat ((key smod int htsize) mod 2 ^ 32))"

definition mht_compare_logpageids_are_equal :: "log_pageid \<Rightarrow> log_pageid \<Rightarrow> bool" where
  "mht_compare_logpageids_are_equal key1 key2 \<longleftrightarrow> key1 = key2"

section \<open>The size calculation\<close>

lemma length_mht_Primes [simp]: "length mht_Primes = 170"
  by (simp add: mht_Primes_def)

lemma mht_Primes_last: "mht_Primes ! 169 = 29123"
  by (simp add: mht_Primes_def)

lemma mht_Primes_pos: "p \<in> set mht_Primes \<Longrightarrow> 0 < p"
  by (auto simp: mht_Primes_def)

text \<open>
  The search keeps that the entry right of its interval is large enough; this
  needs no order on the table, which the source's table indeed does not have.
\<close>

definition size_search_inv :: "nat \<Rightarrow> nat \<Rightarrow> int \<Rightarrow> nat \<Rightarrow> bool" where
  "size_search_inv s l r mid \<longleftrightarrow> -1 \<le> r \<and> r \<le> 169 \<and>
     (r = 169 \<or> s \<le> mht_Primes ! nat (r + 1)) \<and>
     (r < int l \<longrightarrow> mid < 170 \<and> (s \<le> mht_Primes ! mid \<or> int mid = r))"

lemma mht_size_search_result:
  "size_search_inv s l r mid \<Longrightarrow> m = mht_size_search s l r mid \<Longrightarrow>
   m < 170 \<and> (s \<le> mht_Primes ! m \<or> m = 169 \<or> s \<le> mht_Primes ! (m + 1))"
proof (induction s l r mid rule: mht_size_search.induct)
  case (1 s l r mid)
  let ?m = "nat (CEIL_PTVDIV (int l + r) 2)"
  show ?case
  proof (cases "int l \<le> r")
    case False
    with "1.prems" show ?thesis
      by (auto simp: mht_size_search.simps [of s l r mid] size_search_inv_def nat_add_distrib)
  next
    case True
    then have m: "int l \<le> int ?m" "int ?m \<le> r"
      using CEIL_PTVDIV_2 [of "int l" r] by auto
    have bnd: "r \<le> 169" using "1.prems" by (simp add: size_search_inv_def)
    consider (eq) "s = mht_Primes ! ?m" | (gt) "mht_Primes ! ?m < s" | (lt) "s < mht_Primes ! ?m"
      by linarith
    then show ?thesis
    proof cases
      case eq
      have "mht_size_search s l r mid = ?m"
        by (subst mht_size_search.simps) (simp add: True Let_def eq [symmetric])
      with "1.prems"(2) have "m = ?m" by simp
      moreover have "?m < 170" using m bnd by linarith
      ultimately show ?thesis using eq by simp
    next
      case gt
      have "size_search_inv s (?m + 1) r ?m"
        using "1.prems"(1) m bnd gt by (auto simp: size_search_inv_def)
      moreover have "m = mht_size_search s (?m + 1) r ?m"
        using "1.prems"(2) True gt by (simp add: mht_size_search.simps [of s l r mid] Let_def)
      ultimately show ?thesis using "1.IH"(1) [OF True refl] gt by auto
    next
      case lt
      have "size_search_inv s l (int ?m - 1) ?m"
        using "1.prems"(1) m bnd lt by (auto simp: size_search_inv_def)
      moreover have "m = mht_size_search s l (int ?m - 1) ?m"
        using "1.prems"(2) True lt by (simp add: mht_size_search.simps [of s l r mid] Let_def)
      ultimately show ?thesis using "1.IH"(2) [OF True refl] lt by auto
    qed
  qed
qed

lemma mht_calculate_htsize_prime:
  assumes "s \<le> 29123"
  shows "s \<le> mht_calculate_htsize s \<and> mht_calculate_htsize s \<in> set mht_Primes"
proof -
  define m where "m = mht_size_search s 0 169 0"
  have "size_search_inv s 0 169 0" by (simp add: size_search_inv_def)
  from mht_size_search_result [OF this m_def]
  have m: "m < 170" "s \<le> mht_Primes ! m \<or> m = 169 \<or> s \<le> mht_Primes ! (m + 1)" by auto
  define m' where "m' = (if mht_Primes ! m < s \<and> m < 169 then m + 1 else m)"
  have r: "mht_calculate_htsize s = mht_Primes ! m'"
    using assms by (simp add: mht_calculate_htsize_def mht_Primes_last Let_def m'_def m_def)
  have "m' < 170" using m(1) by (auto simp: m'_def)
  moreover have "m = 169" if "\<not> m < 169" using m(1) that by simp
  then have "s \<le> mht_Primes ! m'"
    using m(2) assms by (auto simp: m'_def mht_Primes_last)
  ultimately show ?thesis using r by simp
qed

lemma mht_calculate_htsize_large:
  assumes "29123 < s" and "s < 2 ^ 32"
  shows "mht_calculate_htsize s = (if and s (s - 1) = 0 then s else s * 2 mod 2 ^ 32)"
    and "0 < mht_calculate_htsize s"
proof -
  show eq: "mht_calculate_htsize s = (if and s (s - 1) = 0 then s else s * 2 mod 2 ^ 32)"
    using assms by (simp add: mht_calculate_htsize_def mht_Primes_last while_unfold [where s = s])
  have "s * 2 mod 2 ^ 32 \<noteq> 0" if "and s (s - 1) \<noteq> 0"
  proof
    assume "s * 2 mod 2 ^ 32 = 0"
    then obtain k where k: "s * 2 = 2 ^ 32 * k" by (auto simp: dvd_def)
    then have "s = 2 ^ 31 * k" by simp
    with assms have "k = 1" by auto
    with k have "s = 2 ^ 31" by simp
    with that show False by simp
  qed
  with eq assms show "0 < mht_calculate_htsize s" by (auto split: if_splits)
qed

lemma mht_calculate_htsize_pos: "s < 2 ^ 32 \<Longrightarrow> 0 < mht_calculate_htsize s"
  using mht_calculate_htsize_prime [of s] mht_Primes_pos mht_calculate_htsize_large(2) [of s]
  by (cases "s \<le> 29123") auto

section \<open>Well-formed tables\<close>

lemma nth_subset_concat: "i < length v \<Longrightarrow> set (v ! i) \<subseteq> set (concat v)"
proof -
  assume "i < length v"
  then have "v ! i \<in> set v" by simp
  then show ?thesis by auto
qed

declare set_concat [simp del]

text \<open>
  What the hash and comparison functions of a table must satisfy: comparison is
  an equivalence and equal keys hash alike.
\<close>

definition mht_keys_ok :: "('k \<Rightarrow> nat \<Rightarrow> nat) \<Rightarrow> ('k \<Rightarrow> 'k \<Rightarrow> bool) \<Rightarrow> bool" where
  "mht_keys_ok h cmp \<longleftrightarrow> equivp cmp \<and> (\<forall>a b n. cmp a b \<longrightarrow> h a n = h b n)"

text \<open>The number of entries that are not the first of their chain.\<close>

definition chain_collisions :: "nat list list \<Rightarrow> nat" where
  "chain_collisions v = (\<Sum>c\<leftarrow>v. length c - 1)"

definition mht_chains_ok :: "('k \<Rightarrow> nat \<Rightarrow> nat) \<Rightarrow> (nat \<rightharpoonup> 'k \<times> 'd) \<Rightarrow> nat \<Rightarrow> nat list list \<Rightarrow> bool" where
  "mht_chains_ok h E sz v \<longleftrightarrow> length v = sz \<and> distinct (concat v) \<and>
     (\<forall>i < sz. \<forall>e \<in> set (v ! i). \<exists>k d. E e = Some (k, d) \<and> mht_index h sz k = i)"

definition mht_keys_distinct :: "('k \<Rightarrow> 'k \<Rightarrow> bool) \<Rightarrow> (nat \<rightharpoonup> 'k \<times> 'd) \<Rightarrow> nat set \<Rightarrow> bool" where
  "mht_keys_distinct cmp E S \<longleftrightarrow>
     (\<forall>a \<in> S. \<forall>b \<in> S. \<forall>k d k' d'. E a = Some (k, d) \<longrightarrow> E b = Some (k', d') \<longrightarrow> cmp k k' \<longrightarrow> a = b)"

definition mht_inv :: "('k \<Rightarrow> nat \<Rightarrow> nat) \<Rightarrow> ('k \<Rightarrow> 'k \<Rightarrow> bool) \<Rightarrow> ('k, 'd) mht_table \<Rightarrow> bool" where
  "mht_inv h cmp ht \<longleftrightarrow>
     0 < mht_size ht \<and> mht_chains_ok h (mht_ent ht) (mht_size ht) (mht_vec ht) \<and>
     mht_keys_distinct cmp (mht_ent ht) (set (mht_act ht)) \<and>
     distinct (mht_act ht) \<and> set (concat (mht_vec ht)) = set (mht_act ht) \<and>
     distinct (mht_prealloc ht) \<and> set (mht_prealloc ht) \<inter> set (mht_act ht) = {} \<and>
     (\<forall>e \<in> set (mht_act ht) \<union> set (mht_prealloc ht). e < mht_heap ht) \<and>
     mht_nentries ht = length (mht_act ht) \<and> mht_nprealloc ht = length (mht_prealloc ht) \<and>
     mht_ncollisions ht = chain_collisions (mht_vec ht) \<and>
     (mht_build_lru ht \<longrightarrow> distinct (mht_lru ht) \<and> set (mht_lru ht) = set (mht_act ht))"

text \<open>What the table maps a key to.\<close>

definition mht_lookup :: "('k \<Rightarrow> 'k \<Rightarrow> bool) \<Rightarrow> ('k, 'd) mht_table \<Rightarrow> 'k \<Rightarrow> 'd option" where
  "mht_lookup cmp ht key =
     (case mht_chain_find cmp (mht_ent ht) key (mht_act ht) of
        None \<Rightarrow> None | Some e \<Rightarrow> map_option snd (mht_ent ht e))"

subsection \<open>Chains\<close>

lemma mht_index_less: "0 < sz \<Longrightarrow> mht_index h sz k < sz"
  by (simp add: mht_index_def)

lemma mht_index_cmp: "mht_keys_ok h cmp \<Longrightarrow> cmp a b \<Longrightarrow> mht_index h sz a = mht_index h sz b"
  by (auto simp: mht_keys_ok_def mht_index_def)

lemma concat_list_update:
  assumes "i < length v"
  obtains A B where "concat v = A @ v ! i @ B" and "\<And>c. concat (v[i := c]) = A @ c @ B"
proof
  show "concat v = concat (take i v) @ v ! i @ concat (drop (Suc i) v)"
    using assms by (metis concat_append concat.simps(2) id_take_nth_drop)
  show "concat (v[i := c]) = concat (take i v) @ c @ concat (drop (Suc i) v)" for c
    using assms by (simp add: upd_conv_take_nth_drop)
qed

lemma set_concat_nth: "e \<in> set (concat v) \<Longrightarrow> \<exists>j < length v. e \<in> set (v ! j)"
  by (metis UN_E in_set_conv_nth set_concat)

lemma chain_collisions_update:
  assumes "i < length v"
  shows "chain_collisions (v[i := c]) + (length (v ! i) - 1) = chain_collisions v + (length c - 1)"
proof -
  have "chain_collisions v = chain_collisions (take i v) + (length (v ! i) - 1) + chain_collisions (drop (Suc i) v)"
    using id_take_nth_drop [OF assms] by (metis (no_types, lifting) add.assoc chain_collisions_def
        list.simps(9) map_append sum_list.Cons sum_list_append)
  then show ?thesis
    using assms by (simp add: upd_conv_take_nth_drop chain_collisions_def)
qed

lemma mht_chain_find_Some:
  assumes "mht_chain_find cmp E key es = Some e" and "equivp cmp"
  shows "e \<in> set es \<and> (\<exists>k d. E e = Some (k, d) \<and> cmp k key)"
  using assms
  by (induction es) (auto split: option.splits if_splits intro: equivp_reflp)

lemma mht_chain_find_None:
  "mht_chain_find cmp E key es = None \<Longrightarrow> e \<in> set es \<Longrightarrow> E e = Some (k, d) \<Longrightarrow> \<not> cmp k key"
  by (induction es) (auto split: option.splits if_splits)

text \<open>With distinct keys the chain holding an entry decides every search.\<close>

lemma mht_chain_find_unique:
  assumes "equivp cmp" and "mht_keys_distinct cmp E S" and "set es \<subseteq> S"
    and "e \<in> set es" and "E e = Some (k, d)" and "cmp k key"
  shows "mht_chain_find cmp E key es = Some e"
proof (cases "mht_chain_find cmp E key es")
  case None
  from mht_chain_find_None [OF None assms(4,5)] assms(6) show ?thesis by simp
next
  case (Some e')
  from mht_chain_find_Some [OF Some assms(1)] obtain k' d' where
    e': "e' \<in> set es" "E e' = Some (k', d')" "cmp k' key" by auto
  have "cmp k' k" using e'(3) assms(1,6) by (meson equivp_symp equivp_transp)
  with e' assms(2-5) have "e' = e" unfolding mht_keys_distinct_def by blast
  with Some show ?thesis by simp
qed

lemma mht_lookup_iff:
  assumes "equivp cmp" and "mht_keys_distinct cmp (mht_ent ht) (set (mht_act ht))"
  shows "mht_lookup cmp ht key = Some d \<longleftrightarrow>
    (\<exists>e \<in> set (mht_act ht). \<exists>k. mht_ent ht e = Some (k, d) \<and> cmp k key)"
proof
  assume "mht_lookup cmp ht key = Some d"
  then obtain e where "mht_chain_find cmp (mht_ent ht) key (mht_act ht) = Some e"
    and "map_option snd (mht_ent ht e) = Some d"
    by (auto simp: mht_lookup_def split: option.splits)
  then show "\<exists>e \<in> set (mht_act ht). \<exists>k. mht_ent ht e = Some (k, d) \<and> cmp k key"
    using mht_chain_find_Some [of cmp "mht_ent ht" key "mht_act ht" e] assms(1) by force
next
  assume "\<exists>e \<in> set (mht_act ht). \<exists>k. mht_ent ht e = Some (k, d) \<and> cmp k key"
  then obtain e k where "e \<in> set (mht_act ht)" "mht_ent ht e = Some (k, d)" "cmp k key" by auto
  then show "mht_lookup cmp ht key = Some d"
    using mht_chain_find_unique [OF assms(1,2), of "mht_act ht" e k d key]
    by (simp add: mht_lookup_def)
qed

lemma mht_lookup_cong:
  assumes "equivp cmp" and "mht_keys_distinct cmp (mht_ent ht) (set (mht_act ht))"
    and "mht_ent ht' = mht_ent ht" and "set (mht_act ht') = set (mht_act ht)"
  shows "mht_lookup cmp ht' key = mht_lookup cmp ht key"
proof -
  have "mht_lookup cmp ht' key = Some d \<longleftrightarrow> mht_lookup cmp ht key = Some d" for d
    using mht_lookup_iff [of cmp ht key d] mht_lookup_iff [of cmp ht' key d] assms by simp
  then show ?thesis by (metis not_None_eq)
qed

text \<open>The search through the vector finds exactly what the table maps the key to.\<close>

lemma mht_search_lookup:
  assumes ok: "mht_keys_ok h cmp" and inv: "mht_inv h cmp ht"
  shows "mht_search h cmp ht key = Some e \<longleftrightarrow>
    e \<in> set (mht_act ht) \<and> (\<exists>k d. mht_ent ht e = Some (k, d) \<and> cmp k key)"
proof -
  let ?i = "mht_index h (mht_size ht) key"
  have eqv: "equivp cmp" using ok by (simp add: mht_keys_ok_def)
  have i: "?i < length (mht_vec ht)"
    using inv by (auto simp: mht_inv_def mht_chains_ok_def intro: mht_index_less)
  then have sub: "set (mht_vec ht ! ?i) \<subseteq> set (mht_act ht)"
    using inv nth_subset_concat [OF i] by (simp add: mht_inv_def)
  show ?thesis
  proof
    assume "mht_search h cmp ht key = Some e"
    then show "e \<in> set (mht_act ht) \<and> (\<exists>k d. mht_ent ht e = Some (k, d) \<and> cmp k key)"
      using mht_chain_find_Some eqv sub unfolding mht_search_def by fast
  next
    assume "e \<in> set (mht_act ht) \<and> (\<exists>k d. mht_ent ht e = Some (k, d) \<and> cmp k key)"
    then obtain k d where e: "e \<in> set (mht_act ht)" "mht_ent ht e = Some (k, d)" "cmp k key" by auto
    then have "e \<in> set (concat (mht_vec ht))" using inv unfolding mht_inv_def by blast
    with inv obtain j where j: "j < mht_size ht" "e \<in> set (mht_vec ht ! j)"
      using set_concat_nth unfolding mht_inv_def mht_chains_ok_def by metis
    with inv e(2) have "mht_index h (mht_size ht) k = j"
      by (fastforce simp: mht_inv_def mht_chains_ok_def)
    then have "e \<in> set (mht_vec ht ! ?i)"
      using mht_index_cmp [OF ok e(3)] j(2) by simp
    moreover have "mht_keys_distinct cmp (mht_ent ht) (set (mht_act ht))"
      using inv unfolding mht_inv_def by blast
    ultimately show "mht_search h cmp ht key = Some e"
      unfolding mht_search_def using mht_chain_find_unique eqv sub e(2,3) by metis
  qed
qed

subsection \<open>Updates of the vector\<close>

lemma mht_chains_ok_insert:
  assumes "mht_chains_ok h E sz v" and "0 < sz" and "E e = Some (k, d)" and "e \<notin> set (concat v)"
  defines "i \<equiv> mht_index h sz k"
  shows "mht_chains_ok h E sz (v[i := e # v ! i])"
    and "set (concat (v[i := e # v ! i])) = insert e (set (concat v))"
    and "chain_collisions (v[i := e # v ! i]) = chain_collisions v + (if v ! i \<noteq> [] then 1 else 0)"
proof -
  have i: "i < length v"
    using assms(1,2) by (simp add: i_def mht_chains_ok_def mht_index_less)
  obtain A B where cu: "concat v = A @ v ! i @ B" "\<And>c. concat (v[i := c]) = A @ c @ B"
    using concat_list_update [OF i] by blast
  show "set (concat (v[i := e # v ! i])) = insert e (set (concat v))"
    by (simp only: cu) auto
  have "distinct (concat (v[i := e # v ! i]))"
    using assms(1,4) by (auto simp: mht_chains_ok_def cu)
  with assms(1,3) i show "mht_chains_ok h E sz (v[i := e # v ! i])"
    by (auto simp: mht_chains_ok_def nth_list_update_cases i_def)
  show "chain_collisions (v[i := e # v ! i]) = chain_collisions v + (if v ! i \<noteq> [] then 1 else 0)"
    using chain_collisions_update [OF i, of "e # v ! i"] by (cases "v ! i") auto
qed

lemma mht_chains_ok_ent_upd:
  "e \<notin> set (concat v) \<Longrightarrow> mht_chains_ok h (E(e \<mapsto> x)) sz v \<longleftrightarrow> mht_chains_ok h E sz v"
proof -
  assume "e \<notin> set (concat v)"
  then have "e' \<noteq> e" if "i < length v" "e' \<in> set (v ! i)" for i e'
    using nth_subset_concat [OF that(1)] that(2) by auto
  then show ?thesis by (auto simp: mht_chains_ok_def)
qed

lemma mht_chains_ok_remove:
  assumes "mht_chains_ok h E sz v" and "i < sz" and "e \<in> set (v ! i)"
  shows "mht_chains_ok h E sz (v[i := remove1 e (v ! i)])"
    and "set (concat (v[i := remove1 e (v ! i)])) = set (concat v) - {e}"
    and "chain_collisions v = chain_collisions (v[i := remove1 e (v ! i)])
           + (if length (v ! i) \<noteq> 1 then 1 else 0)"
proof -
  have i: "i < length v" using assms(1,2) by (simp add: mht_chains_ok_def)
  obtain A B where cu: "concat v = A @ v ! i @ B" "\<And>c. concat (v[i := c]) = A @ c @ B"
    using concat_list_update [OF i] by blast
  have d: "distinct (A @ v ! i @ B)" using assms(1) by (simp add: mht_chains_ok_def cu)
  then have r: "set (remove1 e (v ! i)) = set (v ! i) - {e}" by simp
  show "set (concat (v[i := remove1 e (v ! i)])) = set (concat v) - {e}"
    using d assms(3) r by (simp only: cu) auto
  have "distinct (concat (v[i := remove1 e (v ! i)]))"
    using d r by (auto simp: cu)
  with assms(1) i show "mht_chains_ok h E sz (v[i := remove1 e (v ! i)])"
    using r by (auto simp: mht_chains_ok_def nth_list_update_cases)
  have "length (v ! i) = Suc (length (remove1 e (v ! i)))"
    using assms(3) by (simp add: length_remove1) (metis Suc_pred length_pos_if_in_set)
  with chain_collisions_update [OF i, of "remove1 e (v ! i)"]
  show "chain_collisions v = chain_collisions (v[i := remove1 e (v ! i)])
          + (if length (v ! i) \<noteq> 1 then 1 else 0)"
    by (cases "length (remove1 e (v ! i))") auto
qed

lemma mht_rehash_fold:
  assumes "0 < sz" and "\<forall>e \<in> set es. E e \<noteq> None" and "distinct es"
    and "set es \<inter> set (concat v) = {}" and "mht_chains_ok h E sz v" and "c = chain_collisions v"
    and "fold (mht_rehash_entry h E sz) es (v, c) = (v', c')"
  shows "mht_chains_ok h E sz v' \<and> set (concat v') = set (concat v) \<union> set es \<and> c' = chain_collisions v'"
  using assms(2-)
proof (induction es arbitrary: v c)
  case Nil
  then show ?case by auto
next
  case (Cons e es)
  from Cons.prems(1) obtain k d where e: "E e = Some (k, d)" by auto
  let ?i = "mht_index h sz k"
  have "e \<notin> set (concat v)" using Cons.prems(3) by auto
  note ins = mht_chains_ok_insert [OF Cons.prems(4) assms(1) e this]
  have "mht_rehash_entry h E sz e (v, c) = (v[?i := e # v ! ?i], chain_collisions (v[?i := e # v ! ?i]))"
    by (simp add: mht_rehash_entry_def e Let_def ins(3) Cons.prems(5))
  with Cons.prems(6) have "fold (mht_rehash_entry h E sz) es
      (v[?i := e # v ! ?i], chain_collisions (v[?i := e # v ! ?i])) = (v', c')" by simp
  moreover have "set es \<inter> set (concat (v[?i := e # v ! ?i])) = {}"
    using Cons.prems(2,3) unfolding ins(2) by auto
  ultimately have "mht_chains_ok h E sz v' \<and>
      set (concat v') = set (concat (v[?i := e # v ! ?i])) \<union> set es \<and> c' = chain_collisions v'"
    using Cons.IH [of "v[?i := e # v ! ?i]"] Cons.prems(1,2) ins(1) by simp
  then show ?case unfolding ins(2) by auto
qed

lemma mht_chains_ok_empty: "mht_chains_ok h E sz (replicate sz [])"
  by (auto simp: mht_chains_ok_def concat_replicate_trivial)

lemma chain_collisions_empty [simp]: "chain_collisions (replicate n []) = 0"
  by (simp add: chain_collisions_def sum_list_replicate)

section \<open>The operations\<close>

lemma mht_create_inv: "mht_create True est = Some ht \<Longrightarrow> est < 2 ^ 31 \<Longrightarrow> mht_inv h cmp ht"
proof -
  assume c: "mht_create True est = Some ht" and b: "est < 2 ^ 31"
  have "nat (if est \<le> 0 then 2 else est) < 2 ^ 32" using b by (auto simp: nat_less_iff)
  from mht_calculate_htsize_pos [OF this] c show ?thesis
    by (auto simp: mht_create_def Let_def mht_inv_def mht_chains_ok_empty mht_keys_distinct_def
        concat_replicate_trivial)
qed

lemma mht_adjust_lru_inv:
  "mht_inv h cmp ht \<Longrightarrow> e \<in> set (mht_act ht) \<Longrightarrow> mht_inv h cmp (mht_adjust_lru_list ht e)"
  by (auto simp: mht_inv_def mht_adjust_lru_list_def)

lemma mht_adjust_lru_simps [simp]:
  "mht_ent (mht_adjust_lru_list ht e) = mht_ent ht"
  "mht_act (mht_adjust_lru_list ht e) = mht_act ht"
  by (simp_all add: mht_adjust_lru_list_def)

lemma mht_lookup_search:
  assumes "mht_keys_ok h cmp" and "mht_inv h cmp ht"
  shows "mht_lookup cmp ht key =
    (case mht_search h cmp ht key of None \<Rightarrow> None | Some e \<Rightarrow> map_option snd (mht_ent ht e))"
proof -
  have eqv: "equivp cmp" using assms(1) by (simp add: mht_keys_ok_def)
  have "mht_search h cmp ht key = mht_chain_find cmp (mht_ent ht) key (mht_act ht)"
  proof (cases "mht_chain_find cmp (mht_ent ht) key (mht_act ht)")
    case None
    with mht_chain_find_None [OF None] mht_search_lookup [OF assms, of key]
    show ?thesis by (metis not_None_eq)
  next
    case (Some e)
    with mht_chain_find_Some [OF Some eqv] mht_search_lookup [OF assms, of key e]
    show ?thesis by simp
  qed
  then show ?thesis by (simp add: mht_lookup_def)
qed

lemma mht_get_correct:
  assumes "mht_keys_ok h cmp" and "mht_inv h cmp ht" and "mht_get h cmp ht key = (r, ht')"
  shows "r = mht_lookup cmp ht key \<and> mht_inv h cmp ht' \<and> mht_lookup cmp ht' = mht_lookup cmp ht"
proof (cases "mht_search h cmp ht key")
  case None
  with assms(3) mht_lookup_search [OF assms(1,2), of key] show ?thesis
    using assms(2) by (auto simp: mht_get_def)
next
  case (Some e)
  then have "e \<in> set (mht_act ht)" using mht_search_lookup [OF assms(1,2), of key e] by simp
  moreover have "mht_lookup cmp (mht_adjust_lru_list ht e) = mht_lookup cmp ht"
    by (rule ext) (simp add: mht_lookup_def split: option.split)
  ultimately show ?thesis
    using Some assms(2,3) mht_lookup_search [OF assms(1,2), of key] mht_adjust_lru_inv
    by (auto simp: mht_get_def)
qed

text \<open>A fresh entry: from the preallocated ones, or allocated.\<close>

lemma mht_new_entry_props:
  assumes "mht_inv h cmp ht" and "mht_new_entry mem ht = Some (e, ht1)"
  shows "mht_inv h cmp ht1" and "e \<notin> set (mht_act ht1)" and "e \<notin> set (mht_prealloc ht1)"
    and "e < mht_heap ht1" and "mht_act ht1 = mht_act ht" and "mht_ent ht1 = mht_ent ht"
    and "mht_size ht1 = mht_size ht" and "mht_vec ht1 = mht_vec ht"
  using assms
  by (auto simp: mht_new_entry_def mht_inv_def less_Suc_eq split: list.splits if_splits)

lemma mht_keys_distinct_insert:
  assumes "mht_keys_distinct cmp E S" and "equivp cmp" and "e \<notin> S"
    and "\<forall>e' \<in> S. \<forall>k d. E e' = Some (k, d) \<longrightarrow> \<not> cmp k key"
  shows "mht_keys_distinct cmp (E(e \<mapsto> (key, data))) (insert e S)"
  unfolding mht_keys_distinct_def
proof (intro ballI allI impI)
  fix a b k d k' d'
  let ?E = "E(e \<mapsto> (key, data))"
  assume ab: "a \<in> insert e S" "b \<in> insert e S" and E: "?E a = Some (k, d)" "?E b = Some (k', d')"
    and c: "cmp k k'"
  have c': "cmp k' k" using c assms(2) by (meson equivp_symp)
  consider "a = e" "b = e" | "a = e" "b \<in> S" "b \<noteq> e" | "b = e" "a \<in> S" "a \<noteq> e"
    | "a \<in> S" "b \<in> S" "a \<noteq> e" "b \<noteq> e" using ab by blast
  then show "a = b"
  proof cases
    case 2
    with E c' assms(4) show ?thesis by auto
  next
    case 3
    with E c assms(4) show ?thesis by auto
  next
    case 4
    with E c assms(1) show ?thesis unfolding mht_keys_distinct_def by auto
  qed simp
qed

lemma mht_link_entry_inv:
  assumes ok: "mht_keys_ok h cmp" and inv: "mht_inv h cmp ht"
    and fresh: "e \<notin> set (mht_act ht)" "e \<notin> set (mht_prealloc ht)" "e < mht_heap ht"
    and new: "\<forall>e' \<in> set (mht_act ht). \<forall>k d. mht_ent ht e' = Some (k, d) \<longrightarrow> \<not> cmp k key"
  defines "i \<equiv> mht_index h (mht_size ht) key"
  shows "mht_inv h cmp (mht_link_entry i e key data ht)"
proof -
  let ?E = "(mht_ent ht)(e \<mapsto> (key, data))"
  have eqv: "equivp cmp" using ok by (simp add: mht_keys_ok_def)
  have act: "set (concat (mht_vec ht)) = set (mht_act ht)" using inv unfolding mht_inv_def by blast
  then have nin: "e \<notin> set (concat (mht_vec ht))" using fresh(1) by simp
  have "mht_chains_ok h (mht_ent ht) (mht_size ht) (mht_vec ht)" using inv unfolding mht_inv_def by blast
  then have ch: "mht_chains_ok h ?E (mht_size ht) (mht_vec ht)"
    using mht_chains_ok_ent_upd [OF nin] by blast
  have "0 < mht_size ht" "?E e = Some (key, data)" using inv by (simp_all add: mht_inv_def)
  note ins = mht_chains_ok_insert [OF ch this nin]
  have "mht_keys_distinct cmp (mht_ent ht) (set (mht_act ht))"
    using inv unfolding mht_inv_def by blast
  from mht_keys_distinct_insert [OF this eqv fresh(1) new]
  have "mht_keys_distinct cmp ?E (insert e (set (mht_act ht)))" .
  with inv fresh ins act show ?thesis
    by (auto simp: mht_inv_def mht_link_entry_def i_def simp del: fun_upd_apply)
qed

lemma mht_link_entry_simps [simp]:
  "mht_ent (mht_link_entry i e key data ht) = (mht_ent ht)(e \<mapsto> (key, data))"
  "mht_act (mht_link_entry i e key data ht) = mht_act ht @ [e]"
  by (simp_all add: mht_link_entry_def)

lemma mht_inv_distinct: "mht_inv h cmp ht \<Longrightarrow> mht_keys_distinct cmp (mht_ent ht) (set (mht_act ht))"
  unfolding mht_inv_def by blast

lemma mht_lookup_upd:
  assumes "mht_keys_ok h cmp" and "mht_inv h cmp ht" and "mht_inv h cmp ht'"
    and "mht_ent ht' = (mht_ent ht)(e \<mapsto> (k0, data))" and "set (mht_act ht') = insert e (set (mht_act ht))"
    and "cmp k0 key"
    and "e \<in> set (mht_act ht) \<longrightarrow> (\<exists>k d. mht_ent ht e = Some (k, d) \<and> cmp k key)"
  shows "mht_lookup cmp ht' k' = (if cmp k' key then Some data else mht_lookup cmp ht k')"
proof -
  have eqv: "equivp cmp" using assms(1) by (simp add: mht_keys_ok_def)
  note L = mht_lookup_iff [OF eqv mht_inv_distinct [OF assms(2)]]
  note L' = mht_lookup_iff [OF eqv mht_inv_distinct [OF assms(3)]]
  have t: "cmp a b \<Longrightarrow> cmp b c \<Longrightarrow> cmp a c" and s: "cmp a b \<Longrightarrow> cmp b a" for a b c
    using eqv by (meson equivp_transp, meson equivp_symp)
  show ?thesis
  proof (cases "cmp k' key")
    case True
    then have "cmp k0 k'" using assms(6) t s by blast
    with assms(4,5) have "mht_lookup cmp ht' k' = Some data" unfolding L' by auto
    with True show ?thesis by simp
  next
    case False
    have ne: "a \<noteq> e" if "a \<in> set (mht_act ht)" "mht_ent ht a = Some (k, d)" "cmp k k'" for a k d
      using that assms(7) False t s by (metis option.inject prod.inject)
    have "\<not> cmp k0 k'" using False assms(6) t s by blast
    then have "mht_lookup cmp ht' k' = Some d \<longleftrightarrow> mht_lookup cmp ht k' = Some d" for d
      unfolding L L' assms(4,5) using ne by (auto split: if_splits)
    with False show ?thesis by (metis not_None_eq)
  qed
qed

lemma mht_rehash_correct:
  assumes "mht_keys_ok h cmp" and "mht_inv h cmp ht" and "mht_rehash h mem ht = (err, ht')"
  shows "mht_inv h cmp ht' \<and> mht_lookup cmp ht' = mht_lookup cmp ht \<and> (err = NO_ERROR \<longleftrightarrow> mem)"
proof (cases mem)
  case False
  with assms(2,3) show ?thesis by (simp add: mht_rehash_def Let_def split: if_splits)
next
  case True
  define est where "est = mht_calculate_htsize (mht_rehash_est ht)"
  have pos: "0 < est"
    unfolding est_def by (rule mht_calculate_htsize_pos) (simp add: mht_rehash_est_def Let_def)
  obtain v c where f: "fold (mht_rehash_entry h (mht_ent ht) est) (concat (mht_vec ht))
      (replicate est [], 0) = (v, c)" by force
  have inv: "mht_chains_ok h (mht_ent ht) (mht_size ht) (mht_vec ht)"
    "set (concat (mht_vec ht)) = set (mht_act ht)" using assms(2) unfolding mht_inv_def by blast+
  have ne: "\<forall>e \<in> set (concat (mht_vec ht)). mht_ent ht e \<noteq> None"
    using inv(1) by (fastforce simp: mht_chains_ok_def dest: set_concat_nth)
  have "distinct (concat (mht_vec ht))" using inv(1) by (simp add: mht_chains_ok_def)
  from mht_rehash_fold [OF pos ne this _ mht_chains_ok_empty _ f]
  have r: "mht_chains_ok h (mht_ent ht) est v" "set (concat v) = set (concat (mht_vec ht))"
    "c = chain_collisions v" by (simp_all add: concat_replicate_trivial)
  have ht': "ht' = ht\<lparr>mht_vec := v, mht_ncollisions := c, mht_size := est,
      mht_rehash_at := fl_trunc (fl_mul 24 (fl_round 24 est 1) MHT_REHASH_TRESHOLD)\<rparr>" "err = NO_ERROR"
    using assms(3) True f by (simp_all add: mht_rehash_def est_def Let_def)
  have "mht_inv h cmp ht'"
    using assms(2) r pos unfolding ht' by (simp add: mht_inv_def)
  moreover have "mht_lookup cmp ht' = mht_lookup cmp ht"
    unfolding ht' by (rule ext) (simp add: mht_lookup_def split: option.split)
  ultimately show ?thesis using ht' True by simp
qed

lemma mht_keys_distinct_replace:
  assumes "mht_keys_distinct cmp E S" and "equivp cmp" and "E e = Some (k0, d0)" and "cmp k0 key"
  shows "mht_keys_distinct cmp (E(e \<mapsto> (key, data))) S"
  unfolding mht_keys_distinct_def
proof (intro ballI allI impI)
  fix a b k d k' d'
  let ?E = "E(e \<mapsto> (key, data))"
  assume ab: "a \<in> S" "b \<in> S" and E: "?E a = Some (k, d)" "?E b = Some (k', d')" and c: "cmp k k'"
  have t: "cmp x y \<Longrightarrow> cmp y z \<Longrightarrow> cmp x z" and s: "cmp x y \<Longrightarrow> cmp y x" for x y z
    using assms(2) by (meson equivp_transp, meson equivp_symp)
  obtain ka da where a: "E a = Some (ka, da)" "cmp ka k"
    using E(1) assms(3,4) equivp_reflp [OF assms(2)] by (cases "a = e") auto
  obtain kb db where b: "E b = Some (kb, db)" "cmp kb k'"
    using E(2) assms(3,4) equivp_reflp [OF assms(2)] by (cases "b = e") auto
  have "cmp ka kb" using a(2) b(2) c t s by blast
  with ab a(1) b(1) assms(1) show "a = b" unfolding mht_keys_distinct_def by blast
qed

lemma mht_chains_ok_replace:
  assumes "mht_chains_ok h E sz v" and "E e = Some (k0, d0)" and "mht_index h sz k0 = mht_index h sz key"
  shows "mht_chains_ok h (E(e \<mapsto> (key, data))) sz v"
proof -
  have "\<exists>k d. (E(e \<mapsto> (key, data))) e' = Some (k, d) \<and> mht_index h sz k = i"
    if i: "i < sz" "e' \<in> set (v ! i)" for i e'
  proof -
    obtain k d where "E e' = Some (k, d)" "mht_index h sz k = i"
      using assms(1) i unfolding mht_chains_ok_def by blast
    then show ?thesis using assms(2,3) by (cases "e' = e") auto
  qed
  then show ?thesis using assms(1) unfolding mht_chains_ok_def by blast
qed

lemma mht_inv_replace:
  assumes ok: "mht_keys_ok h cmp" and inv: "mht_inv h cmp ht"
    and e: "mht_ent ht e = Some (k0, d0)" "cmp k0 key"
  shows "mht_inv h cmp (ht\<lparr>mht_ent := (mht_ent ht)(e \<mapsto> (key, data))\<rparr>)"
proof -
  have "mht_keys_distinct cmp ((mht_ent ht)(e \<mapsto> (key, data))) (set (mht_act ht))"
    using mht_keys_distinct_replace [OF mht_inv_distinct [OF inv]] ok e
    unfolding mht_keys_ok_def by blast
  moreover have "mht_chains_ok h ((mht_ent ht)(e \<mapsto> (key, data))) (mht_size ht) (mht_vec ht)"
    using mht_chains_ok_replace [of h "mht_ent ht" "mht_size ht" "mht_vec ht" e k0 d0 key data]
      inv e mht_index_cmp [OF ok e(2)] by (simp add: mht_inv_def del: fun_upd_apply)
  ultimately show ?thesis using inv by (simp add: mht_inv_def del: fun_upd_apply)
qed

lemma mht_put_internal_correct:
  assumes ok: "mht_keys_ok h cmp" and inv: "mht_inv h cmp ht"
    and put: "mht_put_internal h cmp mem opt ht key data = (r, ht')"
    and new: "opt = MHT_OPT_INSERT_ONLY \<longrightarrow> mht_lookup cmp ht key = None"
  shows "mht_inv h cmp ht' \<and> (fst mem \<and> snd mem \<longrightarrow> r) \<and>
    (r \<longrightarrow> (\<forall>k. mht_lookup cmp ht' k = (if cmp k key then Some data else mht_lookup cmp ht k)))"
proof (cases "if opt = MHT_OPT_INSERT_ONLY then None else mht_search h cmp ht key")
  case (Some e)
  then have "mht_search h cmp ht key = Some e" by (simp split: if_splits)
  then obtain k0 d0 where e: "e \<in> set (mht_act ht)" "mht_ent ht e = Some (k0, d0)" "cmp k0 key"
    using mht_search_lookup [OF ok inv, of key e] by auto
  define k1 where "k1 = (if opt = MHT_OPT_KEEP_KEY then k0 else key)"
  have c: "cmp k0 k1" "cmp k1 key"
    using e(3) ok equivp_reflp by (auto simp: k1_def mht_keys_ok_def)
  have ht': "r" "ht' = ht\<lparr>mht_ent := (mht_ent ht)(e \<mapsto> (k1, data))\<rparr>"
    using put Some e(2) by (auto simp: mht_put_internal_def k1_def)
  have inv': "mht_inv h cmp ht'" unfolding ht' using mht_inv_replace [OF ok inv e(2) c(1)] .
  have "set (mht_act ht') = insert e (set (mht_act ht))" using e(1) ht' by auto
  then have "mht_lookup cmp ht' k = (if cmp k key then Some data else mht_lookup cmp ht k)" for k
    using mht_lookup_upd [OF ok inv inv', of e k1 data key k] e c ht' by auto
  with inv' ht' show ?thesis by simp
next
  case None
  note out = None
  have absent: "mht_lookup cmp ht key = None"
    using None new mht_lookup_search [OF ok inv, of key] by (auto split: if_splits)
  then have no: "\<forall>e' \<in> set (mht_act ht). \<forall>k d. mht_ent ht e' = Some (k, d) \<longrightarrow> \<not> cmp k key"
    using mht_lookup_iff [OF _ mht_inv_distinct [OF inv], of key] ok
    unfolding mht_keys_ok_def by (metis option.distinct(1))
  show ?thesis
  proof (cases "mht_new_entry (fst mem) ht")
    case None
    with put out inv show ?thesis
      by (auto simp: mht_put_internal_def mht_new_entry_def split: list.splits if_splits)
  next
    case (Some p)
    then obtain e ht1 where n: "mht_new_entry (fst mem) ht = Some (e, ht1)" by (cases p) auto
    note P = mht_new_entry_props [OF inv n]
    define ht2 where "ht2 = mht_link_entry (mht_index h (mht_size ht) key) e key data ht1"
    have inv2: "mht_inv h cmp ht2"
      unfolding ht2_def using mht_link_entry_inv [OF ok P(1-4)] no P(5-7) by simp
    have "cmp key key" using ok by (simp add: mht_keys_ok_def equivp_reflp)
    moreover have "e \<notin> set (mht_act ht)" using P(2,5) by simp
    ultimately have l2: "mht_lookup cmp ht2 k = (if cmp k key then Some data else mht_lookup cmp ht k)" for k
      using mht_lookup_upd [OF ok inv inv2, of e key data key k] P(5,6)
      by (auto simp: ht2_def)
    have res: "(r, ht') = (if mht_needs_rehash ht2
        then (let (err, ht3) = mht_rehash h (snd mem) ht2 in (\<not> err < 0, ht3)) else (True, ht2))"
      unfolding put [symmetric]
      by (simp only: mht_put_internal_def out n option.case prod.case ht2_def Let_def)
    show ?thesis
    proof (cases "mht_needs_rehash ht2")
      case False
      with res inv2 l2 show ?thesis by simp
    next
      case True
      obtain err ht3 where rh: "mht_rehash h (snd mem) ht2 = (err, ht3)" by force
      from mht_rehash_correct [OF ok inv2 rh] res True rh l2 show ?thesis by auto
    qed
  qed
qed

lemma mht_rem_correct:
  assumes ok: "mht_keys_ok h cmp" and inv: "mht_inv h cmp ht"
    and rem: "mht_rem h cmp ht key None = (err, ht')"
  shows "mht_inv h cmp ht'"
    and "err = (if mht_lookup cmp ht key = None then ER_FAILED else NO_ERROR)"
    and "mht_lookup cmp ht' k = (if cmp k key then None else mht_lookup cmp ht k)"
proof -
  have eqv: "equivp cmp" using ok by (simp add: mht_keys_ok_def)
  have t: "cmp x y \<Longrightarrow> cmp y z \<Longrightarrow> cmp x z" and s: "cmp x y \<Longrightarrow> cmp y x" for x y z
    using eqv by (meson equivp_transp, meson equivp_symp)
  note L = mht_lookup_iff [OF eqv mht_inv_distinct [OF inv]]
  have "mht_inv h cmp ht' \<and> err = (if mht_lookup cmp ht key = None then ER_FAILED else NO_ERROR) \<and>
      mht_lookup cmp ht' k = (if cmp k key then None else mht_lookup cmp ht k)"
  proof (cases "mht_search h cmp ht key")
    case None
    then have "mht_lookup cmp ht key = None" using mht_lookup_search [OF ok inv, of key] by simp
    moreover then have "mht_lookup cmp ht k = None" if "cmp k key"
      using L [of key] L [of k] that t s by (metis not_None_eq)
    ultimately show ?thesis using None rem inv by (auto simp: mht_rem_def)
  next
    case (Some e)
    then obtain k0 d0 where e: "e \<in> set (mht_act ht)" "mht_ent ht e = Some (k0, d0)" "cmp k0 key"
      using mht_search_lookup [OF ok inv, of key e] by auto
    let ?i = "mht_index h (mht_size ht) key"
    have ch: "mht_chains_ok h (mht_ent ht) (mht_size ht) (mht_vec ht)" "0 < mht_size ht"
      using inv by (simp_all add: mht_inv_def)
    have i: "?i < mht_size ht" using ch(2) by (rule mht_index_less)
    have ei: "e \<in> set (mht_vec ht ! ?i)"
      using mht_chain_find_Some [OF Some [unfolded mht_search_def] eqv] by simp
    note R = mht_chains_ok_remove [OF ch(1) i ei]
    have act: "set (remove1 e (mht_act ht)) = set (mht_act ht) - {e}"
      using inv by (simp add: mht_inv_def)
    have r: "err = NO_ERROR" "ht' =
        ht\<lparr>mht_lru := (if mht_build_lru ht then remove1 e (mht_lru ht) else mht_lru ht),
           mht_act := remove1 e (mht_act ht),
           mht_ncollisions := (if length (mht_vec ht ! ?i) \<noteq> 1 then mht_ncollisions ht - 1
                               else mht_ncollisions ht),
           mht_vec := (mht_vec ht)[?i := remove1 e (mht_vec ht ! ?i)],
           mht_nentries := mht_nentries ht - 1, mht_nprealloc := mht_nprealloc ht + 1,
           mht_prealloc := e # mht_prealloc ht\<rparr>"
      using rem Some by (simp_all add: mht_rem_def Let_def)
    have ht': "err = NO_ERROR" "mht_ent ht' = mht_ent ht" "mht_act ht' = remove1 e (mht_act ht)"
      using r by simp_all
    have "mht_keys_distinct cmp (mht_ent ht) (set (mht_act ht) - {e})"
      using mht_inv_distinct [OF inv] by (simp add: mht_keys_distinct_def)
    with inv R act e(1) have inv': "mht_inv h cmp ht'"
      unfolding r(2) by (auto simp: mht_inv_def length_remove1)
    note L' = mht_lookup_iff [OF eqv mht_inv_distinct [OF inv']]
    have uniq: "a = e" if "a \<in> set (mht_act ht)" "mht_ent ht a = Some (k', d')" "cmp k' key" for a k' d'
      using mht_search_lookup [OF ok inv, of key a] Some that by auto
    have "mht_lookup cmp ht' k = None" if "cmp k key"
      using L' [of k] ht' act uniq that t by (metis DiffE insertI1 not_None_eq)
    moreover have "mht_lookup cmp ht' k = mht_lookup cmp ht k" if "\<not> cmp k key"
    proof -
      have "\<not> cmp k0 k" using that e(3) t s by blast
      then have "mht_lookup cmp ht' k = Some d \<longleftrightarrow> mht_lookup cmp ht k = Some d" for d
        unfolding L L' ht' act using e(2) by auto
      then show ?thesis by (metis not_None_eq)
    qed
    moreover have "mht_lookup cmp ht key = Some d0"
      using mht_lookup_search [OF ok inv, of key] Some e(2) by simp
    ultimately show ?thesis using ht' inv' by simp
  qed
  then show "mht_inv h cmp ht'"
    and "err = (if mht_lookup cmp ht key = None then ER_FAILED else NO_ERROR)"
    and "mht_lookup cmp ht' k = (if cmp k key then None else mht_lookup cmp ht k)" by simp_all
qed

subsection \<open>The bindings of a table\<close>

text \<open>The key/data pairs of the active entries, and that validity reads the key functions on them only.\<close>

definition mht_pairs :: "('k, 'd) mht_table \<Rightarrow> ('k \<times> 'd) set" where
  "mht_pairs ht = {x. \<exists>e \<in> set (mht_act ht). mht_ent ht e = Some x}"

lemma mht_pairs_get: "mht_get h cmp ht key = (r, ht') \<Longrightarrow> mht_pairs ht' = mht_pairs ht"
  by (auto simp: mht_get_def mht_pairs_def split: option.splits)

lemma mht_pairs_rem:
  assumes "mht_keys_ok h cmp" and "mht_inv h cmp ht" and "mht_rem h cmp ht key None = (err, ht')"
  shows "mht_pairs ht' = {(k, d) \<in> mht_pairs ht. \<not> cmp k key}"
proof -
  have eqv: "equivp cmp" using assms(1) by (simp add: mht_keys_ok_def)
  have e: "mht_ent ht' = mht_ent ht" and a: "set (mht_act ht') \<subseteq> set (mht_act ht)"
    using assms(3) by (auto simp: mht_rem_def Let_def split: option.splits if_splits
        dest: set_mp [OF set_remove1_subset])
  note inv' = mht_rem_correct(1) [OF assms]
  have none: "\<not> cmp k key" if "(k, d) \<in> mht_pairs ht'" for k d
  proof
    assume "cmp k key"
    then have "mht_lookup cmp ht' key = Some d"
      using that mht_lookup_iff [OF eqv mht_inv_distinct [OF inv']] by (auto simp: mht_pairs_def)
    moreover have "mht_lookup cmp ht' key = None"
      using mht_rem_correct(3) [OF assms, of key] equivp_reflp [OF eqv] by simp
    ultimately show False by simp
  qed
  have keep: "(k, d) \<in> mht_pairs ht'" if m: "(k, d) \<in> mht_pairs ht" and n: "\<not> cmp k key" for k d
  proof -
    have "mht_lookup cmp ht k = Some d"
      unfolding mht_lookup_iff [OF eqv mht_inv_distinct [OF assms(2)]]
      using m equivp_reflp [OF eqv] by (auto simp: mht_pairs_def)
    then have "mht_lookup cmp ht' k = Some d" using mht_rem_correct(3) [OF assms, of k] n by simp
    then obtain x k' where x: "x \<in> set (mht_act ht')" "mht_ent ht x = Some (k', d)" "cmp k' k"
      using mht_lookup_iff [OF eqv mht_inv_distinct [OF inv']] e by auto
    moreover obtain y where "y \<in> set (mht_act ht)" "mht_ent ht y = Some (k, d)"
      using m by (auto simp: mht_pairs_def)
    ultimately have "x = y"
      using mht_inv_distinct [OF assms(2)] a unfolding mht_keys_distinct_def by blast
    with x \<open>mht_ent ht y = Some (k, d)\<close> e show ?thesis by (auto simp: mht_pairs_def)
  qed
  have "mht_pairs ht' \<subseteq> mht_pairs ht" using e a by (auto simp: mht_pairs_def)
  with none keep show ?thesis by auto
qed

lemma mht_new_entry_frame:
  "mht_new_entry mem ht = Some (e, ht1) \<Longrightarrow> mht_act ht1 = mht_act ht \<and> mht_ent ht1 = mht_ent ht"
  by (auto simp: mht_new_entry_def split: list.splits if_splits)

lemma mht_rehash_frame:
  "mht_rehash h mem ht = (err, ht') \<Longrightarrow> mht_act ht' = mht_act ht \<and> mht_ent ht' = mht_ent ht"
  by (auto simp: mht_rehash_def Let_def split: if_splits prod.splits)

lemma mht_pairs_put:
  assumes "mht_put h cmp mem ht key data = (r, ht')"
  shows "mht_pairs ht' \<subseteq> insert (key, data) (mht_pairs ht)"
proof (cases "mht_search h cmp ht key")
  case (Some e)
  with assms show ?thesis
    by (auto simp: mht_put_def mht_put_internal_def mht_pairs_def split: if_splits)
next
  case None
  show ?thesis
  proof (cases "mht_new_entry (fst mem) ht")
    case None
    with assms \<open>mht_search h cmp ht key = None\<close> show ?thesis
      by (auto simp: mht_put_def mht_put_internal_def)
  next
    case (Some p)
    then obtain e ht1 where n: "mht_new_entry (fst mem) ht = Some (e, ht1)" by (cases p) auto
    have "mht_act ht' = mht_act ht @ [e] \<and> mht_ent ht' = (mht_ent ht)(e \<mapsto> (key, data))"
      using assms None n mht_new_entry_frame [OF n]
      by (auto simp: mht_put_def mht_put_internal_def Let_def dest!: mht_rehash_frame
          split: if_splits prod.splits)
    then show ?thesis by (auto simp: mht_pairs_def split: if_splits)
  qed
qed

lemma mht_inv_cong_keys:
  assumes inv: "mht_inv h cmp ht"
    and h: "\<And>k d. (k, d) \<in> mht_pairs ht \<Longrightarrow> h' k = h k"
    and c: "\<And>k d k' d'. (k, d) \<in> mht_pairs ht \<Longrightarrow> (k', d') \<in> mht_pairs ht \<Longrightarrow> cmp' k k' = cmp k k'"
  shows "mht_inv h' cmp' ht"
proof -
  have act: "set (concat (mht_vec ht)) = set (mht_act ht)"
    and ch: "mht_chains_ok h (mht_ent ht) (mht_size ht) (mht_vec ht)"
    and kd: "mht_keys_distinct cmp (mht_ent ht) (set (mht_act ht))"
    using inv unfolding mht_inv_def by blast+
  have "mht_index h' sz k = mht_index h sz k" if "(k, d) \<in> mht_pairs ht" for k d sz
    using h [OF that] by (simp add: mht_index_def)
  moreover have "e \<in> set (mht_act ht)" if "i < mht_size ht" "e \<in> set (mht_vec ht ! i)" for i e
    using that ch act nth_subset_concat [of i "mht_vec ht"] by (auto simp: mht_chains_ok_def)
  ultimately have "mht_chains_ok h' (mht_ent ht) (mht_size ht) (mht_vec ht)"
    using ch unfolding mht_chains_ok_def mht_pairs_def by (simp, metis)
  moreover have "mht_keys_distinct cmp' (mht_ent ht) (set (mht_act ht))"
    using kd c unfolding mht_keys_distinct_def mht_pairs_def by simp metis
  ultimately show ?thesis using inv by (simp add: mht_inv_def)
qed

declare set_concat [simp]

section \<open>The interface of the table\<close>

text \<open>
  What a user of a hash table relies on: a validity predicate the operations
  keep, and how each operation changes what the table maps keys to. \<open>eqk\<close> is
  the table's notion of equal keys.
\<close>

datatype ('k, 'd) mht_op = Op_put 'k 'd | Op_rem 'k

fun mht_do :: "('t \<Rightarrow> 'k \<Rightarrow> 'd \<Rightarrow> bool \<times> 't) \<Rightarrow> ('t \<Rightarrow> 'k \<Rightarrow> errcode \<times> 't) \<Rightarrow> ('k, 'd) mht_op \<Rightarrow> 't \<Rightarrow> 't" where
  "mht_do put rem (Op_put k d) t = snd (put t k d)"
| "mht_do put rem (Op_rem k) t = snd (rem t k)"

fun map_do :: "('k, 'd) mht_op \<Rightarrow> ('k \<rightharpoonup> 'd) \<Rightarrow> 'k \<rightharpoonup> 'd" where
  "map_do (Op_put k d) m = m(k \<mapsto> d)"
| "map_do (Op_rem k) m = m(k := None)"

locale mht_interface =
  fixes get :: "'t \<Rightarrow> 'k \<Rightarrow> 'd option \<times> 't"
    and put :: "'t \<Rightarrow> 'k \<Rightarrow> 'd \<Rightarrow> bool \<times> 't"
    and rem :: "'t \<Rightarrow> 'k \<Rightarrow> errcode \<times> 't"
    and eqk :: "'k \<Rightarrow> 'k \<Rightarrow> bool"
    and lookup :: "'t \<Rightarrow> 'k \<Rightarrow> 'd option"
    and valid :: "'t \<Rightarrow> bool"
  assumes eqk_equiv: "equivp eqk"
    and lookup_eqk: "valid t \<Longrightarrow> eqk k k' \<Longrightarrow> lookup t k = lookup t k'"
    and get_lookup: "valid t \<Longrightarrow> get t k = (r, t') \<Longrightarrow> r = lookup t k \<and> valid t' \<and> lookup t' = lookup t"
    and put_lookup: "valid t \<Longrightarrow> put t k d = (b, t') \<Longrightarrow>
      valid t' \<and> b \<and> (\<forall>k'. lookup t' k' = (if eqk k' k then Some d else lookup t k'))"
    and rem_lookup: "valid t \<Longrightarrow> rem t k = (e, t') \<Longrightarrow>
      valid t' \<and> (\<forall>k'. lookup t' k' = (if eqk k' k then None else lookup t k'))"
begin

lemma get_after_put: "valid t \<Longrightarrow> eqk k' k \<Longrightarrow> fst (get (snd (put t k d)) k') = Some d"
  using put_lookup [of t k d] get_lookup [of "snd (put t k d)" k'] by (metis prod.collapse)

lemma get_after_rem: "valid t \<Longrightarrow> eqk k' k \<Longrightarrow> fst (get (snd (rem t k)) k') = None"
  using rem_lookup [of t k] get_lookup [of "snd (rem t k)" k'] by (metis prod.collapse)

lemma get_after_put_other:
  "valid t \<Longrightarrow> \<not> eqk k' k \<Longrightarrow> fst (get (snd (put t k d)) k') = lookup t k'"
  using put_lookup [of t k d] get_lookup [of "snd (put t k d)" k'] by (metis prod.collapse)

text \<open>Removing a key and inserting it again leaves one binding, as the page cache does on a miss.\<close>

lemma rem_put_lookup:
  assumes "valid t" and "rem t k = (e, t1)" and "put t1 k d = (b, t2)"
  shows "valid t2 \<and> b \<and> lookup t2 k' = (if eqk k' k then Some d else lookup t k')"
  using rem_lookup [OF assms(1,2)] put_lookup [of t1 k d b t2] assms(3) by auto

text \<open>A table after any sequence of operations maps what a finite map does after the same updates.\<close>

lemma run_lookup:
  assumes "valid t" and "\<And>a b. eqk a b \<longleftrightarrow> a = b" and "lookup t = m"
  shows "valid (fold (mht_do put rem) ops t) \<and> lookup (fold (mht_do put rem) ops t) = fold map_do ops m"
  using assms(1,3)
proof (induction ops arbitrary: t m)
  case Nil
  then show ?case by simp
next
  case (Cons op ops)
  have "valid (mht_do put rem op t) \<and> lookup (mht_do put rem op t) = map_do op m"
  proof (cases op)
    case (Op_put k d)
    with put_lookup [OF Cons.prems(1), of k d] Cons.prems(2) assms(2) show ?thesis
      by (cases "put t k d") (auto simp: fun_eq_iff)
  next
    case (Op_rem k)
    with rem_lookup [OF Cons.prems(1), of k] Cons.prems(2) assms(2) show ?thesis
      by (cases "rem t k") (auto simp: fun_eq_iff)
  qed
  with Cons.IH [of "mht_do put rem op t" "map_do op m"] show ?case by simp
qed

end

text \<open>
  Tables keyed by pointers to log page identifiers: \<open>kv\<close> reads a key. The
  table is valid as long as no key in it is changed.
\<close>

definition lp_hash :: "('k \<Rightarrow> log_pageid) \<Rightarrow> 'k \<Rightarrow> nat \<Rightarrow> nat" where
  "lp_hash kv k n = mht_logpageidhash (kv k) n"

definition lp_cmp :: "('k \<Rightarrow> log_pageid) \<Rightarrow> 'k \<Rightarrow> 'k \<Rightarrow> bool" where
  "lp_cmp kv a b \<longleftrightarrow> mht_compare_logpageids_are_equal (kv a) (kv b)"

lemma lp_keys_ok: "mht_keys_ok (lp_hash kv) (lp_cmp kv)"
  by (auto simp: mht_keys_ok_def lp_hash_def lp_cmp_def mht_compare_logpageids_are_equal_def
      intro!: equivpI reflpI sympI transpI)

lemma mht_lookup_cmp:
  assumes "mht_keys_ok h cmp" and "mht_inv h cmp t" and "cmp k k'"
  shows "mht_lookup cmp t k = mht_lookup cmp t k'"
proof -
  have eqv: "equivp cmp" using assms(1) by (simp add: mht_keys_ok_def)
  have "cmp k0 k \<longleftrightarrow> cmp k0 k'" for k0
    using assms(3) equivp_symp [OF eqv] equivp_transp [OF eqv] by blast
  then have "mht_lookup cmp t k = Some d \<longleftrightarrow> mht_lookup cmp t k' = Some d" for d
    using mht_lookup_iff [OF eqv mht_inv_distinct [OF assms(2)]] by simp
  then show ?thesis by (metis not_None_eq)
qed

interpretation lp: mht_interface
  "mht_get (lp_hash kv) (lp_cmp kv)" "mht_put (lp_hash kv) (lp_cmp kv) (True, True)"
  "\<lambda>t k. mht_rem (lp_hash kv) (lp_cmp kv) t k None" "lp_cmp kv"
  "mht_lookup (lp_cmp kv)" "mht_inv (lp_hash kv) (lp_cmp kv)"
  for kv :: "'k \<Rightarrow> log_pageid"
proof unfold_locales
  show "equivp (lp_cmp kv)" using lp_keys_ok [of kv] by (simp add: mht_keys_ok_def)
next
  fix t :: "('k, 'd) mht_table" and k k'
  assume "mht_inv (lp_hash kv) (lp_cmp kv) t" and "lp_cmp kv k k'"
  then show "mht_lookup (lp_cmp kv) t k = mht_lookup (lp_cmp kv) t k'"
    by (rule mht_lookup_cmp [OF lp_keys_ok])
next
  fix t :: "('k, 'd) mht_table" and k r t'
  assume "mht_inv (lp_hash kv) (lp_cmp kv) t" and "mht_get (lp_hash kv) (lp_cmp kv) t k = (r, t')"
  then show "r = mht_lookup (lp_cmp kv) t k \<and> mht_inv (lp_hash kv) (lp_cmp kv) t' \<and>
      mht_lookup (lp_cmp kv) t' = mht_lookup (lp_cmp kv) t"
    by (rule mht_get_correct [OF lp_keys_ok])
next
  fix t :: "('k, 'd) mht_table" and k d r t'
  assume "mht_inv (lp_hash kv) (lp_cmp kv) t" and "mht_put (lp_hash kv) (lp_cmp kv) (True, True) t k d = (r, t')"
  then show "mht_inv (lp_hash kv) (lp_cmp kv) t' \<and> r \<and>
      (\<forall>k'. mht_lookup (lp_cmp kv) t' k' = (if lp_cmp kv k' k then Some d else mht_lookup (lp_cmp kv) t k'))"
    using mht_put_internal_correct [OF lp_keys_ok, of kv t "(True, True)" MHT_OPT_DEFAULT k d r t']
    by (simp add: mht_put_def)
next
  fix t :: "('k, 'd) mht_table" and k e t'
  assume "mht_inv (lp_hash kv) (lp_cmp kv) t" and "mht_rem (lp_hash kv) (lp_cmp kv) t k None = (e, t')"
  then show "mht_inv (lp_hash kv) (lp_cmp kv) t' \<and>
      (\<forall>k'. mht_lookup (lp_cmp kv) t' k' = (if lp_cmp kv k' k then None else mht_lookup (lp_cmp kv) t k'))"
    using mht_rem_correct(1,3) [OF lp_keys_ok, of kv t k e t'] by simp
qed

section \<open>Properties\<close>

text \<open>
  C22. A hash table of log pages implements a map: from a new table, after any
  sequence of insertions and removals, a lookup returns what the map of the
  same updates holds at the key, however often the table was rehashed on the
  way.
\<close>

theorem mht_run_map:
  assumes "mht_create True est = Some t" and "est < 2 ^ 31"
  shows "fst (mht_get (lp_hash id) (lp_cmp id)
      (fold (mht_do (mht_put (lp_hash id) (lp_cmp id) (True, True)) (\<lambda>t k. mht_rem (lp_hash id) (lp_cmp id) t k None)) ops t) k)
    = fold map_do ops Map.empty k"
proof -
  let ?t = "fold (mht_do (mht_put (lp_hash id) (lp_cmp id) (True, True)) (\<lambda>t k. mht_rem (lp_hash id) (lp_cmp id) t k None)) ops t"
  have inv: "mht_inv (lp_hash id) (lp_cmp id) t" by (rule mht_create_inv [OF assms])
  have "mht_act t = []" using assms(1) by (auto simp: mht_create_def Let_def)
  then have "mht_lookup (lp_cmp id) t k \<noteq> Some d" for k d
    using mht_lookup_iff [OF lp.eqk_equiv mht_inv_distinct [OF inv]] by simp
  then have "mht_lookup (lp_cmp id) t = Map.empty" by (metis ext not_None_eq)
  from lp.run_lookup [OF inv _ this, of ops]
  have "mht_inv (lp_hash id) (lp_cmp id) ?t" and "mht_lookup (lp_cmp id) ?t = fold map_do ops Map.empty"
    by (auto simp: lp_cmp_def mht_compare_logpageids_are_equal_def)
  with lp.get_lookup [of id ?t k] show ?thesis by (metis prod.collapse)
qed

lemma mht_run_map_witness:
  "\<exists>t :: (log_pageid, nat) mht_table. mht_create True 5 = Some t \<and>
     fst (mht_get (lp_hash id) (lp_cmp id)
      (fold (mht_do (mht_put (lp_hash id) (lp_cmp id) (True, True)) (\<lambda>t k. mht_rem (lp_hash id) (lp_cmp id) t k None))
        [Op_put 7 1, Op_put 18 2, Op_rem 7, Op_put 18 3] t) 18) = Some 3"
proof -
  obtain t :: "(log_pageid, nat) mht_table" where t: "mht_create True 5 = Some t" by (simp add: mht_create_def Let_def)
  with mht_run_map [OF t, of "[Op_put 7 1, Op_put 18 2, Op_rem 7, Op_put 18 3]" 18] show ?thesis by auto
qed

text \<open>
  A rehash changes the number of chains and the place of every entry, but
  neither the invariant nor what the table maps any key to; it fails exactly
  when there is no memory, and then leaves the table as it was.
\<close>

theorem mht_rehash_keeps:
  assumes "mht_keys_ok h cmp" and "mht_inv h cmp ht" and "mht_rehash h mem ht = (err, ht')"
  shows "mht_inv h cmp ht' \<and> mht_lookup cmp ht' = mht_lookup cmp ht \<and>
    err = (if mem then NO_ERROR else ER_OUT_OF_VIRTUAL_MEMORY) \<and> (\<not> mem \<longrightarrow> ht' = ht)"
  using mht_rehash_correct [OF assms] assms(3) by (auto simp: mht_rehash_def Let_def split: prod.splits if_splits)

lemma mht_rehash_keeps_witness:
  "\<exists>t ht' err. mht_create True 5 = Some (t :: (log_pageid, nat) mht_table) \<and>
     mht_rehash (lp_hash id) True t = (err, ht') \<and> err = NO_ERROR \<and> mht_inv (lp_hash id) (lp_cmp id) ht'"
proof -
  obtain t :: "(log_pageid, nat) mht_table" where t: "mht_create True 5 = Some t" by (simp add: mht_create_def Let_def)
  have inv: "mht_inv (lp_hash id) (lp_cmp id) t" using mht_create_inv [OF t] by simp
  obtain err ht' where r: "mht_rehash (lp_hash id) True t = (err, ht')" by force
  from mht_rehash_keeps [OF lp_keys_ok inv r] t r show ?thesis by auto
qed

text \<open>
  Removing a key removes it and no other; \<^verbatim>\<open>ER_FAILED\<close> is returned
  exactly when the key is not there.
\<close>

theorem mht_rem_result:
  assumes "mht_keys_ok h cmp" and "mht_inv h cmp ht" and "mht_rem h cmp ht key None = (err, ht')"
  shows "mht_inv h cmp ht' \<and> err = (if mht_lookup cmp ht key = None then ER_FAILED else NO_ERROR) \<and>
    mht_lookup cmp ht' = (\<lambda>k. if cmp k key then None else mht_lookup cmp ht k)"
  using mht_rem_correct [OF assms] by blast

lemma mht_rem_result_witness:
  "\<exists>t ht' err. mht_create True 5 = Some (t :: (log_pageid, nat) mht_table) \<and>
     mht_rem (lp_hash id) (lp_cmp id) t 3 None = (err, ht') \<and> mht_inv (lp_hash id) (lp_cmp id) ht'"
proof -
  obtain t :: "(log_pageid, nat) mht_table" where t: "mht_create True 5 = Some t" by (simp add: mht_create_def Let_def)
  have inv: "mht_inv (lp_hash id) (lp_cmp id) t" using mht_create_inv [OF t] by simp
  obtain err ht' where r: "mht_rem (lp_hash id) (lp_cmp id) t 3 None = (err, ht')" by force
  from mht_rem_result [OF lp_keys_ok inv r] t r show ?thesis by auto
qed

text \<open>
  The size calculated for a table is never below the size asked for; up to
  the last entry of the table of primes it is an entry of that table.
\<close>

theorem mht_calculate_htsize_bounds:
  assumes "s < 2 ^ 31"
  shows "s \<le> mht_calculate_htsize s \<and> (s \<le> 29123 \<longrightarrow> mht_calculate_htsize s \<in> set mht_Primes)"
  using assms mht_calculate_htsize_prime [of s] mht_calculate_htsize_large(1) [of s]
  by (cases "s \<le> 29123") auto

lemma mht_calculate_htsize_bounds_witness: "510 \<le> mht_calculate_htsize 510 \<and> mht_calculate_htsize 510 \<in> set mht_Primes"
  using mht_calculate_htsize_bounds [of 510] by simp

end
