(* ===== verification/La_Cache.thy ===== *)
theory La_Cache
  imports La_Page Memory_Hash
begin

text \<open>
  The page buffer cache of the log applier (\<^verbatim>\<open>transaction/log_applier.c\<close>):
  a pool of buffers with fix counts, replaced by a clock scan with a second
  chance (\<^verbatim>\<open>recently_free\<close>), and a hash table from page identifiers to
  buffers.

  The table stores no copy of a key: its keys are the addresses of the
  \<^verbatim>\<open>pageid\<close> fields of the buffers, so that writing the field of a buffer
  that is in the table changes the key under the table. A key is therefore
  \<open>Kbuf i\<close>, the address of the field of buffer \<open>i\<close>, or \<open>Kval p\<close>, the
  address of a local variable holding \<open>p\<close>, and the table's functions read
  keys through the current buffers. The invariant says that this never
  invalidates the table.
\<close>

section \<open>State\<close>

datatype page_key = Kbuf nat | Kval log_pageid

record la_cache_pb =
  pb_log_buffer :: "la_cache_buffer list"
  pb_hash_table :: "(page_key, nat) mht_table"
  pb_last :: nat

fun key_pageid :: "la_cache_buffer list \<Rightarrow> page_key \<Rightarrow> log_pageid" where
  "key_pageid bufs (Kval p) = p"
| "key_pageid bufs (Kbuf i) = (if i < length bufs then cb_pageid (bufs ! i) else 0)"

abbreviation pb_get :: "la_cache_buffer list \<Rightarrow> (page_key, nat) mht_table \<Rightarrow> page_key
    \<Rightarrow> nat option \<times> (page_key, nat) mht_table" where
  "pb_get bufs \<equiv> mht_get (lp_hash (key_pageid bufs)) (lp_cmp (key_pageid bufs))"

abbreviation pb_put :: "la_cache_buffer list \<Rightarrow> bool \<times> bool \<Rightarrow> (page_key, nat) mht_table \<Rightarrow> page_key \<Rightarrow> nat
    \<Rightarrow> bool \<times> (page_key, nat) mht_table" where
  "pb_put bufs \<equiv> mht_put (lp_hash (key_pageid bufs)) (lp_cmp (key_pageid bufs))"

abbreviation pb_rem :: "la_cache_buffer list \<Rightarrow> (page_key, nat) mht_table \<Rightarrow> page_key
    \<Rightarrow> (page_key, nat) mht_table" where
  "pb_rem bufs ht k \<equiv> snd (mht_rem (lp_hash (key_pageid bufs)) (lp_cmp (key_pageid bufs)) ht k None)"

abbreviation pb_valid :: "la_cache_buffer list \<Rightarrow> (page_key, nat) mht_table \<Rightarrow> bool" where
  "pb_valid bufs \<equiv> mht_inv (lp_hash (key_pageid bufs)) (lp_cmp (key_pageid bufs))"

abbreviation pb_lookup :: "la_cache_buffer list \<Rightarrow> (page_key, nat) mht_table \<Rightarrow> page_key \<Rightarrow> nat option" where
  "pb_lookup bufs \<equiv> mht_lookup (lp_cmp (key_pageid bufs))"

text \<open>The static configuration: the size of a log page and the number of buffers to add at a time.\<close>

record la_cache_cfg =
  cfg_logpagesize :: nat
  cfg_buffer_size :: nat

text \<open>A zeroed buffer, as \<^verbatim>\<open>memset\<close> leaves it.\<close>

definition zero_buffer :: "nat \<Rightarrow> la_cache_buffer" where
  "zero_buffer pagesize =
     \<lparr>cb_fix_count = 0, cb_recently_free = False, cb_in_archive = False, cb_pageid = 0,
      cb_phy_pageid = 0,
      cb_logpage = \<lparr>lp_logical_pageid = 0, lp_offset = 0, lp_area = replicate (pagesize - 16) 0\<rparr>\<rparr>"

section \<open>Operations\<close>

text \<open>
  \<^verbatim>\<open>la_expand_cache_log_buffer\<close>: two allocations, then the new buffers. The
  source computes the sizes of both blocks in \<^verbatim>\<open>int\<close>; the model is for
  configurations in which they do not overflow.
\<close>

definition la_expand_cache_log_buffer ::
    "'w la_io \<Rightarrow> la_cache_cfg \<Rightarrow> la_cache_pb \<Rightarrow> 'w \<Rightarrow> (errcode \<times> la_cache_pb) \<times> 'w" where
  "la_expand_cache_log_buffer io cfg pb w =
     (case io_malloc io w of
        (ok1, w1) \<Rightarrow>
          if \<not> ok1 then ((ER_OUT_OF_VIRTUAL_MEMORY, pb), w1)
          else (case io_malloc io w1 of
                  (ok2, w2) \<Rightarrow>
                    if \<not> ok2 then ((ER_OUT_OF_VIRTUAL_MEMORY, pb), w2)
                    else ((NO_ERROR,
                           pb\<lparr>pb_log_buffer := pb_log_buffer pb @
                                replicate (cfg_buffer_size cfg) (zero_buffer (cfg_logpagesize cfg))\<rparr>), w2)))"

definition la_init_cache_log_buffer ::
    "'w la_io \<Rightarrow> la_cache_cfg \<Rightarrow> la_cache_pb \<Rightarrow> 'w \<Rightarrow> (errcode \<times> la_cache_pb) \<times> 'w" where
  "la_init_cache_log_buffer io cfg pb w =
     (case la_expand_cache_log_buffer io cfg pb w of
        ((err, pb1), w1) \<Rightarrow>
          if err \<noteq> NO_ERROR then ((err, pb1), w1)
          else (case io_malloc io w1 of
                  (ok, w2) \<Rightarrow>
                    (case mht_create ok (int (length (pb_log_buffer pb1)) * 8) of
                       None \<Rightarrow> ((ER_OUT_OF_VIRTUAL_MEMORY, pb1), w2)
                     | Some ht \<Rightarrow> ((NO_ERROR, pb1\<lparr>pb_hash_table := ht\<rparr>), w2))))"

text \<open>
  The clock scan of \<^verbatim>\<open>la_cache_buffer_replace\<close>: at most \<open>n\<close> steps from
  the buffer after \<open>pos\<close>; the result is the buffer found, the position, the
  buffers with their second chances taken and how many were taken.
\<close>

fun la_cache_scan :: "nat \<Rightarrow> nat \<Rightarrow> la_cache_buffer list \<Rightarrow> nat
    \<Rightarrow> nat option \<times> nat \<times> la_cache_buffer list \<times> nat" where
  "la_cache_scan 0 pos bufs freed = (None, pos, bufs, freed)"
| "la_cache_scan (Suc n) pos bufs freed =
     (let pos' = (pos + 1) mod length bufs; b = bufs ! pos' in
      if cb_fix_count b = 0 then
        (if cb_recently_free b
         then la_cache_scan n pos' (bufs[pos' := b\<lparr>cb_recently_free := False\<rparr>]) (freed + 1)
         else (Some pos', pos', bufs, freed))
      else la_cache_scan n pos' bufs freed)"

text \<open>The outer loop: scan again while second chances were taken, otherwise add buffers.\<close>

partial_function (option) la_cache_victim ::
    "'w la_io \<Rightarrow> la_cache_cfg \<Rightarrow> la_cache_pb \<Rightarrow> 'w \<Rightarrow> ((nat option \<times> la_cache_pb) \<times> 'w) option" where
  "la_cache_victim io cfg pb w =
     (case la_cache_scan (length (pb_log_buffer pb)) (pb_last pb) (pb_log_buffer pb) 0 of
        (found, pos, bufs, freed) \<Rightarrow>
          (case found of
             Some i \<Rightarrow> Some ((Some i, pb\<lparr>pb_log_buffer := bufs, pb_last := pos\<rparr>), w)
           | None \<Rightarrow>
               if 0 < freed then la_cache_victim io cfg (pb\<lparr>pb_log_buffer := bufs, pb_last := pos\<rparr>) w
               else (case la_expand_cache_log_buffer io cfg (pb\<lparr>pb_log_buffer := bufs, pb_last := pos\<rparr>) w of
                       ((err, pb'), w') \<Rightarrow>
                         if err \<noteq> NO_ERROR then Some ((None, pb'), w')
                         else la_cache_victim io cfg pb' w')))"

text \<open>Taking the buffer out of the table and reading the page into it.\<close>

definition la_cache_load ::
    "'w la_io \<Rightarrow> log_pageid \<Rightarrow> nat \<Rightarrow> la_cache_pb \<Rightarrow> la_vols \<Rightarrow> 'w
      \<Rightarrow> ((nat option \<times> la_cache_pb) \<times> la_vols \<times> 'w) option" where
  "la_cache_load io pageid i pb st w =
     (let bufs = pb_log_buffer pb; b = bufs ! i;
          ht = (if cb_pageid b \<noteq> 0 then pb_rem bufs (pb_hash_table pb) (Kbuf i) else pb_hash_table pb)
      in case la_log_fetch io pageid (b\<lparr>cb_fix_count := 0\<rparr>) st w of
           None \<Rightarrow> None
         | Some ((err, b'), st', w') \<Rightarrow>
             if err \<noteq> NO_ERROR
             then Some ((None, pb\<lparr>pb_log_buffer := bufs[i := b'\<lparr>cb_pageid := 0\<rparr>], pb_hash_table := ht\<rparr>), st', w')
             else Some ((Some i, pb\<lparr>pb_log_buffer := bufs[i := b'], pb_hash_table := ht\<rparr>), st', w'))"

definition la_cache_buffer_replace ::
    "'w la_io \<Rightarrow> la_cache_cfg \<Rightarrow> log_pageid \<Rightarrow> la_cache_pb \<Rightarrow> la_vols \<Rightarrow> 'w
      \<Rightarrow> ((nat option \<times> la_cache_pb) \<times> la_vols \<times> 'w) option" where
  "la_cache_buffer_replace io cfg pageid pb st w =
     (case la_cache_victim io cfg pb w of
        None \<Rightarrow> None
      | Some ((None, pb1), w1) \<Rightarrow> Some ((None, pb1), st, w1)
      | Some ((Some i, pb1), w1) \<Rightarrow> la_cache_load io pageid i pb1 st w1)"

definition fix_buffer :: "nat \<Rightarrow> la_cache_pb \<Rightarrow> la_cache_pb" where
  "fix_buffer i pb = pb\<lparr>pb_log_buffer := (pb_log_buffer pb)[i := (pb_log_buffer pb ! i)
     \<lparr>cb_fix_count := cb_fix_count (pb_log_buffer pb ! i) + 1\<rparr>]\<rparr>"

definition la_get_page_buffer ::
    "'w la_io \<Rightarrow> la_cache_cfg \<Rightarrow> log_pageid \<Rightarrow> la_cache_pb \<Rightarrow> la_vols \<Rightarrow> 'w
      \<Rightarrow> ((nat option \<times> la_cache_pb) \<times> la_vols \<times> 'w) option" where
  "la_get_page_buffer io cfg pageid pb st w =
     (let (hit, ht) = pb_get (pb_log_buffer pb) (pb_hash_table pb) (Kval pageid);
          pb0 = pb\<lparr>pb_hash_table := ht\<rparr>
      in case hit of
           None \<Rightarrow>
             (case la_cache_buffer_replace io cfg pageid pb0 st w of
                None \<Rightarrow> None
              | Some ((None, pb1), st1, w1) \<Rightarrow> Some ((None, pb1), st1, w1)
              | Some ((Some i, pb1), st1, w1) \<Rightarrow>
                  let bufs = pb_log_buffer pb1 in
                  if lp_logical_pageid (cb_logpage (bufs ! i)) \<noteq> pageid then Some ((None, pb1), st1, w1)
                  else
                    let ht1 = pb_rem bufs (pb_hash_table pb1) (Kbuf i);
                        (ok, w1') = io_malloc io w1;
                        (ok', w2) = io_malloc io w1';
                        (put_ok, ht2) = pb_put bufs (ok, ok') ht1 (Kbuf i) i;
                        pb2 = pb1\<lparr>pb_hash_table := ht2\<rparr>
                    in if \<not> put_ok then Some ((None, pb2), st1, w2)
                       else Some ((Some i, fix_buffer i pb2), st1, w2))
         | Some i \<Rightarrow>
             let bufs = pb_log_buffer pb0 in
             if lp_logical_pageid (cb_logpage (bufs ! i)) \<noteq> pageid
             then Some ((None, pb0\<lparr>pb_hash_table := pb_rem bufs (pb_hash_table pb0) (Kbuf i)\<rparr>), st, w)
             else Some ((Some i, fix_buffer i pb0), st, w))"

text \<open>\<^verbatim>\<open>la_get_page\<close> tries until it has the page.\<close>

partial_function (option) la_get_page_loop ::
    "'w la_io \<Rightarrow> la_cache_cfg \<Rightarrow> log_pageid \<Rightarrow> la_cache_pb \<Rightarrow> la_vols \<Rightarrow> 'w
      \<Rightarrow> ((nat \<times> la_cache_pb) \<times> la_vols \<times> 'w) option" where
  "la_get_page_loop io cfg pageid pb st w =
     (case la_get_page_buffer io cfg pageid pb st w of
        None \<Rightarrow> None
      | Some ((r, pb1), st1, w1) \<Rightarrow>
          (case r of
             None \<Rightarrow> la_get_page_loop io cfg pageid pb1 st1 w1
           | Some i \<Rightarrow> Some ((i, pb1), st1, w1)))"

definition la_get_page ::
    "'w la_io \<Rightarrow> la_cache_cfg \<Rightarrow> log_pageid \<Rightarrow> la_cache_pb \<Rightarrow> la_vols \<Rightarrow> 'w
      \<Rightarrow> ((log_page option \<times> la_cache_pb) \<times> la_vols \<times> 'w) option" where
  "la_get_page io cfg pageid pb st w =
     (if pageid = NULL_PAGEID then Some ((None, pb), st, w)
      else case la_get_page_loop io cfg pageid pb st w of
             None \<Rightarrow> None
           | Some ((i, pb1), st1, w1) \<Rightarrow> Some ((Some (cb_logpage (pb_log_buffer pb1 ! i)), pb1), st1, w1))"

definition la_release_page_buffer :: "log_pageid \<Rightarrow> la_cache_pb \<Rightarrow> la_cache_pb" where
  "la_release_page_buffer pageid pb =
     (let (hit, ht) = pb_get (pb_log_buffer pb) (pb_hash_table pb) (Kval pageid);
          pb0 = pb\<lparr>pb_hash_table := ht\<rparr>
      in case hit of
           None \<Rightarrow> pb0
         | Some i \<Rightarrow>
             let b = pb_log_buffer pb0 ! i; fc = cb_fix_count b - 1
             in pb0\<lparr>pb_log_buffer := (pb_log_buffer pb0)[i :=
                  b\<lparr>cb_fix_count := (if fc \<le> 0 then 0 else fc), cb_recently_free := True\<rparr>]\<rparr>)"

definition release_buffer :: "log_pageid \<Rightarrow> la_cache_buffer \<Rightarrow> la_cache_buffer" where
  "release_buffer except_pageid b =
     (if cb_pageid b = except_pageid then b
      else if 0 < cb_fix_count b then b\<lparr>cb_fix_count := 0, cb_recently_free := True\<rparr> else b)"

definition la_release_all_page_buffers :: "log_pageid \<Rightarrow> la_cache_pb \<Rightarrow> la_cache_pb" where
  "la_release_all_page_buffers except_pageid pb =
     pb\<lparr>pb_log_buffer := map (release_buffer except_pageid) (pb_log_buffer pb)\<rparr>"

definition la_invalidate_page_buffer :: "nat option \<Rightarrow> la_cache_pb \<Rightarrow> la_cache_pb" where
  "la_invalidate_page_buffer cache_buffer pb =
     (case cache_buffer of
        None \<Rightarrow> pb
      | Some i \<Rightarrow>
          let bufs = pb_log_buffer pb; b = bufs ! i;
              ht = (if cb_pageid b \<noteq> 0 then pb_rem bufs (pb_hash_table pb) (Kbuf i) else pb_hash_table pb)
          in pb\<lparr>pb_hash_table := ht, pb_log_buffer := bufs[i :=
               b\<lparr>cb_fix_count := 0, cb_recently_free := False, cb_pageid := 0\<rparr>]\<rparr>)"

text \<open>\<^verbatim>\<open>la_decache_page_buffers\<close>: the loop over the buffers, from \<open>i\<close> on.\<close>

definition la_decache_buffer :: "log_pageid \<Rightarrow> log_pageid \<Rightarrow> nat \<Rightarrow> la_cache_pb \<Rightarrow> la_cache_pb" where
  "la_decache_buffer from to i pb =
     (let bufs = pb_log_buffer pb; b = bufs ! i in
      if cb_pageid b = NULL_PAGEID \<or> cb_pageid b = 0 \<or> cb_pageid b < from \<or> to < cb_pageid b then pb
      else pb\<lparr>pb_hash_table := pb_rem bufs (pb_hash_table pb) (Kbuf i),
              pb_log_buffer := bufs[i := b\<lparr>cb_fix_count := 0, cb_recently_free := False, cb_pageid := 0\<rparr>]\<rparr>)"

definition la_decache_page_buffers :: "log_pageid \<Rightarrow> log_pageid \<Rightarrow> la_cache_pb \<Rightarrow> la_cache_pb" where
  "la_decache_page_buffers from to pb =
     fold (la_decache_buffer from to) [0..<length (pb_log_buffer pb)] pb"

datatype page_exist = LA_PAGE_DOESNOT_EXIST | LA_PAGE_EXST_IN_ACTIVE_LOG | LA_PAGE_EXST_IN_ARCHIVE_LOG

definition la_does_page_exist ::
    "'w la_io \<Rightarrow> la_cache_cfg \<Rightarrow> log_pageid \<Rightarrow> la_cache_pb \<Rightarrow> la_vols \<Rightarrow> 'w
      \<Rightarrow> ((page_exist \<times> la_cache_pb) \<times> la_vols \<times> 'w) option" where
  "la_does_page_exist io cfg pageid pb st w =
     (case la_get_page_buffer io cfg pageid pb st w of
        None \<Rightarrow> None
      | Some ((None, pb1), st1, w1) \<Rightarrow> Some ((LA_PAGE_DOESNOT_EXIST, pb1), st1, w1)
      | Some ((Some i, pb1), st1, w1) \<Rightarrow>
          let b = pb_log_buffer pb1 ! i in
          if cb_pageid b = pageid \<and> lp_logical_pageid (cb_logpage b) = pageid
             \<and> NULL_OFFSET < lp_offset (cb_logpage b)
          then Some ((if cb_in_archive b then LA_PAGE_EXST_IN_ARCHIVE_LOG else LA_PAGE_EXST_IN_ACTIVE_LOG,
                      la_release_page_buffer pageid pb1), st1, w1)
          else Some ((LA_PAGE_DOESNOT_EXIST, la_invalidate_page_buffer (Some i) pb1), st1, w1))"

section \<open>The invariant\<close>

text \<open>
  The table is valid for what its keys denote now, and every binding is a
  buffer under the address of its own, non-zero page identifier, holding that
  page.
\<close>

definition pb_binding_ok :: "la_cache_buffer list \<Rightarrow> page_key \<times> nat \<Rightarrow> bool" where
  "pb_binding_ok bufs x \<longleftrightarrow> fst x = Kbuf (snd x) \<and> snd x < length bufs \<and>
     cb_pageid (bufs ! snd x) \<noteq> 0 \<and>
     lp_logical_pageid (cb_logpage (bufs ! snd x)) = cb_pageid (bufs ! snd x)"

definition pb_table_ok :: "la_cache_buffer list \<Rightarrow> (page_key, nat) mht_table \<Rightarrow> bool" where
  "pb_table_ok bufs ht \<longleftrightarrow> pb_valid bufs ht \<and> (\<forall>x \<in> mht_pairs ht. pb_binding_ok bufs x)"

definition pb_inv :: "la_cache_pb \<Rightarrow> bool" where
  "pb_inv pb \<longleftrightarrow> pb_table_ok (pb_log_buffer pb) (pb_hash_table pb)"

text \<open>Whether a buffer is in the table.\<close>

definition pb_tabled :: "(page_key, nat) mht_table \<Rightarrow> nat \<Rightarrow> bool" where
  "pb_tabled ht i \<longleftrightarrow> (Kbuf i, i) \<in> mht_pairs ht"

lemma pb_table_ok_cong:
  assumes "pb_table_ok bufs ht" and "length bufs \<le> length bufs'"
    and "\<And>i. i < length bufs \<Longrightarrow> pb_tabled ht i \<Longrightarrow> cb_pageid (bufs' ! i) = cb_pageid (bufs ! i) \<and>
          lp_logical_pageid (cb_logpage (bufs' ! i)) = lp_logical_pageid (cb_logpage (bufs ! i))"
  shows "pb_table_ok bufs' ht"
proof -
  have b: "pb_binding_ok bufs' x \<and> key_pageid bufs' (fst x) = key_pageid bufs (fst x)"
    if "x \<in> mht_pairs ht" for x
  proof -
    have "pb_binding_ok bufs x" using assms(1) that by (auto simp: pb_table_ok_def)
    then have x: "x = (Kbuf (snd x), snd x)" "snd x < length bufs"
      by (auto simp: pb_binding_ok_def prod_eq_iff)
    with that have "pb_tabled ht (snd x)" by (metis pb_tabled_def)
    from assms(3) [OF x(2) this] \<open>pb_binding_ok bufs x\<close> assms(2) show ?thesis
      by (auto simp: pb_binding_ok_def)
  qed
  have "pb_valid bufs' ht"
  proof (rule mht_inv_cong_keys)
    show "pb_valid bufs ht" using assms(1) by (simp add: pb_table_ok_def)
  next
    fix k d assume "(k, d) \<in> mht_pairs ht"
    from b [OF this] show "lp_hash (key_pageid bufs') k = lp_hash (key_pageid bufs) k"
      by (simp add: lp_hash_def fun_eq_iff)
  next
    fix k d k' d' assume "(k, d) \<in> mht_pairs ht" and "(k', d') \<in> mht_pairs ht"
    from b [OF this(1)] b [OF this(2)]
    show "lp_cmp (key_pageid bufs') k k' = lp_cmp (key_pageid bufs) k k'" by (simp add: lp_cmp_def)
  qed
  with b show ?thesis by (simp add: pb_table_ok_def)
qed

text \<open>A buffer that is not in the table may be written at will.\<close>

lemma pb_table_ok_upd_free:
  "pb_table_ok bufs ht \<Longrightarrow> \<not> pb_tabled ht i \<Longrightarrow> pb_table_ok (bufs[i := b]) ht"
  by (rule pb_table_ok_cong [of bufs]) (auto simp: nth_list_update_lt)

text \<open>One that is in it, as long as it keeps its page.\<close>

lemma pb_table_ok_upd_same:
  "pb_table_ok bufs ht \<Longrightarrow> cb_pageid b = cb_pageid (bufs ! i) \<Longrightarrow> cb_logpage b = cb_logpage (bufs ! i) \<Longrightarrow>
   pb_table_ok (bufs[i := b]) ht"
  by (rule pb_table_ok_cong [of bufs]) (auto simp: nth_list_update_lt)

lemma pb_rem_ok:
  assumes "pb_table_ok bufs ht" and "i < length bufs"
  shows "pb_table_ok bufs (pb_rem bufs ht (Kbuf i))" and "\<not> pb_tabled (pb_rem bufs ht (Kbuf i)) i"
proof -
  obtain err ht' where r: "mht_rem (lp_hash (key_pageid bufs)) (lp_cmp (key_pageid bufs)) ht (Kbuf i) None = (err, ht')"
    by force
  have v: "pb_valid bufs ht" using assms(1) by (simp add: pb_table_ok_def)
  note p = mht_pairs_rem [OF lp_keys_ok v r] and inv' = mht_rem_correct(1) [OF lp_keys_ok v r]
  show "pb_table_ok bufs (pb_rem bufs ht (Kbuf i))"
    using assms(1) p inv' r by (auto simp: pb_table_ok_def)
  show "\<not> pb_tabled (pb_rem bufs ht (Kbuf i)) i"
    using p r by (simp add: pb_tabled_def lp_cmp_def mht_compare_logpageids_are_equal_def)
qed

lemma pb_untabled_zero:
  "pb_table_ok bufs ht \<Longrightarrow> cb_pageid (bufs ! i) = 0 \<Longrightarrow> \<not> pb_tabled ht i"
  by (auto simp: pb_table_ok_def pb_binding_ok_def pb_tabled_def)

text \<open>Taking a buffer out of the table, as replacement and invalidation do it.\<close>

lemma pb_drop_ok:
  assumes "pb_table_ok bufs ht" and "i < length bufs"
  defines "ht' \<equiv> (if cb_pageid (bufs ! i) \<noteq> 0 then pb_rem bufs ht (Kbuf i) else ht)"
  shows "pb_table_ok bufs ht'" and "\<not> pb_tabled ht' i"
  using assms pb_rem_ok [OF assms(1,2)] pb_untabled_zero [OF assms(1), of i]
  by (auto simp: ht'_def)

lemma pb_put_ok:
  assumes "pb_table_ok bufs ht" and "i < length bufs" and "cb_pageid (bufs ! i) \<noteq> 0"
    and "lp_logical_pageid (cb_logpage (bufs ! i)) = cb_pageid (bufs ! i)"
    and "pb_put bufs mem ht (Kbuf i) i = (r, ht')"
  shows "pb_table_ok bufs ht'"
    and "r \<Longrightarrow> pb_lookup bufs ht' (Kval (cb_pageid (bufs ! i))) = Some i"
proof -
  have v: "pb_valid bufs ht" using assms(1) by (simp add: pb_table_ok_def)
  note P = mht_put_internal_correct [OF lp_keys_ok v assms(5) [unfolded mht_put_def]]
  have "pb_valid bufs ht'" using P by simp
  moreover have "pb_binding_ok bufs (Kbuf i, i)" using assms(2-4) by (simp add: pb_binding_ok_def)
  ultimately show "pb_table_ok bufs ht'"
    using mht_pairs_put [OF assms(5)] assms(1) by (auto simp: pb_table_ok_def)
  show "r \<Longrightarrow> pb_lookup bufs ht' (Kval (cb_pageid (bufs ! i))) = Some i"
    using P assms(2) by (simp add: lp_cmp_def mht_compare_logpageids_are_equal_def)
qed

lemma pb_get_ok:
  assumes "pb_table_ok bufs ht" and "pb_get bufs ht k = (r, ht')"
  shows "pb_table_ok bufs ht'" and "r = pb_lookup bufs ht k" and "pb_lookup bufs ht' = pb_lookup bufs ht"
    and "r = Some i \<Longrightarrow> i < length bufs \<and> cb_pageid (bufs ! i) = key_pageid bufs k \<and>
           lp_logical_pageid (cb_logpage (bufs ! i)) = key_pageid bufs k"
proof -
  have v: "pb_valid bufs ht" using assms(1) by (simp add: pb_table_ok_def)
  note G = lp.get_lookup [OF v assms(2)]
  show "pb_table_ok bufs ht'"
    using G assms(1) mht_pairs_get [OF assms(2)] by (simp add: pb_table_ok_def)
  show r: "r = pb_lookup bufs ht k" and "pb_lookup bufs ht' = pb_lookup bufs ht" using G by simp_all
  assume "r = Some i"
  with r have "pb_lookup bufs ht k = Some i" by simp
  then obtain e k' where e: "e \<in> set (mht_act ht)" "mht_ent ht e = Some (k', i)"
    and c: "lp_cmp (key_pageid bufs) k' k"
    using mht_lookup_iff [OF lp.eqk_equiv mht_inv_distinct [OF v]] by blast
  then have "(k', i) \<in> mht_pairs ht" by (auto simp: mht_pairs_def)
  then have "pb_binding_ok bufs (k', i)" using assms(1) by (auto simp: pb_table_ok_def)
  with c show "i < length bufs \<and> cb_pageid (bufs ! i) = key_pageid bufs k \<and>
      lp_logical_pageid (cb_logpage (bufs ! i)) = key_pageid bufs k"
    by (auto simp: pb_binding_ok_def lp_cmp_def mht_compare_logpageids_are_equal_def)
qed

section \<open>The victim search\<close>

text \<open>What the search may change: buffers are added and second chances taken, nothing else.\<close>

definition buf_keeps :: "la_cache_buffer \<Rightarrow> la_cache_buffer \<Rightarrow> bool" where
  "buf_keeps b b' \<longleftrightarrow> b' = b \<or>
     cb_fix_count b = 0 \<and> cb_fix_count b' = 0 \<and> cb_pageid b' = cb_pageid b \<and> cb_logpage b' = cb_logpage b \<and>
     cb_phy_pageid b' = cb_phy_pageid b \<and> cb_in_archive b' = cb_in_archive b"

definition pb_keeps :: "la_cache_buffer list \<Rightarrow> la_cache_buffer list \<Rightarrow> bool" where
  "pb_keeps bufs bufs' \<longleftrightarrow> length bufs \<le> length bufs' \<and> (\<forall>i < length bufs. buf_keeps (bufs ! i) (bufs' ! i))"

lemma buf_keeps_refl [simp]: "buf_keeps b b"
  by (simp add: buf_keeps_def)

lemma pb_keeps_refl [simp]: "pb_keeps bufs bufs"
  by (simp add: pb_keeps_def)

lemma buf_keeps_trans: "buf_keeps a b \<Longrightarrow> buf_keeps b c \<Longrightarrow> buf_keeps a c"
  by (auto simp: buf_keeps_def)

lemma pb_keeps_trans: "pb_keeps a b \<Longrightarrow> pb_keeps b c \<Longrightarrow> pb_keeps a c"
  by (auto simp: pb_keeps_def intro: buf_keeps_trans)

lemma pb_keeps_append: "pb_keeps bufs (bufs @ bs)"
  by (simp add: pb_keeps_def nth_append)

lemma pb_keeps_clear:
  "cb_fix_count (bufs ! i) = 0 \<Longrightarrow> pb_keeps bufs (bufs[i := (bufs ! i)\<lparr>cb_recently_free := r\<rparr>])"
  by (auto simp: pb_keeps_def nth_list_update_lt) (simp add: buf_keeps_def)

lemma pb_keeps_nth:
  assumes "pb_keeps bufs bufs'" and "i < length bufs"
  shows "i < length bufs'" and "cb_pageid (bufs' ! i) = cb_pageid (bufs ! i)"
    and "cb_logpage (bufs' ! i) = cb_logpage (bufs ! i)"
    and "cb_fix_count (bufs' ! i) = cb_fix_count (bufs ! i)"
    and "cb_fix_count (bufs ! i) \<noteq> 0 \<Longrightarrow> bufs' ! i = bufs ! i"
proof -
  have "buf_keeps (bufs ! i) (bufs' ! i)" and "length bufs \<le> length bufs'"
    using assms by (auto simp: pb_keeps_def)
  then show "i < length bufs'" and "cb_pageid (bufs' ! i) = cb_pageid (bufs ! i)"
    and "cb_logpage (bufs' ! i) = cb_logpage (bufs ! i)"
    and "cb_fix_count (bufs' ! i) = cb_fix_count (bufs ! i)"
    and "cb_fix_count (bufs ! i) \<noteq> 0 \<Longrightarrow> bufs' ! i = bufs ! i"
    using assms(2) by (auto simp: buf_keeps_def)
qed

lemma pb_keeps_table_ok: "pb_table_ok bufs ht \<Longrightarrow> pb_keeps bufs bufs' \<Longrightarrow> pb_table_ok bufs' ht"
  by (rule pb_table_ok_cong [of bufs]) (simp_all add: pb_keeps_nth, simp add: pb_keeps_def)

definition pb_free :: "la_cache_buffer \<Rightarrow> bool" where
  "pb_free b \<longleftrightarrow> cb_fix_count b = 0 \<and> \<not> cb_recently_free b"

lemma la_cache_scan_result:
  assumes "la_cache_scan n pos bufs freed = (found, pos', bufs', freed')" and "n \<le> length bufs"
  shows "length bufs' = length bufs \<and> pb_keeps bufs bufs' \<and> freed \<le> freed' \<and>
    length (filter cb_recently_free bufs') + freed' = length (filter cb_recently_free bufs) + freed \<and>
    (\<forall>i. found = Some i \<longrightarrow> i < length bufs' \<and> pb_free (bufs' ! i)) \<and>
    (found = None \<longrightarrow> (\<forall>k < n. \<not> pb_free (bufs ! ((pos + 1 + k) mod length bufs))))"
  using assms
proof (induction n pos bufs freed rule: la_cache_scan.induct)
  case (1 pos bufs freed)
  then show ?case by simp
next
  case (2 n pos bufs freed)
  define p where "p = (pos + 1) mod length bufs"
  have "0 < length bufs" using 2(4) by linarith
  then have p: "p < length bufs" by (simp add: p_def)
  have shift: "(pos + 1 + Suc k) mod length bufs = (p + 1 + k) mod length bufs" for k
    using mod_add_left_eq [of "pos + 1" "length bufs" "1 + k"] by (simp add: p_def)
  have all: "(\<forall>k < Suc n. \<not> pb_free (bufs ! ((pos + 1 + k) mod length bufs))) \<longleftrightarrow>
      \<not> pb_free (bufs ! p) \<and> (\<forall>k < n. \<not> pb_free (bufs ! ((p + 1 + k) mod length bufs)))"
    unfolding All_less_Suc2 shift by (simp add: p_def)
  have step: "la_cache_scan (Suc n) pos bufs freed = (if cb_fix_count (bufs ! p) = 0 then
      (if cb_recently_free (bufs ! p) then la_cache_scan n p (bufs[p := (bufs ! p)\<lparr>cb_recently_free := False\<rparr>]) (freed + 1)
       else (Some p, p, bufs, freed)) else la_cache_scan n p bufs freed)"
    by (simp add: p_def Let_def)
  consider (fixed) "cb_fix_count (bufs ! p) \<noteq> 0" | (chance) "cb_fix_count (bufs ! p) = 0" "cb_recently_free (bufs ! p)"
    | (hit) "pb_free (bufs ! p)" by (auto simp: pb_free_def)
  then show ?case
  proof cases
    case fixed
    then have call: "la_cache_scan n p bufs freed = (found, pos', bufs', freed')" using 2(3) step by simp
    show ?thesis using 2(2) [OF p_def refl fixed call] 2(4) fixed unfolding all by (auto simp: pb_free_def)
  next
    case chance
    let ?b = "bufs[p := (bufs ! p)\<lparr>cb_recently_free := False\<rparr>]"
    have call: "la_cache_scan n p ?b (freed + 1) = (found, pos', bufs', freed')"
      using 2(3) chance step by simp
    note IH = 2(1) [OF p_def refl chance call]
    have free: "pb_free (bufs ! q) \<Longrightarrow> pb_free (?b ! q)" for q
      using p by (cases "q = p") (auto simp: pb_free_def)
    have "length (filter cb_recently_free ?b) + 1 = length (filter cb_recently_free bufs)"
      using length_filter_update [of p bufs cb_recently_free] p chance by simp
    moreover have "pb_keeps bufs bufs'"
      using IH 2(4) pb_keeps_clear [OF chance(1)] pb_keeps_trans by (metis Suc_leD length_list_update)
    moreover have "\<not> pb_free (bufs ! p)" using chance by (simp add: pb_free_def)
    ultimately show ?thesis using IH 2(4) free unfolding all by auto
  next
    case hit
    then show ?thesis using 2(3) p step by (auto simp: pb_free_def)
  qed
qed

lemma la_expand_cache_log_buffer_result:
  assumes "la_expand_cache_log_buffer io cfg pb w = ((err, pb'), w')"
  shows "pb_hash_table pb' = pb_hash_table pb \<and> pb_keeps (pb_log_buffer pb) (pb_log_buffer pb') \<and>
    (err = NO_ERROR \<longrightarrow> pb_log_buffer pb' = pb_log_buffer pb @
       replicate (cfg_buffer_size cfg) (zero_buffer (cfg_logpagesize cfg)))"
  using assms by (auto simp: la_expand_cache_log_buffer_def pb_keeps_append split: prod.splits if_splits)

lemma la_cache_victim_result:
  assumes "la_cache_victim io cfg pb w = Some ((found, pb'), w')"
  shows "pb_hash_table pb' = pb_hash_table pb \<and> pb_keeps (pb_log_buffer pb) (pb_log_buffer pb') \<and>
    (\<forall>i. found = Some i \<longrightarrow> i < length (pb_log_buffer pb') \<and> pb_free (pb_log_buffer pb' ! i))"
proof -
  have "\<forall>found pb' w'. r = ((found, pb'), w') \<longrightarrow>
     pb_hash_table pb' = pb_hash_table pb \<and> pb_keeps (pb_log_buffer pb) (pb_log_buffer pb') \<and>
     (\<forall>i. found = Some i \<longrightarrow> i < length (pb_log_buffer pb') \<and> pb_free (pb_log_buffer pb' ! i))"
    if "la_cache_victim io cfg pb w = Some r" for r
  proof (rule la_cache_victim.raw_induct [OF _ that], goal_cases)
    case (1 f io cfg pb w r)
    obtain found pos bufs freed where
      scan: "la_cache_scan (length (pb_log_buffer pb)) (pb_last pb) (pb_log_buffer pb) 0 = (found, pos, bufs, freed)"
      by (metis prod_cases4)
    let ?pb = "pb\<lparr>pb_log_buffer := bufs, pb_last := pos\<rparr>"
    note S = la_cache_scan_result [OF scan le_refl]
    show ?case
    proof (cases found)
      case (Some i)
      with 1(2) scan S show ?thesis by auto
    next
      case None
      obtain err pb1 w1 where X: "la_expand_cache_log_buffer io cfg ?pb w = ((err, pb1), w1)"
      by (metis surj_pair)
      note E = la_expand_cache_log_buffer_result [OF X]
      show ?thesis
      proof (cases "0 < freed")
        case True
        with 1(2) scan None have "f io cfg ?pb w = Some r" by simp
        from 1(1) [OF this] S show ?thesis by (auto intro: pb_keeps_trans)
      next
        case nf: False
        show ?thesis
        proof (cases "err = NO_ERROR")
          case True
          with 1(2) scan None nf X have "f io cfg pb1 w1 = Some r" by simp
          from 1(1) [OF this] S E show ?thesis by (auto intro: pb_keeps_trans)
        next
          case False
          with 1(2) scan None nf X S E show ?thesis by (auto intro: pb_keeps_trans)
        qed
      qed
    qed
  qed
  with assms show ?thesis by blast
qed

text \<open>The search ends: every round takes second chances away, finds a buffer, or adds one.\<close>

lemma la_cache_victim_free:
  assumes "i < length (pb_log_buffer pb)" and "pb_free (pb_log_buffer pb ! i)"
  shows "\<exists>r. la_cache_victim io cfg pb w = Some r"
proof -
  obtain found pos bufs freed where
    scan: "la_cache_scan (length (pb_log_buffer pb)) (pb_last pb) (pb_log_buffer pb) 0 = (found, pos, bufs, freed)"
    by (metis prod_cases4)
  have "found \<noteq> None"
    using la_cache_scan_result [OF scan le_refl] assms ring_walk_meets [OF assms(1), of "pb_last pb"] by metis
  with scan show ?thesis by (subst la_cache_victim.simps) auto
qed

lemma la_cache_victim_returns:
  assumes "0 < cfg_buffer_size cfg"
  shows "\<exists>r. la_cache_victim io cfg pb w = Some r"
proof (induction "length (filter cb_recently_free (pb_log_buffer pb))" arbitrary: pb rule: less_induct)
  case less
  obtain found pos bufs freed where
    scan: "la_cache_scan (length (pb_log_buffer pb)) (pb_last pb) (pb_log_buffer pb) 0 = (found, pos, bufs, freed)"
    by (metis prod_cases4)
  let ?pb = "pb\<lparr>pb_log_buffer := bufs, pb_last := pos\<rparr>"
  note S = la_cache_scan_result [OF scan le_refl]
  obtain err pb1 w1 where X: "la_expand_cache_log_buffer io cfg ?pb w = ((err, pb1), w1)"
      by (metis surj_pair)
  have "\<exists>r. la_cache_victim io cfg ?pb w = Some r" if "0 < freed"
    by (rule less) (use S that in auto)
  moreover have "\<exists>r. la_cache_victim io cfg pb1 w1 = Some r" if "err = NO_ERROR"
  proof (rule la_cache_victim_free)
    have "pb_log_buffer pb1 = bufs @ replicate (cfg_buffer_size cfg) (zero_buffer (cfg_logpagesize cfg))"
      using la_expand_cache_log_buffer_result [OF X] that by simp
    then show "length bufs < length (pb_log_buffer pb1)" and "pb_free (pb_log_buffer pb1 ! length bufs)"
      using assms by (auto simp: nth_append pb_free_def zero_buffer_def)
  qed
  ultimately show ?case
    using scan X by (subst la_cache_victim.simps) (auto split: option.splits)
qed

section \<open>Correctness of the cache\<close>

text \<open>
  A buffer that is fixed, other than the one \<open>except\<close>, is the same buffer
  before and after: no operation that reads a page takes it from its user.
\<close>

definition pb_fixed_kept :: "nat option \<Rightarrow> la_cache_pb \<Rightarrow> la_cache_pb \<Rightarrow> bool" where
  "pb_fixed_kept except pb pb' \<longleftrightarrow> length (pb_log_buffer pb) \<le> length (pb_log_buffer pb') \<and>
     (\<forall>j < length (pb_log_buffer pb). cb_fix_count (pb_log_buffer pb ! j) \<noteq> 0 \<and> except \<noteq> Some j \<longrightarrow>
        pb_log_buffer pb' ! j = pb_log_buffer pb ! j)"

lemma pb_keeps_fixed_kept:
  "pb_keeps (pb_log_buffer pb) (pb_log_buffer pb') \<Longrightarrow> pb_fixed_kept except pb pb'"
  by (auto simp: pb_fixed_kept_def pb_keeps_nth) (simp add: pb_keeps_def)

lemma pb_fixed_kept_trans:
  assumes "pb_fixed_kept e pb pb1" and "pb_fixed_kept e pb1 pb2"
  shows "pb_fixed_kept e pb pb2"
  unfolding pb_fixed_kept_def
proof (intro conjI allI impI)
  show "length (pb_log_buffer pb) \<le> length (pb_log_buffer pb2)"
    using assms by (simp add: pb_fixed_kept_def)
next
  fix j assume j: "j < length (pb_log_buffer pb)"
    and f: "cb_fix_count (pb_log_buffer pb ! j) \<noteq> 0 \<and> e \<noteq> Some j"
  have "pb_log_buffer pb1 ! j = pb_log_buffer pb ! j" and "j < length (pb_log_buffer pb1)"
    using j f assms(1) by (simp_all add: pb_fixed_kept_def)
  with f assms(2) show "pb_log_buffer pb2 ! j = pb_log_buffer pb ! j" by (simp add: pb_fixed_kept_def)
qed

lemma la_cache_load_result:
  assumes "pb_inv pb" and "i < length (pb_log_buffer pb)" and "pb_free (pb_log_buffer pb ! i)"
    and "la_cache_load io pageid i pb st w = Some ((r, pb'), st', w')"
  shows "pb_inv pb' \<and> pb_fixed_kept None pb pb' \<and> \<not> pb_tabled (pb_hash_table pb') i \<and>
    length (pb_log_buffer pb') = length (pb_log_buffer pb) \<and> (r = None \<or> r = Some i) \<and>
    (r \<noteq> None \<longrightarrow> cb_pageid (pb_log_buffer pb' ! i) = pageid \<and>
       lp_logical_pageid (cb_logpage (pb_log_buffer pb' ! i)) = pageid \<and>
       cb_fix_count (pb_log_buffer pb' ! i) = 0)"
proof -
  let ?bufs = "pb_log_buffer pb" and ?b = "(pb_log_buffer pb ! i)\<lparr>cb_fix_count := 0\<rparr>"
  define ht where "ht = (if cb_pageid (?bufs ! i) \<noteq> 0 then pb_rem ?bufs (pb_hash_table pb) (Kbuf i) else pb_hash_table pb)"
  have drop: "pb_table_ok ?bufs ht" "\<not> pb_tabled ht i"
    using pb_drop_ok [OF _ assms(2), of "pb_hash_table pb"] assms(1) by (simp_all add: pb_inv_def ht_def)
  obtain err b' where f: "la_log_fetch io pageid ?b st w = Some ((err, b'), st', w')"
    and r: "r = (if err \<noteq> NO_ERROR then None else Some i)"
    and pb': "pb' = pb\<lparr>pb_log_buffer := ?bufs[i := if err \<noteq> NO_ERROR then b'\<lparr>cb_pageid := 0\<rparr> else b'], pb_hash_table := ht\<rparr>"
    using assms(4) by (auto simp: la_cache_load_def Let_def ht_def split: option.splits prod.splits if_splits)
  note F = la_log_fetch_result [OF f]
  have "pb_inv pb'" using pb_table_ok_upd_free [OF drop] pb' by (simp add: pb_inv_def)
  moreover have "pb_fixed_kept None pb pb'"
    using assms(3) pb' by (auto simp: pb_fixed_kept_def pb_free_def nth_list_update_lt)
  moreover have "\<not> pb_tabled (pb_hash_table pb') i" using drop(2) pb' by simp
  ultimately show ?thesis using F r pb' assms(2) by simp
qed

lemma la_cache_buffer_replace_result:
  assumes "pb_inv pb" and "la_cache_buffer_replace io cfg pageid pb st w = Some ((r, pb'), st', w')"
  shows "pb_inv pb' \<and> pb_fixed_kept None pb pb' \<and>
    (\<forall>i. r = Some i \<longrightarrow> i < length (pb_log_buffer pb') \<and> \<not> pb_tabled (pb_hash_table pb') i \<and>
       cb_pageid (pb_log_buffer pb' ! i) = pageid \<and>
       lp_logical_pageid (cb_logpage (pb_log_buffer pb' ! i)) = pageid \<and>
       cb_fix_count (pb_log_buffer pb' ! i) = 0 \<and>
       (i < length (pb_log_buffer pb) \<longrightarrow> cb_fix_count (pb_log_buffer pb ! i) = 0))"
proof -
  obtain found pb1 w1 where v: "la_cache_victim io cfg pb w = Some ((found, pb1), w1)"
    using assms(2) by (auto simp: la_cache_buffer_replace_def split: option.splits prod.splits)
  note V = la_cache_victim_result [OF v]
  have inv1: "pb_inv pb1" using V assms(1) pb_keeps_table_ok by (auto simp: pb_inv_def)
  have k: "pb_fixed_kept None pb pb1" using V pb_keeps_fixed_kept by blast
  show ?thesis
  proof (cases found)
    case None
    with assms(2) v inv1 k show ?thesis by (auto simp: la_cache_buffer_replace_def)
  next
    case (Some i)
    then have "la_cache_load io pageid i pb1 st w1 = Some ((r, pb'), st', w')"
      using assms(2) v by (simp add: la_cache_buffer_replace_def)
    note L = la_cache_load_result [OF inv1 _ _ this]
    have i: "i < length (pb_log_buffer pb1)" "pb_free (pb_log_buffer pb1 ! i)" using V Some by auto
    have "pb_fixed_kept None pb pb'"
      using pb_fixed_kept_trans [OF k] L [OF i] by blast
    moreover have "cb_fix_count (pb_log_buffer pb ! i) = 0" if "i < length (pb_log_buffer pb)"
      using pb_keeps_nth(4) [OF conjunct1 [OF conjunct2 [OF V]] that] i(2) by (simp add: pb_free_def)
    ultimately show ?thesis using L [OF i] i by auto
  qed
qed

lemma fix_buffer_ok:
  assumes "pb_inv pb" and "i < length (pb_log_buffer pb)"
  shows "pb_inv (fix_buffer i pb)" and "pb_fixed_kept (Some i) pb (fix_buffer i pb)"
    and "cb_pageid (pb_log_buffer (fix_buffer i pb) ! i) = cb_pageid (pb_log_buffer pb ! i)"
    and "cb_logpage (pb_log_buffer (fix_buffer i pb) ! i) = cb_logpage (pb_log_buffer pb ! i)"
    and "cb_fix_count (pb_log_buffer (fix_buffer i pb) ! i) = cb_fix_count (pb_log_buffer pb ! i) + 1"
    and "key_pageid (pb_log_buffer (fix_buffer i pb)) = key_pageid (pb_log_buffer pb)"
    and "pb_hash_table (fix_buffer i pb) = pb_hash_table pb"
    and "length (pb_log_buffer (fix_buffer i pb)) = length (pb_log_buffer pb)"
proof -
  show "pb_inv (fix_buffer i pb)"
    using assms(1) pb_table_ok_upd_same by (simp add: pb_inv_def fix_buffer_def)
  show "key_pageid (pb_log_buffer (fix_buffer i pb)) = key_pageid (pb_log_buffer pb)"
  proof
    fix k show "key_pageid (pb_log_buffer (fix_buffer i pb)) k = key_pageid (pb_log_buffer pb) k"
      by (cases k) (simp_all add: fix_buffer_def nth_list_update_lt)
  qed
qed (use assms in \<open>auto simp: fix_buffer_def pb_fixed_kept_def nth_list_update_lt\<close>)

lemma pb_fixed_kept_weaken: "pb_fixed_kept None pb pb' \<Longrightarrow> pb_fixed_kept e pb pb'"
  by (simp add: pb_fixed_kept_def)

text \<open>
  What \<^verbatim>\<open>la_get_page_buffer\<close> guarantees for the buffer it returns:
  it holds the page asked for, is registered under it and is fixed once more.
\<close>

definition pb_holds :: "la_cache_pb \<Rightarrow> nat \<Rightarrow> log_pageid \<Rightarrow> bool" where
  "pb_holds pb i pageid \<longleftrightarrow> i < length (pb_log_buffer pb) \<and>
     cb_pageid (pb_log_buffer pb ! i) = pageid \<and>
     lp_logical_pageid (cb_logpage (pb_log_buffer pb ! i)) = pageid \<and>
     pb_lookup (pb_log_buffer pb) (pb_hash_table pb) (Kval pageid) = Some i"

lemma fix_buffer_holds:
  "pb_inv pb \<Longrightarrow> pb_holds pb i pageid \<Longrightarrow> pb_holds (fix_buffer i pb) i pageid"
  by (auto simp: pb_holds_def fix_buffer_ok)

lemma pb_tabled_get: "pb_get bufs ht k = (r, ht') \<Longrightarrow> pb_tabled ht' i = pb_tabled ht i"
  by (simp add: pb_tabled_def mht_pairs_get)

lemma la_get_page_buffer_hit:
  assumes "pb_inv pb" and "pb_lookup (pb_log_buffer pb) (pb_hash_table pb) (Kval pageid) = Some i"
  shows "\<exists>ht. la_get_page_buffer io cfg pageid pb st w = Some ((Some i, fix_buffer i (pb\<lparr>pb_hash_table := ht\<rparr>)), st, w)
    \<and> pb_inv (pb\<lparr>pb_hash_table := ht\<rparr>) \<and> pb_holds (pb\<lparr>pb_hash_table := ht\<rparr>) i pageid
    \<and> (\<forall>j. pb_tabled ht j = pb_tabled (pb_hash_table pb) j)"
proof -
  obtain r ht where g: "pb_get (pb_log_buffer pb) (pb_hash_table pb) (Kval pageid) = (r, ht)" by force
  note G = pb_get_ok [OF assms(1) [unfolded pb_inv_def] g]
  have r: "r = Some i" using G(2) assms(2) by simp
  note G4 = G(4) [OF r]
  then have "la_get_page_buffer io cfg pageid pb st w = Some ((Some i, fix_buffer i (pb\<lparr>pb_hash_table := ht\<rparr>)), st, w)"
    using g r by (simp add: la_get_page_buffer_def)
  moreover have "pb_inv (pb\<lparr>pb_hash_table := ht\<rparr>)" using G(1) by (simp add: pb_inv_def)
  moreover have "pb_holds (pb\<lparr>pb_hash_table := ht\<rparr>) i pageid" using G4 G(3) assms(2) by (simp add: pb_holds_def)
  ultimately show ?thesis using pb_tabled_get [OF g] by blast
qed

lemma la_get_page_buffer_result:
  assumes "pb_inv pb" and "pageid \<noteq> 0"
    and "la_get_page_buffer io cfg pageid pb st w = Some ((r, pb'), st', w')"
  shows "pb_inv pb' \<and> pb_fixed_kept r pb pb' \<and>
    (\<forall>i. r = Some i \<longrightarrow> pb_holds pb' i pageid \<and>
       cb_fix_count (pb_log_buffer pb' ! i) =
         (if i < length (pb_log_buffer pb) then cb_fix_count (pb_log_buffer pb ! i) else 0) + 1)"
proof (cases "pb_lookup (pb_log_buffer pb) (pb_hash_table pb) (Kval pageid)")
  case (Some i)
  obtain ht where "la_get_page_buffer io cfg pageid pb st w = Some ((Some i, fix_buffer i (pb\<lparr>pb_hash_table := ht\<rparr>)), st, w)"
    and inv: "pb_inv (pb\<lparr>pb_hash_table := ht\<rparr>)" and h: "pb_holds (pb\<lparr>pb_hash_table := ht\<rparr>) i pageid"
    using la_get_page_buffer_hit [OF assms(1) Some, of io cfg st w] by blast
  then have e: "r = Some i" "pb' = fix_buffer i (pb\<lparr>pb_hash_table := ht\<rparr>)" using assms(3) by auto
  have i: "i < length (pb_log_buffer (pb\<lparr>pb_hash_table := ht\<rparr>))" using h by (simp add: pb_holds_def)
  note F = fix_buffer_ok [OF inv i]
  show ?thesis using F(1,2,5) fix_buffer_holds [OF inv h] i unfolding e by (simp add: pb_fixed_kept_def)
next
  case None
  obtain r0 ht where g: "pb_get (pb_log_buffer pb) (pb_hash_table pb) (Kval pageid) = (r0, ht)" by force
  let ?pb0 = "pb\<lparr>pb_hash_table := ht\<rparr>"
  note G = pb_get_ok [OF assms(1) [unfolded pb_inv_def] g]
  have r0: "r0 = None" using G(2) None by simp
  have inv0: "pb_inv ?pb0" using G(1) by (simp add: pb_inv_def)
  obtain r1 pb1 st1 w1 where rep: "la_cache_buffer_replace io cfg pageid ?pb0 st w = Some ((r1, pb1), st1, w1)"
    using assms(3) g r0 by (auto simp: la_get_page_buffer_def split: option.splits)
  note R = la_cache_buffer_replace_result [OF inv0 rep]
  have kept: "pb_fixed_kept e pb pb1" for e
    using R pb_fixed_kept_weaken by (auto simp: pb_fixed_kept_def)
  show ?thesis
  proof (cases r1)
    case None
    with assms(3) g r0 rep R kept show ?thesis by (auto simp: la_get_page_buffer_def)
  next
    case (Some i)
    let ?bufs = "pb_log_buffer pb1"
    have i: "i < length ?bufs" "cb_pageid (?bufs ! i) = pageid"
      "lp_logical_pageid (cb_logpage (?bufs ! i)) = pageid" "cb_fix_count (?bufs ! i) = 0"
      "i < length (pb_log_buffer pb) \<longrightarrow> cb_fix_count (pb_log_buffer pb ! i) = 0"
      using R Some by auto
    obtain ok w1' ok' w2 where m: "io_malloc io w1 = (ok, w1')" "io_malloc io w1' = (ok', w2)" by force
    obtain b ht2 where p: "pb_put ?bufs (ok, ok') (pb_rem ?bufs (pb_hash_table pb1) (Kbuf i)) (Kbuf i) i = (b, ht2)" by force
    let ?pb2 = "pb1\<lparr>pb_hash_table := ht2\<rparr>"
    have rem: "pb_table_ok ?bufs (pb_rem ?bufs (pb_hash_table pb1) (Kbuf i))"
      using R i(1) pb_rem_ok(1) by (simp add: pb_inv_def)
    have ne: "cb_pageid (?bufs ! i) \<noteq> 0" and eq: "lp_logical_pageid (cb_logpage (?bufs ! i)) = cb_pageid (?bufs ! i)"
      using i assms(2) by simp_all
    note P = pb_put_ok [OF rem i(1) ne eq p]
    have inv2: "pb_inv ?pb2" using P(1) by (simp add: pb_inv_def)
    have hold: "pb_holds ?pb2 i pageid" if b using P(2) [OF that] i by (simp add: pb_holds_def)
    have res: "r = (if b then Some i else None)" "pb' = (if b then fix_buffer i ?pb2 else ?pb2)"
      using assms(3) g r0 rep Some i(3) m p by (auto simp: la_get_page_buffer_def Let_def split: if_splits)
    show ?thesis
    proof (cases b)
      case True
      note F = fix_buffer_ok [OF inv2, of i]
      have "pb_fixed_kept (Some i) ?pb2 (fix_buffer i ?pb2)" using F(2) i(1) by simp
      moreover have "pb_fixed_kept (Some i) pb ?pb2" using kept [of "Some i"] by (simp add: pb_fixed_kept_def)
      ultimately have "pb_fixed_kept (Some i) pb (fix_buffer i ?pb2)" by (rule pb_fixed_kept_trans [rotated])
      then show ?thesis
        using True res F(1,5) i fix_buffer_holds [OF inv2 hold [OF True]] by simp
    next
      case False
      then show ?thesis using res inv2 kept [of None] by (simp add: pb_fixed_kept_def)
    qed
  qed
qed

text \<open>The retry loop of \<^verbatim>\<open>la_get_page\<close> ends with the page, whatever its rounds do.\<close>

lemma la_get_page_loop_result:
  assumes "pb_inv pb" and "pageid \<noteq> 0"
    and "la_get_page_loop io cfg pageid pb st w = Some ((i, pb'), st', w')"
  shows "pb_inv pb' \<and> pb_holds pb' i pageid \<and> pb_fixed_kept (Some i) pb pb'"
proof -
  have "pageid \<noteq> 0 \<longrightarrow> pb_inv pb \<longrightarrow> (\<forall>i pb' x. r = ((i, pb'), x) \<longrightarrow>
      pb_inv pb' \<and> pb_holds pb' i pageid \<and> pb_fixed_kept (Some i) pb pb')"
    if "la_get_page_loop io cfg pageid pb st w = Some r" for r
  proof (rule la_get_page_loop.raw_induct [OF _ that], goal_cases)
    case (1 f io cfg pageid pb st w r)
    show ?case
    proof (intro impI)
      assume p: "pageid \<noteq> 0" and inv: "pb_inv pb"
      obtain r1 pb1 st1 w1 where g: "la_get_page_buffer io cfg pageid pb st w = Some ((r1, pb1), st1, w1)"
        using 1(2) by (auto split: option.splits)
      note G = la_get_page_buffer_result [OF inv p g]
      show "\<forall>i pb' x. r = ((i, pb'), x) \<longrightarrow> pb_inv pb' \<and> pb_holds pb' i pageid \<and> pb_fixed_kept (Some i) pb pb'"
      proof (cases r1)
        case None
        with 1(2) g have "f io cfg pageid pb1 st1 w1 = Some r" by simp
        from 1(1) [OF this] p G have "\<forall>i pb' x. r = ((i, pb'), x) \<longrightarrow> pb_inv pb' \<and> pb_holds pb' i pageid \<and> pb_fixed_kept (Some i) pb1 pb'"
          by blast
        moreover have "pb_fixed_kept (Some i) pb pb1" for i using G None pb_fixed_kept_weaken by blast
        ultimately show ?thesis using pb_fixed_kept_trans by blast
      next
        case (Some i)
        with 1(2) g G show ?thesis by auto
      qed
    qed
  qed
  with assms show ?thesis by blast
qed

subsection \<open>Serving pages\<close>

text \<open>
  With volumes that serve the pages of \<open>P\<close> with contents \<open>page\<close> (in
  the states of the volumes that satisfy \<open>Q\<close>) and memory to be had, the
  cache returns exactly those contents, and it returns.
\<close>

definition io_serves :: "'w la_io \<Rightarrow> (log_pageid \<Rightarrow> log_page) \<Rightarrow> (log_pageid \<Rightarrow> bool) \<Rightarrow> (la_vols \<Rightarrow> bool) \<Rightarrow> bool" where
  "io_serves io page P Q \<longleftrightarrow> (\<forall>w. fst (io_malloc io w)) \<and>
     (\<forall>p buf st w. P p \<and> Q st \<longrightarrow> p \<noteq> 0 \<and> p \<noteq> NULL_PAGEID \<and>
        (\<exists>buf' st' w'. la_log_fetch io p buf st w = Some ((NO_ERROR, buf'), st', w') \<and> cb_logpage buf' = page p \<and> Q st'))"

definition pb_content :: "(log_pageid \<Rightarrow> log_page) \<Rightarrow> la_cache_pb \<Rightarrow> bool" where
  "pb_content page pb \<longleftrightarrow> (\<forall>i. pb_tabled (pb_hash_table pb) i \<longrightarrow>
     cb_logpage (pb_log_buffer pb ! i) = page (cb_pageid (pb_log_buffer pb ! i)))"

lemma pb_tabled_len: "pb_inv pb \<Longrightarrow> pb_tabled (pb_hash_table pb) i \<Longrightarrow> i < length (pb_log_buffer pb)"
  by (auto simp: pb_inv_def pb_table_ok_def pb_tabled_def pb_binding_ok_def)

lemma pb_tabled_rem:
  assumes "pb_table_ok bufs ht" and "pb_tabled (pb_rem bufs ht k) i"
  shows "pb_tabled ht i"
proof -
  obtain err ht' where r: "mht_rem (lp_hash (key_pageid bufs)) (lp_cmp (key_pageid bufs)) ht k None = (err, ht')" by force
  have "pb_valid bufs ht" using assms(1) by (simp add: pb_table_ok_def)
  from mht_pairs_rem [OF lp_keys_ok this r] assms(2) r show ?thesis by (simp add: pb_tabled_def)
qed

lemma pb_lookup_tabled:
  assumes "pb_table_ok bufs ht" and "pb_lookup bufs ht k = Some i"
  shows "pb_tabled ht i"
proof -
  have v: "pb_valid bufs ht" using assms(1) by (simp add: pb_table_ok_def)
  obtain e k' where "e \<in> set (mht_act ht)" "mht_ent ht e = Some (k', i)"
    using mht_lookup_iff [OF lp.eqk_equiv mht_inv_distinct [OF v]] assms(2) by blast
  then have m: "(k', i) \<in> mht_pairs ht" by (auto simp: mht_pairs_def)
  then have "pb_binding_ok bufs (k', i)" using assms(1) by (auto simp: pb_table_ok_def)
  with m show ?thesis by (simp add: pb_binding_ok_def pb_tabled_def)
qed

lemma la_cache_victim_serves:
  assumes "\<forall>w. fst (io_malloc io w)" and "0 < cfg_buffer_size cfg"
  shows "\<exists>i pb' w'. la_cache_victim io cfg pb w = Some ((Some i, pb'), w')"
proof -
  obtain r where r: "la_cache_victim io cfg pb w = Some r"
    using la_cache_victim_returns [OF assms(2), of io pb w] by blast
  have "(\<forall>w. fst (io_malloc io w)) \<longrightarrow> (\<exists>i pb' w'. r = ((Some i, pb'), w'))"
  proof (rule la_cache_victim.raw_induct [OF _ r], goal_cases)
    case (1 f io cfg pb w r)
    show ?case
    proof
      assume m: "\<forall>w. fst (io_malloc io w)"
      have "fst (fst (la_expand_cache_log_buffer io cfg pb w)) = NO_ERROR" for pb w
        using m by (auto simp: la_expand_cache_log_buffer_def split: prod.splits) (metis fst_conv)+
      then show "\<exists>i pb' w'. r = ((Some i, pb'), w')"
        using 1(2) 1(1) m by (auto split: prod.splits option.splits if_splits) (metis fst_conv)+
    qed
  qed
  with assms(1) r show ?thesis by blast
qed

lemma pb_content_keeps:
  assumes "pb_inv pb" and "pb_content page pb" and "pb_keeps (pb_log_buffer pb) bufs"
  shows "pb_content page (pb\<lparr>pb_log_buffer := bufs, pb_last := l\<rparr>)"
  using assms pb_tabled_len [OF assms(1)] by (simp add: pb_content_def pb_keeps_nth)

lemma la_cache_load_serves:
  assumes "io_serves io page P Q" and "P p" and "Q st" and "pb_inv pb" and "pb_content page pb"
    and "i < length (pb_log_buffer pb)"
  shows "\<exists>pb' st' w'. la_cache_load io p i pb st w = Some ((Some i, pb'), st', w') \<and> pb_content page pb' \<and> Q st' \<and>
    cb_logpage (pb_log_buffer pb' ! i) = page p"
proof -
  let ?bufs = "pb_log_buffer pb" and ?b = "(pb_log_buffer pb ! i)\<lparr>cb_fix_count := 0\<rparr>"
  define ht where "ht = (if cb_pageid (?bufs ! i) \<noteq> 0 then pb_rem ?bufs (pb_hash_table pb) (Kbuf i) else pb_hash_table pb)"
  have ok: "pb_table_ok ?bufs (pb_hash_table pb)" using assms(4) by (simp add: pb_inv_def)
  have dr: "\<not> pb_tabled ht i" using pb_drop_ok(2) [OF ok assms(6)] by (simp add: ht_def)
  have sub: "pb_tabled ht j \<Longrightarrow> pb_tabled (pb_hash_table pb) j" for j
    using pb_tabled_rem [OF ok] by (auto simp: ht_def split: if_splits)
  obtain b' st' w' where f: "la_log_fetch io p ?b st w = Some ((NO_ERROR, b'), st', w')" "cb_logpage b' = page p" "Q st'"
    using assms(1-3) unfolding io_serves_def by blast
  have "la_cache_load io p i pb st w = Some ((Some i, pb\<lparr>pb_log_buffer := ?bufs[i := b'], pb_hash_table := ht\<rparr>), st', w')"
    using f by (simp add: la_cache_load_def Let_def ht_def)
  moreover have "pb_content page (pb\<lparr>pb_log_buffer := ?bufs[i := b'], pb_hash_table := ht\<rparr>)"
    unfolding pb_content_def
  proof (intro allI impI)
    fix j assume "pb_tabled (pb_hash_table (pb\<lparr>pb_log_buffer := ?bufs[i := b'], pb_hash_table := ht\<rparr>)) j"
    then have "pb_tabled ht j" by simp
    with dr sub assms(5) show "cb_logpage (pb_log_buffer (pb\<lparr>pb_log_buffer := ?bufs[i := b'], pb_hash_table := ht\<rparr>) ! j) =
        page (cb_pageid (pb_log_buffer (pb\<lparr>pb_log_buffer := ?bufs[i := b'], pb_hash_table := ht\<rparr>) ! j))"
      by (cases "j = i") (auto simp: pb_content_def)
  qed
  ultimately show ?thesis using f assms(6) by simp
qed

lemma fix_buffer_content: "pb_content page pb \<Longrightarrow> pb_content page (fix_buffer i pb)"
  unfolding pb_content_def fix_buffer_def
  by (cases "i < length (pb_log_buffer pb)") (auto simp: nth_list_update_cases list_update_beyond)

lemma la_get_page_buffer_serves:
  assumes io: "io_serves io page P Q" "0 < cfg_buffer_size cfg" and "P p" and "Q st" and inv: "pb_inv pb" and "pb_content page pb"
  shows "\<exists>i pb' st' w'. la_get_page_buffer io cfg p pb st w = Some ((Some i, pb'), st', w') \<and> pb_content page pb' \<and> Q st' \<and>
    cb_logpage (pb_log_buffer pb' ! i) = page p"
proof (cases "pb_lookup (pb_log_buffer pb) (pb_hash_table pb) (Kval p)")
  case (Some i)
  obtain ht where h: "la_get_page_buffer io cfg p pb st w = Some ((Some i, fix_buffer i (pb\<lparr>pb_hash_table := ht\<rparr>)), st, w)"
    and i: "pb_inv (pb\<lparr>pb_hash_table := ht\<rparr>)" "pb_holds (pb\<lparr>pb_hash_table := ht\<rparr>) i p"
    and t: "\<forall>j. pb_tabled ht j = pb_tabled (pb_hash_table pb) j"
    using la_get_page_buffer_hit [OF inv Some, of io cfg st w] by blast
  have c: "pb_content page (pb\<lparr>pb_hash_table := ht\<rparr>)" using assms(6) t by (simp add: pb_content_def)
  have "pb_tabled ht i" using pb_lookup_tabled [OF inv [unfolded pb_inv_def] Some] t by simp
  then have "cb_logpage (pb_log_buffer pb ! i) = page p" using c i(2) by (simp add: pb_content_def pb_holds_def)
  moreover have "i < length (pb_log_buffer pb)" using i(2) by (simp add: pb_holds_def)
  ultimately show ?thesis using h fix_buffer_content [OF c] fix_buffer_ok(4) [OF i(1)] assms(4) by simp
next
  case None
  obtain r0 ht where g: "pb_get (pb_log_buffer pb) (pb_hash_table pb) (Kval p) = (r0, ht)" by force
  let ?pb0 = "pb\<lparr>pb_hash_table := ht\<rparr>"
  note G = pb_get_ok [OF inv [unfolded pb_inv_def] g]
  have r0: "r0 = None" using G(2) None by simp
  have inv0: "pb_inv ?pb0" using G(1) by (simp add: pb_inv_def)
  have c0: "pb_content page ?pb0" using assms(6) pb_tabled_get [OF g] by (simp add: pb_content_def)
  have mal: "\<forall>w. fst (io_malloc io w)" and p0: "p \<noteq> 0" using io(1) assms(3,4) by (auto simp: io_serves_def)
  obtain i pb1 w1 where v: "la_cache_victim io cfg ?pb0 w = Some ((Some i, pb1), w1)"
    using la_cache_victim_serves [OF mal io(2), of ?pb0 w] by blast
  note V = la_cache_victim_result [OF v]
  have inv1: "pb_inv pb1" using V inv0 pb_keeps_table_ok by (auto simp: pb_inv_def)
  have c1: "pb_content page pb1"
    using pb_content_keeps [OF inv0 c0, of "pb_log_buffer pb1"] V by (simp add: pb_content_def)
  have i1: "i < length (pb_log_buffer pb1)" "pb_free (pb_log_buffer pb1 ! i)" using V by auto
  obtain pb2 st' w2 where l: "la_cache_load io p i pb1 st w1 = Some ((Some i, pb2), st', w2)"
    and c2: "pb_content page pb2" and q: "Q st'" and pg: "cb_logpage (pb_log_buffer pb2 ! i) = page p"
    using la_cache_load_serves [OF io(1) assms(3,4) inv1 c1 i1(1), of w1] by blast
  note L = la_cache_load_result [OF inv1 i1 l]
  let ?bufs = "pb_log_buffer pb2"
  obtain ok w2' ok' w3 where m: "io_malloc io w2 = (ok, w2')" "io_malloc io w2' = (ok', w3)" by force
  obtain b ht3 where pt: "pb_put ?bufs (ok, ok') (pb_rem ?bufs (pb_hash_table pb2) (Kbuf i)) (Kbuf i) i = (b, ht3)" by force
  have ok2: "pb_table_ok ?bufs (pb_hash_table pb2)" using L by (simp add: pb_inv_def)
  have rem: "pb_table_ok ?bufs (pb_rem ?bufs (pb_hash_table pb2) (Kbuf i))"
    using pb_rem_ok(1) [OF ok2] L i1(1) by simp
  have "ok" "ok'" using mal m by (metis fst_conv)+
  moreover have "pb_valid ?bufs (pb_rem ?bufs (pb_hash_table pb2) (Kbuf i))" using rem by (simp add: pb_table_ok_def)
  ultimately have b using mht_put_internal_correct [OF lp_keys_ok _ pt [unfolded mht_put_def]] by simp
  let ?pb3 = "pb2\<lparr>pb_hash_table := ht3\<rparr>"
  have "pb_tabled ht3 j \<Longrightarrow> j = i \<or> pb_tabled (pb_hash_table pb2) j" for j
    using mht_pairs_put [OF pt] pb_tabled_rem [OF ok2] by (auto simp: pb_tabled_def)
  then have c3: "pb_content page ?pb3" using c2 pg L by (auto simp: pb_content_def)
  have inv3: "pb_inv ?pb3" using pb_put_ok(1) [OF rem _ _ _ pt] L i1(1) p0 by (simp add: pb_inv_def)
  have "la_get_page_buffer io cfg p pb st w = Some ((Some i, fix_buffer i ?pb3), st', w3)"
    using g r0 v l L m pt \<open>b\<close> by (simp add: la_get_page_buffer_def la_cache_buffer_replace_def Let_def)
  with fix_buffer_content [OF c3] q fix_buffer_ok(4) [OF inv3, of i] L i1(1) pg show ?thesis by simp
qed

lemma la_get_page_serves:
  assumes "io_serves io page P Q" and "0 < cfg_buffer_size cfg" and "P p" and "Q st" and "pb_inv pb" and "pb_content page pb"
  shows "\<exists>pb' st' w'. la_get_page io cfg p pb st w = Some ((Some (page p), pb'), st', w') \<and>
    pb_inv pb' \<and> pb_content page pb' \<and> Q st'"
proof -
  obtain i pb' st' w' where b: "la_get_page_buffer io cfg p pb st w = Some ((Some i, pb'), st', w')"
    and c: "pb_content page pb'" "Q st'" "cb_logpage (pb_log_buffer pb' ! i) = page p"
    using la_get_page_buffer_serves [OF assms, of w] by blast
  have ne: "p \<noteq> 0" "p \<noteq> NULL_PAGEID" using assms(1,3,4) by (auto simp: io_serves_def)
  have "la_get_page_loop io cfg p pb st w = Some ((i, pb'), st', w')"
    using b by (subst la_get_page_loop.simps) simp
  moreover have "pb_inv pb'" using la_get_page_buffer_result [OF assms(5) ne(1) b] by simp
  ultimately show ?thesis using c ne by (simp add: la_get_page_def)
qed

subsection \<open>Releasing and dropping pages\<close>

lemma la_release_page_buffer_result:
  assumes "pb_inv pb"
  shows "pb_inv (la_release_page_buffer pageid pb)"
    and "pb_lookup (pb_log_buffer pb) (pb_hash_table pb) (Kval pageid) = Some i \<Longrightarrow>
      pb_log_buffer (la_release_page_buffer pageid pb) = (pb_log_buffer pb)[i := (pb_log_buffer pb ! i)
        \<lparr>cb_fix_count := max 0 (cb_fix_count (pb_log_buffer pb ! i) - 1), cb_recently_free := True\<rparr>]"
    and "pb_lookup (pb_log_buffer pb) (pb_hash_table pb) (Kval pageid) = None \<Longrightarrow>
      pb_log_buffer (la_release_page_buffer pageid pb) = pb_log_buffer pb"
proof -
  obtain r ht where g: "pb_get (pb_log_buffer pb) (pb_hash_table pb) (Kval pageid) = (r, ht)" by force
  note G = pb_get_ok [OF assms [unfolded pb_inv_def] g]
  show "pb_inv (la_release_page_buffer pageid pb)"
    using G(1) g by (auto simp: la_release_page_buffer_def pb_inv_def Let_def split: option.splits
        intro!: pb_table_ok_upd_same)
  show "pb_lookup (pb_log_buffer pb) (pb_hash_table pb) (Kval pageid) = Some i \<Longrightarrow>
      pb_log_buffer (la_release_page_buffer pageid pb) = (pb_log_buffer pb)[i := (pb_log_buffer pb ! i)
        \<lparr>cb_fix_count := max 0 (cb_fix_count (pb_log_buffer pb ! i) - 1), cb_recently_free := True\<rparr>]"
  proof -
    have m: "(if x \<le> 0 then 0 else x) = max 0 x" for x :: int by simp
    assume "pb_lookup (pb_log_buffer pb) (pb_hash_table pb) (Kval pageid) = Some i"
    then show ?thesis using G(2) g by (simp add: la_release_page_buffer_def Let_def m del: diff_le_0_iff_le)
  qed
  show "pb_lookup (pb_log_buffer pb) (pb_hash_table pb) (Kval pageid) = None \<Longrightarrow>
      pb_log_buffer (la_release_page_buffer pageid pb) = pb_log_buffer pb"
    using G(2) g by (simp add: la_release_page_buffer_def)
qed

lemma la_release_all_page_buffers_inv:
  assumes "pb_inv pb"
  shows "pb_inv (la_release_all_page_buffers except_pageid pb)"
proof -
  have "pb_table_ok (map (release_buffer except_pageid) (pb_log_buffer pb)) (pb_hash_table pb)"
    using assms unfolding pb_inv_def
    by (rule pb_table_ok_cong) (simp_all add: release_buffer_def)
  then show ?thesis by (simp add: la_release_all_page_buffers_def pb_inv_def)
qed

lemma pb_drop_inv:
  assumes "pb_inv pb" and "i < length (pb_log_buffer pb)"
  shows "pb_inv (la_invalidate_page_buffer (Some i) pb)"
    and "\<not> pb_tabled (pb_hash_table (la_invalidate_page_buffer (Some i) pb)) i"
  using pb_drop_ok [OF assms(1) [unfolded pb_inv_def] assms(2)]
  by (auto simp: la_invalidate_page_buffer_def pb_inv_def Let_def intro: pb_table_ok_upd_free)

lemma la_decache_buffer_eq:
  "la_decache_buffer from to i pb =
     (let p = cb_pageid (pb_log_buffer pb ! i) in
      if p \<noteq> NULL_PAGEID \<and> p \<noteq> 0 \<and> from \<le> p \<and> p \<le> to then la_invalidate_page_buffer (Some i) pb else pb)"
  by (auto simp: la_decache_buffer_def la_invalidate_page_buffer_def Let_def)

lemma la_invalidate_length [simp]:
  "length (pb_log_buffer (la_invalidate_page_buffer x pb)) = length (pb_log_buffer pb)"
  by (simp add: la_invalidate_page_buffer_def Let_def split: option.splits)

lemma la_decache_buffer_step:
  assumes "pb_inv pb" and "i < length (pb_log_buffer pb)"
  shows "pb_inv (la_decache_buffer from to i pb)"
    and "length (pb_log_buffer (la_decache_buffer from to i pb)) = length (pb_log_buffer pb)"
    and "pb_log_buffer (la_decache_buffer from to i pb) ! j =
      (let b = pb_log_buffer pb ! j; p = cb_pageid b in
       if j = i \<and> p \<noteq> NULL_PAGEID \<and> p \<noteq> 0 \<and> from \<le> p \<and> p \<le> to
       then b\<lparr>cb_fix_count := 0, cb_recently_free := False, cb_pageid := 0\<rparr> else b)"
  using assms pb_drop_inv(1) [OF assms]
  by (auto simp: la_decache_buffer_eq Let_def la_invalidate_page_buffer_def nth_list_update_cases)

lemma la_decache_page_buffers_upto:
  fixes lo hi :: log_pageid
  assumes "pb_inv pb" and "n \<le> length (pb_log_buffer pb)"
  defines "pb' \<equiv> fold (la_decache_buffer lo hi) [0..<n] pb"
  shows "pb_inv pb' \<and> length (pb_log_buffer pb') = length (pb_log_buffer pb) \<and>
    (\<forall>j < length (pb_log_buffer pb). pb_log_buffer pb' ! j =
      (let b = pb_log_buffer pb ! j; p = cb_pageid b in
       if j < n \<and> p \<noteq> NULL_PAGEID \<and> p \<noteq> 0 \<and> lo \<le> p \<and> p \<le> hi
       then b\<lparr>cb_fix_count := 0, cb_recently_free := False, cb_pageid := 0\<rparr> else b))"
  using assms(2) unfolding pb'_def
proof (induction n)
  case 0
  with assms(1) show ?case by simp
next
  case (Suc n)
  let ?q = "fold (la_decache_buffer lo hi) [0..<n] pb"
  have IH: "pb_inv ?q" "length (pb_log_buffer ?q) = length (pb_log_buffer pb)"
    and nth: "\<And>j. j < length (pb_log_buffer pb) \<Longrightarrow> pb_log_buffer ?q ! j =
      (let b = pb_log_buffer pb ! j; p = cb_pageid b in
       if j < n \<and> p \<noteq> NULL_PAGEID \<and> p \<noteq> 0 \<and> lo \<le> p \<and> p \<le> hi
       then b\<lparr>cb_fix_count := 0, cb_recently_free := False, cb_pageid := 0\<rparr> else b)"
    using Suc by auto
  have n: "n < length (pb_log_buffer ?q)" using Suc.prems IH(2) by simp
  note step = la_decache_buffer_step [OF IH(1) n]
  have "pb_log_buffer (la_decache_buffer lo hi n ?q) ! j =
      (let b = pb_log_buffer pb ! j; p = cb_pageid b in
       if j < Suc n \<and> p \<noteq> NULL_PAGEID \<and> p \<noteq> 0 \<and> lo \<le> p \<and> p \<le> hi
       then b\<lparr>cb_fix_count := 0, cb_recently_free := False, cb_pageid := 0\<rparr> else b)"
    if "j < length (pb_log_buffer pb)" for j
    unfolding step(3) nth [OF that] by (auto simp: Let_def less_Suc_eq)
  with step(1,2) IH(2) show ?case by simp
qed

lemma la_init_cache_log_buffer_inv:
  assumes "la_init_cache_log_buffer io cfg pb w = ((NO_ERROR, pb'), w')"
    and "pb_log_buffer pb = []"
    and "cfg_buffer_size cfg < 2 ^ 28"
  shows "pb_inv pb' \<and> pb_log_buffer pb' = replicate (cfg_buffer_size cfg) (zero_buffer (cfg_logpagesize cfg))"
proof -
  obtain pb1 w1 ok w2 ht where x: "la_expand_cache_log_buffer io cfg pb w = ((NO_ERROR, pb1), w1)"
    and ht: "mht_create ok (int (length (pb_log_buffer pb1)) * 8) = Some ht"
    and pb': "pb' = pb1\<lparr>pb_hash_table := ht\<rparr>"
    using assms(1) by (auto simp: la_init_cache_log_buffer_def split: prod.splits if_splits option.splits)
  have b: "pb_log_buffer pb1 = replicate (cfg_buffer_size cfg) (zero_buffer (cfg_logpagesize cfg))"
    using la_expand_cache_log_buffer_result [OF x] assms(2) by simp
  have ok using ht by (auto simp: mht_create_def Let_def split: if_splits)
  moreover have "int (length (pb_log_buffer pb1)) * 8 < 2 ^ 31" using assms(3) b by simp
  ultimately have "pb_valid (pb_log_buffer pb1) ht" using ht by (auto intro: mht_create_inv)
  moreover have "mht_pairs ht = {}"
    using ht by (auto simp: mht_create_def Let_def mht_pairs_def split: if_splits)
  ultimately show ?thesis using pb' b by (simp add: pb_inv_def pb_table_ok_def)
qed

text \<open>
  The cache as the applier uses it: created empty, then any sequence of its
  operations in which page 0 is not asked for. The code does allow a get of page
  0, and it breaks the cache: 0 is also what an unused buffer has as its page.
\<close>

inductive pb_reach :: "'w la_io \<Rightarrow> la_cache_cfg \<Rightarrow> la_cache_pb \<Rightarrow> bool" for io cfg where
  reach_init: "la_init_cache_log_buffer io cfg pb w = ((NO_ERROR, pb'), w') \<Longrightarrow> pb_log_buffer pb = [] \<Longrightarrow>
    pb_reach io cfg pb'"
| reach_get: "pb_reach io cfg pb \<Longrightarrow> pageid \<noteq> 0 \<Longrightarrow>
    la_get_page_buffer io cfg pageid pb st w = Some ((r, pb'), st', w') \<Longrightarrow> pb_reach io cfg pb'"
| reach_release: "pb_reach io cfg pb \<Longrightarrow> pb_reach io cfg (la_release_page_buffer pageid pb)"
| reach_release_all: "pb_reach io cfg pb \<Longrightarrow> pb_reach io cfg (la_release_all_page_buffers except_pageid pb)"
| reach_invalidate: "pb_reach io cfg pb \<Longrightarrow> i < length (pb_log_buffer pb) \<Longrightarrow>
    pb_reach io cfg (la_invalidate_page_buffer (Some i) pb)"
| reach_decache: "pb_reach io cfg pb \<Longrightarrow> pb_reach io cfg (la_decache_page_buffers lo hi pb)"

lemma pb_reach_inv: "pb_reach io cfg pb \<Longrightarrow> cfg_buffer_size cfg < 2 ^ 28 \<Longrightarrow> pb_inv pb"
proof (induction rule: pb_reach.induct)
  case (reach_init pb w pb' w')
  then show ?case using la_init_cache_log_buffer_inv [OF reach_init(1,2)] by simp
next
  case (reach_get pb pageid st w r pb' st' w')
  from la_get_page_buffer_result [OF reach_get.IH [OF reach_get.prems] reach_get.hyps(2,3)]
  show ?case by simp
next
  case (reach_release pb pageid)
  then show ?case using la_release_page_buffer_result(1) by blast
next
  case (reach_release_all pb except_pageid)
  then show ?case using la_release_all_page_buffers_inv by blast
next
  case (reach_invalidate pb i)
  then show ?case using pb_drop_inv(1) by blast
next
  case (reach_decache pb lo hi)
  then show ?case using la_decache_page_buffers_upto [of pb "length (pb_log_buffer pb)" lo hi]
    by (simp add: la_decache_page_buffers_def)
qed

section \<open>Properties\<close>

text \<open>A small cache over the example log, for the witnesses.\<close>

definition ex_cfg :: la_cache_cfg where
  "ex_cfg = \<lparr>cfg_logpagesize = 56, cfg_buffer_size = 3\<rparr>"

definition ex_pb :: la_cache_pb where
  "ex_pb = snd (fst (la_init_cache_log_buffer ex_io ex_cfg
     \<lparr>pb_log_buffer = [], pb_hash_table = the (mht_create True 1), pb_last = 0\<rparr> ()))"

lemma ex_pb_init:
  "la_init_cache_log_buffer ex_io ex_cfg
     \<lparr>pb_log_buffer = [], pb_hash_table = the (mht_create True 1), pb_last = 0\<rparr> () = ((NO_ERROR, ex_pb), ())"
  by (simp add: ex_pb_def la_init_cache_log_buffer_def la_expand_cache_log_buffer_def ex_io_def mht_create_def Let_def)

lemma ex_pb_reach: "pb_reach (ex_io :: unit la_io) ex_cfg ex_pb"
  by (rule reach_init [OF ex_pb_init]) simp

lemma ex_pb_inv: "pb_inv ex_pb"
  by (rule pb_reach_inv [OF ex_pb_reach]) (simp add: ex_cfg_def)

lemma ex_pb_empty: "mht_pairs (pb_hash_table ex_pb) = {}"
  by (simp add: ex_pb_def la_init_cache_log_buffer_def la_expand_cache_log_buffer_def ex_io_def mht_create_def Let_def mht_pairs_def)

lemma ex_pb_buffers: "length (pb_log_buffer ex_pb) = 3"
  using la_init_cache_log_buffer_inv [OF ex_pb_init] by (simp add: ex_cfg_def)

text \<open>
  C19. In every state the cache reaches through its operations without a get of
  page 0, a page that the table finds is in a buffer of that page, whose content
  says it is that page. (A log starts at page 0; the applier reads that page only
  when the records it needs begin there.)
\<close>

theorem page_cache_consistent:
  assumes "pb_reach io cfg pb" and "cfg_buffer_size cfg < 2 ^ 28"
    and "pb_lookup (pb_log_buffer pb) (pb_hash_table pb) (Kval pageid) = Some i"
  shows "i < length (pb_log_buffer pb) \<and> cb_pageid (pb_log_buffer pb ! i) = pageid \<and>
    lp_logical_pageid (cb_logpage (pb_log_buffer pb ! i)) = pageid"
proof -
  obtain r ht' where g: "pb_get (pb_log_buffer pb) (pb_hash_table pb) (Kval pageid) = (r, ht')" by force
  have "pb_table_ok (pb_log_buffer pb) (pb_hash_table pb)" using pb_reach_inv [OF assms(1,2)] by (simp add: pb_inv_def)
  from pb_get_ok(2,4) [OF this g] assms(3) show ?thesis by simp
qed

text \<open>
  C18. Getting a page always ends with that page: with a log that can be read,
  \<^verbatim>\<open>la_get_page\<close> returns the page of the log at the identifier, whether it was
  cached or not, and leaves a cache of which the same holds.
\<close>

theorem la_get_page_total:
  assumes "io_serves io page P Q" and "0 < cfg_buffer_size cfg" and "P p" and "Q st" and "pb_inv pb" and "pb_content page pb"
  shows "\<exists>pb' st' w'. la_get_page io cfg p pb st w = Some ((Some (page p), pb'), st', w') \<and> pb_inv pb' \<and> pb_content page pb' \<and> Q st'"
  by (rule la_get_page_serves [OF assms])

definition ex_active :: "log_pageid \<Rightarrow> bool" where
  "ex_active p \<longleftrightarrow> 30 \<le> p \<and> p \<le> 38"

lemma ex_io_serves: "io_serves ex_io ex_page ex_active (\<lambda>st. act_log_hdr st = ex_hdr)"
proof -
  have "\<exists>buf' st' w'. la_log_fetch ex_io p buf st w = Some ((NO_ERROR, buf'), st', w') \<and> cb_logpage buf' = ex_page p \<and>
      act_log_hdr st' = ex_hdr" if "30 \<le> p" "p \<le> 38" "act_log_hdr st = ex_hdr" for p buf st w
    using that
    by (simp add: la_log_fetch_def la_log_fetch_loop.simps la_log_fetch_read_def ex_io_def ex_hdr_def
        la_log_phypageid_def LA_LOG_IS_IN_ARCHIVE_def ex_page_def eval_nat_numeral Let_def)
  moreover have "fst (io_malloc ex_io w)" for w by (simp add: ex_io_def)
  ultimately show ?thesis unfolding io_serves_def ex_active_def by auto
qed

lemma ex_pb_content: "pb_content page ex_pb"
  by (simp add: pb_content_def pb_tabled_def ex_pb_empty)

lemma la_get_page_total_witness:
  "\<exists>pb' st' w'. la_get_page ex_io ex_cfg 33 ex_pb ex_vols () = Some ((Some (ex_page 33), pb'), st', w') \<and> pb_inv pb'"
  using la_get_page_total [OF ex_io_serves, of ex_cfg 33 ex_vols ex_pb "()"] ex_pb_inv ex_pb_content
  by (auto simp: ex_cfg_def ex_active_def ex_vols_def)

text \<open>
  C20. Getting a page never touches a page that is in use: a buffer with a fix
  count other than zero keeps its page and its count, except the one returned,
  whose count grows by one.
\<close>

theorem la_get_page_buffer_safe:
  assumes "pb_inv pb" and "pageid \<noteq> 0" and "la_get_page_buffer io cfg pageid pb st w = Some ((r, pb'), st', w')"
  shows "(\<forall>j < length (pb_log_buffer pb). cb_fix_count (pb_log_buffer pb ! j) \<noteq> 0 \<and> r \<noteq> Some j \<longrightarrow>
        pb_log_buffer pb' ! j = pb_log_buffer pb ! j) \<and>
    (\<forall>i. r = Some i \<longrightarrow> cb_pageid (pb_log_buffer pb' ! i) = pageid \<and>
        lp_logical_pageid (cb_logpage (pb_log_buffer pb' ! i)) = pageid \<and>
        cb_fix_count (pb_log_buffer pb' ! i) = (if i < length (pb_log_buffer pb) then cb_fix_count (pb_log_buffer pb ! i) else 0) + 1)"
  using la_get_page_buffer_result [OF assms] by (auto simp: pb_fixed_kept_def pb_holds_def)



text \<open>
  Dropping a range of pages empties exactly the buffers of that range: no
  page of the range is found afterwards, and every other buffer is as it was.
\<close>

theorem la_decache_page_buffers_range:
  assumes "pb_inv pb" and "pb' = la_decache_page_buffers lo hi pb"
  shows "(\<forall>p. lo \<le> p \<and> p \<le> hi \<and> p \<noteq> NULL_PAGEID \<longrightarrow> pb_lookup (pb_log_buffer pb') (pb_hash_table pb') (Kval p) = None) \<and>
    (\<forall>j < length (pb_log_buffer pb). cb_pageid (pb_log_buffer pb ! j) < lo \<or> hi < cb_pageid (pb_log_buffer pb ! j) \<longrightarrow>
       pb_log_buffer pb' ! j = pb_log_buffer pb ! j)"
proof -
  note D = la_decache_page_buffers_upto [OF assms(1) order_refl, of lo hi, folded la_decache_page_buffers_def assms(2)]
  have "pb_lookup (pb_log_buffer pb') (pb_hash_table pb') (Kval p) = None" if p: "lo \<le> p" "p \<le> hi" "p \<noteq> NULL_PAGEID" for p
  proof (rule ccontr)
    assume "pb_lookup (pb_log_buffer pb') (pb_hash_table pb') (Kval p) \<noteq> None"
    then obtain i where i: "pb_lookup (pb_log_buffer pb') (pb_hash_table pb') (Kval p) = Some i" by blast
    obtain r ht' where g: "pb_get (pb_log_buffer pb') (pb_hash_table pb') (Kval p) = (r, ht')" by force
    have ok: "pb_table_ok (pb_log_buffer pb') (pb_hash_table pb')" using D by (simp add: pb_inv_def)
    have "i < length (pb_log_buffer pb')" and c: "cb_pageid (pb_log_buffer pb' ! i) = p" and "cb_pageid (pb_log_buffer pb' ! i) \<noteq> 0"
      using pb_get_ok(2,4) [OF ok g] i pb_lookup_tabled [OF ok i] pb_untabled_zero [OF ok] by auto
    with D p show False by (auto simp: Let_def split: if_splits)
  qed
  with D show ?thesis by (auto simp: Let_def)
qed

lemma la_decache_page_buffers_range_witness:
  "pb_lookup (pb_log_buffer (la_decache_page_buffers 3 9 ex_pb)) (pb_hash_table (la_decache_page_buffers 3 9 ex_pb)) (Kval 7) = None"
  using la_decache_page_buffers_range [OF ex_pb_inv refl, of 3 9] by simp

text \<open>
  Releasing a cached page gives its buffer back: the fix count falls by one
  and never below zero, the buffer is marked as recently freed, and the page
  stays in the cache; releasing a page that is not cached changes no buffer.
\<close>

theorem la_release_page_buffer_effect:
  assumes "pb_inv pb"
  shows "pb_inv (la_release_page_buffer pageid pb) \<and>
    pb_log_buffer (la_release_page_buffer pageid pb) =
      (case pb_lookup (pb_log_buffer pb) (pb_hash_table pb) (Kval pageid) of
         None \<Rightarrow> pb_log_buffer pb
       | Some i \<Rightarrow> (pb_log_buffer pb)[i := (pb_log_buffer pb ! i)
           \<lparr>cb_fix_count := max 0 (cb_fix_count (pb_log_buffer pb ! i) - 1), cb_recently_free := True\<rparr>])"
  using la_release_page_buffer_result [OF assms, of pageid] by (auto split: option.splits)

lemma la_release_page_buffer_effect_witness: "pb_inv (la_release_page_buffer 7 ex_pb)"
  using la_release_page_buffer_effect [OF ex_pb_inv, of 7] by simp

text \<open>The cache after page 33 was read into it, for the witnesses of the properties of a page that is cached.\<close>

lemma ex_pb_loaded:
  "\<exists>i pb' st' w'. la_get_page_buffer ex_io ex_cfg 33 ex_pb ex_vols () = Some ((Some i, pb'), st', w')"
  using la_get_page_buffer_serves [OF ex_io_serves _ _ _ ex_pb_inv ex_pb_content, of ex_cfg 33 ex_vols "()"]
  by (fastforce simp: ex_cfg_def ex_active_def ex_vols_def)

lemma page_cache_consistent_witness:
  "\<exists>i pb'. pb_reach (ex_io :: unit la_io) ex_cfg pb' \<and> pb_lookup (pb_log_buffer pb') (pb_hash_table pb') (Kval 33) = Some i \<and>
    cb_pageid (pb_log_buffer pb' ! i) = 33"
proof -
  obtain i pb' st' w' where g: "la_get_page_buffer ex_io ex_cfg 33 ex_pb ex_vols () = Some ((Some i, pb'), st', w')"
    using ex_pb_loaded by blast
  have r: "pb_reach (ex_io :: unit la_io) ex_cfg pb'" by (rule reach_get [OF ex_pb_reach _ g]) simp
  have "pb_holds pb' i 33" using la_get_page_buffer_result [OF ex_pb_inv _ g] by simp
  then have "pb_lookup (pb_log_buffer pb') (pb_hash_table pb') (Kval 33) = Some i" by (simp add: pb_holds_def)
  with page_cache_consistent [OF r _ this] r show ?thesis by (auto simp: ex_cfg_def)
qed

lemma la_get_page_buffer_safe_witness:
  "\<exists>i pb' st' w'. la_get_page_buffer ex_io ex_cfg 33 ex_pb ex_vols () = Some ((Some i, pb'), st', w') \<and>
    cb_pageid (pb_log_buffer pb' ! i) = 33"
proof -
  obtain i pb' st' w' where g: "la_get_page_buffer ex_io ex_cfg 33 ex_pb ex_vols () = Some ((Some i, pb'), st', w')"
    using ex_pb_loaded by blast
  from la_get_page_buffer_safe [OF ex_pb_inv _ g] g show ?thesis by auto
qed

end
