(* ===== verification/La_Read.thy ===== *)
theory La_Read
  imports La_Cache
begin

text \<open>
  Reading log records through the page buffers
  (\<^verbatim>\<open>transaction/log_applier.c\<close>): the three reading macros, copying a
  run of bytes that spans pages, record headers and the fixed parts of the
  records the applier looks into.

  The functions read pages through a page source, the function that
  \<^verbatim>\<open>la_get_page\<close> is: given a page identifier and the state it returns
  the page, or no page (\<^verbatim>\<open>NULL\<close>), and the new state, or it does not
  return. The interface locale states what reading relies on, the cache is its
  instance.
\<close>

section \<open>Cursors and the reading macros\<close>

type_synonym 's page_src = "log_pageid \<Rightarrow> 's \<Rightarrow> (log_page option \<times> 's) option"

text \<open>The three variables \<^verbatim>\<open>pageid\<close>, \<^verbatim>\<open>offset\<close> and \<^verbatim>\<open>pg\<close> the macros work on.\<close>

record log_cursor =
  cu_pageid :: log_pageid
  cu_offset :: nat
  cu_page :: "log_page option"

text \<open>\<^verbatim>\<open>LA_LOGAREA_SIZE\<close>: what a page has beside its 16-byte header.\<close>

definition LA_LOGAREA_SIZE :: "nat \<Rightarrow> nat" where
  "LA_LOGAREA_SIZE db_logpagesize = db_logpagesize - 16"

definition LA_LOG_READ_ADVANCE_WHEN_DOESNT_FIT ::
    "'s page_src \<Rightarrow> nat \<Rightarrow> errcode \<Rightarrow> nat \<Rightarrow> log_cursor \<Rightarrow> 's \<Rightarrow> ((errcode \<times> log_cursor) \<times> 's) option" where
  "LA_LOG_READ_ADVANCE_WHEN_DOESNT_FIT get sz result len cu s =
     (if sz \<le> cu_offset cu + len then
        (case get (cu_pageid cu + 1) s of
           None \<Rightarrow> None
         | Some (pg, s') \<Rightarrow>
             Some ((if pg = None then ER_IO_READ else result,
                    \<lparr>cu_pageid = cu_pageid cu + 1, cu_offset = 0, cu_page = pg\<rparr>), s'))
      else Some ((result, cu), s))"

partial_function (option) la_log_read_align_loop ::
    "'s page_src \<Rightarrow> nat \<Rightarrow> errcode \<Rightarrow> log_cursor \<Rightarrow> 's \<Rightarrow> ((errcode \<times> log_cursor) \<times> 's) option" where
  "la_log_read_align_loop get sz result cu s =
     (if sz \<le> cu_offset cu then
        (case get (cu_pageid cu + 1) s of
           None \<Rightarrow> None
         | Some (pg, s') \<Rightarrow>
             la_log_read_align_loop get sz (if pg = None then ER_IO_READ else result)
               \<lparr>cu_pageid = cu_pageid cu + 1, cu_offset = DB_ALIGN (cu_offset cu - sz) MAX_ALIGNMENT, cu_page = pg\<rparr> s')
      else Some ((result, cu), s))"

definition LA_LOG_READ_ALIGN ::
    "'s page_src \<Rightarrow> nat \<Rightarrow> errcode \<Rightarrow> log_cursor \<Rightarrow> 's \<Rightarrow> ((errcode \<times> log_cursor) \<times> 's) option" where
  "LA_LOG_READ_ALIGN get sz result cu s =
     la_log_read_align_loop get sz result (cu\<lparr>cu_offset := DB_ALIGN (cu_offset cu) MAX_ALIGNMENT\<rparr>) s"

definition LA_LOG_READ_ADD_ALIGN ::
    "'s page_src \<Rightarrow> nat \<Rightarrow> errcode \<Rightarrow> nat \<Rightarrow> log_cursor \<Rightarrow> 's \<Rightarrow> ((errcode \<times> log_cursor) \<times> 's) option" where
  "LA_LOG_READ_ADD_ALIGN get sz result add cu s =
     LA_LOG_READ_ALIGN get sz result (cu\<lparr>cu_offset := cu_offset cu + add\<rparr>) s"

section \<open>Copying from the log\<close>

text \<open>
  One of the two loops of \<^verbatim>\<open>la_log_copy_fromlog\<close>: copy \<open>t_length\<close> bytes,
  page after page. \<open>step\<close> counts the rounds, which is what the first loop
  subtracts from \<^verbatim>\<open>length\<close> (two per round).
\<close>

partial_function (option) la_copy_loop ::
    "'s page_src \<Rightarrow> nat \<Rightarrow> nat \<Rightarrow> nat \<Rightarrow> byte list \<Rightarrow> log_cursor \<Rightarrow> 's
      \<Rightarrow> ((byte list \<times> nat \<times> log_cursor) \<times> 's) option" where
  "la_copy_loop get sz t_length rounds acc cu s =
     (if 0 < t_length then
        (case LA_LOG_READ_ADVANCE_WHEN_DOESNT_FIT get sz NO_ERROR 0 cu s of
           None \<Rightarrow> None
         | Some ((err, cu1), s1) \<Rightarrow>
             (case cu_page cu1 of
                None \<Rightarrow> Some ((acc, rounds, cu1), s1)
              | Some pg \<Rightarrow>
                  let copy_length = (if cu_offset cu1 + t_length \<le> sz then t_length else sz - cu_offset cu1)
                  in la_copy_loop get sz (t_length - copy_length) (rounds + 1)
                       (acc @ take copy_length (drop (cu_offset cu1) (lp_area pg)))
                       (cu1\<lparr>cu_offset := cu_offset cu1 + copy_length\<rparr>) s1))
      else Some ((acc, rounds, cu), s))"

text \<open>
  The whole copy: with \<open>want_type\<close> (a \<^verbatim>\<open>rec_type\<close> that is not
  \<^verbatim>\<open>NULL\<close>) two bytes of record type first. The results are the bytes
  of the type and those of the area.
\<close>

definition la_log_copy_fromlog ::
    "'s page_src \<Rightarrow> nat \<Rightarrow> bool \<Rightarrow> int \<Rightarrow> log_cursor \<Rightarrow> 's \<Rightarrow> ((byte list \<times> byte list) \<times> 's) option" where
  "la_log_copy_fromlog get sz want_type len cu s =
     (case (if want_type then la_copy_loop get sz 2 0 [] cu s else Some (([], 0, cu), s)) of
        None \<Rightarrow> None
      | Some ((ty, rounds, cu1), s1) \<Rightarrow>
          (case la_copy_loop get sz (nat (len - 2 * int rounds)) 0 [] cu1 s1 of
             None \<Rightarrow> None
           | Some ((area, _, _), s2) \<Rightarrow> Some ((ty, area), s2)))"

section \<open>Record headers\<close>

text \<open>
  \<^verbatim>\<open>struct log_lsa\<close> is one 64-bit word: 48 bits of page identifier and
  16 bits of offset, both signed. \<^verbatim>\<open>struct log_rec_header\<close> takes 32 bytes. The
  source casts a pointer into the page and copies whole structures;
  \<open>rd_log_record_header\<close> and \<open>wr_log_record_header\<close> are the layout of the structure
  that the cast and the copy go by.
\<close>

definition rd_lsa :: "nat \<Rightarrow> byte list \<Rightarrow> log_lsa" where
  "rd_lsa off bs = LSA (rd_int 6 off bs) (rd_int 2 (off + 6) bs)"

definition wr_lsa :: "log_lsa \<Rightarrow> byte list" where
  "wr_lsa l = wr_int 6 (lsa_pageid l) @ wr_int 2 (lsa_offset l)"

record log_record_header =
  lr_prev_tranlsa :: log_lsa
  lr_back_lsa :: log_lsa
  lr_forw_lsa :: log_lsa
  lr_trid :: tranid
  lr_type :: int

definition rd_log_record_header :: "nat \<Rightarrow> byte list \<Rightarrow> log_record_header" where
  "rd_log_record_header off bs =
     \<lparr>lr_prev_tranlsa = rd_lsa off bs, lr_back_lsa = rd_lsa (off + 8) bs, lr_forw_lsa = rd_lsa (off + 16) bs,
      lr_trid = rd_int 4 (off + 24) bs, lr_type = rd_int 4 (off + 28) bs\<rparr>"

definition wr_log_record_header :: "log_record_header \<Rightarrow> byte list" where
  "wr_log_record_header r =
     wr_lsa (lr_prev_tranlsa r) @ wr_lsa (lr_back_lsa r) @ wr_lsa (lr_forw_lsa r) @
     wr_int 4 (lr_trid r) @ wr_int 4 (lr_type r)"

definition LOG_GET_LOG_RECORD_HEADER :: "log_page \<Rightarrow> log_lsa \<Rightarrow> log_record_header" where
  "LOG_GET_LOG_RECORD_HEADER pg lsa = rd_log_record_header (nat (lsa_offset lsa)) (lp_area pg)"

abbreviation (input) SIZEOF_LOG_RECORD_HEADER :: nat where "SIZEOF_LOG_RECORD_HEADER \<equiv> 32"

text \<open>A cursor at the body of the record at \<open>lsa\<close>, in its page.\<close>

definition rec_body :: "log_page \<Rightarrow> log_lsa \<Rightarrow> log_cursor" where
  "rec_body pg lsa = \<lparr>cu_pageid = lsa_pageid lsa,
     cu_offset = SIZEOF_LOG_RECORD_HEADER + nat (lsa_offset lsa), cu_page = Some pg\<rparr>"

text \<open>
  Both macros in a row, as every reader of a fixed part of \<open>len\<close> bytes does
  it: align, then move to the next page unless the part fits. An error of
  either ends the reader.
\<close>

definition la_read_fixed ::
    "'s page_src \<Rightarrow> nat \<Rightarrow> nat \<Rightarrow> log_cursor \<Rightarrow> 's \<Rightarrow> ((errcode \<times> log_cursor) \<times> 's) option" where
  "la_read_fixed get sz len cu s =
     (case LA_LOG_READ_ALIGN get sz NO_ERROR cu s of
        None \<Rightarrow> None
      | Some ((err, cu1), s1) \<Rightarrow>
          if err \<noteq> NO_ERROR then Some ((err, cu1), s1)
          else LA_LOG_READ_ADVANCE_WHEN_DOESNT_FIT get sz NO_ERROR len cu1 s1)"

definition cu_bytes :: "log_cursor \<Rightarrow> byte list" where
  "cu_bytes cu = (case cu_page cu of None \<Rightarrow> [] | Some pg \<Rightarrow> drop (cu_offset cu) (lp_area pg))"

definition la_retrieve_eot_time ::
    "'s page_src \<Rightarrow> nat \<Rightarrow> log_page \<Rightarrow> log_lsa \<Rightarrow> 's \<Rightarrow> (int \<times> 's) option" where
  "la_retrieve_eot_time get sz pgptr lsa s =
     (case la_read_fixed get sz 8 (rec_body pgptr lsa) s of
        None \<Rightarrow> None
      | Some ((err, cu), s1) \<Rightarrow>
          if err \<noteq> NO_ERROR then Some (0, s1) else Some (rd_int 8 0 (cu_bytes cu), s1))"

section \<open>What reading guarantees\<close>

text \<open>
  The log as one sequence of bytes: the areas of its pages one after the
  other. \<open>log_byte\<close> is the byte \<open>k\<close> places after offset \<open>off\<close> of
  page \<open>p\<close>.
\<close>

definition log_byte :: "(log_pageid \<Rightarrow> log_page) \<Rightarrow> nat \<Rightarrow> log_pageid \<Rightarrow> nat \<Rightarrow> byte" where
  "log_byte page sz p off = lp_area (page (p + int (off div sz))) ! (off mod sz)"

definition log_bytes :: "(log_pageid \<Rightarrow> log_page) \<Rightarrow> nat \<Rightarrow> log_pageid \<Rightarrow> nat \<Rightarrow> nat \<Rightarrow> byte list" where
  "log_bytes page sz p off n = map (\<lambda>k. log_byte page sz p (off + k)) [0..<n]"

lemma log_bytes_0 [simp]: "log_bytes page sz p off 0 = []"
  by (simp add: log_bytes_def)

lemma length_log_bytes [simp]: "length (log_bytes page sz p off n) = n"
  by (simp add: log_bytes_def)

lemma log_bytes_append:
  "log_bytes page sz p off m @ log_bytes page sz p (off + m) n = log_bytes page sz p off (m + n)"
  by (rule nth_equalityI) (auto simp: log_bytes_def nth_append)

text \<open>A position may be written with an offset past the end of its page.\<close>

lemma log_bytes_shift:
  assumes "0 < sz"
  shows "log_bytes page sz p (q * sz + off) n = log_bytes page sz (p + int q) off n"
proof -
  have "(q * sz + off + k) div sz = q + (off + k) div sz" and "(q * sz + off + k) mod sz = (off + k) mod sz" for k
    using assms div_mult_self3 [of sz q "off + k"] mod_mult_self3 [of q sz "off + k"] by (simp_all add: add.assoc)
  then show ?thesis by (simp add: log_bytes_def log_byte_def add.assoc)
qed

lemma log_bytes_in_page:
  assumes "off + n \<le> sz" and "length (lp_area (page p)) = sz"
  shows "log_bytes page sz p off n = take n (drop off (lp_area (page p)))"
  by (rule nth_equalityI) (use assms in \<open>auto simp: log_bytes_def log_byte_def\<close>)

text \<open>
  Where a reader finds a fixed part of \<open>n\<close> bytes: at the next multiple of
  eight, or at the start of the following page when it would touch the end of
  the page.
\<close>

definition fixed_at :: "nat \<Rightarrow> log_pageid \<Rightarrow> nat \<Rightarrow> nat \<Rightarrow> log_pageid \<times> nat" where
  "fixed_at sz p off n =
     (let a = DB_ALIGN off MAX_ALIGNMENT; p' = p + int (a div sz) in
      if sz \<le> a mod sz + n then (p' + 1, 0) else (p', a mod sz))"

text \<open>A cursor that has the page it is on, and that a range of pages is there and has full size.\<close>

definition on_page :: "(log_pageid \<Rightarrow> log_page) \<Rightarrow> nat \<Rightarrow> log_cursor \<Rightarrow> bool" where
  "on_page page sz cu \<longleftrightarrow> cu_page cu = Some (page (cu_pageid cu)) \<and> length (lp_area (page (cu_pageid cu))) = sz"

definition pages_upto :: "(log_pageid \<Rightarrow> log_page) \<Rightarrow> (log_pageid \<Rightarrow> bool) \<Rightarrow> nat \<Rightarrow> log_pageid \<Rightarrow> log_pageid \<Rightarrow> bool" where
  "pages_upto page P sz p q \<longleftrightarrow> (\<forall>r. p < r \<and> r \<le> q \<longrightarrow> P r \<and> length (lp_area (page r)) = sz)"

text \<open>The pages that hold the \<open>n\<close> bytes at a cursor, after the page of the cursor.\<close>

definition pages_ahead :: "(log_pageid \<Rightarrow> log_page) \<Rightarrow> (log_pageid \<Rightarrow> bool) \<Rightarrow> nat \<Rightarrow> log_cursor \<Rightarrow> nat \<Rightarrow> bool" where
  "pages_ahead page P sz cu n \<longleftrightarrow>
     pages_upto page P sz (cu_pageid cu) (cu_pageid cu + int ((cu_offset cu + n - 1) div sz))"

text \<open>
  The interface of a page source: the pages of \<open>P\<close> are there, and in a
  valid state reading one returns it and leaves a valid state. Page areas have
  \<open>sz\<close> bytes, a positive multiple of the alignment.
\<close>

locale page_source =
  fixes get :: "'s page_src" and page :: "log_pageid \<Rightarrow> log_page"
    and P :: "log_pageid \<Rightarrow> bool" and valid :: "'s \<Rightarrow> bool"
  assumes get_page: "valid s \<Longrightarrow> P p \<Longrightarrow> \<exists>s'. get p s = Some (Some (page p), s') \<and> valid s'"
begin

lemma advance:
  assumes "valid s" and "on_page page sz cu" and "P (cu_pageid cu + 1)" and "length (lp_area (page (cu_pageid cu + 1))) = sz"
  shows "\<exists>cu' s'. LA_LOG_READ_ADVANCE_WHEN_DOESNT_FIT get sz err n cu s = Some ((err, cu'), s') \<and> valid s' \<and> on_page page sz cu' \<and>
    (if sz \<le> cu_offset cu + n then cu_pageid cu' = cu_pageid cu + 1 \<and> cu_offset cu' = 0 else cu' = cu)"
proof (cases "sz \<le> cu_offset cu + n")
  case True
  obtain s' where "get (cu_pageid cu + 1) s = Some (Some (page (cu_pageid cu + 1)), s')" "valid s'"
    using get_page [OF assms(1,3)] by blast
  with True assms(4) show ?thesis
    by (simp add: LA_LOG_READ_ADVANCE_WHEN_DOESNT_FIT_def on_page_def)
next
  case False
  with assms show ?thesis by (simp add: LA_LOG_READ_ADVANCE_WHEN_DOESNT_FIT_def)
qed

text \<open>The state of the copy after the macro at the head of a round.\<close>

lemma copy_round:
  assumes "0 < sz" and "valid s" and "on_page page sz cu" and "cu_offset cu \<le> sz" and "pages_ahead page P sz cu n" and "0 < n"
  shows "\<exists>cu' s'. LA_LOG_READ_ADVANCE_WHEN_DOESNT_FIT get sz NO_ERROR 0 cu s = Some ((NO_ERROR, cu'), s') \<and> valid s' \<and>
    on_page page sz cu' \<and> cu_offset cu' < sz \<and> pages_ahead page P sz cu' n \<and>
    log_bytes page sz (cu_pageid cu') (cu_offset cu') n = log_bytes page sz (cu_pageid cu) (cu_offset cu) n \<and>
    (cu_offset cu < sz \<longrightarrow> cu' = cu)"
proof (cases "cu_offset cu = sz")
  case True
  have d: "(sz + n - 1) div sz = 1 + (n - 1) div sz"
    using assms(1,6) div_add_self1 [of sz "n - 1"] by simp
  have nx: "P (cu_pageid cu + 1) \<and> length (lp_area (page (cu_pageid cu + 1))) = sz"
    using assms(5) True d by (simp add: pages_ahead_def pages_upto_def)
  obtain cu' s' where r: "LA_LOG_READ_ADVANCE_WHEN_DOESNT_FIT get sz NO_ERROR 0 cu s = Some ((NO_ERROR, cu'), s')"
    "valid s'" "on_page page sz cu'" "cu_pageid cu' = cu_pageid cu + 1" "cu_offset cu' = 0"
    using advance [OF assms(2,3) conjunct1 [OF nx] conjunct2 [OF nx], of NO_ERROR 0] True by auto
  moreover have "pages_ahead page P sz cu' n" using assms(5) r True d by (auto simp: pages_ahead_def pages_upto_def)
  moreover have "log_bytes page sz (cu_pageid cu') (cu_offset cu') n = log_bytes page sz (cu_pageid cu) (cu_offset cu) n"
    using log_bytes_shift [OF assms(1), of page "cu_pageid cu" 1 0 n] r True by simp
  ultimately show ?thesis using assms(1) True by auto
next
  case False
  with assms show ?thesis by (auto simp: LA_LOG_READ_ADVANCE_WHEN_DOESNT_FIT_def)
qed

lemma copy_loop:
  assumes "0 < sz" and "valid s" and "on_page page sz cu" and "cu_offset cu \<le> sz" and "pages_ahead page P sz cu n"
  shows "\<exists>r cu' s'. la_copy_loop get sz n k acc cu s =
      Some ((acc @ log_bytes page sz (cu_pageid cu) (cu_offset cu) n, r, cu'), s') \<and> valid s'"
  using assms(2-)
proof (induction n arbitrary: k acc cu s rule: less_induct)
  case (less n)
  show ?case
  proof (cases "n = 0")
    case True
    with less.prems show ?thesis by (subst la_copy_loop.simps) simp
  next
    case False
    then have n: "0 < n" by simp
    obtain cu1 s1 where adv: "LA_LOG_READ_ADVANCE_WHEN_DOESNT_FIT get sz NO_ERROR 0 cu s = Some ((NO_ERROR, cu1), s1)"
      and v1: "valid s1" and o1: "on_page page sz cu1" and lt: "cu_offset cu1 < sz" and pa: "pages_ahead page P sz cu1 n"
      and b1: "log_bytes page sz (cu_pageid cu1) (cu_offset cu1) n = log_bytes page sz (cu_pageid cu) (cu_offset cu) n"
      using copy_round [OF assms(1) less.prems n] by blast
    define c where "c = (if cu_offset cu1 + n \<le> sz then n else sz - cu_offset cu1)"
    have c: "0 < c" "c \<le> n" "cu_offset cu1 + c \<le> sz" using n lt by (auto simp: c_def)
    let ?cu2 = "cu1\<lparr>cu_offset := cu_offset cu1 + c\<rparr>"
    let ?pg = "page (cu_pageid cu1)"
    have pg: "cu_page cu1 = Some ?pg" "length (lp_area ?pg) = sz" using o1 by (simp_all add: on_page_def)
    have step: "la_copy_loop get sz n k acc cu s =
        la_copy_loop get sz (n - c) (k + 1) (acc @ log_bytes page sz (cu_pageid cu1) (cu_offset cu1) c) ?cu2 s1"
      using n adv pg log_bytes_in_page [where page = page, OF c(3) pg(2)] by (subst la_copy_loop.simps) (simp add: Let_def c_def [symmetric])
    have "on_page page sz ?cu2" and "pages_ahead page P sz ?cu2 (n - c)"
      using o1 pa c by (simp_all add: on_page_def pages_ahead_def pages_upto_def)
    then obtain r cu' s' where "la_copy_loop get sz (n - c) (k + 1) (acc @ log_bytes page sz (cu_pageid cu1) (cu_offset cu1) c) ?cu2 s1 =
        Some (((acc @ log_bytes page sz (cu_pageid cu1) (cu_offset cu1) c) @
          log_bytes page sz (cu_pageid ?cu2) (cu_offset ?cu2) (n - c), r, cu'), s')" and "valid s'"
      using less.IH [of "n - c" s1 ?cu2 "k + 1" "acc @ log_bytes page sz (cu_pageid cu1) (cu_offset cu1) c"] c n v1 by auto
    moreover have "log_bytes page sz (cu_pageid cu1) (cu_offset cu1) c @
        log_bytes page sz (cu_pageid ?cu2) (cu_offset ?cu2) (n - c) = log_bytes page sz (cu_pageid cu) (cu_offset cu) n"
      using log_bytes_append [of page sz "cu_pageid cu1" "cu_offset cu1" c "n - c"] c b1 by simp
    ultimately show ?thesis using step by auto
  qed
qed

lemma copy_in_page:
  assumes "0 < n" and "cu_offset cu + n \<le> sz" and "on_page page sz cu"
  shows "la_copy_loop get sz n k acc cu s =
    Some ((acc @ log_bytes page sz (cu_pageid cu) (cu_offset cu) n, k + 1, cu\<lparr>cu_offset := cu_offset cu + n\<rparr>), s)"
proof -
  have pg: "cu_page cu = Some (page (cu_pageid cu))" "length (lp_area (page (cu_pageid cu))) = sz"
    using assms(3) by (simp_all add: on_page_def)
  have "LA_LOG_READ_ADVANCE_WHEN_DOESNT_FIT get sz NO_ERROR 0 cu s = Some ((NO_ERROR, cu), s)"
    using assms(1,2) by (simp add: LA_LOG_READ_ADVANCE_WHEN_DOESNT_FIT_def)
  with assms(1,2) pg log_bytes_in_page [where page = page, OF assms(2) pg(2)] show ?thesis
    by (subst la_copy_loop.simps, subst la_copy_loop.simps) (simp add: Let_def)
qed

lemma copy_fromlog:
  assumes "0 < sz" and "valid s" and "on_page page sz cu" and "cu_offset cu \<le> sz" and "pages_ahead page P sz cu (nat len)"
  shows "\<exists>s'. la_log_copy_fromlog get sz False len cu s =
      Some (([], log_bytes page sz (cu_pageid cu) (cu_offset cu) (nat len)), s') \<and> valid s'"
  using copy_loop [OF assms, of 0 "[]"] by (auto simp: la_log_copy_fromlog_def)

lemma copy_fromlog_type:
  assumes "0 < sz" and "valid s" and "on_page page sz cu" and "cu_offset cu + 2 \<le> sz" and "pages_ahead page P sz cu (nat len)"
    and "2 \<le> len"
  shows "\<exists>s'. la_log_copy_fromlog get sz True len cu s =
      Some ((log_bytes page sz (cu_pageid cu) (cu_offset cu) 2,
             log_bytes page sz (cu_pageid cu) (cu_offset cu + 2) (nat len - 2)), s') \<and> valid s'"
proof -
  let ?cu = "cu\<lparr>cu_offset := cu_offset cu + 2\<rparr>"
  have first: "la_copy_loop get sz 2 0 [] cu s = Some ((log_bytes page sz (cu_pageid cu) (cu_offset cu) 2, 1, ?cu), s)"
    using copy_in_page [of 2 cu sz 0 "[]" s] assms(3,4) by (simp add: numeral_2_eq_2)
  have e: "cu_offset ?cu + (nat len - 2) - 1 = cu_offset cu + nat len - 1" using assms(6) by simp
  have "on_page page sz ?cu" and "cu_offset ?cu \<le> sz" using assms(3,4) by (simp_all add: on_page_def)
  moreover have "pages_ahead page P sz ?cu (nat len - 2)"
    using assms(5) unfolding pages_ahead_def pages_upto_def e by simp
  ultimately have "on_page page sz ?cu" "cu_offset ?cu \<le> sz" "pages_ahead page P sz ?cu (nat len - 2)" by blast+
  from copy_loop [OF assms(1,2) this, of 0 "[]"] obtain r cu' s' where
    "la_copy_loop get sz (nat len - 2) 0 [] ?cu s = Some ((log_bytes page sz (cu_pageid cu) (cu_offset cu + 2) (nat len - 2), r, cu'), s')"
    "valid s'" by auto
  moreover have "nat (len - 2) = nat len - 2" by simp
  ultimately show ?thesis using first by (simp add: la_log_copy_fromlog_def)
qed

text \<open>Alignment moves to the next multiple of eight of the position, in the page that has it.\<close>

lemma align_loop:
  assumes "MAX_ALIGNMENT dvd sz" and "0 < sz" and "valid s" and "on_page page sz cu" and "MAX_ALIGNMENT dvd cu_offset cu"
    and "pages_upto page P sz (cu_pageid cu) (cu_pageid cu + int (cu_offset cu div sz))"
  shows "\<exists>cu' s'. la_log_read_align_loop get sz err cu s = Some ((err, cu'), s') \<and> valid s' \<and> on_page page sz cu' \<and>
    cu_pageid cu' = cu_pageid cu + int (cu_offset cu div sz) \<and> cu_offset cu' = cu_offset cu mod sz"
  using assms(3-)
proof (induction "cu_offset cu" arbitrary: cu s rule: less_induct)
  case less
  show ?case
  proof (cases "sz \<le> cu_offset cu")
    case False
    with less.prems show ?thesis by (subst la_log_read_align_loop.simps) simp
  next
    case True
    let ?cu = "\<lparr>cu_pageid = cu_pageid cu + 1, cu_offset = cu_offset cu - sz, cu_page = Some (page (cu_pageid cu + 1))\<rparr>"
    have d: "cu_offset cu div sz = Suc ((cu_offset cu - sz) div sz)" "cu_offset cu mod sz = (cu_offset cu - sz) mod sz"
      using True assms(2) by (simp_all add: le_div_geq le_mod_geq)
    have nx: "P (cu_pageid cu + 1)" "length (lp_area (page (cu_pageid cu + 1))) = sz"
      using less.prems(4) d by (simp_all add: pages_upto_def)
    obtain s' where g: "get (cu_pageid cu + 1) s = Some (Some (page (cu_pageid cu + 1)), s')" "valid s'"
      using get_page [OF less.prems(1) nx(1)] by blast
    have al: "MAX_ALIGNMENT dvd cu_offset cu - sz" using assms(1) less.prems(3) by (rule dvd_diff_nat [rotated])
    then have "DB_ALIGN (cu_offset cu - sz) MAX_ALIGNMENT = cu_offset cu - sz" by (simp add: DB_ALIGN_id)
    then have step: "la_log_read_align_loop get sz err cu s = la_log_read_align_loop get sz err ?cu s'"
      using True g by (subst la_log_read_align_loop.simps) simp
    have "\<exists>cu' s''. la_log_read_align_loop get sz err ?cu s' = Some ((err, cu'), s'') \<and> valid s'' \<and> on_page page sz cu' \<and>
        cu_pageid cu' = cu_pageid ?cu + int (cu_offset ?cu div sz) \<and> cu_offset cu' = cu_offset ?cu mod sz"
    proof (rule less.hyps)
      show "cu_offset ?cu < cu_offset cu" using True assms(2) by simp
      show "on_page page sz ?cu" using nx by (simp add: on_page_def)
      show "pages_upto page P sz (cu_pageid ?cu) (cu_pageid ?cu + int (cu_offset ?cu div sz))"
        using less.prems(4) d by (simp add: pages_upto_def)
    qed (use g al in simp_all)
    then show ?thesis unfolding step using d by (simp add: add.assoc)
  qed
qed

lemma read_fixed:
  assumes "MAX_ALIGNMENT dvd sz" and "0 < sz" and "valid s" and "on_page page sz cu"
    and pages: "pages_upto page P sz (cu_pageid cu) (fst (fixed_at sz (cu_pageid cu) (cu_offset cu) n))"
  shows "\<exists>cu' s'. la_read_fixed get sz n cu s = Some ((NO_ERROR, cu'), s') \<and> valid s' \<and> on_page page sz cu' \<and>
    (cu_pageid cu', cu_offset cu') = fixed_at sz (cu_pageid cu) (cu_offset cu) n"
proof -
  let ?a = "DB_ALIGN (cu_offset cu) MAX_ALIGNMENT"
  let ?cu = "cu\<lparr>cu_offset := ?a\<rparr>"
  have o: "on_page page sz ?cu" using assms(4) by (simp add: on_page_def)
  have up: "cu_pageid cu + int (?a div sz) \<le> fst (fixed_at sz (cu_pageid cu) (cu_offset cu) n)"
    by (simp add: fixed_at_def Let_def)
  obtain cu1 s1 where al: "LA_LOG_READ_ALIGN get sz NO_ERROR cu s = Some ((NO_ERROR, cu1), s1)" "valid s1" "on_page page sz cu1"
    "cu_pageid cu1 = cu_pageid cu + int (?a div sz)" "cu_offset cu1 = ?a mod sz"
    using align_loop [OF assms(1,2,3) o, of NO_ERROR] pages up
    by (auto simp: LA_LOG_READ_ALIGN_def DB_ALIGN_dvd pages_upto_def)
  show ?thesis
  proof (cases "sz \<le> cu_offset cu1 + n")
    case True
    then have f: "fixed_at sz (cu_pageid cu) (cu_offset cu) n = (cu_pageid cu1 + 1, 0)"
      using al by (simp add: fixed_at_def Let_def)
    have "P (cu_pageid cu1 + 1) \<and> length (lp_area (page (cu_pageid cu1 + 1))) = sz"
      using pages f al(4) by (simp add: pages_upto_def)
    with advance [OF al(2,3), of NO_ERROR n] al(1) f True show ?thesis by (auto simp: la_read_fixed_def)
  next
    case False
    with al show ?thesis
      by (simp add: la_read_fixed_def LA_LOG_READ_ADVANCE_WHEN_DOESNT_FIT_def fixed_at_def Let_def)
  qed
qed

end

section \<open>The cache as a page source\<close>

type_synonym 'w la_src = "la_cache_pb \<times> la_vols \<times> 'w"

definition la_page_src :: "'w la_io \<Rightarrow> la_cache_cfg \<Rightarrow> 'w la_src page_src" where
  "la_page_src io cfg p s =
     (case s of (pb, st, w) \<Rightarrow>
        (case la_get_page io cfg p pb st w of
           None \<Rightarrow> None
         | Some ((pg, pb'), st', w') \<Rightarrow> Some (pg, pb', st', w')))"

definition src_ok :: "'w la_io \<Rightarrow> la_cache_cfg \<Rightarrow> (log_pageid \<Rightarrow> log_page) \<Rightarrow> (log_pageid \<Rightarrow> bool) \<Rightarrow> (la_vols \<Rightarrow> bool)
    \<Rightarrow> 'w la_src \<Rightarrow> bool" where
  "src_ok io cfg page P Q s \<longleftrightarrow>
     (case s of (pb, st, w) \<Rightarrow>
        io_serves io page P Q \<and> 0 < cfg_buffer_size cfg \<and> pb_inv pb \<and> pb_content page pb \<and> Q st)"

interpretation cp: page_source "la_page_src io cfg" page P "src_ok io cfg page P Q" for io cfg page P Q
proof
  fix s p assume ok: "src_ok io cfg page P Q s" and p: "P p"
  obtain pb st w where s: "s = (pb, st, w)" by (cases s)
  from ok s have "io_serves io page P Q" "0 < cfg_buffer_size cfg" "Q st" "pb_inv pb" "pb_content page pb"
    by (simp_all add: src_ok_def)
  from la_get_page_serves [OF this(1,2) p this(3-5), of w]
  obtain pb' st' w' where "la_get_page io cfg p pb st w = Some ((Some (page p), pb'), st', w')"
    "pb_inv pb'" "pb_content page pb'" "Q st'" by blast
  with ok s show "\<exists>s'. la_page_src io cfg p s = Some (Some (page p), s') \<and> src_ok io cfg page P Q s'"
    by (simp add: la_page_src_def src_ok_def)
qed

section \<open>Round trips of the decoders\<close>

definition lsa_fits :: "log_lsa \<Rightarrow> bool" where
  "lsa_fits l \<longleftrightarrow> - (2 ^ 47) \<le> lsa_pageid l \<and> lsa_pageid l < 2 ^ 47 \<and> - (2 ^ 15) \<le> lsa_offset l \<and> lsa_offset l < 2 ^ 15"

definition header_fits :: "log_record_header \<Rightarrow> bool" where
  "header_fits r \<longleftrightarrow> lsa_fits (lr_prev_tranlsa r) \<and> lsa_fits (lr_back_lsa r) \<and> lsa_fits (lr_forw_lsa r) \<and>
     - (2 ^ 31) \<le> lr_trid r \<and> lr_trid r < 2 ^ 31 \<and> - (2 ^ 31) \<le> lr_type r \<and> lr_type r < 2 ^ 31"

lemma length_wr_lsa [simp]: "length (wr_lsa l) = 8"
  by (simp add: wr_lsa_def)

lemma rd_wr_lsa: "lsa_fits l \<Longrightarrow> rd_lsa (length pre) (pre @ wr_lsa l @ post) = l"
  using rd_wr_int [of 6 "lsa_pageid l" pre "wr_int 2 (lsa_offset l) @ post"]
    rd_wr_int [of 2 "lsa_offset l" "pre @ wr_int 6 (lsa_pageid l)" post]
  by (simp add: rd_lsa_def wr_lsa_def lsa_fits_def)

lemma rd_wr_log_record_header:
  assumes "header_fits r"
  shows "rd_log_record_header (length pre) (pre @ wr_log_record_header r @ post) = r"
proof -
  have f: "lsa_fits (lr_prev_tranlsa r)" "lsa_fits (lr_back_lsa r)" "lsa_fits (lr_forw_lsa r)"
    using assms by (simp_all add: header_fits_def)
  show ?thesis
    using rd_wr_lsa [OF f(1), of pre] rd_wr_lsa [OF f(2), of "pre @ wr_lsa (lr_prev_tranlsa r)"]
      rd_wr_lsa [OF f(3), of "pre @ wr_lsa (lr_prev_tranlsa r) @ wr_lsa (lr_back_lsa r)"]
      rd_wr_int [of 4 "lr_trid r" "pre @ wr_lsa (lr_prev_tranlsa r) @ wr_lsa (lr_back_lsa r) @ wr_lsa (lr_forw_lsa r)"]
      rd_wr_int [of 4 "lr_type r" "pre @ wr_lsa (lr_prev_tranlsa r) @ wr_lsa (lr_back_lsa r) @ wr_lsa (lr_forw_lsa r) @ wr_int 4 (lr_trid r)"]
      assms
    by (simp add: rd_log_record_header_def wr_log_record_header_def header_fits_def)
qed

section \<open>Properties\<close>

text \<open>
  C21. Copying from the log through the page cache delivers the bytes of the
  log: whatever pages the part spans and whether they are cached, the area gets
  exactly the bytes from the position on, and the copy ends.
\<close>

theorem la_log_copy_fromlog_bytes:
  assumes "src_ok io cfg page P Q s" and "0 < sz" and "on_page page sz cu" and "cu_offset cu \<le> sz"
    and "pages_ahead page P sz cu (nat len)"
  shows "\<exists>s'. la_log_copy_fromlog (la_page_src io cfg) sz False len cu s =
      Some (([], log_bytes page sz (cu_pageid cu) (cu_offset cu) (nat len)), s') \<and> src_ok io cfg page P Q s'"
  by (rule cp.copy_fromlog [OF assms(2,1,3-)])

lemma ex_src_ok: "src_ok ex_io ex_cfg ex_page ex_active (\<lambda>st. act_log_hdr st = ex_hdr) (ex_pb, ex_vols, ())"
  using ex_io_serves ex_pb_inv ex_pb_content [of ex_page] by (simp add: src_ok_def ex_cfg_def ex_vols_def)

lemma ex_page_area [simp]: "length (lp_area (ex_page p)) = 40"
  by (simp add: ex_page_def)

lemma la_log_copy_fromlog_bytes_witness:
  "\<exists>s'. la_log_copy_fromlog (la_page_src ex_io ex_cfg) 40 False 60 \<lparr>cu_pageid = 31, cu_offset = 16, cu_page = Some (ex_page 31)\<rparr>
     (ex_pb, ex_vols, ()) = Some (([], log_bytes ex_page 40 31 16 60), s')"
  using la_log_copy_fromlog_bytes [OF ex_src_ok, of 40 "\<lparr>cu_pageid = 31, cu_offset = 16, cu_page = Some (ex_page 31)\<rparr>" 60]
  by (auto simp: on_page_def pages_ahead_def pages_upto_def ex_active_def)

text \<open>
  The record type of two bytes and the record behind it are split where the
  type ends, for a type that does not span two pages.
\<close>

theorem la_log_copy_fromlog_type:
  assumes "src_ok io cfg page P Q s" and "0 < sz" and "on_page page sz cu" and "cu_offset cu + 2 \<le> sz"
    and "pages_ahead page P sz cu (nat len)" and "2 \<le> len"
  shows "\<exists>s'. la_log_copy_fromlog (la_page_src io cfg) sz True len cu s =
      Some ((log_bytes page sz (cu_pageid cu) (cu_offset cu) 2, log_bytes page sz (cu_pageid cu) (cu_offset cu + 2) (nat len - 2)), s')
    \<and> src_ok io cfg page P Q s'"
  by (rule cp.copy_fromlog_type [OF assms(2,1,3-)])

lemma la_log_copy_fromlog_type_witness:
  "\<exists>s'. la_log_copy_fromlog (la_page_src ex_io ex_cfg) 40 True 60 \<lparr>cu_pageid = 31, cu_offset = 16, cu_page = Some (ex_page 31)\<rparr>
     (ex_pb, ex_vols, ()) = Some ((log_bytes ex_page 40 31 16 2, log_bytes ex_page 40 31 18 58), s')"
  using la_log_copy_fromlog_type [OF ex_src_ok, of 40 "\<lparr>cu_pageid = 31, cu_offset = 16, cu_page = Some (ex_page 31)\<rparr>" 60]
  by (auto simp: on_page_def pages_ahead_def pages_upto_def ex_active_def)

text \<open>
  C34. The fixed part of a record is read where the log has it: at the next
  multiple of the alignment, or at the start of the next page when it does not
  fit into the page.
\<close>

theorem la_read_fixed_position:
  assumes "src_ok io cfg page P Q s" and "MAX_ALIGNMENT dvd sz" and "0 < sz" and "on_page page sz cu"
    and "pages_upto page P sz (cu_pageid cu) (fst (fixed_at sz (cu_pageid cu) (cu_offset cu) n))"
  shows "\<exists>cu' s'. la_read_fixed (la_page_src io cfg) sz n cu s = Some ((NO_ERROR, cu'), s') \<and>
    cu_page cu' = Some (page (cu_pageid cu')) \<and> (cu_pageid cu', cu_offset cu') = fixed_at sz (cu_pageid cu) (cu_offset cu) n"
  using cp.read_fixed [OF assms(2,3,1,4,5)] by (auto simp: on_page_def)

lemma la_read_fixed_position_witness:
  "\<exists>cu' s'. la_read_fixed (la_page_src ex_io ex_cfg) 40 16 (rec_body (ex_page 31) (LSA 31 0)) (ex_pb, ex_vols, ()) =
     Some ((NO_ERROR, cu'), s') \<and> (cu_pageid cu', cu_offset cu') = (32, 0)"
  using la_read_fixed_position [OF ex_src_ok, of 40 "rec_body (ex_page 31) (LSA 31 0)" 16]
  by (auto simp: on_page_def pages_upto_def ex_active_def rec_body_def fixed_at_def DB_ALIGN_def Let_def)

end
