(* ===== verification/Log_Append.thy ===== *)
theory Log_Append
  imports La_Read
begin

text \<open>
  The writer of the log (\<^verbatim>\<open>transaction/log_page_buffer.c\<close>). The server
  appends a record in two passes. The first reserves the addresses of the
  record and puts it on a list (\<^verbatim>\<open>prior_lsa_next_record\<close>); the second takes
  the list and writes the records into pages (\<^verbatim>\<open>logpb_append_next_record\<close>). The
  two passes compute every position on their own, and the second stops the
  server when they disagree.

  A position is a page with an offset into its area, whose size \<open>sz\<close> is
  \<^verbatim>\<open>LOGAREA_SIZE\<close>. \<open>None\<close> is a loop that does not end, or the stop of
  the server by \<^verbatim>\<open>logpb_fatal_error\<close>. The buffers that hold the append
  pages, their flushing and the archiving of old pages are left out: they move
  pages and do not change them.
\<close>

type_synonym log_pos = "log_pageid \<times> nat"

definition lsa_of :: "log_pos \<Rightarrow> log_lsa" where
  "lsa_of pos = LSA (fst pos) (int (snd pos))"

section \<open>Records to append\<close>

text \<open>
  \<^verbatim>\<open>struct log_prior_node\<close>. An absent part (\<^verbatim>\<open>NULL\<close>, length 0) is
  the empty list.
\<close>

record log_prior_node =
  pn_log_header :: log_record_header
  pn_start_lsa :: log_lsa
  pn_data_header :: "byte list"
  pn_udata :: "byte list"
  pn_rdata :: "byte list"

text \<open>The fields of a transaction descriptor that reserving reads and writes.\<close>

record log_tdes =
  td_trid :: tranid
  td_head_lsa :: log_lsa
  td_tail_lsa :: log_lsa
  td_undo_nxlsa :: log_lsa

record log_prior_info =
  pi_prior_lsa :: log_pos
  pi_prev_lsa :: log_lsa
  pi_list :: "log_prior_node list"

section \<open>Reserving addresses\<close>

definition LOG_PRIOR_LSA_APPEND_ALIGN :: "nat \<Rightarrow> log_pos \<Rightarrow> log_pos" where
  "LOG_PRIOR_LSA_APPEND_ALIGN sz pos =
     (let a = DB_ALIGN (snd pos) MAX_ALIGNMENT in if sz \<le> a then (fst pos + 1, 0) else (fst pos, a))"

definition LOG_PRIOR_LSA_APPEND_ADVANCE_WHEN_DOESNOT_FIT :: "nat \<Rightarrow> nat \<Rightarrow> log_pos \<Rightarrow> log_pos" where
  "LOG_PRIOR_LSA_APPEND_ADVANCE_WHEN_DOESNOT_FIT sz len pos =
     (if sz \<le> snd pos + len then (fst pos + 1, 0) else pos)"

definition LOG_PRIOR_LSA_APPEND_ADD_ALIGN :: "nat \<Rightarrow> nat \<Rightarrow> log_pos \<Rightarrow> log_pos" where
  "LOG_PRIOR_LSA_APPEND_ADD_ALIGN sz add pos = LOG_PRIOR_LSA_APPEND_ALIGN sz (fst pos, snd pos + add)"

text \<open>The loop over the pages; \<^verbatim>\<open>current_offset\<close> is the offset of \<^verbatim>\<open>prior_lsa\<close> throughout.\<close>

partial_function (option) prior_append_loop :: "nat \<Rightarrow> nat \<Rightarrow> log_pos \<Rightarrow> log_pos option" where
  "prior_append_loop sz len pos =
     (if 0 < len then
        let pos1 = (if sz \<le> snd pos then (fst pos + 1, 0) else pos);
            copy_length = (if sz \<le> snd pos1 + len then sz - snd pos1 else len)
        in prior_append_loop sz (len - copy_length) (fst pos1, snd pos1 + copy_length)
      else Some pos)"

definition prior_lsa_append_data :: "nat \<Rightarrow> nat \<Rightarrow> log_pos \<Rightarrow> log_pos option" where
  "prior_lsa_append_data sz len pos =
     (if len \<noteq> 0 then
        let pos1 = LOG_PRIOR_LSA_APPEND_ALIGN sz pos in
        (case (if sz \<le> snd pos1 + len then prior_append_loop sz len pos1 else Some (fst pos1, snd pos1 + len)) of
           None \<Rightarrow> None
         | Some pos2 \<Rightarrow> Some (LOG_PRIOR_LSA_APPEND_ALIGN sz pos2))
      else Some pos)"

definition prior_lsa_start_append ::
    "nat \<Rightarrow> log_prior_node \<Rightarrow> 'z log_tdes_scheme \<Rightarrow> log_prior_info \<Rightarrow> log_prior_node \<times> 'z log_tdes_scheme \<times> log_prior_info" where
  "prior_lsa_start_append sz node td pi =
     (let pos = LOG_PRIOR_LSA_APPEND_ADVANCE_WHEN_DOESNOT_FIT sz SIZEOF_LOG_RECORD_HEADER (pi_prior_lsa pi);
          node' = node\<lparr>pn_start_lsa := lsa_of pos,
                       pn_log_header := (pn_log_header node)\<lparr>lr_trid := td_trid td, lr_prev_tranlsa := td_tail_lsa td,
                                          lr_back_lsa := pi_prev_lsa pi, lr_forw_lsa := LSA_NULL\<rparr>\<rparr>;
          td' = td\<lparr>td_tail_lsa := lsa_of pos, td_undo_nxlsa := lsa_of pos,
                   td_head_lsa := (if LSA_ISNULL (td_head_lsa td) then lsa_of pos else td_head_lsa td)\<rparr>
      in (node', td', pi\<lparr>pi_prev_lsa := lsa_of pos,
                         pi_prior_lsa := LOG_PRIOR_LSA_APPEND_ADD_ALIGN sz SIZEOF_LOG_RECORD_HEADER pos\<rparr>))"

definition prior_lsa_end_append :: "nat \<Rightarrow> log_prior_node \<Rightarrow> log_pos \<Rightarrow> log_prior_node \<times> log_pos" where
  "prior_lsa_end_append sz node pos =
     (let pos' = LOG_PRIOR_LSA_APPEND_ADVANCE_WHEN_DOESNOT_FIT sz SIZEOF_LOG_RECORD_HEADER (LOG_PRIOR_LSA_APPEND_ALIGN sz pos)
      in (node\<lparr>pn_log_header := (pn_log_header node)\<lparr>lr_forw_lsa := lsa_of pos'\<rparr>\<rparr>, pos'))"

definition prior_lsa_next_record_internal ::
    "nat \<Rightarrow> log_prior_node \<Rightarrow> 'z log_tdes_scheme \<Rightarrow> log_prior_info \<Rightarrow> (log_lsa \<times> 'z log_tdes_scheme \<times> log_prior_info) option" where
  "prior_lsa_next_record_internal sz node td pi =
     (let (node1, td1, pi1) = prior_lsa_start_append sz node td pi;
          hl = length (pn_data_header node1);
          pos = LOG_PRIOR_LSA_APPEND_ADD_ALIGN sz hl (LOG_PRIOR_LSA_APPEND_ADVANCE_WHEN_DOESNOT_FIT sz hl (pi_prior_lsa pi1))
      in case (if pn_udata node1 \<noteq> [] then prior_lsa_append_data sz (length (pn_udata node1)) pos else Some pos) of
           None \<Rightarrow> None
         | Some pos1 \<Rightarrow>
             (case (if pn_rdata node1 \<noteq> [] then prior_lsa_append_data sz (length (pn_rdata node1)) pos1 else Some pos1) of
                None \<Rightarrow> None
              | Some pos2 \<Rightarrow>
                  (case prior_lsa_end_append sz node1 pos2 of
                     (node2, pos3) \<Rightarrow>
                       Some (pn_start_lsa node2, td1, pi1\<lparr>pi_prior_lsa := pos3, pi_list := pi_list pi1 @ [node2]\<rparr>))))"

section \<open>Writing pages\<close>

text \<open>
  The append state of \<^verbatim>\<open>log_Gl\<close>: the pages, the append address with its
  page, the address of the last record, the end of the log; \<open>gl_create_ok\<close>
  tells for which pages \<^verbatim>\<open>logpb_create\<close> finds a buffer.
\<close>

record log_gl =
  gl_pages :: "log_pageid \<Rightarrow> log_page"
  gl_append :: log_pos
  gl_prev_lsa :: log_lsa
  gl_eof_lsa :: log_lsa
  gl_create_ok :: "log_pageid \<Rightarrow> bool"

text \<open>
  \<^verbatim>\<open>logpb_create\<close> sets the header of a page that is not in the buffer pool
  yet and leaves in its area what the buffer held.
\<close>

definition logpb_create :: "log_pageid \<Rightarrow> log_gl \<Rightarrow> log_gl option" where
  "logpb_create pageid gl =
     (if gl_create_ok gl pageid
      then Some (gl\<lparr>gl_pages := (gl_pages gl)(pageid := (gl_pages gl pageid)
                     \<lparr>lp_logical_pageid := pageid, lp_offset := NULL_OFFSET\<rparr>)\<rparr>)
      else None)"

text \<open>
  \<open>gl_pages\<close> are the pages wherever they are, in a buffer, in the active log or in
  an archive: releasing and flushing pages, archiving and the bookkeeping of the
  ring in \<^verbatim>\<open>logpb_next_append_page\<close> move pages between these places and are
  not part of the model.
\<close>

definition logpb_next_append_page :: "log_gl \<Rightarrow> log_gl option" where
  "logpb_next_append_page gl =
     logpb_create (fst (gl_append gl) + 1) (gl\<lparr>gl_append := (fst (gl_append gl) + 1, 0)\<rparr>)"

definition LOG_APPEND_ALIGN :: "nat \<Rightarrow> log_gl \<Rightarrow> log_gl option" where
  "LOG_APPEND_ALIGN sz gl =
     (let a = DB_ALIGN (snd (gl_append gl)) MAX_ALIGNMENT; gl1 = gl\<lparr>gl_append := (fst (gl_append gl), a)\<rparr>
      in if sz \<le> a then logpb_next_append_page gl1 else Some gl1)"

definition LOG_APPEND_ADVANCE_WHEN_DOESNOT_FIT :: "nat \<Rightarrow> nat \<Rightarrow> log_gl \<Rightarrow> log_gl option" where
  "LOG_APPEND_ADVANCE_WHEN_DOESNOT_FIT sz len gl =
     (if sz \<le> snd (gl_append gl) + len then logpb_next_append_page gl else Some gl)"

definition LOG_APPEND_SETDIRTY_ADD_ALIGN :: "nat \<Rightarrow> nat \<Rightarrow> log_gl \<Rightarrow> log_gl option" where
  "LOG_APPEND_SETDIRTY_ADD_ALIGN sz add gl =
     LOG_APPEND_ALIGN sz (gl\<lparr>gl_append := (fst (gl_append gl), snd (gl_append gl) + add)\<rparr>)"

text \<open>\<^verbatim>\<open>memcpy\<close> to \<^verbatim>\<open>LOG_APPEND_PTR ()\<close>.\<close>

definition wr_at :: "nat \<Rightarrow> byte list \<Rightarrow> byte list \<Rightarrow> byte list" where
  "wr_at off bs area = take off area @ bs @ drop (off + length bs) area"

definition gl_memcpy :: "byte list \<Rightarrow> log_gl \<Rightarrow> log_gl" where
  "gl_memcpy bs gl =
     (let p = fst (gl_append gl); pg = gl_pages gl p
      in gl\<lparr>gl_pages := (gl_pages gl)(p := pg\<lparr>lp_area := wr_at (snd (gl_append gl)) bs (lp_area pg)\<rparr>)\<rparr>)"

definition gl_advance :: "nat \<Rightarrow> log_gl \<Rightarrow> log_gl" where
  "gl_advance n gl = gl\<lparr>gl_append := (fst (gl_append gl), snd (gl_append gl) + n)\<rparr>"

partial_function (option) logpb_append_loop :: "nat \<Rightarrow> byte list \<Rightarrow> log_gl \<Rightarrow> log_gl option" where
  "logpb_append_loop sz data gl =
     (if data \<noteq> [] then
        (case (if sz \<le> snd (gl_append gl) then logpb_next_append_page gl else Some gl) of
           None \<Rightarrow> None
         | Some gl1 \<Rightarrow>
             let copy_length = (if sz \<le> snd (gl_append gl1) + length data then sz - snd (gl_append gl1) else length data)
             in logpb_append_loop sz (drop copy_length data) (gl_advance copy_length (gl_memcpy (take copy_length data) gl1)))
      else Some gl)"

definition logpb_append_data :: "nat \<Rightarrow> byte list \<Rightarrow> log_gl \<Rightarrow> log_gl option" where
  "logpb_append_data sz data gl =
     (if data \<noteq> [] then
        (case LOG_APPEND_ALIGN sz gl of
           None \<Rightarrow> None
         | Some gl1 \<Rightarrow>
             (case (if sz \<le> snd (gl_append gl1) + length data then logpb_append_loop sz data gl1
                    else Some (gl_advance (length data) (gl_memcpy data gl1))) of
                None \<Rightarrow> None
              | Some gl2 \<Rightarrow> LOG_APPEND_ALIGN sz gl2))
      else Some gl)"

definition logpb_start_append :: "nat \<Rightarrow> log_record_header \<Rightarrow> log_gl \<Rightarrow> log_gl option" where
  "logpb_start_append sz header gl =
     (case LOG_APPEND_ADVANCE_WHEN_DOESNOT_FIT sz SIZEOF_LOG_RECORD_HEADER gl of
        None \<Rightarrow> None
      | Some gl1 \<Rightarrow>
          if \<not> LSA_EQ (lr_back_lsa header) (gl_prev_lsa gl1) then None
          else
            let gl2 = gl_memcpy (wr_log_record_header header) gl1;
                p = fst (gl_append gl2); pg = gl_pages gl2 p;
                gl3 = (if lp_offset pg = NULL_OFFSET
                       then gl2\<lparr>gl_pages := (gl_pages gl2)(p := pg\<lparr>lp_offset := int (snd (gl_append gl2))\<rparr>)\<rparr> else gl2)
            in if lr_type header = LOG_END_OF_LOG then Some (gl3\<lparr>gl_eof_lsa := lsa_of (gl_append gl3)\<rparr>)
               else LOG_APPEND_SETDIRTY_ADD_ALIGN sz SIZEOF_LOG_RECORD_HEADER (gl3\<lparr>gl_prev_lsa := lsa_of (gl_append gl3)\<rparr>))"

definition logpb_end_append :: "nat \<Rightarrow> log_gl \<Rightarrow> log_gl option" where
  "logpb_end_append sz gl =
     (case LOG_APPEND_ALIGN sz gl of
        None \<Rightarrow> None
      | Some gl1 \<Rightarrow> LOG_APPEND_ADVANCE_WHEN_DOESNOT_FIT sz SIZEOF_LOG_RECORD_HEADER gl1)"

definition logpb_append_header_data :: "nat \<Rightarrow> byte list \<Rightarrow> log_gl \<Rightarrow> log_gl option" where
  "logpb_append_header_data sz data gl =
     (if data \<noteq> [] then
        (case LOG_APPEND_ADVANCE_WHEN_DOESNOT_FIT sz (length data) gl of
           None \<Rightarrow> None
         | Some gl1 \<Rightarrow> logpb_append_data sz data gl1)
      else Some gl)"

definition logpb_append_next_record :: "nat \<Rightarrow> log_prior_node \<Rightarrow> log_gl \<Rightarrow> log_gl option" where
  "logpb_append_next_record sz node gl =
     (if \<not> LSA_EQ (pn_start_lsa node) (lsa_of (gl_append gl)) then None
      else do {
        gl1 \<leftarrow> logpb_start_append sz (pn_log_header node) gl;
        gl2 \<leftarrow> logpb_append_header_data sz (pn_data_header node) gl1;
        gl3 \<leftarrow> (if pn_udata node \<noteq> [] then logpb_append_data sz (pn_udata node) gl2 else Some gl2);
        gl4 \<leftarrow> (if pn_rdata node \<noteq> [] then logpb_append_data sz (pn_rdata node) gl3 else Some gl3);
        logpb_end_append sz gl4
      })"

fun logpb_append_prior_lsa_list :: "nat \<Rightarrow> log_prior_node list \<Rightarrow> log_gl \<Rightarrow> log_gl option" where
  "logpb_append_prior_lsa_list sz [] gl = Some gl"
| "logpb_append_prior_lsa_list sz (node # list) gl =
     (case logpb_append_next_record sz node gl of
        None \<Rightarrow> None
      | Some gl' \<Rightarrow> logpb_append_prior_lsa_list sz list gl')"

section \<open>The log as a tape\<close>

text \<open>
  The areas of the pages one after the other are one tape of bytes. Whatever
  the second pass does to pages, it writes a run of bytes on the tape; \<open>gpos\<close>
  is the place of a position on it.
\<close>

definition gpos :: "nat \<Rightarrow> log_pos \<Rightarrow> int" where
  "gpos sz pos = fst pos * int sz + int (snd pos)"

definition tape :: "nat \<Rightarrow> (log_pageid \<Rightarrow> log_page) \<Rightarrow> int \<Rightarrow> byte" where
  "tape sz pages g = lp_area (pages (g div int sz)) ! nat (g mod int sz)"

definition tape_write :: "int \<Rightarrow> byte list \<Rightarrow> (int \<Rightarrow> byte) \<Rightarrow> int \<Rightarrow> byte" where
  "tape_write g data t x = (if g \<le> x \<and> x < g + int (length data) then data ! nat (x - g) else t x)"

definition pos_ok :: "nat \<Rightarrow> log_pos \<Rightarrow> bool" where
  "pos_ok sz pos \<longleftrightarrow> snd pos < sz \<and> MAX_ALIGNMENT dvd snd pos"

lemma tape_write_Nil [simp]: "tape_write g [] t = t"
  by (rule ext) (auto simp: tape_write_def)

lemma tape_write_append: "tape_write (g + int (length a)) b (tape_write g a t) = tape_write g (a @ b) t"
proof (rule ext)
  fix x
  have "nat (x - (g + int (length a))) = nat (x - g) - length a" by simp
  then show "tape_write (g + int (length a)) b (tape_write g a t) x = tape_write g (a @ b) t x"
    by (auto simp: tape_write_def nth_append nat_less_iff zless_nat_eq_int_zless)
qed

lemma gpos_div_mod: "snd pos < sz \<Longrightarrow> gpos sz pos div int sz = fst pos \<and> gpos sz pos mod int sz = int (snd pos)"
  by (cases pos) (simp add: gpos_def)

lemma gpos_inj: "snd a < sz \<Longrightarrow> snd b < sz \<Longrightarrow> gpos sz a = gpos sz b \<Longrightarrow> a = b"
  using gpos_div_mod [of a sz] gpos_div_mod [of b sz] by (cases a; cases b) auto

lemma gpos_next [simp]: "gpos sz (p + 1, 0) = gpos sz (p, sz)"
  by (simp add: gpos_def algebra_simps)

lemma gpos_add: "gpos sz (p, k + n) = gpos sz (p, k) + int n"
  by (simp add: gpos_def)

text \<open>Reading the tape as the applier does.\<close>

lemma log_byte_tape:
  assumes "0 < sz"
  shows "log_byte pages sz p off = tape sz pages (gpos sz (p, off))"
proof -
  have "(p * int sz + int off) div int sz = p + int (off div sz)" using assms by (simp add: zdiv_int)
  moreover have "(p * int sz + int off) mod int sz = int (off mod sz)" using assms by (simp add: zmod_int)
  ultimately show ?thesis by (simp add: log_byte_def tape_def gpos_def)
qed

lemma log_bytes_tape:
  assumes "0 < sz"
  shows "log_bytes pages sz p off n = map (\<lambda>k. tape sz pages (gpos sz (p, off) + int k)) [0..<n]"
  using log_byte_tape [OF assms] by (simp add: log_bytes_def gpos_add)

section \<open>What a step writes\<close>

abbreviation (input) hdr_of :: "log_page \<Rightarrow> log_pageid \<times> int" where
  "hdr_of pg \<equiv> (lp_logical_pageid pg, lp_offset pg)"

text \<open>
  \<open>wrote sz g data gl gl'\<close>: from \<open>gl\<close> to \<open>gl'\<close> the bytes \<open>data\<close> were written at
  \<open>g\<close> on the tape and nothing else, and the pages entered on the way were
  opened.
\<close>

definition wrote :: "nat \<Rightarrow> int \<Rightarrow> byte list \<Rightarrow> log_gl \<Rightarrow> log_gl \<Rightarrow> bool" where
  "wrote sz g data gl gl' \<longleftrightarrow>
     tape sz (gl_pages gl') = tape_write g data (tape sz (gl_pages gl)) \<and>
     (\<forall>q. length (lp_area (gl_pages gl' q)) = length (lp_area (gl_pages gl q))) \<and>
     fst (gl_append gl) \<le> fst (gl_append gl') \<and>
     (\<forall>q. hdr_of (gl_pages gl' q) =
        (if fst (gl_append gl) < q \<and> q \<le> fst (gl_append gl') then (q, NULL_OFFSET) else hdr_of (gl_pages gl q))) \<and>
     gl_prev_lsa gl' = gl_prev_lsa gl \<and> gl_eof_lsa gl' = gl_eof_lsa gl \<and> gl_create_ok gl' = gl_create_ok gl"

definition areas_ok :: "nat \<Rightarrow> log_gl \<Rightarrow> bool" where
  "areas_ok sz gl \<longleftrightarrow> (\<forall>q. length (lp_area (gl_pages gl q)) = sz \<and> gl_create_ok gl q) \<and>
     (\<forall>q \<le> fst (gl_append gl). lp_logical_pageid (gl_pages gl q) = q)"

lemma wrote_areas: "wrote sz g data gl gl' \<Longrightarrow> areas_ok sz gl \<Longrightarrow> areas_ok sz gl'"
  unfolding wrote_def areas_ok_def by (metis not_le prod.inject)

lemma wrote_refl [simp]: "wrote sz g [] gl gl"
  by (simp add: wrote_def)

lemma wrote_move [simp]: "fst pos = fst (gl_append gl) \<Longrightarrow> wrote sz g [] gl (gl\<lparr>gl_append := pos\<rparr>)"
  by (simp add: wrote_def)

lemma wrote_trans:
  assumes "wrote sz g a gl gl1" and "wrote sz h b gl1 gl2" and "b = [] \<or> h = g + int (length a)"
  shows "wrote sz g (a @ b) gl gl2"
proof -
  have "tape_write h b (tape_write g a t) = tape_write g (a @ b) t" for t
    using assms(3) tape_write_append [of g a b t] by auto
  moreover have "hdr_of (gl_pages gl2 q) =
      (if fst (gl_append gl) < q \<and> q \<le> fst (gl_append gl2) then (q, NULL_OFFSET) else hdr_of (gl_pages gl q))" for q
  proof -
    have "fst (gl_append gl) \<le> fst (gl_append gl1)" "fst (gl_append gl1) \<le> fst (gl_append gl2)"
      using assms(1,2) by (simp_all add: wrote_def)
    moreover have "hdr_of (gl_pages gl2 q) =
        (if fst (gl_append gl1) < q \<and> q \<le> fst (gl_append gl2) then (q, NULL_OFFSET) else hdr_of (gl_pages gl1 q))"
      and "hdr_of (gl_pages gl1 q) =
        (if fst (gl_append gl) < q \<and> q \<le> fst (gl_append gl1) then (q, NULL_OFFSET) else hdr_of (gl_pages gl q))"
      using assms(1,2) unfolding wrote_def by blast+
    ultimately show ?thesis by (cases "fst (gl_append gl1) < q") auto
  qed
  ultimately show ?thesis using assms(1,2) unfolding wrote_def by auto
qed

lemma wrote_move_trans:
  "wrote sz g [] gl gl1 \<Longrightarrow> wrote sz h b gl1 gl2 \<Longrightarrow> wrote sz h b gl gl2"
  "wrote sz h b gl gl1 \<Longrightarrow> wrote sz g [] gl1 gl2 \<Longrightarrow> wrote sz h b gl gl2"
  using wrote_trans [of sz h "[]" gl gl1 h b gl2] wrote_trans [of sz h b gl gl1 g "[]" gl2] by (simp_all add: wrote_def)

lemma next_append_page:
  assumes "areas_ok sz gl"
  obtains gl' where "logpb_next_append_page gl = Some gl'" "gl_append gl' = (fst (gl_append gl) + 1, 0)"
    "wrote sz g [] gl gl'" "areas_ok sz gl'"
proof -
  define p where "p = fst (gl_append gl) + 1"
  define gl' where "gl' = gl\<lparr>gl_append := (p, 0),
     gl_pages := (gl_pages gl)(p := (gl_pages gl p)\<lparr>lp_logical_pageid := p, lp_offset := NULL_OFFSET\<rparr>)\<rparr>"
  have "logpb_next_append_page gl = Some gl'"
    using assms by (simp add: logpb_next_append_page_def logpb_create_def areas_ok_def gl'_def p_def)
  moreover have "tape sz (gl_pages gl') = tape sz (gl_pages gl)"
    by (rule ext) (simp add: tape_def gl'_def)
  then have w: "wrote sz g [] gl gl'" by (auto simp: wrote_def gl'_def p_def)
  moreover have "areas_ok sz gl'" using wrote_areas [OF w assms] .
  ultimately show thesis using that by (simp add: gl'_def p_def)
qed

lemma memcpy_wrote:
  assumes "areas_ok sz gl" and "0 < sz" and "snd (gl_append gl) + length bs \<le> sz"
  shows "wrote sz (gpos sz (gl_append gl)) bs gl (gl_memcpy bs gl)"
proof -
  obtain p off where pos: "gl_append gl = (p, off)" by (cases "gl_append gl")
  let ?A = "lp_area (gl_pages gl p)"
  have A: "length ?A = sz" using assms(1) by (simp add: areas_ok_def)
  have len: "length (wr_at off bs ?A) = sz" using A assms(3) pos by (simp add: wr_at_def)
  have "tape sz (gl_pages (gl_memcpy bs gl)) x = tape_write (gpos sz (p, off)) bs (tape sz (gl_pages gl)) x" for x
  proof (cases "x div int sz = p")
    case True
    define i where "i = nat (x mod int sz)"
    have i: "i < sz" "x = p * int sz + int i" using assms(2) True by (auto simp: i_def nat_less_iff)
    have "wr_at off bs ?A ! i = (if off \<le> i \<and> i < off + length bs then bs ! (i - off) else ?A ! i)"
      using i(1) A assms(3) pos by (auto simp: wr_at_def nth_append)
    moreover have "nat (x - (p * int sz + int off)) = i - off" using i(2) by simp
    moreover have "tape sz (gl_pages gl) x = ?A ! i" using True by (simp add: tape_def i_def)
    moreover have "tape sz (gl_pages (gl_memcpy bs gl)) x = wr_at off bs ?A ! i"
      using True by (simp add: tape_def gl_memcpy_def pos Let_def i_def)
    ultimately show ?thesis using i(2) by (simp add: tape_write_def gpos_def)
  next
    case False
    have "\<not> (p * int sz + int off \<le> x \<and> x < p * int sz + int off + int (length bs))"
    proof
      assume "p * int sz + int off \<le> x \<and> x < p * int sz + int off + int (length bs)"
      then have "p * int sz \<le> x" "x < (p + 1) * int sz" using assms(3) pos by (auto simp: algebra_simps)
      then have "x div int sz = p" using assms(2) by (intro int_div_pos_eq [of _ _ _ "x - p * int sz"]) (auto simp: algebra_simps)
      with False show False by simp
    qed
    then show ?thesis using False by (auto simp: tape_def gl_memcpy_def pos Let_def tape_write_def gpos_def)
  qed
  then have "tape sz (gl_pages (gl_memcpy bs gl)) = tape_write (gpos sz (p, off)) bs (tape sz (gl_pages gl))" by (rule ext)
  then show ?thesis using A len pos by (auto simp: wrote_def gl_memcpy_def Let_def)
qed

section \<open>Both passes compute the same positions\<close>

text \<open>Aligning moves to the next multiple of eight on the tape.\<close>

definition align8 :: "int \<Rightarrow> int" where
  "align8 g = (g + 7) div 8 * 8"

lemma align8_id: "8 dvd g \<Longrightarrow> align8 g = g"
  unfolding align8_def by presburger

lemma gpos_aligned: "MAX_ALIGNMENT dvd sz \<Longrightarrow> pos_ok sz pos \<Longrightarrow> 8 dvd gpos sz pos"
  by (auto simp: gpos_def pos_ok_def elim!: dvdE)

lemma align_int: "int (DB_ALIGN x 8) = align8 (int x)"
  by (simp add: DB_ALIGN_def align8_def zdiv_int)

lemma align8_add: "8 dvd k \<Longrightarrow> align8 (k + g) = k + align8 g"
  unfolding align8_def by presburger

lemma prior_align:
  assumes "MAX_ALIGNMENT dvd sz" and "0 < sz" and "snd pos \<le> sz"
  shows "pos_ok sz (LOG_PRIOR_LSA_APPEND_ALIGN sz pos)" and "gpos sz (LOG_PRIOR_LSA_APPEND_ALIGN sz pos) = align8 (gpos sz pos)"
proof -
  obtain p off where pos: "pos = (p, off)" by (cases pos)
  let ?a = "DB_ALIGN off MAX_ALIGNMENT"
  have le: "?a \<le> sz"
  proof -
    obtain k where k: "sz = 8 * k" using assms(1) by (auto simp: dvd_def)
    have "DB_ALIGN off 8 = (off + 7) div 8 * 8" by (simp add: DB_ALIGN_def)
    moreover have "(off + 7) div 8 \<le> k" using assms(3) pos k by simp
    ultimately show ?thesis using k by simp
  qed
  have "8 dvd p * int sz" using assms(1) by (auto elim!: dvdE)
  then have g: "align8 (gpos sz (p, off)) = gpos sz (p, ?a)" by (simp add: gpos_def align8_add align_int)
  show "pos_ok sz (LOG_PRIOR_LSA_APPEND_ALIGN sz pos)"
    using assms(2) DB_ALIGN_dvd [of 8 off] by (simp add: LOG_PRIOR_LSA_APPEND_ALIGN_def pos pos_ok_def Let_def)
  show "gpos sz (LOG_PRIOR_LSA_APPEND_ALIGN sz pos) = align8 (gpos sz pos)"
    using le g by (simp add: LOG_PRIOR_LSA_APPEND_ALIGN_def pos Let_def)
qed

lemma append_align:
  assumes "areas_ok sz gl"
  obtains gl' where "LOG_APPEND_ALIGN sz gl = Some gl'"
    "gl_append gl' = LOG_PRIOR_LSA_APPEND_ALIGN sz (gl_append gl)" "wrote sz g [] gl gl'" "areas_ok sz gl'"
proof -
  define a where "a = DB_ALIGN (snd (gl_append gl)) MAX_ALIGNMENT"
  define gl1 where "gl1 = gl\<lparr>gl_append := (fst (gl_append gl), a)\<rparr>"
  have w: "wrote sz g [] gl gl1" by (simp add: gl1_def)
  then have ok: "areas_ok sz gl1" using assms by (rule wrote_areas)
  show thesis
  proof (cases "sz \<le> a")
    case True
    from next_append_page [OF ok, of g] obtain gl' where n: "logpb_next_append_page gl1 = Some gl'"
      "gl_append gl' = (fst (gl_append gl1) + 1, 0)" "wrote sz g [] gl1 gl'" "areas_ok sz gl'" .
    then show thesis using that [of gl'] True wrote_move_trans(1) [OF w n(3)]
      by (simp add: LOG_APPEND_ALIGN_def LOG_PRIOR_LSA_APPEND_ALIGN_def Let_def a_def [symmetric] gl1_def)
  next
    case False
    then show thesis using that [of gl1] w ok
      by (simp add: LOG_APPEND_ALIGN_def LOG_PRIOR_LSA_APPEND_ALIGN_def Let_def a_def [symmetric] gl1_def)
  qed
qed

lemma append_advance:
  assumes "areas_ok sz gl"
  obtains gl' where "LOG_APPEND_ADVANCE_WHEN_DOESNOT_FIT sz n gl = Some gl'"
    "gl_append gl' = LOG_PRIOR_LSA_APPEND_ADVANCE_WHEN_DOESNOT_FIT sz n (gl_append gl)" "wrote sz g [] gl gl'" "areas_ok sz gl'"
proof (cases "sz \<le> snd (gl_append gl) + n")
  case True
  from next_append_page [OF assms, of g] obtain gl' where "logpb_next_append_page gl = Some gl'"
    "gl_append gl' = (fst (gl_append gl) + 1, 0)" "wrote sz g [] gl gl'" "areas_ok sz gl'" .
  then show thesis using that [of gl'] True
    by (simp add: LOG_APPEND_ADVANCE_WHEN_DOESNOT_FIT_def LOG_PRIOR_LSA_APPEND_ADVANCE_WHEN_DOESNOT_FIT_def)
next
  case False
  then show thesis using that [of gl] assms
    by (simp add: LOG_APPEND_ADVANCE_WHEN_DOESNOT_FIT_def LOG_PRIOR_LSA_APPEND_ADVANCE_WHEN_DOESNOT_FIT_def)
qed

text \<open>The loops over pages end, the first at the place the second writes up to.\<close>

lemma prior_loop:
  assumes "0 < sz" and "snd pos \<le> sz"
  shows "\<exists>pos'. prior_append_loop sz n pos = Some pos' \<and> snd pos' \<le> sz \<and> gpos sz pos' = gpos sz pos + int n"
  using assms(2)
proof (induction n arbitrary: pos rule: less_induct)
  case (less n)
  show ?case
  proof (cases "n = 0")
    case True
    with less.prems show ?thesis by (subst prior_append_loop.simps) simp
  next
    case False
    define pos1 where "pos1 = (if sz \<le> snd pos then (fst pos + 1, 0) else pos)"
    define c where "c = (if sz \<le> snd pos1 + n then sz - snd pos1 else n)"
    have p1: "snd pos1 < sz" "gpos sz pos1 = gpos sz pos"
      using less.prems assms(1) by (auto simp: pos1_def gpos_def algebra_simps)
    have c: "0 < c" "c \<le> n" "snd pos1 + c \<le> sz" using p1 False by (auto simp: c_def)
    have step: "prior_append_loop sz n pos = prior_append_loop sz (n - c) (fst pos1, snd pos1 + c)"
      using False by (subst prior_append_loop.simps) (simp add: Let_def c_def pos1_def)
    have "gpos sz (fst pos1, snd pos1 + c) = gpos sz pos + int c" using p1(2) by (simp add: gpos_def)
    then show ?thesis unfolding step using less.IH [of "n - c" "(fst pos1, snd pos1 + c)"] c False by auto
  qed
qed

lemma append_loop:
  assumes "0 < sz" and "areas_ok sz gl" and "snd (gl_append gl) \<le> sz"
  shows "\<exists>gl'. logpb_append_loop sz data gl = Some gl' \<and> snd (gl_append gl') \<le> sz \<and> areas_ok sz gl' \<and>
    gpos sz (gl_append gl') = gpos sz (gl_append gl) + int (length data) \<and> wrote sz (gpos sz (gl_append gl)) data gl gl'"
  using assms(2,3)
proof (induction "length data" arbitrary: data gl rule: less_induct)
  case less
  show ?case
  proof (cases "data = []")
    case True
    with less.prems show ?thesis by (subst logpb_append_loop.simps) simp
  next
    case False
    let ?g = "gpos sz (gl_append gl)"
    obtain gl1 where g1: "(if sz \<le> snd (gl_append gl) then logpb_next_append_page gl else Some gl) = Some gl1"
      "snd (gl_append gl1) < sz" "gpos sz (gl_append gl1) = ?g" "wrote sz ?g [] gl gl1" "areas_ok sz gl1"
    proof (cases "sz \<le> snd (gl_append gl)")
      case True
      with less.prems have "snd (gl_append gl) = sz" by simp
      moreover from next_append_page [OF less.prems(1), of ?g] obtain gl1 where "logpb_next_append_page gl = Some gl1"
        "gl_append gl1 = (fst (gl_append gl) + 1, 0)" "wrote sz ?g [] gl gl1" "areas_ok sz gl1" .
      ultimately show thesis using that [of gl1] True assms(1) by (simp add: gpos_def algebra_simps)
    next
      case False
      then show thesis using that [of gl] less.prems by simp
    qed
    define c where "c = (if sz \<le> snd (gl_append gl1) + length data then sz - snd (gl_append gl1) else length data)"
    have c: "0 < c" "c \<le> length data" "snd (gl_append gl1) + c \<le> sz" using g1(2) False by (auto simp: c_def)
    define gl2 where "gl2 = gl_advance c (gl_memcpy (take c data) gl1)"
    have m: "wrote sz ?g (take c data) gl1 (gl_memcpy (take c data) gl1)"
      using memcpy_wrote [OF g1(5) assms(1), of "take c data"] c g1(3) by (simp add: min_absorb2)
    have "wrote sz ?g [] (gl_memcpy (take c data) gl1) gl2" by (simp add: gl2_def gl_advance_def)
    from wrote_move_trans(2) [OF wrote_move_trans(1) [OF g1(4) m] this] have w: "wrote sz ?g (take c data) gl gl2" .
    have a2: "gl_append gl2 = (fst (gl_append gl1), snd (gl_append gl1) + c)"
      by (simp add: gl2_def gl_advance_def gl_memcpy_def Let_def)
    then have g2: "gpos sz (gl_append gl2) = ?g + int c" using g1(3) by (simp add: gpos_def)
    have step: "logpb_append_loop sz data gl = logpb_append_loop sz (drop c data) gl2"
      using False g1(1) by (subst logpb_append_loop.simps) (simp add: Let_def c_def gl2_def)
    have shorter: "length (drop c data) < length data" using c by simp
    obtain gl' where r: "logpb_append_loop sz (drop c data) gl2 = Some gl'" "snd (gl_append gl') \<le> sz" "areas_ok sz gl'"
      "gpos sz (gl_append gl') = gpos sz (gl_append gl2) + int (length (drop c data))"
      "wrote sz (gpos sz (gl_append gl2)) (drop c data) gl2 gl'"
      using less.hyps [OF shorter, of gl2] wrote_areas [OF w less.prems(1)] c a2 by auto
    have "wrote sz ?g (take c data @ drop c data) gl gl'"
      using wrote_trans [OF w r(5)] g2 c by simp
    then show ?thesis unfolding step using r g2 c by auto
  qed
qed

definition pos_of :: "nat \<Rightarrow> int \<Rightarrow> log_pos" where
  "pos_of sz g = (g div int sz, nat (g mod int sz))"

lemma pos_of_gpos: "snd pos < sz \<Longrightarrow> pos_of sz (gpos sz pos) = pos"
  using gpos_div_mod [of pos sz] by (simp add: pos_of_def)

lemma gpos_pos_of: "0 < sz \<Longrightarrow> gpos sz (pos_of sz g) = g"
  by (simp add: pos_of_def gpos_def)

lemma pos_of_eq: "0 < sz \<Longrightarrow> snd pos < sz \<Longrightarrow> gpos sz pos = g \<Longrightarrow> pos = pos_of sz g"
  using pos_of_gpos by metis

lemma pos_ok_pos_of:
  assumes "MAX_ALIGNMENT dvd sz" and "0 < sz"
  shows "pos_ok sz (pos_of sz (align8 g))"
proof -
  have "8 dvd align8 g" by (simp add: align8_def)
  moreover have "8 dvd int sz" using assms(1) by presburger
  ultimately have "8 dvd align8 g mod int sz" by (simp add: dvd_mod)
  then have "int 8 dvd int (nat (align8 g mod int sz))" using assms(2) by simp
  then have "8 dvd nat (align8 g mod int sz)" by (simp only: int_dvd_int_iff)
  then show ?thesis using assms(2) by (simp add: pos_ok_def pos_of_def nat_less_iff)
qed

lemma align_pos_ok:
  assumes "MAX_ALIGNMENT dvd sz" and "pos_ok sz pos"
  shows "LOG_PRIOR_LSA_APPEND_ALIGN sz pos = pos"
  using assms by (cases pos) (simp add: LOG_PRIOR_LSA_APPEND_ALIGN_def pos_ok_def DB_ALIGN_id)

lemma align_to:
  assumes "MAX_ALIGNMENT dvd sz" and "0 < sz" and "snd pos \<le> sz"
  shows "LOG_PRIOR_LSA_APPEND_ALIGN sz pos = pos_of sz (align8 (gpos sz pos))"
  using prior_align [OF assms] by (intro pos_of_eq assms(2)) (simp_all add: pos_ok_def)

lemma prior_append_data:
  assumes "MAX_ALIGNMENT dvd sz" and "0 < sz" and "pos_ok sz pos"
  shows "prior_lsa_append_data sz n pos = Some (pos_of sz (align8 (gpos sz pos + int n)))"
proof (cases "n = 0")
  case True
  then show ?thesis using assms pos_of_gpos [of pos sz] gpos_aligned [OF assms(1,3)]
    by (simp add: prior_lsa_append_data_def pos_ok_def align8_id)
next
  case False
  obtain pos' where "prior_append_loop sz n pos = Some pos'" "snd pos' \<le> sz" "gpos sz pos' = gpos sz pos + int n"
    using prior_loop [OF assms(2), of pos n] assms(3) by (auto simp: pos_ok_def)
  moreover have "gpos sz (fst pos, snd pos + n) = gpos sz pos + int n" by (simp add: gpos_def)
  ultimately show ?thesis using False align_to [OF assms(1,2)] align_pos_ok [OF assms(1,3)]
    by (simp add: prior_lsa_append_data_def Let_def)
qed

lemma append_data:
  assumes "MAX_ALIGNMENT dvd sz" and "0 < sz" and "pos_ok sz (gl_append gl)" and "areas_ok sz gl"
  obtains gl' where "logpb_append_data sz data gl = Some gl'"
    "gl_append gl' = pos_of sz (align8 (gpos sz (gl_append gl) + int (length data)))"
    "wrote sz (gpos sz (gl_append gl)) data gl gl'" "areas_ok sz gl'"
proof (cases "data = []")
  case True
  then show thesis using that [of gl] assms pos_of_gpos [of "gl_append gl" sz] gpos_aligned [OF assms(1,3)]
    by (simp add: logpb_append_data_def pos_ok_def align8_id)
next
  case False
  let ?g = "gpos sz (gl_append gl)"
  have o: "snd (gl_append gl) < sz" using assms(3) by (simp add: pos_ok_def)
  from append_align [OF assms(4), of ?g] obtain gl1 where 1: "LOG_APPEND_ALIGN sz gl = Some gl1"
    "gl_append gl1 = gl_append gl" "wrote sz ?g [] gl gl1" "areas_ok sz gl1"
    using align_pos_ok [OF assms(1,3)] by metis
  obtain gl2 where 2: "(if sz \<le> snd (gl_append gl1) + length data then logpb_append_loop sz data gl1
        else Some (gl_advance (length data) (gl_memcpy data gl1))) = Some gl2"
    "snd (gl_append gl2) \<le> sz" "gpos sz (gl_append gl2) = ?g + int (length data)" "wrote sz ?g data gl1 gl2"
  proof (cases "sz \<le> snd (gl_append gl1) + length data")
    case True
    then show thesis using that append_loop [OF assms(2) 1(4), of data] 1(2) o by auto
  next
    case False
    define gl2 where "gl2 = gl_advance (length data) (gl_memcpy data gl1)"
    have "wrote sz ?g data gl1 (gl_memcpy data gl1)"
      using memcpy_wrote [OF 1(4) assms(2), of data] False 1(2) by simp
    moreover have "wrote sz ?g [] (gl_memcpy data gl1) gl2" by (simp add: gl2_def gl_advance_def)
    ultimately have "wrote sz ?g data gl1 gl2" by (rule wrote_move_trans(2))
    moreover have "gl_append gl2 = (fst (gl_append gl), snd (gl_append gl) + length data)"
      using 1(2) by (simp add: gl2_def gl_advance_def gl_memcpy_def Let_def)
    ultimately show thesis using that [of gl2] False 1(2) by (simp add: gl2_def [symmetric] gpos_def)
  qed
  from append_align [OF wrote_areas [OF 2(4) 1(4)], of ?g] obtain gl3 where 3: "LOG_APPEND_ALIGN sz gl2 = Some gl3"
    "gl_append gl3 = LOG_PRIOR_LSA_APPEND_ALIGN sz (gl_append gl2)" "wrote sz ?g [] gl2 gl3" "areas_ok sz gl3" .
  have "wrote sz ?g data gl gl3" using wrote_move_trans(2) [OF wrote_move_trans(1) [OF 1(3) 2(4)] 3(3)] .
  then show thesis using that [of gl3] False 1 2 3 align_to [OF assms(1,2) 2(2)] by (simp add: logpb_append_data_def)
qed

section \<open>One record\<close>

text \<open>Where the parts of a record go whose header is at \<open>pos\<close>.\<close>

definition rec_header_pos :: "nat \<Rightarrow> nat \<Rightarrow> log_pos \<Rightarrow> log_pos" where
  "rec_header_pos sz hl pos =
     LOG_PRIOR_LSA_APPEND_ADVANCE_WHEN_DOESNOT_FIT sz hl (LOG_PRIOR_LSA_APPEND_ADD_ALIGN sz SIZEOF_LOG_RECORD_HEADER pos)"

definition rec_udata_at :: "nat \<Rightarrow> nat \<Rightarrow> log_pos \<Rightarrow> int" where
  "rec_udata_at sz hl pos = align8 (gpos sz (rec_header_pos sz hl pos) + int hl)"

definition rec_rdata_at :: "nat \<Rightarrow> nat \<Rightarrow> nat \<Rightarrow> log_pos \<Rightarrow> int" where
  "rec_rdata_at sz hl ul pos = align8 (rec_udata_at sz hl pos + int ul)"

definition rec_end :: "nat \<Rightarrow> nat \<Rightarrow> nat \<Rightarrow> nat \<Rightarrow> log_pos \<Rightarrow> log_pos" where
  "rec_end sz hl ul rl pos =
     LOG_PRIOR_LSA_APPEND_ADVANCE_WHEN_DOESNOT_FIT sz SIZEOF_LOG_RECORD_HEADER (pos_of sz (align8 (rec_rdata_at sz hl ul pos + int rl)))"

text \<open>A position at which a record can start: its header fits.\<close>

definition rec_ok :: "nat \<Rightarrow> log_pos \<Rightarrow> bool" where
  "rec_ok sz pos \<longleftrightarrow> pos_ok sz pos \<and> snd pos + SIZEOF_LOG_RECORD_HEADER < sz"

text \<open>The page areas: a multiple of the alignment, with room for a record header.\<close>

definition area_size_ok :: "nat \<Rightarrow> bool" where
  "area_size_ok sz \<longleftrightarrow> MAX_ALIGNMENT dvd sz \<and> SIZEOF_LOG_RECORD_HEADER < sz"

lemma area_size_okD: "area_size_ok sz \<Longrightarrow> MAX_ALIGNMENT dvd sz" "area_size_ok sz \<Longrightarrow> 0 < sz"
  by (simp_all add: area_size_ok_def)

lemma align8_ge: "g \<le> align8 g"
  unfolding align8_def by presburger

lemma advance_pos_ok: "0 < sz \<Longrightarrow> pos_ok sz pos \<Longrightarrow> pos_ok sz (LOG_PRIOR_LSA_APPEND_ADVANCE_WHEN_DOESNOT_FIT sz n pos)"
  by (simp add: LOG_PRIOR_LSA_APPEND_ADVANCE_WHEN_DOESNOT_FIT_def pos_ok_def)

lemma advance_gpos_ge:
  "snd pos \<le> sz \<Longrightarrow> gpos sz pos \<le> gpos sz (LOG_PRIOR_LSA_APPEND_ADVANCE_WHEN_DOESNOT_FIT sz n pos)"
  by (cases pos) (simp add: LOG_PRIOR_LSA_APPEND_ADVANCE_WHEN_DOESNOT_FIT_def gpos_def algebra_simps)

lemma advance_fits:
  "n < sz \<Longrightarrow> snd (LOG_PRIOR_LSA_APPEND_ADVANCE_WHEN_DOESNOT_FIT sz n pos) + n < sz"
  by (simp add: LOG_PRIOR_LSA_APPEND_ADVANCE_WHEN_DOESNOT_FIT_def)

lemma advance_rec_ok: "rec_ok sz pos \<Longrightarrow> LOG_PRIOR_LSA_APPEND_ADVANCE_WHEN_DOESNOT_FIT sz SIZEOF_LOG_RECORD_HEADER pos = pos"
  by (simp add: LOG_PRIOR_LSA_APPEND_ADVANCE_WHEN_DOESNOT_FIT_def rec_ok_def)

lemma rec_end_ok:
  assumes "area_size_ok sz"
  shows "rec_ok sz (rec_end sz hl ul rl pos)"
proof -
  have "pos_ok sz (pos_of sz (align8 (rec_rdata_at sz hl ul pos + int rl)))"
    using pos_ok_pos_of assms by (simp add: area_size_ok_def)
  from advance_pos_ok [OF _ this, of 32] advance_fits [of 32 sz] assms show ?thesis
    by (simp add: rec_ok_def rec_end_def area_size_ok_def)
qed

text \<open>The first part of a record: the header and the position behind it.\<close>

lemma add_align:
  assumes "MAX_ALIGNMENT dvd sz" and "0 < sz" and "snd pos + n \<le> sz"
  shows "pos_ok sz (LOG_PRIOR_LSA_APPEND_ADD_ALIGN sz n pos)"
    and "LOG_PRIOR_LSA_APPEND_ADD_ALIGN sz n pos = pos_of sz (align8 (gpos sz pos + int n))"
proof -
  have "gpos sz (fst pos, snd pos + n) = gpos sz pos + int n" by (simp add: gpos_def)
  then show "pos_ok sz (LOG_PRIOR_LSA_APPEND_ADD_ALIGN sz n pos)"
    and "LOG_PRIOR_LSA_APPEND_ADD_ALIGN sz n pos = pos_of sz (align8 (gpos sz pos + int n))"
    using prior_align(1) [OF assms(1,2), of "(fst pos, snd pos + n)"] align_to [OF assms(1,2), of "(fst pos, snd pos + n)"] assms(3)
    by (simp_all add: LOG_PRIOR_LSA_APPEND_ADD_ALIGN_def)
qed

lemma rec_header_pos_ok:
  assumes "area_size_ok sz" and "rec_ok sz pos"
  shows "pos_ok sz (rec_header_pos sz hl pos)"
  unfolding rec_header_pos_def
  by (intro advance_pos_ok add_align(1)) (use assms in \<open>auto simp: area_size_ok_def rec_ok_def\<close>)

lemma rec_header_after:
  assumes "area_size_ok sz" and "rec_ok sz pos"
  shows "gpos sz pos + int SIZEOF_LOG_RECORD_HEADER \<le> gpos sz (rec_header_pos sz hl pos)"
proof -
  let ?q = "LOG_PRIOR_LSA_APPEND_ADD_ALIGN sz SIZEOF_LOG_RECORD_HEADER pos"
  have q: "pos_ok sz ?q" "?q = pos_of sz (align8 (gpos sz pos + 32))"
    using add_align [of sz pos 32] assms by (simp_all add: area_size_ok_def rec_ok_def)
  then have "gpos sz pos + 32 \<le> gpos sz ?q"
    using align8_ge [of "gpos sz pos + 32"] gpos_pos_of [of sz] assms(1) by (simp add: area_size_ok_def)
  also have "gpos sz ?q \<le> gpos sz (rec_header_pos sz hl pos)"
    unfolding rec_header_pos_def using q(1) by (intro advance_gpos_ge) (simp add: pos_ok_def)
  finally show ?thesis by simp
qed

definition td_appended :: "log_pos \<Rightarrow> 'z log_tdes_scheme \<Rightarrow> 'z log_tdes_scheme" where
  "td_appended pos td = td\<lparr>td_tail_lsa := lsa_of pos, td_undo_nxlsa := lsa_of pos,
     td_head_lsa := (if LSA_ISNULL (td_head_lsa td) then lsa_of pos else td_head_lsa td)\<rparr>"

lemma prior_next_record:
  assumes "area_size_ok sz" and "rec_ok sz (pi_prior_lsa pi)" and "length (pn_data_header node) < sz"
    and "hl = length (pn_data_header node)" and "ul = length (pn_udata node)" and "rl = length (pn_rdata node)"
    and "e = rec_end sz hl ul rl (pi_prior_lsa pi)"
    and "node' = node\<lparr>pn_start_lsa := lsa_of (pi_prior_lsa pi), pn_log_header := (pn_log_header node)
        \<lparr>lr_trid := td_trid td, lr_prev_tranlsa := td_tail_lsa td, lr_back_lsa := pi_prev_lsa pi, lr_forw_lsa := lsa_of e\<rparr>\<rparr>"
  shows "prior_lsa_next_record_internal sz node td pi = Some (lsa_of (pi_prior_lsa pi), td_appended (pi_prior_lsa pi) td,
      \<lparr>pi_prior_lsa = e, pi_prev_lsa = lsa_of (pi_prior_lsa pi), pi_list = pi_list pi @ [node']\<rparr>)"
proof -
  note sz = area_size_okD [OF assms(1)]
  define pos where "pos = pi_prior_lsa pi"
  have P: "rec_ok sz pos" using assms(2) by (simp add: pos_def)
  define q where "q = LOG_PRIOR_LSA_APPEND_ADD_ALIGN sz hl (rec_header_pos sz hl pos)"
  have "snd (rec_header_pos sz hl pos) + hl \<le> sz"
    unfolding rec_header_pos_def using advance_fits [of hl sz] assms(3,4) by (meson less_imp_le)
  from add_align [OF sz this] have q: "pos_ok sz q" "q = pos_of sz (rec_udata_at sz hl pos)"
    by (simp_all add: q_def rec_udata_at_def)
  have q1: "prior_lsa_append_data sz ul q = Some (pos_of sz (rec_rdata_at sz hl ul pos))"
    using prior_append_data [OF sz q(1)] q(2) gpos_pos_of [OF sz(2)] by (simp add: rec_rdata_at_def)
  have q2: "pos_ok sz (pos_of sz (rec_rdata_at sz hl ul pos))"
    using pos_ok_pos_of [OF sz] by (simp add: rec_rdata_at_def)
  have q3: "prior_lsa_append_data sz rl (pos_of sz (rec_rdata_at sz hl ul pos)) =
      Some (pos_of sz (align8 (rec_rdata_at sz hl ul pos + int rl)))"
    using prior_append_data [OF sz q2] gpos_pos_of [OF sz(2)] by simp
  have q4: "LOG_PRIOR_LSA_APPEND_ALIGN sz (pos_of sz (align8 (rec_rdata_at sz hl ul pos + int rl))) =
      pos_of sz (align8 (rec_rdata_at sz hl ul pos + int rl))"
    using align_pos_ok [OF sz(1)] pos_ok_pos_of [OF sz] by blast
  have n: "pn_udata node = [] \<longleftrightarrow> ul = 0" "pn_rdata node = [] \<longleftrightarrow> rl = 0" using assms(5,6) by auto
  have z: "prior_lsa_append_data sz 0 r = Some r" for r by (simp add: prior_lsa_append_data_def)
  have u: "(if pn_udata node \<noteq> [] then prior_lsa_append_data sz ul q else Some q) = Some (pos_of sz (rec_rdata_at sz hl ul pos))"
    using q1 n(1) z by (cases "ul = 0") simp_all
  have r: "(if pn_rdata node \<noteq> [] then prior_lsa_append_data sz rl (pos_of sz (rec_rdata_at sz hl ul pos))
      else Some (pos_of sz (rec_rdata_at sz hl ul pos))) = Some (pos_of sz (align8 (rec_rdata_at sz hl ul pos + int rl)))"
    using q3 n(2) z by (cases "rl = 0") simp_all
  show ?thesis
    using u r q4 advance_rec_ok [OF P]
    unfolding assms(7,8) prior_lsa_next_record_internal_def prior_lsa_start_append_def prior_lsa_end_append_def Let_def
      pos_def [symmetric] q_def rec_header_pos_def rec_end_def assms(4-6) td_appended_def
    by (simp split del: if_split cong: if_cong)
qed

text \<open>Bytes on the tape, and that later writes behind them leave them.\<close>

definition on_tape :: "(int \<Rightarrow> byte) \<Rightarrow> int \<Rightarrow> byte list \<Rightarrow> bool" where
  "on_tape t g data \<longleftrightarrow> (\<forall>k < length data. t (g + int k) = data ! k)"

lemma on_tape_Nil [simp]: "on_tape t g []"
  by (simp add: on_tape_def)

lemma on_tape_write [simp]: "on_tape (tape_write g data t) g data"
  by (simp add: on_tape_def tape_write_def)

lemma on_tape_agree:
  "on_tape t g data \<Longrightarrow> g + int (length data) \<le> h \<Longrightarrow> (\<And>x. x < h \<Longrightarrow> t' x = t x) \<Longrightarrow> on_tape t' g data"
  by (simp add: on_tape_def)

lemma tape_write_below: "x < g \<Longrightarrow> tape_write g data t x = t x"
  by (simp add: tape_write_def)

text \<open>A record as the second pass leaves it on the tape.\<close>

definition node_on_tape :: "nat \<Rightarrow> (int \<Rightarrow> byte) \<Rightarrow> log_pos \<Rightarrow> log_prior_node \<Rightarrow> bool" where
  "node_on_tape sz t pos node \<longleftrightarrow>
     (let hl = length (pn_data_header node); ul = length (pn_udata node) in
      on_tape t (gpos sz pos) (wr_log_record_header (pn_log_header node)) \<and>
      on_tape t (gpos sz (rec_header_pos sz hl pos)) (pn_data_header node) \<and>
      on_tape t (rec_udata_at sz hl pos) (pn_udata node) \<and>
      on_tape t (rec_rdata_at sz hl ul pos) (pn_rdata node))"

text \<open>What a step of the second pass keeps of the tape and moves.\<close>

definition keeps_below :: "int \<Rightarrow> nat \<Rightarrow> log_gl \<Rightarrow> log_gl \<Rightarrow> bool" where
  "keeps_below g sz gl gl' \<longleftrightarrow> (\<forall>x < g. tape sz (gl_pages gl') x = tape sz (gl_pages gl) x)"

lemma wrote_keeps: "wrote sz g data gl gl' \<Longrightarrow> h \<le> g \<Longrightarrow> keeps_below h sz gl gl'"
  by (simp add: keeps_below_def wrote_def tape_write_below)

lemma wrote_on_tape: "wrote sz g data gl gl' \<Longrightarrow> on_tape (tape sz (gl_pages gl')) g data"
  by (simp add: wrote_def)

lemma wrote_prev: "wrote sz g data gl gl' \<Longrightarrow> gl_prev_lsa gl' = gl_prev_lsa gl"
  by (simp add: wrote_def)

lemma keeps_below_trans: "keeps_below g sz a b \<Longrightarrow> keeps_below h sz b c \<Longrightarrow> k \<le> g \<Longrightarrow> k \<le> h \<Longrightarrow> keeps_below k sz a c"
  by (simp add: keeps_below_def)

lemma keeps_on_tape:
  "keeps_below h sz gl gl' \<Longrightarrow> on_tape (tape sz (gl_pages gl)) g data \<Longrightarrow> g + int (length data) \<le> h \<Longrightarrow>
    on_tape (tape sz (gl_pages gl')) g data"
  by (simp add: keeps_below_def on_tape_agree)

lemma length_wr_log_record_header [simp]: "length (wr_log_record_header r) = 32"
  by (simp add: wr_log_record_header_def)

lemma start_append:
  assumes "area_size_ok sz" and "areas_ok sz gl" and "rec_ok sz (gl_append gl)" and "lr_back_lsa header = gl_prev_lsa gl"
    and "lr_type header \<noteq> LOG_END_OF_LOG"
  obtains gl' where "logpb_start_append sz header gl = Some gl'"
    "gl_append gl' = LOG_PRIOR_LSA_APPEND_ADD_ALIGN sz SIZEOF_LOG_RECORD_HEADER (gl_append gl)"
    "gl_prev_lsa gl' = lsa_of (gl_append gl)" "areas_ok sz gl'"
    "keeps_below (gpos sz (gl_append gl)) sz gl gl'"
    "on_tape (tape sz (gl_pages gl')) (gpos sz (gl_append gl)) (wr_log_record_header header)"
proof -
  define pos where "pos = gl_append gl"
  let ?g = "gpos sz pos" and ?h = "wr_log_record_header header"
  define gl2 where "gl2 = gl_memcpy ?h gl"
  have w: "wrote sz ?g ?h gl gl2"
    using memcpy_wrote [OF assms(2), of ?h] assms(1,3) by (simp add: gl2_def pos_def area_size_ok_def rec_ok_def)
  define pg where "pg = gl_pages gl2 (fst pos)"
  define gl3 where "gl3 = (if lp_offset pg = NULL_OFFSET
      then gl2\<lparr>gl_pages := (gl_pages gl2)(fst pos := pg\<lparr>lp_offset := int (snd pos)\<rparr>)\<rparr> else gl2)\<lparr>gl_prev_lsa := lsa_of pos\<rparr>"
  have a2: "gl_append gl2 = pos" by (simp add: gl2_def gl_memcpy_def pos_def Let_def)
  have t3: "tape sz (gl_pages gl3) = tape sz (gl_pages gl2)"
    by (rule ext) (simp add: gl3_def tape_def pg_def)
  have ok3: "areas_ok sz gl3" using wrote_areas [OF w assms(2)] by (simp add: areas_ok_def gl3_def pg_def)
  define gl4 where "gl4 = gl3\<lparr>gl_append := (fst pos, snd pos + 32)\<rparr>"
  have a3: "gl_append gl3 = pos" by (simp add: gl3_def a2)
  have ok4: "areas_ok sz gl4" using ok3 by (simp add: areas_ok_def gl4_def a3)
  from append_align [OF ok4, of ?g] obtain gl' where al: "LOG_APPEND_ALIGN sz gl4 = Some gl'"
    "gl_append gl' = LOG_PRIOR_LSA_APPEND_ALIGN sz (gl_append gl4)" "wrote sz ?g [] gl4 gl'" "areas_ok sz gl'" .
  have adv: "LOG_APPEND_ADVANCE_WHEN_DOESNOT_FIT sz 32 gl = Some gl"
    using assms(3) by (simp add: LOG_APPEND_ADVANCE_WHEN_DOESNOT_FIT_def rec_ok_def)
  have "logpb_start_append sz header gl = Some gl'"
    using al(1) assms(4,5) a2 a3 adv
    by (simp add: logpb_start_append_def Let_def LSA_EQ_eq gl2_def [symmetric] pg_def [symmetric]
        gl3_def LOG_APPEND_SETDIRTY_ADD_ALIGN_def gl4_def split: if_splits)
  moreover have "gl_append gl' = LOG_PRIOR_LSA_APPEND_ADD_ALIGN sz 32 pos"
    using al(2) by (simp add: gl4_def LOG_PRIOR_LSA_APPEND_ADD_ALIGN_def)
  moreover have t: "tape sz (gl_pages gl') = tape sz (gl_pages gl2)"
    using al(3) t3 by (simp add: wrote_def gl4_def)
  then have "keeps_below ?g sz gl gl'" using wrote_keeps [OF w, of ?g] by (simp add: keeps_below_def)
  moreover have "on_tape (tape sz (gl_pages gl')) ?g ?h" using wrote_on_tape [OF w] t by simp
  moreover have "gl_prev_lsa gl' = lsa_of pos" using wrote_prev [OF al(3)] by (simp add: gl4_def gl3_def)
  ultimately show thesis using that al(4) by (simp add: pos_def)
qed

lemma append_header_data:
  assumes "area_size_ok sz" and "areas_ok sz gl" and "pos_ok sz (gl_append gl)" and "length data < sz"
    and "pos = LOG_PRIOR_LSA_APPEND_ADVANCE_WHEN_DOESNOT_FIT sz (length data) (gl_append gl)"
  obtains gl' where "logpb_append_header_data sz data gl = Some gl'"
    "gl_append gl' = pos_of sz (align8 (gpos sz pos + int (length data)))" "wrote sz (gpos sz pos) data gl gl'" "areas_ok sz gl'"
proof (cases "data = []")
  case True
  note sz = area_size_okD [OF assms(1)]
  have "snd (gl_append gl) < sz" using assms(3) by (simp add: pos_ok_def)
  then have "pos = gl_append gl" using assms(5) True by (simp add: LOG_PRIOR_LSA_APPEND_ADVANCE_WHEN_DOESNOT_FIT_def)
  with that [of gl] True assms(2,3) show thesis
    using pos_of_gpos [of "gl_append gl" sz] gpos_aligned [OF sz(1) assms(3)]
    by (simp add: logpb_append_header_data_def pos_ok_def align8_id)
next
  case False
  note sz = area_size_okD [OF assms(1)]
  from append_advance [OF assms(2), of "length data" "gpos sz pos"] obtain gl1 where
    1: "LOG_APPEND_ADVANCE_WHEN_DOESNOT_FIT sz (length data) gl = Some gl1" "gl_append gl1 = pos"
      "wrote sz (gpos sz pos) [] gl gl1" "areas_ok sz gl1" using assms(5) by metis
  have "pos_ok sz (gl_append gl1)" using advance_pos_ok [OF sz(2) assms(3)] assms(5) 1(2) by simp
  from append_data [OF sz this 1(4), of data] obtain gl' where 2: "logpb_append_data sz data gl1 = Some gl'"
    "gl_append gl' = pos_of sz (align8 (gpos sz pos + int (length data)))" "wrote sz (gpos sz pos) data gl1 gl'" "areas_ok sz gl'"
    using 1(2) by metis
  show thesis using that [of gl'] False 1 2 wrote_move_trans(1) [OF 1(3) 2(3)] by (simp add: logpb_append_header_data_def)
qed

lemma end_append:
  assumes "area_size_ok sz" and "areas_ok sz gl" and "pos_ok sz (gl_append gl)"
  obtains gl' where "logpb_end_append sz gl = Some gl'"
    "gl_append gl' = LOG_PRIOR_LSA_APPEND_ADVANCE_WHEN_DOESNOT_FIT sz SIZEOF_LOG_RECORD_HEADER (gl_append gl)"
    "wrote sz g [] gl gl'" "areas_ok sz gl'"
proof -
  note sz = area_size_okD [OF assms(1)]
  from append_align [OF assms(2), of g] obtain gl1 where 1: "LOG_APPEND_ALIGN sz gl = Some gl1"
    "gl_append gl1 = gl_append gl" "wrote sz g [] gl gl1" "areas_ok sz gl1" using align_pos_ok [OF sz(1) assms(3)] by metis
  from append_advance [OF 1(4), of 32 g] obtain gl' where "LOG_APPEND_ADVANCE_WHEN_DOESNOT_FIT sz 32 gl1 = Some gl'"
    "gl_append gl' = LOG_PRIOR_LSA_APPEND_ADVANCE_WHEN_DOESNOT_FIT sz 32 (gl_append gl1)" "wrote sz g [] gl1 gl'" "areas_ok sz gl'" .
  with 1 that wrote_move_trans(1) [OF 1(3), of g "[]" gl'] show thesis by (simp add: logpb_end_append_def)
qed

text \<open>The whole record is before the position the next one starts at.\<close>

lemma rec_end_after:
  assumes "area_size_ok sz"
  shows "rec_rdata_at sz hl ul pos + int rl \<le> gpos sz (rec_end sz hl ul rl pos)"
proof -
  note sz = area_size_okD [OF assms]
  let ?e = "pos_of sz (align8 (rec_rdata_at sz hl ul pos + int rl))"
  have "snd ?e \<le> sz" using pos_ok_pos_of [OF sz] by (simp add: pos_ok_def less_imp_le)
  from advance_gpos_ge [OF this, of 32] align8_ge [of "rec_rdata_at sz hl ul pos + int rl"] gpos_pos_of [OF sz(2)] show ?thesis
    by (simp add: rec_end_def)
qed

lemma append_data_if: "(if data \<noteq> [] then logpb_append_data sz data gl else Some gl) = logpb_append_data sz data gl"
  by (simp add: logpb_append_data_def)

text \<open>The undo and redo data, from an aligned position on.\<close>

lemma append_images:
  assumes "area_size_ok sz" and "areas_ok sz gl" and "gl_append gl = pos_of sz u" and "u = align8 u'" and "r = align8 (u + int (length a))"
    and "e = LOG_PRIOR_LSA_APPEND_ADVANCE_WHEN_DOESNOT_FIT sz SIZEOF_LOG_RECORD_HEADER (pos_of sz (align8 (r + int (length b))))"
  obtains gl' where "(logpb_append_data sz a gl \<bind> (\<lambda>gl3. logpb_append_data sz b gl3 \<bind> logpb_end_append sz)) = Some gl'"
    "gl_append gl' = e" "gl_prev_lsa gl' = gl_prev_lsa gl" "areas_ok sz gl'" "keeps_below u sz gl gl'"
    "on_tape (tape sz (gl_pages gl')) u a" "on_tape (tape sz (gl_pages gl')) r b"
proof -
  note sz = area_size_okD [OF assms(1)]
  have ok: "pos_ok sz (pos_of sz (align8 x))" for x by (rule pos_ok_pos_of [OF sz])
  from append_data [OF sz _ assms(2), of a] ok obtain gl3 where
    3: "logpb_append_data sz a gl = Some gl3" "gl_append gl3 = pos_of sz r" "wrote sz u a gl gl3" "areas_ok sz gl3"
    by (metis assms(3-5) gpos_pos_of sz(2))
  from append_data [OF sz _ 3(4), of b] ok obtain gl4 where
    4: "logpb_append_data sz b gl3 = Some gl4" "gl_append gl4 = pos_of sz (align8 (r + int (length b)))"
      "wrote sz r b gl3 gl4" "areas_ok sz gl4"
    by (metis 3(2) assms(5) gpos_pos_of sz(2))
  from end_append [OF assms(1) 4(4), of "gpos sz e"] ok obtain gl' where
    5: "logpb_end_append sz gl4 = Some gl'" "gl_append gl' = e" "wrote sz (gpos sz e) [] gl4 gl'" "areas_ok sz gl'"
    by (metis 4(2) assms(6))
  have le: "u + int (length a) \<le> r" "r + int (length b) \<le> gpos sz e"
    using align8_ge rec_end_after [OF assms(1)] assms(5,6) advance_gpos_ge [of "pos_of sz (align8 (r + int (length b)))" sz 32]
      ok [of "r + int (length b)"] gpos_pos_of [OF sz(2)] by (auto simp: pos_ok_def intro: order_trans)
  note k = wrote_keeps [OF 3(3) order_refl] wrote_keeps [OF 4(3) order_refl] wrote_keeps [OF 5(3) order_refl]
  have k4: "keeps_below r sz gl3 gl'" using keeps_below_trans [OF k(2,3), of r] le by simp
  have "on_tape (tape sz (gl_pages gl')) u a" using keeps_on_tape [OF k4 wrote_on_tape [OF 3(3)] le(1)] .
  moreover have "on_tape (tape sz (gl_pages gl')) r b" using keeps_on_tape [OF k(3) wrote_on_tape [OF 4(3)] le(2)] .
  moreover have "keeps_below u sz gl gl'" using keeps_below_trans [OF k(1) k4, of u] le by simp
  moreover have "gl_prev_lsa gl' = gl_prev_lsa gl" using wrote_prev [OF 3(3)] wrote_prev [OF 4(3)] wrote_prev [OF 5(3)] by simp
  ultimately show thesis using that 3(1) 4(1) 5(1,2,4) by simp
qed

lemma append_next_record:
  assumes "area_size_ok sz" and "areas_ok sz gl" and "rec_ok sz (gl_append gl)"
    and "pn_start_lsa node = lsa_of (gl_append gl)" and "lr_back_lsa (pn_log_header node) = gl_prev_lsa gl"
    and "lr_type (pn_log_header node) \<noteq> LOG_END_OF_LOG" and "length (pn_data_header node) < sz"
  obtains gl' where "logpb_append_next_record sz node gl = Some gl'"
    "gl_append gl' = rec_end sz (length (pn_data_header node)) (length (pn_udata node)) (length (pn_rdata node)) (gl_append gl)"
    "gl_prev_lsa gl' = lsa_of (gl_append gl)" "areas_ok sz gl'" "keeps_below (gpos sz (gl_append gl)) sz gl gl'"
    "node_on_tape sz (tape sz (gl_pages gl')) (gl_append gl) node"
proof -
  note sz = area_size_okD [OF assms(1)]
  define pos hl where "pos = gl_append gl" and "hl = length (pn_data_header node)"
  have P: "rec_ok sz pos" using assms(3) by (simp add: pos_def)
  let ?h = "rec_header_pos sz hl pos" and ?u = "rec_udata_at sz hl pos" and ?r = "rec_rdata_at sz hl (length (pn_udata node)) pos"
  have order: "gpos sz pos + 32 \<le> gpos sz ?h" "gpos sz ?h + int hl \<le> ?u"
    using rec_header_after [OF assms(1) P, of hl] align8_ge by (simp_all add: rec_udata_at_def)
  from start_append [OF assms(1,2,3,5,6)] obtain gl1 where 1: "logpb_start_append sz (pn_log_header node) gl = Some gl1"
    "gl_append gl1 = LOG_PRIOR_LSA_APPEND_ADD_ALIGN sz 32 pos" "gl_prev_lsa gl1 = lsa_of pos" "areas_ok sz gl1"
    "keeps_below (gpos sz pos) sz gl gl1" "on_tape (tape sz (gl_pages gl1)) (gpos sz pos) (wr_log_record_header (pn_log_header node))"
    by (auto simp: pos_def)
  have ok1: "pos_ok sz (gl_append gl1)" using add_align(1) [OF sz, of pos 32] P 1(2) by (simp add: rec_ok_def)
  have h: "?h = LOG_PRIOR_LSA_APPEND_ADVANCE_WHEN_DOESNOT_FIT sz (length (pn_data_header node)) (gl_append gl1)"
    using 1(2) by (simp add: rec_header_pos_def hl_def)
  from append_header_data [OF assms(1) 1(4) ok1 assms(7) h] obtain gl2 where
    2: "logpb_append_header_data sz (pn_data_header node) gl1 = Some gl2" "gl_append gl2 = pos_of sz ?u"
      "wrote sz (gpos sz ?h) (pn_data_header node) gl1 gl2" "areas_ok sz gl2"
    by (metis hl_def rec_udata_at_def)
  from append_images [OF assms(1) 2(4,2) rec_udata_at_def refl refl, of "pn_udata node" "pn_rdata node"] obtain gl' where
    3: "(logpb_append_data sz (pn_udata node) gl2 \<bind> (\<lambda>gl3. logpb_append_data sz (pn_rdata node) gl3 \<bind> logpb_end_append sz)) = Some gl'"
    "gl_append gl' = rec_end sz hl (length (pn_udata node)) (length (pn_rdata node)) pos" "gl_prev_lsa gl' = gl_prev_lsa gl2"
    "areas_ok sz gl'" "keeps_below ?u sz gl2 gl'"
    "on_tape (tape sz (gl_pages gl')) ?u (pn_udata node)" "on_tape (tape sz (gl_pages gl')) ?r (pn_rdata node)"
    unfolding rec_end_def rec_rdata_at_def by blast
  have k2: "keeps_below (gpos sz ?h) sz gl1 gl'"
    using keeps_below_trans [OF wrote_keeps [OF 2(3) order_refl] 3(5), of "gpos sz ?h"] order by simp
  have "node_on_tape sz (tape sz (gl_pages gl')) pos node"
    using keeps_on_tape [OF k2 1(6)] keeps_on_tape [OF 3(5) wrote_on_tape [OF 2(3)]] order 3(6,7)
    by (simp add: node_on_tape_def hl_def)
  moreover have "logpb_append_next_record sz node gl = Some gl'"
    using 1(1) 2(1) 3(1) assms(4) by (simp add: logpb_append_next_record_def LSA_EQ_eq append_data_if)
  moreover have "keeps_below (gpos sz pos) sz gl gl'" using keeps_below_trans [OF 1(5) k2, of "gpos sz pos"] order(1) by simp
  ultimately show thesis using that 1(3) wrote_prev [OF 2(3)] 3(2-4) by (simp add: pos_def hl_def)
qed

section \<open>Sequences of records\<close>

definition lsa_pos :: "log_lsa \<Rightarrow> log_pos" where
  "lsa_pos l = (lsa_pageid l, nat (lsa_offset l))"

lemma lsa_pos_of [simp]: "lsa_pos (lsa_of pos) = pos"
  by (simp add: lsa_pos_def lsa_of_def)

lemma node_on_tape_keeps:
  assumes "area_size_ok sz" and "rec_ok sz pos" and "node_on_tape sz (tape sz (gl_pages gl)) pos node"
    and "keeps_below g sz gl gl'"
    and "gpos sz (rec_end sz (length (pn_data_header node)) (length (pn_udata node)) (length (pn_rdata node)) pos) \<le> g"
  shows "node_on_tape sz (tape sz (gl_pages gl')) pos node"
proof -
  define hl ul rl where "hl = length (pn_data_header node)" and "ul = length (pn_udata node)" and "rl = length (pn_rdata node)"
  note defs = hl_def ul_def rl_def
  have le: "gpos sz pos + 32 \<le> gpos sz (rec_header_pos sz hl pos)" "gpos sz (rec_header_pos sz hl pos) + int hl \<le> rec_udata_at sz hl pos"
    "rec_udata_at sz hl pos + int ul \<le> rec_rdata_at sz hl ul pos" "rec_rdata_at sz hl ul pos + int rl \<le> g"
    using rec_header_after [OF assms(1,2), of hl] rec_end_after [OF assms(1), of hl ul pos rl] assms(5) align8_ge
    by (simp_all add: rec_udata_at_def rec_rdata_at_def defs)
  show ?thesis using assms(3) le unfolding node_on_tape_def Let_def
    by (auto intro!: keeps_on_tape [OF assms(4)] simp: defs)
qed

text \<open>
  Any number of records of any transactions: \<open>reqs\<close> are the records with the
  descriptors they are appended for.
\<close>

fun reserve_all :: "nat \<Rightarrow> (log_prior_node \<times> 'z log_tdes_scheme) list \<Rightarrow> log_prior_info \<Rightarrow> log_prior_info option" where
  "reserve_all sz [] pi = Some pi"
| "reserve_all sz ((node, td) # reqs) pi =
     (case prior_lsa_next_record_internal sz node td pi of
        None \<Rightarrow> None
      | Some (_, _, pi') \<Rightarrow> reserve_all sz reqs pi')"

definition agree :: "nat \<Rightarrow> log_prior_info \<Rightarrow> log_gl \<Rightarrow> bool" where
  "agree sz pi gl \<longleftrightarrow> gl_append gl = pi_prior_lsa pi \<and> gl_prev_lsa gl = pi_prev_lsa pi \<and>
     rec_ok sz (gl_append gl) \<and> areas_ok sz gl"

definition request_ok :: "nat \<Rightarrow> log_prior_node \<Rightarrow> bool" where
  "request_ok sz node \<longleftrightarrow> length (pn_data_header node) < sz \<and> lr_type (pn_log_header node) \<noteq> LOG_END_OF_LOG"

text \<open>Each record points to the next one and back to the one before.\<close>

fun chained :: "log_lsa \<Rightarrow> log_lsa \<Rightarrow> log_prior_node list \<Rightarrow> log_lsa \<Rightarrow> bool" where
  "chained back start [] e \<longleftrightarrow> start = e"
| "chained back start (n # ns) e \<longleftrightarrow> pn_start_lsa n = start \<and> lr_back_lsa (pn_log_header n) = back \<and>
     chained start (lr_forw_lsa (pn_log_header n)) ns e"

abbreviation (input) node_payload :: "log_prior_node \<Rightarrow> int \<times> byte list \<times> byte list \<times> byte list" where
  "node_payload n \<equiv> (lr_type (pn_log_header n), pn_data_header n, pn_udata n, pn_rdata n)"

text \<open>One record goes through both passes.\<close>

lemma one_record:
  assumes "area_size_ok sz" and "agree sz pi gl" and "request_ok sz node"
  obtains node' pi' gl' where
    "prior_lsa_next_record_internal sz node td pi = Some (lsa_of (gl_append gl), td_appended (gl_append gl) td, pi')"
    "pi_list pi' = pi_list pi @ [node']" "logpb_append_next_record sz node' gl = Some gl'" "agree sz pi' gl'"
    "pn_start_lsa node' = lsa_of (gl_append gl)" "lr_back_lsa (pn_log_header node') = gl_prev_lsa gl"
    "lr_forw_lsa (pn_log_header node') = lsa_of (gl_append gl')" "gl_prev_lsa gl' = lsa_of (gl_append gl)"
    "node_payload node' = node_payload node" "keeps_below (gpos sz (gl_append gl)) sz gl gl'"
    "node_on_tape sz (tape sz (gl_pages gl')) (gl_append gl) node'" "gpos sz (gl_append gl) \<le> gpos sz (gl_append gl')"
    "gl_append gl' = rec_end sz (length (pn_data_header node')) (length (pn_udata node')) (length (pn_rdata node')) (gl_append gl)"
proof -
  define pos where "pos = gl_append gl"
  have pos: "pi_prior_lsa pi = pos" "rec_ok sz pos" "areas_ok sz gl" "gl_prev_lsa gl = pi_prev_lsa pi"
    using assms(2) by (auto simp: agree_def pos_def)
  define e where "e = rec_end sz (length (pn_data_header node)) (length (pn_udata node)) (length (pn_rdata node)) pos"
  define node' where "node' = node\<lparr>pn_start_lsa := lsa_of pos, pn_log_header := (pn_log_header node)
      \<lparr>lr_trid := td_trid td, lr_prev_tranlsa := td_tail_lsa td, lr_back_lsa := pi_prev_lsa pi, lr_forw_lsa := lsa_of e\<rparr>\<rparr>"
  have r: "prior_lsa_next_record_internal sz node td pi = Some (lsa_of pos, td_appended pos td,
      \<lparr>pi_prior_lsa = e, pi_prev_lsa = lsa_of pos, pi_list = pi_list pi @ [node']\<rparr>)"
    using prior_next_record [OF assms(1) _ _ refl refl refl, of pi node e node' td] pos assms(3)
    by (auto simp: request_ok_def e_def node'_def)
  from append_next_record [OF assms(1) pos(3), of node'] obtain gl' where a: "logpb_append_next_record sz node' gl = Some gl'"
    "gl_append gl' = e" "gl_prev_lsa gl' = lsa_of pos" "areas_ok sz gl'" "keeps_below (gpos sz pos) sz gl gl'"
    "node_on_tape sz (tape sz (gl_pages gl')) pos node'"
    using pos assms(3) by (auto simp: node'_def request_ok_def e_def pos_def)
  have "gpos sz pos \<le> gpos sz e"
    using rec_header_after [OF assms(1) pos(2)] rec_end_after [OF assms(1)] align8_ge
    unfolding e_def rec_rdata_at_def rec_udata_at_def by (smt (verit) of_nat_0_le_iff)
  then show thesis using that [OF r [unfolded pos_def] _ a(1)] a rec_end_ok [OF assms(1)] pos
    by (simp add: agree_def e_def node'_def pos_def [symmetric])
qed

text \<open>The place a record takes in the log, between two places of it.\<close>

definition node_within :: "nat \<Rightarrow> log_pos \<Rightarrow> log_pos \<Rightarrow> log_prior_node \<Rightarrow> bool" where
  "node_within sz a b n \<longleftrightarrow> 0 \<le> lsa_offset (pn_start_lsa n) \<and> gpos sz a \<le> gpos sz (lsa_pos (pn_start_lsa n)) \<and>
     gpos sz (rec_end sz (length (pn_data_header n)) (length (pn_udata n)) (length (pn_rdata n)) (lsa_pos (pn_start_lsa n))) \<le> gpos sz b"

lemma reserve_and_append:
  assumes "area_size_ok sz" and "agree sz pi gl" and "\<forall>(node, td) \<in> set reqs. request_ok sz node"
  shows "\<exists>pi' ns gl'. reserve_all sz reqs pi = Some pi' \<and> pi_list pi' = pi_list pi @ ns \<and>
    logpb_append_prior_lsa_list sz ns gl = Some gl' \<and> agree sz pi' gl' \<and>
    map node_payload ns = map (\<lambda>(node, td). node_payload node) reqs \<and>
    chained (gl_prev_lsa gl) (lsa_of (gl_append gl)) ns (lsa_of (gl_append gl')) \<and>
    (\<forall>n \<in> set ns. node_on_tape sz (tape sz (gl_pages gl')) (lsa_pos (pn_start_lsa n)) n \<and> rec_ok sz (lsa_pos (pn_start_lsa n)) \<and>
       node_within sz (gl_append gl) (gl_append gl') n) \<and>
    keeps_below (gpos sz (gl_append gl)) sz gl gl' \<and> gpos sz (gl_append gl) \<le> gpos sz (gl_append gl')"
  using assms(2,3)
proof (induction reqs arbitrary: pi gl)
  case Nil
  then show ?case by (simp add: keeps_below_def)
next
  case (Cons req reqs)
  obtain node td where req: "req = (node, td)" by (cases req)
  have rq: "request_ok sz node" using Cons.prems(2) by (simp add: req)
  from one_record [OF assms(1) Cons.prems(1) rq, of td] obtain node' pi1 gl1 where
    1: "prior_lsa_next_record_internal sz node td pi = Some (lsa_of (gl_append gl), td_appended (gl_append gl) td, pi1)"
    "pi_list pi1 = pi_list pi @ [node']" "logpb_append_next_record sz node' gl = Some gl1" "agree sz pi1 gl1"
    "pn_start_lsa node' = lsa_of (gl_append gl)" "lr_back_lsa (pn_log_header node') = gl_prev_lsa gl"
    "lr_forw_lsa (pn_log_header node') = lsa_of (gl_append gl1)" "gl_prev_lsa gl1 = lsa_of (gl_append gl)"
    "node_payload node' = node_payload node" "keeps_below (gpos sz (gl_append gl)) sz gl gl1"
    "node_on_tape sz (tape sz (gl_pages gl1)) (gl_append gl) node'" "gpos sz (gl_append gl) \<le> gpos sz (gl_append gl1)"
    "gl_append gl1 = rec_end sz (length (pn_data_header node')) (length (pn_udata node')) (length (pn_rdata node')) (gl_append gl)" .
  obtain pi' ns gl' where 2: "reserve_all sz reqs pi1 = Some pi'" "pi_list pi' = pi_list pi1 @ ns"
    "logpb_append_prior_lsa_list sz ns gl1 = Some gl'" "agree sz pi' gl'"
    "map node_payload ns = map (\<lambda>(node, td). node_payload node) reqs"
    "chained (gl_prev_lsa gl1) (lsa_of (gl_append gl1)) ns (lsa_of (gl_append gl'))"
    "\<forall>n \<in> set ns. node_on_tape sz (tape sz (gl_pages gl')) (lsa_pos (pn_start_lsa n)) n \<and> rec_ok sz (lsa_pos (pn_start_lsa n)) \<and>
       node_within sz (gl_append gl1) (gl_append gl') n"
    "keeps_below (gpos sz (gl_append gl1)) sz gl1 gl'" "gpos sz (gl_append gl1) \<le> gpos sz (gl_append gl')"
    using Cons.IH [OF 1(4)] Cons.prems(2) by auto
  have ok: "rec_ok sz (gl_append gl)" using Cons.prems(1) unfolding agree_def by blast
  have "node_on_tape sz (tape sz (gl_pages gl')) (gl_append gl) node'"
    using node_on_tape_keeps [OF assms(1) ok 1(11) 2(8)] 1(13) by simp
  moreover have "keeps_below (gpos sz (gl_append gl)) sz gl gl'" using keeps_below_trans [OF 1(10) 2(8)] 1(12) by simp
  moreover have "node_within sz (gl_append gl) (gl_append gl') node'" using 1(5,13) 2(9) ok by (simp add: node_within_def lsa_of_def lsa_pos_def)
  moreover have "node_within sz (gl_append gl) (gl_append gl') n" if "n \<in> set ns" for n
    using 1(12) 2(7) that by (fastforce simp: node_within_def)
  ultimately show ?case using 1 2 ok
    by (intro exI [of _ pi'] exI [of _ "node' # ns"] exI [of _ gl']) (auto simp: req)
qed

text \<open>What the list holds after reserving: the records, with the transactions they were appended for.\<close>

lemma next_record_node:
  assumes "prior_lsa_next_record_internal sz node td pi = Some (l, td', pi')"
  shows "\<exists>n. pi_list pi' = pi_list pi @ [n] \<and> node_payload n = node_payload node \<and> lr_trid (pn_log_header n) = td_trid td \<and>
    lr_prev_tranlsa (pn_log_header n) = td_tail_lsa td \<and> pn_start_lsa n = l \<and> td_tail_lsa td' = l \<and> td_trid td' = td_trid td"
  using assms
  by (auto simp: prior_lsa_next_record_internal_def prior_lsa_start_append_def prior_lsa_end_append_def Let_def
      split: option.splits)

lemma reserve_all_nodes:
  assumes "reserve_all sz reqs pi = Some pi'"
  shows "\<exists>ns. pi_list pi' = pi_list pi @ ns \<and> map node_payload ns = map (\<lambda>(node, td). node_payload node) reqs \<and>
    map (\<lambda>n. lr_trid (pn_log_header n)) ns = map (\<lambda>(node, td). td_trid td) reqs \<and>
    map (\<lambda>n. lr_prev_tranlsa (pn_log_header n)) ns = map (\<lambda>(node, td). td_tail_lsa td) reqs"
  using assms
proof (induction sz reqs pi rule: reserve_all.induct)
  case (2 sz node td reqs pi)
  then obtain l td' pi1 where 1: "prior_lsa_next_record_internal sz node td pi = Some (l, td', pi1)" "reserve_all sz reqs pi1 = Some pi'"
    by (auto split: option.splits)
  obtain n where n: "pi_list pi1 = pi_list pi @ [n]" "node_payload n = node_payload node" "lr_trid (pn_log_header n) = td_trid td"
    "lr_prev_tranlsa (pn_log_header n) = td_tail_lsa td"
    using next_record_node [OF 1(1)] by blast
  obtain ns where "pi_list pi' = pi_list pi1 @ ns" "map node_payload ns = map (\<lambda>(node, td). node_payload node) reqs"
    "map (\<lambda>n. lr_trid (pn_log_header n)) ns = map (\<lambda>(node, td). td_trid td) reqs"
    "map (\<lambda>n. lr_prev_tranlsa (pn_log_header n)) ns = map (\<lambda>(node, td). td_tail_lsa td) reqs"
    using "2.IH" [OF 1(1) refl refl 1(2)] by blast
  with n show ?case by (intro exI [of _ "n # ns"]) auto
qed simp

lemma reserve_all_append:
  "reserve_all sz (as @ bs) pi = Option.bind (reserve_all sz as pi) (reserve_all sz bs)"
  by (induction sz as pi rule: reserve_all.induct) (auto split: option.splits)

section \<open>Properties\<close>

text \<open>
  C12. The two passes agree. Whatever records are reserved, of whatever
  transactions and lengths, writing them into pages never stops the server:
  every record starts where it was reserved and follows the record before it,
  the records are chained in both directions up to the next free address, and
  the passes end at the same address, so that they can go on.
\<close>

theorem log_append_passes_agree:
  assumes "area_size_ok sz" and "agree sz pi gl" and "pi_list pi = []" and "\<forall>(node, td) \<in> set reqs. request_ok sz node"
  shows "\<exists>pi' gl'. reserve_all sz reqs pi = Some pi' \<and> logpb_append_prior_lsa_list sz (pi_list pi') gl = Some gl' \<and>
    agree sz pi' gl' \<and> chained (gl_prev_lsa gl) (lsa_of (gl_append gl)) (pi_list pi') (lsa_of (gl_append gl')) \<and>
    map node_payload (pi_list pi') = map (\<lambda>(node, td). node_payload node) reqs"
proof -
  from reserve_and_append [OF assms(1,2,4)] assms(3) obtain pi' gl' where
    "reserve_all sz reqs pi = Some pi'" "logpb_append_prior_lsa_list sz (pi_list pi') gl = Some gl'" "agree sz pi' gl'"
    "chained (gl_prev_lsa gl) (lsa_of (gl_append gl)) (pi_list pi') (lsa_of (gl_append gl'))"
    "map node_payload (pi_list pi') = map (\<lambda>(node, td). node_payload node) reqs"
    by auto
  then show ?thesis by blast
qed

definition ex_gl :: log_gl where
  "ex_gl = \<lparr>gl_pages = \<lambda>q. \<lparr>lp_logical_pageid = q, lp_offset = 0, lp_area = replicate 80 0\<rparr>, gl_append = (31, 40),
     gl_prev_lsa = LSA 31 0, gl_eof_lsa = LSA_NULL, gl_create_ok = \<lambda>_. True\<rparr>"

definition ex_prior :: log_prior_info where
  "ex_prior = \<lparr>pi_prior_lsa = (31, 40), pi_prev_lsa = LSA 31 0, pi_list = []\<rparr>"

definition ex_node :: log_prior_node where
  "ex_node = \<lparr>pn_log_header = \<lparr>lr_prev_tranlsa = LSA_NULL, lr_back_lsa = LSA_NULL, lr_forw_lsa = LSA_NULL, lr_trid = 0, lr_type = 40\<rparr>,
     pn_start_lsa = LSA_NULL, pn_data_header = replicate 16 1, pn_udata = replicate 100 2, pn_rdata = []\<rparr>"

definition ex_td :: log_tdes where
  "ex_td = \<lparr>td_trid = 4, td_head_lsa = LSA_NULL, td_tail_lsa = LSA_NULL, td_undo_nxlsa = LSA_NULL\<rparr>"

lemma ex_append_ok: "area_size_ok 80" "agree 80 ex_prior ex_gl" "pi_list ex_prior = []" "request_ok 80 ex_node"
  by (simp_all add: area_size_ok_def agree_def ex_prior_def ex_gl_def rec_ok_def pos_ok_def areas_ok_def request_ok_def ex_node_def)

lemma log_append_passes_agree_witness:
  "\<exists>pi' gl'. reserve_all 80 [(ex_node, ex_td), (ex_node, ex_td)] ex_prior = Some pi' \<and>
     logpb_append_prior_lsa_list 80 (pi_list pi') ex_gl = Some gl' \<and> agree 80 pi' gl'"
proof -
  have "\<forall>(node, td) \<in> set [(ex_node, ex_td), (ex_node, ex_td)]. request_ok 80 node" using ex_append_ok(4) by simp
  from log_append_passes_agree [OF ex_append_ok(1-3) this] show ?thesis by blast
qed

end
