(* ===== verification/Log_Compress.thy ===== *)
theory Log_Compress
  imports Log_Append
begin

unbundle bit_operations_syntax

text \<open>
  Compression of log data (\<^verbatim>\<open>transaction/log_compress.c\<close>,
  \<^verbatim>\<open>transaction/log_compress.h\<close>): the undo and redo data of a record are
  stored compressed when that makes them shorter, with the top bit of the
  stored length as the mark of compressed data, and the redo data of an update
  as the difference from the undo data.

  The compressor is the LZO library, which is not part of the sources: its two
  functions are fields of \<open>lzo\<close>, and \<open>lzo_ok\<close> is what its
  documentation promises.
\<close>

section \<open>Lengths with a mark\<close>

text \<open>The macros work on 32-bit integers; the results are read back as \<^verbatim>\<open>int\<close>.\<close>

definition MAKE_ZIP_LEN :: "int \<Rightarrow> int" where
  "MAKE_ZIP_LEN len = sint ((word_of_int len :: 32 word) OR 0x80000000)"

definition GET_ZIP_LEN :: "int \<Rightarrow> int" where
  "GET_ZIP_LEN len = uint ((word_of_int len :: 32 word) AND NOT 0x80000000)"

definition ZIP_CHECK :: "int \<Rightarrow> bool" where
  "ZIP_CHECK len \<longleftrightarrow> (word_of_int len :: 32 word) AND 0x80000000 \<noteq> 0"

section \<open>The library\<close>

text \<open>
  \<open>lzo1x_1_compress data\<close> is the return code and the bytes written;
  \<open>lzo1x_decompress_safe src n\<close> the return code and the bytes written into a
  destination of \<open>n\<close> bytes.
\<close>

record lzo =
  lzo1x_1_compress :: "byte list \<Rightarrow> int \<times> byte list"
  lzo1x_decompress_safe :: "byte list \<Rightarrow> nat \<Rightarrow> int \<times> byte list"

abbreviation (input) LZO_E_OK :: int where "LZO_E_OK \<equiv> 0"

text \<open>Data that was compressed is decompressed to itself, and compressing expands by at most a sixteenth and 67 bytes.\<close>

definition lzo_ok :: "lzo \<Rightarrow> bool" where
  "lzo_ok lz \<longleftrightarrow> (\<forall>data out. lzo1x_1_compress lz data = (LZO_E_OK, out) \<longrightarrow>
     lzo1x_decompress_safe lz out (length data) = (LZO_E_OK, data) \<and> length out \<le> length data + length data div 16 + 67)"

section \<open>Buffers of compressed and of decompressed data\<close>

record LOG_ZIP =
  z_data_length :: int
  z_buf_size :: int
  z_log_data :: "byte list option"

text \<open>For lengths of which the size is still an \<^verbatim>\<open>int\<close>, that is, below about 1.8 GB.\<close>

definition LOG_ZIP_BUF_SIZE :: "int \<Rightarrow> int" where
  "LOG_ZIP_BUF_SIZE len = len + len sdiv 16 + 64 + 3 + 4"

text \<open>
  The buffer is replaced by a larger one when it is too small; \<open>block\<close> is what
  \<^verbatim>\<open>malloc\<close> returns then.
\<close>

definition zip_buffer :: "byte list option \<Rightarrow> int \<Rightarrow> LOG_ZIP \<Rightarrow> LOG_ZIP" where
  "zip_buffer block buf_size z =
     (if z_buf_size z < buf_size then z\<lparr>z_log_data := block, z_buf_size := buf_size\<rparr> else z)"

definition log_zip :: "lzo \<Rightarrow> byte list option \<Rightarrow> byte list \<Rightarrow> LOG_ZIP \<Rightarrow> bool \<times> LOG_ZIP" where
  "log_zip lz block data z =
     (let z1 = zip_buffer block (LOG_ZIP_BUF_SIZE (int (length data))) (z\<lparr>z_data_length := 0\<rparr>)
      in case z_log_data z1 of
           None \<Rightarrow> (False, z1\<lparr>z_data_length := 0, z_buf_size := 0\<rparr>)
         | Some buf \<Rightarrow>
             (case lzo1x_1_compress lz data of
                (rc, out) \<Rightarrow>
                  let z2 = z1\<lparr>z_log_data := Some (wr_at 0 (wr_int 4 (int (length data)) @ out) buf)\<rparr>
                  in if rc = LZO_E_OK
                     then (int (length out) + 4 < int (length data), z2\<lparr>z_data_length := int (length out) + 4\<rparr>)
                     else (False, z2)))"

definition log_unzip :: "lzo \<Rightarrow> byte list option \<Rightarrow> byte list \<Rightarrow> LOG_ZIP \<Rightarrow> bool \<times> LOG_ZIP" where
  "log_unzip lz block data z =
     (let org_len = rd_int 4 0 data
      in if org_len \<le> 0 then (False, z)
         else
           let z1 = zip_buffer block (LOG_ZIP_BUF_SIZE org_len) z
           in case z_log_data z1 of
                None \<Rightarrow> (False, z1\<lparr>z_data_length := 0, z_buf_size := 0\<rparr>)
              | Some buf \<Rightarrow>
                  (case lzo1x_decompress_safe lz (drop 4 data) (nat org_len) of
                     (rc, out) \<Rightarrow>
                       let z2 = z1\<lparr>z_log_data := Some (wr_at 0 out buf)\<rparr>
                       in if rc = LZO_E_OK then (int (length out) = org_len, z2\<lparr>z_data_length := int (length out)\<rparr>)
                          else (False, z2)))"

text \<open>The first \<^verbatim>\<open>data_length\<close> bytes of the buffer.\<close>

definition zip_bytes :: "LOG_ZIP \<Rightarrow> byte list" where
  "zip_bytes z = (case z_log_data z of None \<Rightarrow> [] | Some buf \<Rightarrow> take (nat (z_data_length z)) buf)"

text \<open>\<open>blocks\<close> is what the three allocations return: the structure, its buffer, the working memory.\<close>

definition log_zip_alloc :: "bool \<Rightarrow> byte list option \<Rightarrow> bool \<Rightarrow> int \<Rightarrow> bool \<Rightarrow> LOG_ZIP option" where
  "log_zip_alloc mem block wrkmem sz is_zip =
     (let buf_size = LOG_ZIP_BUF_SIZE sz
      in if \<not> mem \<or> block = None \<or> (is_zip \<and> \<not> wrkmem) then None
         else Some \<lparr>z_data_length = 0, z_buf_size = buf_size, z_log_data = block\<rparr>)"

section \<open>Differences\<close>

fun log_diff :: "byte list \<Rightarrow> byte list \<Rightarrow> byte list" where
  "log_diff (q # undo) (p # redo) = (p XOR q) # log_diff undo redo"
| "log_diff undo redo = redo"

lemma length_log_diff [simp]: "length (log_diff undo redo) = length redo"
  by (induction undo redo rule: log_diff.induct) simp_all

lemma log_diff_diff [simp]: "log_diff undo (log_diff undo redo) = redo"
  by (induction undo redo rule: log_diff.induct) (simp_all add: xor.assoc)

lemma log_diff_eq_Nil [simp]: "log_diff undo redo = [] \<longleftrightarrow> redo = []"
  by (metis length_log_diff length_0_conv)

section \<open>Lemmas\<close>

lemma bit_top: "bit (0x80000000 :: 32 word) n \<longleftrightarrow> n = 31"
proof -
  have "(0x80000000 :: 32 word) = 2 ^ 31" by simp
  then show ?thesis by (simp only: bit_exp_iff) auto
qed

lemma bit_small: "0 \<le> len \<Longrightarrow> len < 2 ^ 31 \<Longrightarrow> \<not> bit (word_of_int len :: 32 word) 31"
proof -
  assume l: "0 \<le> len" "len < 2 ^ 31"
  then have "take_bit 31 len = len" by (intro take_bit_int_eq_self) simp_all
  then have "\<not> bit len 31" using bit_take_bit_iff [of 31 len 31] by simp
  then show ?thesis by (simp add: bit_word_of_int_iff)
qed

lemma top_bit_ops:
  fixes w t :: "32 word"
  assumes "\<And>n. bit t n \<longleftrightarrow> n = 31"
  shows "w AND t \<noteq> 0 \<longleftrightarrow> bit w 31" "bit (w OR t) 31" "\<not> bit w 31 \<Longrightarrow> w AND NOT t = w" "\<not> bit w 31 \<Longrightarrow> (w OR t) AND NOT t = w"
  using assms by (auto simp: bit_eq_iff [where 'a = "32 word"] bit_and_iff bit_or_iff bit_not_iff)

lemmas top_bit = top_bit_ops [OF bit_top]

lemma ZIP_CHECK_plain: "0 \<le> len \<Longrightarrow> len < 2 ^ 31 \<Longrightarrow> \<not> ZIP_CHECK len"
  unfolding ZIP_CHECK_def top_bit by (rule bit_small)

lemma ZIP_CHECK_MAKE: "ZIP_CHECK (MAKE_ZIP_LEN len)"
  unfolding ZIP_CHECK_def MAKE_ZIP_LEN_def of_int_sint scast_id top_bit(1) by (rule top_bit(2))

lemma uint_small: "0 \<le> len \<Longrightarrow> len < 2 ^ 31 \<Longrightarrow> uint (word_of_int len :: 32 word) = len"
  by (simp add: uint_word_of_int_eq take_bit_int_eq_self)

lemma GET_ZIP_LEN_plain: "0 \<le> len \<Longrightarrow> len < 2 ^ 31 \<Longrightarrow> GET_ZIP_LEN len = len"
  unfolding GET_ZIP_LEN_def top_bit(3) [OF bit_small] by (rule uint_small)

lemma GET_MAKE_ZIP_LEN: "0 \<le> len \<Longrightarrow> len < 2 ^ 31 \<Longrightarrow> GET_ZIP_LEN (MAKE_ZIP_LEN len) = len"
  unfolding GET_ZIP_LEN_def MAKE_ZIP_LEN_def of_int_sint scast_id top_bit(4) [OF bit_small] by (rule uint_small)

lemma MAKE_ZIP_LEN_range: "- (2 ^ 31) \<le> MAKE_ZIP_LEN len" "MAKE_ZIP_LEN len < 2 ^ 31"
  using sint_range_size [of "(word_of_int len :: 32 word) OR 0x80000000"]
  by (simp_all add: MAKE_ZIP_LEN_def word_size)

lemma wr_at_0 [simp]: "wr_at 0 bs buf = bs @ drop (length bs) buf"
  by (simp add: wr_at_def)

text \<open>What a successful compression leaves in its buffer.\<close>

lemma log_zip_True:
  assumes "log_zip lz block data z = (True, z')"
  obtains out where "lzo1x_1_compress lz data = (LZO_E_OK, out)" "zip_bytes z' = wr_int 4 (int (length data)) @ out"
    "z_data_length z' = int (length out) + 4" "length out + 4 < length data"
  using assms by (auto simp: log_zip_def Let_def zip_bytes_def nat_add_distrib split: option.splits prod.splits if_splits)

lemma log_unzip_zip:
  assumes "lzo_ok lz" and "lzo1x_1_compress lz data = (LZO_E_OK, out)" and "data \<noteq> []" and "int (length data) < 2 ^ 31"
    and "block \<noteq> None" and "z_log_data z \<noteq> None"
  shows "\<exists>z'. log_unzip lz block (wr_int 4 (int (length data)) @ out) z = (True, z') \<and> zip_bytes z' = data \<and>
    z_data_length z' = int (length data) \<and> z_log_data z' \<noteq> None"
proof -
  let ?src = "wr_int 4 (int (length data)) @ out"
  have n: "rd_int 4 0 ?src = int (length data)" using rd_wr_int [of 4 "int (length data)" "[]" out] assms(4) by simp
  have d: "lzo1x_decompress_safe lz (drop 4 ?src) (length data) = (LZO_E_OK, data)" using assms(1,2) by (simp add: lzo_ok_def)
  obtain buf where "z_log_data (zip_buffer block (LOG_ZIP_BUF_SIZE (int (length data))) z) = Some buf"
    using assms(5,6) by (cases "z_buf_size z < LOG_ZIP_BUF_SIZE (int (length data))") (auto simp: zip_buffer_def)
  then show ?thesis using n d assms(3) by (simp add: log_unzip_def Let_def zip_bytes_def)
qed

end
