(* ===== verification/Log_Gen.thy ===== *)
theory Log_Gen
  imports Log_Compress
begin

text \<open>
  Making the records of the log on the server
  (\<^verbatim>\<open>transaction/log_page_buffer.c\<close>): the node of the prior list for a change
  of a page, with its undo and redo data from one area each or from pieces
  (\<^verbatim>\<open>crumbs\<close>), compressed when that helps, the redo data as difference from
  the undo data when both are there.

  What the functions find around them is a record \<open>gen_env\<close>: whether
  compression is on, the two compression buffers of the thread, whether the
  thread has an area to copy the data to, what the allocations return, and the
  bytes that a new block of memory happens to hold. The compression buffers are
  updated.
\<close>

section \<open>The environment and the fixed parts\<close>

abbreviation (input) NULL_VOLID :: int where "NULL_VOLID \<equiv> -1"

record gen_env =
  ge_lzo :: lzo
  ge_zip_support :: bool
  ge_zip_undo :: "LOG_ZIP option"
  ge_zip_redo :: "LOG_ZIP option"
  ge_data_ptr :: bool
  ge_undo_block :: "byte list option"
  ge_redo_block :: "byte list option"
  ge_node_mem :: bool
  ge_header_mem :: bool
  ge_udata_mem :: bool
  ge_rdata_mem :: bool
  ge_fresh :: "nat \<Rightarrow> byte"

text \<open>\<^verbatim>\<open>LOG_DATA_ADDR\<close>: the page identifier and volume of the page, if there is one, and the offset.\<close>

record log_data_addr =
  da_vpid :: "(int \<times> int) option"
  da_offset :: int

definition addr_pageid :: "log_data_addr \<Rightarrow> int" where
  "addr_pageid addr = (case da_vpid addr of None \<Rightarrow> NULL_PAGEID | Some (pageid, volid) \<Rightarrow> pageid)"

definition addr_volid :: "log_data_addr \<Rightarrow> int" where
  "addr_volid addr = (case da_vpid addr of None \<Rightarrow> NULL_VOLID | Some (pageid, volid) \<Rightarrow> volid)"

text \<open>\<^verbatim>\<open>struct log_data\<close> takes 12 bytes, \<^verbatim>\<open>struct log_undoredo\<close> 20, the other two 16.\<close>

definition wr_log_data :: "int \<Rightarrow> log_data_addr \<Rightarrow> byte list" where
  "wr_log_data rcvindex addr =
     wr_int 4 rcvindex @ wr_int 4 (addr_pageid addr) @ wr_int 2 (da_offset addr) @ wr_int 2 (addr_volid addr)"

definition wr_log_undoredo :: "int \<Rightarrow> log_data_addr \<Rightarrow> int \<Rightarrow> int \<Rightarrow> byte list" where
  "wr_log_undoredo rcvindex addr ulength rlength = wr_log_data rcvindex addr @ wr_int 4 ulength @ wr_int 4 rlength"

definition wr_log_redo :: "int \<Rightarrow> log_data_addr \<Rightarrow> int \<Rightarrow> byte list" where
  "wr_log_redo rcvindex addr len = wr_log_data rcvindex addr @ wr_int 4 len"

section \<open>Copying data to a node\<close>

definition prior_lsa_copy_undo_data_to_node :: "bool \<Rightarrow> byte list \<Rightarrow> log_prior_node \<Rightarrow> errcode \<times> log_prior_node" where
  "prior_lsa_copy_undo_data_to_node mem data node =
     (if data = [] then (NO_ERROR, node)
      else if \<not> mem then (ER_OUT_OF_VIRTUAL_MEMORY, node)
      else (NO_ERROR, node\<lparr>pn_udata := data\<rparr>))"

definition prior_lsa_copy_redo_data_to_node :: "bool \<Rightarrow> byte list \<Rightarrow> log_prior_node \<Rightarrow> errcode \<times> log_prior_node" where
  "prior_lsa_copy_redo_data_to_node mem data node =
     (if data = [] then (NO_ERROR, node)
      else if \<not> mem then (ER_OUT_OF_VIRTUAL_MEMORY, node)
      else (NO_ERROR, node\<lparr>pn_rdata := data\<rparr>))"

definition prior_lsa_copy_undo_crumbs_to_node :: "bool \<Rightarrow> byte list list \<Rightarrow> log_prior_node \<Rightarrow> errcode \<times> log_prior_node" where
  "prior_lsa_copy_undo_crumbs_to_node mem crumbs node =
     (if 0 < sum_list (map length crumbs) then
        (if \<not> mem then (ER_OUT_OF_VIRTUAL_MEMORY, node) else (NO_ERROR, node\<lparr>pn_udata := concat crumbs\<rparr>))
      else (NO_ERROR, node\<lparr>pn_udata := []\<rparr>))"

definition prior_lsa_copy_redo_crumbs_to_node :: "bool \<Rightarrow> byte list list \<Rightarrow> log_prior_node \<Rightarrow> errcode \<times> log_prior_node" where
  "prior_lsa_copy_redo_crumbs_to_node mem crumbs node =
     (if 0 < sum_list (map length crumbs) then
        (if \<not> mem then (ER_OUT_OF_VIRTUAL_MEMORY, node) else (NO_ERROR, node\<lparr>pn_rdata := concat crumbs\<rparr>))
      else (NO_ERROR, node\<lparr>pn_rdata := []\<rparr>))"

section \<open>Compression of the data of a record\<close>

definition zip_undo :: "byte list \<Rightarrow> gen_env \<Rightarrow> bool \<times> gen_env" where
  "zip_undo data en =
     (case ge_zip_undo en of
        None \<Rightarrow> (False, en)
      | Some z \<Rightarrow> (case log_zip (ge_lzo en) (ge_undo_block en) data z of (ok, z') \<Rightarrow> (ok, en\<lparr>ge_zip_undo := Some z'\<rparr>)))"

definition zip_redo :: "byte list \<Rightarrow> gen_env \<Rightarrow> bool \<times> gen_env" where
  "zip_redo data en =
     (case ge_zip_redo en of
        None \<Rightarrow> (False, en)
      | Some z \<Rightarrow> (case log_zip (ge_lzo en) (ge_redo_block en) data z of (ok, z') \<Rightarrow> (ok, en\<lparr>ge_zip_redo := Some z'\<rparr>)))"

definition zip_undo_bytes :: "gen_env \<Rightarrow> byte list" where
  "zip_undo_bytes en = (case ge_zip_undo en of None \<Rightarrow> [] | Some z \<Rightarrow> zip_bytes z)"

definition zip_redo_bytes :: "gen_env \<Rightarrow> byte list" where
  "zip_redo_bytes en = (case ge_zip_redo en of None \<Rightarrow> [] | Some z \<Rightarrow> zip_bytes z)"

text \<open>
  Undo and redo data one after the other, without and with taking the
  difference. The results are whether the undo data, the redo data and the
  difference are stored compressed.
\<close>

definition zip_both :: "byte list \<Rightarrow> byte list \<Rightarrow> gen_env \<Rightarrow> (bool \<times> bool \<times> bool) \<times> gen_env" where
  "zip_both undo redo en =
     (let (is_undo_zip, en1) = (if undo \<noteq> [] then zip_undo undo en else (False, en));
          (is_redo_zip, en2) = (if redo \<noteq> [] then zip_redo redo en1 else (False, en1))
      in ((is_undo_zip, is_redo_zip, False), en2))"

definition zip_diff :: "byte list \<Rightarrow> byte list \<Rightarrow> gen_env \<Rightarrow> (bool \<times> bool \<times> bool) \<times> gen_env" where
  "zip_diff undo redo en =
     (let (is_undo_zip, en1) = zip_undo undo en;
          (is_redo_zip, en2) = zip_redo (log_diff undo redo) en1
      in ((is_undo_zip, is_redo_zip, is_redo_zip), en2))"

definition zip_ready :: "gen_env \<Rightarrow> bool" where
  "zip_ready en \<longleftrightarrow> ge_zip_support en \<and> ge_zip_undo en \<noteq> None \<and> ge_zip_redo en \<noteq> None"

section \<open>Records of undo and redo data\<close>

definition undoredo_type :: "bool \<Rightarrow> int" where
  "undoredo_type is_diff = (if is_diff then LOG_DIFF_UNDOREDO_DATA else LOG_UNDOREDO_DATA)"

definition set_type :: "int \<Rightarrow> log_prior_node \<Rightarrow> log_prior_node" where
  "set_type ty node = node\<lparr>pn_log_header := (pn_log_header node)\<lparr>lr_type := ty\<rparr>\<rparr>"

definition prior_lsa_gen_undoredo_record ::
    "int \<Rightarrow> log_data_addr \<Rightarrow> byte list \<Rightarrow> byte list \<Rightarrow> log_prior_node \<Rightarrow> gen_env \<Rightarrow> (errcode \<times> log_prior_node) \<times> gen_env" where
  "prior_lsa_gen_undoredo_record rcvindex addr undo_data redo_data node en =
     (let ((is_undo_zip, is_redo_zip, is_diff), en1) =
            (if zip_ready en then
               (if undo_data \<noteq> [] \<and> redo_data \<noteq> [] \<and> ge_data_ptr en then zip_diff undo_data redo_data en
                else zip_both undo_data redo_data en)
             else ((False, False, False), en));
          node1 = set_type (undoredo_type is_diff) node
      in if \<not> ge_header_mem en then ((ER_OUT_OF_VIRTUAL_MEMORY, node1), en1)
         else
           let udata = (if is_undo_zip then zip_undo_bytes en1 else undo_data);
               rdata = (if is_redo_zip then zip_redo_bytes en1 else redo_data);
               ulength = (if is_undo_zip then MAKE_ZIP_LEN (int (length udata)) else int (length undo_data));
               rlength = (if is_redo_zip then MAKE_ZIP_LEN (int (length rdata)) else int (length redo_data));
               node2 = node1\<lparr>pn_data_header := wr_log_undoredo rcvindex addr ulength rlength\<rparr>
           in (case prior_lsa_copy_undo_data_to_node (ge_udata_mem en) udata node2 of
                 (err, node3) \<Rightarrow>
                   if err \<noteq> NO_ERROR then ((err, node3), en1)
                   else (prior_lsa_copy_redo_data_to_node (ge_rdata_mem en) rdata node3, en1)))"

text \<open>
  The variant for data in pieces. The error of copying the undo data is
  overwritten by that of copying the redo data. \<^verbatim>\<open>goto error\<close> frees
  the parts of the node.
\<close>

definition prior_lsa_gen_undoredo_record_from_crumbs ::
    "int \<Rightarrow> log_data_addr \<Rightarrow> byte list list \<Rightarrow> byte list list \<Rightarrow> log_prior_node \<Rightarrow> gen_env \<Rightarrow> (errcode \<times> log_prior_node) \<times> gen_env" where
  "prior_lsa_gen_undoredo_record_from_crumbs rcvindex addr ucrumbs rcrumbs node en =
     (let undo_data = concat ucrumbs; redo_data = concat rcrumbs;
          ((is_undo_zip, is_redo_zip, is_diff), en1) =
            (if zip_ready en \<and> ge_data_ptr en then
               (if undo_data \<noteq> [] \<and> redo_data \<noteq> [] then zip_diff undo_data redo_data en
                else zip_both undo_data redo_data en)
             else ((False, False, False), en));
          node1 = set_type (undoredo_type is_diff) node
      in if \<not> ge_header_mem en
         then ((ER_OUT_OF_VIRTUAL_MEMORY, node1\<lparr>pn_data_header := [], pn_udata := [], pn_rdata := []\<rparr>), en1)
         else
           let udata = zip_undo_bytes en1; rdata = zip_redo_bytes en1;
               ulength = (if is_undo_zip then MAKE_ZIP_LEN (int (length udata)) else int (length undo_data));
               rlength = (if is_redo_zip then MAKE_ZIP_LEN (int (length rdata)) else int (length redo_data));
               node2 = node1\<lparr>pn_data_header := wr_log_undoredo rcvindex addr ulength rlength\<rparr>;
               (_, node3) = (if is_undo_zip then prior_lsa_copy_undo_data_to_node (ge_udata_mem en) udata node2
                             else prior_lsa_copy_undo_crumbs_to_node (ge_udata_mem en) ucrumbs node2);
               (err, node4) = (if is_redo_zip then prior_lsa_copy_redo_data_to_node (ge_rdata_mem en) rdata node3
                               else prior_lsa_copy_redo_crumbs_to_node (ge_rdata_mem en) rcrumbs node3)
           in if err \<noteq> NO_ERROR then ((err, node4\<lparr>pn_data_header := [], pn_udata := [], pn_rdata := []\<rparr>), en1)
              else ((NO_ERROR, node4), en1))"

section \<open>Records of undo data or redo data only\<close>

definition prior_lsa_gen_undo_record ::
    "int \<Rightarrow> log_data_addr \<Rightarrow> byte list \<Rightarrow> log_prior_node \<Rightarrow> gen_env \<Rightarrow> (errcode \<times> log_prior_node) \<times> gen_env" where
  "prior_lsa_gen_undo_record rcvindex addr data node en =
     (let (is_zipped, en1) = (if ge_zip_support en \<and> ge_zip_undo en \<noteq> None \<and> data \<noteq> [] then zip_undo data en else (False, en))
      in if \<not> ge_header_mem en then ((ER_OUT_OF_VIRTUAL_MEMORY, node), en1)
         else
           let udata = (if is_zipped then zip_undo_bytes en1 else data);
               len = (if is_zipped then MAKE_ZIP_LEN (int (length udata)) else int (length data))
           in (prior_lsa_copy_undo_data_to_node (ge_udata_mem en) udata (node\<lparr>pn_data_header := wr_log_redo rcvindex addr len\<rparr>), en1))"

definition prior_lsa_gen_redo_record ::
    "int \<Rightarrow> log_data_addr \<Rightarrow> byte list \<Rightarrow> log_prior_node \<Rightarrow> gen_env \<Rightarrow> (errcode \<times> log_prior_node) \<times> gen_env" where
  "prior_lsa_gen_redo_record rcvindex addr data node en =
     (let (is_zipped, en1) = (if ge_zip_support en \<and> ge_zip_redo en \<noteq> None \<and> data \<noteq> [] then zip_redo data en else (False, en))
      in if \<not> ge_header_mem en then ((ER_OUT_OF_VIRTUAL_MEMORY, node), en1)
         else
           let rdata = (if is_zipped then zip_redo_bytes en1 else data);
               len = (if is_zipped then MAKE_ZIP_LEN (int (length rdata)) else int (length data))
           in (prior_lsa_copy_redo_data_to_node (ge_rdata_mem en) rdata (node\<lparr>pn_data_header := wr_log_redo rcvindex addr len\<rparr>), en1))"

text \<open>In pieces; for compressed undo data the error of copying is dropped.\<close>

definition prior_lsa_gen_undo_record_from_crumbs ::
    "int \<Rightarrow> log_data_addr \<Rightarrow> byte list list \<Rightarrow> log_prior_node \<Rightarrow> gen_env \<Rightarrow> (errcode \<times> log_prior_node) \<times> gen_env" where
  "prior_lsa_gen_undo_record_from_crumbs rcvindex addr crumbs node en =
     (let data = concat crumbs;
          (is_zipped, en1) = (if ge_zip_support en \<and> ge_zip_undo en \<noteq> None \<and> data \<noteq> [] \<and> ge_data_ptr en then zip_undo data en else (False, en))
      in if \<not> ge_header_mem en then ((ER_OUT_OF_VIRTUAL_MEMORY, node), en1)
         else if is_zipped
         then ((NO_ERROR, snd (prior_lsa_copy_undo_data_to_node (ge_udata_mem en) (zip_undo_bytes en1)
                  (node\<lparr>pn_data_header := wr_log_redo rcvindex addr (MAKE_ZIP_LEN (int (length (zip_undo_bytes en1))))\<rparr>))), en1)
         else (prior_lsa_copy_undo_crumbs_to_node (ge_udata_mem en) crumbs
                 (node\<lparr>pn_data_header := wr_log_redo rcvindex addr (int (length data))\<rparr>), en1))"

definition prior_lsa_gen_redo_record_from_crumbs ::
    "int \<Rightarrow> log_data_addr \<Rightarrow> byte list list \<Rightarrow> log_prior_node \<Rightarrow> gen_env \<Rightarrow> (errcode \<times> log_prior_node) \<times> gen_env" where
  "prior_lsa_gen_redo_record_from_crumbs rcvindex addr crumbs node en =
     (let data = concat crumbs;
          (is_zipped, en1) = (if ge_zip_support en \<and> ge_zip_redo en \<noteq> None \<and> data \<noteq> [] \<and> ge_data_ptr en then zip_redo data en else (False, en))
      in if \<not> ge_header_mem en then ((ER_OUT_OF_VIRTUAL_MEMORY, node), en1)
         else if is_zipped
         then (prior_lsa_copy_redo_data_to_node (ge_rdata_mem en) (zip_redo_bytes en1)
                 (node\<lparr>pn_data_header := wr_log_redo rcvindex addr (MAKE_ZIP_LEN (int (length (zip_redo_bytes en1))))\<rparr>), en1)
         else (prior_lsa_copy_redo_crumbs_to_node (ge_rdata_mem en) crumbs
                 (node\<lparr>pn_data_header := wr_log_redo rcvindex addr (int (length data))\<rparr>), en1))"

section \<open>Records of other types\<close>

text \<open>
  Records with a fixed part that the caller fills in: what the node has there
  is what the new block of memory holds.
\<close>

definition fresh_block :: "nat \<Rightarrow> gen_env \<Rightarrow> byte list" where
  "fresh_block n en = map (ge_fresh en) [0..<n]"

definition prior_lsa_gen_postpone_record ::
    "int \<Rightarrow> log_data_addr \<Rightarrow> byte list \<Rightarrow> log_prior_node \<Rightarrow> gen_env \<Rightarrow> errcode \<times> log_prior_node" where
  "prior_lsa_gen_postpone_record rcvindex addr data node en =
     (if \<not> ge_header_mem en then (ER_OUT_OF_VIRTUAL_MEMORY, node)
      else prior_lsa_copy_redo_data_to_node (ge_rdata_mem en) data (node\<lparr>pn_data_header := wr_log_redo rcvindex addr (int (length data))\<rparr>))"

definition prior_lsa_gen_dbout_redo_record :: "int \<Rightarrow> byte list \<Rightarrow> log_prior_node \<Rightarrow> gen_env \<Rightarrow> errcode \<times> log_prior_node" where
  "prior_lsa_gen_dbout_redo_record rcvindex data node en =
     (if \<not> ge_header_mem en then (ER_OUT_OF_VIRTUAL_MEMORY, node)
      else prior_lsa_copy_redo_data_to_node (ge_rdata_mem en) data
             (node\<lparr>pn_data_header := wr_int 4 rcvindex @ wr_int 4 (int (length data))\<rparr>))"

definition prior_lsa_gen_user_client_record :: "int \<Rightarrow> byte list \<Rightarrow> log_prior_node \<Rightarrow> gen_env \<Rightarrow> errcode \<times> log_prior_node" where
  "prior_lsa_gen_user_client_record rcvindex data node en =
     (if \<not> ge_header_mem en then (ER_OUT_OF_VIRTUAL_MEMORY, node)
      else prior_lsa_copy_undo_data_to_node (ge_udata_mem en) data
             (node\<lparr>pn_data_header := wr_int 4 rcvindex @ wr_int 4 (int (length data))\<rparr>))"

text \<open>Two parts of data, where the error of the first copy is overwritten by the second.\<close>

definition copy_two_parts :: "byte list \<Rightarrow> byte list \<Rightarrow> log_prior_node \<Rightarrow> gen_env \<Rightarrow> errcode \<times> log_prior_node" where
  "copy_two_parts undo redo node en =
     (let (err1, node1) = (if undo \<noteq> [] then prior_lsa_copy_undo_data_to_node (ge_udata_mem en) undo node else (NO_ERROR, node))
      in if redo \<noteq> [] then prior_lsa_copy_redo_data_to_node (ge_rdata_mem en) redo node1 else (err1, node1))"

abbreviation (input) SIZEOF_LOG_2PC_PREPCOMMIT :: nat where "SIZEOF_LOG_2PC_PREPCOMMIT \<equiv> 52"
abbreviation (input) SIZEOF_LOG_CHKPT :: nat where "SIZEOF_LOG_CHKPT \<equiv> 16"

definition prior_lsa_gen_2pc_prepare_record :: "byte list \<Rightarrow> byte list \<Rightarrow> log_prior_node \<Rightarrow> gen_env \<Rightarrow> errcode \<times> log_prior_node" where
  "prior_lsa_gen_2pc_prepare_record gtran_data lock_data node en =
     (if \<not> ge_header_mem en then (ER_OUT_OF_VIRTUAL_MEMORY, node)
      else copy_two_parts gtran_data lock_data (node\<lparr>pn_data_header := fresh_block SIZEOF_LOG_2PC_PREPCOMMIT en\<rparr>) en)"

definition prior_lsa_gen_end_chkpt_record :: "byte list \<Rightarrow> byte list \<Rightarrow> log_prior_node \<Rightarrow> gen_env \<Rightarrow> errcode \<times> log_prior_node" where
  "prior_lsa_gen_end_chkpt_record tran_data topop_data node en =
     (if \<not> ge_header_mem en then (ER_OUT_OF_VIRTUAL_MEMORY, node)
      else copy_two_parts tran_data topop_data (node\<lparr>pn_data_header := fresh_block SIZEOF_LOG_CHKPT en\<rparr>) en)"

text \<open>
  The sizes of the fixed parts of the remaining types, in bytes with padding.
  An address takes 8 bytes.
\<close>

definition gen_record_header_length :: "int \<Rightarrow> nat" where
  "gen_record_header_length rec_type =
     (if rec_type \<in> {LOG_RUN_POSTPONE, LOG_COMPENSATE} then 32
      else if rec_type \<in> {LOG_LCOMPENSATE, LOG_DUMMY_HA_SERVER_STATE, LOG_SAVEPOINT, LOG_COMMIT_TOPOPE_WITH_POSTPONE,
        LOG_COMMIT_TOPOPE_WITH_CLIENT_USER_LOOSE_ENDS, LOG_ABORT_TOPOPE_WITH_CLIENT_USER_LOOSE_ENDS,
        LOG_COMMIT_TOPOPE, LOG_ABORT_TOPOPE, LOG_REPLICATION_DATA, LOG_REPLICATION_SCHEMA, LOG_END_CHKPT} then 16
      else if rec_type = LOG_CLIENT_NAME then 33
      else if rec_type \<in> {LOG_COMMIT_WITH_POSTPONE, LOG_COMMIT_WITH_CLIENT_USER_LOOSE_ENDS, LOG_ABORT_WITH_CLIENT_USER_LOOSE_ENDS,
        LOG_COMMIT, LOG_ABORT, LOG_RUN_NEXT_CLIENT_POSTPONE, LOG_RUN_NEXT_CLIENT_UNDO} then 8
      else if rec_type = LOG_2PC_START then 48
      else 0)"

definition prior_lsa_gen_record :: "int \<Rightarrow> byte list \<Rightarrow> log_prior_node \<Rightarrow> gen_env \<Rightarrow> errcode \<times> log_prior_node" where
  "prior_lsa_gen_record rec_type data node en =
     (let header_length = gen_record_header_length rec_type
      in if 0 < header_length \<and> \<not> ge_header_mem en then (ER_OUT_OF_VIRTUAL_MEMORY, node)
         else
           let node1 = node\<lparr>pn_data_header := fresh_block header_length en\<rparr>
           in if data \<noteq> [] then prior_lsa_copy_undo_data_to_node (ge_udata_mem en) data node1 else (NO_ERROR, node1))"

section \<open>Nodes\<close>

text \<open>A new node; of its header only the type is set.\<close>

definition new_node :: "int \<Rightarrow> log_prior_node" where
  "new_node rec_type =
     \<lparr>pn_log_header = \<lparr>lr_prev_tranlsa = LSA_NULL, lr_back_lsa = LSA_NULL, lr_forw_lsa = LSA_NULL, lr_trid = 0, lr_type = rec_type\<rparr>,
      pn_start_lsa = LSA_NULL, pn_data_header = [], pn_udata = [], pn_rdata = []\<rparr>"

definition node_or_null :: "(errcode \<times> log_prior_node) \<times> gen_env \<Rightarrow> log_prior_node option \<times> gen_env" where
  "node_or_null r = (case r of ((err, node), en) \<Rightarrow> (if err = NO_ERROR then Some node else None, en))"

text \<open>
  The types that go to \<^verbatim>\<open>prior_lsa_gen_record\<close>. One of the case labels is
  \<^verbatim>\<open>TRAN_UNACTIVE_2PC_ABORT_DECISION\<close>, a state of a transaction with the value 14.
\<close>

abbreviation (input) TRAN_UNACTIVE_2PC_ABORT_DECISION :: int where "TRAN_UNACTIVE_2PC_ABORT_DECISION \<equiv> 14"

definition is_plain_record :: "int \<Rightarrow> bool" where
  "is_plain_record rec_type \<longleftrightarrow> rec_type \<in> {LOG_RUN_POSTPONE, LOG_COMPENSATE, LOG_SAVEPOINT, LOG_DUMMY_HEAD_POSTPONE,
     LOG_DUMMY_CRASH_RECOVERY, LOG_DUMMY_HA_SERVER_STATE, LOG_DUMMY_OVF_RECORD, LOG_2PC_COMMIT_DECISION,
     TRAN_UNACTIVE_2PC_ABORT_DECISION, LOG_LCOMPENSATE, LOG_CLIENT_NAME, LOG_COMMIT_WITH_POSTPONE, LOG_COMMIT_TOPOPE_WITH_POSTPONE,
     LOG_COMMIT_WITH_CLIENT_USER_LOOSE_ENDS, LOG_ABORT_WITH_CLIENT_USER_LOOSE_ENDS, LOG_COMMIT_TOPOPE_WITH_CLIENT_USER_LOOSE_ENDS,
     LOG_ABORT_TOPOPE_WITH_CLIENT_USER_LOOSE_ENDS, LOG_UNLOCK_COMMIT, LOG_COMMIT, LOG_ABORT, LOG_2PC_COMMIT_INFORM_PARTICPS,
     LOG_2PC_ABORT_INFORM_PARTICPS, LOG_COMMIT_TOPOPE, LOG_ABORT_TOPOPE, LOG_RUN_NEXT_CLIENT_POSTPONE, LOG_RUN_NEXT_CLIENT_UNDO,
     LOG_REPLICATION_DATA, LOG_REPLICATION_SCHEMA, LOG_2PC_START, LOG_START_CHKPT}"

text \<open>
  \<open>None\<close> stands for undefined behaviour of the caller, not for a null pointer:
  for a type without a case the source returns a node whose \<^verbatim>\<open>data_header_length\<close>
  was never set, and the caller reads it. \<open>Some (None, _)\<close> is the null pointer.
\<close>

definition prior_lsa_alloc_and_copy_data ::
    "int \<Rightarrow> int \<Rightarrow> log_data_addr \<Rightarrow> byte list \<Rightarrow> byte list \<Rightarrow> gen_env \<Rightarrow> (log_prior_node option \<times> gen_env) option" where
  "prior_lsa_alloc_and_copy_data rec_type rcvindex addr udata rdata en =
     (if \<not> ge_node_mem en then Some (None, en)
      else
        let node = new_node rec_type
        in map_option node_or_null
          (if rec_type = LOG_UNDOREDO_DATA \<or> rec_type = LOG_DIFF_UNDOREDO_DATA
           then Some (prior_lsa_gen_undoredo_record rcvindex addr udata rdata node en)
           else if rec_type = LOG_UNDO_DATA then Some (prior_lsa_gen_undo_record rcvindex addr udata node en)
           else if rec_type = LOG_REDO_DATA then Some (prior_lsa_gen_redo_record rcvindex addr rdata node en)
           else if rec_type = LOG_DBEXTERN_REDO_DATA then Some (prior_lsa_gen_dbout_redo_record rcvindex rdata node en, en)
           else if rec_type = LOG_POSTPONE then Some (prior_lsa_gen_postpone_record rcvindex addr rdata node en, en)
           else if rec_type = LOG_CLIENT_USER_UNDO_DATA \<or> rec_type = LOG_CLIENT_USER_POSTPONE_DATA
           then Some (prior_lsa_gen_user_client_record rcvindex udata node en, en)
           else if rec_type = LOG_2PC_PREPARE then Some (prior_lsa_gen_2pc_prepare_record udata rdata node en, en)
           else if rec_type = LOG_END_CHKPT then Some (prior_lsa_gen_end_chkpt_record udata rdata node en, en)
           else if is_plain_record rec_type then Some (prior_lsa_gen_record rec_type udata node en, en)
           else None))"

definition prior_lsa_alloc_and_copy_crumbs ::
    "int \<Rightarrow> int \<Rightarrow> log_data_addr \<Rightarrow> byte list list \<Rightarrow> byte list list \<Rightarrow> gen_env \<Rightarrow> log_prior_node option \<times> gen_env" where
  "prior_lsa_alloc_and_copy_crumbs rec_type rcvindex addr ucrumbs rcrumbs en =
     (if \<not> ge_node_mem en then (None, en)
      else node_or_null
        (if rec_type = LOG_UNDOREDO_DATA \<or> rec_type = LOG_DIFF_UNDOREDO_DATA
         then prior_lsa_gen_undoredo_record_from_crumbs rcvindex addr ucrumbs rcrumbs (new_node rec_type) en
         else if rec_type = LOG_UNDO_DATA then prior_lsa_gen_undo_record_from_crumbs rcvindex addr ucrumbs (new_node rec_type) en
         else if rec_type = LOG_REDO_DATA then prior_lsa_gen_redo_record_from_crumbs rcvindex addr rcrumbs (new_node rec_type) en
         else ((NO_ERROR, new_node rec_type), en)))"

section \<open>What a record stores\<close>

text \<open>
  The bytes \<open>bs\<close> with stored length \<open>len\<close> hold \<open>data\<close>: as it is, or compressed
  with the mark in the length.
\<close>

definition stored :: "lzo \<Rightarrow> int \<Rightarrow> byte list \<Rightarrow> byte list \<Rightarrow> bool" where
  "stored lz len bs data \<longleftrightarrow>
     len = int (length bs) \<and> bs = data \<or>
     len = MAKE_ZIP_LEN (int (length bs)) \<and> data \<noteq> [] \<and> length bs < length data \<and>
       (\<exists>out. lzo1x_1_compress lz data = (LZO_E_OK, out) \<and> bs = wr_int 4 (int (length data)) @ out)"

lemma stored_plain [simp]: "stored lz (int (length data)) data data"
  by (simp add: stored_def)

lemma wr_int_eq_Nil [simp]: "wr_int k i = [] \<longleftrightarrow> k = 0"
  using length_wr_int [of k i] by (metis length_0_conv)

lemma log_zip_stored:
  assumes "log_zip lz block data z = (True, z')"
  shows "stored lz (MAKE_ZIP_LEN (int (length (zip_bytes z')))) (zip_bytes z') data" "zip_bytes z' \<noteq> []"
proof -
  from log_zip_True [OF assms] obtain out where
    "lzo1x_1_compress lz data = (LZO_E_OK, out)" "zip_bytes z' = wr_int 4 (int (length data)) @ out" "length out + 4 < length data" .
  then show "stored lz (MAKE_ZIP_LEN (int (length (zip_bytes z')))) (zip_bytes z') data" "zip_bytes z' \<noteq> []"
    by (auto simp: stored_def)
qed

lemma zip_undo_stored:
  assumes "zip_undo data en = (ok, en')"
  shows "ok \<Longrightarrow> stored (ge_lzo en) (MAKE_ZIP_LEN (int (length (zip_undo_bytes en')))) (zip_undo_bytes en') data"
    and "ge_lzo en' = ge_lzo en" and "ge_redo_block en' = ge_redo_block en" and "ge_zip_redo en' = ge_zip_redo en"
    and "ok \<Longrightarrow> zip_undo_bytes en' \<noteq> []"
  using assms by (auto simp: zip_undo_def zip_undo_bytes_def log_zip_stored split: option.splits prod.splits)

lemma zip_redo_stored:
  assumes "zip_redo data en = (ok, en')"
  shows "ok \<Longrightarrow> stored (ge_lzo en) (MAKE_ZIP_LEN (int (length (zip_redo_bytes en')))) (zip_redo_bytes en') data"
    and "ge_zip_undo en' = ge_zip_undo en" and "ok \<Longrightarrow> zip_redo_bytes en' \<noteq> []"
  using assms by (auto simp: zip_redo_def zip_redo_bytes_def log_zip_stored split: option.splits prod.splits)

text \<open>What compressing both parts leaves, for a record with undo and redo data.\<close>

definition zipped_ok :: "gen_env \<Rightarrow> byte list \<Rightarrow> byte list \<Rightarrow> (bool \<times> bool \<times> bool) \<times> gen_env \<Rightarrow> bool" where
  "zipped_ok en undo redo r \<longleftrightarrow> (case r of ((is_undo_zip, is_redo_zip, is_diff), en') \<Rightarrow>
     (is_undo_zip \<longrightarrow> stored (ge_lzo en) (MAKE_ZIP_LEN (int (length (zip_undo_bytes en')))) (zip_undo_bytes en') undo \<and> zip_undo_bytes en' \<noteq> []) \<and>
     (is_redo_zip \<longrightarrow> stored (ge_lzo en) (MAKE_ZIP_LEN (int (length (zip_redo_bytes en')))) (zip_redo_bytes en')
        (if is_diff then log_diff undo redo else redo) \<and> zip_redo_bytes en' \<noteq> []) \<and>
     (is_diff \<longrightarrow> is_redo_zip \<and> undo \<noteq> []))"

lemma zip_both_ok: "zipped_ok en undo redo (zip_both undo redo en)"
proof -
  obtain u en1 where u: "(if undo \<noteq> [] then zip_undo undo en else (False, en)) = (u, en1)" by (metis surj_pair)
  obtain r en2 where r: "(if redo \<noteq> [] then zip_redo redo en1 else (False, en1)) = (r, en2)" by (metis surj_pair)
  have u': "undo \<noteq> [] \<Longrightarrow> zip_undo undo en = (u, en1)" "undo = [] \<Longrightarrow> \<not> u \<and> en1 = en" using u by (auto split: if_splits)
  have r': "redo \<noteq> [] \<Longrightarrow> zip_redo redo en1 = (r, en2)" "redo = [] \<Longrightarrow> \<not> r \<and> en2 = en1" using r by (auto split: if_splits)
  have "ge_lzo en1 = ge_lzo en" using u' zip_undo_stored(2) by metis
  moreover have "u \<Longrightarrow> stored (ge_lzo en) (MAKE_ZIP_LEN (int (length (zip_undo_bytes en1)))) (zip_undo_bytes en1) undo \<and> zip_undo_bytes en1 \<noteq> []"
    using u' zip_undo_stored(1,5) by blast
  moreover have "zip_undo_bytes en2 = zip_undo_bytes en1" using r' zip_redo_stored(2) unfolding zip_undo_bytes_def by metis
  moreover have "r \<Longrightarrow> stored (ge_lzo en1) (MAKE_ZIP_LEN (int (length (zip_redo_bytes en2)))) (zip_redo_bytes en2) redo \<and> zip_redo_bytes en2 \<noteq> []"
    using r' zip_redo_stored(1,3) by blast
  ultimately show ?thesis by (simp add: zipped_ok_def zip_both_def u r)
qed

lemma zip_diff_ok: "undo \<noteq> [] \<Longrightarrow> zipped_ok en undo redo (zip_diff undo redo en)"
proof -
  assume ne: "undo \<noteq> []"
  obtain u en1 where u: "zip_undo undo en = (u, en1)" by (metis surj_pair)
  obtain r en2 where r: "zip_redo (log_diff undo redo) en1 = (r, en2)" by (metis surj_pair)
  have "zip_undo_bytes en2 = zip_undo_bytes en1" using zip_redo_stored(2) [OF r] by (simp add: zip_undo_bytes_def)
  then show ?thesis using u r ne zip_undo_stored(1,2,5) [OF u] zip_redo_stored(1,3) [OF r]
    by (auto simp: zipped_ok_def zip_diff_def)
qed

text \<open>
  A record of undo and redo data that could be made: its fixed part gives the
  two lengths, its data are the undo data and the redo data, or their
  difference when the type says so.
\<close>

definition undoredo_node :: "lzo \<Rightarrow> int \<Rightarrow> log_data_addr \<Rightarrow> byte list \<Rightarrow> byte list \<Rightarrow> log_prior_node \<Rightarrow> bool" where
  "undoredo_node lz rcvindex addr undo redo n \<longleftrightarrow>
     (\<exists>is_diff ulength rlength. lr_type (pn_log_header n) = undoredo_type is_diff \<and>
        pn_data_header n = wr_log_undoredo rcvindex addr ulength rlength \<and> stored lz ulength (pn_udata n) undo \<and>
        stored lz rlength (pn_rdata n) (if is_diff then log_diff undo redo else redo) \<and> (is_diff \<longrightarrow> ZIP_CHECK rlength \<and> undo \<noteq> []))"

lemma undoredo_nodeI:
  assumes "zipped_ok en undo redo ((u, r, d), en1)" and "lr_type (pn_log_header n) = undoredo_type d"
    and "pn_udata n = (if u then zip_undo_bytes en1 else undo)" and "pn_rdata n = (if r then zip_redo_bytes en1 else redo)"
    and "pn_data_header n = wr_log_undoredo rcvindex addr
      (if u then MAKE_ZIP_LEN (int (length (zip_undo_bytes en1))) else int (length undo))
      (if r then MAKE_ZIP_LEN (int (length (zip_redo_bytes en1))) else int (length redo))"
  shows "undoredo_node (ge_lzo en) rcvindex addr undo redo n"
  unfolding undoredo_node_def
proof (intro exI conjI)
  show "stored (ge_lzo en) (if u then MAKE_ZIP_LEN (int (length (zip_undo_bytes en1))) else int (length undo)) (pn_udata n) undo"
    using assms(1,3) by (simp add: zipped_ok_def)
  show "stored (ge_lzo en) (if r then MAKE_ZIP_LEN (int (length (zip_redo_bytes en1))) else int (length redo)) (pn_rdata n)
      (if d then log_diff undo redo else redo)"
    using assms(1,4) by (auto simp: zipped_ok_def)
  show "d \<longrightarrow> ZIP_CHECK (if r then MAKE_ZIP_LEN (int (length (zip_redo_bytes en1))) else int (length redo)) \<and> undo \<noteq> []"
    using assms(1) ZIP_CHECK_MAKE by (simp add: zipped_ok_def)
qed (fact assms)+

lemma copy_undo_data: "prior_lsa_copy_undo_data_to_node mem data node = (NO_ERROR, node') \<Longrightarrow> pn_udata node = [] \<Longrightarrow> node' = node\<lparr>pn_udata := data\<rparr>"
  by (auto simp: prior_lsa_copy_undo_data_to_node_def split: if_splits)

lemma copy_redo_data: "prior_lsa_copy_redo_data_to_node mem data node = (NO_ERROR, node') \<Longrightarrow> pn_rdata node = [] \<Longrightarrow> node' = node\<lparr>pn_rdata := data\<rparr>"
  by (auto simp: prior_lsa_copy_redo_data_to_node_def split: if_splits)

lemma gen_undoredo_record:
  assumes "prior_lsa_gen_undoredo_record rcvindex addr undo redo (new_node ty) en = ((NO_ERROR, n), en')"
  shows "undoredo_node (ge_lzo en) rcvindex addr undo redo n"
proof -
  obtain u r d en1 where z: "(if zip_ready en then (if undo \<noteq> [] \<and> redo \<noteq> [] \<and> ge_data_ptr en then zip_diff undo redo en
      else zip_both undo redo en) else ((False, False, False), en)) = ((u, r, d), en1)" by (metis surj_pair)
  have ok: "zipped_ok en undo redo ((u, r, d), en1)"
    unfolding z [symmetric] using zip_both_ok [of en undo redo] zip_diff_ok [of undo en redo] by (simp add: zipped_ok_def)
  define ub where "ub = (if u then zip_undo_bytes en1 else undo)"
  define rb where "rb = (if r then zip_redo_bytes en1 else redo)"
  define n2 where "n2 = (set_type (undoredo_type d) (new_node ty))\<lparr>pn_data_header := wr_log_undoredo rcvindex addr
      (if u then MAKE_ZIP_LEN (int (length ub)) else int (length undo)) (if r then MAKE_ZIP_LEN (int (length rb)) else int (length redo))\<rparr>"
  have n2: "pn_udata n2 = []" "pn_rdata n2 = []" "lr_type (pn_log_header n2) = undoredo_type d"
    by (simp_all add: n2_def set_type_def new_node_def)
  obtain e3 n3 where 3: "prior_lsa_copy_undo_data_to_node (ge_udata_mem en) ub n2 = (e3, n3)" by (metis surj_pair)
  note D = assms [unfolded prior_lsa_gen_undoredo_record_def Let_def z prod.case, folded ub_def rb_def, folded n2_def, unfolded 3]
  have e3: "e3 = NO_ERROR" using D by (auto split: if_splits)
  have n3: "n3 = n2\<lparr>pn_udata := ub\<rparr>" using copy_undo_data 3 e3 n2(1) by blast
  have "prior_lsa_copy_redo_data_to_node (ge_rdata_mem en) rb n3 = (NO_ERROR, n)" using D e3 by (simp split: if_splits)
  then have "n = n3\<lparr>pn_rdata := rb\<rparr>" using copy_redo_data n3 n2(2) by simp
  with n3 n2(3) show ?thesis
    by (intro undoredo_nodeI [OF ok]) (simp_all add: ub_def rb_def n2_def)
qed

lemma sum_length_concat: "sum_list (map length crumbs) = length (concat crumbs)"
  by (simp add: length_concat)

lemma copy_undo_crumbs:
  "prior_lsa_copy_undo_crumbs_to_node mem crumbs node = (NO_ERROR, node') \<Longrightarrow> node' = node\<lparr>pn_udata := concat crumbs\<rparr>"
  by (auto simp: prior_lsa_copy_undo_crumbs_to_node_def sum_length_concat split: if_splits)

lemma copy_redo_crumbs:
  "prior_lsa_copy_redo_crumbs_to_node mem crumbs node = (NO_ERROR, node') \<Longrightarrow> node' = node\<lparr>pn_rdata := concat crumbs\<rparr>"
  by (auto simp: prior_lsa_copy_redo_crumbs_to_node_def sum_length_concat split: if_splits)

lemma copy_mem:
  "fst (prior_lsa_copy_undo_data_to_node True data node) = NO_ERROR" "fst (prior_lsa_copy_undo_crumbs_to_node True crumbs node) = NO_ERROR"
  by (simp_all add: prior_lsa_copy_undo_data_to_node_def prior_lsa_copy_undo_crumbs_to_node_def)

lemma gen_undoredo_record_from_crumbs:
  assumes "prior_lsa_gen_undoredo_record_from_crumbs rcvindex addr ucrumbs rcrumbs (new_node ty) en = ((NO_ERROR, n), en')"
    and "ge_udata_mem en"
  shows "undoredo_node (ge_lzo en) rcvindex addr (concat ucrumbs) (concat rcrumbs) n"
proof -
  define undo where "undo = concat ucrumbs"
  define redo where "redo = concat rcrumbs"
  obtain u r d en1 where z: "(if zip_ready en \<and> ge_data_ptr en then (if undo \<noteq> [] \<and> redo \<noteq> [] then zip_diff undo redo en
      else zip_both undo redo en) else ((False, False, False), en)) = ((u, r, d), en1)" by (metis surj_pair)
  have ok: "zipped_ok en undo redo ((u, r, d), en1)"
    unfolding z [symmetric] using zip_both_ok [of en undo redo] zip_diff_ok [of undo en redo] by (simp add: zipped_ok_def)
  define n2 where "n2 = (set_type (undoredo_type d) (new_node ty))\<lparr>pn_data_header := wr_log_undoredo rcvindex addr
      (if u then MAKE_ZIP_LEN (int (length (zip_undo_bytes en1))) else int (length undo))
      (if r then MAKE_ZIP_LEN (int (length (zip_redo_bytes en1))) else int (length redo))\<rparr>"
  have n2: "pn_udata n2 = []" "pn_rdata n2 = []" "lr_type (pn_log_header n2) = undoredo_type d"
    by (simp_all add: n2_def set_type_def new_node_def)
  obtain e3 n3 where 3: "(if u then prior_lsa_copy_undo_data_to_node (ge_udata_mem en) (zip_undo_bytes en1) n2
      else prior_lsa_copy_undo_crumbs_to_node (ge_udata_mem en) ucrumbs n2) = (e3, n3)" by (metis surj_pair)
  obtain e4 n4 where 4: "(if r then prior_lsa_copy_redo_data_to_node (ge_rdata_mem en) (zip_redo_bytes en1) n3
      else prior_lsa_copy_redo_crumbs_to_node (ge_rdata_mem en) rcrumbs n3) = (e4, n4)" by (metis surj_pair)
  note D = assms(1) [unfolded prior_lsa_gen_undoredo_record_from_crumbs_def Let_def undo_def [symmetric] redo_def [symmetric] z prod.case,
      folded n2_def, unfolded 3 prod.case 4]
  have e: "e4 = NO_ERROR" "n = n4" using D by (auto split: if_splits)
  have "e3 = NO_ERROR" using 3 assms(2) copy_mem(1) [of "zip_undo_bytes en1" n2] copy_mem(2) [of ucrumbs n2] by (auto split: if_splits)
  then have n3: "n3 = n2\<lparr>pn_udata := (if u then zip_undo_bytes en1 else undo)\<rparr>"
    using 3 copy_undo_data copy_undo_crumbs n2(1) undo_def by (cases u) auto
  then have "n4 = n3\<lparr>pn_rdata := (if r then zip_redo_bytes en1 else redo)\<rparr>"
    using 4 e(1) copy_redo_data copy_redo_crumbs n2(2) redo_def by (cases r) auto
  with n3 n2(3) e(2) show ?thesis unfolding undo_def [symmetric] redo_def [symmetric]
    by (intro undoredo_nodeI [OF ok]) (simp_all add: n2_def)
qed

text \<open>A node with redo data only.\<close>

definition redo_node :: "lzo \<Rightarrow> int \<Rightarrow> log_data_addr \<Rightarrow> byte list \<Rightarrow> log_prior_node \<Rightarrow> bool" where
  "redo_node lz rcvindex addr redo n \<longleftrightarrow> lr_type (pn_log_header n) = LOG_REDO_DATA \<and> pn_udata n = [] \<and>
     (\<exists>rl. pn_data_header n = wr_log_redo rcvindex addr rl \<and> stored lz rl (pn_rdata n) redo)"

lemma zip_redo_if:
  assumes "(if c then zip_redo data en else (False, en)) = (z, en1)" and "z"
  shows "stored (ge_lzo en) (MAKE_ZIP_LEN (int (length (zip_redo_bytes en1)))) (zip_redo_bytes en1) data"
  using assms zip_redo_stored(1) by (auto split: if_splits)

lemma gen_redo_record:
  assumes "prior_lsa_gen_redo_record rcvindex addr redo (new_node LOG_REDO_DATA) en = ((NO_ERROR, n), en')"
  shows "redo_node (ge_lzo en) rcvindex addr redo n"
proof -
  obtain z en1 where z: "(if ge_zip_support en \<and> ge_zip_redo en \<noteq> None \<and> redo \<noteq> [] then zip_redo redo en else (False, en)) = (z, en1)"
    by (metis surj_pair)
  note D = assms [unfolded prior_lsa_gen_redo_record_def Let_def z prod.case]
  have c: "prior_lsa_copy_redo_data_to_node (ge_rdata_mem en) (if z then zip_redo_bytes en1 else redo)
      ((new_node LOG_REDO_DATA)\<lparr>pn_data_header := wr_log_redo rcvindex addr
        (if z then MAKE_ZIP_LEN (int (length (if z then zip_redo_bytes en1 else redo))) else int (length redo))\<rparr>) = (NO_ERROR, n)"
    using D by (auto split: if_splits)
  from copy_redo_data [OF this] zip_redo_if [OF z] show ?thesis by (cases z) (auto simp: redo_node_def new_node_def)
qed

lemma gen_redo_record_from_crumbs:
  assumes "prior_lsa_gen_redo_record_from_crumbs rcvindex addr crumbs (new_node LOG_REDO_DATA) en = ((NO_ERROR, n), en')"
  shows "redo_node (ge_lzo en) rcvindex addr (concat crumbs) n"
proof -
  define redo where "redo = concat crumbs"
  obtain z en1 where z: "(if ge_zip_support en \<and> ge_zip_redo en \<noteq> None \<and> redo \<noteq> [] \<and> ge_data_ptr en then zip_redo redo en else (False, en)) = (z, en1)"
    by (metis surj_pair)
  note D = assms [unfolded prior_lsa_gen_redo_record_from_crumbs_def Let_def redo_def [symmetric] z prod.case]
  show ?thesis unfolding redo_def [symmetric]
  proof (cases z)
    case True
    with D have "prior_lsa_copy_redo_data_to_node (ge_rdata_mem en) (zip_redo_bytes en1) ((new_node LOG_REDO_DATA)
        \<lparr>pn_data_header := wr_log_redo rcvindex addr (MAKE_ZIP_LEN (int (length (zip_redo_bytes en1))))\<rparr>) = (NO_ERROR, n)" by (auto split: if_splits)
    from copy_redo_data [OF this] zip_redo_if [OF z] True show "redo_node (ge_lzo en) rcvindex addr redo n"
      by (auto simp: redo_node_def new_node_def)
  next
    case False
    with D have "prior_lsa_copy_redo_crumbs_to_node (ge_rdata_mem en) crumbs ((new_node LOG_REDO_DATA)
        \<lparr>pn_data_header := wr_log_redo rcvindex addr (int (length redo))\<rparr>) = (NO_ERROR, n)" by (auto split: if_splits)
    from copy_redo_crumbs [OF this] show "redo_node (ge_lzo en) rcvindex addr redo n"
      by (auto simp: redo_node_def new_node_def redo_def)
  qed
qed

text \<open>With memory a record can be made.\<close>

lemma copy_mem_redo:
  "fst (prior_lsa_copy_redo_data_to_node True data node) = NO_ERROR" "fst (prior_lsa_copy_redo_crumbs_to_node True crumbs node) = NO_ERROR"
  by (simp_all add: prior_lsa_copy_redo_data_to_node_def prior_lsa_copy_redo_crumbs_to_node_def)

lemma undoredo_crumbs_total:
  assumes "ge_node_mem en" "ge_header_mem en" "ge_rdata_mem en"
  shows "\<exists>node en'. prior_lsa_alloc_and_copy_crumbs LOG_UNDOREDO_DATA rcvindex addr ucrumbs rcrumbs en = (Some node, en')"
proof -
  have "fst (fst (prior_lsa_gen_undoredo_record_from_crumbs rcvindex addr ucrumbs rcrumbs node en)) = NO_ERROR" for node
    using assms copy_mem_redo
    by (auto simp: prior_lsa_gen_undoredo_record_from_crumbs_def Let_def case_prod_unfold)
  then show ?thesis using assms(1) by (auto simp: prior_lsa_alloc_and_copy_crumbs_def node_or_null_def case_prod_unfold)
qed

section \<open>Properties\<close>

text \<open>
  C40. A record made from pieces loses its undo data without notice: when
  there is no memory for a copy of the undo data but for the rest, the error is
  overwritten and the node is returned as a good one. Its fixed part announces
  undo data (a length other than zero) that the node does not have, so that
  every reader of the record takes what follows for undo data.
\<close>

theorem crumbs_lose_undo_data:
  assumes "ge_node_mem en" and "ge_header_mem en" and "ge_rdata_mem en" and "\<not> ge_udata_mem en" and "concat ucrumbs \<noteq> []"
    and "\<not> ge_zip_support en"
  shows "\<exists>node. prior_lsa_alloc_and_copy_crumbs LOG_UNDOREDO_DATA rcvindex addr ucrumbs rcrumbs en = (Some node, en) \<and>
    pn_udata node = [] \<and> pn_rdata node = concat rcrumbs \<and>
    pn_data_header node = wr_log_undoredo rcvindex addr (int (length (concat ucrumbs))) (int (length (concat rcrumbs)))"
  using assms
  by (simp add: prior_lsa_alloc_and_copy_crumbs_def node_or_null_def prior_lsa_gen_undoredo_record_from_crumbs_def zip_ready_def Let_def
      prior_lsa_copy_undo_crumbs_to_node_def prior_lsa_copy_redo_crumbs_to_node_def sum_length_concat set_type_def new_node_def)

text \<open>A compressor of runs, for the witnesses.\<close>

definition ex_lzo :: lzo where
  "ex_lzo = \<lparr>lzo1x_1_compress = \<lambda>data. (if data \<noteq> [] \<and> list_all (\<lambda>b. b = hd data) data then (LZO_E_OK, [hd data]) else (-1, [])),
     lzo1x_decompress_safe = \<lambda>src n. (LZO_E_OK, replicate n (hd src))\<rparr>"

lemma ex_lzo_ok: "lzo_ok ex_lzo"
  unfolding lzo_ok_def ex_lzo_def by (auto simp: list_all_iff Suc_le_eq split: if_splits intro!: replicate_eqI [symmetric])

definition ex_zip :: LOG_ZIP where
  "ex_zip = \<lparr>z_data_length = 0, z_buf_size = 0, z_log_data = Some []\<rparr>"

definition ex_gen :: gen_env where
  "ex_gen = \<lparr>ge_lzo = ex_lzo, ge_zip_support = True, ge_zip_undo = Some ex_zip, ge_zip_redo = Some ex_zip, ge_data_ptr = True,
     ge_undo_block = Some [], ge_redo_block = Some [], ge_node_mem = True, ge_header_mem = True, ge_udata_mem = True, ge_rdata_mem = True,
     ge_fresh = \<lambda>n. 0\<rparr>"

definition ex_addr :: log_data_addr where
  "ex_addr = \<lparr>da_vpid = Some (7, 0), da_offset = 3\<rparr>"

lemma crumbs_lose_undo_data_witness:
  "\<exists>node. prior_lsa_alloc_and_copy_crumbs LOG_UNDOREDO_DATA 5 ex_addr [[1, 2]] [[3]] (ex_gen\<lparr>ge_udata_mem := False, ge_zip_support := False\<rparr>) =
     (Some node, ex_gen\<lparr>ge_udata_mem := False, ge_zip_support := False\<rparr>) \<and> pn_udata node = []"
  using crumbs_lose_undo_data [of "ex_gen\<lparr>ge_udata_mem := False, ge_zip_support := False\<rparr>" "[[1, 2]]" 5 ex_addr "[[3]]"]
  by (auto simp: ex_gen_def)

end
