(* ===== verification/Or_Pack.thy ===== *)
theory Or_Pack
  imports Cubrid_Prelude
begin

text \<open>
  Packing of integers and strings into communication and log areas
  (\<^verbatim>\<open>object/object_representation.c\<close>): integers in network byte order,
  strings with a length, a terminating zero and padding to a multiple of four.
  A pointer into an area is the rest of the area from there.
\<close>

abbreviation (input) OR_INT_SIZE :: nat where "OR_INT_SIZE \<equiv> 4"

definition OR_PUT_INT :: "int \<Rightarrow> byte list" where
  "OR_PUT_INT i = rev (wr_int 4 i)"

definition OR_GET_INT :: "byte list \<Rightarrow> int" where
  "OR_GET_INT ptr = rd_int 4 0 (rev (take 4 ptr))"

definition or_pack_int :: "byte list \<Rightarrow> int \<Rightarrow> byte list" where
  "or_pack_int area number = area @ OR_PUT_INT number"

text \<open>A \<^verbatim>\<open>NULL\<close> pointer is \<open>None\<close>.\<close>

definition or_unpack_int :: "byte list option \<Rightarrow> int \<times> byte list option" where
  "or_unpack_int ptr =
     (case ptr of None \<Rightarrow> (0, None) | Some p \<Rightarrow> (OR_GET_INT p, Some (drop OR_INT_SIZE p)))"

text \<open>
  Strings are the bytes before their terminating zero; packing appends to the
  area what \<^verbatim>\<open>or_pack_string\<close> writes.
\<close>

definition or_pack_string :: "byte list \<Rightarrow> byte list option \<Rightarrow> byte list" where
  "or_pack_string area string =
     (case string of
        None \<Rightarrow> area @ OR_PUT_INT (-1)
      | Some s \<Rightarrow>
          (let len = length s + 1; bits = len mod 4; pad = (if bits \<noteq> 0 then 4 - bits else 0)
           in area @ OR_PUT_INT (int (len + pad)) @ (s @ [0]) @ replicate pad 0))"

text \<open>
  The string whose length the caller has: \<open>len\<close> bytes and the zero behind
  them are copied from the string.
\<close>

definition or_pack_string_with_length :: "byte list \<Rightarrow> byte list option \<Rightarrow> nat \<Rightarrow> byte list" where
  "or_pack_string_with_length area string strlen =
     (case string of
        None \<Rightarrow> area @ OR_PUT_INT (-1)
      | Some s \<Rightarrow>
          (let len = strlen + 1; bits = len mod 4; pad = (if bits \<noteq> 0 then 4 - bits else 0)
           in area @ OR_PUT_INT (int (len + pad)) @ take len (s @ [0]) @ replicate pad 0))"

text \<open>The length of the packed string, and that of the string (\<^verbatim>\<open>*strlenp\<close>).\<close>

definition or_packed_string_length :: "byte list option \<Rightarrow> nat \<times> nat" where
  "or_packed_string_length string =
     (case string of
        None \<Rightarrow> (OR_INT_SIZE, 0)
      | Some s \<Rightarrow>
          (let len = length s + 1; bits = len mod 4; pad = (if bits \<noteq> 0 then 4 - bits else 0)
           in (OR_INT_SIZE + (len + pad), length s)))"

text \<open>
  \<open>mem\<close>: whether the allocation of the result succeeds. The result is the block,
  zeros included. The length is -1 or the size of the block that follows; of
  other negative lengths, which no packing function writes and with which the
  source moves its pointer back, the model makes an empty string.
\<close>

definition or_unpack_string :: "bool \<Rightarrow> byte list \<Rightarrow> byte list option \<times> byte list" where
  "or_unpack_string mem ptr =
     (let len = OR_GET_INT ptr; rest = drop OR_INT_SIZE ptr in
      if len = -1 then (None, rest)
      else (if mem then Some (take (nat len) rest) else None, drop (nat len) rest))"

text \<open>The C string in a block.\<close>

definition c_string :: "byte list \<Rightarrow> byte list" where
  "c_string block = takeWhile (\<lambda>b. b \<noteq> 0) block"

section \<open>Round trips\<close>

lemma length_OR_PUT_INT [simp]: "length (OR_PUT_INT i) = 4"
  by (simp add: OR_PUT_INT_def)

lemma OR_GET_PUT_INT:
  assumes "- (2 ^ 31) \<le> i" and "i < 2 ^ 31"
  shows "OR_GET_INT (OR_PUT_INT i @ rest) = i"
  using rd_wr_int [of 4 i "[]" "[]"] assms by (simp add: OR_GET_INT_def OR_PUT_INT_def)

lemma drop_OR_PUT_INT [simp]: "drop 4 (OR_PUT_INT i @ rest) = rest"
  by simp

lemma or_unpack_pack_int:
  "- (2 ^ 31) \<le> i \<Longrightarrow> i < 2 ^ 31 \<Longrightarrow> or_unpack_int (Some (or_pack_int [] i @ rest)) = (i, Some rest)"
  by (simp add: or_unpack_int_def or_pack_int_def OR_GET_PUT_INT)

lemma or_pack_string_aligned: "4 dvd length (or_pack_string [] string)"
  by (cases string) (simp_all add: or_pack_string_def Let_def, presburger)

lemma or_pack_string_with_length_eq:
  "or_pack_string_with_length area string (snd (or_packed_string_length string)) = or_pack_string area string"
  by (cases string) (simp_all add: or_pack_string_with_length_def or_packed_string_length_def or_pack_string_def Let_def)

lemma length_or_pack_string: "length (or_pack_string area string) = length area + fst (or_packed_string_length string)"
  by (cases string) (simp_all add: or_packed_string_length_def or_pack_string_def Let_def)

lemma or_pack_string_append: "or_pack_string area string = area @ or_pack_string [] string"
  by (cases string) (simp_all add: or_pack_string_def Let_def)

lemma or_unpack_pack_string:
  assumes "\<And>s. string = Some s \<Longrightarrow> 0 \<notin> set s \<and> length s + 4 < 2 ^ 31"
  shows "fst (or_unpack_string True (or_pack_string [] string @ rest)) = None \<longleftrightarrow> string = None"
    and "string = Some s \<Longrightarrow>
      map_option c_string (fst (or_unpack_string True (or_pack_string [] string @ rest))) = Some s"
    and "snd (or_unpack_string True (or_pack_string [] string @ rest)) = rest"
proof -
  have none: "or_unpack_string True (or_pack_string [] None @ rest) = (None, rest)"
    using OR_GET_PUT_INT [of "-1" rest] by (simp add: or_pack_string_def or_unpack_string_def)
  have some: "\<exists>pad. or_unpack_string True (or_pack_string [] (Some t) @ rest) = (Some (t @ 0 # replicate pad 0), rest)"
    if t: "length t + 4 < 2 ^ 31" for t
  proof -
    define pad where "pad = (if (length t + 1) mod 4 \<noteq> 0 then 4 - (length t + 1) mod 4 else 0)"
    have p: "pad < 4" by (simp add: pad_def)
    let ?n = "int (length t + 1 + pad)" and ?body = "t @ 0 # replicate pad 0"
    have area: "or_pack_string [] (Some t) @ rest = OR_PUT_INT ?n @ ?body @ rest"
      by (simp add: or_pack_string_def Let_def pad_def)
    have "?n < 2 ^ 31" using t p by simp
    then have "OR_GET_INT (OR_PUT_INT ?n @ ?body @ rest) = ?n" by (intro OR_GET_PUT_INT) auto
    moreover have "nat ?n = length ?body" by simp
    ultimately have "or_unpack_string True (OR_PUT_INT ?n @ ?body @ rest) = (Some ?body, rest)"
      unfolding or_unpack_string_def Let_def drop_OR_PUT_INT by simp
    then show ?thesis unfolding area by blast
  qed
  show "fst (or_unpack_string True (or_pack_string [] string @ rest)) = None \<longleftrightarrow> string = None"
    and "snd (or_unpack_string True (or_pack_string [] string @ rest)) = rest"
    using none some assms by (cases string; fastforce)+
  assume s: "string = Some s"
  then obtain pad where "or_unpack_string True (or_pack_string [] string @ rest) = (Some (s @ 0 # replicate pad 0), rest)"
    using some assms by blast
  moreover have "c_string (s @ 0 # replicate pad 0) = s"
  proof -
    have "\<And>x. x \<in> set s \<Longrightarrow> x \<noteq> 0" using assms [OF s] by auto
    then show ?thesis by (simp add: c_string_def takeWhile_append2)
  qed
  ultimately show "map_option c_string (fst (or_unpack_string True (or_pack_string [] string @ rest))) = Some s"
    by simp
qed

section \<open>Property\<close>

text \<open>
  C35. Packing a string (or the absence of one) and unpacking it gives the string
  back and leaves the pointer at what follows, and the packed form is a
  multiple of four bytes long.
\<close>

theorem or_string_roundtrip:
  assumes "\<forall>s. string = Some s \<longrightarrow> 0 \<notin> set s \<and> length s + 4 < 2 ^ 31"
  shows "map_option c_string (fst (or_unpack_string True (or_pack_string [] string @ rest))) = string \<and>
    snd (or_unpack_string True (or_pack_string [] string @ rest)) = rest \<and>
    4 dvd length (or_pack_string [] string)"
proof (cases string)
  case None
  then show ?thesis using or_unpack_pack_string [of string] or_pack_string_aligned by simp
next
  case (Some s)
  then show ?thesis using or_unpack_pack_string(2) [of string s rest] or_unpack_pack_string(3) [of string rest] assms or_pack_string_aligned by simp
qed

lemma or_string_roundtrip_witness:
  "map_option c_string (fst (or_unpack_string True (or_pack_string [] (Some [116, 49]) @ [7]))) = Some [116, 49]"
  using or_string_roundtrip [of "Some [116, 49]" "[7]"] by simp

end
