(* ===== verification/La_Repl.thy ===== *)
theory La_Repl
  imports La_Read Or_Pack
begin

text \<open>
  The replication items and the commit queue of the log applier
  (\<^verbatim>\<open>transaction/log_applier.c\<close>). Every transaction that is open in the
  log has an apply list, which collects its replication items in the order of
  the log; when the commit record is met its items are applied. A transaction
  with more than \<^verbatim>\<open>LA_MAX_REPL_ITEMS\<close> items becomes a long transaction: of its
  items only the first is kept, with the address of the last one, and the
  others are read again from the log.

  The doubly linked lists of items and of commits are lists here, from head to
  tail; the counter \<^verbatim>\<open>num_items\<close> is kept beside the list, as in the source.
\<close>

section \<open>State\<close>

abbreviation (input) LA_MAX_REPL_ITEMS :: int where "LA_MAX_REPL_ITEMS \<equiv> 1000"
abbreviation (input) LA_REPL_LIST_COUNT :: nat where "LA_REPL_LIST_COUNT \<equiv> 50"

text \<open>\<^verbatim>\<open>struct la_item\<close>; \<open>'v\<close> is the type of database values (\<^verbatim>\<open>DB_VALUE\<close>).\<close>

record 'v la_item =
  it_log_type :: int
  it_item_type :: int
  it_class_name :: "byte list option"
  it_db_user :: "byte list option"
  it_ha_sys_prm :: "byte list option"
  it_key :: "'v option"
  it_lsa :: log_lsa
  it_target_lsa :: log_lsa

record 'v la_apply =
  ap_tranid :: tranid
  ap_num_items :: int
  ap_is_long_trans :: bool
  ap_start_lsa :: log_lsa
  ap_last_lsa :: log_lsa
  ap_items :: "'v la_item list"

record la_commit =
  co_type :: int
  co_tranid :: tranid
  co_log_lsa :: log_lsa
  co_log_record_time :: int

text \<open>
  The fields of \<^verbatim>\<open>la_Info\<close> these operations use. \<open>repl_lists\<close> holds
  the \<open>repl_cnt\<close> allocated lists (none when the allocation failed), of
  which the first \<open>cur_repl\<close> are in use; \<open>commits\<close> is the queue from \<^verbatim>\<open>commit_head\<close> to
  \<^verbatim>\<open>commit_tail\<close>.
\<close>

record 'v la_repl =
  repl_lists :: "'v la_apply list"
  repl_cnt :: nat
  cur_repl :: nat
  commits :: "la_commit list"

definition empty_apply :: "'v la_apply" where
  "empty_apply = \<lparr>ap_tranid = 0, ap_num_items = 0, ap_is_long_trans = False,
     ap_start_lsa = LSA_NULL, ap_last_lsa = LSA_NULL, ap_items = []\<rparr>"

section \<open>Apply lists\<close>

text \<open>
  \<^verbatim>\<open>la_init_repl_lists\<close>. \<open>mem\<close> answers the allocations: that of the
  array, then one per list.
\<close>

definition la_init_repl_lists :: "(nat \<Rightarrow> bool) \<Rightarrow> bool \<Rightarrow> 'v la_repl \<Rightarrow> errcode \<times> 'v la_repl" where
  "la_init_repl_lists mem need_realloc info =
     (let old = (if need_realloc then repl_lists info else []);
          info0 = (if need_realloc then info\<lparr>repl_cnt := repl_cnt info + LA_REPL_LIST_COUNT\<rparr>
                   else info\<lparr>repl_cnt := LA_REPL_LIST_COUNT, cur_repl := 0\<rparr>)
      in if \<not> mem 0 then (ER_OUT_OF_VIRTUAL_MEMORY, info0\<lparr>repl_lists := []\<rparr>)
         else if \<exists>i < LA_REPL_LIST_COUNT. \<not> mem (Suc i)
         then (ER_OUT_OF_VIRTUAL_MEMORY, info0\<lparr>repl_lists := []\<rparr>)
         else (NO_ERROR, info0\<lparr>repl_lists := old @ replicate LA_REPL_LIST_COUNT empty_apply\<rparr>))"

definition la_is_repl_lists_empty :: "'v la_repl \<Rightarrow> bool" where
  "la_is_repl_lists_empty info \<longleftrightarrow> (\<forall>a \<in> set (take (cur_repl info) (repl_lists info)). \<not> 0 < ap_num_items a)"

text \<open>The first list in use that satisfies a condition, by its index.\<close>

fun first_index :: "('a \<Rightarrow> bool) \<Rightarrow> 'a list \<Rightarrow> nat option" where
  "first_index p [] = None"
| "first_index p (x # xs) = (if p x then Some 0 else map_option Suc (first_index p xs))"

definition la_find_apply_list :: "tranid \<Rightarrow> 'v la_repl \<Rightarrow> nat option" where
  "la_find_apply_list tranid info =
     first_index (\<lambda>a. ap_tranid a = tranid) (take (cur_repl info) (repl_lists info))"

definition set_apply :: "nat \<Rightarrow> 'v la_apply \<Rightarrow> 'v la_repl \<Rightarrow> 'v la_repl" where
  "set_apply i a info = info\<lparr>repl_lists := (repl_lists info)[i := a]\<rparr>"

definition la_add_apply_list :: "(nat \<Rightarrow> bool) \<Rightarrow> tranid \<Rightarrow> 'v la_repl \<Rightarrow> nat option \<times> 'v la_repl" where
  "la_add_apply_list mem tranid info =
     (case la_find_apply_list tranid info of
        Some i \<Rightarrow> (Some i, info)
      | None \<Rightarrow>
          (case la_find_apply_list 0 info of
             Some i \<Rightarrow> (Some i, set_apply i ((repl_lists info ! i)\<lparr>ap_tranid := tranid\<rparr>) info)
           | None \<Rightarrow>
               let take_next = (\<lambda>inf. let i = cur_repl inf in
                     (Some i, (set_apply i ((repl_lists inf ! i)\<lparr>ap_tranid := tranid\<rparr>) inf)\<lparr>cur_repl := Suc i\<rparr>))
               in if cur_repl info = repl_cnt info
                  then (case la_init_repl_lists mem True info of
                          (err, info') \<Rightarrow> if err = NO_ERROR then take_next info' else (None, info'))
                  else take_next info))"

section \<open>Items\<close>

definition la_new_repl_item :: "log_lsa \<Rightarrow> log_lsa \<Rightarrow> 'v la_item" where
  "la_new_repl_item lsa target_lsa =
     \<lparr>it_log_type = -1, it_item_type = -1, it_class_name = None, it_db_user = None, it_ha_sys_prm = None,
      it_key = None, it_lsa = lsa, it_target_lsa = target_lsa\<rparr>"

definition la_add_repl_item :: "'v la_apply \<Rightarrow> 'v la_item \<Rightarrow> 'v la_apply" where
  "la_add_repl_item app item =
     app\<lparr>ap_items := ap_items app @ [item], ap_num_items := ap_num_items app + 1\<rparr>"

text \<open>
  Unlinking: an item that is not linked (one read from the log for a long
  transaction) is left alone. Freeing is unlinking, since the memory of an
  item is not modelled.
\<close>

definition la_unlink_repl_item :: "'v la_apply \<Rightarrow> 'v la_item \<Rightarrow> 'v la_apply" where
  "la_unlink_repl_item app item =
     (if item \<notin> set (ap_items app) then app
      else app\<lparr>ap_items := remove1 item (ap_items app),
               ap_num_items := (if ap_num_items app - 1 < 0 then 0 else ap_num_items app - 1)\<rparr>)"

definition la_free_repl_item :: "'v la_apply \<Rightarrow> 'v la_item \<Rightarrow> 'v la_apply" where
  "la_free_repl_item app item = la_unlink_repl_item app item"

definition la_free_all_repl_items_except_head :: "'v la_apply \<Rightarrow> 'v la_apply" where
  "la_free_all_repl_items_except_head app =
     (case ap_items app of [] \<Rightarrow> app | h # t \<Rightarrow> fold (\<lambda>item a. la_free_repl_item a item) t app)"

text \<open>The loop of \<^verbatim>\<open>la_free_and_add_next_repl_item\<close> over the items before the commit.\<close>

definition la_free_and_add_next_repl_item ::
    "'v la_apply \<Rightarrow> 'v la_item option \<Rightarrow> log_lsa \<Rightarrow> 'v la_apply" where
  "la_free_and_add_next_repl_item app last_item commit_lsa =
     (if ap_is_long_trans app then
        (case last_item of
           Some item \<Rightarrow> if ap_items app = [] then la_add_repl_item app item else app
         | None \<Rightarrow> app)
      else fold (\<lambda>item a. la_free_repl_item a item)
             (takeWhile (\<lambda>item. LSA_LT (it_lsa item) commit_lsa) (ap_items app)) app)"

definition la_free_all_repl_items :: "'v la_apply \<Rightarrow> 'v la_apply" where
  "la_free_all_repl_items app =
     (let app1 = la_free_all_repl_items_except_head app;
          app2 = (case ap_items app1 of [] \<Rightarrow> app1 | h # _ \<Rightarrow> la_free_repl_item app1 h)
      in app2\<lparr>ap_num_items := 0, ap_is_long_trans := False, ap_items := []\<rparr>)"

definition la_clear_applied_info :: "'v la_apply \<Rightarrow> 'v la_apply" where
  "la_clear_applied_info app =
     (la_free_all_repl_items app)\<lparr>ap_start_lsa := LSA_NULL, ap_last_lsa := LSA_NULL, ap_tranid := 0\<rparr>"

text \<open>
  Making an item from the record at \<open>lsa\<close>. Database values are read by
  \<^verbatim>\<open>or_unpack_mem_value\<close> and made by \<^verbatim>\<open>db_make_string\<close>,
  parameters here; \<open>alloc\<close> answers an allocation.
\<close>

record 'v la_values =
  up_mem_value :: "byte list \<Rightarrow> 'v"
  mk_string :: "byte list option \<Rightarrow> 'v"

definition la_unpack_string :: "('s \<Rightarrow> bool \<times> 's) \<Rightarrow> byte list \<Rightarrow> 's \<Rightarrow> (byte list option \<times> byte list) \<times> 's" where
  "la_unpack_string alloc ptr s =
     (if OR_GET_INT ptr = -1 then (or_unpack_string True ptr, s)
      else case alloc s of (ok, s') \<Rightarrow> (or_unpack_string ok ptr, s'))"

definition la_fill_repl_item ::
    "('s \<Rightarrow> bool \<times> 's) \<Rightarrow> 'v la_values \<Rightarrow> int \<Rightarrow> int \<Rightarrow> byte list \<Rightarrow> 'v la_item \<Rightarrow> 's \<Rightarrow> 'v la_item option \<times> 's" where
  "la_fill_repl_item alloc up log_type rcvindex area item s =
     (if log_type = LOG_REPLICATION_DATA then
        (let ((class_name, ptr), s1) = la_unpack_string alloc area s
         in (Some (item\<lparr>it_class_name := class_name, it_key := Some (up_mem_value up ptr),
                        it_item_type := rcvindex, it_log_type := log_type\<rparr>), s1))
      else if log_type = LOG_REPLICATION_SCHEMA then
        (let (item_type, ptr0) = or_unpack_int (Some area);
             ((class_name, ptr1), s1) = la_unpack_string alloc (the ptr0) s;
             ((str_value, ptr2), s2) = la_unpack_string alloc ptr1 s1;
             ((db_user, ptr3), s3) = la_unpack_string alloc ptr2 s2;
             ((ha_sys_prm, ptr4), s4) = la_unpack_string alloc ptr3 s3
         in (Some (item\<lparr>it_item_type := item_type, it_class_name := class_name,
                        it_key := Some (mk_string up str_value), it_db_user := db_user,
                        it_ha_sys_prm := ha_sys_prm, it_log_type := log_type\<rparr>), s4))
      else (None, s))"

definition la_make_repl_item ::
    "'s page_src \<Rightarrow> nat \<Rightarrow> ('s \<Rightarrow> bool \<times> 's) \<Rightarrow> 'v la_values \<Rightarrow> log_page \<Rightarrow> int \<Rightarrow> log_lsa \<Rightarrow> 's
      \<Rightarrow> ('v la_item option \<times> 's) option" where
  "la_make_repl_item get sz alloc up log_pgptr log_type lsa s = do {
     ((err1, cu1), s1) \<leftarrow> la_read_fixed get sz 16 (rec_body log_pgptr lsa) s;
     if err1 \<noteq> NO_ERROR then Some (None, s1)
     else do {
       let repl_log = cu_bytes cu1;
       let len = rd_int 4 8 repl_log;
       ((err2, cu2), s2) \<leftarrow> LA_LOG_READ_ALIGN get sz NO_ERROR (cu1\<lparr>cu_offset := cu_offset cu1 + 16\<rparr>) s1;
       if err2 \<noteq> NO_ERROR then Some (None, s2)
       else (case alloc s2 of
               (ok3, s3) \<Rightarrow>
                 if \<not> ok3 then Some (None, s3)
                 else do {
                   ((_, area), s4) \<leftarrow> la_log_copy_fromlog get sz False len cu2 s3;
                   (case alloc s4 of
                      (ok5, s5) \<Rightarrow>
                        if \<not> ok5 then Some (None, s5)
                        else Some (la_fill_repl_item alloc up log_type (rd_int 4 12 repl_log) area
                                     (la_new_repl_item lsa (rd_lsa 0 repl_log)) s5)) })
     }
   }"

text \<open>
  \<^verbatim>\<open>la_set_repl_log\<close>. A transaction whose list is full becomes a long
  one; of a long one only the last address is recorded.
\<close>

definition la_set_repl_log ::
    "'s page_src \<Rightarrow> nat \<Rightarrow> ('s \<Rightarrow> bool \<times> 's) \<Rightarrow> 'v la_values \<Rightarrow> log_page \<Rightarrow> int \<Rightarrow> tranid \<Rightarrow> log_lsa
      \<Rightarrow> 'v la_repl \<Rightarrow> 's \<Rightarrow> ((errcode \<times> 'v la_repl) \<times> 's) option" where
  "la_set_repl_log get sz alloc up log_pgptr log_type tranid lsa info s =
     (case la_find_apply_list tranid info of
        None \<Rightarrow> Some ((NO_ERROR, info), s)
      | Some i \<Rightarrow>
          let app = repl_lists info ! i in
          if ap_is_long_trans app
          then Some ((NO_ERROR, set_apply i (app\<lparr>ap_last_lsa := lsa\<rparr>) info), s)
          else if LA_MAX_REPL_ITEMS \<le> ap_num_items app
          then Some ((NO_ERROR, set_apply i ((la_free_all_repl_items_except_head app)
                 \<lparr>ap_is_long_trans := True, ap_last_lsa := lsa\<rparr>) info), s)
          else (case la_make_repl_item get sz alloc up log_pgptr log_type lsa s of
                  None \<Rightarrow> None
                | Some (None, s1) \<Rightarrow> Some ((ER_OUT_OF_VIRTUAL_MEMORY, info), s1)
                | Some (Some item, s1) \<Rightarrow> Some ((NO_ERROR, set_apply i (la_add_repl_item app item) info), s1)))"

section \<open>The commit queue\<close>

text \<open>
  \<^verbatim>\<open>la_add_unlock_commit_log\<close> does not set \<^verbatim>\<open>log_record_time\<close> of the
  entry: \<open>garbage\<close> is what the allocated memory holds there.
\<close>

definition la_add_unlock_commit_log :: "bool \<Rightarrow> int \<Rightarrow> tranid \<Rightarrow> log_lsa \<Rightarrow> 'v la_repl \<Rightarrow> errcode \<times> 'v la_repl" where
  "la_add_unlock_commit_log mem garbage tranid lsa info =
     (if \<not> mem then (ER_OUT_OF_VIRTUAL_MEMORY, info)
      else (NO_ERROR, info\<lparr>commits := commits info @
              [\<lparr>co_type = LOG_UNLOCK_COMMIT, co_tranid = tranid, co_log_lsa = lsa, co_log_record_time = garbage\<rparr>]\<rparr>))"

definition la_add_abort_log :: "bool \<Rightarrow> int \<Rightarrow> tranid \<Rightarrow> log_lsa \<Rightarrow> 'v la_repl \<Rightarrow> errcode \<times> 'v la_repl" where
  "la_add_abort_log mem garbage tranid lsa info =
     (case la_add_unlock_commit_log mem garbage tranid lsa info of
        (err, info1) \<Rightarrow>
          if err \<noteq> NO_ERROR then (err, info1)
          else (err, info1\<lparr>commits := butlast (commits info1) @
                  [(last (commits info1))\<lparr>co_type := LOG_ABORT, co_log_record_time := 0\<rparr>]\<rparr>))"

text \<open>The search goes from the tail: on the reversed queue, the first entry of the transaction.\<close>

fun set_first_commit :: "tranid \<Rightarrow> int \<Rightarrow> int \<Rightarrow> la_commit list \<Rightarrow> int \<times> la_commit list" where
  "set_first_commit tranid rectype time [] = (0, [])"
| "set_first_commit tranid rectype time (c # cs) =
     (if co_tranid c = tranid then (1, c\<lparr>co_type := rectype, co_log_record_time := time\<rparr> # cs)
      else (case set_first_commit tranid rectype time cs of (n, cs') \<Rightarrow> (n, c # cs')))"

definition la_set_commit_log :: "tranid \<Rightarrow> int \<Rightarrow> log_lsa \<Rightarrow> int \<Rightarrow> 'v la_repl \<Rightarrow> int \<times> 'v la_repl" where
  "la_set_commit_log tranid rectype lsa log_record_time info =
     (case set_first_commit tranid rectype log_record_time (rev (commits info)) of
        (count, cs) \<Rightarrow> (count, info\<lparr>commits := rev cs\<rparr>))"

definition la_free_repl_items_by_tranid :: "tranid \<Rightarrow> 'v la_repl \<Rightarrow> 'v la_repl" where
  "la_free_repl_items_by_tranid tranid info =
     (let info1 = (case la_find_apply_list tranid info of
                     None \<Rightarrow> info
                   | Some i \<Rightarrow> set_apply i (la_clear_applied_info (repl_lists info ! i)) info)
      in info1\<lparr>commits := filter (\<lambda>c. co_tranid c \<noteq> tranid) (commits info1)\<rparr>)"

definition la_clear_all_repl_and_commit_list :: "'v la_repl \<Rightarrow> 'v la_repl" where
  "la_clear_all_repl_and_commit_list info =
     fold (\<lambda>i inf. la_free_repl_items_by_tranid (ap_tranid (repl_lists inf ! i)) inf) [0..<cur_repl info] info"

text \<open>\<^verbatim>\<open>la_find_required_lsa\<close>: where a restart has to begin reading.\<close>

fun lowest_start_lsa :: "'v la_apply list \<Rightarrow> log_lsa \<Rightarrow> log_lsa" where
  "lowest_start_lsa [] lowest = lowest"
| "lowest_start_lsa (a # as) lowest =
     (if ap_tranid a \<le> 0 then lowest_start_lsa as lowest
      else if LSA_ISNULL lowest \<or> LSA_GT lowest (ap_start_lsa a) then lowest_start_lsa as (ap_start_lsa a)
      else lowest_start_lsa as lowest)"

definition la_find_required_lsa :: "log_lsa \<Rightarrow> 'v la_repl \<Rightarrow> log_lsa" where
  "la_find_required_lsa final_lsa info =
     (let lowest_lsa = lowest_start_lsa (take (cur_repl info) (repl_lists info)) LSA_NULL
      in if LSA_ISNULL lowest_lsa then final_lsa else lowest_lsa)"

section \<open>Finding lists\<close>

lemma first_index_Some:
  "first_index p xs = Some i \<longleftrightarrow> i < length xs \<and> p (xs ! i) \<and> (\<forall>j < i. \<not> p (xs ! j))"
proof (induction xs arbitrary: i)
  case Nil
  then show ?case by simp
next
  case (Cons x xs)
  show ?case
  proof (cases i)
    case 0
    then show ?thesis by auto
  next
    case (Suc k)
    then show ?thesis using Cons by (auto simp: All_less_Suc2)
  qed
qed

lemma first_index_None: "first_index p xs = None \<longleftrightarrow> (\<forall>x \<in> set xs. \<not> p x)"
  by (induction xs) auto

section \<open>The invariant\<close>

text \<open>
  An apply list counts its items and has them in the order of the log; a long
  transaction keeps at most its first item, a list is never longer than the
  limit.
\<close>

definition apply_ok :: "'v la_apply \<Rightarrow> bool" where
  "apply_ok a \<longleftrightarrow> ap_num_items a = int (length (ap_items a)) \<and>
     sorted_wrt (\<lambda>x y. it_lsa x < it_lsa y) (ap_items a) \<and>
     (ap_is_long_trans a \<longrightarrow> length (ap_items a) \<le> 1) \<and> ap_num_items a \<le> LA_MAX_REPL_ITEMS"

text \<open>Lists in use without a transaction are empty, so are those not in use; no two lists share a transaction.\<close>

definition repl_inv :: "'v la_repl \<Rightarrow> bool" where
  "repl_inv info \<longleftrightarrow> length (repl_lists info) = repl_cnt info \<and> cur_repl info \<le> repl_cnt info \<and>
     (\<forall>i < repl_cnt info. apply_ok (repl_lists info ! i) \<and>
        (ap_tranid (repl_lists info ! i) = 0 \<longrightarrow> repl_lists info ! i = empty_apply) \<and>
        (cur_repl info \<le> i \<longrightarrow> repl_lists info ! i = empty_apply)) \<and>
     (\<forall>i < cur_repl info. \<forall>j < cur_repl info. i \<noteq> j \<longrightarrow> ap_tranid (repl_lists info ! i) \<noteq> 0 \<longrightarrow>
        ap_tranid (repl_lists info ! i) \<noteq> ap_tranid (repl_lists info ! j))"

text \<open>The abstract state: what is recorded for each open transaction.\<close>

definition tran_of :: "'v la_repl \<Rightarrow> tranid \<Rightarrow> 'v la_apply option" where
  "tran_of info t = (if t = 0 then None else map_option (\<lambda>i. repl_lists info ! i) (la_find_apply_list t info))"

lemma empty_apply_ok [simp]: "apply_ok empty_apply"
  by (simp add: apply_ok_def empty_apply_def)

lemma repl_inv_uniq:
  "repl_inv info \<Longrightarrow> i < cur_repl info \<Longrightarrow> ap_tranid (repl_lists info ! i) \<noteq> 0 \<Longrightarrow> j < cur_repl info \<Longrightarrow>
   ap_tranid (repl_lists info ! j) = ap_tranid (repl_lists info ! i) \<Longrightarrow> j = i"
  unfolding repl_inv_def by metis

lemma la_find_apply_list_iff:
  assumes "repl_inv info"
  shows "la_find_apply_list t info = Some i \<longrightarrow> i < cur_repl info \<and> ap_tranid (repl_lists info ! i) = t"
    and "t \<noteq> 0 \<Longrightarrow> la_find_apply_list t info = Some i \<longleftrightarrow> i < cur_repl info \<and> ap_tranid (repl_lists info ! i) = t"
  using assms unfolding la_find_apply_list_def first_index_Some repl_inv_def by (auto, metis less_trans nat_neq_iff)

lemma la_find_apply_list_None:
  "repl_inv info \<Longrightarrow> la_find_apply_list t info = None \<longleftrightarrow> (\<forall>i < cur_repl info. ap_tranid (repl_lists info ! i) \<noteq> t)"
  by (simp add: la_find_apply_list_def first_index_None repl_inv_def all_set_conv_all_nth min_absorb2)

lemma tran_of_iff:
  assumes "repl_inv info"
  shows "tran_of info t = Some a \<longleftrightarrow>
    t \<noteq> 0 \<and> (\<exists>i < cur_repl info. repl_lists info ! i = a \<and> ap_tranid a = t)"
  using la_find_apply_list_iff(2) [OF assms, of t] by (auto simp: tran_of_def)

text \<open>Changing one list in use.\<close>

lemma set_apply_inv:
  assumes "repl_inv info" and "i < cur_repl info" and "apply_ok a" and "ap_tranid a = 0 \<longrightarrow> a = empty_apply"
    and "ap_tranid a \<noteq> 0 \<longrightarrow> (\<forall>j < cur_repl info. j \<noteq> i \<longrightarrow> ap_tranid (repl_lists info ! j) \<noteq> ap_tranid a)"
  shows "repl_inv (set_apply i a info)"
  using assms by (auto simp: repl_inv_def set_apply_def nth_list_update_cases)

lemma set_apply_tran_of:
  assumes "repl_inv info" and "i < cur_repl info" and "repl_inv (set_apply i a info)"
    and "ap_tranid (repl_lists info ! i) = t \<or> ap_tranid (repl_lists info ! i) = 0" and "t \<noteq> 0"
    and "ap_tranid a = t \<or> ap_tranid a = 0"
    and "\<forall>j < cur_repl info. j \<noteq> i \<longrightarrow> ap_tranid (repl_lists info ! j) \<noteq> t"
  shows "tran_of (set_apply i a info) = (tran_of info)(t := if ap_tranid a = t then Some a else None)"
proof
  fix u
  have c: "cur_repl (set_apply i a info) = cur_repl info" by (simp add: set_apply_def)
  have i: "i < length (repl_lists info)" using assms(1,2) by (simp add: repl_inv_def)
  have nth: "repl_lists (set_apply i a info) ! j = (if j = i then a else repl_lists info ! j)" for j
    using i by (simp add: set_apply_def nth_list_update_cases)
  have "tran_of (set_apply i a info) u = Some b \<longleftrightarrow>
      ((tran_of info)(t := if ap_tranid a = t then Some a else None)) u = Some b" for b
    unfolding tran_of_iff [OF assms(3)] c nth fun_upd_apply
    using assms(2,4-7) tran_of_iff [OF assms(1), of u b] by (auto split: if_splits)
  then show "tran_of (set_apply i a info) u = ((tran_of info)(t := if ap_tranid a = t then Some a else None)) u"
    by (metis option.exhaust)
qed

section \<open>Freeing items\<close>

lemma sorted_lsa_distinct: "sorted_wrt (\<lambda>x y. it_lsa x < it_lsa y) xs \<Longrightarrow> distinct xs"
  by (induction xs) auto

lemma items_distinct: "apply_ok a \<Longrightarrow> distinct (ap_items a)"
  by (simp add: apply_ok_def sorted_lsa_distinct)

lemma la_free_repl_item_eq:
  assumes "ap_num_items a = int (length (ap_items a))" and "distinct (ap_items a)" and "x \<in> set (ap_items a)"
  shows "la_free_repl_item a x =
    a\<lparr>ap_items := filter (\<lambda>y. y \<noteq> x) (ap_items a), ap_num_items := int (length (filter (\<lambda>y. y \<noteq> x) (ap_items a)))\<rparr>"
proof -
  have "remove1 x (ap_items a) = filter (\<lambda>y. y \<noteq> x) (ap_items a)"
    using assms(2) by (simp add: distinct_remove1_removeAll removeAll_filter_not_eq) (metis (full_types))
  moreover have pos: "0 < length (ap_items a)" using assms(3) by auto
  moreover from pos have "int (length (ap_items a) - 1) = int (length (ap_items a)) - 1" by linarith
  ultimately show ?thesis
    using assms length_remove1 [of x "ap_items a"]
    by (simp add: la_free_repl_item_def la_unlink_repl_item_def)
qed

lemma fold_free_items:
  assumes "ap_num_items a = int (length (ap_items a))" and "distinct (ap_items a)"
    and "distinct xs" and "set xs \<subseteq> set (ap_items a)"
  shows "fold (\<lambda>x b. la_free_repl_item b x) xs a =
    a\<lparr>ap_items := filter (\<lambda>y. y \<notin> set xs) (ap_items a), ap_num_items := int (length (filter (\<lambda>y. y \<notin> set xs) (ap_items a)))\<rparr>"
  using assms
proof (induction xs arbitrary: a)
  case Nil
  then show ?case by simp
next
  case (Cons x xs)
  let ?b = "a\<lparr>ap_items := filter (\<lambda>y. y \<noteq> x) (ap_items a), ap_num_items := int (length (filter (\<lambda>y. y \<noteq> x) (ap_items a)))\<rparr>"
  have "fold (\<lambda>x b. la_free_repl_item b x) (x # xs) a = fold (\<lambda>x b. la_free_repl_item b x) xs ?b"
    using la_free_repl_item_eq [OF Cons.prems(1,2), of x] Cons.prems(4) by simp
  also have "\<dots> = ?b\<lparr>ap_items := filter (\<lambda>y. y \<notin> set xs) (ap_items ?b),
      ap_num_items := int (length (filter (\<lambda>y. y \<notin> set xs) (ap_items ?b)))\<rparr>"
    using Cons.prems by (intro Cons.IH) auto
  also have "filter (\<lambda>y. y \<notin> set xs) (ap_items ?b) = filter (\<lambda>y. y \<notin> set (x # xs)) (ap_items a)"
    by (auto intro: filter_cong)
  finally show ?case by simp
qed

lemma la_free_all_repl_items_except_head_eq:
  assumes "apply_ok a"
  shows "la_free_all_repl_items_except_head a =
    a\<lparr>ap_items := take 1 (ap_items a), ap_num_items := int (length (take 1 (ap_items a)))\<rparr>"
proof (cases "ap_items a")
  case Nil
  with assms show ?thesis by (simp add: la_free_all_repl_items_except_head_def apply_ok_def)
next
  case (Cons h t)
  have "distinct (h # t)" using items_distinct [OF assms] Cons by simp
  then have "filter (\<lambda>y. y \<notin> set t) (h # t) = [h]" by simp
  moreover have "ap_num_items a = int (length (ap_items a))" using assms by (simp add: apply_ok_def)
  ultimately show ?thesis
    using fold_free_items [of a t] Cons \<open>distinct (h # t)\<close>
    by (simp add: la_free_all_repl_items_except_head_def subset_iff)
qed

lemma la_clear_applied_info_eq: "la_clear_applied_info a = empty_apply"
  unfolding la_clear_applied_info_def la_free_all_repl_items_def Let_def
  by (rule la_apply.equality) (simp_all add: empty_apply_def)

section \<open>Operations on the table of transactions\<close>

lemma la_init_repl_lists_inv:
  assumes "la_init_repl_lists mem False info = (NO_ERROR, info')"
  shows "repl_inv info'" and "tran_of info' t = None"
proof -
  have l: "repl_lists info' = replicate LA_REPL_LIST_COUNT empty_apply" "repl_cnt info' = LA_REPL_LIST_COUNT" "cur_repl info' = 0"
    using assms by (auto simp: la_init_repl_lists_def Let_def split: if_splits)
  show "repl_inv info'" using l by (simp add: repl_inv_def)
  show "tran_of info' t = None" using l by (simp add: tran_of_def la_find_apply_list_def)
qed

lemma la_init_repl_lists_grow:
  assumes "repl_inv info" and "la_init_repl_lists mem True info = (NO_ERROR, info')"
  shows "repl_inv info'" and "tran_of info' = tran_of info" and "cur_repl info' = cur_repl info"
    and "repl_cnt info' = repl_cnt info + LA_REPL_LIST_COUNT"
    and "i < cur_repl info \<Longrightarrow> repl_lists info' ! i = repl_lists info ! i"
proof -
  have l: "repl_lists info' = repl_lists info @ replicate LA_REPL_LIST_COUNT empty_apply"
    "repl_cnt info' = repl_cnt info + LA_REPL_LIST_COUNT" "cur_repl info' = cur_repl info"
    using assms(2) by (auto simp: la_init_repl_lists_def Let_def split: if_splits)
  have len: "length (repl_lists info) = repl_cnt info" "cur_repl info \<le> repl_cnt info"
    using assms(1) by (simp_all add: repl_inv_def)
  have nth: "repl_lists info' ! i = (if i < repl_cnt info then repl_lists info ! i else empty_apply)"
    if "i < repl_cnt info'" for i
    using that l len by (auto simp: nth_append)
  then show "i < cur_repl info \<Longrightarrow> repl_lists info' ! i = repl_lists info ! i" using l len by simp
  show inv': "repl_inv info'"
    using assms(1) l len nth unfolding repl_inv_def by (auto simp: nth_append)
  show "tran_of info' = tran_of info"
    using l len by (auto simp: tran_of_def la_find_apply_list_def first_index_Some nth_append fun_eq_iff
        intro!: option.map_cong)
  show "cur_repl info' = cur_repl info" "repl_cnt info' = repl_cnt info + LA_REPL_LIST_COUNT" using l by simp_all
qed

text \<open>Taking the next list of the array.\<close>

lemma take_next_apply:
  assumes "repl_inv info" and "cur_repl info < repl_cnt info" and "t \<noteq> 0" and "la_find_apply_list t info = None"
  defines "info' \<equiv> (set_apply (cur_repl info) ((repl_lists info ! cur_repl info)\<lparr>ap_tranid := t\<rparr>) info)\<lparr>cur_repl := Suc (cur_repl info)\<rparr>"
  shows "repl_inv info' \<and> tran_of info' = (tran_of info)(t \<mapsto> empty_apply\<lparr>ap_tranid := t\<rparr>)"
proof
  let ?i = "cur_repl info"
  have len: "length (repl_lists info) = repl_cnt info" using assms(1) by (simp add: repl_inv_def)
  have e: "repl_lists info ! ?i = empty_apply" using assms(1,2) by (simp add: repl_inv_def)
  have nth: "repl_lists info' ! j = (if j = ?i then empty_apply\<lparr>ap_tranid := t\<rparr> else repl_lists info ! j)" for j
    using assms(2) len e by (simp add: info'_def set_apply_def nth_list_update_cases)
  have f: "cur_repl info' = Suc ?i" "repl_cnt info' = repl_cnt info" "length (repl_lists info') = repl_cnt info"
    using len by (simp_all add: info'_def set_apply_def)
  have new: "\<forall>j < ?i. ap_tranid (repl_lists info ! j) \<noteq> t" using la_find_apply_list_None [OF assms(1)] assms(4) by simp
  have a: "apply_ok (empty_apply\<lparr>ap_tranid := t\<rparr>)" by (simp add: apply_ok_def empty_apply_def)
  show inv': "repl_inv info'"
    unfolding repl_inv_def f nth
  proof (intro conjI)
    show "Suc ?i \<le> repl_cnt info" using assms(2) by simp
  next
    show "\<forall>i < repl_cnt info. apply_ok (if i = ?i then empty_apply\<lparr>ap_tranid := t\<rparr> else repl_lists info ! i) \<and>
       (ap_tranid (if i = ?i then empty_apply\<lparr>ap_tranid := t\<rparr> else repl_lists info ! i) = 0 \<longrightarrow>
        (if i = ?i then empty_apply\<lparr>ap_tranid := t\<rparr> else repl_lists info ! i) = empty_apply) \<and>
       (Suc ?i \<le> i \<longrightarrow> (if i = ?i then empty_apply\<lparr>ap_tranid := t\<rparr> else repl_lists info ! i) = empty_apply)"
      using assms(1,3) a by (auto simp: repl_inv_def)
  next
    show "\<forall>i < Suc ?i. \<forall>j < Suc ?i. i \<noteq> j \<longrightarrow>
       ap_tranid (if i = ?i then empty_apply\<lparr>ap_tranid := t\<rparr> else repl_lists info ! i) \<noteq> 0 \<longrightarrow>
       ap_tranid (if i = ?i then empty_apply\<lparr>ap_tranid := t\<rparr> else repl_lists info ! i) \<noteq>
       ap_tranid (if j = ?i then empty_apply\<lparr>ap_tranid := t\<rparr> else repl_lists info ! j)"
      using assms(1) new unfolding repl_inv_def by (auto simp: less_Suc_eq)
  qed simp
  show "tran_of info' = (tran_of info)(t \<mapsto> empty_apply\<lparr>ap_tranid := t\<rparr>)"
  proof
    fix u
    have ex: "(\<exists>j < Suc ?i. (if j = ?i then x else repl_lists info ! j) = b \<and> R) \<longleftrightarrow>
        x = b \<and> R \<or> (\<exists>j < ?i. repl_lists info ! j = b \<and> R)" for x b R
      unfolding Ex_less_Suc by (metis less_irrefl)
    have "tran_of info' u = Some b \<longleftrightarrow> ((tran_of info)(t \<mapsto> empty_apply\<lparr>ap_tranid := t\<rparr>)) u = Some b" for b
      unfolding tran_of_iff [OF inv'] f nth fun_upd_apply ex
      using tran_of_iff [OF assms(1), of u b] new assms(3) by auto
    then show "tran_of info' u = ((tran_of info)(t \<mapsto> empty_apply\<lparr>ap_tranid := t\<rparr>)) u" by (metis option.exhaust)
  qed
qed

lemma la_add_apply_list_correct:
  assumes inv: "repl_inv info" and t: "t \<noteq> 0" and add: "la_add_apply_list mem t info = (Some i, info')"
  shows "repl_inv info'" and "i < cur_repl info'" and "ap_tranid (repl_lists info' ! i) = t"
    and "tran_of info' = (tran_of info)(t \<mapsto> (case tran_of info t of None \<Rightarrow> empty_apply\<lparr>ap_tranid := t\<rparr> | Some a \<Rightarrow> a))"
    and "commits info' = commits info"
proof -
  have "repl_inv info' \<and> i < cur_repl info' \<and> ap_tranid (repl_lists info' ! i) = t \<and>
    tran_of info' = (tran_of info)(t \<mapsto> (case tran_of info t of None \<Rightarrow> empty_apply\<lparr>ap_tranid := t\<rparr> | Some a \<Rightarrow> a)) \<and>
    commits info' = commits info"
  proof (cases "la_find_apply_list t info")
    case (Some k)
    then have e: "i = k" "info' = info" using add by (simp_all add: la_add_apply_list_def)
    have "tran_of info t = Some (repl_lists info ! k)" using Some t by (simp add: tran_of_def)
    with e Some la_find_apply_list_iff(2) [OF inv t] inv show ?thesis by (auto simp: fun_upd_idem)
  next
    case None
    then have n: "tran_of info t = None" and nt: "\<forall>j < cur_repl info. ap_tranid (repl_lists info ! j) \<noteq> t"
      using la_find_apply_list_None [OF inv] by (simp_all add: tran_of_def)
    show ?thesis
    proof (cases "la_find_apply_list 0 info")
      case (Some k)
      then have k: "k < cur_repl info" "ap_tranid (repl_lists info ! k) = 0"
        using la_find_apply_list_iff(1) [OF inv, of 0 k] by simp_all
      then have em: "repl_lists info ! k = empty_apply" using inv by (simp add: repl_inv_def)
      have e: "i = k" "info' = set_apply k (empty_apply\<lparr>ap_tranid := t\<rparr>) info"
        using add None Some em by (auto simp: la_add_apply_list_def)
      have a: "apply_ok (empty_apply\<lparr>ap_tranid := t\<rparr>)" by (simp add: apply_ok_def empty_apply_def)
      have inv': "repl_inv info'" unfolding e by (rule set_apply_inv [OF inv k(1) a]) (use t nt in auto)
      have kl: "k < length (repl_lists info)" using inv k(1) by (simp add: repl_inv_def)
      have "tran_of info' = (tran_of info)(t \<mapsto> empty_apply\<lparr>ap_tranid := t\<rparr>)"
        using set_apply_tran_of [OF inv k(1), of "empty_apply\<lparr>ap_tranid := t\<rparr>" t] inv' k(2) t nt e(2) by simp
      with inv' n kl k e show ?thesis by (simp add: set_apply_def)
    next
      case no0: None
      define inf where "inf = (if cur_repl info = repl_cnt info then snd (la_init_repl_lists mem True info) else info)"
      define take where "take = (\<lambda>inf :: 'a la_repl. (Some (cur_repl inf),
         (set_apply (cur_repl inf) ((repl_lists inf ! cur_repl inf)\<lparr>ap_tranid := t\<rparr>) inf)\<lparr>cur_repl := Suc (cur_repl inf)\<rparr>))"
      obtain err g where grow: "la_init_repl_lists mem True info = (err, g)" by force
      have ok: "cur_repl info = repl_cnt info \<longrightarrow> err = NO_ERROR" and r: "take inf = (Some i, info')"
        using add None no0 grow by (auto simp: la_add_apply_list_def Let_def inf_def take_def split: if_splits)
      have I: "repl_inv inf \<and> tran_of inf = tran_of info \<and> cur_repl inf = cur_repl info \<and> cur_repl inf < repl_cnt inf \<and>
          (\<forall>j < cur_repl info. repl_lists inf ! j = repl_lists info ! j) \<and> commits inf = commits info"
      proof (cases "cur_repl info = repl_cnt info")
        case True
        with ok grow have g: "la_init_repl_lists mem True info = (NO_ERROR, g)" "inf = g" by (simp_all add: inf_def)
        have "commits g = commits info" using g(1) by (auto simp: la_init_repl_lists_def Let_def split: if_splits)
        with la_init_repl_lists_grow [OF inv g(1)] g(2) True show ?thesis by simp
      next
        case False
        with inv show ?thesis by (simp add: inf_def repl_inv_def)
      qed
      have "la_find_apply_list t inf = None" using la_find_apply_list_None [OF conjunct1 [OF I], of t] I nt by simp
      note N = take_next_apply [OF _ _ t this]
      have "length (repl_lists inf) = repl_cnt inf" using I by (simp add: repl_inv_def)
      with N I r n show ?thesis by (auto simp: take_def set_apply_def)
    qed
  qed
  then show "repl_inv info'" and "i < cur_repl info'" and "ap_tranid (repl_lists info' ! i) = t"
    and "tran_of info' = (tran_of info)(t \<mapsto> (case tran_of info t of None \<Rightarrow> empty_apply\<lparr>ap_tranid := t\<rparr> | Some a \<Rightarrow> a))"
    and "commits info' = commits info" by blast+
qed

text \<open>The table does not depend on the commit queue.\<close>

lemma repl_inv_commits [simp]: "repl_inv (info\<lparr>commits := cs\<rparr>) = repl_inv info"
  by (simp add: repl_inv_def)

lemma tran_of_commits [simp]: "tran_of (info\<lparr>commits := cs\<rparr>) = tran_of info"
  by (simp add: tran_of_def la_find_apply_list_def fun_eq_iff)

lemma la_free_repl_items_by_tranid_correct:
  assumes inv: "repl_inv info" and t: "t \<noteq> 0"
  shows "repl_inv (la_free_repl_items_by_tranid t info)"
    and "tran_of (la_free_repl_items_by_tranid t info) = (tran_of info)(t := None)"
    and "commits (la_free_repl_items_by_tranid t info) = filter (\<lambda>c. co_tranid c \<noteq> t) (commits info)"
    and "cur_repl (la_free_repl_items_by_tranid t info) = cur_repl info"
proof -
  have "repl_inv (la_free_repl_items_by_tranid t info) \<and>
    tran_of (la_free_repl_items_by_tranid t info) = (tran_of info)(t := None) \<and>
    commits (la_free_repl_items_by_tranid t info) = filter (\<lambda>c. co_tranid c \<noteq> t) (commits info) \<and>
    cur_repl (la_free_repl_items_by_tranid t info) = cur_repl info"
  proof (cases "la_find_apply_list t info")
    case None
    then have "tran_of info t = None" by (simp add: tran_of_def)
    with None inv show ?thesis by (simp add: la_free_repl_items_by_tranid_def fun_upd_idem)
  next
    case (Some i)
    then have i: "i < cur_repl info" "ap_tranid (repl_lists info ! i) = t"
      using la_find_apply_list_iff(2) [OF inv t] by simp_all
    have uniq: "\<forall>j < cur_repl info. j \<noteq> i \<longrightarrow> ap_tranid (repl_lists info ! j) \<noteq> t"
      using repl_inv_uniq [OF inv i(1)] i(2) t by auto
    have inv': "repl_inv (set_apply i empty_apply info)"
      by (rule set_apply_inv [OF inv i(1)]) (auto simp: empty_apply_def apply_ok_def)
    have "tran_of (set_apply i empty_apply info) = (tran_of info)(t := None)"
      using set_apply_tran_of [OF inv i(1) inv', of t] i(2) t uniq by (simp add: empty_apply_def)
    with inv' Some show ?thesis
      by (simp add: la_free_repl_items_by_tranid_def la_clear_applied_info_eq) (simp add: set_apply_def)
  qed
  then show "repl_inv (la_free_repl_items_by_tranid t info)"
    and "tran_of (la_free_repl_items_by_tranid t info) = (tran_of info)(t := None)"
    and "commits (la_free_repl_items_by_tranid t info) = filter (\<lambda>c. co_tranid c \<noteq> t) (commits info)"
    and "cur_repl (la_free_repl_items_by_tranid t info) = cur_repl info" by blast+
qed

section \<open>The interface of the transaction table\<close>

text \<open>
  What the record processing relies on: a table of open transactions in which
  a transaction is entered once and stays until it is closed.
\<close>

datatype tran_event = Tr_open tranid | Tr_close tranid

text \<open>Running events; a failed entry ends the run.\<close>

fun tran_run :: "(tranid \<Rightarrow> 't \<Rightarrow> nat option \<times> 't) \<Rightarrow> (tranid \<Rightarrow> 't \<Rightarrow> 't) \<Rightarrow> tran_event list \<Rightarrow> 't \<Rightarrow> 't option" where
  "tran_run add close [] s = Some s"
| "tran_run add close (Tr_open t # es) s = (case add t s of (None, _) \<Rightarrow> None | (Some _, s') \<Rightarrow> tran_run add close es s')"
| "tran_run add close (Tr_close t # es) s = tran_run add close es (close t s)"

locale tran_table =
  fixes inv :: "'t \<Rightarrow> bool" and lookup :: "'t \<Rightarrow> tranid \<Rightarrow> 'a option"
    and add :: "tranid \<Rightarrow> 't \<Rightarrow> nat option \<times> 't" and close :: "tranid \<Rightarrow> 't \<Rightarrow> 't" and fresh :: "tranid \<Rightarrow> 'a"
  assumes add_lookup: "inv s \<Longrightarrow> t \<noteq> 0 \<Longrightarrow> add t s = (Some i, s') \<Longrightarrow>
      inv s' \<and> lookup s' = (lookup s)(t \<mapsto> (case lookup s t of None \<Rightarrow> fresh t | Some a \<Rightarrow> a))"
    and close_lookup: "inv s \<Longrightarrow> t \<noteq> 0 \<Longrightarrow> inv (close t s) \<and> lookup (close t s) = (lookup s)(t := None)"
begin

lemma run_dom:
  assumes "inv s" and "\<forall>e \<in> set es. e \<noteq> Tr_open 0 \<and> e \<noteq> Tr_close 0" and "tran_run add close es s = Some s'"
  shows "inv s' \<and> dom (lookup s') = fold (\<lambda>e D. case e of Tr_open t \<Rightarrow> insert t D | Tr_close t \<Rightarrow> D - {t}) es (dom (lookup s))"
  using assms
proof (induction es arbitrary: s)
  case Nil
  then show ?case by simp
next
  case (Cons e es)
  show ?case
  proof (cases e)
    case (Tr_open t)
    with Cons.prems obtain i s1 where a: "add t s = (Some i, s1)" by (auto split: prod.splits option.splits)
    have t: "t \<noteq> 0" using Cons.prems Tr_open by auto
    from add_lookup [OF Cons.prems(1) t a] have "inv s1" "dom (lookup s1) = insert t (dom (lookup s))" by auto
    moreover have "tran_run add close es s1 = Some s'" using Cons.prems a Tr_open by simp
    ultimately show ?thesis using Cons.IH [of s1] Cons.prems(2) Tr_open by auto
  next
    case (Tr_close t)
    have t: "t \<noteq> 0" using Cons.prems Tr_close by auto
    from close_lookup [OF Cons.prems(1) t] have "inv (close t s)" "dom (lookup (close t s)) = dom (lookup s) - {t}" by auto
    with Cons.IH [of "close t s"] Cons.prems Tr_close show ?thesis by auto
  qed
qed

text \<open>Opening a transaction again changes nothing of what is recorded for it.\<close>

lemma add_again:
  assumes "inv s" and "t \<noteq> 0" and "add t s = (Some i, s1)" and "add t s1 = (Some j, s2)"
  shows "lookup s2 = lookup s1"
  using add_lookup [OF assms(1-3)] add_lookup [of s1 t j s2] assms(2,4) by auto

end

interpretation tt: tran_table repl_inv tran_of "la_add_apply_list mem" la_free_repl_items_by_tranid
  "\<lambda>t. empty_apply\<lparr>ap_tranid := t\<rparr>" for mem
proof
  fix s :: "'a la_repl" and t i s'
  assume "repl_inv s" and "t \<noteq> 0" and "la_add_apply_list mem t s = (Some i, s')"
  from la_add_apply_list_correct(1,4) [OF this]
  show "repl_inv s' \<and> tran_of s' = (tran_of s)(t \<mapsto> (case tran_of s t of None \<Rightarrow> empty_apply\<lparr>ap_tranid := t\<rparr> | Some a \<Rightarrow> a))"
    by simp
next
  fix s :: "'a la_repl" and t :: tranid
  assume "repl_inv s" and "t \<noteq> 0"
  from la_free_repl_items_by_tranid_correct(1,2) [OF this]
  show "repl_inv (la_free_repl_items_by_tranid t s) \<and> tran_of (la_free_repl_items_by_tranid t s) = (tran_of s)(t := None)"
    by simp
qed

section \<open>Recording replication items\<close>

text \<open>
  The sequence of items an apply list stands for: the list itself, or for a
  long transaction its first item and the address of its last one.
\<close>

definition apply_repr :: "'v la_apply \<Rightarrow> 'v la_item list \<Rightarrow> bool" where
  "apply_repr a items \<longleftrightarrow> apply_ok a \<and> sorted_wrt (\<lambda>x y. it_lsa x < it_lsa y) items \<and>
     (if ap_is_long_trans a
      then LA_MAX_REPL_ITEMS < int (length items) \<and> ap_items a = take 1 items \<and> ap_last_lsa a = it_lsa (last items)
      else ap_items a = items)"

lemma la_set_repl_log_repr:
  assumes inv: "repl_inv info" and t: "t \<noteq> 0" and tr: "tran_of info t = Some a" and rep: "apply_repr a items"
    and lsa: "it_lsa item = lsa" and new: "\<forall>x \<in> set items. it_lsa x < lsa"
    and mk: "\<not> ap_is_long_trans a \<and> ap_num_items a < LA_MAX_REPL_ITEMS \<longrightarrow>
      la_make_repl_item get sz alloc up pg ty lsa s = Some (Some item, s1)"
  shows "\<exists>info' a' s'. la_set_repl_log get sz alloc up pg ty t lsa info s = Some ((NO_ERROR, info'), s') \<and>
    repl_inv info' \<and> tran_of info' = (tran_of info)(t \<mapsto> a') \<and> apply_repr a' (items @ [item]) \<and> commits info' = commits info"
proof -
  obtain i where i: "la_find_apply_list t info = Some i" "repl_lists info ! i = a" "i < cur_repl info" "ap_tranid a = t"
    using tr t la_find_apply_list_iff(2) [OF inv t] by (auto simp: tran_of_def)
  define a' where "a' = (if ap_is_long_trans a then a\<lparr>ap_last_lsa := lsa\<rparr>
     else if LA_MAX_REPL_ITEMS \<le> ap_num_items a
     then (la_free_all_repl_items_except_head a)\<lparr>ap_is_long_trans := True, ap_last_lsa := lsa\<rparr>
     else la_add_repl_item a item)"
  have call: "la_set_repl_log get sz alloc up pg ty t lsa info s = Some ((NO_ERROR, set_apply i a' info),
      if ap_is_long_trans a \<or> LA_MAX_REPL_ITEMS \<le> ap_num_items a then s else s1)"
    using i mk by (simp add: la_set_repl_log_def a'_def Let_def)
  have ok: "apply_ok a" and so: "sorted_wrt (\<lambda>x y. it_lsa x < it_lsa y) items" using rep by (auto simp: apply_repr_def)
  have so': "sorted_wrt (\<lambda>x y. it_lsa x < it_lsa y) (items @ [item])" using so new lsa by (simp add: sorted_wrt_append)
  have rep': "apply_repr a' (items @ [item])"
  proof (cases "ap_is_long_trans a")
    case True
    then have "items \<noteq> []" using rep by (auto simp: apply_repr_def)
    with True rep so' lsa show ?thesis by (auto simp: apply_repr_def a'_def apply_ok_def)
  next
    case False
    then have e: "ap_items a = items" using rep by (simp add: apply_repr_def)
    show ?thesis
    proof (cases "LA_MAX_REPL_ITEMS \<le> ap_num_items a")
      case True
      then have "LA_MAX_REPL_ITEMS \<le> int (length items)" "items \<noteq> []" using ok e by (auto simp: apply_ok_def)
      with True False e so so' lsa ok la_free_all_repl_items_except_head_eq [OF ok] show ?thesis
        by (cases items) (auto simp: apply_repr_def a'_def apply_ok_def)
    next
      case nf: False
      with False e so so' ok show ?thesis by (auto simp: apply_repr_def a'_def apply_ok_def la_add_repl_item_def)
    qed
  qed
  have tr': "ap_tranid a' = t" using i(4) la_free_all_repl_items_except_head_eq [OF ok]
    by (simp add: a'_def la_add_repl_item_def)
  have uniq: "\<forall>j < cur_repl info. j \<noteq> i \<longrightarrow> ap_tranid (repl_lists info ! j) \<noteq> t"
    using repl_inv_uniq [OF inv i(3)] i(2,4) t by auto
  have inv': "repl_inv (set_apply i a' info)"
    by (rule set_apply_inv [OF inv i(3)]) (use rep' tr' t uniq in \<open>auto simp: apply_repr_def\<close>)
  have "tran_of (set_apply i a' info) = (tran_of info)(t \<mapsto> a')"
    using set_apply_tran_of [OF inv i(3) inv', of t] i t tr' uniq by simp
  moreover have "commits (set_apply i a' info) = commits info" by (simp add: set_apply_def)
  ultimately show ?thesis using call inv' rep' by blast
qed

section \<open>The address to restart from\<close>

lemma lowest_start_lsa_le:
  assumes "\<forall>a \<in> set as. 0 < ap_tranid a \<longrightarrow> \<not> LSA_ISNULL (ap_start_lsa a)"
  shows "(\<not> LSA_ISNULL l \<longrightarrow> \<not> LSA_ISNULL (lowest_start_lsa as l) \<and> lowest_start_lsa as l \<le> l) \<and>
    (\<forall>a \<in> set as. 0 < ap_tranid a \<longrightarrow> \<not> LSA_ISNULL (lowest_start_lsa as l) \<and> lowest_start_lsa as l \<le> ap_start_lsa a) \<and>
    (lowest_start_lsa as l = l \<or> (\<exists>a \<in> set as. 0 < ap_tranid a \<and> lowest_start_lsa as l = ap_start_lsa a))"
  using assms
proof (induction as arbitrary: l)
  case Nil
  then show ?case by simp
next
  case (Cons a as)
  then have IH: "(\<not> LSA_ISNULL l \<longrightarrow> \<not> LSA_ISNULL (lowest_start_lsa as l) \<and> lowest_start_lsa as l \<le> l) \<and>
    (\<forall>a \<in> set as. 0 < ap_tranid a \<longrightarrow> \<not> LSA_ISNULL (lowest_start_lsa as l) \<and> lowest_start_lsa as l \<le> ap_start_lsa a) \<and>
    (lowest_start_lsa as l = l \<or> (\<exists>a \<in> set as. 0 < ap_tranid a \<and> lowest_start_lsa as l = ap_start_lsa a))" for l
    by simp
  show ?case
  proof (cases "0 < ap_tranid a \<and> (LSA_ISNULL l \<or> ap_start_lsa a < l)")
    case True
    then have r: "lowest_start_lsa (a # as) l = lowest_start_lsa as (ap_start_lsa a)" by (simp add: lsa_simps)
    have n: "\<not> LSA_ISNULL (ap_start_lsa a)" using True Cons.prems by simp
    show ?thesis unfolding r using IH [of "ap_start_lsa a"] n True by auto
  next
    case False
    then have r: "lowest_start_lsa (a # as) l = lowest_start_lsa as l" by (auto simp: lsa_simps)
    show ?thesis unfolding r using IH [of l] False by (auto simp: not_less)
  qed
qed

lemma la_find_required_lsa_least:
  assumes "repl_inv info" and "\<And>u b. tran_of info u = Some b \<Longrightarrow> 0 < u \<Longrightarrow> \<not> LSA_ISNULL (ap_start_lsa b)"
  shows "tran_of info t = Some a \<Longrightarrow> 0 < t \<Longrightarrow> la_find_required_lsa final info \<le> ap_start_lsa a"
    and "la_find_required_lsa final info = final \<or>
      (\<exists>t a. 0 < t \<and> tran_of info t = Some a \<and> la_find_required_lsa final info = ap_start_lsa a)"
    and "(\<And>u. 0 < u \<Longrightarrow> tran_of info u = None) \<Longrightarrow> la_find_required_lsa final info = final"
proof -
  let ?as = "take (cur_repl info) (repl_lists info)"
  have len: "cur_repl info \<le> length (repl_lists info)" using assms(1) by (simp add: repl_inv_def)
  have mem: "a \<in> set ?as \<and> 0 < ap_tranid a \<longleftrightarrow> 0 < ap_tranid a \<and> tran_of info (ap_tranid a) = Some a" for a
    using len tran_of_iff [OF assms(1), of "ap_tranid a" a] by (auto simp: in_set_conv_nth)
  have nn: "\<forall>a \<in> set ?as. 0 < ap_tranid a \<longrightarrow> \<not> LSA_ISNULL (ap_start_lsa a)" using mem assms(2) by blast
  note L = lowest_start_lsa_le [OF nn, of LSA_NULL]
  show "la_find_required_lsa final info \<le> ap_start_lsa a" if "tran_of info t = Some a" "0 < t"
  proof -
    have "ap_tranid a = t" using that tran_of_iff [OF assms(1)] by blast
    then have "a \<in> set ?as \<and> 0 < ap_tranid a" using mem [of a] that by simp
    with L show ?thesis by (auto simp: la_find_required_lsa_def Let_def)
  qed
  show "la_find_required_lsa final info = final \<or>
      (\<exists>t a. 0 < t \<and> tran_of info t = Some a \<and> la_find_required_lsa final info = ap_start_lsa a)"
    using L mem unfolding la_find_required_lsa_def Let_def by (metis LSA_ISNULL_NULL)
  assume none: "\<And>u. 0 < u \<Longrightarrow> tran_of info u = None"
  then have "\<forall>a \<in> set ?as. \<not> 0 < ap_tranid a" using mem by (metis option.distinct(1))
  then have "lowest_start_lsa ?as LSA_NULL = LSA_NULL" using L by auto
  then show "la_find_required_lsa final info = final" by (simp add: la_find_required_lsa_def)
qed

section \<open>Marking a transaction committed\<close>

lemma la_set_commit_log_split:
  assumes "commits info = xs @ c # ys" and "co_tranid c = t" and "\<forall>d \<in> set ys. co_tranid d \<noteq> t"
  shows "la_set_commit_log t ty lsa tm info =
    (1, info\<lparr>commits := xs @ c\<lparr>co_type := ty, co_log_record_time := tm\<rparr> # ys\<rparr>)"
proof -
  have "set_first_commit t ty tm (us @ c # vs) = (1, us @ c\<lparr>co_type := ty, co_log_record_time := tm\<rparr> # vs)"
    if "\<forall>d \<in> set us. co_tranid d \<noteq> t" for us vs
    using that assms(2) by (induction us) auto
  from this [of "rev ys" "rev xs"] assms show ?thesis by (simp add: la_set_commit_log_def)
qed

lemma la_set_commit_log_missing:
  assumes "\<forall>d \<in> set (commits info). co_tranid d \<noteq> t"
  shows "la_set_commit_log t ty lsa tm info = (0, info)"
proof -
  have "set_first_commit t ty tm cs = (0, cs)" if "\<forall>d \<in> set cs. co_tranid d \<noteq> t" for cs
    using that by (induction cs) auto
  from this [of "rev (commits info)"] assms show ?thesis by (simp add: la_set_commit_log_def)
qed

section \<open>Properties\<close>

lemma la_add_apply_list_some: "\<exists>i r'. la_add_apply_list (\<lambda>_. True) t r = (Some i, r')"
  by (auto simp: la_add_apply_list_def la_init_repl_lists_def Let_def split: option.splits)

lemma tran_run_some: "\<exists>s'. tran_run (la_add_apply_list (\<lambda>_. True)) close es s = Some s'"
proof (induction es arbitrary: s)
  case (Cons e es)
  then show ?case using la_add_apply_list_some [of _ s] by (cases e) (auto split: prod.splits, metis option.simps(5) prod.simps(2))
qed simp

definition open_trans :: "tran_event list \<Rightarrow> tranid set" where
  "open_trans es = fold (\<lambda>e D. case e of Tr_open t \<Rightarrow> insert t D | Tr_close t \<Rightarrow> D - {t}) es {}"

text \<open>
  C27. The table of transactions: from the table the applier starts with, after
  any sequence of first records and ends of transactions, the lists in use
  belong to exactly the transactions that are open, one each; the table grows
  as needed.
\<close>

theorem transaction_table_tracks:
  assumes "la_init_repl_lists (\<lambda>_. True) False r0 = (NO_ERROR, r)" and "Tr_open 0 \<notin> set es" and "Tr_close 0 \<notin> set es"
  shows "\<exists>r'. tran_run (la_add_apply_list (\<lambda>_. True)) la_free_repl_items_by_tranid es r = Some r' \<and>
    repl_inv r' \<and> dom (tran_of r') = open_trans es"
proof -
  have r: "repl_inv r" "tran_of r = Map.empty" using la_init_repl_lists_inv [OF assms(1)] by auto
  obtain r' where r': "tran_run (la_add_apply_list (\<lambda>_. True)) la_free_repl_items_by_tranid es r = Some r'"
    using tran_run_some by blast
  from tt.run_dom [OF r(1) _ r'] assms(2,3) r(2) r' show ?thesis by (auto simp: open_trans_def)
qed

definition ex_repl :: "'v la_repl" where
  "ex_repl = snd (la_init_repl_lists (\<lambda>_. True) False \<lparr>repl_lists = [], repl_cnt = 0, cur_repl = 0, commits = []\<rparr>)"

lemma ex_repl_init:
  "la_init_repl_lists (\<lambda>_. True) False \<lparr>repl_lists = [], repl_cnt = 0, cur_repl = 0, commits = []\<rparr> = (NO_ERROR, ex_repl)"
  by (simp add: ex_repl_def la_init_repl_lists_def)

lemma ex_repl_inv [simp]: "repl_inv ex_repl" "tran_of ex_repl t = None"
  using la_init_repl_lists_inv [OF ex_repl_init] by auto

lemma transaction_table_tracks_witness:
  "\<exists>r' :: unit la_repl. tran_run (la_add_apply_list (\<lambda>_. True)) la_free_repl_items_by_tranid [Tr_open 4, Tr_open 7, Tr_close 4] ex_repl
     = Some r' \<and> dom (tran_of r') = {7}"
proof -
  have "open_trans [Tr_open 4, Tr_open 7, Tr_close 4] = {7}" by (auto simp: open_trans_def)
  with transaction_table_tracks [OF ex_repl_init, of "[Tr_open 4, Tr_open 7, Tr_close 4]"] show ?thesis
    by (simp del: tran_run.simps) blast
qed

text \<open>
  C14. The address to restart from is safe: no open transaction starts before
  it, and it is the start of one of them or, with none open, the address reached.
\<close>

theorem la_find_required_lsa_safe:
  assumes "repl_inv info" and "\<forall>u b. tran_of info u = Some b \<and> 0 < u \<longrightarrow> \<not> LSA_ISNULL (ap_start_lsa b)"
  shows "(\<forall>t a. tran_of info t = Some a \<and> 0 < t \<longrightarrow> la_find_required_lsa final info \<le> ap_start_lsa a) \<and>
    (la_find_required_lsa final info = final \<or>
      (\<exists>t a. 0 < t \<and> tran_of info t = Some a \<and> la_find_required_lsa final info = ap_start_lsa a)) \<and>
    ((\<forall>u > 0. tran_of info u = None) \<longrightarrow> la_find_required_lsa final info = final)"
  using la_find_required_lsa_least [OF assms(1)] assms(2) by blast

text \<open>
  C28. A commit record marks the latest entry of its transaction in the queue
  and leaves the order of the queue, which is that of the unlock records.
\<close>

theorem la_set_commit_log_marks:
  assumes "commits info = xs @ c # ys" and "co_tranid c = t" and "\<forall>d \<in> set ys. co_tranid d \<noteq> t"
  shows "la_set_commit_log t ty lsa tm info = (1, info\<lparr>commits := xs @ c\<lparr>co_type := ty, co_log_record_time := tm\<rparr> # ys\<rparr>)"
  by (rule la_set_commit_log_split [OF assms])

definition ex_queue :: "la_commit list" where
  "ex_queue = [\<lparr>co_type = LOG_UNLOCK_COMMIT, co_tranid = 4, co_log_lsa = LSA 5 0, co_log_record_time = 0\<rparr>,
     \<lparr>co_type = LOG_UNLOCK_COMMIT, co_tranid = 7, co_log_lsa = LSA 5 80, co_log_record_time = 0\<rparr>]"

lemma la_set_commit_log_marks_witness:
  "fst (la_set_commit_log 4 LOG_COMMIT (LSA 6 0) 99 (ex_repl\<lparr>commits := ex_queue\<rparr> :: unit la_repl)) = 1"
  using la_set_commit_log_marks [of "ex_repl\<lparr>commits := ex_queue\<rparr> :: unit la_repl" "[]" "hd ex_queue" "tl ex_queue" 4 LOG_COMMIT "LSA 6 0" 99]
  by (simp add: ex_queue_def)

text \<open>A table with an open transaction.\<close>

definition ex_open_table :: "unit la_repl" where
  "ex_open_table = \<lparr>repl_lists = [\<lparr>ap_tranid = 4, ap_num_items = 0, ap_is_long_trans = False, ap_start_lsa = LSA 31 0,
     ap_last_lsa = LSA_NULL, ap_items = []\<rparr>], repl_cnt = 1, cur_repl = 1, commits = []\<rparr>"

lemma ex_open_table_ok:
  "repl_inv ex_open_table" "tran_of ex_open_table t = (if t = 4 then Some (hd (repl_lists ex_open_table)) else None)"
  by (simp_all add: ex_open_table_def repl_inv_def apply_ok_def tran_of_def la_find_apply_list_def)

lemma la_find_required_lsa_safe_witness:
  "la_find_required_lsa (LSA 33 0) ex_open_table \<le> LSA 31 0 \<and> la_find_required_lsa (LSA 33 0) ex_open_table \<in> {LSA 33 0, LSA 31 0}"
proof -
  let ?a = "hd (repl_lists ex_open_table)"
  have a: "ap_start_lsa ?a = LSA 31 0" by (simp add: ex_open_table_def)
  have n: "\<forall>u b. tran_of ex_open_table u = Some b \<and> 0 < u \<longrightarrow> \<not> LSA_ISNULL (ap_start_lsa b)"
    by (simp add: ex_open_table_ok(2) a LSA_ISNULL_def)
  have t: "tran_of ex_open_table 4 = Some ?a" "\<And>t b. tran_of ex_open_table t = Some b \<Longrightarrow> b = ?a"
    by (simp_all add: ex_open_table_ok(2) split: if_splits)
  have "la_find_required_lsa (LSA 33 0) ex_open_table \<le> LSA 31 0"
    using la_find_required_lsa_safe [OF ex_open_table_ok(1) n, of "LSA 33 0"] t(1) a by force
  moreover have "la_find_required_lsa (LSA 33 0) ex_open_table \<in> {LSA 33 0, LSA 31 0}"
    using la_find_required_lsa_safe [OF ex_open_table_ok(1) n, of "LSA 33 0"] t(2) a by auto
  ultimately show ?thesis by blast
qed

end
