(* ===== verification/Replication.thy ===== *)
theory Replication
  imports Log_Append La_Repl
begin

text \<open>
  The replication records of a transaction on the server
  (\<^verbatim>\<open>transaction/replication.c\<close>), and how they get into the log when it
  ends (\<^verbatim>\<open>transaction/log_manager.c\<close>). While a transaction runs, its
  descriptor collects a record per change in an array that grows by hundred;
  at the end those that are to be flushed are appended to the log.

  Reading or writing the array where it has no element, or where it is not
  allocated, is undefined: the result is \<open>None\<close>.
\<close>

section \<open>Records and descriptors\<close>

record oid =
  oid_volid :: int
  oid_pageid :: int
  oid_slotid :: int

definition OID_EQ :: "oid \<Rightarrow> oid \<Rightarrow> bool" where
  "OID_EQ a b \<longleftrightarrow> oid_pageid a = oid_pageid b \<and> oid_slotid a = oid_slotid b \<and> oid_volid a = oid_volid b"

definition OID_NULL :: oid where
  "OID_NULL = \<lparr>oid_volid = -1, oid_pageid = -1, oid_slotid = -1\<rparr>"

abbreviation (input) LOG_REPL_DONT_NEED_FLUSH :: int where "LOG_REPL_DONT_NEED_FLUSH \<equiv> -1"
abbreviation (input) LOG_REPL_COMMIT_NEED_FLUSH :: int where "LOG_REPL_COMMIT_NEED_FLUSH \<equiv> 0"
abbreviation (input) LOG_REPL_NEED_FLUSH :: int where "LOG_REPL_NEED_FLUSH \<equiv> 1"

abbreviation (input) RVREPL_INSERT :: int where "RVREPL_INSERT \<equiv> 95"
abbreviation (input) RVREPL_UPDATE :: int where "RVREPL_UPDATE \<equiv> 96"
abbreviation (input) RVREPL_DELETE :: int where "RVREPL_DELETE \<equiv> 97"
abbreviation (input) RVREPL_SCHEMA :: int where "RVREPL_SCHEMA \<equiv> 98"
abbreviation (input) RVREPL_UPDATE_START :: int where "RVREPL_UPDATE_START \<equiv> 99"
abbreviation (input) RVREPL_UPDATE_END :: int where "RVREPL_UPDATE_END \<equiv> 100"

abbreviation (input) ER_REPL_ERROR :: errcode where "ER_REPL_ERROR \<equiv> -898"
abbreviation (input) REPL_LOG_INFO_ALLOC_SIZE :: nat where "REPL_LOG_INFO_ALLOC_SIZE \<equiv> 100"

datatype repl_info_type =
  REPL_INFO_TYPE_SCHEMA | REPL_INFO_TYPE_STMT_START | REPL_INFO_TYPE_STMT_NORMAL | REPL_INFO_TYPE_STMT_END

record log_repl_record =
  rr_repl_type :: int
  rr_rcvindex :: int
  rr_inst_oid :: oid
  rr_lsa :: log_lsa
  rr_repl_data :: "byte list option"
  rr_length :: int
  rr_must_flush :: int

record log_tdes_repl = log_tdes +
  td_num_repl_records :: int
  td_cur_repl_record :: int
  td_append_repl_recidx :: int
  td_repl_records :: "log_repl_record list option"
  td_fl_mark_repl_recidx :: int
  td_repl_insert_lsa :: log_lsa
  td_repl_update_lsa :: log_lsa
  td_suppress_replication :: int

record repl_info_schema =
  rs_statement_type :: int
  rs_name :: "byte list option"
  rs_ddl :: "byte list option"
  rs_db_user :: "byte list option"
  rs_sys_prm_context :: "byte list option"

text \<open>
  What an operation finds around it: whether the array and the data of a
  record can be allocated and what the new memory holds, the name of the class
  (\<^verbatim>\<open>heap_get_class_name\<close>) with the error set when there is none, and
  the next address of the log (\<^verbatim>\<open>log_Gl.prior_info.prior_lsa\<close>).
\<close>

record repl_env =
  re_array_mem :: bool
  re_data_mem :: bool
  re_junk :: "nat \<Rightarrow> log_repl_record"
  re_block :: "nat \<Rightarrow> byte list"
  re_class_name :: "byte list option"
  re_errid :: errcode
  re_prior_lsa :: log_lsa

definition get_rec :: "int \<Rightarrow> log_tdes_repl \<Rightarrow> log_repl_record option" where
  "get_rec i td =
     (case td_repl_records td of
        None \<Rightarrow> None
      | Some rs \<Rightarrow> if 0 \<le> i \<and> nat i < length rs then Some (rs ! nat i) else None)"

definition set_rec :: "int \<Rightarrow> log_repl_record \<Rightarrow> log_tdes_repl \<Rightarrow> log_tdes_repl" where
  "set_rec i r td = td\<lparr>td_repl_records := map_option (\<lambda>rs. rs[nat i := r]) (td_repl_records td)\<rparr>"

text \<open>The block of \<open>n\<close> bytes for the data of a record, after \<open>data\<close> was packed into it.\<close>

definition packed_block :: "repl_env \<Rightarrow> nat \<Rightarrow> byte list \<Rightarrow> byte list option" where
  "packed_block en n data = (if n < length data then None else Some (data @ drop (length data) (re_block en n)))"

text \<open>The descriptor of the calling thread; \<^verbatim>\<open>ER_FAILED\<close> when it has none.\<close>

definition with_tdes :: "(log_tdes_repl \<Rightarrow> (errcode \<times> log_tdes_repl) option) \<Rightarrow> log_tdes_repl option
    \<Rightarrow> (errcode \<times> log_tdes_repl option) option" where
  "with_tdes f tdes = (case tdes of None \<Rightarrow> Some (ER_FAILED, None) | Some td \<Rightarrow> map_option (apsnd Some) (f td))"

section \<open>Collecting records\<close>

text \<open>Places \<open>a\<close> to \<open>b - 1\<close> of new memory, with no data.\<close>

definition fresh_recs :: "repl_env \<Rightarrow> nat \<Rightarrow> nat \<Rightarrow> log_repl_record list" where
  "fresh_recs en a b = map (\<lambda>i. (re_junk en i)\<lparr>rr_repl_data := None\<rparr>) [a..<b]"

definition repl_log_info_alloc :: "repl_env \<Rightarrow> nat \<Rightarrow> bool \<Rightarrow> log_tdes_repl \<Rightarrow> errcode \<times> log_tdes_repl" where
  "repl_log_info_alloc en arr_size need_realloc td =
     (if \<not> re_array_mem en then (ER_REPL_ERROR, td\<lparr>td_repl_records := None\<rparr>)
      else if \<not> need_realloc then
        (NO_ERROR, td\<lparr>td_repl_records := Some (fresh_recs en 0 arr_size),
                      td_num_repl_records := int arr_size\<rparr>)
      else
        let n = nat (td_num_repl_records td) + arr_size;
            old = (case td_repl_records td of None \<Rightarrow> [] | Some rs \<Rightarrow> rs);
            new = take n old @ map (re_junk en) [length old..<n];
            k = nat (td_num_repl_records td)
        in (NO_ERROR, td\<lparr>td_repl_records := Some (take k new @ map (\<lambda>r. r\<lparr>rr_repl_data := None\<rparr>) (drop k new)),
                         td_num_repl_records := int n\<rparr>))"

definition REPL_LOG_IS_NOT_EXISTS :: "log_tdes_repl \<Rightarrow> bool" where
  "REPL_LOG_IS_NOT_EXISTS td \<longleftrightarrow> td_num_repl_records td = 0"

definition REPL_LOG_IS_FULL :: "log_tdes_repl \<Rightarrow> bool" where
  "REPL_LOG_IS_FULL td \<longleftrightarrow> td_num_repl_records td = td_cur_repl_record td + 1"

text \<open>The two tests every insertion begins with.\<close>

definition repl_log_room :: "repl_env \<Rightarrow> log_tdes_repl \<Rightarrow> errcode \<times> log_tdes_repl" where
  "repl_log_room en td =
     (case (if REPL_LOG_IS_NOT_EXISTS td then repl_log_info_alloc en REPL_LOG_INFO_ALLOC_SIZE False td else (NO_ERROR, td)) of
        (err, td1) \<Rightarrow>
          if err \<noteq> NO_ERROR then (err, td1)
          else if REPL_LOG_IS_FULL td1 then repl_log_info_alloc en REPL_LOG_INFO_ALLOC_SIZE True td1
          else (NO_ERROR, td1))"

text \<open>The last part of \<^verbatim>\<open>repl_log_insert\<close>: the address of the change and the flush mark.\<close>

definition repl_log_insert_lsa :: "repl_env \<Rightarrow> int \<Rightarrow> log_repl_record \<Rightarrow> log_tdes_repl \<Rightarrow> log_repl_record \<times> log_tdes_repl" where
  "repl_log_insert_lsa en rcvindex r td =
     (if rcvindex = RVREPL_INSERT then
        (if LSA_ISNULL (td_repl_insert_lsa td) then (r, td)
         else (r\<lparr>rr_lsa := td_repl_insert_lsa td\<rparr>, td\<lparr>td_repl_insert_lsa := LSA_NULL, td_repl_update_lsa := LSA_NULL\<rparr>))
      else if rcvindex = RVREPL_UPDATE \<or> rcvindex = RVREPL_DELETE then
        (r\<lparr>rr_lsa := if LSA_ISNULL (td_tail_lsa td) then re_prior_lsa en else td_tail_lsa td\<rparr>, td)
      else (r, td))"

definition repl_same_inst :: "log_repl_record \<Rightarrow> log_tdes_repl \<Rightarrow> bool" where
  "repl_same_inst r td =
     (case td_repl_records td of
        None \<Rightarrow> False
      | Some rs \<Rightarrow> list_ex (\<lambda>q. rr_must_flush q = LOG_REPL_COMMIT_NEED_FLUSH \<and> OID_EQ (rr_inst_oid q) (rr_inst_oid r))
                    (take (nat (td_fl_mark_repl_recidx td)) rs))"

definition repl_log_insert_end :: "repl_env \<Rightarrow> int \<Rightarrow> log_repl_record \<Rightarrow> log_tdes_repl \<Rightarrow> log_tdes_repl" where
  "repl_log_insert_end en rcvindex r td =
     (case repl_log_insert_lsa en rcvindex (r\<lparr>rr_must_flush := LOG_REPL_COMMIT_NEED_FLUSH\<rparr>) td of
        (r1, td1) \<Rightarrow>
          let i = td_cur_repl_record td1;
              td2 = (set_rec i r1 td1)\<lparr>td_cur_repl_record := i + 1\<rparr>
          in if td_fl_mark_repl_recidx td2 \<noteq> -1 \<and> \<not> repl_same_inst r1 td2
             then set_rec i (r1\<lparr>rr_must_flush := LOG_REPL_NEED_FLUSH\<rparr>) td2 else td2)"

definition repl_insert_rcvindex :: "int \<Rightarrow> repl_info_type \<Rightarrow> int" where
  "repl_insert_rcvindex rcvindex repl_info =
     (if rcvindex = RVREPL_UPDATE then
        (case repl_info of
           REPL_INFO_TYPE_STMT_START \<Rightarrow> RVREPL_UPDATE_START
         | REPL_INFO_TYPE_STMT_END \<Rightarrow> RVREPL_UPDATE_END
         | _ \<Rightarrow> rcvindex)
      else rcvindex)"

text \<open>
  The primary key is packed by \<^verbatim>\<open>or_pack_mem_value\<close> into \<open>key\<close> and takes
  \<open>key_size\<close> bytes (\<^verbatim>\<open>OR_VALUE_ALIGNED_SIZE\<close>). Packing more than was
  allocated is undefined.
\<close>

definition repl_log_insert_td ::
    "repl_env \<Rightarrow> oid \<Rightarrow> int \<Rightarrow> int \<Rightarrow> byte list \<Rightarrow> nat \<Rightarrow> repl_info_type \<Rightarrow> log_tdes_repl \<Rightarrow> (errcode \<times> log_tdes_repl) option" where
  "repl_log_insert_td en inst_oid log_type rcvindex key key_size repl_info td =
     (if td_suppress_replication td \<noteq> 0 then Some (NO_ERROR, td)
      else case repl_log_room en td of
        (err, td1) \<Rightarrow>
          if err \<noteq> NO_ERROR then Some (err, td1)
          else case get_rec (td_cur_repl_record td1) td1 of
            None \<Rightarrow> None
          | Some r0 \<Rightarrow>
              let i = td_cur_repl_record td1;
                  r1 = r0\<lparr>rr_repl_type := log_type, rr_rcvindex := repl_insert_rcvindex rcvindex repl_info, rr_inst_oid := inst_oid\<rparr>
              in if log_type = LOG_REPLICATION_DATA then
                   (case re_class_name en of
                      None \<Rightarrow> Some (if re_errid en = NO_ERROR then ER_REPL_ERROR else re_errid en, set_rec i r1 td1)
                    | Some class_name \<Rightarrow>
                        (let (total, strlen) = or_packed_string_length (Some class_name);
                             r2 = r1\<lparr>rr_length := int (total + key_size)\<rparr>;
                             data = or_pack_string_with_length [] (Some class_name) strlen @ key
                         in if \<not> re_data_mem en then Some (ER_REPL_ERROR, set_rec i r2 td1)
                            else (case packed_block en (total + key_size) data of
                                    None \<Rightarrow> None
                                  | Some block \<Rightarrow> Some (NO_ERROR, repl_log_insert_end en rcvindex (r2\<lparr>rr_repl_data := Some block\<rparr>) td1))))
                 else Some (NO_ERROR, repl_log_insert_end en rcvindex (r1\<lparr>rr_repl_data := None, rr_length := 0\<rparr>) td1))"

definition repl_log_insert ::
    "repl_env \<Rightarrow> oid \<Rightarrow> int \<Rightarrow> int \<Rightarrow> byte list \<Rightarrow> nat \<Rightarrow> repl_info_type \<Rightarrow> log_tdes_repl option
      \<Rightarrow> (errcode \<times> log_tdes_repl option) option" where
  "repl_log_insert en inst_oid log_type rcvindex key key_size repl_info =
     with_tdes (repl_log_insert_td en inst_oid log_type rcvindex key key_size repl_info)"

definition pack_schema :: "repl_info_schema \<Rightarrow> byte list" where
  "pack_schema sch =
     (let pk = (\<lambda>area string. or_pack_string_with_length area string (snd (or_packed_string_length string)))
      in pk (pk (pk (pk (or_pack_int [] (rs_statement_type sch)) (rs_name sch)) (rs_ddl sch)) (rs_db_user sch)) (rs_sys_prm_context sch))"

definition schema_length :: "repl_info_schema \<Rightarrow> nat" where
  "schema_length sch =
     OR_INT_SIZE + fst (or_packed_string_length (rs_name sch)) + fst (or_packed_string_length (rs_ddl sch)) +
     fst (or_packed_string_length (rs_db_user sch)) + fst (or_packed_string_length (rs_sys_prm_context sch))"

definition repl_log_insert_schema_td ::
    "repl_env \<Rightarrow> repl_info_schema \<Rightarrow> log_tdes_repl \<Rightarrow> (errcode \<times> log_tdes_repl) option" where
  "repl_log_insert_schema_td en sch td =
     (if td_suppress_replication td \<noteq> 0 then Some (NO_ERROR, td)
      else case repl_log_room en td of
        (err, td1) \<Rightarrow>
          if err \<noteq> NO_ERROR then Some (err, td1)
          else case get_rec (td_cur_repl_record td1) td1 of
            None \<Rightarrow> None
          | Some r0 \<Rightarrow>
              let i = td_cur_repl_record td1;
                  r1 = r0\<lparr>rr_repl_type := LOG_REPLICATION_SCHEMA, rr_rcvindex := RVREPL_SCHEMA,
                          rr_must_flush := LOG_REPL_COMMIT_NEED_FLUSH, rr_inst_oid := OID_NULL, rr_length := int (schema_length sch)\<rparr>
              in if \<not> re_data_mem en then Some (ER_REPL_ERROR, set_rec i (r1\<lparr>rr_repl_data := None\<rparr>) td1)
                 else (case packed_block en (schema_length sch) (pack_schema sch) of
                         None \<Rightarrow> None
                       | Some block \<Rightarrow>
                           Some (NO_ERROR, (set_rec i (r1\<lparr>rr_repl_data := Some block, rr_lsa := td_tail_lsa td1\<rparr>) td1)
                              \<lparr>td_cur_repl_record := i + 1\<rparr>)))"

definition repl_log_insert_schema ::
    "repl_env \<Rightarrow> repl_info_schema \<Rightarrow> log_tdes_repl option \<Rightarrow> (errcode \<times> log_tdes_repl option) option" where
  "repl_log_insert_schema en sch = with_tdes (repl_log_insert_schema_td en sch)"

section \<open>Addresses, marks and partial rollbacks\<close>

text \<open>
  After the heap was updated, the latest record of the instance gets the
  address of the update. The array is searched from the newest record on.
\<close>

definition is_update :: "log_repl_record \<Rightarrow> bool" where
  "is_update r \<longleftrightarrow> rr_rcvindex r \<in> {RVREPL_UPDATE, RVREPL_UPDATE_START, RVREPL_UPDATE_END}"

definition repl_add_update_lsa_td :: "oid \<Rightarrow> log_tdes_repl \<Rightarrow> (errcode \<times> log_tdes_repl) option" where
  "repl_add_update_lsa_td inst_oid td =
     (if td_suppress_replication td \<noteq> 0 \<or> td_cur_repl_record td \<le> 0 then Some (NO_ERROR, td)
      else case td_repl_records td of
        None \<Rightarrow> None
      | Some rs \<Rightarrow>
          if length rs < nat (td_cur_repl_record td) then None
          else case find (\<lambda>i. OID_EQ (rr_inst_oid (rs ! i)) inst_oid \<and> \<not> LSA_ISNULL (td_repl_update_lsa td) \<and> is_update (rs ! i))
                      (rev [0..<nat (td_cur_repl_record td)]) of
                 None \<Rightarrow> Some (NO_ERROR, td)
               | Some i \<Rightarrow> Some (NO_ERROR, (set_rec (int i) ((rs ! i)\<lparr>rr_lsa := td_repl_update_lsa td\<rparr>) td)
                                  \<lparr>td_repl_update_lsa := LSA_NULL, td_repl_insert_lsa := LSA_NULL\<rparr>))"

definition repl_add_update_lsa :: "oid \<Rightarrow> log_tdes_repl option \<Rightarrow> (errcode \<times> log_tdes_repl option) option" where
  "repl_add_update_lsa inst_oid = with_tdes (repl_add_update_lsa_td inst_oid)"

definition repl_start_flush_mark :: "log_tdes_repl \<Rightarrow> log_tdes_repl" where
  "repl_start_flush_mark td =
     (if td_fl_mark_repl_recidx td = -1 then td\<lparr>td_fl_mark_repl_recidx := td_cur_repl_record td\<rparr> else td)"

definition repl_end_flush_mark :: "bool \<Rightarrow> log_tdes_repl \<Rightarrow> log_tdes_repl option" where
  "repl_end_flush_mark need_undo td =
     (if need_undo then
        (let m = td_fl_mark_repl_recidx td; c = td_cur_repl_record td in
         if c \<le> m then Some (td\<lparr>td_cur_repl_record := m, td_fl_mark_repl_recidx := -1\<rparr>)
         else case td_repl_records td of
           None \<Rightarrow> None
         | Some rs \<Rightarrow>
             if m < 0 \<or> length rs < nat c then None
             else Some (td\<lparr>td_repl_records := Some (take (nat m) rs @
                              map (\<lambda>r. r\<lparr>rr_repl_data := None\<rparr>) (drop (nat m) (take (nat c) rs)) @ drop (nat c) rs),
                           td_cur_repl_record := m, td_fl_mark_repl_recidx := -1\<rparr>))
      else Some (td\<lparr>td_fl_mark_repl_recidx := -1\<rparr>))"

definition repl_log_abort_after_lsa :: "log_lsa \<Rightarrow> log_tdes_repl \<Rightarrow> log_tdes_repl option" where
  "repl_log_abort_after_lsa start_lsa td =
     (let c = nat (td_cur_repl_record td) in
      if c = 0 then Some td
      else case td_repl_records td of
        None \<Rightarrow> None
      | Some rs \<Rightarrow>
          if length rs < c then None
          else Some (td\<lparr>td_repl_records := Some (map (\<lambda>r. if LSA_GT (rr_lsa r) start_lsa
                            then r\<lparr>rr_must_flush := LOG_REPL_DONT_NEED_FLUSH\<rparr> else r) (take c rs) @ drop c rs)\<rparr>))"

section \<open>Appending the records to the log\<close>

text \<open>\<^verbatim>\<open>struct log_replication\<close>: address, length and recovery index.\<close>

definition wr_log_replication :: "log_lsa \<Rightarrow> int \<Rightarrow> int \<Rightarrow> byte list" where
  "wr_log_replication lsa len rcvindex = wr_lsa lsa @ wr_int 4 len @ wr_int 4 rcvindex"

definition empty_header :: "int \<Rightarrow> log_record_header" where
  "empty_header type = \<lparr>lr_prev_tranlsa = LSA_NULL, lr_back_lsa = LSA_NULL, lr_forw_lsa = LSA_NULL, lr_trid = 0, lr_type = type\<rparr>"

definition repl_node :: "log_repl_record \<Rightarrow> log_prior_node" where
  "repl_node r =
     \<lparr>pn_log_header = empty_header (rr_repl_type r), pn_start_lsa = LSA_NULL,
      pn_data_header = wr_log_replication (if rr_rcvindex r = RVREPL_DELETE \<or> rr_rcvindex r = RVREPL_SCHEMA then LSA_NULL else rr_lsa r)
                         (rr_length r) (rr_rcvindex r),
      pn_udata = (case rr_repl_data r of None \<Rightarrow> [] | Some data \<Rightarrow> take (nat (rr_length r)) data),
      pn_rdata = []\<rparr>"

definition must_append :: "bool \<Rightarrow> log_repl_record \<Rightarrow> bool" where
  "must_append is_commit r \<longleftrightarrow> (rr_repl_type r = LOG_REPLICATION_DATA \<or> rr_repl_type r = LOG_REPLICATION_SCHEMA) \<and>
     ((is_commit \<and> rr_must_flush r \<noteq> LOG_REPL_DONT_NEED_FLUSH) \<or> rr_must_flush r = LOG_REPL_NEED_FLUSH)"

text \<open>
  \<open>alloc\<close> answers the allocation of the node with its copies; without memory
  the loop goes round with the same record.
\<close>

partial_function (option) log_append_repl_loop ::
    "nat \<Rightarrow> ('w \<Rightarrow> bool \<times> 'w) \<Rightarrow> bool \<Rightarrow> log_tdes_repl \<Rightarrow> log_prior_info \<Rightarrow> 'w \<Rightarrow> (log_tdes_repl \<times> log_prior_info \<times> 'w) option" where
  "log_append_repl_loop sz alloc is_commit td pi w =
     (if td_append_repl_recidx td < td_cur_repl_record td then
        (let i = td_append_repl_recidx td in
         case get_rec i td of
           None \<Rightarrow> None
         | Some r \<Rightarrow>
             if must_append is_commit r then
               (case alloc w of
                  (ok, w1) \<Rightarrow>
                    if \<not> ok then log_append_repl_loop sz alloc is_commit td pi w1
                    else (case prior_lsa_next_record_internal sz (repl_node r) td pi of
                            None \<Rightarrow> None
                          | Some (_, td1, pi1) \<Rightarrow>
                              log_append_repl_loop sz alloc is_commit
                                ((set_rec i (r\<lparr>rr_must_flush := LOG_REPL_DONT_NEED_FLUSH\<rparr>) td1)\<lparr>td_append_repl_recidx := i + 1\<rparr>) pi1 w1))
             else log_append_repl_loop sz alloc is_commit (td\<lparr>td_append_repl_recidx := i + 1\<rparr>) pi w)
      else Some (td, pi, w))"

definition log_append_repl_info_internal ::
    "nat \<Rightarrow> ('w \<Rightarrow> bool \<times> 'w) \<Rightarrow> bool \<Rightarrow> log_tdes_repl \<Rightarrow> log_prior_info \<Rightarrow> 'w \<Rightarrow> (log_tdes_repl \<times> log_prior_info \<times> 'w) option" where
  "log_append_repl_info_internal sz alloc is_commit td pi w =
     log_append_repl_loop sz alloc is_commit
       (if td_append_repl_recidx td = -1 \<or> is_commit then td\<lparr>td_append_repl_recidx := 0\<rparr> else td) pi w"

definition log_append_unlock_log_internal ::
    "nat \<Rightarrow> ('w \<Rightarrow> bool \<times> 'w) \<Rightarrow> log_tdes_repl \<Rightarrow> log_prior_info \<Rightarrow> 'w \<Rightarrow> (log_tdes_repl \<times> log_prior_info \<times> 'w) option" where
  "log_append_unlock_log_internal sz alloc td pi w =
     (case alloc w of
        (ok, w1) \<Rightarrow>
          if \<not> ok then Some (td, pi, w1)
          else (case prior_lsa_next_record_internal sz
                  \<lparr>pn_log_header = empty_header LOG_UNLOCK_COMMIT, pn_start_lsa = LSA_NULL, pn_data_header = [], pn_udata = [], pn_rdata = []\<rparr>
                  td pi of
                  None \<Rightarrow> None
                | Some (_, td1, pi1) \<Rightarrow> Some (td1, pi1, w1)))"

definition log_append_repl_info_and_unlock_log ::
    "nat \<Rightarrow> ('w \<Rightarrow> bool \<times> 'w) \<Rightarrow> log_tdes_repl \<Rightarrow> log_prior_info \<Rightarrow> 'w \<Rightarrow> (log_tdes_repl \<times> log_prior_info \<times> 'w) option" where
  "log_append_repl_info_and_unlock_log sz alloc td pi w =
     (case log_append_repl_info_internal sz alloc True td pi w of
        None \<Rightarrow> None
      | Some (td1, pi1, w1) \<Rightarrow> log_append_unlock_log_internal sz alloc td1 pi1 w1)"

text \<open>
  What \<^verbatim>\<open>logtb_clear_tdes\<close> does to the replication part of a descriptor at
  the end of the transaction: the data is freed, the array is kept.
\<close>

definition logtb_clear_tdes_repl :: "log_tdes_repl \<Rightarrow> log_tdes_repl option" where
  "logtb_clear_tdes_repl td =
     (let c = nat (td_cur_repl_record td);
          td1 = td\<lparr>td_cur_repl_record := 0, td_append_repl_recidx := -1, td_fl_mark_repl_recidx := -1,
                   td_repl_insert_lsa := LSA_NULL, td_repl_update_lsa := LSA_NULL, td_suppress_replication := 0\<rparr>
      in if c = 0 then Some td1
         else case td_repl_records td of
           None \<Rightarrow> None
         | Some rs \<Rightarrow>
             if length rs < c then None
             else Some (td1\<lparr>td_repl_records := Some (map (\<lambda>r. r\<lparr>rr_repl_data := None\<rparr>) (take c rs) @ drop c rs)\<rparr>))"

section \<open>The records stay in their array\<close>

text \<open>
  The invariant of a descriptor: either nothing was collected yet, or the array
  has the recorded size and the next record a place in it; marks point at
  collected records, and every collected record has data of its length.
\<close>

definition rr_ok :: "log_repl_record \<Rightarrow> bool" where
  "rr_ok r \<longleftrightarrow> rr_length r = int (length (case rr_repl_data r of None \<Rightarrow> [] | Some data \<Rightarrow> data))"

definition recs :: "log_tdes_repl \<Rightarrow> log_repl_record list" where
  "recs td = (case td_repl_records td of None \<Rightarrow> [] | Some rs \<Rightarrow> take (nat (td_cur_repl_record td)) rs)"

definition array_ok :: "log_tdes_repl \<Rightarrow> bool" where
  "array_ok td \<longleftrightarrow> (td_num_repl_records td = 0 \<and> td_cur_repl_record td = 0) \<or>
     (\<exists>rs. td_repl_records td = Some rs \<and> td_num_repl_records td = int (length rs) \<and>
        0 \<le> td_cur_repl_record td \<and> td_cur_repl_record td < int (length rs))"

definition repl_td_inv :: "log_tdes_repl \<Rightarrow> bool" where
  "repl_td_inv td \<longleftrightarrow> array_ok td \<and> -1 \<le> td_fl_mark_repl_recidx td \<and> td_fl_mark_repl_recidx td \<le> td_cur_repl_record td \<and>
     (\<forall>r \<in> set (recs td). rr_ok r)"

definition env_ok :: "repl_env \<Rightarrow> bool" where
  "env_ok en \<longleftrightarrow> re_array_mem en \<and> (\<forall>n. length (re_block en n) = n)"

lemma length_fresh_recs [simp]: "length (fresh_recs en a b) = b - a"
  by (simp add: fresh_recs_def)

lemma repl_log_info_realloc:
  assumes "re_array_mem en" and "td_repl_records td = Some rs" and "td_num_repl_records td = int (length rs)"
  shows "repl_log_info_alloc en n True td = (NO_ERROR,
    td\<lparr>td_repl_records := Some (rs @ fresh_recs en (length rs) (length rs + n)), td_num_repl_records := int (length rs + n)\<rparr>)"
  using assms by (simp add: repl_log_info_alloc_def Let_def fresh_recs_def)

lemma array_ok_SomeD:
  assumes "array_ok td" and "td_num_repl_records td \<noteq> 0"
  obtains rs where "td_repl_records td = Some rs" "td_num_repl_records td = int (length rs)"
    "0 \<le> td_cur_repl_record td" "td_cur_repl_record td < int (length rs)"
  using assms by (auto simp: array_ok_def)

text \<open>Making room gives a place for the next record and leaves the collected ones.\<close>

lemma repl_log_room_ok:
  assumes "env_ok en" and "array_ok td"
  obtains td1 rs where "repl_log_room en td = (NO_ERROR, td1)"
    "td1 = td\<lparr>td_repl_records := Some rs, td_num_repl_records := int (length rs)\<rparr>"
    "0 \<le> td_cur_repl_record td" "td_cur_repl_record td + 1 < int (length rs)" "recs td1 = recs td"
proof (cases "td_num_repl_records td = 0")
  case True
  then have c: "td_cur_repl_record td = 0" using assms(2) by (auto simp: array_ok_def)
  define td1 where "td1 = td\<lparr>td_repl_records := Some (fresh_recs en 0 100), td_num_repl_records := int (length (fresh_recs en 0 100))\<rparr>"
  have a: "repl_log_info_alloc en 100 False td = (NO_ERROR, td1)"
    using assms(1) by (simp add: repl_log_info_alloc_def env_ok_def td1_def)
  have f: "\<not> REPL_LOG_IS_FULL td1" using c by (simp add: REPL_LOG_IS_FULL_def td1_def)
  have r: "repl_log_room en td = (NO_ERROR, td1)"
    using True a f by (simp add: repl_log_room_def REPL_LOG_IS_NOT_EXISTS_def)
  have "recs td1 = recs td" using c by (simp add: recs_def td1_def split: option.split)
  then show thesis by (intro that [OF r td1_def]) (simp_all add: c)
next
  case False
  obtain rs where rs: "td_repl_records td = Some rs" "td_num_repl_records td = int (length rs)"
    "0 \<le> td_cur_repl_record td" "td_cur_repl_record td < int (length rs)" using array_ok_SomeD [OF assms(2) False] .
  show thesis
  proof (cases "REPL_LOG_IS_FULL td")
    case True
    define rs' where "rs' = rs @ fresh_recs en (length rs) (length rs + 100)"
    have "repl_log_room en td = (NO_ERROR, td\<lparr>td_repl_records := Some rs', td_num_repl_records := int (length rs')\<rparr>)"
      using True False assms(1) repl_log_info_realloc [OF _ rs(1,2)]
      by (simp add: repl_log_room_def REPL_LOG_IS_NOT_EXISTS_def env_ok_def rs'_def)
    moreover have "recs (td\<lparr>td_repl_records := Some rs', td_num_repl_records := int (length rs')\<rparr>) = recs td"
      using rs by (simp add: recs_def rs'_def)
    ultimately show thesis using rs(3,4) by (intro that [of _ rs', OF _ refl]) (simp_all add: rs'_def)
  next
    case nf: False
    have r: "repl_log_room en td = (NO_ERROR, td)"
      using nf False by (simp add: repl_log_room_def REPL_LOG_IS_NOT_EXISTS_def)
    have "td_cur_repl_record td + 1 < int (length rs)" using nf rs by (simp add: REPL_LOG_IS_FULL_def)
    then show thesis using rs by (intro that [OF r, of rs]) simp_all
  qed
qed

lemma recs_set_rec:
  assumes "td_repl_records td = Some rs" and "0 \<le> td_cur_repl_record td" and "td_cur_repl_record td < int (length rs)"
  shows "recs ((set_rec (td_cur_repl_record td) r td)\<lparr>td_cur_repl_record := td_cur_repl_record td + 1\<rparr>) = recs td @ [r]"
proof -
  define c where "c = nat (td_cur_repl_record td)"
  have c: "c < length rs" "nat (td_cur_repl_record td + 1) = Suc c" using assms by (auto simp: c_def)
  then show ?thesis using assms(1) by (simp add: recs_def set_rec_def c_def [symmetric] take_Suc_conv_app_nth)
qed

lemma array_okI:
  "td_repl_records td = Some rs \<Longrightarrow> td_num_repl_records td = int (length rs) \<Longrightarrow> 0 \<le> td_cur_repl_record td \<Longrightarrow>
    td_cur_repl_record td < int (length rs) \<Longrightarrow> array_ok td"
  by (simp add: array_ok_def)

text \<open>Storing the next record: what both insertions end with.\<close>

lemma store_inv:
  assumes "repl_td_inv td" and "td_repl_records td1 = Some rs" and "td_num_repl_records td1 = int (length rs)"
    and "td_cur_repl_record td1 = td_cur_repl_record td" and "td_fl_mark_repl_recidx td1 = td_fl_mark_repl_recidx td"
    and "0 \<le> td_cur_repl_record td" and "td_cur_repl_record td + 1 < int (length rs)" and "recs td1 = recs td" and "rr_ok r"
  shows "repl_td_inv ((set_rec (td_cur_repl_record td1) r td1)\<lparr>td_cur_repl_record := td_cur_repl_record td1 + 1\<rparr>)"
proof -
  let ?td = "(set_rec (td_cur_repl_record td1) r td1)\<lparr>td_cur_repl_record := td_cur_repl_record td1 + 1\<rparr>"
  have "recs ?td = recs td @ [r]" using recs_set_rec [OF assms(2)] assms(4,6-8) by simp
  moreover have "array_ok ?td"
    by (rule array_okI [of _ "rs[nat (td_cur_repl_record td1) := r]"]) (use assms(2-7) in \<open>simp_all add: set_rec_def\<close>)
  ultimately show ?thesis using assms(1,4,5,9) by (auto simp: repl_td_inv_def set_rec_def)
qed

lemma set_rec_inv:
  assumes "repl_td_inv td" and "td_repl_records td1 = Some rs" and "td_num_repl_records td1 = int (length rs)"
    and "td_cur_repl_record td1 = td_cur_repl_record td" and "td_fl_mark_repl_recidx td1 = td_fl_mark_repl_recidx td"
    and "0 \<le> td_cur_repl_record td" and "td_cur_repl_record td + 1 < int (length rs)" and "recs td1 = recs td"
  shows "repl_td_inv (set_rec (td_cur_repl_record td1) r td1)"
proof -
  have "recs (set_rec (td_cur_repl_record td1) r td1) = recs td" using assms(2,8) by (simp add: recs_def set_rec_def)
  moreover have "array_ok (set_rec (td_cur_repl_record td1) r td1)"
    by (rule array_okI [of _ "rs[nat (td_cur_repl_record td1) := r]"]) (use assms(2-7) in \<open>simp_all add: set_rec_def\<close>)
  ultimately show ?thesis using assms(1,4,5) by (auto simp: repl_td_inv_def set_rec_def)
qed

lemma packed_block_ok:
  assumes "env_ok en" and "length data \<le> n"
  obtains block where "packed_block en n data = Some block" "length block = n" "take (length data) block = data"
  using assms by (auto simp: packed_block_def env_ok_def)

lemma pack_schema_eq:
  "pack_schema sch = OR_PUT_INT (rs_statement_type sch) @ or_pack_string [] (rs_name sch) @ or_pack_string [] (rs_ddl sch) @
     or_pack_string [] (rs_db_user sch) @ or_pack_string [] (rs_sys_prm_context sch)"
proof -
  have "or_pack_string area string = area @ or_pack_string [] string" for area string by (rule or_pack_string_append)
  from this [of "_ @ _"] this [of "OR_PUT_INT _"] show ?thesis
    by (simp add: pack_schema_def or_pack_string_with_length_eq or_pack_int_def)
qed

lemma length_pack_schema: "length (pack_schema sch) = schema_length sch"
  by (simp add: pack_schema_eq schema_length_def length_or_pack_string)

lemma packed_schema: "packed_block en (schema_length sch) (pack_schema sch) = Some (pack_schema sch) \<longleftrightarrow> drop (schema_length sch) (re_block en (schema_length sch)) = []"
  by (simp add: packed_block_def length_pack_schema)

text \<open>The record of a schema change is stored behind the others, its data the packed statement.\<close>

lemma repl_log_insert_schema_ok:
  assumes "env_ok en" and "repl_td_inv td"
  shows "\<exists>err td'. repl_log_insert_schema_td en sch td = Some (err, td') \<and> repl_td_inv td' \<and>
    (td_suppress_replication td = 0 \<and> re_data_mem en \<longrightarrow> err = NO_ERROR \<and>
       (\<exists>r. recs td' = recs td @ [r] \<and> rr_repl_type r = LOG_REPLICATION_SCHEMA \<and> rr_rcvindex r = RVREPL_SCHEMA \<and>
          rr_repl_data r = Some (pack_schema sch) \<and> rr_length r = int (length (pack_schema sch)) \<and>
          rr_must_flush r = LOG_REPL_COMMIT_NEED_FLUSH))"
proof (cases "td_suppress_replication td = 0")
  case False
  with assms(2) show ?thesis by (simp add: repl_log_insert_schema_td_def)
next
  case True
  have a: "array_ok td" using assms(2) by (simp add: repl_td_inv_def)
  obtain td1 rs where r: "repl_log_room en td = (NO_ERROR, td1)"
    and t: "td1 = td\<lparr>td_repl_records := Some rs, td_num_repl_records := int (length rs)\<rparr>"
    and c: "0 \<le> td_cur_repl_record td" "td_cur_repl_record td + 1 < int (length rs)" and rc: "recs td1 = recs td"
    using repl_log_room_ok [OF assms(1) a] .
  have t': "td_repl_records td1 = Some rs" "td_num_repl_records td1 = int (length rs)" "td_cur_repl_record td1 = td_cur_repl_record td"
    "td_fl_mark_repl_recidx td1 = td_fl_mark_repl_recidx td" by (simp_all add: t)
  note S = store_inv [OF assms(2) t' c rc] set_rec_inv [OF assms(2) t' c rc] recs_set_rec [OF t'(1)]
  have g: "get_rec (td_cur_repl_record td1) td1 = Some (rs ! nat (td_cur_repl_record td))"
    using c by (simp add: get_rec_def t)
  have blk: "packed_block en (schema_length sch) (pack_schema sch) = Some (pack_schema sch)"
    using assms(1) by (simp add: packed_schema env_ok_def)
  define r1 where "r1 = (rs ! nat (td_cur_repl_record td))\<lparr>rr_repl_type := LOG_REPLICATION_SCHEMA, rr_rcvindex := RVREPL_SCHEMA,
      rr_must_flush := LOG_REPL_COMMIT_NEED_FLUSH, rr_inst_oid := OID_NULL, rr_length := int (schema_length sch)\<rparr>"
  define r2 where "r2 = r1\<lparr>rr_repl_data := Some (pack_schema sch), rr_lsa := td_tail_lsa td1\<rparr>"
  have ok: "rr_ok r2" by (simp add: rr_ok_def r2_def r1_def length_pack_schema)
  have e: "repl_log_insert_schema_td en sch td =
      (if \<not> re_data_mem en then Some (ER_REPL_ERROR, set_rec (td_cur_repl_record td1) (r1\<lparr>rr_repl_data := None\<rparr>) td1)
       else Some (NO_ERROR, (set_rec (td_cur_repl_record td1) r2 td1)\<lparr>td_cur_repl_record := td_cur_repl_record td1 + 1\<rparr>))"
    using True r g blk by (simp add: repl_log_insert_schema_td_def Let_def r1_def r2_def)
  show ?thesis
  proof (cases "re_data_mem en")
    case True
    then show ?thesis unfolding e using S(1) [OF ok] S(3) [of r2] c rc t' by (simp add: r2_def r1_def length_pack_schema)
  next
    case False
    then show ?thesis unfolding e using S(2) by simp
  qed
qed

lemma repl_log_insert_lsa_td:
  assumes "repl_log_insert_lsa en rcvindex r td = (r1, td1)"
  shows "rr_ok r1 = rr_ok r" and "td_repl_records td1 = td_repl_records td" and "td_num_repl_records td1 = td_num_repl_records td"
    and "td_cur_repl_record td1 = td_cur_repl_record td" and "td_fl_mark_repl_recidx td1 = td_fl_mark_repl_recidx td"
    and "recs td1 = recs td" and "rr_repl_data r1 = rr_repl_data r" and "rr_repl_type r1 = rr_repl_type r" and "rr_rcvindex r1 = rr_rcvindex r"
  using assms by (auto simp: repl_log_insert_lsa_def rr_ok_def recs_def split: if_splits option.split)

text \<open>The end of an insertion stores one record of the given data.\<close>

lemma repl_log_insert_end_ok:
  assumes "repl_td_inv td" and "td_repl_records td1 = Some rs" and "td_num_repl_records td1 = int (length rs)"
    and "td_cur_repl_record td1 = td_cur_repl_record td" and "td_fl_mark_repl_recidx td1 = td_fl_mark_repl_recidx td"
    and "0 \<le> td_cur_repl_record td" and "td_cur_repl_record td + 1 < int (length rs)" and "recs td1 = recs td" and "rr_ok r"
  shows "repl_td_inv (repl_log_insert_end en rcvindex r td1) \<and>
    (\<exists>r'. recs (repl_log_insert_end en rcvindex r td1) = recs td @ [r'] \<and> rr_repl_data r' = rr_repl_data r \<and>
       rr_repl_type r' = rr_repl_type r \<and> rr_rcvindex r' = rr_rcvindex r \<and>
       (rcvindex = RVREPL_INSERT \<and> \<not> LSA_ISNULL (td_repl_insert_lsa td1) \<longrightarrow> rr_lsa r' = td_repl_insert_lsa td1) \<and>
       (rr_must_flush r' = LOG_REPL_COMMIT_NEED_FLUSH \<or> rr_must_flush r' = LOG_REPL_NEED_FLUSH))"
proof -
  obtain r1 td2 where l: "repl_log_insert_lsa en rcvindex (r\<lparr>rr_must_flush := LOG_REPL_COMMIT_NEED_FLUSH\<rparr>) td1 = (r1, td2)"
    by (metis surj_pair)
  note L = repl_log_insert_lsa_td [OF l]
  have m: "rr_must_flush r1 = LOG_REPL_COMMIT_NEED_FLUSH"
    "rcvindex = RVREPL_INSERT \<and> \<not> LSA_ISNULL (td_repl_insert_lsa td1) \<longrightarrow> rr_lsa r1 = td_repl_insert_lsa td1"
    using l by (auto simp: repl_log_insert_lsa_def split: if_splits)
  let ?put = "\<lambda>x. (set_rec (td_cur_repl_record td2) x td2)\<lparr>td_cur_repl_record := td_cur_repl_record td2 + 1\<rparr>"
  have ok1: "rr_ok r1" using L(1) assms(9) by (simp add: rr_ok_def)
  then have ok2: "rr_ok (r1\<lparr>rr_must_flush := LOG_REPL_NEED_FLUSH\<rparr>)" by (simp add: rr_ok_def)
  have "set_rec i y ((set_rec i x td2)\<lparr>td_cur_repl_record := i + 1\<rparr>) = (set_rec i y td2)\<lparr>td_cur_repl_record := i + 1\<rparr>" for i x y
    by (cases "td_repl_records td2") (simp_all add: set_rec_def)
  then have e: "repl_log_insert_end en rcvindex r td1 = ?put r1 \<or>
      repl_log_insert_end en rcvindex r td1 = ?put (r1\<lparr>rr_must_flush := LOG_REPL_NEED_FLUSH\<rparr>)"
    by (simp add: repl_log_insert_end_def l Let_def)
  have t2: "td_repl_records td2 = Some rs" "td_num_repl_records td2 = int (length rs)" "td_cur_repl_record td2 = td_cur_repl_record td"
    "td_fl_mark_repl_recidx td2 = td_fl_mark_repl_recidx td" "recs td2 = recs td" using L assms by simp_all
  have i: "repl_td_inv (?put x)" if "rr_ok x" for x by (rule store_inv [OF assms(1) t2(1-4) assms(6,7) t2(5) that])
  have q: "recs (?put x) = recs td @ [x]" for x using recs_set_rec [OF t2(1), of x] t2 assms(6,7) by simp
  from e show ?thesis using i [OF ok1] i [OF ok2] q [of r1] q [of "r1\<lparr>rr_must_flush := LOG_REPL_NEED_FLUSH\<rparr>"] L m by auto
qed

lemma repl_log_insert_ok:
  assumes "env_ok en" and "repl_td_inv td" and "length key \<le> key_size"
  shows "\<exists>err td'. repl_log_insert_td en inst_oid log_type rcvindex key key_size repl_info td = Some (err, td') \<and> repl_td_inv td' \<and>
    (td_suppress_replication td = 0 \<and> re_data_mem en \<and> log_type = LOG_REPLICATION_DATA \<and> re_class_name en = Some nm \<longrightarrow>
       err = NO_ERROR \<and> (\<exists>r. recs td' = recs td @ [r] \<and> rr_repl_type r = LOG_REPLICATION_DATA \<and>
          rr_rcvindex r = repl_insert_rcvindex rcvindex repl_info \<and>
          (\<exists>rest. rr_repl_data r = Some (or_pack_string [] (Some nm) @ key @ rest) \<and> length rest = key_size - length key) \<and>
          (rcvindex = RVREPL_INSERT \<and> \<not> LSA_ISNULL (td_repl_insert_lsa td) \<longrightarrow> rr_lsa r = td_repl_insert_lsa td) \<and>
          rr_must_flush r \<noteq> LOG_REPL_DONT_NEED_FLUSH))"
proof (cases "td_suppress_replication td = 0")
  case False
  with assms(2) show ?thesis by (simp add: repl_log_insert_td_def)
next
  case True
  have a: "array_ok td" using assms(2) by (simp add: repl_td_inv_def)
  obtain td1 rs where r: "repl_log_room en td = (NO_ERROR, td1)"
    and t: "td1 = td\<lparr>td_repl_records := Some rs, td_num_repl_records := int (length rs)\<rparr>"
    and c: "0 \<le> td_cur_repl_record td" "td_cur_repl_record td + 1 < int (length rs)" and rc: "recs td1 = recs td"
    using repl_log_room_ok [OF assms(1) a] .
  have t': "td_repl_records td1 = Some rs" "td_num_repl_records td1 = int (length rs)" "td_cur_repl_record td1 = td_cur_repl_record td"
    "td_fl_mark_repl_recidx td1 = td_fl_mark_repl_recidx td" by (simp_all add: t)
  note S = set_rec_inv [OF assms(2) t' c rc] repl_log_insert_end_ok [OF assms(2) t' c rc, of _ en rcvindex]
  have g: "get_rec (td_cur_repl_record td1) td1 = Some (rs ! nat (td_cur_repl_record td))" using c by (simp add: get_rec_def t)
  define r1 where "r1 = (rs ! nat (td_cur_repl_record td))\<lparr>rr_repl_type := log_type,
      rr_rcvindex := repl_insert_rcvindex rcvindex repl_info, rr_inst_oid := inst_oid\<rparr>"
  note D = repl_log_insert_td_def Let_def r g r1_def [symmetric]
  show ?thesis
  proof (cases "log_type = LOG_REPLICATION_DATA")
    case False
    have "rr_ok (r1\<lparr>rr_repl_data := None, rr_length := 0\<rparr>)" by (simp add: rr_ok_def)
    from S(2) [OF this] True False show ?thesis by (simp add: D)
  next
    case dt: True
    show ?thesis
    proof (cases "re_class_name en")
      case None
      then show ?thesis using True dt S(1) by (simp add: D)
    next
      case (Some nm')
      obtain total strlen where pk: "or_packed_string_length (Some nm') = (total, strlen)" by (metis surj_pair)
      define n where "n = fst (or_packed_string_length (Some nm')) + key_size"
      define data where "data = or_pack_string [] (Some nm') @ key"
      have "length data \<le> n" using assms(3) by (simp add: data_def n_def length_or_pack_string)
      then obtain block where b: "packed_block en n data = Some block" "length block = n" "take (length data) block = data"
        using packed_block_ok [OF assms(1)] by blast
      have e: "repl_log_insert_td en inst_oid log_type rcvindex key key_size repl_info td =
          (if \<not> re_data_mem en then Some (ER_REPL_ERROR, set_rec (td_cur_repl_record td1) (r1\<lparr>rr_length := int n\<rparr>) td1)
           else Some (NO_ERROR, repl_log_insert_end en rcvindex (r1\<lparr>rr_length := int n, rr_repl_data := Some block\<rparr>) td1))"
        using True dt Some b(1) pk or_pack_string_with_length_eq [of "[]" "Some nm'"]
        by (simp add: repl_log_insert_td_def Let_def r g r1_def n_def data_def)
      have ok: "rr_ok (r1\<lparr>rr_length := int n, rr_repl_data := Some block\<rparr>)" using b(2) by (simp add: rr_ok_def)
      have "block = or_pack_string [] (Some nm') @ key @ drop (length data) block"
        using b(3) append_take_drop_id [of "length data" block] by (simp add: data_def)
      then have bl: "\<exists>rest. block = or_pack_string [] (Some nm') @ key @ rest \<and> length rest = key_size - length key"
        using b(2) by (intro exI [of _ "drop (length data) block"]) (simp add: data_def n_def length_or_pack_string)
      obtain r' where "recs (repl_log_insert_end en rcvindex (r1\<lparr>rr_length := int n, rr_repl_data := Some block\<rparr>) td1) = recs td @ [r']"
        "rr_repl_data r' = Some block" "rr_repl_type r' = log_type" "rr_rcvindex r' = repl_insert_rcvindex rcvindex repl_info"
        "rr_must_flush r' = LOG_REPL_COMMIT_NEED_FLUSH \<or> rr_must_flush r' = LOG_REPL_NEED_FLUSH"
        "rcvindex = RVREPL_INSERT \<and> \<not> LSA_ISNULL (td_repl_insert_lsa td) \<longrightarrow> rr_lsa r' = td_repl_insert_lsa td"
        using S(2) [OF ok] by (auto simp: r1_def t)
      with e S ok bl Some dt show ?thesis by (cases "re_data_mem en") fastforce+
    qed
  qed
qed

lemma find_rev_upt:
  "find P (rev [0..<n]) = Some i \<Longrightarrow> i < n \<and> P i \<and> (\<forall>j. i < j \<and> j < n \<longrightarrow> \<not> P j)"
  by (induction n) (auto split: if_splits simp: less_Suc_eq)

lemma set_rec_recs:
  assumes "td_repl_records td = Some rs" and "i < nat (td_cur_repl_record td)" and "td_cur_repl_record td \<le> int (length rs)"
  shows "recs (set_rec (int i) r td) = (recs td)[i := r]"
  using assms by (simp add: recs_def set_rec_def take_update_swap)

lemma array_ok_update:
  "array_ok td \<Longrightarrow> td_repl_records td = Some rs \<Longrightarrow> length rs' = length rs \<Longrightarrow> array_ok (td\<lparr>td_repl_records := Some rs'\<rparr>)"
  by (auto simp: array_ok_def)

lemma repl_add_update_lsa_ok:
  assumes "repl_td_inv td"
  shows "\<exists>td'. repl_add_update_lsa_td inst_oid td = Some (NO_ERROR, td') \<and> repl_td_inv td'"
proof (cases "td_suppress_replication td \<noteq> 0 \<or> td_cur_repl_record td \<le> 0")
  case True
  with assms show ?thesis by (auto simp: repl_add_update_lsa_td_def)
next
  case False
  then have a: "array_ok td" "td_num_repl_records td \<noteq> 0" using assms by (auto simp: repl_td_inv_def array_ok_def)
  then obtain rs where rs: "td_repl_records td = Some rs" "td_num_repl_records td = int (length rs)"
    "0 \<le> td_cur_repl_record td" "td_cur_repl_record td < int (length rs)" using array_ok_SomeD by blast
  define P where "P = (\<lambda>i. OID_EQ (rr_inst_oid (rs ! i)) inst_oid \<and> \<not> LSA_ISNULL (td_repl_update_lsa td) \<and> is_update (rs ! i))"
  show ?thesis
  proof (cases "find P (rev [0..<nat (td_cur_repl_record td)])")
    case None
    with False rs assms show ?thesis by (simp add: repl_add_update_lsa_td_def P_def)
  next
    case (Some i)
    define r where "r = (rs ! i)\<lparr>rr_lsa := td_repl_update_lsa td\<rparr>"
    define td' where "td' = (set_rec (int i) r td)\<lparr>td_repl_update_lsa := LSA_NULL, td_repl_insert_lsa := LSA_NULL\<rparr>"
    have i: "i < nat (td_cur_repl_record td)" using find_rev_upt [OF Some] by blast
    have rc: "recs td' = (recs td)[i := r]"
      using set_rec_recs [OF rs(1) i, of r] rs by (simp add: td'_def recs_def set_rec_def)
    have "recs td ! i = rs ! i" "i < length (recs td)" using i rs by (auto simp: recs_def)
    then have "rr_ok (rs ! i)" using assms unfolding repl_td_inv_def by (metis nth_mem)
    then have "rr_ok r" by (simp add: rr_ok_def r_def)
    then have "\<forall>x \<in> set (recs td'). rr_ok x"
      using assms rc set_update_subset_insert [of "recs td" i r] by (auto simp: repl_td_inv_def)
    moreover have "array_ok td'"
      by (rule array_okI [of _ "rs[i := r]"]) (use rs in \<open>simp_all add: td'_def set_rec_def\<close>)
    ultimately have "repl_td_inv td'" using assms by (simp add: repl_td_inv_def td'_def set_rec_def)
    moreover have "repl_add_update_lsa_td inst_oid td = Some (NO_ERROR, td')"
      using False rs Some by (simp add: repl_add_update_lsa_td_def P_def td'_def r_def)
    ultimately show ?thesis by blast
  qed
qed

lemma repl_start_flush_mark_inv: "repl_td_inv td \<Longrightarrow> repl_td_inv (repl_start_flush_mark td)"
  by (auto simp: repl_start_flush_mark_def repl_td_inv_def array_ok_def recs_def split: option.splits)

lemma repl_end_flush_mark_ok:
  assumes "repl_td_inv td" and "need_undo \<longrightarrow> td_fl_mark_repl_recidx td \<noteq> -1"
  shows "\<exists>td'. repl_end_flush_mark need_undo td = Some td' \<and> repl_td_inv td' \<and>
    recs td' = (if need_undo then take (nat (td_fl_mark_repl_recidx td)) (recs td) else recs td)"
proof (cases "need_undo \<and> td_fl_mark_repl_recidx td < td_cur_repl_record td")
  case False
  have "td_fl_mark_repl_recidx td \<le> td_cur_repl_record td" using assms(1) by (simp add: repl_td_inv_def)
  with False show ?thesis using assms(1)
    by (auto simp: repl_end_flush_mark_def Let_def repl_td_inv_def array_ok_def recs_def split: option.splits)
next
  case True
  let ?m = "nat (td_fl_mark_repl_recidx td)" and ?c = "nat (td_cur_repl_record td)"
  have m: "0 \<le> td_fl_mark_repl_recidx td" using True assms by (auto simp: repl_td_inv_def)
  then have "array_ok td" "td_num_repl_records td \<noteq> 0" using True assms by (auto simp: repl_td_inv_def array_ok_def)
  then obtain rs where rs: "td_repl_records td = Some rs" "td_num_repl_records td = int (length rs)"
    "0 \<le> td_cur_repl_record td" "td_cur_repl_record td < int (length rs)" using array_ok_SomeD by blast
  define rs' where "rs' = take ?m rs @ map (\<lambda>r. r\<lparr>rr_repl_data := None\<rparr>) (drop ?m (take ?c rs)) @ drop ?c rs"
  define td' where "td' = td\<lparr>td_repl_records := Some rs', td_cur_repl_record := td_fl_mark_repl_recidx td, td_fl_mark_repl_recidx := -1\<rparr>"
  have le: "?m \<le> ?c" "?c \<le> length rs" using rs True m by auto
  then have l: "length rs' = length rs" by (simp add: rs'_def)
  have rc: "recs td' = take ?m (recs td)" using rs(1) le by (simp add: recs_def td'_def rs'_def min_absorb1)
  have "array_ok td'" by (rule array_okI [of _ rs']) (use rs m True l in \<open>simp_all add: td'_def\<close>)
  moreover have "\<forall>x \<in> set (recs td'). rr_ok x" using rc assms(1) by (auto simp: repl_td_inv_def dest: in_set_takeD)
  ultimately have "repl_td_inv td'" using m by (simp add: repl_td_inv_def td'_def)
  moreover have "repl_end_flush_mark need_undo td = Some td'"
    using True rs m by (simp add: repl_end_flush_mark_def Let_def td'_def rs'_def)
  ultimately show ?thesis using rc True by simp
qed

lemma repl_end_flush_mark_unset:
  "repl_td_inv td \<Longrightarrow> td_fl_mark_repl_recidx td = -1 \<Longrightarrow> repl_end_flush_mark True td = None"
  by (auto simp: repl_td_inv_def array_ok_def repl_end_flush_mark_def Let_def split: option.split)

lemma repl_log_abort_after_lsa_ok:
  assumes "repl_td_inv td"
  shows "\<exists>td'. repl_log_abort_after_lsa start_lsa td = Some td' \<and> repl_td_inv td' \<and>
    recs td' = map (\<lambda>r. if start_lsa < rr_lsa r then r\<lparr>rr_must_flush := LOG_REPL_DONT_NEED_FLUSH\<rparr> else r) (recs td)"
proof (cases "nat (td_cur_repl_record td) = 0")
  case True
  with assms show ?thesis by (auto simp: repl_log_abort_after_lsa_def recs_def split: option.splits)
next
  case False
  then have "array_ok td" "td_num_repl_records td \<noteq> 0" using assms by (auto simp: repl_td_inv_def array_ok_def)
  then obtain rs where rs: "td_repl_records td = Some rs" "td_num_repl_records td = int (length rs)"
    "0 \<le> td_cur_repl_record td" "td_cur_repl_record td < int (length rs)" using array_ok_SomeD by blast
  define f where "f = (\<lambda>r :: log_repl_record. if start_lsa < rr_lsa r then r\<lparr>rr_must_flush := LOG_REPL_DONT_NEED_FLUSH\<rparr> else r)"
  define rs' where "rs' = map f (take (nat (td_cur_repl_record td)) rs) @ drop (nat (td_cur_repl_record td)) rs"
  define td' where "td' = td\<lparr>td_repl_records := Some rs'\<rparr>"
  have rc: "recs td' = map f (recs td)" using rs by (simp add: recs_def td'_def rs'_def)
  have "array_ok td'" by (rule array_okI [of _ rs']) (use rs in \<open>simp_all add: td'_def rs'_def\<close>)
  moreover have "\<forall>x \<in> set (recs td'). rr_ok x" using rc assms by (auto simp: repl_td_inv_def f_def rr_ok_def)
  ultimately have "repl_td_inv td'" using assms by (simp add: repl_td_inv_def td'_def)
  moreover have "repl_log_abort_after_lsa start_lsa td = Some td'"
    using False rs by (simp add: repl_log_abort_after_lsa_def Let_def td'_def rs'_def f_def LSA_GT_less)
  ultimately show ?thesis using rc by (auto simp: f_def)
qed

section \<open>The records of a transaction in the log\<close>

text \<open>Descriptors that differ in what appending changes: addresses, the index and the flush states.\<close>

lemma recs_td_appended [simp]: "recs (td_appended pos td) = recs td"
  by (simp add: recs_def td_appended_def split: option.split)

lemma get_rec_recs:
  assumes "array_ok td" and "0 \<le> i" and "i < td_cur_repl_record td"
  shows "get_rec i td = Some (recs td ! nat i)" and "nat i < length (recs td)"
  using assms by (auto simp: get_rec_def recs_def array_ok_def)

lemma length_recs: "array_ok td \<Longrightarrow> int (length (recs td)) = td_cur_repl_record td"
  by (auto simp: array_ok_def recs_def split: option.split)

lemma recs_append_idx [simp]: "recs (td\<lparr>td_append_repl_recidx := i\<rparr>) = recs td"
  by (simp add: recs_def split: option.split)

lemma length_wr_log_replication [simp]: "length (wr_log_replication lsa len rcvindex) = 16"
  by (simp add: wr_log_replication_def)

lemma repl_node_header: "length (pn_data_header (repl_node r)) = 16"
  by (simp add: repl_node_def)

lemma repl_node_request:
  "area_size_ok sz \<Longrightarrow> must_append c r \<Longrightarrow> request_ok sz (repl_node r)"
  by (auto simp: request_ok_def area_size_ok_def repl_node_header must_append_def repl_node_def empty_header_def)

text \<open>One round of the loop: the record at the index is appended or passed over.\<close>

lemma log_append_repl_step:
  assumes "area_size_ok sz" and "\<forall>w. fst (alloc w)" and "array_ok td" and "rec_ok sz (pi_prior_lsa pi)"
    and "i = td_append_repl_recidx td" and "0 \<le> i" and "i < td_cur_repl_record td"
  obtains td1 pi1 w1 and reqs :: "(log_prior_node \<times> log_tdes_repl) list"
  where "log_append_repl_loop sz alloc c td pi w = log_append_repl_loop sz alloc c td1 pi1 w1"
    "array_ok td1" "rec_ok sz (pi_prior_lsa pi1)" "td_append_repl_recidx td1 = i + 1" "td_cur_repl_record td1 = td_cur_repl_record td"
    "td_trid td1 = td_trid td" "drop (nat (i + 1)) (recs td1) = drop (nat (i + 1)) (recs td)" "reserve_all sz reqs pi = Some pi1"
    "map fst reqs = map repl_node (filter (must_append c) [recs td ! nat i])" "\<forall>(n, d) \<in> set reqs. td_trid d = td_trid td"
proof -
  define r where "r = recs td ! nat i"
  have g: "get_rec i td = Some r" using get_rec_recs [OF assms(3,6,7)] by (simp add: r_def)
  show thesis
  proof (cases "must_append c r")
    case False
    have "log_append_repl_loop sz alloc c td pi w = log_append_repl_loop sz alloc c (td\<lparr>td_append_repl_recidx := i + 1\<rparr>) pi w"
      using assms(5,7) False g by (subst log_append_repl_loop.simps) (simp add: Let_def)
    then show thesis
      by (rule that [of _ _ _ "[]"]) (use assms(3,4) False in \<open>simp_all add: array_ok_def r_def\<close>)
  next
    case True
    obtain w1 where w1: "alloc w = (True, w1)" using assms(2) by (metis prod.collapse)
    define e where "e = rec_end sz (length (pn_data_header (repl_node r))) (length (pn_udata (repl_node r)))
      (length (pn_rdata (repl_node r))) (pi_prior_lsa pi)"
    have hl: "length (pn_data_header (repl_node r)) < sz" using repl_node_request [OF assms(1) True] by (simp add: request_ok_def)
    from prior_next_record [OF assms(1,4) hl refl refl refl e_def refl, of td] obtain pi1 where
      p: "prior_lsa_next_record_internal sz (repl_node r) td pi = Some (lsa_of (pi_prior_lsa pi), td_appended (pi_prior_lsa pi) td, pi1)"
      "pi_prior_lsa pi1 = e" by auto
    define td1 where "td1 = (set_rec i (r\<lparr>rr_must_flush := LOG_REPL_DONT_NEED_FLUSH\<rparr>) (td_appended (pi_prior_lsa pi) td))
      \<lparr>td_append_repl_recidx := i + 1\<rparr>"
    have "log_append_repl_loop sz alloc c td pi w = log_append_repl_loop sz alloc c td1 pi1 w1"
      using assms(5,7) True g w1 p(1) by (subst log_append_repl_loop.simps) (simp add: Let_def td1_def)
    moreover have "array_ok td1" using assms(3) by (auto simp: td1_def array_ok_def set_rec_def td_appended_def)
    moreover have "drop (nat (i + 1)) (recs td1) = drop (nat (i + 1)) (recs td)"
      using assms(6) by (simp add: td1_def recs_def set_rec_def td_appended_def drop_take split: option.split)
    ultimately show thesis using p rec_end_ok [OF assms(1)] True
      by (intro that [of td1 pi1 w1 "[(repl_node r, td)]"]) (simp_all add: e_def td1_def set_rec_def td_appended_def r_def)
  qed
qed

text \<open>
  The loop appends the records from the index on that are to be flushed, in
  their order, each with the descriptor of the transaction.
\<close>

lemma log_append_repl_loop_ok:
  assumes "area_size_ok sz" and "\<forall>w. fst (alloc w)" and "array_ok td" and "rec_ok sz (pi_prior_lsa pi)" and "0 \<le> td_append_repl_recidx td"
  shows "\<exists>td' pi' w'. \<exists>reqs :: (log_prior_node \<times> log_tdes_repl) list. log_append_repl_loop sz alloc c td pi w = Some (td', pi', w') \<and> array_ok td' \<and>
    reserve_all sz reqs pi = Some pi' \<and> rec_ok sz (pi_prior_lsa pi') \<and>
    map fst reqs = map repl_node (filter (must_append c) (drop (nat (td_append_repl_recidx td)) (recs td))) \<and>
    (\<forall>(n, d) \<in> set reqs. td_trid d = td_trid td) \<and> td_trid td' = td_trid td"
  using assms(3-5)
proof (induction "nat (td_cur_repl_record td - td_append_repl_recidx td)" arbitrary: td pi w rule: less_induct)
  case less
  define i where "i = td_append_repl_recidx td"
  show ?case
  proof (cases "i < td_cur_repl_record td")
    case False
    then have "drop (nat i) (recs td) = []" using length_recs [OF less.prems(1)] less.prems(3) by (simp add: i_def)
    with False less.prems(1,2) show ?thesis
      by (subst log_append_repl_loop.simps) (auto simp: i_def intro!: exI [of _ "[]"])
  next
    case True
    have i: "0 \<le> i" using less.prems(3) by (simp add: i_def)
    from log_append_repl_step [OF assms(1,2) less.prems(1,2) i_def i True, where c = c and w = w]
    obtain td1 pi1 w1 and reqs1 :: "(log_prior_node \<times> log_tdes_repl) list" where
      1: "log_append_repl_loop sz alloc c td pi w = log_append_repl_loop sz alloc c td1 pi1 w1"
      "array_ok td1" "rec_ok sz (pi_prior_lsa pi1)" "td_append_repl_recidx td1 = i + 1" "td_cur_repl_record td1 = td_cur_repl_record td"
      "td_trid td1 = td_trid td" "drop (nat (i + 1)) (recs td1) = drop (nat (i + 1)) (recs td)" "reserve_all sz reqs1 pi = Some pi1"
      "map fst reqs1 = map repl_node (filter (must_append c) [recs td ! nat i])" "\<forall>(n, d) \<in> set reqs1. td_trid d = td_trid td" .
    have "nat i < length (recs td)" using get_rec_recs(2) [OF less.prems(1) i True] .
    then have d: "drop (nat i) (recs td) = [recs td ! nat i] @ drop (nat (i + 1)) (recs td)"
      using i Cons_nth_drop_Suc [of "nat i" "recs td"] by (simp add: nat_add_distrib)
    have lt: "nat (td_cur_repl_record td1 - td_append_repl_recidx td1) < nat (td_cur_repl_record td - td_append_repl_recidx td)"
      using True 1(4,5) by (simp add: i_def)
    obtain td' pi' w' and reqs :: "(log_prior_node \<times> log_tdes_repl) list" where
      2: "log_append_repl_loop sz alloc c td1 pi1 w1 = Some (td', pi', w')" "array_ok td'" "reserve_all sz reqs pi1 = Some pi'"
      "rec_ok sz (pi_prior_lsa pi')" "map fst reqs = map repl_node (filter (must_append c) (drop (nat (i + 1)) (recs td)))"
      "\<forall>(n, d) \<in> set reqs. td_trid d = td_trid td" "td_trid td' = td_trid td"
      using less.hyps [OF lt 1(2,3), of w1] 1 i by auto
    have "map fst (reqs1 @ reqs) = map repl_node (filter (must_append c) (drop (nat i) (recs td)))"
      unfolding d filter_append map_append 1(9) 2(5) ..
    then show ?thesis using 1 2 reserve_all_append [of sz reqs1 reqs pi]
      by (intro exI [of _ td'] exI [of _ pi'] exI [of _ w'] exI [of _ "reqs1 @ reqs"]) (auto simp: i_def)
  qed
qed

lemma log_append_repl_info_ok:
  fixes td :: log_tdes_repl
  assumes "area_size_ok sz" and "\<forall>w. fst (alloc w)" and "repl_td_inv td" and "rec_ok sz (pi_prior_lsa pi)"
  shows "\<exists>td' pi' w'. \<exists>reqs :: (log_prior_node \<times> log_tdes_repl) list.
    log_append_repl_info_and_unlock_log sz alloc td pi w = Some (td', pi', w') \<and> reserve_all sz reqs pi = Some pi' \<and>
    map fst reqs = map repl_node (filter (must_append True) (recs td)) @
      [\<lparr>pn_log_header = empty_header LOG_UNLOCK_COMMIT, pn_start_lsa = LSA_NULL, pn_data_header = [], pn_udata = [], pn_rdata = []\<rparr>] \<and>
    (\<forall>(n, d) \<in> set reqs. td_trid d = td_trid td)"
proof -
  define un :: log_prior_node where
    "un = \<lparr>pn_log_header = empty_header LOG_UNLOCK_COMMIT, pn_start_lsa = LSA_NULL, pn_data_header = [], pn_udata = [], pn_rdata = []\<rparr>"
  define td0 where "td0 = td\<lparr>td_append_repl_recidx := 0\<rparr>"
  have a0: "array_ok td0" using assms(3) by (simp add: repl_td_inv_def array_ok_def td0_def)
  have i0: "0 \<le> td_append_repl_recidx td0" by (simp add: td0_def)
  from log_append_repl_loop_ok [OF assms(1,2) a0 assms(4) i0, where c = True and w = w]
  obtain td1 pi1 w1 and reqs :: "(log_prior_node \<times> log_tdes_repl) list" where
    1: "log_append_repl_loop sz alloc True td0 pi w = Some (td1, pi1, w1)" "reserve_all sz reqs pi = Some pi1"
    "rec_ok sz (pi_prior_lsa pi1)" "map fst reqs = map repl_node (filter (must_append True) (recs td))"
    "\<forall>(n, d) \<in> set reqs. td_trid d = td_trid td" "td_trid td1 = td_trid td"
    by (auto simp: td0_def)
  obtain w2 where w2: "alloc w1 = (True, w2)" using assms(2) by (metis prod.collapse)
  have hl: "length (pn_data_header un) < sz" using assms(1) by (simp add: un_def area_size_ok_def)
  obtain pi2 where p: "prior_lsa_next_record_internal sz un td1 pi1 = Some (lsa_of (pi_prior_lsa pi1), td_appended (pi_prior_lsa pi1) td1, pi2)"
    using prior_next_record [OF assms(1) 1(3) hl refl refl refl refl refl, of td1] by blast
  have "log_append_repl_info_and_unlock_log sz alloc td pi w = Some (td_appended (pi_prior_lsa pi1) td1, pi2, w2)"
    using 1(1) w2 p by (simp add: log_append_repl_info_and_unlock_log_def log_append_repl_info_internal_def
        log_append_unlock_log_internal_def td0_def un_def)
  then show ?thesis using 1 p unfolding un_def [symmetric]
    by (intro exI [of _ "td_appended (pi_prior_lsa pi1) td1"] exI [of _ pi2] exI [of _ w2] exI [of _ "reqs @ [(un, td1)]"])
      (auto simp: reserve_all_append)
qed

lemma logtb_clear_tdes_repl_ok:
  assumes "repl_td_inv td"
  shows "\<exists>td'. logtb_clear_tdes_repl td = Some td' \<and> repl_td_inv td' \<and> recs td' = []"
proof (cases "nat (td_cur_repl_record td) = 0")
  case True
  with assms show ?thesis
    by (auto simp: logtb_clear_tdes_repl_def Let_def repl_td_inv_def array_ok_def recs_def split: option.split)
next
  case False
  then have "array_ok td" "td_num_repl_records td \<noteq> 0" using assms by (auto simp: repl_td_inv_def array_ok_def)
  then obtain rs where rs: "td_repl_records td = Some rs" "td_num_repl_records td = int (length rs)"
    "0 \<le> td_cur_repl_record td" "td_cur_repl_record td < int (length rs)" using array_ok_SomeD by blast
  then show ?thesis using False by (simp add: logtb_clear_tdes_repl_def Let_def repl_td_inv_def array_ok_def recs_def)
qed

section \<open>Descriptors of running transactions\<close>

text \<open>
  The descriptors that the operations reach while array memory is to be had.
  Other records of the transaction change the addresses in the descriptor.
\<close>

inductive repl_reach :: "log_tdes_repl \<Rightarrow> bool" where
  reach_new: "td_num_repl_records td = 0 \<Longrightarrow> td_cur_repl_record td = 0 \<Longrightarrow> td_fl_mark_repl_recidx td = -1 \<Longrightarrow> repl_reach td"
| reach_insert: "repl_reach td \<Longrightarrow> env_ok en \<Longrightarrow> length key \<le> key_size \<Longrightarrow>
    repl_log_insert_td en inst_oid log_type rcvindex key key_size repl_info td = Some (err, td') \<Longrightarrow> repl_reach td'"
| reach_schema: "repl_reach td \<Longrightarrow> env_ok en \<Longrightarrow> repl_log_insert_schema_td en sch td = Some (err, td') \<Longrightarrow> repl_reach td'"
| reach_update_lsa: "repl_reach td \<Longrightarrow> repl_add_update_lsa_td inst_oid td = Some (err, td') \<Longrightarrow> repl_reach td'"
| reach_start: "repl_reach td \<Longrightarrow> repl_reach (repl_start_flush_mark td)"
| reach_end: "repl_reach td \<Longrightarrow> need_undo \<longrightarrow> td_fl_mark_repl_recidx td \<noteq> -1 \<Longrightarrow> repl_end_flush_mark need_undo td = Some td' \<Longrightarrow> repl_reach td'"
| reach_abort_after: "repl_reach td \<Longrightarrow> repl_log_abort_after_lsa start_lsa td = Some td' \<Longrightarrow> repl_reach td'"
| reach_clear: "repl_reach td \<Longrightarrow> logtb_clear_tdes_repl td = Some td' \<Longrightarrow> repl_reach td'"
| reach_log: "repl_reach td \<Longrightarrow> repl_reach (td\<lparr>td_head_lsa := l4, td_tail_lsa := l1, td_undo_nxlsa := l5, td_repl_insert_lsa := l2,
    td_repl_update_lsa := l3\<rparr>)"

inductive_cases repl_reachE: "repl_reach td"

lemma repl_reach_inv: "repl_reach td \<Longrightarrow> repl_td_inv td"
proof (induction rule: repl_reach.induct)
  case (reach_new td)
  then show ?case by (simp add: repl_td_inv_def array_ok_def recs_def split: option.split)
next
  case (reach_insert td en key key_size inst_oid log_type rcvindex repl_info err td')
  then show ?case
    using repl_log_insert_ok [OF reach_insert.hyps(2) reach_insert.IH reach_insert.hyps(3), where nm = "[]" and inst_oid = inst_oid
        and log_type = log_type and rcvindex = rcvindex and repl_info = repl_info] by auto
next
  case (reach_schema td en sch err td')
  then show ?case using repl_log_insert_schema_ok [OF reach_schema.hyps(2) reach_schema.IH, of sch] by auto
next
  case (reach_update_lsa td inst_oid err td')
  then show ?case using repl_add_update_lsa_ok [OF reach_update_lsa.IH, of inst_oid] by auto
next
  case (reach_start td)
  then show ?case using repl_start_flush_mark_inv by blast
next
  case (reach_end td need_undo td')
  then show ?case using repl_end_flush_mark_ok [OF reach_end.IH, of need_undo] by auto
next
  case (reach_abort_after td start_lsa td')
  then show ?case using repl_log_abort_after_lsa_ok [OF reach_abort_after.IH, of start_lsa] by auto
next
  case (reach_clear td td')
  then show ?case using logtb_clear_tdes_repl_ok [OF reach_clear.IH] by auto
next
  case (reach_log td l1 l2 l3)
  then show ?case by (simp add: repl_td_inv_def array_ok_def recs_def split: option.splits)
qed

section \<open>Properties\<close>

text \<open>
  C16. Collecting replication records is memory safe as long as the array of
  records can be allocated and extended. In every descriptor the operations
  reach under that condition, each of them is defined, that is, none reads or
  writes outside the array or packs more into a record than was allocated for
  it: recording a row and a schema change, noting the address of an update,
  the rollback to an address, the end of the transaction and the loop of the
  commit that appends the records (with memory for its nodes). Ending a flush
  is undefined exactly when records have to be undone and no mark was set;
  otherwise it leaves the records up to the mark. Every record collected has
  data of the length it states.
\<close>

theorem replication_records_safe:
  assumes "repl_reach td"
  shows "(\<forall>en oid ty rcv key n info. env_ok en \<and> length key \<le> n \<longrightarrow> repl_log_insert_td en oid ty rcv key n info td \<noteq> None) \<and>
    (\<forall>en sch. env_ok en \<longrightarrow> repl_log_insert_schema_td en sch td \<noteq> None) \<and>
    (\<forall>oid. repl_add_update_lsa_td oid td \<noteq> None) \<and> (\<forall>lsa. repl_log_abort_after_lsa lsa td \<noteq> None) \<and>
    (\<forall>need_undo. repl_end_flush_mark need_undo td = None \<longleftrightarrow> need_undo \<and> td_fl_mark_repl_recidx td = -1) \<and>
    (\<forall>need_undo td'. repl_end_flush_mark need_undo td = Some td' \<longrightarrow>
      recs td' = (if need_undo then take (nat (td_fl_mark_repl_recidx td)) (recs td) else recs td)) \<and>
    (\<forall>sz alloc pi (w :: 'm). area_size_ok sz \<and> (\<forall>w. fst (alloc w)) \<and> rec_ok sz (pi_prior_lsa pi) \<longrightarrow>
      log_append_repl_info_and_unlock_log sz alloc td pi w \<noteq> None) \<and>
    logtb_clear_tdes_repl td \<noteq> None \<and>
    (\<forall>r \<in> set (recs td). rr_length r = int (length (case rr_repl_data r of None \<Rightarrow> [] | Some data \<Rightarrow> data)))"
proof -
  note inv = repl_reach_inv [OF assms]
  have "repl_log_insert_td en oid ty rcv key n info td \<noteq> None" if "env_ok en \<and> length key \<le> n" for en oid ty rcv key n info
    using repl_log_insert_ok [OF _ inv, of en key n oid ty rcv info "[]"] that by auto
  moreover have "repl_log_insert_schema_td en sch td \<noteq> None" if "env_ok en" for en sch
    using repl_log_insert_schema_ok [OF that inv, of sch] by auto
  moreover have "repl_add_update_lsa_td oid td \<noteq> None" for oid using repl_add_update_lsa_ok [OF inv, of oid] by auto
  moreover have "repl_log_abort_after_lsa lsa td \<noteq> None" for lsa using repl_log_abort_after_lsa_ok [OF inv, of lsa] by auto
  moreover have "repl_end_flush_mark need_undo td = None \<longleftrightarrow> need_undo \<and> td_fl_mark_repl_recidx td = -1" for need_undo
    using repl_end_flush_mark_ok [OF inv, of need_undo] repl_end_flush_mark_unset [OF inv] by fastforce
  moreover have "recs td' = (if need_undo then take (nat (td_fl_mark_repl_recidx td)) (recs td) else recs td)"
    if "repl_end_flush_mark need_undo td = Some td'" for need_undo td'
    using repl_end_flush_mark_ok [OF inv, of need_undo] repl_end_flush_mark_unset [OF inv] that by fastforce
  moreover have "log_append_repl_info_and_unlock_log sz alloc td pi w \<noteq> None"
    if "area_size_ok sz \<and> (\<forall>w. fst (alloc w)) \<and> rec_ok sz (pi_prior_lsa pi)" for sz alloc pi and w :: 'm
    using log_append_repl_info_ok [OF _ _ inv, of sz alloc pi w] that by auto
  moreover have "logtb_clear_tdes_repl td \<noteq> None" using logtb_clear_tdes_repl_ok [OF inv] by auto
  moreover have "\<forall>r \<in> set (recs td). rr_ok r" using inv by (simp add: repl_td_inv_def)
  ultimately show ?thesis unfolding rr_ok_def by blast
qed

definition ex_repl_td :: log_tdes_repl where
  "ex_repl_td = \<lparr>td_trid = 4, td_head_lsa = LSA_NULL, td_tail_lsa = LSA_NULL, td_undo_nxlsa = LSA_NULL, td_num_repl_records = 0,
     td_cur_repl_record = 0, td_append_repl_recidx = -1, td_repl_records = None, td_fl_mark_repl_recidx = -1,
     td_repl_insert_lsa = LSA_NULL, td_repl_update_lsa = LSA_NULL, td_suppress_replication = 0\<rparr>"

lemma ex_repl_td_reach: "repl_reach ex_repl_td"
  by (rule reach_new) (simp_all add: ex_repl_td_def)

text \<open>
  C17. A commit appends to the log, in the order they were collected, exactly
  the replication records of the transaction that were not rolled back, each
  with its data, and then the record that the locks are released; all with the
  identifier of the transaction.
\<close>

theorem commit_appends_replication_records:
  assumes "area_size_ok sz" and "\<forall>w. fst (alloc w)" and "repl_reach td" and "rec_ok sz (pi_prior_lsa pi)"
  shows "\<exists>td' pi' w' ns. log_append_repl_info_and_unlock_log sz alloc td pi w = Some (td', pi', w') \<and> pi_list pi' = pi_list pi @ ns \<and>
    map node_payload ns = map (\<lambda>r. node_payload (repl_node r)) (filter (must_append True) (recs td)) @ [(LOG_UNLOCK_COMMIT, [], [], [])] \<and>
    (\<forall>n \<in> set ns. lr_trid (pn_log_header n) = td_trid td)"
proof -
  obtain td' pi' w' and reqs :: "(log_prior_node \<times> log_tdes_repl) list" where
    1: "log_append_repl_info_and_unlock_log sz alloc td pi w = Some (td', pi', w')" "reserve_all sz reqs pi = Some pi'"
    "map fst reqs = map repl_node (filter (must_append True) (recs td)) @
      [\<lparr>pn_log_header = empty_header LOG_UNLOCK_COMMIT, pn_start_lsa = LSA_NULL, pn_data_header = [], pn_udata = [], pn_rdata = []\<rparr>]"
    "\<forall>(n, d) \<in> set reqs. td_trid d = td_trid td"
    using log_append_repl_info_ok [OF assms(1,2) repl_reach_inv [OF assms(3)] assms(4), of w] by blast
  obtain ns where ns: "pi_list pi' = pi_list pi @ ns" "map node_payload ns = map (\<lambda>(node, td). node_payload node) reqs"
    "map (\<lambda>n. lr_trid (pn_log_header n)) ns = map (\<lambda>(node, td). td_trid td) reqs"
    using reserve_all_nodes [OF 1(2)] by blast
  have "map node_payload ns = map node_payload (map fst reqs)" using ns(2) by (simp add: comp_def case_prod_unfold)
  then have "map node_payload ns = map (\<lambda>r. node_payload (repl_node r)) (filter (must_append True) (recs td)) @ [(LOG_UNLOCK_COMMIT, [], [], [])]"
    unfolding 1(3) by (simp add: empty_header_def)
  moreover have "set (map (\<lambda>n. lr_trid (pn_log_header n)) ns) \<subseteq> {td_trid td}" unfolding ns(3) using 1(4) by auto
  ultimately show ?thesis using 1(1) ns(1) by auto
qed

definition ex_mem :: repl_env where
  "ex_mem = \<lparr>re_array_mem = True, re_data_mem = True, re_junk = \<lambda>_. \<lparr>rr_repl_type = 0, rr_rcvindex = 0, rr_inst_oid = OID_NULL,
       rr_lsa = LSA_NULL, rr_repl_data = None, rr_length = 0, rr_must_flush = 0\<rparr>, re_block = \<lambda>n. replicate n 0,
     re_class_name = Some [116], re_errid = NO_ERROR, re_prior_lsa = LSA 9 0\<rparr>"

definition ex_schema :: repl_info_schema where
  "ex_schema = \<lparr>rs_statement_type = 3, rs_name = Some [116], rs_ddl = Some [97, 98], rs_db_user = Some [117], rs_sys_prm_context = None\<rparr>"

text \<open>A descriptor with the record of one schema change.\<close>

lemma ex_schema_td:
  "\<exists>td r. repl_reach td \<and> recs td = [r] \<and> must_append True r \<and> rr_repl_type r = LOG_REPLICATION_SCHEMA \<and>
     rr_rcvindex r = RVREPL_SCHEMA \<and> rr_repl_data r = Some (pack_schema ex_schema) \<and> rr_length r = int (length (pack_schema ex_schema))"
proof -
  have e: "env_ok ex_mem" by (simp add: env_ok_def ex_mem_def)
  have "recs ex_repl_td = []" "td_suppress_replication ex_repl_td = 0" "re_data_mem ex_mem"
    by (simp_all add: ex_repl_td_def recs_def ex_mem_def)
  with repl_log_insert_schema_ok [OF e repl_reach_inv [OF ex_repl_td_reach], of ex_schema] obtain td r where
    "repl_log_insert_schema_td ex_mem ex_schema ex_repl_td = Some (NO_ERROR, td)" "recs td = [r]"
    "rr_repl_type r = LOG_REPLICATION_SCHEMA" "rr_rcvindex r = RVREPL_SCHEMA" "rr_repl_data r = Some (pack_schema ex_schema)"
    "rr_length r = int (length (pack_schema ex_schema))" "rr_must_flush r = LOG_REPL_COMMIT_NEED_FLUSH"
    by auto
  moreover from this(1) have "repl_reach td" using reach_schema [OF ex_repl_td_reach e] by blast
  ultimately show ?thesis by (auto simp: must_append_def)
qed

lemma replication_records_safe_witness:
  "\<exists>td r. recs td = [r] \<and> rr_length r = int (length (pack_schema ex_schema)) \<and> repl_log_insert_schema_td ex_mem ex_schema td \<noteq> None \<and>
     repl_log_abort_after_lsa (LSA 1 0) td \<noteq> None \<and> repl_end_flush_mark False td \<noteq> None \<and> logtb_clear_tdes_repl td \<noteq> None \<and>
     log_append_repl_info_and_unlock_log 80 (\<lambda>w :: unit. (True, w)) td ex_prior () \<noteq> None"
proof -
  have p: "rec_ok 80 (pi_prior_lsa ex_prior)" by (simp add: ex_prior_def rec_ok_def pos_ok_def)
  have e: "env_ok ex_mem" by (simp add: env_ok_def ex_mem_def)
  obtain td r where td: "repl_reach td" "recs td = [r]" "rr_length r = int (length (pack_schema ex_schema))" using ex_schema_td by blast
  from replication_records_safe [OF td(1), where 'm = unit] have
    s: "\<forall>en sch. env_ok en \<longrightarrow> repl_log_insert_schema_td en sch td \<noteq> None" "\<forall>lsa. repl_log_abort_after_lsa lsa td \<noteq> None"
      "\<forall>need_undo. repl_end_flush_mark need_undo td = None \<longleftrightarrow> need_undo \<and> td_fl_mark_repl_recidx td = -1" "logtb_clear_tdes_repl td \<noteq> None"
    and a: "\<forall>sz alloc pi (w :: unit). area_size_ok sz \<and> (\<forall>w. fst (alloc w)) \<and> rec_ok sz (pi_prior_lsa pi) \<longrightarrow>
      log_append_repl_info_and_unlock_log sz alloc td pi w \<noteq> None" by - (elim conjE, assumption)+
  have "log_append_repl_info_and_unlock_log 80 (\<lambda>w :: unit. (True, w)) td ex_prior () \<noteq> None"
    by (rule a [rule_format]) (use ex_append_ok(1) p in simp)
  moreover have "repl_log_insert_schema_td ex_mem ex_schema td \<noteq> None" by (rule s(1) [rule_format, OF e])
  moreover have "repl_end_flush_mark False td \<noteq> None" using s(3) [rule_format, of False] by simp
  ultimately show ?thesis using s(2,4) td(2,3) by (intro exI [of _ td] exI [of _ r] conjI) simp_all
qed

lemma commit_appends_replication_records_witness:
  "\<exists>td r td' pi' w' ns. recs td = [r] \<and>
     log_append_repl_info_and_unlock_log 80 (\<lambda>w :: unit. (True, w)) td ex_prior () = Some (td', pi', w') \<and>
     map node_payload ns = [node_payload (repl_node r), (LOG_UNLOCK_COMMIT, [], [], [])] \<and> pi_list pi' = pi_list ex_prior @ ns"
proof -
  have p: "rec_ok 80 (pi_prior_lsa ex_prior)" by (simp add: ex_prior_def rec_ok_def pos_ok_def)
  obtain td r where td: "repl_reach td" "recs td = [r]" "must_append True r" using ex_schema_td by blast
  from commit_appends_replication_records [OF ex_append_ok(1) _ td(1) p, of "\<lambda>w :: unit. (True, w)" "()"]
  obtain td' pi' w' ns where "log_append_repl_info_and_unlock_log 80 (\<lambda>w :: unit. (True, w)) td ex_prior () = Some (td', pi', w')"
    "pi_list pi' = pi_list ex_prior @ ns" "map node_payload ns = [node_payload (repl_node r), (LOG_UNLOCK_COMMIT, [], [], [])]"
    using td(2,3) by auto
  with td(2) show ?thesis
    by (intro exI [of _ td] exI [of _ r] exI [of _ td'] exI [of _ pi'] exI [of _ w'] exI [of _ ns] conjI)
qed

text \<open>
  C37. A failed extension of the array loses the records collected so far: the
  pointer to the array is overwritten with the null pointer \<^verbatim>\<open>realloc\<close>
  returned, the counts stay, and the commit or the rollback of the transaction
  that follows the reported error reads through it.
\<close>

theorem failed_extension_loses_records:
  assumes "array_ok td" and "td_num_repl_records td \<noteq> 0" and "REPL_LOG_IS_FULL td" and "0 < td_cur_repl_record td"
    and "td_suppress_replication td = 0" and "\<not> re_array_mem en"
  shows "\<exists>td'. repl_log_insert_td en inst_oid log_type rcvindex key key_size repl_info td = Some (ER_REPL_ERROR, td') \<and>
    td_cur_repl_record td' = td_cur_repl_record td \<and>
    log_append_repl_info_internal sz alloc True td' pi w = None \<and> logtb_clear_tdes_repl td' = None"
proof -
  define td' where "td' = td\<lparr>td_repl_records := None\<rparr>"
  have "repl_log_insert_td en inst_oid log_type rcvindex key key_size repl_info td = Some (ER_REPL_ERROR, td')"
    using assms by (simp add: repl_log_insert_td_def repl_log_room_def REPL_LOG_IS_NOT_EXISTS_def repl_log_info_alloc_def td'_def)
  moreover have "log_append_repl_info_internal sz alloc True td' pi w = None"
    using assms(4) unfolding log_append_repl_info_internal_def
    by (subst log_append_repl_loop.simps) (simp add: get_rec_def td'_def)
  moreover have "logtb_clear_tdes_repl td' = None" using assms(4) by (simp add: logtb_clear_tdes_repl_def Let_def td'_def)
  ultimately show ?thesis by (auto simp: td'_def)
qed

definition ex_rr :: log_repl_record where
  "ex_rr = \<lparr>rr_repl_type = LOG_REPLICATION_DATA, rr_rcvindex = RVREPL_INSERT, rr_inst_oid = OID_NULL, rr_lsa = LSA_NULL,
     rr_repl_data = None, rr_length = 0, rr_must_flush = 0\<rparr>"

definition ex_full_td :: log_tdes_repl where
  "ex_full_td = ex_repl_td\<lparr>td_repl_records := Some (replicate 100 ex_rr), td_num_repl_records := 100, td_cur_repl_record := 99\<rparr>"

definition ex_no_mem :: repl_env where
  "ex_no_mem = \<lparr>re_array_mem = False, re_data_mem = True, re_junk = \<lambda>_. ex_rr, re_block = \<lambda>n. replicate n 0,
     re_class_name = Some [116], re_errid = NO_ERROR, re_prior_lsa = LSA 9 0\<rparr>"

lemma failed_extension_loses_records_witness:
  "\<exists>td'. repl_log_insert_td ex_no_mem OID_NULL LOG_REPLICATION_DATA RVREPL_INSERT [] 0 REPL_INFO_TYPE_STMT_NORMAL ex_full_td
     = Some (ER_REPL_ERROR, td') \<and> logtb_clear_tdes_repl td' = None"
proof -
  have "array_ok ex_full_td" by (rule array_okI [of _ "replicate 100 ex_rr"]) (simp_all add: ex_full_td_def)
  moreover have "REPL_LOG_IS_FULL ex_full_td" "td_num_repl_records ex_full_td \<noteq> 0" "0 < td_cur_repl_record ex_full_td"
    "td_suppress_replication ex_full_td = 0" by (simp_all add: REPL_LOG_IS_FULL_def ex_full_td_def ex_repl_td_def)
  moreover have "\<not> re_array_mem ex_no_mem" by (simp add: ex_no_mem_def)
  ultimately show ?thesis
    using failed_extension_loses_records [where td = ex_full_td and en = ex_no_mem and alloc = "\<lambda>w :: unit. (True, w)"] by blast
qed

end
