(* ===== verification/La_Control.thy ===== *)
theory La_Control
  imports La_Repl
begin

text \<open>
  The global state of the log applier and the operations that control it
  (\<^verbatim>\<open>transaction/log_applier.c\<close>): which errors are retried, the
  replication filter, committing what was applied, the periodic commit and its
  interval, the state notified to the slave server, and the removal of archives.

  What the applier asks of the slave database, of the operating system and of
  the clock is a record of functions on a world of arbitrary type.
\<close>

section \<open>State\<close>

record ('v, 'w) la_info =
  li_repl :: "'v la_repl"
  li_pb :: la_cache_pb
  li_vols :: la_vols
  li_w :: 'w
  li_final_lsa :: log_lsa
  li_committed_lsa :: log_lsa
  li_committed_rep_lsa :: log_lsa
  li_last_committed_lsa :: log_lsa
  li_last_committed_rep_lsa :: log_lsa
  li_append_lsa :: log_lsa
  li_eof_lsa :: log_lsa
  li_required_lsa :: log_lsa
  li_total_rows :: int
  li_prev_total_rows :: int
  li_log_record_time :: int
  li_log_commit_time :: int
  li_commit_counter :: nat
  li_fail_counter :: nat
  li_busy :: bool
  li_is_end_of_record :: bool
  li_last_is_end_of_record :: bool
  li_is_role_changed :: bool
  li_is_apply_info_updated :: bool
  li_last_server_state :: int
  li_last_file_state :: int
  li_apply_state :: int
  li_db_lockf_vdes :: int
  li_total_repl_items :: "32 word"

text \<open>What one update of \<^verbatim>\<open>db_ha_apply_info\<close> records.\<close>

record la_applied =
  ai_committed_lsa :: log_lsa
  ai_committed_rep_lsa :: log_lsa
  ai_append_lsa :: log_lsa
  ai_eof_lsa :: log_lsa
  ai_final_lsa :: log_lsa
  ai_required_lsa :: log_lsa
  ai_log_record_time :: int
  ai_log_commit_time :: int

text \<open>
  The environment. \<open>en_flush\<close> is \<^verbatim>\<open>la_flush_unflushed_insert\<close>: its
  error, whether it demands a shutdown, and how many failures it counted;
  \<open>en_time\<close> and \<open>en_msec\<close> read the clock in seconds and milliseconds,
  \<open>en_errid\<close> is \<^verbatim>\<open>er_errid\<close>; applying an item reads the log through the
  page buffers, so it works on them as well; \<open>en_list_mem\<close> answers the
  allocations of \<^verbatim>\<open>la_init_repl_lists\<close>, \<open>en_garbage\<close> is what fresh memory
  holds; the \<open>en_plugin\<close> functions are what the
  apply plug-in does at their places.
\<close>

record ('v, 'w) la_env =
  en_time :: "'w \<Rightarrow> int \<times> 'w"
  en_msec :: "'w \<Rightarrow> int \<times> 'w"
  en_flush :: "'w \<Rightarrow> (errcode \<times> bool \<times> nat) \<times> 'w"
  en_update_applied :: "la_applied \<Rightarrow> 'w \<Rightarrow> errcode \<times> 'w"
  en_update_record_time :: "int \<Rightarrow> 'w \<Rightarrow> 'w"
  en_commit_transaction :: "'w \<Rightarrow> errcode \<times> 'w"
  en_ping_server :: "'w \<Rightarrow> errcode \<times> 'w"
  en_notify_state :: "int \<Rightarrow> 'w \<Rightarrow> errcode \<times> 'w"
  en_mem_size :: "'w \<Rightarrow> errcode \<times> 'w"
  en_lock_dbname :: "'w \<Rightarrow> int \<times> 'w"
  en_errid :: "'w \<Rightarrow> errcode"
  en_list_mem :: "'w \<Rightarrow> nat \<Rightarrow> bool"
  en_garbage :: "'w \<Rightarrow> int"
  en_apply_update :: "'v la_item \<Rightarrow> 'w la_src \<Rightarrow> errcode \<times> 'w la_src"
  en_apply_update_server_side :: "'v la_item \<Rightarrow> 'w la_src \<Rightarrow> errcode \<times> 'w la_src"
  en_apply_insert :: "'v la_item \<Rightarrow> 'w la_src \<Rightarrow> errcode \<times> 'w la_src"
  en_apply_delete :: "'v la_item \<Rightarrow> 'w la_src \<Rightarrow> errcode \<times> 'w la_src"
  en_apply_schema :: "'v la_item \<Rightarrow> 'w la_src \<Rightarrow> errcode \<times> 'w la_src"
  en_delay_replica :: "int \<Rightarrow> 'w \<Rightarrow> 'w"
  en_plugin_commit :: "log_lsa \<Rightarrow> 'w \<Rightarrow> 'w"
  en_plugin_item :: "'w \<Rightarrow> 'w"
  en_plugin_time :: "int \<Rightarrow> 'w \<Rightarrow> 'w"

datatype repl_filter_type = REPL_FILTER_NONE | REPL_FILTER_INCLUDE_TBL | REPL_FILTER_EXCLUDE_TBL

record la_repl_filter =
  rf_type :: repl_filter_type
  rf_list :: "byte list list"
  rf_list_size :: nat

record la_config =
  cf_cache :: la_cache_cfg
  cf_enable_plugin :: bool
  cf_server_side_update :: bool
  cf_ignore_error_list :: "int list"
  cf_retry_error_list :: "int list"
  cf_filter :: la_repl_filter

section \<open>Errors to ignore and to retry\<close>

definition sysprm_find_err_in_integer_list :: "int list \<Rightarrow> int \<Rightarrow> bool" where
  "sysprm_find_err_in_integer_list integer_list error_code \<longleftrightarrow>
     (\<exists>e \<in> set integer_list. e = error_code \<or> e = - error_code)"

definition LA_RETRY_ON_ERROR :: "errcode \<Rightarrow> bool" where
  "LA_RETRY_ON_ERROR e \<longleftrightarrow> e \<in> {-72, -73, -74, -75, -76, -836, -859, -966, -967, -968, -1021}"

definition la_ignore_on_error :: "la_config \<Rightarrow> errcode \<Rightarrow> bool" where
  "la_ignore_on_error cf errid = sysprm_find_err_in_integer_list (cf_ignore_error_list cf) \<bar>errid\<bar>"

definition la_retry_on_error :: "la_config \<Rightarrow> errcode \<Rightarrow> bool" where
  "la_retry_on_error cf errid \<longleftrightarrow>
     LA_RETRY_ON_ERROR errid \<or> sysprm_find_err_in_integer_list (cf_retry_error_list cf) \<bar>errid\<bar>"

definition la_restart_on_bulk_flush_error :: "la_config \<Rightarrow> errcode \<Rightarrow> bool" where
  "la_restart_on_bulk_flush_error cf errid =
     (if la_ignore_on_error cf errid then False else la_retry_on_error cf errid)"

section \<open>The replication filter\<close>

abbreviation (input) CUBRID_STMT_TRUNCATE :: int where "CUBRID_STMT_TRUNCATE \<equiv> 52"

text \<open>The bytes of \<^verbatim>\<open>db_serial\<close>.\<close>

definition CT_SERIAL_NAME :: "byte list" where
  "CT_SERIAL_NAME = [100, 98, 95, 115, 101, 114, 105, 97, 108]"

definition to_lower :: "byte \<Rightarrow> byte" where
  "to_lower b = (if 65 \<le> b \<and> b \<le> 90 then b + 32 else b)"

definition same_name :: "byte list \<Rightarrow> byte list \<Rightarrow> bool" where
  "same_name a b \<longleftrightarrow> map to_lower (c_string a) = map to_lower (c_string b)"

text \<open>
  An item without a class name is taken as one with an empty name here; in the
  source it must not get past the first test (the second one is an assertion).
\<close>

definition la_need_filter_out :: "la_repl_filter \<Rightarrow> 'v la_item \<Rightarrow> bool" where
  "la_need_filter_out filt item =
     (let class_name = (case it_class_name item of None \<Rightarrow> [] | Some n \<Rightarrow> n) in
      if rf_type filt = REPL_FILTER_NONE
         \<or> (it_log_type item = LOG_REPLICATION_SCHEMA \<and> it_item_type item \<noteq> CUBRID_STMT_TRUNCATE)
         \<or> same_name class_name CT_SERIAL_NAME
      then False
      else let filter_found = (\<exists>n \<in> set (rf_list filt). same_name n class_name) in
           (rf_type filt = REPL_FILTER_INCLUDE_TBL \<and> \<not> filter_found)
           \<or> (rf_type filt = REPL_FILTER_EXCLUDE_TBL \<and> filter_found))"

text \<open>\<open>mem1\<close> and \<open>mem2\<close> answer the growing of the array and the copy of the name.\<close>

abbreviation (input) LA_NUM_REPL_FILTER :: nat where "LA_NUM_REPL_FILTER \<equiv> 50"

definition la_add_repl_filter :: "bool \<Rightarrow> bool \<Rightarrow> byte list option \<Rightarrow> la_repl_filter \<Rightarrow> errcode \<times> la_repl_filter" where
  "la_add_repl_filter mem1 mem2 classname filt =
     (case classname of
        None \<Rightarrow> (NO_ERROR, filt)
      | Some name \<Rightarrow>
          if c_string name = [] then (NO_ERROR, filt)
          else
            let full = (rf_list_size filt \<le> length (rf_list filt));
                filt1 = (if full then filt\<lparr>rf_list_size := rf_list_size filt + LA_NUM_REPL_FILTER\<rparr> else filt)
            in if full \<and> \<not> mem1 then (ER_OUT_OF_VIRTUAL_MEMORY, filt\<lparr>rf_list := []\<rparr>)
               else if \<not> mem2 then (ER_OUT_OF_VIRTUAL_MEMORY, filt1)
               else (NO_ERROR, filt1\<lparr>rf_list := rf_list filt1 @ [name]\<rparr>))"

definition la_destroy_repl_filter :: "la_repl_filter \<Rightarrow> la_repl_filter" where
  "la_destroy_repl_filter filt = filt\<lparr>rf_list := [], rf_list_size := 0\<rparr>"

section \<open>Committing\<close>

definition applied_info :: "('v, 'w) la_info \<Rightarrow> la_applied" where
  "applied_info info =
     \<lparr>ai_committed_lsa = li_committed_lsa info, ai_committed_rep_lsa = li_committed_rep_lsa info,
      ai_append_lsa = li_append_lsa info, ai_eof_lsa = li_eof_lsa info, ai_final_lsa = li_final_lsa info,
      ai_required_lsa = li_required_lsa info, ai_log_record_time = li_log_record_time info,
      ai_log_commit_time = li_log_commit_time info\<rparr>"

definition set_shutdown :: "('v, 'w) la_info \<Rightarrow> ('v, 'w) la_info" where
  "set_shutdown info = info\<lparr>li_vols := (li_vols info)\<lparr>need_shutdown := True\<rparr>\<rparr>"

text \<open>
  \<^verbatim>\<open>la_log_commit\<close> in its three parts: the addresses and the time, the flush, the
  commit. With a plug-in, \<open>en_plugin_commit\<close> is what happens between the update
  and the commit: the tests of \<^verbatim>\<open>la_plugin_Info.status\<close>, the copy of the required
  address to \<^verbatim>\<open>callback_lsa\<close> and \<^verbatim>\<open>la_update_ha_plugin_info\<close>, whose result is ignored.
\<close>

definition la_commit_prepare :: "('v, 'w) la_env \<Rightarrow> bool \<Rightarrow> ('v, 'w) la_info \<Rightarrow> ('v, 'w) la_info" where
  "la_commit_prepare en update_commit_time info =
     (let hdr = act_log_hdr (li_vols info);
          info1 = info\<lparr>li_required_lsa := la_find_required_lsa (li_final_lsa info) (li_repl info),
                       li_append_lsa := lh_append_lsa hdr, li_eof_lsa := lh_eof_lsa hdr\<rparr>
      in if update_commit_time
         then (case en_time en (li_w info1) of (t, w) \<Rightarrow> info1\<lparr>li_log_commit_time := t, li_w := w\<rparr>)
         else info1)"

definition la_commit_flush :: "('v, 'w) la_env \<Rightarrow> ('v, 'w) la_info \<Rightarrow> errcode \<times> ('v, 'w) la_info" where
  "la_commit_flush en info =
     (case en_flush en (li_w info) of
        ((err, shut, fails), w) \<Rightarrow>
          (err, (if shut then set_shutdown else id) (info\<lparr>li_w := w, li_fail_counter := li_fail_counter info + fails\<rparr>)))"

definition la_commit_apply_info :: "la_config \<Rightarrow> ('v, 'w) la_env \<Rightarrow> ('v, 'w) la_info \<Rightarrow> errcode \<times> ('v, 'w) la_info" where
  "la_commit_apply_info cf en info =
     (case en_update_applied en (applied_info info) (li_w info) of
        (err1, w1) \<Rightarrow>
          if err1 = NO_ERROR then
            (let w2 = (if cf_enable_plugin cf then en_plugin_commit en (li_required_lsa info) w1 else w1) in
             case en_commit_transaction en w2 of (err3, w3) \<Rightarrow> (err3, info\<lparr>li_w := w3\<rparr>))
          else
            (if err1 = ER_NET_CANT_CONNECT_SERVER \<or> err1 = ER_OBJ_NO_CONNECT then ER_NET_CANT_CONNECT_SERVER else NO_ERROR,
             info\<lparr>li_w := w1, li_fail_counter := li_fail_counter info + 1\<rparr>))"

definition la_log_commit :: "la_config \<Rightarrow> ('v, 'w) la_env \<Rightarrow> bool \<Rightarrow> ('v, 'w) la_info \<Rightarrow> errcode \<times> ('v, 'w) la_info" where
  "la_log_commit cf en update_commit_time info =
     (case la_commit_flush en (la_commit_prepare en update_commit_time info) of
        (err, info') \<Rightarrow> if err \<noteq> NO_ERROR then (err, info') else la_commit_apply_info cf en info')"

text \<open>The periodic commit. \<open>time_commit\<close> is in milliseconds.\<close>

definition la_check_time_commit ::
    "la_config \<Rightarrow> ('v, 'w) la_env \<Rightarrow> int \<Rightarrow> int \<Rightarrow> ('v, 'w) la_info \<Rightarrow> (errcode \<times> int) \<times> ('v, 'w) la_info" where
  "la_check_time_commit cf en time_commit threshold info =
     (case en_msec en (li_w info) of
        (cur, w1) \<Rightarrow>
          let diff_msec = max 0 (cur - time_commit); info1 = info\<lparr>li_w := w1\<rparr> in
          if threshold < diff_msec then
            (case en_msec en w1 of
               (time_commit', w2) \<Rightarrow>
                 (case en_ping_server en w2 of
                    (err, w3) \<Rightarrow>
                      let info3 = info1\<lparr>li_w := w3\<rparr> in
                      if err \<noteq> NO_ERROR then ((ER_NET_CANT_CONNECT_SERVER, time_commit'), info3)
                      else
                        let need_commit = (li_prev_total_rows info3 \<noteq> li_total_rows info3) in
                        if need_commit \<or> li_is_apply_info_updated info3 then
                          (case la_log_commit cf en need_commit info3 of
                             (err4, info4) \<Rightarrow>
                               ((err4, time_commit'),
                                if err4 = NO_ERROR
                                then info4\<lparr>li_prev_total_rows := li_total_rows info4, li_is_apply_info_updated := False\<rparr>
                                else info4))
                        else ((err, time_commit'), if li_busy info3 then info3\<lparr>li_busy := False\<rparr> else info3)))
          else ((NO_ERROR, time_commit), info1))"

section \<open>What a commit records\<close>






section \<open>The commit interval\<close>

abbreviation (input) LA_NUM_DELAY_HISTORY :: nat where "LA_NUM_DELAY_HISTORY \<equiv> 10"
abbreviation (input) LA_MAX_TOLERABLE_DELAY :: int where "LA_MAX_TOLERABLE_DELAY \<equiv> 2"
abbreviation (input) LA_REINIT_COMMIT_INTERVAL :: int where "LA_REINIT_COMMIT_INTERVAL \<equiv> 10"

text \<open>
  \<^verbatim>\<open>la_get_avg\<close> is only compared with a delay: \<open>delay\<close> is below (above)
  the average of \<open>n\<close> delays when \<open>n * delay\<close> is below (above) their sum.
  In the branch that asks, the delay is at most two seconds, where the
  comparison of the source in single precision is exact. \<open>idx\<close> is the static
  \<^verbatim>\<open>delay_hist_idx\<close>.
\<close>

definition la_get_adaptive_time_commit_interval ::
    "int \<Rightarrow> int \<Rightarrow> int \<Rightarrow> int \<times> int list \<times> nat \<Rightarrow> int \<times> int list \<times> nat" where
  "la_get_adaptive_time_commit_interval max_commit_interval log_record_time now st =
     (case st of (interval, hist, idx) \<Rightarrow>
        if log_record_time = 0 then st
        else
          let delay = now - log_record_time;
              total = sum_list hist; n = int LA_NUM_DELAY_HISTORY;
              interval' =
                (if LA_MAX_TOLERABLE_DELAY < delay then max_commit_interval
                 else if delay = 0 then interval sdiv 2
                 else if 0 \<le> hist ! idx then
                   (if n * delay < total then interval sdiv 2
                    else if total < n * delay then
                      (let i2 = interval * 2 in
                       if i2 = 0 then LA_REINIT_COMMIT_INTERVAL
                       else if max_commit_interval < i2 then max_commit_interval else i2)
                    else interval)
                 else interval)
          in (interval', hist[idx := delay], (idx + 1) mod LA_NUM_DELAY_HISTORY))"

section \<open>The state of the applier\<close>

abbreviation (input) HA_LOG_APPLIER_STATE_NA :: int where "HA_LOG_APPLIER_STATE_NA \<equiv> -1"
abbreviation (input) HA_LOG_APPLIER_STATE_RECOVERING :: int where "HA_LOG_APPLIER_STATE_RECOVERING \<equiv> 1"
abbreviation (input) HA_LOG_APPLIER_STATE_WORKING :: int where "HA_LOG_APPLIER_STATE_WORKING \<equiv> 2"
abbreviation (input) HA_LOG_APPLIER_STATE_DONE :: int where "HA_LOG_APPLIER_STATE_DONE \<equiv> 3"
abbreviation (input) HA_SERVER_STATE_ACTIVE :: int where "HA_SERVER_STATE_ACTIVE \<equiv> 1"
abbreviation (input) HA_SERVER_STATE_TO_BE_ACTIVE :: int where "HA_SERVER_STATE_TO_BE_ACTIVE \<equiv> 2"
abbreviation (input) HA_SERVER_STATE_STANDBY :: int where "HA_SERVER_STATE_STANDBY \<equiv> 3"
abbreviation (input) HA_SERVER_STATE_TO_BE_STANDBY :: int where "HA_SERVER_STATE_TO_BE_STANDBY \<equiv> 4"
abbreviation (input) HA_SERVER_STATE_MAINTENANCE :: int where "HA_SERVER_STATE_MAINTENANCE \<equiv> 5"
abbreviation (input) HA_SERVER_STATE_DEAD :: int where "HA_SERVER_STATE_DEAD \<equiv> 6"
abbreviation (input) LOG_HA_FILESTAT_SYNCHRONIZED :: int where "LOG_HA_FILESTAT_SYNCHRONIZED \<equiv> 2"

text \<open>
  The two switches of \<^verbatim>\<open>la_change_state\<close>: the state to notify
  (\<^verbatim>\<open>HA_LOG_APPLIER_STATE_NA\<close> for none) and whether the lists are
  cleared; \<open>None\<close> for a server state that is not known.
\<close>

definition la_new_state :: "bool \<Rightarrow> int \<Rightarrow> int \<Rightarrow> (int \<times> bool) option" where
  "la_new_state synced server_state apply_state =
     (if synced then
        (if server_state \<in> {HA_SERVER_STATE_ACTIVE, HA_SERVER_STATE_TO_BE_STANDBY, HA_SERVER_STATE_TO_BE_ACTIVE}
         then Some (if apply_state \<noteq> HA_LOG_APPLIER_STATE_WORKING then HA_LOG_APPLIER_STATE_WORKING
                    else HA_LOG_APPLIER_STATE_NA, False)
         else if server_state \<in> {HA_SERVER_STATE_DEAD, HA_SERVER_STATE_STANDBY, HA_SERVER_STATE_MAINTENANCE}
         then Some (if apply_state \<noteq> HA_LOG_APPLIER_STATE_DONE
                    then (HA_LOG_APPLIER_STATE_DONE, server_state \<noteq> HA_SERVER_STATE_DEAD)
                    else (HA_LOG_APPLIER_STATE_NA, False))
         else None)
      else
        (if server_state \<in> {HA_SERVER_STATE_ACTIVE, HA_SERVER_STATE_TO_BE_STANDBY}
         then Some (if apply_state \<noteq> HA_LOG_APPLIER_STATE_WORKING \<and> apply_state \<noteq> HA_LOG_APPLIER_STATE_RECOVERING
                    then HA_LOG_APPLIER_STATE_RECOVERING else HA_LOG_APPLIER_STATE_NA, False)
         else if server_state \<in> {HA_SERVER_STATE_TO_BE_ACTIVE, HA_SERVER_STATE_STANDBY, HA_SERVER_STATE_DEAD,
                                 HA_SERVER_STATE_MAINTENANCE}
         then Some (if apply_state \<noteq> HA_LOG_APPLIER_STATE_DONE \<and> apply_state \<noteq> HA_LOG_APPLIER_STATE_RECOVERING
                    then HA_LOG_APPLIER_STATE_RECOVERING else HA_LOG_APPLIER_STATE_NA, False)
         else None))"

definition la_change_state :: "la_config \<Rightarrow> ('v, 'w) la_env \<Rightarrow> ('v, 'w) la_info \<Rightarrow> errcode \<times> ('v, 'w) la_info" where
  "la_change_state cf en info =
     (let hdr = act_log_hdr (li_vols info) in
      if li_last_server_state info = lh_ha_server_state hdr \<and> li_last_file_state info = lh_ha_file_status hdr
         \<and> li_last_is_end_of_record info = li_is_end_of_record info
      then (NO_ERROR, info)
      else
        let info1 = info\<lparr>li_last_server_state := lh_ha_server_state hdr, li_last_file_state := lh_ha_file_status hdr,
                         li_last_is_end_of_record := li_is_end_of_record info\<rparr>;
            synced = (li_is_end_of_record info \<and> lh_ha_file_status hdr = LOG_HA_FILESTAT_SYNCHRONIZED)
        in case la_new_state synced (lh_ha_server_state hdr) (li_apply_state info) of
             None \<Rightarrow> (ER_FAILED, info1)
           | Some (new_state, clear) \<Rightarrow>
               let info2 = (if clear then info1\<lparr>li_repl := la_clear_all_repl_and_commit_list (li_repl info1)\<rparr> else info1)
               in if new_state = HA_LOG_APPLIER_STATE_NA \<or> li_apply_state info2 = new_state then (NO_ERROR, info2)
                  else (case la_log_commit cf en True info2 of
                          (err3, info3) \<Rightarrow>
                            if err3 \<noteq> NO_ERROR then (err3, info3)
                            else (case en_notify_state en new_state (li_w info3) of
                                    (err4, w4) \<Rightarrow>
                                      (err4, (if err4 = NO_ERROR then info3\<lparr>li_w := w4, li_apply_state := new_state\<rparr>
                                              else info3\<lparr>li_w := w4\<rparr>)))))"

section \<open>Archives\<close>

text \<open>
  \<^verbatim>\<open>la_remove_archive_logs\<close>: the archives removed, in order, and the
  number of the last one that is gone. \<open>required_pageid\<close> is the page of
  \<^verbatim>\<open>la_Info.required_lsa\<close>, or of the plug-in's address.
\<close>

definition la_remove_archive_logs ::
    "'w la_io \<Rightarrow> la_vols \<Rightarrow> int \<Rightarrow> log_pageid \<Rightarrow> int \<Rightarrow> int \<Rightarrow> int \<Rightarrow> 'w \<Rightarrow> ((int \<times> int list) \<times> 'w) option" where
  "la_remove_archive_logs io st log_max_archives required_pageid last_deleted_arv_num nxarv_num max_arv_count_to_delete w =
     (let in_arv = LA_LOG_IS_IN_ARCHIVE st required_pageid in
      case (if in_arv then la_find_archive_num io st (-1) required_pageid w else Some ((NO_ERROR, -1), w)) of
        None \<Rightarrow> None
      | Some ((err, required_arv_num), w1) \<Rightarrow>
          if err \<noteq> NO_ERROR then Some ((last_deleted_arv_num, []), w1)
          else
            let max_arv_count = (if in_arv then max log_max_archives (nxarv_num - required_arv_num) else log_max_archives);
                current_arv_count = nxarv_num - last_deleted_arv_num - 1
            in if max_arv_count < current_arv_count then
                 let first_arv = last_deleted_arv_num + 1; last_arv = nxarv_num - max_arv_count - 1 in
                 if last_arv < 0 \<or> last_arv < first_arv then Some ((last_deleted_arv_num, []), w1)
                 else
                   let last_arv' = (if max_arv_count_to_delete < last_arv - first_arv + 1
                                    then first_arv + max_arv_count_to_delete - 1 else last_arv)
                   in Some ((last_arv', [first_arv..last_arv']), w1)
               else Some ((last_deleted_arv_num, []), w1))"

text \<open>\<^verbatim>\<open>la_find_last_deleted_arv_num\<close>: the last archive that cannot be opened.\<close>

function la_last_deleted_loop :: "'w la_io \<Rightarrow> int \<Rightarrow> 'w \<Rightarrow> int \<times> 'w" where
  "la_last_deleted_loop io n w =
     (if 0 \<le> n then
        (case io_open_arv io n w of
           (vdes, w1) \<Rightarrow> if vdes = NULL_VOLDES then (n, w1) else la_last_deleted_loop io (n - 1) w1)
      else (n, w))"
  by pat_completeness auto
termination by (relation "measure (\<lambda>(io, n, w). nat (n + 1))") auto

definition la_find_last_deleted_arv_num :: "'w la_io \<Rightarrow> la_vols \<Rightarrow> 'w \<Rightarrow> int \<times> 'w" where
  "la_find_last_deleted_arv_num io st w = la_last_deleted_loop io (lh_nxarv_num (act_log_hdr st) - 1) w"

section \<open>What the operations guarantee\<close>

text \<open>A commit only updates the fields it owns, and records where a restart has to begin.\<close>

definition commit_frame :: "('v, 'w) la_info \<Rightarrow> ('v, 'w) la_info \<Rightarrow> bool" where
  "commit_frame info info' \<longleftrightarrow>
    li_repl info' = li_repl info \<and> li_pb info' = li_pb info \<and> li_final_lsa info' = li_final_lsa info \<and>
    li_committed_lsa info' = li_committed_lsa info \<and> li_committed_rep_lsa info' = li_committed_rep_lsa info \<and>
    li_last_committed_lsa info' = li_last_committed_lsa info \<and>
    li_last_committed_rep_lsa info' = li_last_committed_rep_lsa info \<and>
    act_log_hdr (li_vols info') = act_log_hdr (li_vols info) \<and>
    li_total_repl_items info' = li_total_repl_items info \<and> li_total_rows info' = li_total_rows info \<and>
    li_apply_state info' = li_apply_state info \<and> li_commit_counter info' = li_commit_counter info"

lemma commit_frame_trans: "commit_frame a b \<Longrightarrow> commit_frame b c \<Longrightarrow> commit_frame a c"
  by (simp add: commit_frame_def)

lemma la_commit_prepare_result:
  "commit_frame info (la_commit_prepare en upd info)"
  "li_required_lsa (la_commit_prepare en upd info) = la_find_required_lsa (li_final_lsa info) (li_repl info)"
  "li_append_lsa (la_commit_prepare en upd info) = lh_append_lsa (act_log_hdr (li_vols info))"
  "li_eof_lsa (la_commit_prepare en upd info) = lh_eof_lsa (act_log_hdr (li_vols info))"
  by (auto simp: la_commit_prepare_def Let_def commit_frame_def split: prod.splits)

lemma la_commit_flush_result:
  assumes "la_commit_flush en info = (err, info')"
  shows "commit_frame info info'" and "li_required_lsa info' = li_required_lsa info"
    and "li_append_lsa info' = li_append_lsa info" and "li_eof_lsa info' = li_eof_lsa info"
  using assms by (auto simp: la_commit_flush_def set_shutdown_def commit_frame_def split: prod.splits)

lemma la_commit_apply_info_result:
  assumes "la_commit_apply_info cf en info = (err, info')"
  shows "commit_frame info info'" and "li_required_lsa info' = li_required_lsa info"
    and "li_append_lsa info' = li_append_lsa info" and "li_eof_lsa info' = li_eof_lsa info"
    and "li_vols info' = li_vols info"
  using assms by (auto simp: la_commit_apply_info_def commit_frame_def Let_def split: prod.splits if_splits)

lemma la_log_commit_frame:
  assumes "la_log_commit cf en upd info = (err, info')"
  shows "commit_frame info info'"
    and "li_required_lsa info' = la_find_required_lsa (li_final_lsa info) (li_repl info)"
    and "li_append_lsa info' = lh_append_lsa (act_log_hdr (li_vols info))"
    and "li_eof_lsa info' = lh_eof_lsa (act_log_hdr (li_vols info))"
proof -
  note P = la_commit_prepare_result [where info = info and en = en and upd = upd]
  obtain err1 info1 where f: "la_commit_flush en (la_commit_prepare en upd info) = (err1, info1)" by force
  note F = la_commit_flush_result [OF f]
  have "info' = info1 \<or> la_commit_apply_info cf en info1 = (err, info')"
    using assms f by (auto simp: la_log_commit_def split: if_splits)
  then have "commit_frame info1 info' \<and> li_required_lsa info' = li_required_lsa info1 \<and>
      li_append_lsa info' = li_append_lsa info1 \<and> li_eof_lsa info' = li_eof_lsa info1"
    using la_commit_apply_info_result [of cf en info1 err info'] by (auto simp: commit_frame_def)
  with P F show "commit_frame info info'"
    and "li_required_lsa info' = la_find_required_lsa (li_final_lsa info) (li_repl info)"
    and "li_append_lsa info' = lh_append_lsa (act_log_hdr (li_vols info))"
    and "li_eof_lsa info' = lh_eof_lsa (act_log_hdr (li_vols info))"
    using commit_frame_trans by (blast, simp_all)
qed

lemma la_change_state_apply_state:
  assumes "la_change_state cf en info = (err, info')"
  shows "li_apply_state info' = li_apply_state info \<or>
    err = NO_ERROR \<and> (\<exists>clear. la_new_state (li_is_end_of_record info \<and>
        lh_ha_file_status (act_log_hdr (li_vols info)) = LOG_HA_FILESTAT_SYNCHRONIZED)
      (lh_ha_server_state (act_log_hdr (li_vols info))) (li_apply_state info) = Some (li_apply_state info', clear))"
proof -
  let ?hdr = "act_log_hdr (li_vols info)"
  let ?new = "la_new_state (li_is_end_of_record info \<and> lh_ha_file_status ?hdr = LOG_HA_FILESTAT_SYNCHRONIZED)
      (lh_ha_server_state ?hdr) (li_apply_state info)"
  show ?thesis
  proof (cases "li_last_server_state info = lh_ha_server_state ?hdr \<and> li_last_file_state info = lh_ha_file_status ?hdr
         \<and> li_last_is_end_of_record info = li_is_end_of_record info")
    case True
    with assms show ?thesis by (simp add: la_change_state_def)
  next
    case False
    define info1 where "info1 = info\<lparr>li_last_server_state := lh_ha_server_state ?hdr,
      li_last_file_state := lh_ha_file_status ?hdr, li_last_is_end_of_record := li_is_end_of_record info\<rparr>"
    define info2 where "info2 = (if \<exists>n. ?new = Some (n, True)
      then info1\<lparr>li_repl := la_clear_all_repl_and_commit_list (li_repl info1)\<rparr> else info1)"
    have same: "li_apply_state info1 = li_apply_state info" "li_apply_state info2 = li_apply_state info"
      by (simp_all add: info1_def info2_def)
    obtain err3 info3 where c: "la_log_commit cf en True info2 = (err3, info3)" by force
    have l: "li_apply_state info3 = li_apply_state info" using la_log_commit_frame(1) [OF c] same by (simp add: commit_frame_def)
    have step: "la_change_state cf en info =
        (case ?new of
           None \<Rightarrow> (ER_FAILED, info1)
         | Some (n, clear) \<Rightarrow>
             if n = HA_LOG_APPLIER_STATE_NA \<or> li_apply_state info2 = n then (NO_ERROR, info2)
             else if err3 \<noteq> NO_ERROR then (err3, info3)
             else (case en_notify_state en n (li_w info3) of
                     (err4, w4) \<Rightarrow> (err4, if err4 = NO_ERROR then info3\<lparr>li_w := w4, li_apply_state := n\<rparr>
                                        else info3\<lparr>li_w := w4\<rparr>)))"
      using False c by (auto simp: la_change_state_def Let_def info1_def info2_def split: option.splits)
    show ?thesis using assms l same unfolding step by (auto split: option.splits if_splits prod.splits)
  qed
qed

text \<open>Archives that are still needed are kept.\<close>

lemma la_remove_archive_logs_keeps:
  assumes "la_remove_archive_logs io st maxn req last_del nxarv n w = Some ((ld, dels), w')"
    and "LA_LOG_IS_IN_ARCHIVE st req" and "i \<in> set dels"
  shows "\<exists>a w1. la_find_archive_num io st (-1) req w = Some ((NO_ERROR, a), w1) \<and> i < a"
proof -
  obtain err a w1 where f: "la_find_archive_num io st (-1) req w = Some ((err, a), w1)"
    using assms(1,2) by (auto simp: la_remove_archive_logs_def split: option.splits)
  have e: "err = NO_ERROR" using assms f by (auto simp: la_remove_archive_logs_def Let_def split: if_splits)
  have "i \<le> nxarv - max maxn (nxarv - a) - 1"
    using assms f e by (auto simp: la_remove_archive_logs_def Let_def split: if_splits)
  then have "i < a" by (simp add: max_def split: if_splits)
  with f e show ?thesis by simp
qed

lemma la_remove_archive_logs_range:
  assumes "la_remove_archive_logs io st maxn req last_del nxarv n w = Some ((ld, dels), w')" and "0 < n"
  shows "dels = [last_del + 1..ld]" and "last_del \<le> ld" and "int (length dels) \<le> n"
    and "dels \<noteq> [] \<Longrightarrow> maxn \<le> nxarv - ld - 1"
  using assms by (auto simp: la_remove_archive_logs_def Let_def max_def split: option.splits if_splits)

lemma la_last_deleted_loop_result:
  assumes "\<And>n w. snd (io_open_arv io n w) = w" and "la_last_deleted_loop io n w = (r, w')" and "-1 \<le> n"
  shows "-1 \<le> r \<and> r \<le> n \<and> (\<forall>k. r < k \<and> k \<le> n \<longrightarrow> fst (io_open_arv io k w) \<noteq> NULL_VOLDES) \<and>
    (0 \<le> r \<longrightarrow> fst (io_open_arv io r w) = NULL_VOLDES)"
  using assms
proof (induction io n w rule: la_last_deleted_loop.induct)
  case (1 io n w)
  show ?case
  proof (cases "0 \<le> n")
    case False
    with 1(3,4) show ?thesis by simp
  next
    case True
    obtain v w1 where o: "io_open_arv io n w = (v, w1)" by force
    have w1: "w1 = w" using 1(2) [of n w] o by simp
    show ?thesis
    proof (cases "v = NULL_VOLDES")
      case True
      with 1(3) \<open>0 \<le> n\<close> o show ?thesis by simp
    next
      case False
      then have call: "la_last_deleted_loop io (n - 1) w1 = (r, w')"
        using 1(3) True o by (subst (asm) la_last_deleted_loop.simps) simp
      have "-1 \<le> r \<and> r \<le> n - 1 \<and> (\<forall>k. r < k \<and> k \<le> n - 1 \<longrightarrow> fst (io_open_arv io k w1) \<noteq> NULL_VOLDES) \<and>
          (0 \<le> r \<longrightarrow> fst (io_open_arv io r w1) = NULL_VOLDES)"
        using 1(1) [OF True o [symmetric] False 1(2) call] True by simp
      moreover have "fst (io_open_arv io n w) \<noteq> NULL_VOLDES" using False o by simp
      ultimately show ?thesis unfolding w1 by (metis add_le_same_cancel1 diff_add_cancel linorder_not_le order.trans zle_diff1_eq order_less_le)
    qed
  qed
qed

section \<open>The commit interval\<close>

lemma adaptive_interval_bounds:
  assumes "la_get_adaptive_time_commit_interval mx lrt now (i, hist, idx) = (i', hist', idx')"
    and "0 \<le> i" and "i \<le> max mx LA_REINIT_COMMIT_INTERVAL" and "0 \<le> mx" and "idx < LA_NUM_DELAY_HISTORY"
  shows "0 \<le> i' \<and> i' \<le> max mx LA_REINIT_COMMIT_INTERVAL \<and> length hist' = length hist \<and> idx' < LA_NUM_DELAY_HISTORY"
proof -
  have "i sdiv 2 = i div 2" using assms(2) by (cases "i = 0") (simp_all add: signed_divide_int_def)
  with assms show ?thesis
    by (auto simp: la_get_adaptive_time_commit_interval_def Let_def split: if_splits)
qed

section \<open>Properties\<close>

text \<open>
  An applier at rest and an environment whose slave takes every item, for the
  witnesses: the world is the list of the items applied.
\<close>

definition ex_info :: "(unit, unit la_item list) la_info" where
  "ex_info = \<lparr>li_repl = ex_repl, li_pb = ex_pb, li_vols = ex_vols, li_w = [], li_final_lsa = LSA 33 0,
     li_committed_lsa = LSA 30 0, li_committed_rep_lsa = LSA 30 0, li_last_committed_lsa = LSA 30 0,
     li_last_committed_rep_lsa = LSA 30 0, li_append_lsa = LSA_NULL, li_eof_lsa = LSA_NULL, li_required_lsa = LSA_NULL,
     li_total_rows = 0, li_prev_total_rows = 0, li_log_record_time = 0, li_log_commit_time = 0, li_commit_counter = 0,
     li_fail_counter = 0, li_busy = False, li_is_end_of_record = False, li_last_is_end_of_record = False,
     li_is_role_changed = False, li_is_apply_info_updated = False, li_last_server_state = 0, li_last_file_state = 0,
     li_apply_state = HA_LOG_APPLIER_STATE_RECOVERING, li_db_lockf_vdes = 5, li_total_repl_items = 0\<rparr>"

definition ex_take :: "unit la_item \<Rightarrow> unit la_item list la_src \<Rightarrow> errcode \<times> unit la_item list la_src" where
  "ex_take item s = (case s of (pb, st, w) \<Rightarrow> (NO_ERROR, pb, st, w @ [item]))"

definition ex_env :: "(unit, unit la_item list) la_env" where
  "ex_env = \<lparr>en_time = \<lambda>w. (100, w), en_msec = \<lambda>w. (100000, w), en_flush = \<lambda>w. ((NO_ERROR, False, 0), w),
     en_update_applied = \<lambda>a w. (NO_ERROR, w), en_update_record_time = \<lambda>t w. w,
     en_commit_transaction = \<lambda>w. (NO_ERROR, w), en_ping_server = \<lambda>w. (NO_ERROR, w), en_notify_state = \<lambda>s w. (NO_ERROR, w),
     en_mem_size = \<lambda>w. (NO_ERROR, w), en_lock_dbname = \<lambda>w. (5, w), en_errid = \<lambda>w. NO_ERROR, en_list_mem = \<lambda>w i. True,
     en_garbage = \<lambda>w. 0, en_apply_update = ex_take, en_apply_update_server_side = ex_take, en_apply_insert = ex_take,
     en_apply_delete = ex_take, en_apply_schema = ex_take, en_delay_replica = \<lambda>t w. w, en_plugin_commit = \<lambda>lsa w. w,
     en_plugin_item = \<lambda>w. w, en_plugin_time = \<lambda>t w. w\<rparr>"

definition ex_conf :: la_config where
  "ex_conf = \<lparr>cf_cache = ex_cfg, cf_enable_plugin = False, cf_server_side_update = False, cf_ignore_error_list = [],
     cf_retry_error_list = [], cf_filter = \<lparr>rf_type = REPL_FILTER_NONE, rf_list = [], rf_list_size = 0\<rparr>\<rparr>"

text \<open>
  C15. Removing archives never removes a page that a restart needs: every
  archive removed ends before the page of the required address, and the number
  of archives left is never below the configured one.
\<close>

theorem la_remove_archive_logs_safe:
  assumes "la_remove_archive_logs io st maxn req (last_deleted_arv st) (lh_nxarv_num (act_log_hdr st)) n w = Some ((ld, dels), w')"
    and "0 < n" and "LA_LOG_IS_IN_ARCHIVE st req" and "-1 \<le> last_deleted_arv st"
    and "archives_readable io F N (last_deleted_arv st + 1) (lh_nxarv_num (act_log_hdr st))"
    and "archives_chain F N (last_deleted_arv st + 1) (lh_nxarv_num (act_log_hdr st))" and "archive_hdr_current st F N"
    and "last_deleted_arv st + 1 < lh_nxarv_num (act_log_hdr st)"
    and "F (last_deleted_arv st + 1) \<le> req" and "req < F (lh_nxarv_num (act_log_hdr st))"
  shows "(\<forall>i \<in> set dels. last_deleted_arv st < i \<and> F i + N i \<le> req) \<and> int (length dels) \<le> n \<and>
    (dels \<noteq> [] \<longrightarrow> maxn \<le> lh_nxarv_num (act_log_hdr st) - ld - 1)"
proof -
  let ?lo = "last_deleted_arv st + 1" and ?hi = "lh_nxarv_num (act_log_hdr st)"
  have lo: "?lo = max 0 ?lo" using assms(4) by simp
  obtain a w1 where a: "la_find_archive_num io st (-1) req w = Some ((NO_ERROR, a), w1)" "a < ?hi" "F a \<le> req"
    using la_find_archive_num_finds [OF refl lo assms(5-10), of w] by blast
  note R = la_remove_archive_logs_range [OF assms(1,2)]
  have "F i + N i \<le> req" if i: "i \<in> set dels" for i
  proof -
    obtain a' w2 where "la_find_archive_num io st (-1) req w = Some ((NO_ERROR, a'), w2)" "i < a'"
      using la_remove_archive_logs_keeps [OF assms(1,3) i] by blast
    with a have "i < a" by simp
    have "?lo \<le> i" using R(1) i by auto
    with \<open>i < a\<close> a assms(6) have "F i + N i = F (i + 1)" "F (i + 1) \<le> F a"
      using archives_chain_mono [OF assms(6), of "i + 1" a] by (auto simp: archives_chain_def)
    with a show ?thesis by simp
  qed
  with R show ?thesis by auto
qed

lemma ex_remove:
  "la_remove_archive_logs ex_io ex_vols 1 25 (last_deleted_arv ex_vols) (lh_nxarv_num (act_log_hdr ex_vols)) 5 () = Some ((1, [0, 1]), ())"
  by (simp add: la_remove_archive_logs_def LA_LOG_IS_IN_ARCHIVE_def ex_vols_def ex_hdr_def la_find_archive_num_def
      la_find_archive_step_def la_archive_range_def ex_io_range signed_divide_int_def Let_def upto.simps)

lemma la_remove_archive_logs_safe_witness:
  "\<exists>ld dels. la_remove_archive_logs ex_io ex_vols 1 25 (last_deleted_arv ex_vols) (lh_nxarv_num (act_log_hdr ex_vols)) 5 ()
     = Some ((ld, dels), ()) \<and> dels = [0, 1] \<and> 1 \<le> lh_nxarv_num (act_log_hdr ex_vols) - ld - 1"
  unfolding ex_remove using la_remove_archive_logs_safe [OF ex_remove, of "\<lambda>n. 10 * n" "\<lambda>n. 10"] ex_io_readable
  by (simp add: ex_vols_def ex_hdr_def LA_LOG_IS_IN_ARCHIVE_def archives_chain_def archive_hdr_current_def)

text \<open>
  C26. The applier reports that it is working or done only when it has read to
  the end of a log that is synchronized with the server, and the server's state
  is one of those that allow it.
\<close>

theorem la_change_state_safe:
  assumes "la_change_state cf en info = (err, info')" and "li_apply_state info' \<noteq> li_apply_state info"
    and "li_apply_state info' = HA_LOG_APPLIER_STATE_WORKING \<or> li_apply_state info' = HA_LOG_APPLIER_STATE_DONE"
  shows "err = NO_ERROR \<and> li_is_end_of_record info \<and>
    lh_ha_file_status (act_log_hdr (li_vols info)) = LOG_HA_FILESTAT_SYNCHRONIZED \<and>
    lh_ha_server_state (act_log_hdr (li_vols info)) \<in>
      (if li_apply_state info' = HA_LOG_APPLIER_STATE_WORKING
       then {HA_SERVER_STATE_ACTIVE, HA_SERVER_STATE_TO_BE_STANDBY, HA_SERVER_STATE_TO_BE_ACTIVE}
       else {HA_SERVER_STATE_DEAD, HA_SERVER_STATE_STANDBY, HA_SERVER_STATE_MAINTENANCE})"
  using la_change_state_apply_state [OF assms(1)] assms(2,3) by (auto simp: la_new_state_def split: if_splits)

definition ex_synced :: "(unit, unit la_item list) la_info" where
  "ex_synced = ex_info\<lparr>li_is_end_of_record := True,
     li_vols := ex_vols\<lparr>act_log_hdr := ex_hdr\<lparr>lh_ha_server_state := HA_SERVER_STATE_ACTIVE,
       lh_ha_file_status := LOG_HA_FILESTAT_SYNCHRONIZED\<rparr>\<rparr>\<rparr>"

lemma la_change_state_safe_witness:
  "\<exists>info'. la_change_state ex_conf ex_env ex_synced = (NO_ERROR, info') \<and> li_apply_state info' = HA_LOG_APPLIER_STATE_WORKING \<and>
     li_is_end_of_record ex_synced"
proof -
  obtain err info' where c: "la_change_state ex_conf ex_env ex_synced = (err, info')" by force
  have "li_apply_state info' = HA_LOG_APPLIER_STATE_WORKING"
    using c by (simp add: la_change_state_def ex_synced_def ex_info_def ex_hdr_def Let_def la_new_state_def la_log_commit_def
        la_commit_prepare_def la_commit_flush_def la_commit_apply_info_def ex_env_def ex_conf_def split: prod.splits)
      auto
  with la_change_state_safe [OF c] c show ?thesis by (auto simp: ex_synced_def ex_info_def)
qed





text \<open>
  The adaptive commit interval stays between zero and the configured
  maximum, or ten milliseconds where the maximum is below that; the history of
  delays keeps its size.
\<close>

theorem la_adaptive_interval_bounded:
  assumes "la_get_adaptive_time_commit_interval mx lrt now (i, hist, idx) = (i', hist', idx')"
    and "0 \<le> i" and "i \<le> max mx LA_REINIT_COMMIT_INTERVAL" and "0 \<le> mx" and "idx < LA_NUM_DELAY_HISTORY"
  shows "0 \<le> i' \<and> i' \<le> max mx LA_REINIT_COMMIT_INTERVAL \<and> length hist' = length hist \<and> idx' < LA_NUM_DELAY_HISTORY"
  by (rule adaptive_interval_bounds [OF assms])

lemma la_adaptive_interval_bounded_witness:
  "0 \<le> fst (la_get_adaptive_time_commit_interval 500 90 91 (200, replicate 10 0, 3)) \<and>
   fst (la_get_adaptive_time_commit_interval 500 90 91 (200, replicate 10 0, 3)) \<le> 500"
proof -
  obtain i' hist' idx' where g: "la_get_adaptive_time_commit_interval 500 90 91 (200, replicate 10 0, 3) = (i', hist', idx')"
    by (metis surj_pair)
  from la_adaptive_interval_bounded [OF g] g show ?thesis by simp
qed

text \<open>
  The number of the last deleted archive found by trying to open archives
  from the newest on: all archives after it can be opened, it cannot itself.
\<close>

theorem la_find_last_deleted_arv_num_correct:
  assumes "\<And>n w. snd (io_open_arv io n w) = w" and "0 \<le> lh_nxarv_num (act_log_hdr st)"
    and "la_find_last_deleted_arv_num io st w = (r, w')"
  shows "-1 \<le> r \<and> r < lh_nxarv_num (act_log_hdr st) \<and>
    (\<forall>k. r < k \<and> k < lh_nxarv_num (act_log_hdr st) \<longrightarrow> fst (io_open_arv io k w) \<noteq> NULL_VOLDES) \<and>
    (0 \<le> r \<longrightarrow> fst (io_open_arv io r w) = NULL_VOLDES)"
  using la_last_deleted_loop_result [OF assms(1), of "lh_nxarv_num (act_log_hdr st) - 1" w r w'] assms(2,3)
  by (auto simp: la_find_last_deleted_arv_num_def)

lemma la_find_last_deleted_arv_num_correct_witness: "fst (la_find_last_deleted_arv_num (ex_io :: unit la_io) ex_vols ()) = -1"
proof -
  obtain r w' where f: "la_find_last_deleted_arv_num (ex_io :: unit la_io) ex_vols () = (r, w')" by (meson surj_pair)
  have "-1 \<le> r \<and> (0 \<le> r \<longrightarrow> fst (io_open_arv (ex_io :: unit la_io) r ()) = NULL_VOLDES)"
    using la_find_last_deleted_arv_num_correct [OF _ _ f] by (simp add: ex_vols_def ex_hdr_def ex_io_def)
  with f show ?thesis by (simp add: ex_io_def)
qed

end
