(* ===== verification/La_Record.thy ===== *)
theory La_Record
  imports La_Control
begin

text \<open>
  Processing of log records and applying of transactions
  (\<^verbatim>\<open>transaction/log_applier.c\<close>): the next item of a transaction from its
  list or from the log, applying the items of a transaction, the commit queue,
  and the dispatch on the type of a log record.
\<close>

section \<open>Page access in the global state\<close>

definition li_src :: "('v, 'w) la_info \<Rightarrow> 'w la_src" where
  "li_src info = (li_pb info, li_vols info, li_w info)"

definition set_src :: "'w la_src \<Rightarrow> ('v, 'w) la_info \<Rightarrow> ('v, 'w) la_info" where
  "set_src s info = (case s of (pb, st, w) \<Rightarrow> info\<lparr>li_pb := pb, li_vols := st, li_w := w\<rparr>)"

definition src_alloc :: "'w la_io \<Rightarrow> 'w la_src \<Rightarrow> bool \<times> 'w la_src" where
  "src_alloc io s = (case s of (pb, st, w) \<Rightarrow> (case io_malloc io w of (ok, w') \<Rightarrow> (ok, pb, st, w')))"

definition src_release :: "log_pageid \<Rightarrow> 'w la_src \<Rightarrow> 'w la_src" where
  "src_release pageid s = (case s of (pb, st, w) \<Rightarrow> (la_release_page_buffer pageid pb, st, w))"

definition src_eof :: "'w la_src \<Rightarrow> log_lsa" where
  "src_eof s = (case s of (pb, st, w) \<Rightarrow> lh_eof_lsa (act_log_hdr st))"

text \<open>The size of the log area, from the page size of the configuration.\<close>

definition cf_area :: "la_config \<Rightarrow> nat" where
  "cf_area cf = LA_LOGAREA_SIZE (cfg_logpagesize (cf_cache cf))"

section \<open>The next item of a transaction\<close>

datatype next_act = Nx_stop | Nx_make | Nx_skip

text \<open>What \<^verbatim>\<open>la_get_next_repl_item_from_log\<close> does with the record at \<open>cur\<close>.\<close>

definition la_next_act :: "log_lsa \<Rightarrow> log_lsa \<Rightarrow> log_lsa \<Rightarrow> tranid \<Rightarrow> log_record_header \<Rightarrow> log_lsa \<Rightarrow> next_act" where
  "la_next_act prev_repl_lsa last_lsa eof_lsa prev_trid lrec cur =
     (if \<not> LSA_EQ cur prev_repl_lsa \<and> prev_trid = lr_trid lrec then
        (if LSA_GT cur last_lsa \<or> lr_type lrec = LOG_COMMIT \<or> lr_type lrec = LOG_ABORT \<or> LSA_GE cur eof_lsa
         then Nx_stop
         else if lr_type lrec = LOG_REPLICATION_DATA \<or> lr_type lrec = LOG_REPLICATION_SCHEMA then Nx_make
         else Nx_skip)
      else Nx_skip)"

partial_function (option) la_next_from_log ::
    "'w la_io \<Rightarrow> la_config \<Rightarrow> 'v la_values \<Rightarrow> log_lsa \<Rightarrow> log_lsa \<Rightarrow> tranid option \<Rightarrow> log_lsa \<Rightarrow> 'w la_src
      \<Rightarrow> ('v la_item option \<times> 'w la_src) option" where
  "la_next_from_log io cf up prev_repl_lsa last_lsa prev_trid cur s =
     (if LSA_ISNULL cur then Some (None, s)
      else (case la_page_src io (cf_cache cf) (lsa_pageid cur) s of
              None \<Rightarrow> None
            | Some (None, s1) \<Rightarrow> None
            | Some (Some pg, s1) \<Rightarrow>
                (case (if prev_trid = None then src_alloc io s1 else (True, s1)) of
                   (ok, s2) \<Rightarrow>
                     if \<not> ok then Some (None, s2)
                     else
                       (case la_next_act prev_repl_lsa last_lsa (src_eof s2)
                               (case prev_trid of None \<Rightarrow> lr_trid (LOG_GET_LOG_RECORD_HEADER pg cur) | Some t \<Rightarrow> t)
                               (LOG_GET_LOG_RECORD_HEADER pg cur) cur of
                          Nx_stop \<Rightarrow> Some (None, s2)
                        | Nx_make \<Rightarrow>
                            la_make_repl_item (la_page_src io (cf_cache cf)) (cf_area cf) (src_alloc io) up pg
                              (lr_type (LOG_GET_LOG_RECORD_HEADER pg cur)) cur s2
                        | Nx_skip \<Rightarrow>
                            la_next_from_log io cf up prev_repl_lsa last_lsa
                              (Some (case prev_trid of None \<Rightarrow> lr_trid (LOG_GET_LOG_RECORD_HEADER pg cur) | Some t \<Rightarrow> t))
                              (lr_forw_lsa (LOG_GET_LOG_RECORD_HEADER pg cur)) (src_release (lsa_pageid cur) s2)))))"

definition la_get_next_repl_item_from_log ::
    "'w la_io \<Rightarrow> la_config \<Rightarrow> 'v la_values \<Rightarrow> 'v la_item \<Rightarrow> log_lsa \<Rightarrow> 'w la_src
      \<Rightarrow> ('v la_item option \<times> 'w la_src) option" where
  "la_get_next_repl_item_from_log io cf up item last_lsa s =
     la_next_from_log io cf up (it_lsa item) last_lsa None (it_lsa item) s"

text \<open>The item after an item that is linked, and of one that is not, which has no links.\<close>

fun next_in :: "'a \<Rightarrow> 'a list \<Rightarrow> 'a option" where
  "next_in x [] = None"
| "next_in x (y # ys) = (if x = y then (case ys of [] \<Rightarrow> None | z # _ \<Rightarrow> Some z) else next_in x ys)"

definition la_get_next_repl_item_from_list :: "'v la_apply \<Rightarrow> 'v la_item \<Rightarrow> 'v la_item option" where
  "la_get_next_repl_item_from_list app item = next_in item (ap_items app)"

definition la_get_next_repl_item ::
    "'w la_io \<Rightarrow> la_config \<Rightarrow> 'v la_values \<Rightarrow> 'v la_apply \<Rightarrow> 'v la_item \<Rightarrow> 'w la_src
      \<Rightarrow> ('v la_item option \<times> 'w la_src) option" where
  "la_get_next_repl_item io cf up app item s =
     (if ap_is_long_trans app then la_get_next_repl_item_from_log io cf up item (ap_last_lsa app) s
      else Some (la_get_next_repl_item_from_list app item, s))"

section \<open>Applying the items of a transaction\<close>

abbreviation (input) RVREPL_DATA_INSERT :: int where "RVREPL_DATA_INSERT \<equiv> 95"
abbreviation (input) RVREPL_DATA_UPDATE :: int where "RVREPL_DATA_UPDATE \<equiv> 96"
abbreviation (input) RVREPL_DATA_DELETE :: int where "RVREPL_DATA_DELETE \<equiv> 97"
abbreviation (input) RVREPL_DATA_UPDATE_START :: int where "RVREPL_DATA_UPDATE_START \<equiv> 99"
abbreviation (input) RVREPL_DATA_UPDATE_END :: int where "RVREPL_DATA_UPDATE_END \<equiv> 100"
abbreviation (input) LA_MAX_REPL_ITEM_WITHOUT_RELEASE_PB :: "32 word" where
  "LA_MAX_REPL_ITEM_WITHOUT_RELEASE_PB \<equiv> 50"

text \<open>
  The dispatch on the item; an unknown type is reported and counts as applied,
  with the error \<open>err\<close> that the variable has from before.
\<close>

definition la_dispatch_item :: "la_config \<Rightarrow> ('v, 'w) la_env \<Rightarrow> errcode \<Rightarrow> 'v la_item \<Rightarrow> 'w la_src \<Rightarrow> errcode \<times> 'w la_src" where
  "la_dispatch_item cf en err item s =
     (if it_log_type item = LOG_REPLICATION_DATA then
        (if it_item_type item \<in> {RVREPL_DATA_UPDATE_START, RVREPL_DATA_UPDATE_END, RVREPL_DATA_UPDATE} then
           (if cf_server_side_update cf then en_apply_update_server_side en item s else en_apply_update en item s)
         else if it_item_type item = RVREPL_DATA_INSERT then en_apply_insert en item s
         else if it_item_type item = RVREPL_DATA_DELETE then en_apply_delete en item s
         else (err, s))
      else if it_log_type item = LOG_REPLICATION_SCHEMA then en_apply_schema en item s
      else (err, s))"

text \<open>
  One round of the loop of \<^verbatim>\<open>la_apply_repl_log\<close> up to the move to the
  next item: leave the loop with an error, try the item again, or go on. With
  it, how many items were applied.
\<close>

datatype apply_out = Out_end errcode | Out_retry | Out_next errcode

definition la_after_apply :: "la_config \<Rightarrow> ('v, 'w) la_env \<Rightarrow> 'v la_item \<Rightarrow> errcode \<Rightarrow> ('v, 'w) la_info
    \<Rightarrow> apply_out \<times> ('v, 'w) la_info" where
  "la_after_apply cf en item err info =
     (let plugin = (\<lambda>inf. if cf_enable_plugin cf then inf\<lparr>li_w := en_plugin_item en (li_w inf)\<rparr> else inf) in
      if err = NO_ERROR then (Out_next err, plugin (info\<lparr>li_committed_rep_lsa := it_lsa item\<rparr>))
      else if err = ER_LC_PARTIALLY_FAILED_TO_FLUSH \<and> need_shutdown (li_vols info) then (Out_end err, info)
      else if err = ER_PLUGIN_JVM_FATAL_EXCEPTION \<or> err = ER_PLUGIN_CREATE_OBJECT_FAIL
      then (Out_end err, set_shutdown info)
      else
        let errid = en_errid en (li_w info) in
        if errid = ER_NET_CANT_CONNECT_SERVER \<or> errid = ER_OBJ_NO_CONNECT
        then (Out_end ER_NET_CANT_CONNECT_SERVER, info)
        else if \<not> la_ignore_on_error cf errid \<and> la_retry_on_error cf errid then (Out_retry, info)
        else (Out_next err, plugin info))"

text \<open>Every thousandth item: commit and look at the memory; whether the loop is left, and the error.\<close>

definition la_before_apply :: "la_config \<Rightarrow> ('v, 'w) la_env \<Rightarrow> ('v, 'w) la_info \<Rightarrow> (bool \<times> errcode) \<times> ('v, 'w) la_info" where
  "la_before_apply cf en info =
     (if li_total_repl_items info mod 1000 = 0 then
        (case la_log_commit cf en True info of
           (err1, info1) \<Rightarrow>
             if err1 \<noteq> NO_ERROR then ((True, err1), info1)
             else (case en_mem_size en (li_w info1) of
                     (err2, w2) \<Rightarrow> ((err2 = ER_HA_LA_EXCEED_MAX_MEM_SIZE, err2), info1\<lparr>li_w := w2\<rparr>)))
      else ((False, NO_ERROR), info))"

text \<open>Counting the item, and releasing the page buffers now and then.\<close>

definition la_count_item :: "log_pageid \<Rightarrow> ('v, 'w) la_info \<Rightarrow> ('v, 'w) la_info" where
  "la_count_item final_pageid info =
     (let n = li_total_repl_items info + 1; info1 = info\<lparr>li_total_repl_items := n\<rparr> in
      if final_pageid \<noteq> NULL_PAGEID \<and> n mod LA_MAX_REPL_ITEM_WITHOUT_RELEASE_PB = 0
      then info1\<lparr>li_pb := la_release_all_page_buffers final_pageid (li_pb info1)\<rparr> else info1)"

definition la_apply_item :: "la_config \<Rightarrow> ('v, 'w) la_env \<Rightarrow> log_pageid \<Rightarrow> 'v la_item \<Rightarrow> ('v, 'w) la_info
    \<Rightarrow> (apply_out \<times> int) \<times> ('v, 'w) la_info" where
  "la_apply_item cf en final_pageid item info =
     (let info2 = la_count_item final_pageid info in
      if LSA_GT (it_lsa item) (li_last_committed_rep_lsa info2) \<and> \<not> la_need_filter_out (cf_filter cf) item then
        (case la_before_apply cf en info2 of
           ((stop, err3), info3) \<Rightarrow>
             if stop then ((Out_end err3, 0), info3)
             else (case la_dispatch_item cf en err3 item (li_src info3) of
                     (err4, s4) \<Rightarrow>
                       (case la_after_apply cf en item err4 (set_src s4 info3) of
                          (out, info5) \<Rightarrow> ((out, 1), info5))))
      else ((Out_next NO_ERROR, 0), info2))"

definition set_app :: "nat \<Rightarrow> 'v la_apply \<Rightarrow> ('v, 'w) la_info \<Rightarrow> ('v, 'w) la_info" where
  "set_app i app info = info\<lparr>li_repl := set_apply i app (li_repl info)\<rparr>"

definition get_app :: "nat \<Rightarrow> ('v, 'w) la_info \<Rightarrow> 'v la_apply" where
  "get_app i info = repl_lists (li_repl info) ! i"

text \<open>
  The loop over the items of the list \<open>i\<close>, from \<open>item\<close> on. The result: the
  error, how many items were applied and the item the loop stopped at because
  it lies behind the commit record, if any.
\<close>

partial_function (option) la_apply_loop ::
    "'w la_io \<Rightarrow> la_config \<Rightarrow> ('v, 'w) la_env \<Rightarrow> 'v la_values \<Rightarrow> nat \<Rightarrow> log_lsa \<Rightarrow> log_pageid \<Rightarrow> 'v la_item \<Rightarrow> int
      \<Rightarrow> ('v, 'w) la_info \<Rightarrow> ((errcode \<times> int \<times> 'v la_item option) \<times> ('v, 'w) la_info) option" where
  "la_apply_loop io cf en up i commit_lsa final_pageid item cnt info =
     (case la_apply_item cf en final_pageid item info of
        ((out, k), info1) \<Rightarrow>
          (case out of
             Out_end err \<Rightarrow> Some ((err, cnt + k, None), info1)
           | Out_retry \<Rightarrow> la_apply_loop io cf en up i commit_lsa final_pageid item (cnt + k) info1
           | Out_next err \<Rightarrow>
               (case la_get_next_repl_item io cf up (get_app i info1) item (li_src info1) of
                  None \<Rightarrow> None
                | Some (next_item, s2) \<Rightarrow>
                    (case set_app i (la_free_repl_item (get_app i info1) item) (set_src s2 info1) of
                       info3 \<Rightarrow>
                         (case next_item of
                            None \<Rightarrow> Some ((err, cnt + k, None), info3)
                          | Some it \<Rightarrow>
                              if LSA_GT (it_lsa it) commit_lsa then Some ((err, cnt + k, Some it), info3)
                              else la_apply_loop io cf en up i commit_lsa final_pageid it (cnt + k) info3)))))"

definition la_lock_dbname :: "('v, 'w) la_env \<Rightarrow> ('v, 'w) la_info \<Rightarrow> ('v, 'w) la_info" where
  "la_lock_dbname en info =
     (if li_db_lockf_vdes info \<noteq> NULL_VOLDES then info
      else case en_lock_dbname en (li_w info) of
             (vdes, w) \<Rightarrow> info\<lparr>li_db_lockf_vdes := vdes, li_w := w, li_is_role_changed := False\<rparr>)"

definition la_apply_repl_log ::
    "'w la_io \<Rightarrow> la_config \<Rightarrow> ('v, 'w) la_env \<Rightarrow> 'v la_values \<Rightarrow> tranid \<Rightarrow> int \<Rightarrow> log_lsa \<Rightarrow> log_pageid
      \<Rightarrow> ('v, 'w) la_info \<Rightarrow> (errcode \<times> ('v, 'w) la_info) option" where
  "la_apply_repl_log io cf en up tranid rectype commit_lsa final_pageid info =
     (case la_find_apply_list tranid (li_repl info) of
        None \<Rightarrow> Some (NO_ERROR, info)
      | Some i \<Rightarrow>
          let app = get_app i info in
          if rectype = LOG_ABORT then Some (NO_ERROR, set_app i (la_clear_applied_info app) info)
          else (case ap_items app of
                  [] \<Rightarrow> Some (NO_ERROR, set_app i (if rectype = LOG_COMMIT_TOPOPE then la_free_all_repl_items app
                                                 else la_clear_applied_info app) info)
                | item # _ \<Rightarrow>
                    if LSA_LE commit_lsa (li_last_committed_lsa info)
                    then Some (NO_ERROR, set_app i (if rectype = LOG_COMMIT_TOPOPE then la_free_all_repl_items app
                                                   else la_clear_applied_info app) info)
                    else (case la_apply_loop io cf en up i commit_lsa final_pageid item 0 (la_lock_dbname en info) of
                            None \<Rightarrow> None
                          | Some ((err, cnt, behind), info1) \<Rightarrow>
                              let info2 = info1\<lparr>li_total_rows := li_total_rows info1 + cnt\<rparr>;
                                  app1 = get_app i info2
                              in Some (err, set_app i
                                   (if rectype = LOG_COMMIT_TOPOPE then
                                      (if behind \<noteq> None then la_free_and_add_next_repl_item app1 behind commit_lsa
                                       else la_free_all_repl_items app1)
                                    else la_clear_applied_info app1) info2))))"

section \<open>The commit queue\<close>

definition set_commits :: "la_commit list \<Rightarrow> ('v, 'w) la_info \<Rightarrow> ('v, 'w) la_info" where
  "set_commits cs info = info\<lparr>li_repl := (li_repl info)\<lparr>commits := cs\<rparr>\<rparr>"

definition la_apply_commit_list ::
    "'w la_io \<Rightarrow> la_config \<Rightarrow> ('v, 'w) la_env \<Rightarrow> 'v la_values \<Rightarrow> log_pageid \<Rightarrow> ('v, 'w) la_info
      \<Rightarrow> ((errcode \<times> log_lsa) \<times> ('v, 'w) la_info) option" where
  "la_apply_commit_list io cf en up final_pageid info =
     (case commits (li_repl info) of
        [] \<Rightarrow> Some ((NO_ERROR, LSA_NULL), info)
      | c # _ \<Rightarrow>
          if co_type c = LOG_COMMIT \<or> co_type c = LOG_COMMIT_TOPOPE \<or> co_type c = LOG_ABORT then
            (case la_apply_repl_log io cf en up (co_tranid c) (co_type c) (co_log_lsa c) final_pageid info of
               None \<Rightarrow> None
             | Some (err, info1) \<Rightarrow>
                 let info2 = (if co_type c = LOG_COMMIT
                              then info1\<lparr>li_log_record_time := co_log_record_time c\<rparr> else info1)
                 in Some ((err, co_log_lsa c), set_commits (tl (commits (li_repl info2))) info2))
          else Some ((NO_ERROR, LSA_NULL), info))"

text \<open>
  Applying what is ready at the head of the queue. The result is the error to
  return, or none when the loop ended.
\<close>

abbreviation (input) ER_LK_UNILATERALLY_ABORTED :: errcode where "ER_LK_UNILATERALLY_ABORTED \<equiv> -72"
abbreviation (input) ER_TM_SERVER_DOWN_UNILATERALLY_ABORTED :: errcode where
  "ER_TM_SERVER_DOWN_UNILATERALLY_ABORTED \<equiv> -111"

definition la_commit_stop :: "('v, 'w) la_env \<Rightarrow> errcode \<Rightarrow> ('v, 'w) la_info \<Rightarrow> (errcode option \<times> ('v, 'w) la_info)" where
  "la_commit_stop en err info =
     (if err = ER_NET_CANT_CONNECT_SERVER then
        (if en_errid en (li_w info) = ER_TM_SERVER_DOWN_UNILATERALLY_ABORTED
            \<or> en_errid en (li_w info) = ER_LK_UNILATERALLY_ABORTED
         then (None, info) else (Some err, set_shutdown info))
      else if err = ER_HA_LA_EXCEED_MAX_MEM_SIZE then (Some err, set_shutdown info)
      else if err = ER_LC_PARTIALLY_FAILED_TO_FLUSH \<and> need_shutdown (li_vols info) then (Some err, info)
      else if err = ER_PLUGIN_JVM_FATAL_EXCEPTION \<or> err = ER_PLUGIN_CREATE_OBJECT_FAIL then (Some err, info)
      else (None, info))"

partial_function (option) la_commit_loop ::
    "'w la_io \<Rightarrow> la_config \<Rightarrow> ('v, 'w) la_env \<Rightarrow> 'v la_values \<Rightarrow> int \<Rightarrow> log_pageid \<Rightarrow> ('v, 'w) la_info
      \<Rightarrow> (errcode option \<times> ('v, 'w) la_info) option" where
  "la_commit_loop io cf en up rectype final_pageid info =
     (case la_apply_commit_list io cf en up final_pageid info of
        None \<Rightarrow> None
      | Some ((err, lsa_apply), info1) \<Rightarrow>
          (case la_commit_stop en err info1 of
             (Some e, info2) \<Rightarrow> Some (Some e, info2)
           | (None, info2) \<Rightarrow>
               if LSA_ISNULL lsa_apply then Some (None, info2)
               else la_commit_loop io cf en up rectype final_pageid
                      (info2\<lparr>li_committed_lsa := lsa_apply,
                             li_commit_counter := (if rectype = LOG_COMMIT then li_commit_counter info2 + 1
                                                   else li_commit_counter info2)\<rparr>)))"

section \<open>Processing a record\<close>

text \<open>The state and the time of a \<^verbatim>\<open>LOG_DUMMY_HA_SERVER_STATE\<close> record.\<close>

definition la_get_ha_server_state ::
    "'s page_src \<Rightarrow> nat \<Rightarrow> log_page \<Rightarrow> log_lsa \<Rightarrow> 's \<Rightarrow> ((int \<times> int) option \<times> 's) option" where
  "la_get_ha_server_state get sz pgptr lsa s =
     (case LA_LOG_READ_ADVANCE_WHEN_DOESNT_FIT get sz NO_ERROR 16 (rec_body pgptr lsa) s of
        None \<Rightarrow> None
      | Some ((err, cu), s1) \<Rightarrow>
          Some (if err = NO_ERROR then Some (rd_int 4 0 (cu_bytes cu), rd_int 8 8 (cu_bytes cu)) else None, s1))"

text \<open>The first check: a record that cannot follow what was read.\<close>

definition la_record_corrupt :: "log_record_header \<Rightarrow> log_lsa \<Rightarrow> bool" where
  "la_record_corrupt lrec final \<longleftrightarrow>
     (lr_trid lrec = NULL_TRANID \<or> LSA_GT (lr_prev_tranlsa lrec) final \<or> LSA_GT (lr_back_lsa lrec) final)
     \<and> lr_type lrec \<noteq> LOG_END_OF_LOG \<and> lr_type lrec \<noteq> LOG_DUMMY_FILLPAGE_FORARCHIVE"

text \<open>Entering the transaction of its first record.\<close>

definition la_record_first :: "log_record_header \<Rightarrow> bool" where
  "la_record_first lrec \<longleftrightarrow>
     lr_type lrec \<noteq> LOG_END_OF_LOG \<and> lr_type lrec \<noteq> LOG_DUMMY_HA_SERVER_STATE
     \<and> lr_trid lrec \<noteq> LOG_SYSTEM_TRANID \<and> LSA_ISNULL (lr_prev_tranlsa lrec)"

definition la_record_open :: "('v, 'w) la_env \<Rightarrow> log_record_header \<Rightarrow> ('v, 'w) la_info \<Rightarrow> errcode \<times> ('v, 'w) la_info" where
  "la_record_open en lrec info =
     (if \<not> la_record_first lrec then (NO_ERROR, info)
      else (case la_add_apply_list (en_list_mem en (li_w info)) (lr_trid lrec) (li_repl info) of
              (None, repl) \<Rightarrow>
                (if en_errid en (li_w info) \<noteq> NO_ERROR then en_errid en (li_w info) else ER_FAILED,
                 set_shutdown (info\<lparr>li_repl := repl\<rparr>))
            | (Some i, repl) \<Rightarrow>
                let info1 = info\<lparr>li_repl := repl\<rparr>; app = get_app i info1 in
                (NO_ERROR,
                 if LSA_ISNULL (ap_start_lsa app) then set_app i (app\<lparr>ap_start_lsa := li_final_lsa info\<rparr>) info1
                 else info1)))"

datatype rec_out = Rc_return errcode | Rc_break

definition li_malloc :: "'w la_io \<Rightarrow> ('v, 'w) la_info \<Rightarrow> bool \<times> ('v, 'w) la_info" where
  "li_malloc io info = (case io_malloc io (li_w info) of (ok, w) \<Rightarrow> (ok, info\<lparr>li_w := w\<rparr>))"

text \<open>Queueing a commit or an abort, with the error branch they share.\<close>

definition la_record_queue ::
    "(bool \<Rightarrow> int \<Rightarrow> tranid \<Rightarrow> log_lsa \<Rightarrow> 'v la_repl \<Rightarrow> errcode \<times> 'v la_repl) \<Rightarrow> 'w la_io \<Rightarrow> ('v, 'w) la_env
      \<Rightarrow> log_record_header \<Rightarrow> ('v, 'w) la_info \<Rightarrow> rec_out \<times> ('v, 'w) la_info" where
  "la_record_queue add io en lrec info =
     (case li_malloc io info of
        (ok, info1) \<Rightarrow>
          (case add ok (en_garbage en (li_w info1)) (lr_trid lrec) (li_final_lsa info1) (li_repl info1) of
             (err, repl) \<Rightarrow>
               if err \<noteq> NO_ERROR then (Rc_return err, set_shutdown (info1\<lparr>li_repl := repl\<rparr>))
               else (Rc_break, info1\<lparr>li_repl := repl\<rparr>)))"

text \<open>The case of \<^verbatim>\<open>LOG_COMMIT\<close>, to which \<^verbatim>\<open>LOG_COMMIT_TOPOPE\<close> falls through.\<close>

definition la_record_commit ::
    "'w la_io \<Rightarrow> la_config \<Rightarrow> ('v, 'w) la_env \<Rightarrow> 'v la_values \<Rightarrow> log_record_header \<Rightarrow> log_page \<Rightarrow> ('v, 'w) la_info
      \<Rightarrow> (rec_out \<times> ('v, 'w) la_info) option" where
  "la_record_commit io cf en up lrec pg info =
     (if \<not> LSA_GT (li_final_lsa info) (li_committed_lsa info)
      then Some (Rc_break, info\<lparr>li_repl := la_free_repl_items_by_tranid (lr_trid lrec) (li_repl info)\<rparr>)
      else
        (case (if lr_type lrec = LOG_COMMIT_TOPOPE then Some (0, li_src info)
               else la_retrieve_eot_time (la_page_src io (cf_cache cf)) (cf_area cf) pg (li_final_lsa info) (li_src info)) of
           None \<Rightarrow> None
         | Some (eot_time, s1) \<Rightarrow>
             let info1 = set_src s1 info;
                 info2 = (if cf_enable_plugin cf \<and> eot_time \<noteq> 0
                          then info1\<lparr>li_w := en_plugin_time en eot_time (li_w info1)\<rparr> else info1)
             in (case la_set_commit_log (lr_trid lrec) (lr_type lrec) (li_final_lsa info2) eot_time (li_repl info2) of
                   (count, repl) \<Rightarrow>
                     let info3 = info2\<lparr>li_repl := repl\<rparr> in
                     if count \<le> 0
                     then Some (Rc_break, info3\<lparr>li_repl := la_free_repl_items_by_tranid (lr_trid lrec) repl\<rparr>)
                     else
                       let info4 = (if eot_time \<noteq> 0 then info3\<lparr>li_w := en_delay_replica en eot_time (li_w info3)\<rparr> else info3);
                           info5 = info4\<lparr>li_busy := True\<rparr>
                       in (case la_commit_loop io cf en up (lr_type lrec) (lp_logical_pageid pg) info5 of
                             None \<Rightarrow> None
                           | Some (Some e, info6) \<Rightarrow> Some (Rc_return e, info6)
                           | Some (None, info6) \<Rightarrow> Some (Rc_break, info6)))))"

text \<open>The case of \<^verbatim>\<open>LOG_END_OF_LOG\<close>.\<close>

definition li_page_exist ::
    "'w la_io \<Rightarrow> la_config \<Rightarrow> log_pageid \<Rightarrow> ('v, 'w) la_info \<Rightarrow> (page_exist \<times> ('v, 'w) la_info) option" where
  "li_page_exist io cf pageid info =
     (case la_does_page_exist io (cf_cache cf) pageid (li_pb info) (li_vols info) (li_w info) of
        None \<Rightarrow> None
      | Some ((r, pb), st, w) \<Rightarrow> Some (r, set_src (pb, st, w) info))"

definition skip_page :: "('v, 'w) la_info \<Rightarrow> ('v, 'w) la_info" where
  "skip_page info = info\<lparr>li_final_lsa := LSA (lsa_pageid (li_final_lsa info) + 1) 0\<rparr>"

definition la_record_end_of_log :: "'w la_io \<Rightarrow> la_config \<Rightarrow> ('v, 'w) la_info \<Rightarrow> (rec_out \<times> ('v, 'w) la_info) option" where
  "la_record_end_of_log io cf info =
     (case li_page_exist io cf (lsa_pageid (li_final_lsa info) + 1) info of
        None \<Rightarrow> None
      | Some (r1, info1) \<Rightarrow>
          (case (if r1 \<noteq> LA_PAGE_DOESNOT_EXIST then li_page_exist io cf (lsa_pageid (li_final_lsa info1)) info1
                 else Some (LA_PAGE_DOESNOT_EXIST, info1)) of
             None \<Rightarrow> None
           | Some (r2, info2) \<Rightarrow>
               Some (Rc_return ER_INTERRUPTED,
                     if r1 \<noteq> LA_PAGE_DOESNOT_EXIST \<and> r2 = LA_PAGE_EXST_IN_ARCHIVE_LOG then skip_page info2
                     else info2\<lparr>li_is_end_of_record := True\<rparr>)))"

text \<open>The case of \<^verbatim>\<open>LOG_DUMMY_HA_SERVER_STATE\<close>.\<close>

definition la_record_ha_state ::
    "'w la_io \<Rightarrow> la_config \<Rightarrow> ('v, 'w) la_env \<Rightarrow> log_page \<Rightarrow> ('v, 'w) la_info \<Rightarrow> (rec_out \<times> ('v, 'w) la_info) option" where
  "la_record_ha_state io cf en pg info =
     (case la_get_ha_server_state (la_page_src io (cf_cache cf)) (cf_area cf) pg (li_final_lsa info) (li_src info) of
        None \<Rightarrow> None
      | Some (None, s1) \<Rightarrow> Some (Rc_break, set_src s1 info)
      | Some (Some (state, at_time), s1) \<Rightarrow>
          let info1 = set_src s1 info in
          if state \<noteq> HA_SERVER_STATE_ACTIVE \<and> state \<noteq> HA_SERVER_STATE_TO_BE_STANDBY then
            (if li_db_lockf_vdes info1 \<noteq> NULL_VOLDES
             then Some (Rc_return ER_INTERRUPTED, info1\<lparr>li_is_role_changed := True\<rparr>)
             else Some (Rc_break, info1))
          else if la_is_repl_lists_empty (li_repl info1) then
            (case la_log_commit cf en True (info1\<lparr>li_w := en_update_record_time en at_time (li_w info1)\<rparr>) of
               (err, info2) \<Rightarrow> Some (if err \<noteq> NO_ERROR then Rc_return err else Rc_break, info2))
          else Some (Rc_break, info1))"

text \<open>The switch.\<close>

definition la_record_switch ::
    "'w la_io \<Rightarrow> la_config \<Rightarrow> ('v, 'w) la_env \<Rightarrow> 'v la_values \<Rightarrow> log_record_header \<Rightarrow> log_page \<Rightarrow> ('v, 'w) la_info
      \<Rightarrow> (rec_out \<times> ('v, 'w) la_info) option" where
  "la_record_switch io cf en up lrec pg info =
     (if lr_type lrec = LOG_DUMMY_FILLPAGE_FORARCHIVE then Some (Rc_return ER_INTERRUPTED, skip_page info)
      else if lr_type lrec = LOG_END_OF_LOG then la_record_end_of_log io cf info
      else if lr_type lrec = LOG_REPLICATION_DATA \<or> lr_type lrec = LOG_REPLICATION_SCHEMA then
        (case la_set_repl_log (la_page_src io (cf_cache cf)) (cf_area cf) (src_alloc io) up pg (lr_type lrec)
                (lr_trid lrec) (li_final_lsa info) (li_repl info) (li_src info) of
           None \<Rightarrow> None
         | Some ((err, repl), s1) \<Rightarrow>
             let info1 = (set_src s1 info)\<lparr>li_repl := repl\<rparr> in
             Some (if err \<noteq> NO_ERROR then (Rc_return err, set_shutdown info1) else (Rc_break, info1)))
      else if lr_type lrec = LOG_UNLOCK_COMMIT then Some (la_record_queue la_add_unlock_commit_log io en lrec info)
      else if lr_type lrec = LOG_COMMIT_TOPOPE then
        (case la_record_queue la_add_unlock_commit_log io en lrec info of
           (Rc_return err, info1) \<Rightarrow> Some (Rc_return err, info1)
         | (Rc_break, info1) \<Rightarrow> la_record_commit io cf en up lrec pg info1)
      else if lr_type lrec = LOG_COMMIT then la_record_commit io cf en up lrec pg info
      else if lr_type lrec = LOG_ABORT then Some (la_record_queue la_add_abort_log io en lrec info)
      else if lr_type lrec = LOG_DUMMY_CRASH_RECOVERY
      then Some (Rc_return ER_INTERRUPTED, info\<lparr>li_final_lsa := lr_forw_lsa lrec\<rparr>)
      else if lr_type lrec = LOG_DUMMY_HA_SERVER_STATE then la_record_ha_state io cf en pg info
      else Some (Rc_break, info))"

text \<open>The end of the function: the last record of an archive.\<close>

definition la_record_last :: "log_record_header \<Rightarrow> bool" where
  "la_record_last lrec \<longleftrightarrow> lsa_pageid (lr_forw_lsa lrec) = -1 \<or> lr_type lrec \<le> LOG_SMALLER_LOGREC_TYPE
     \<or> LOG_LARGER_LOGREC_TYPE \<le> lr_type lrec"

definition la_log_record_process ::
    "'w la_io \<Rightarrow> la_config \<Rightarrow> ('v, 'w) la_env \<Rightarrow> 'v la_values \<Rightarrow> log_record_header \<Rightarrow> log_page \<Rightarrow> ('v, 'w) la_info
      \<Rightarrow> (errcode \<times> ('v, 'w) la_info) option" where
  "la_log_record_process io cf en up lrec pg info =
     (if la_record_corrupt lrec (li_final_lsa info) then Some (ER_LOG_PAGE_CORRUPTED, set_shutdown info)
      else case la_record_open en lrec info of
        (err0, info0) \<Rightarrow>
          if err0 \<noteq> NO_ERROR then Some (err0, info0)
          else
            (case la_record_switch io cf en up lrec pg (info0\<lparr>li_is_end_of_record := False\<rparr>) of
               None \<Rightarrow> None
             | Some (Rc_return err, info1) \<Rightarrow> Some (err, info1)
             | Some (Rc_break, info1) \<Rightarrow>
                 if la_record_last lrec then
                   (case li_page_exist io cf (lsa_pageid (li_final_lsa info1)) info1 of
                      None \<Rightarrow> None
                    | Some (r, info2) \<Rightarrow>
                        Some (ER_LOG_PAGE_CORRUPTED, if r = LA_PAGE_EXST_IN_ARCHIVE_LOG then skip_page info2 else info2))
                 else Some (NO_ERROR, info1)))"

section \<open>What applying changes of the transaction table\<close>

lemma li_repl_set_src [simp]: "li_repl (set_src s info) = li_repl info"
  by (simp add: set_src_def split: prod.splits)

lemma li_repl_set_shutdown [simp]: "li_repl (set_shutdown info) = li_repl info"
  by (simp add: set_shutdown_def)

lemma li_repl_la_lock_dbname [simp]: "li_repl (la_lock_dbname en info) = li_repl info"
  by (simp add: la_lock_dbname_def split: prod.splits)

lemma la_before_apply_repl: "la_before_apply cf en info = (err, info') \<Longrightarrow> li_repl info' = li_repl info"
  by (auto simp: la_before_apply_def commit_frame_def split: if_splits prod.splits dest!: la_log_commit_frame(1))

lemma la_after_apply_repl: "la_after_apply cf en item err info = (out, info') \<Longrightarrow> li_repl info' = li_repl info"
  by (auto simp: la_after_apply_def Let_def split: if_splits)

lemma la_count_item_frame [simp]:
  "li_repl (la_count_item fp info) = li_repl info" "li_w (la_count_item fp info) = li_w info"
  "li_last_committed_rep_lsa (la_count_item fp info) = li_last_committed_rep_lsa info"
  "li_last_committed_lsa (la_count_item fp info) = li_last_committed_lsa info"
  by (simp_all add: la_count_item_def Let_def)

lemma la_apply_item_repl:
  "la_apply_item cf en fp item info = ((out, k), info') \<Longrightarrow> li_repl info' = li_repl info"
  by (auto simp: la_apply_item_def Let_def split: if_splits prod.splits
      dest!: la_before_apply_repl la_after_apply_repl)

text \<open>The table before and after a transaction's list was worked on: the other lists and the queue are the same.\<close>

definition only_list :: "nat \<Rightarrow> 'v la_repl \<Rightarrow> 'v la_repl \<Rightarrow> bool" where
  "only_list i r r' \<longleftrightarrow> repl_cnt r' = repl_cnt r \<and> cur_repl r' = cur_repl r \<and> commits r' = commits r \<and>
     length (repl_lists r') = length (repl_lists r) \<and>
     (\<forall>j. j \<noteq> i \<longrightarrow> repl_lists r' ! j = repl_lists r ! j)"

lemma only_list_refl [simp]: "only_list i r r"
  by (simp add: only_list_def)

lemma only_list_trans: "only_list i a b \<Longrightarrow> only_list i b c \<Longrightarrow> only_list i a c"
  by (simp add: only_list_def)

lemma only_list_set_apply: "only_list i r (set_apply i a r)"
  by (simp add: only_list_def set_apply_def)

text \<open>A list keeps its transaction and its well-formedness.\<close>

definition same_tran :: "nat \<Rightarrow> 'v la_repl \<Rightarrow> 'v la_repl \<Rightarrow> bool" where
  "same_tran i r r' \<longleftrightarrow> ap_tranid (repl_lists r' ! i) = ap_tranid (repl_lists r ! i) \<and>
     ap_is_long_trans (repl_lists r' ! i) = ap_is_long_trans (repl_lists r ! i) \<and>
     ap_start_lsa (repl_lists r' ! i) = ap_start_lsa (repl_lists r ! i) \<and>
     ap_last_lsa (repl_lists r' ! i) = ap_last_lsa (repl_lists r ! i)"

lemma la_free_repl_item_ok:
  assumes "apply_ok a"
  shows "apply_ok (la_free_repl_item a x)"
proof (cases "x \<in> set (ap_items a)")
  case True
  have n: "ap_num_items a = int (length (ap_items a))" using assms by (simp add: apply_ok_def)
  have "length (filter (\<lambda>y. y \<noteq> x) (ap_items a)) \<le> length (ap_items a)" by simp
  with assms show ?thesis
    unfolding la_free_repl_item_eq [OF n items_distinct [OF assms] True]
    by (auto simp: apply_ok_def sorted_wrt_filter intro: order_trans [OF length_filter_le])
next
  case False
  with assms show ?thesis by (simp add: la_free_repl_item_def la_unlink_repl_item_def)
qed

lemma la_free_repl_item_keeps [simp]:
  "ap_tranid (la_free_repl_item a x) = ap_tranid a"
  "ap_is_long_trans (la_free_repl_item a x) = ap_is_long_trans a"
  "ap_start_lsa (la_free_repl_item a x) = ap_start_lsa a"
  "ap_last_lsa (la_free_repl_item a x) = ap_last_lsa a"
  by (simp_all add: la_free_repl_item_def la_unlink_repl_item_def)

lemma free_item_inv:
  assumes "repl_inv r" and "i < cur_repl r" and "ap_tranid (repl_lists r ! i) \<noteq> 0"
  shows "repl_inv (set_apply i (la_free_repl_item (repl_lists r ! i) x) r)"
    and "same_tran i r (set_apply i (la_free_repl_item (repl_lists r ! i) x) r)"
proof -
  have ok: "apply_ok (repl_lists r ! i)" and len: "i < length (repl_lists r)" using assms by (auto simp: repl_inv_def)
  show "repl_inv (set_apply i (la_free_repl_item (repl_lists r ! i) x) r)"
  proof (rule set_apply_inv [OF assms(1,2) la_free_repl_item_ok [OF ok]])
    show "ap_tranid (la_free_repl_item (repl_lists r ! i) x) \<noteq> 0 \<longrightarrow>
        (\<forall>j < cur_repl r. j \<noteq> i \<longrightarrow> ap_tranid (repl_lists r ! j) \<noteq> ap_tranid (la_free_repl_item (repl_lists r ! i) x))"
      using repl_inv_uniq [OF assms(1,2,3)] by auto
  qed (use assms(3) in simp)
  show "same_tran i r (set_apply i (la_free_repl_item (repl_lists r ! i) x) r)"
    using len by (simp add: same_tran_def set_apply_def)
qed

lemma same_tran_refl [simp]: "same_tran i r r"
  by (simp add: same_tran_def)

lemma same_tran_trans: "same_tran i a b \<Longrightarrow> same_tran i b c \<Longrightarrow> same_tran i a c"
  by (simp add: same_tran_def)

lemma la_apply_loop_repl:
  assumes "la_apply_loop io cf en up i commit_lsa fp item cnt info = Some (res, info')"
    and "repl_inv (li_repl info)" and "i < cur_repl (li_repl info)" and "ap_tranid (get_app i info) \<noteq> 0"
  shows "repl_inv (li_repl info') \<and> only_list i (li_repl info) (li_repl info') \<and> same_tran i (li_repl info) (li_repl info')"
proof -
  have "repl_inv (li_repl info) \<longrightarrow> i < cur_repl (li_repl info) \<longrightarrow> ap_tranid (get_app i info) \<noteq> 0 \<longrightarrow>
      (\<forall>res info'. r = (res, info') \<longrightarrow>
        repl_inv (li_repl info') \<and> only_list i (li_repl info) (li_repl info') \<and> same_tran i (li_repl info) (li_repl info'))"
    if "la_apply_loop io cf en up i commit_lsa fp item cnt info = Some r" for r
  proof (rule la_apply_loop.raw_induct [OF _ that], goal_cases)
    case (1 f io cf en up i commit_lsa fp item cnt info r)
    show ?case
    proof (intro impI)
      assume inv: "repl_inv (li_repl info)" and i: "i < cur_repl (li_repl info)" and t: "ap_tranid (get_app i info) \<noteq> 0"
      obtain out k info1 where a: "la_apply_item cf en fp item info = ((out, k), info1)" by (metis surj_pair)
      note e1 = la_apply_item_repl [OF a]
      show "\<forall>res info'. r = (res, info') \<longrightarrow>
        repl_inv (li_repl info') \<and> only_list i (li_repl info) (li_repl info') \<and> same_tran i (li_repl info) (li_repl info')"
      proof (cases out)
        case (Out_end err)
        with 1(2) a e1 inv show ?thesis by auto
      next
        case Out_retry
        then have "f io cf en up i commit_lsa fp item (cnt + k) info1 = Some r" using 1(2) a by simp
        from 1(1) [OF this] inv i t e1 show ?thesis by (simp add: get_app_def)
      next
        case (Out_next err)
        obtain nx s2 where n: "la_get_next_repl_item io cf up (get_app i info1) item (li_src info1) = Some (nx, s2)"
          using 1(2) a Out_next by (auto split: option.splits)
        define info3 where "info3 = set_app i (la_free_repl_item (get_app i info1) item) (set_src s2 info1)"
        have e3: "li_repl info3 = set_apply i (la_free_repl_item (repl_lists (li_repl info) ! i) item) (li_repl info)"
          by (simp add: info3_def set_app_def get_app_def e1)
        note F = free_item_inv [OF inv i, of item, folded e3]
        have F3: "repl_inv (li_repl info3)" "same_tran i (li_repl info) (li_repl info3)" "only_list i (li_repl info) (li_repl info3)"
          using F t only_list_set_apply [of i "li_repl info"] by (simp_all add: get_app_def e3)
        have step: "(case nx of None \<Rightarrow> Some ((err, cnt + k, None), info3)
           | Some it \<Rightarrow> if LSA_GT (it_lsa it) commit_lsa then Some ((err, cnt + k, Some it), info3)
               else f io cf en up i commit_lsa fp it (cnt + k) info3) = Some r"
          using 1(2) a Out_next n unfolding info3_def by simp
        show ?thesis
        proof (cases "\<exists>it. nx = Some it \<and> \<not> LSA_GT (it_lsa it) commit_lsa")
          case True
          then obtain it where "f io cf en up i commit_lsa fp it (cnt + k) info3 = Some r" using step by auto
          moreover have "i < cur_repl (li_repl info3)" and "ap_tranid (get_app i info3) \<noteq> 0"
            using F3 i t by (simp_all add: only_list_def same_tran_def get_app_def)
          ultimately have "\<forall>res info'. r = (res, info') \<longrightarrow>
              repl_inv (li_repl info') \<and> only_list i (li_repl info3) (li_repl info') \<and> same_tran i (li_repl info3) (li_repl info')"
            using 1(1) F3(1) by blast
          with F3 show ?thesis using only_list_trans same_tran_trans by blast
        next
          case False
          with step F3 show ?thesis by (auto split: option.splits if_splits)
        qed
      qed
    qed
  qed
  with assms show ?thesis by blast
qed

lemma la_free_all_repl_items_eq:
  "la_free_all_repl_items a = a\<lparr>ap_num_items := 0, ap_is_long_trans := False, ap_items := []\<rparr>"
proof -
  have fold: "ap_tranid (fold (\<lambda>x b. la_free_repl_item b x) xs a) = ap_tranid a"
    "ap_start_lsa (fold (\<lambda>x b. la_free_repl_item b x) xs a) = ap_start_lsa a"
    "ap_last_lsa (fold (\<lambda>x b. la_free_repl_item b x) xs a) = ap_last_lsa a" for xs and a :: "'a la_apply"
    by (induction xs arbitrary: a) simp_all
  show ?thesis
    unfolding la_free_all_repl_items_def la_free_all_repl_items_except_head_def Let_def
    by (rule la_apply.equality) (simp_all add: fold split: list.splits)
qed

lemma la_free_and_add_next_ok:
  assumes "apply_ok a"
  shows "apply_ok (la_free_and_add_next_repl_item a nx commit_lsa)"
    and "ap_tranid (la_free_and_add_next_repl_item a nx commit_lsa) = ap_tranid a"
proof -
  have n: "ap_num_items a = int (length (ap_items a))" using assms by (simp add: apply_ok_def)
  have d: "distinct (takeWhile P (ap_items a))" "set (takeWhile P (ap_items a)) \<subseteq> set (ap_items a)" for P
    using items_distinct [OF assms] by (auto dest: set_takeWhileD)
  note F = fold_free_items [OF n items_distinct [OF assms] d]
  show "apply_ok (la_free_and_add_next_repl_item a nx commit_lsa)"
    using assms unfolding la_free_and_add_next_repl_item_def F
    by (auto simp: apply_ok_def la_add_repl_item_def sorted_wrt_filter split: option.splits
        intro: order_trans [OF length_filter_le])
  show "ap_tranid (la_free_and_add_next_repl_item a nx commit_lsa) = ap_tranid a"
    unfolding la_free_and_add_next_repl_item_def F by (auto simp: la_add_repl_item_def split: option.splits)
qed

text \<open>Replacing the list of a transaction by a well-formed one of the same transaction, or by an empty one.\<close>

lemma set_apply_tran:
  assumes "repl_inv r" and "i < cur_repl r" and "ap_tranid (repl_lists r ! i) = t" and "t \<noteq> 0"
    and "apply_ok a \<and> ap_tranid a = t \<or> a = empty_apply"
  shows "repl_inv (set_apply i a r)" and "tran_of (set_apply i a r) = (tran_of r)(t := if ap_tranid a = t then Some a else None)"
proof -
  have uniq: "\<forall>j < cur_repl r. j \<noteq> i \<longrightarrow> ap_tranid (repl_lists r ! j) \<noteq> t"
    using repl_inv_uniq [OF assms(1,2)] assms(3,4) by auto
  show inv': "repl_inv (set_apply i a r)"
    by (rule set_apply_inv [OF assms(1,2)]) (use assms(4,5) uniq in \<open>auto simp: empty_apply_def apply_ok_def\<close>)
  show "tran_of (set_apply i a r) = (tran_of r)(t := if ap_tranid a = t then Some a else None)"
    using set_apply_tran_of [OF assms(1,2) inv', of t] assms(3-5) uniq by (auto simp: empty_apply_def)
qed

lemma only_list_tran_of:
  assumes "repl_inv r" and "repl_inv r'" and "only_list i r r'" and "i < cur_repl r"
    and "ap_tranid (repl_lists r ! i) = t" and "ap_tranid (repl_lists r' ! i) = t" and "u \<noteq> t"
  shows "tran_of r' u = tran_of r u"
proof -
  have "tran_of r' u = Some b \<longleftrightarrow> tran_of r u = Some b" for b
    unfolding tran_of_iff [OF assms(1)] tran_of_iff [OF assms(2)]
    using assms(3-7) by (auto simp: only_list_def) metis+
  then show ?thesis by (metis option.exhaust)
qed

text \<open>
  Applying one entry of the queue: the table stays well-formed, no other
  transaction is touched, and the transaction itself is closed unless the entry
  is a partial commit.
\<close>

lemma la_apply_repl_log_repl:
  assumes "la_apply_repl_log io cf en up t ty commit_lsa fp info = Some (err, info')"
    and "repl_inv (li_repl info)" and "t \<noteq> 0"
  shows "repl_inv (li_repl info')" and "commits (li_repl info') = commits (li_repl info)"
    and "u \<noteq> t \<Longrightarrow> tran_of (li_repl info') u = tran_of (li_repl info) u"
    and "ty \<noteq> LOG_COMMIT_TOPOPE \<Longrightarrow> tran_of (li_repl info') t = None"
proof -
  let ?r = "li_repl info" and ?r' = "li_repl info'"
  have "repl_inv ?r' \<and> commits ?r' = commits ?r \<and> (u \<noteq> t \<longrightarrow> tran_of ?r' u = tran_of ?r u) \<and>
      (ty \<noteq> LOG_COMMIT_TOPOPE \<longrightarrow> tran_of ?r' t = None)"
  proof (cases "la_find_apply_list t ?r")
    case None
    then have "tran_of ?r t = None" by (simp add: tran_of_def)
    with None assms show ?thesis by (simp add: la_apply_repl_log_def)
  next
    case (Some i)
    then have i: "i < cur_repl ?r" "ap_tranid (repl_lists ?r ! i) = t"
      using la_find_apply_list_iff(2) [OF assms(2,3)] by simp_all
    have ok: "apply_ok (repl_lists ?r ! i)" using assms(2) i(1) by (simp add: repl_inv_def)
    have finish: ?thesis
      if "info' = set_app i a inf" and inf: "repl_inv (li_repl inf)" "only_list i ?r (li_repl inf)" "same_tran i ?r (li_repl inf)"
      and a: "apply_ok a \<and> ap_tranid a = t \<and> ty = LOG_COMMIT_TOPOPE \<or> a = empty_apply" for a and inf :: "('a, 'b) la_info"
    proof -
      have i': "i < cur_repl (li_repl inf)" "ap_tranid (repl_lists (li_repl inf) ! i) = t"
        using inf i by (simp_all add: only_list_def same_tran_def)
      have S: "repl_inv (set_apply i a (li_repl inf))"
        "tran_of (set_apply i a (li_repl inf)) = (tran_of (li_repl inf))(t := if ap_tranid a = t then Some a else None)"
        using set_apply_tran [OF inf(1) i' assms(3), of a] a by auto
      have "u \<noteq> t \<Longrightarrow> tran_of (li_repl inf) u = tran_of ?r u"
        using only_list_tran_of [OF assms(2) inf(1,2) i i'(2)] .
      moreover have "commits (set_apply i a (li_repl inf)) = commits ?r" using inf(2) by (simp add: only_list_def set_apply_def)
      moreover have "ty \<noteq> LOG_COMMIT_TOPOPE \<Longrightarrow> ap_tranid a \<noteq> t" using a assms(3) by (auto simp: empty_apply_def)
      ultimately show ?thesis using S that(1) by (simp add: set_app_def)
    qed
    have fa: "apply_ok (la_free_all_repl_items b) \<and> ap_tranid (la_free_all_repl_items b) = t" if "ap_tranid b = t"
      for b :: "'a la_apply" using that by (simp add: la_free_all_repl_items_eq apply_ok_def)
    show ?thesis
    proof (cases "ty = LOG_ABORT \<or> ap_items (get_app i info) = [] \<or> LSA_LE commit_lsa (li_last_committed_lsa info)")
      case True
      then have "info' = set_app i (if ty = LOG_COMMIT_TOPOPE then la_free_all_repl_items (get_app i info) else empty_apply) info"
        using assms(1) Some by (auto simp: la_apply_repl_log_def Let_def la_clear_applied_info_eq split: list.splits if_splits)
      then show ?thesis by (rule finish) (use assms(2) fa i(2) in \<open>auto simp: get_app_def\<close>)
    next
      case False
      then obtain item its where it: "ap_items (get_app i info) = item # its" by (meson neq_Nil_conv)
      obtain err1 cnt behind info1 where l: "la_apply_loop io cf en up i commit_lsa fp item 0 (la_lock_dbname en info) = Some ((err1, cnt, behind), info1)"
        using assms(1) Some False it by (auto simp: la_apply_repl_log_def Let_def split: option.splits)
      define inf where "inf = info1\<lparr>li_total_rows := li_total_rows info1 + cnt\<rparr>"
      have L: "repl_inv (li_repl inf) \<and> only_list i ?r (li_repl inf) \<and> same_tran i ?r (li_repl inf)"
        using la_apply_loop_repl [OF l] assms(2,3) i by (simp add: inf_def get_app_def)
      then have tr: "ap_tranid (get_app i inf) = t" "apply_ok (get_app i inf)"
        using i by (auto simp: get_app_def same_tran_def only_list_def repl_inv_def)
      have "info' = set_app i (if ty = LOG_COMMIT_TOPOPE
          then (if behind \<noteq> None then la_free_and_add_next_repl_item (get_app i inf) behind commit_lsa
                else la_free_all_repl_items (get_app i inf)) else empty_apply) inf"
        using assms(1) Some False it l by (auto simp: la_apply_repl_log_def Let_def la_clear_applied_info_eq inf_def)
      then show ?thesis
        by (rule finish) (use L fa [OF tr(1)] la_free_and_add_next_ok [OF tr(2)] tr(1) in auto)
    qed
  qed
  then show "repl_inv ?r'" and "commits ?r' = commits ?r" and "u \<noteq> t \<Longrightarrow> tran_of ?r' u = tran_of ?r u"
    and "ty \<noteq> LOG_COMMIT_TOPOPE \<Longrightarrow> tran_of ?r' t = None" by blast+
qed

text \<open>The system transaction has no list: an entry of it changes nothing.\<close>

lemma empty_apply_simps [simp]:
  "ap_items empty_apply = []" "la_free_all_repl_items empty_apply = empty_apply"
  "la_clear_applied_info a = empty_apply"
  by (simp_all add: la_clear_applied_info_eq la_free_all_repl_items_eq) (simp_all add: empty_apply_def)

lemma la_apply_repl_log_system:
  assumes "la_apply_repl_log io cf en up 0 ty commit_lsa fp info = Some (err, info')" and "repl_inv (li_repl info)"
  shows "li_repl info' = li_repl info"
proof (cases "la_find_apply_list 0 (li_repl info)")
  case None
  with assms show ?thesis by (simp add: la_apply_repl_log_def)
next
  case (Some i)
  then have i: "i < cur_repl (li_repl info)" "ap_tranid (repl_lists (li_repl info) ! i) = 0"
    using la_find_apply_list_iff(1) [OF assms(2)] by simp_all
  then have e: "repl_lists (li_repl info) ! i = empty_apply" using assms(2) by (simp add: repl_inv_def)
  have "li_repl info' = set_apply i empty_apply (li_repl info)"
    using assms(1) Some e by (auto simp: la_apply_repl_log_def get_app_def set_app_def split: if_splits)
  also have "\<dots> = li_repl info" unfolding e [symmetric] set_apply_def by simp
  finally show ?thesis .
qed

definition co_ready :: "la_commit \<Rightarrow> bool" where
  "co_ready c \<longleftrightarrow> co_type c = LOG_COMMIT \<or> co_type c = LOG_COMMIT_TOPOPE \<or> co_type c = LOG_ABORT"

lemma la_apply_commit_list_repl:
  assumes "la_apply_commit_list io cf en up fp info = Some ((err, lsa), info')" and "repl_inv (li_repl info)"
  shows "repl_inv (li_repl info') \<and>
    (case commits (li_repl info) of
       [] \<Rightarrow> lsa = LSA_NULL \<and> li_repl info' = li_repl info
     | c # cs \<Rightarrow>
         if co_ready c then lsa = co_log_lsa c \<and> commits (li_repl info') = cs \<and>
           (\<forall>u. u \<noteq> co_tranid c \<or> u = 0 \<longrightarrow> tran_of (li_repl info') u = tran_of (li_repl info) u) \<and>
           (co_type c \<noteq> LOG_COMMIT_TOPOPE \<longrightarrow> tran_of (li_repl info') (co_tranid c) = None)
         else lsa = LSA_NULL \<and> li_repl info' = li_repl info)"
proof (cases "commits (li_repl info)")
  case Nil
  with assms show ?thesis by (simp add: la_apply_commit_list_def)
next
  case (Cons c cs)
  show ?thesis
  proof (cases "co_ready c")
    case False
    with Cons assms show ?thesis by (auto simp: la_apply_commit_list_def co_ready_def)
  next
    case True
    obtain info1 where a: "la_apply_repl_log io cf en up (co_tranid c) (co_type c) (co_log_lsa c) fp info = Some (err, info1)"
      and lsa: "lsa = co_log_lsa c" and r': "li_repl info' = (li_repl info1)\<lparr>commits := tl (commits (li_repl info1))\<rparr>"
      using assms(1) Cons True
      by (auto simp: la_apply_commit_list_def co_ready_def Let_def set_commits_def split: option.splits if_splits)
    have "repl_inv (li_repl info1) \<and> commits (li_repl info1) = c # cs \<and>
        (\<forall>u. u \<noteq> co_tranid c \<or> u = 0 \<longrightarrow> tran_of (li_repl info1) u = tran_of (li_repl info) u) \<and>
        (co_type c \<noteq> LOG_COMMIT_TOPOPE \<longrightarrow> tran_of (li_repl info1) (co_tranid c) = None)"
    proof (cases "co_tranid c = 0")
      case True
      with la_apply_repl_log_system [of io cf en up _ _ fp info err info1] a assms(2) Cons show ?thesis
        by (auto simp: tran_of_def)
    next
      case False
      with la_apply_repl_log_repl [OF a assms(2)] Cons show ?thesis by (auto simp: tran_of_def)
    qed
    with Cons True lsa r' show ?thesis by simp
  qed
qed

text \<open>
  The loop over the queue takes exactly the entries that are ready at its head,
  in order, and remembers the last of them.
\<close>

lemma la_commit_stop_frame:
  "la_commit_stop en err info = (x, info') \<Longrightarrow> li_repl info' = li_repl info \<and> li_committed_lsa info' = li_committed_lsa info"
  by (auto simp: la_commit_stop_def set_shutdown_def split: if_splits)

lemma la_commit_loop_result:
  assumes "la_commit_loop io cf en up ty fp info = Some (None, info')" and "repl_inv (li_repl info)"
    and "\<forall>c \<in> set (commits (li_repl info)). \<not> LSA_ISNULL (co_log_lsa c)"
  shows "repl_inv (li_repl info') \<and> commits (li_repl info') = dropWhile co_ready (commits (li_repl info)) \<and>
    (\<forall>u. u \<notin> co_tranid ` set (takeWhile co_ready (commits (li_repl info))) \<longrightarrow>
       tran_of (li_repl info') u = tran_of (li_repl info) u)"
proof -
  let ?Q = "\<lambda>info info'. repl_inv (li_repl info') \<and> commits (li_repl info') = dropWhile co_ready (commits (li_repl info)) \<and>
    (\<forall>u. u \<notin> co_tranid ` set (takeWhile co_ready (commits (li_repl info))) \<longrightarrow>
       tran_of (li_repl info') u = tran_of (li_repl info) u)"
  have "repl_inv (li_repl info) \<longrightarrow> (\<forall>c \<in> set (commits (li_repl info)). \<not> LSA_ISNULL (co_log_lsa c)) \<longrightarrow>
      (\<forall>info'. r = (None, info') \<longrightarrow> ?Q info info')"
    if "la_commit_loop io cf en up ty fp info = Some r" for r
  proof (rule la_commit_loop.raw_induct [OF _ that], goal_cases)
    case (1 f io cf en up ty fp info r)
    show ?case
    proof (intro impI allI)
      fix info' assume inv: "repl_inv (li_repl info)" and nn: "\<forall>c \<in> set (commits (li_repl info)). \<not> LSA_ISNULL (co_log_lsa c)"
        and r: "r = (None, info')"
      obtain err lsa info1 where a: "la_apply_commit_list io cf en up fp info = Some ((err, lsa), info1)"
        using 1(2) by (auto split: option.splits)
      note A = la_apply_commit_list_repl [OF a inv]
      obtain info2 where st: "la_commit_stop en err info1 = (None, info2)"
        using 1(2) a r by (auto split: prod.splits option.splits)
      note S = la_commit_stop_frame [OF st]
      define info3 where "info3 = info2\<lparr>li_committed_lsa := lsa,
         li_commit_counter := (if ty = LOG_COMMIT then li_commit_counter info2 + 1 else li_commit_counter info2)\<rparr>"
      have step: "(if LSA_ISNULL lsa then Some (None, info2) else f io cf en up ty fp info3) = Some r"
        using 1(2) a st unfolding info3_def by simp
      show "?Q info info'"
      proof (cases "\<exists>c cs. commits (li_repl info) = c # cs \<and> co_ready c")
        case True
        then obtain c cs where c: "commits (li_repl info) = c # cs" "co_ready c" by blast
        then have l: "\<not> LSA_ISNULL lsa" "commits (li_repl info3) = cs" "repl_inv (li_repl info3)"
          and o: "\<forall>u. u \<noteq> co_tranid c \<longrightarrow> tran_of (li_repl info3) u = tran_of (li_repl info) u"
          using A nn S by (simp_all add: info3_def)
        from step l(1) have "f io cf en up ty fp info3 = Some r" by simp
        from 1(1) [OF this] l nn c r have "?Q info3 info'" by simp
        with c l o show ?thesis by auto
      next
        case False
        then have "LSA_ISNULL lsa" "li_repl info1 = li_repl info"
          using A by (auto split: list.splits if_splits)
        with step S r have "li_repl info' = li_repl info" by simp
        moreover have "takeWhile co_ready (commits (li_repl info)) = []" "dropWhile co_ready (commits (li_repl info)) = commits (li_repl info)"
          using False by (cases "commits (li_repl info)"; simp)+
        ultimately show ?thesis using inv by simp
      qed
    qed
  qed
  with assms show ?thesis by blast
qed

lemma set_src_li_src [simp]: "set_src (li_src info) info = info"
  by (simp add: set_src_def li_src_def)

lemma set_app_simps [simp]:
  "li_w (set_app i a info) = li_w info"
  "li_last_committed_rep_lsa (set_app i a info) = li_last_committed_rep_lsa info"
  "li_last_committed_lsa (set_app i a info) = li_last_committed_lsa info"
  "i < length (repl_lists (li_repl info)) \<Longrightarrow> get_app i (set_app i a info) = a"
  by (simp_all add: set_app_def get_app_def set_apply_def)

lemma empty_apply_short [simp]: "\<not> ap_is_long_trans empty_apply"
  by (simp add: empty_apply_def)

end
