(* ===== verification/La_Apply.thy ===== *)
theory La_Apply
  imports La_Record
begin

text \<open>
  What reaches the slave (\<^verbatim>\<open>transaction/log_applier.c\<close>): a sequential
  specification of the commit queue and the proof that \<^verbatim>\<open>la_apply_repl_log\<close> and
  the loop over the queue implement it, with a slave database that takes every
  item. Where the items of a transaction come from, its list or the log, is
  behind the locale \<open>item_reader\<close>; here it is interpreted on the lists, in
  \<^theory_text>\<open>La_Long\<close> on the log as well.
\<close>

section \<open>The items that reach the slave\<close>

text \<open>
  A slave database that takes every item: \<open>tr\<close> reads off the world the items
  applied so far. Each of the functions that apply an item appends it, and the
  other calls of the environment succeed and leave the items alone.
\<close>

definition takes :: "('w \<Rightarrow> 'v la_item list) \<Rightarrow> ('v la_item \<Rightarrow> 'w la_src \<Rightarrow> errcode \<times> 'w la_src) \<Rightarrow> bool" where
  "takes tr f \<longleftrightarrow> (\<forall>item pb st w. \<exists>pb' st' w'. f item (pb, st, w) = (NO_ERROR, pb', st', w') \<and> tr w' = tr w @ [item])"

definition slave_takes :: "('v, 'w) la_env \<Rightarrow> ('w \<Rightarrow> 'v la_item list) \<Rightarrow> bool" where
  "slave_takes en tr \<longleftrightarrow>
     takes tr (en_apply_update en) \<and> takes tr (en_apply_update_server_side en) \<and> takes tr (en_apply_insert en) \<and>
     takes tr (en_apply_delete en) \<and> takes tr (en_apply_schema en) \<and>
     (\<forall>w. tr (snd (en_time en w)) = tr w) \<and>
     (\<forall>w. fst (fst (en_flush en w)) = NO_ERROR \<and> tr (snd (en_flush en w)) = tr w) \<and>
     (\<forall>a w. fst (en_update_applied en a w) = NO_ERROR \<and> tr (snd (en_update_applied en a w)) = tr w) \<and>
     (\<forall>w. fst (en_commit_transaction en w) = NO_ERROR \<and> tr (snd (en_commit_transaction en w)) = tr w) \<and>
     (\<forall>w. fst (en_mem_size en w) = NO_ERROR \<and> tr (snd (en_mem_size en w)) = tr w) \<and>
     (\<forall>w. tr (snd (en_lock_dbname en w)) = tr w) \<and>
     (\<forall>l w. tr (en_plugin_commit en l w) = tr w) \<and> (\<forall>w. tr (en_plugin_item en w) = tr w)"

text \<open>The items that are applied: of a known type, not applied before the restart, not filtered out.\<close>

definition item_known :: "'v la_item \<Rightarrow> bool" where
  "item_known item \<longleftrightarrow> it_log_type item = LOG_REPLICATION_SCHEMA \<or>
     it_log_type item = LOG_REPLICATION_DATA \<and> it_item_type item \<in> {RVREPL_DATA_UPDATE_START, RVREPL_DATA_UPDATE_END,
       RVREPL_DATA_UPDATE, RVREPL_DATA_INSERT, RVREPL_DATA_DELETE}"

definition item_wanted :: "la_config \<Rightarrow> log_lsa \<Rightarrow> 'v la_item \<Rightarrow> bool" where
  "item_wanted cf done_lsa item \<longleftrightarrow> item_known item \<and> done_lsa < it_lsa item \<and> \<not> la_need_filter_out (cf_filter cf) item"

lemma slave_takesD:
  assumes "slave_takes en tr"
  shows "en_time en w = (t, w1) \<Longrightarrow> tr w1 = tr w"
    and "en_flush en w = ((err, shut, fails), w1) \<Longrightarrow> err = NO_ERROR \<and> tr w1 = tr w"
    and "en_update_applied en a w = (err, w1) \<Longrightarrow> err = NO_ERROR \<and> tr w1 = tr w"
    and "en_commit_transaction en w = (err, w1) \<Longrightarrow> err = NO_ERROR \<and> tr w1 = tr w"
    and "en_mem_size en w = (err, w1) \<Longrightarrow> err = NO_ERROR \<and> tr w1 = tr w"
    and "en_lock_dbname en w = (v, w1) \<Longrightarrow> tr w1 = tr w"
    and "tr (en_plugin_commit en l w) = tr w" and "tr (en_plugin_item en w) = tr w"
proof -
  have T: "\<forall>w. tr (snd (en_time en w)) = tr w"
    "\<forall>w. fst (fst (en_flush en w)) = NO_ERROR \<and> tr (snd (en_flush en w)) = tr w"
    "\<forall>a w. fst (en_update_applied en a w) = NO_ERROR \<and> tr (snd (en_update_applied en a w)) = tr w"
    "\<forall>w. fst (en_commit_transaction en w) = NO_ERROR \<and> tr (snd (en_commit_transaction en w)) = tr w"
    "\<forall>w. fst (en_mem_size en w) = NO_ERROR \<and> tr (snd (en_mem_size en w)) = tr w"
    "\<forall>w. tr (snd (en_lock_dbname en w)) = tr w"
    using assms unfolding slave_takes_def by blast+
  show "en_time en w = (t, w1) \<Longrightarrow> tr w1 = tr w" using T(1) [rule_format, of w] by simp
  show "en_flush en w = ((err, shut, fails), w1) \<Longrightarrow> err = NO_ERROR \<and> tr w1 = tr w" using T(2) [rule_format, of w] by simp
  show "en_update_applied en a w = (err, w1) \<Longrightarrow> err = NO_ERROR \<and> tr w1 = tr w" using T(3) [rule_format, of a w] by simp
  show "en_commit_transaction en w = (err, w1) \<Longrightarrow> err = NO_ERROR \<and> tr w1 = tr w" using T(4) [rule_format, of w] by simp
  show "en_mem_size en w = (err, w1) \<Longrightarrow> err = NO_ERROR \<and> tr w1 = tr w"
    using T(5) [rule_format, of w] by simp
  show "en_lock_dbname en w = (v, w1) \<Longrightarrow> tr w1 = tr w" using T(6) [rule_format, of w] by simp
  show "tr (en_plugin_commit en l w) = tr w" and "tr (en_plugin_item en w) = tr w"
    using assms unfolding slave_takes_def by blast+
qed

lemma la_log_commit_takes:
  assumes "slave_takes en tr" and "la_log_commit cf en upd info = (err, info')"
  shows "err = NO_ERROR \<and> tr (li_w info') = tr (li_w info)"
proof -
  note D = slave_takesD [OF assms(1)]
  define info1 where "info1 = la_commit_prepare en upd info"
  have p: "tr (li_w info1) = tr (li_w info)"
    using D(1) by (auto simp: info1_def la_commit_prepare_def Let_def split: prod.splits)
  obtain e2 sh fa w2 where f: "en_flush en (li_w info1) = ((e2, sh, fa), w2)" by (metis surj_pair)
  then have e2: "e2 = NO_ERROR" "tr w2 = tr (li_w info1)" using D(2) by blast+
  define info2 where "info2 = (if sh then set_shutdown else id) (info1\<lparr>li_w := w2, li_fail_counter := li_fail_counter info1 + fa\<rparr>)"
  have w2: "li_w info2 = w2" by (simp add: info2_def set_shutdown_def)
  obtain e3 w3 where u: "en_update_applied en (applied_info info2) w2 = (e3, w3)" by force
  then have e3: "e3 = NO_ERROR" "tr w3 = tr w2" using D(3) by blast+
  define w4 where "w4 = (if cf_enable_plugin cf then en_plugin_commit en (li_required_lsa info2) w3 else w3)"
  have w4: "tr w4 = tr w3" using D(7) by (simp add: w4_def)
  obtain e5 w5 where c: "en_commit_transaction en w4 = (e5, w5)" by force
  then have e5: "e5 = NO_ERROR" "tr w5 = tr w4" using D(4) by blast+
  have "la_commit_flush en info1 = (NO_ERROR, info2)" using f e2 by (simp add: la_commit_flush_def info2_def)
  moreover have "la_commit_apply_info cf en info2 = (e5, info2\<lparr>li_w := w5\<rparr>)"
    using u e3 c w2 unfolding la_commit_apply_info_def w4_def by (simp add: Let_def)
  ultimately have "err = e5 \<and> info' = info2\<lparr>li_w := w5\<rparr>"
    using assms(2) by (simp add: la_log_commit_def info1_def [symmetric])
  with p e2 e3 w4 e5 show ?thesis by simp
qed

lemma la_before_apply_takes:
  assumes "slave_takes en tr" and "la_before_apply cf en info = ((stop, err), info')"
  shows "\<not> stop \<and> err = NO_ERROR \<and> tr (li_w info') = tr (li_w info) \<and>
    li_last_committed_rep_lsa info' = li_last_committed_rep_lsa info \<and> li_last_committed_lsa info' = li_last_committed_lsa info"
proof (cases "li_total_repl_items info mod 1000 = 0")
  case False
  with assms(2) show ?thesis by (simp add: la_before_apply_def)
next
  case True
  obtain e1 info1 where c: "la_log_commit cf en True info = (e1, info1)" by force
  note C = la_log_commit_takes [OF assms(1) c] la_log_commit_frame(1) [OF c]
  obtain e2 w2 where m: "en_mem_size en (li_w info1) = (e2, w2)" by force
  from slave_takesD(5) [OF assms(1) m] True assms(2) c C m show ?thesis
    by (auto simp: la_before_apply_def commit_frame_def)
qed

lemma la_dispatch_item_takes:
  assumes "slave_takes en tr"
  shows "\<exists>pb' st' w'. la_dispatch_item cf en NO_ERROR item (pb, st, w) = (NO_ERROR, pb', st', w') \<and>
    tr w' = tr w @ (if item_known item then [item] else [])"
  using assms by (auto simp: la_dispatch_item_def item_known_def slave_takes_def takes_def)

lemma la_apply_item_takes:
  assumes "slave_takes en tr"
  shows "\<exists>k info'. la_apply_item cf en fp item info = ((Out_next NO_ERROR, k), info') \<and>
    tr (li_w info') = tr (li_w info) @ (if item_wanted cf (li_last_committed_rep_lsa info) item then [item] else []) \<and>
    li_last_committed_rep_lsa info' = li_last_committed_rep_lsa info \<and>
    li_last_committed_lsa info' = li_last_committed_lsa info"
proof -
  define info2 where "info2 = la_count_item fp info"
  have i2: "li_w info2 = li_w info" "li_last_committed_rep_lsa info2 = li_last_committed_rep_lsa info"
    "li_last_committed_lsa info2 = li_last_committed_lsa info" by (simp_all add: info2_def)
  show ?thesis
  proof (cases "it_lsa item > li_last_committed_rep_lsa info \<and> \<not> la_need_filter_out (cf_filter cf) item")
    case False
    then have "la_apply_item cf en fp item info = ((Out_next NO_ERROR, 0), info2)"
      by (auto simp: la_apply_item_def Let_def info2_def lsa_simps)
    with False i2 show ?thesis by (auto simp: item_wanted_def)
  next
    case True
    obtain stop err3 info3 where b: "la_before_apply cf en info2 = ((stop, err3), info3)" by (metis surj_pair)
    have b': "\<not> stop \<and> err3 = NO_ERROR \<and> tr (li_w info3) = tr (li_w info2) \<and>
        li_last_committed_rep_lsa info3 = li_last_committed_rep_lsa info2 \<and> li_last_committed_lsa info3 = li_last_committed_lsa info2"
      using la_before_apply_takes [OF assms b] .
    obtain pb4 st4 w4 where d: "la_dispatch_item cf en NO_ERROR item (li_src info3) = (NO_ERROR, pb4, st4, w4)"
      "tr w4 = tr (li_w info3) @ (if item_known item then [item] else [])"
      using la_dispatch_item_takes [OF assms, of cf item "li_pb info3" "li_vols info3" "li_w info3"] by (auto simp: li_src_def)
    define info5 where "info5 = (let j = (set_src (pb4, st4, w4) info3)\<lparr>li_committed_rep_lsa := it_lsa item\<rparr> in
       if cf_enable_plugin cf then j\<lparr>li_w := en_plugin_item en (li_w j)\<rparr> else j)"
    have "la_apply_item cf en fp item info = ((Out_next NO_ERROR, 1), info5)"
      using True b b' d i2 by (simp add: la_apply_item_def Let_def info2_def [symmetric] lsa_simps la_after_apply_def info5_def)
    moreover have "tr (li_w info5) = tr w4" using assms by (simp add: info5_def Let_def set_src_def slave_takes_def)
    moreover have "li_last_committed_rep_lsa info5 = li_last_committed_rep_lsa info3 \<and>
        li_last_committed_lsa info5 = li_last_committed_lsa info3" by (simp add: info5_def Let_def set_src_def)
    ultimately show ?thesis using True b' d i2 by (simp add: item_wanted_def)
  qed
qed

section \<open>Reading the items of a transaction\<close>

text \<open>
  What the slave and the other calls leave of the log: the state \<open>ok\<close> of the
  page cache, the volumes and the world, in which the log can be read, is kept
  by applying an item and by releasing buffers, and the world and the flag that
  demands a shutdown have no part in it.
\<close>

definition src_kept :: "('w la_src \<Rightarrow> bool) \<Rightarrow> ('v, 'w) la_env \<Rightarrow> bool" where
  "src_kept ok en \<longleftrightarrow>
     (\<forall>pb st w. ok (pb, st, w) \<longrightarrow> (\<forall>w'. ok (pb, st, w')) \<and> ok (pb, st\<lparr>need_shutdown := True\<rparr>, w) \<and>
        (\<forall>p. ok (la_release_all_page_buffers p pb, st, w))) \<and>
     (\<forall>item s. ok s \<longrightarrow> ok (snd (en_apply_update en item s)) \<and> ok (snd (en_apply_update_server_side en item s)) \<and>
        ok (snd (en_apply_insert en item s)) \<and> ok (snd (en_apply_delete en item s)) \<and> ok (snd (en_apply_schema en item s)))"

lemma src_keptD:
  assumes "src_kept ok en"
  shows "ok (pb, st, w) \<Longrightarrow> ok (pb, st, w')" and "ok (pb, st, w) \<Longrightarrow> ok (pb, st\<lparr>need_shutdown := True\<rparr>, w)"
    and "ok (pb, st, w) \<Longrightarrow> ok (la_release_all_page_buffers p pb, st, w)"
    and "ok s \<Longrightarrow> ok (snd (la_dispatch_item cf en err item s))"
proof -
  have A: "\<forall>pb st w. ok (pb, st, w) \<longrightarrow> (\<forall>w'. ok (pb, st, w')) \<and> ok (pb, st\<lparr>need_shutdown := True\<rparr>, w) \<and>
        (\<forall>p. ok (la_release_all_page_buffers p pb, st, w))"
    and B: "\<forall>item s. ok s \<longrightarrow> ok (snd (en_apply_update en item s)) \<and> ok (snd (en_apply_update_server_side en item s)) \<and>
        ok (snd (en_apply_insert en item s)) \<and> ok (snd (en_apply_delete en item s)) \<and> ok (snd (en_apply_schema en item s))"
    using assms unfolding src_kept_def by blast+
  show "ok (pb, st, w) \<Longrightarrow> ok (pb, st, w')" "ok (pb, st, w) \<Longrightarrow> ok (pb, st\<lparr>need_shutdown := True\<rparr>, w)"
    "ok (pb, st, w) \<Longrightarrow> ok (la_release_all_page_buffers p pb, st, w)" using A by blast+
  show "ok s \<Longrightarrow> ok (snd (la_dispatch_item cf en err item s))" using B [rule_format, of s item] by (simp add: la_dispatch_item_def)
qed

lemma la_log_commit_src:
  assumes "la_log_commit cf en upd info = (err, info')"
  shows "li_pb info' = li_pb info" and "li_vols info' = li_vols info \<or> li_vols info' = (li_vols info)\<lparr>need_shutdown := True\<rparr>"
  using assms
  by (auto simp: la_log_commit_def la_commit_flush_def la_commit_prepare_def la_commit_apply_info_def set_shutdown_def Let_def
      split: prod.splits if_splits)

lemma la_before_apply_src:
  assumes "src_kept ok en" and "la_before_apply cf en info = (r, info')" and "ok (li_src info)"
  shows "ok (li_src info')"
proof (cases "li_total_repl_items info mod 1000 = 0")
  case False
  then show ?thesis using assms(2,3) by (simp add: la_before_apply_def)
next
  case True
  obtain e1 info1 where c: "la_log_commit cf en True info = (e1, info1)" by force
  then have 1: "li_pb info' = li_pb info" "li_vols info' = li_vols info1"
    using assms(2) True la_log_commit_src(1) [OF c] by (auto simp: la_before_apply_def split: if_splits prod.splits)
  have "ok (li_pb info, li_vols info, li_w info')" using src_keptD(1) [OF assms(1)] assms(3) by (auto simp: li_src_def)
  then show ?thesis using la_log_commit_src(2) [OF c] src_keptD(2) [OF assms(1)] by (auto simp: li_src_def 1)
qed

lemma la_apply_item_src:
  assumes "src_kept ok en" and "la_apply_item cf en fp item info = (r, info')" and "ok (li_src info)"
  shows "ok (li_src info')"
proof -
  define info2 where "info2 = la_count_item fp info"
  have 2: "ok (li_src info2)"
    using assms(3) src_keptD(3) [OF assms(1)] by (auto simp: info2_def la_count_item_def Let_def li_src_def)
  show ?thesis
  proof (cases "LSA_GT (it_lsa item) (li_last_committed_rep_lsa info2) \<and> \<not> la_need_filter_out (cf_filter cf) item")
    case False
    then show ?thesis using assms(2) 2 by (auto simp: la_apply_item_def info2_def [symmetric] Let_def)
  next
    case True
    obtain stop err3 info3 where b: "la_before_apply cf en info2 = ((stop, err3), info3)" by (metis surj_pair)
    have 3: "ok (li_src info3)" by (rule la_before_apply_src [OF assms(1) b 2])
    obtain err4 s4 where d: "la_dispatch_item cf en err3 item (li_src info3) = (err4, s4)" by (metis surj_pair)
    have "ok s4" using src_keptD(4) [OF assms(1) 3, of cf err3 item] d by simp
    then have 4: "ok (li_src (set_src s4 info3))" by (cases s4) (simp add: set_src_def li_src_def)
    have "ok (li_src info5)" if "la_after_apply cf en item err4 (set_src s4 info3) = (out, info5)" for out info5
      using that 4 src_keptD(1,2) [OF assms(1)]
      by (auto simp: la_after_apply_def li_src_def set_shutdown_def Let_def split: if_splits)
    then show ?thesis using assms(2) True b d 3 by (auto simp: la_apply_item_def info2_def [symmetric] Let_def split: if_splits prod.splits)
  qed
qed

text \<open>The items up to the commit record.\<close>

definition upto_commit :: "log_lsa \<Rightarrow> 'v la_item \<Rightarrow> bool" where
  "upto_commit commit_lsa item \<longleftrightarrow> it_lsa item \<le> commit_lsa"

text \<open>
  What an entry of the commit queue makes of the items of its transaction: the
  items it applies and the items it leaves. An abort and an entry that was
  committed before the restart apply nothing; only a partial commit leaves
  items, those behind it. The first item is applied without a look at its
  address.
\<close>

definition entry_skips :: "log_lsa \<Rightarrow> la_commit \<Rightarrow> bool" where
  "entry_skips committed c \<longleftrightarrow> co_type c = LOG_ABORT \<or> co_log_lsa c \<le> committed"

definition entry_now :: "log_lsa \<Rightarrow> la_commit \<Rightarrow> 'v la_item list \<Rightarrow> 'v la_item list" where
  "entry_now committed c its =
     (if entry_skips committed c then []
      else case its of [] \<Rightarrow> [] | x # xs \<Rightarrow> x # takeWhile (upto_commit (co_log_lsa c)) xs)"

definition entry_left :: "log_lsa \<Rightarrow> la_commit \<Rightarrow> 'v la_item list \<Rightarrow> 'v la_item list" where
  "entry_left committed c its =
     (if entry_skips committed c \<or> co_type c \<noteq> LOG_COMMIT_TOPOPE then [] else dropWhile (upto_commit (co_log_lsa c)) (tl its))"

text \<open>
  The specification of the queue: the entries are applied one after the other,
  each on what the ones before it left of the transactions. The result is the
  sequence of the items applied and the items left.
\<close>

fun serial :: "log_lsa \<Rightarrow> la_commit list \<Rightarrow> (tranid \<Rightarrow> 'v la_item list) \<Rightarrow> 'v la_item list \<times> (tranid \<Rightarrow> 'v la_item list)" where
  "serial committed [] T = ([], T)"
| "serial committed (c # cs) T =
     (case serial committed cs (T(co_tranid c := entry_left committed c (T (co_tranid c)))) of
        (applied, T') \<Rightarrow> (entry_now committed c (T (co_tranid c)) @ applied, T'))"

text \<open>
  The items of the transactions: \<open>items_at a x xs\<close> is that a loop over the
  list \<open>a\<close> that is at the item \<open>x\<close> has the items \<open>xs\<close> before it. The list of a
  transaction holds the items \<open>xs\<close>, the table those of \<open>T\<close>.
\<close>

definition tran_holds :: "('v la_apply \<Rightarrow> 'v la_item \<Rightarrow> 'v la_item list \<Rightarrow> bool) \<Rightarrow> 'v la_apply \<Rightarrow> 'v la_item list \<Rightarrow> bool" where
  "tran_holds items_at a xs \<longleftrightarrow>
     (case xs of [] \<Rightarrow> ap_items a = [] | x # zs \<Rightarrow> items_at a x zs \<and> (\<exists>its. ap_items a = x # its))"

definition entry_holds :: "('v la_apply \<Rightarrow> 'v la_item \<Rightarrow> 'v la_item list \<Rightarrow> bool) \<Rightarrow> 'v la_apply option \<Rightarrow> 'v la_item list \<Rightarrow> bool" where
  "entry_holds items_at entry xs \<longleftrightarrow> (case entry of None \<Rightarrow> xs = [] | Some a \<Rightarrow> tran_holds items_at a xs)"

definition trans_hold :: "('v la_apply \<Rightarrow> 'v la_item \<Rightarrow> 'v la_item list \<Rightarrow> bool) \<Rightarrow> 'v la_repl \<Rightarrow> (tranid \<Rightarrow> 'v la_item list) \<Rightarrow> bool" where
  "trans_hold items_at r T \<longleftrightarrow> (\<forall>t. entry_holds items_at (tran_of r t) (T t))"

lemma set_app_holds:
  assumes "repl_inv (li_repl info)" and "only_list i r (li_repl info)" and "same_tran i r (li_repl info)"
    and "i < cur_repl r" and "ap_tranid (repl_lists r ! i) = t" and "t \<noteq> 0"
    and "apply_ok a \<and> ap_tranid a = t \<and> tran_holds items_at a xs \<or> a = empty_apply \<and> xs = []"
  shows "entry_holds items_at (tran_of (li_repl (set_app i a info)) t) xs"
proof -
  have j: "i < cur_repl (li_repl info)" "ap_tranid (repl_lists (li_repl info) ! i) = t"
    using assms(2-5) by (simp_all add: only_list_def same_tran_def)
  have "tran_of (set_apply i a (li_repl info)) = (tran_of (li_repl info))(t := if ap_tranid a = t then Some a else None)"
    by (rule set_apply_tran(2) [OF assms(1) j assms(6)]) (use assms(7) in blast)
  then show ?thesis using assms(6,7) by (auto simp: set_app_def empty_apply_def entry_holds_def)
qed

text \<open>
  What the application of a transaction relies on: the next item is found, from
  the list or from the log, without a change of what the slave has; freeing an
  item moves the loop on; and the item behind a partial commit is the first of
  the list that is left.
\<close>

locale item_reader =
  fixes io :: "'w la_io" and cf :: la_config and up :: "'v la_values" and tr :: "'w \<Rightarrow> 'v la_item list"
    and items_at :: "'v la_apply \<Rightarrow> 'v la_item \<Rightarrow> 'v la_item list \<Rightarrow> bool" and ok :: "'w la_src \<Rightarrow> bool"
  assumes next_item: "items_at a x xs \<Longrightarrow> ok s \<Longrightarrow>
      \<exists>s'. la_get_next_repl_item io cf up a x s = Some (case xs of [] \<Rightarrow> None | z # _ \<Rightarrow> Some z, s') \<and> ok s' \<and> tr (snd (snd s')) = tr (snd (snd s))"
    and free_item: "apply_ok a \<Longrightarrow> items_at a x (z # zs) \<Longrightarrow> items_at (la_free_repl_item a x) z zs"
    and behind_item: "apply_ok a \<Longrightarrow> items_at a x (z # zs) \<Longrightarrow> \<not> upto_commit c z \<Longrightarrow>
      tran_holds items_at (la_free_and_add_next_repl_item (la_free_repl_item a x) (Some z) c) (z # zs)"
begin

lemma apply_loop_takes:
  assumes slave: "slave_takes en tr" and kept: "src_kept ok en"
    and "i < length (repl_lists (li_repl info))" and "apply_ok (get_app i info)" and "items_at (get_app i info) item its" and "ok (li_src info)"
  shows "\<exists>cnt' info'. la_apply_loop io cf en up i commit_lsa fp item cnt info =
      Some ((NO_ERROR, cnt', case dropWhile (upto_commit commit_lsa) its of [] \<Rightarrow> None | z # _ \<Rightarrow> Some z), info') \<and>
    tr (li_w info') = tr (li_w info) @ filter (item_wanted cf (li_last_committed_rep_lsa info))
      (item # takeWhile (upto_commit commit_lsa) its) \<and> ok (li_src info') \<and>
    li_last_committed_rep_lsa info' = li_last_committed_rep_lsa info \<and> li_last_committed_lsa info' = li_last_committed_lsa info \<and>
    (dropWhile (upto_commit commit_lsa) its \<noteq> [] \<longrightarrow>
      (\<exists>a x. apply_ok a \<and> items_at a x (dropWhile (upto_commit commit_lsa) its) \<and> get_app i info' = la_free_repl_item a x))"
  using assms(3-)
proof (induction its arbitrary: item cnt info)
  case (Nil item cnt info)
  obtain k info1 where a: "la_apply_item cf en fp item info = ((Out_next NO_ERROR, k), info1)"
    "tr (li_w info1) = tr (li_w info) @ (if item_wanted cf (li_last_committed_rep_lsa info) item then [item] else [])"
    "li_last_committed_rep_lsa info1 = li_last_committed_rep_lsa info" "li_last_committed_lsa info1 = li_last_committed_lsa info"
    using la_apply_item_takes [OF slave, of cf fp item info] by blast
  have g: "get_app i info1 = get_app i info" by (simp add: get_app_def la_apply_item_repl [OF a(1)])
  from next_item [OF Nil(3) la_apply_item_src [OF kept a(1) Nil(4)]] obtain s2 where
    n: "la_get_next_repl_item io cf up (get_app i info) item (li_src info1) = Some (None, s2)" "ok s2" "tr (snd (snd s2)) = tr (li_w info1)"
    by (auto simp: li_src_def)
  have "la_apply_loop io cf en up i commit_lsa fp item cnt info =
      Some ((NO_ERROR, cnt + k, None), set_app i (la_free_repl_item (get_app i info) item) (set_src s2 info1))"
    using a(1) n(1) by (subst la_apply_loop.simps) (simp add: g)
  then show ?case using a(2-) n(2,3) by (cases s2) (simp add: set_src_def li_src_def set_app_def)
next
  case (Cons z its item cnt info)
  obtain k info1 where a: "la_apply_item cf en fp item info = ((Out_next NO_ERROR, k), info1)"
    "tr (li_w info1) = tr (li_w info) @ (if item_wanted cf (li_last_committed_rep_lsa info) item then [item] else [])"
    "li_last_committed_rep_lsa info1 = li_last_committed_rep_lsa info" "li_last_committed_lsa info1 = li_last_committed_lsa info"
    using la_apply_item_takes [OF slave, of cf fp item info] by blast
  note r = la_apply_item_repl [OF a(1)]
  have g: "get_app i info1 = get_app i info" by (simp add: get_app_def r)
  from next_item [OF Cons(4) la_apply_item_src [OF kept a(1) Cons(5)]] obtain s2 where
    n: "la_get_next_repl_item io cf up (get_app i info) item (li_src info1) = Some (Some z, s2)" "ok s2" "tr (snd (snd s2)) = tr (li_w info1)"
    by (auto simp: li_src_def)
  define info3 where "info3 = set_app i (la_free_repl_item (get_app i info) item) (set_src s2 info1)"
  have g3: "get_app i info3 = la_free_repl_item (get_app i info) item" using Cons(2) r by (simp add: info3_def)
  have i3: "li_src info3 = s2" "li_last_committed_rep_lsa info3 = li_last_committed_rep_lsa info" "tr (li_w info3) = tr (li_w info1)"
    "li_last_committed_lsa info3 = li_last_committed_lsa info" "i < length (repl_lists (li_repl info3))"
    using a(3,4) n(3) Cons(2) r by (cases s2; simp add: info3_def set_app_def set_src_def li_src_def set_apply_def)+
  have loop: "la_apply_loop io cf en up i commit_lsa fp item cnt info =
      (if LSA_GT (it_lsa z) commit_lsa then Some ((NO_ERROR, cnt + k, Some z), info3)
       else la_apply_loop io cf en up i commit_lsa fp z (cnt + k) info3)"
    using a(1) n(1) by (subst la_apply_loop.simps) (simp add: g info3_def)
  show ?case
  proof (cases "upto_commit commit_lsa z")
    case False
    then have "la_apply_loop io cf en up i commit_lsa fp item cnt info = Some ((NO_ERROR, cnt + k, Some z), info3)"
      using loop by (simp add: upto_commit_def lsa_simps not_le)
    then show ?thesis using False a(2) g3 i3 n(2) Cons(3,4) by auto
  next
    case True
    have l: "la_apply_loop io cf en up i commit_lsa fp item cnt info = la_apply_loop io cf en up i commit_lsa fp z (cnt + k) info3"
      using loop True by (simp add: upto_commit_def LSA_GT_less leD)
    have "apply_ok (get_app i info3)" "items_at (get_app i info3) z its" "ok (li_src info3)"
      using g3 Cons(3) free_item [OF Cons(3,4)] n(2) i3(1) by (simp_all add: la_free_repl_item_ok)
    from Cons.IH [OF i3(5) this, of "cnt + k"] show ?thesis unfolding l using True a(2) i3
      by (elim exE conjE, intro exI conjI) (assumption | simp del: dropWhile_eq_Nil_conv)+
  qed
qed

lemma list_behind:
  assumes "apply_ok b" and "ap_tranid b = t"
    and "dropWhile (upto_commit c) xs \<noteq> [] \<Longrightarrow> \<exists>a x. apply_ok a \<and> items_at a x (dropWhile (upto_commit c) xs) \<and> b = la_free_repl_item a x"
  shows "apply_ok (case dropWhile (upto_commit c) xs of [] \<Rightarrow> la_free_all_repl_items b | z # _ \<Rightarrow> la_free_and_add_next_repl_item b (Some z) c) \<and>
    ap_tranid (case dropWhile (upto_commit c) xs of [] \<Rightarrow> la_free_all_repl_items b | z # _ \<Rightarrow> la_free_and_add_next_repl_item b (Some z) c) = t \<and>
    tran_holds items_at (case dropWhile (upto_commit c) xs of [] \<Rightarrow> la_free_all_repl_items b | z # _ \<Rightarrow> la_free_and_add_next_repl_item b (Some z) c)
      (dropWhile (upto_commit c) xs)"
proof (cases "dropWhile (upto_commit c) xs")
  case Nil
  then show ?thesis using assms(1,2) by (simp add: la_free_all_repl_items_eq apply_ok_def tran_holds_def del: dropWhile_eq_Nil_conv)
next
  case (Cons z zs)
  obtain a x where a: "apply_ok a" "items_at a x (z # zs)" "b = la_free_repl_item a x" using assms(3) Cons by auto
  have "\<not> upto_commit c z" using Cons by (auto simp: dropWhile_eq_Cons_conv)
  from behind_item [OF a(1,2) this] show ?thesis using Cons la_free_and_add_next_ok [OF assms(1)] assms(2) by (simp add: a(3))
qed

lemma apply_repl_log_takes:
  assumes slave: "slave_takes en tr" and kept: "src_kept ok en" and "repl_inv (li_repl info)" and "trans_hold items_at (li_repl info) T" and "ok (li_src info)" and "co_tranid c \<noteq> 0"
  shows "\<exists>info'. la_apply_repl_log io cf en up (co_tranid c) (co_type c) (co_log_lsa c) fp info = Some (NO_ERROR, info') \<and>
    tr (li_w info') = tr (li_w info) @ filter (item_wanted cf (li_last_committed_rep_lsa info))
      (entry_now (li_last_committed_lsa info) c (T (co_tranid c))) \<and>
    entry_holds items_at (tran_of (li_repl info') (co_tranid c)) (entry_left (li_last_committed_lsa info) c (T (co_tranid c))) \<and>
    ok (li_src info') \<and>
    li_last_committed_rep_lsa info' = li_last_committed_rep_lsa info \<and> li_last_committed_lsa info' = li_last_committed_lsa info"
    (is "\<exists>info'. ?L = _ \<and> ?P info'")
proof (cases "la_find_apply_list (co_tranid c) (li_repl info)")
  case None
  then have t: "tran_of (li_repl info) (co_tranid c) = None" by (simp add: tran_of_def)
  then have "T (co_tranid c) = []" using assms(4) by (auto simp: trans_hold_def entry_holds_def dest: spec [of _ "co_tranid c"])
  with None t assms(5) show ?thesis by (simp add: la_apply_repl_log_def entry_now_def entry_left_def entry_holds_def)
next
  case (Some i)
  let ?r = "li_repl info" and ?its = "T (co_tranid c)"
  have i: "i < cur_repl ?r" "ap_tranid (repl_lists ?r ! i) = co_tranid c"
    using la_find_apply_list_iff(2) [OF assms(3,6), of i] Some by simp_all
  have len: "i < length (repl_lists ?r)" and aok: "apply_ok (get_app i info)"
    using assms(3) i by (auto simp: repl_inv_def get_app_def)
  have t: "tran_of ?r (co_tranid c) = Some (get_app i info)" using Some assms(6) by (simp add: tran_of_def get_app_def)
  then have its: "tran_holds items_at (get_app i info) ?its" using assms(4) by (auto simp: trans_hold_def entry_holds_def dest: spec [of _ "co_tranid c"])
  note fin = set_app_holds [OF _ _ _ i assms(6)]
  show ?thesis
  proof (cases "entry_skips (li_last_committed_lsa info) c \<or> ap_items (get_app i info) = []")
    case True
    define a where "a = (if co_type c = LOG_COMMIT_TOPOPE then la_free_all_repl_items (get_app i info) else empty_apply)"
    have "?L = Some (NO_ERROR, set_app i a info)"
      using Some True by (auto simp: la_apply_repl_log_def Let_def entry_skips_def lsa_simps a_def split: list.splits)
    moreover have a: "apply_ok a \<and> ap_tranid a = co_tranid c \<and> tran_holds items_at a [] \<or> a = empty_apply \<and> [] = []"
      using i by (auto simp: a_def la_free_all_repl_items_eq get_app_def apply_ok_def tran_holds_def)
    moreover have "entry_now (li_last_committed_lsa info) c ?its = []" "entry_left (li_last_committed_lsa info) c ?its = []"
      using True its by (auto simp: entry_now_def entry_left_def tran_holds_def split: list.splits)
    moreover note fin [OF assms(3) only_list_refl same_tran_refl a]
    ultimately show ?thesis using assms(5) by (simp add: li_src_def set_app_def)
  next
    case False
    then obtain item xs where x: "?its = item # xs" "items_at (get_app i info) item xs" "\<exists>its. ap_items (get_app i info) = item # its"
      using its by (auto simp: tran_holds_def split: list.splits)
    let ?inf = "la_lock_dbname en info" and ?left = "dropWhile (upto_commit (co_log_lsa c)) xs"
    have inf: "get_app i ?inf = get_app i info" "tr (li_w ?inf) = tr (li_w info)" "li_repl ?inf = li_repl info"
      "li_last_committed_rep_lsa ?inf = li_last_committed_rep_lsa info" "li_last_committed_lsa ?inf = li_last_committed_lsa info"
      using slave_takesD(6) [OF slave] by (auto simp: get_app_def la_lock_dbname_def split: prod.splits)
    have iok: "ok (li_src ?inf)"
      using assms(5) src_keptD(1) [OF kept] by (auto simp: la_lock_dbname_def li_src_def split: prod.splits)
    obtain cnt info1 where l: "la_apply_loop io cf en up i (co_log_lsa c) fp item 0 ?inf =
        Some ((NO_ERROR, cnt, case ?left of [] \<Rightarrow> None | z # _ \<Rightarrow> Some z), info1)"
      "tr (li_w info1) = tr (li_w info) @ filter (item_wanted cf (li_last_committed_rep_lsa info))
         (item # takeWhile (upto_commit (co_log_lsa c)) xs)" "ok (li_src info1)"
      "li_last_committed_rep_lsa info1 = li_last_committed_rep_lsa info" "li_last_committed_lsa info1 = li_last_committed_lsa info"
      and b: "?left \<noteq> [] \<Longrightarrow> \<exists>a x. apply_ok a \<and> items_at a x ?left \<and> get_app i info1 = la_free_repl_item a x"
      using apply_loop_takes [OF slave kept, of i ?inf item xs "co_log_lsa c" fp 0] len aok x(2) inf iok by auto
    define inf2 where "inf2 = info1\<lparr>li_total_rows := li_total_rows info1 + cnt\<rparr>"
    have L: "repl_inv (li_repl inf2)" "only_list i ?r (li_repl inf2)" "same_tran i ?r (li_repl inf2)"
      using la_apply_loop_repl [OF l(1)] assms(3,6) i by (simp_all add: inf2_def get_app_def inf(3))
    have ok2: "apply_ok (get_app i inf2)" "ap_tranid (get_app i inf2) = co_tranid c"
      using L i by (auto simp: get_app_def same_tran_def only_list_def repl_inv_def)
    have g2: "get_app i inf2 = get_app i info1" by (simp add: inf2_def get_app_def)
    define a where "a = (if co_type c = LOG_COMMIT_TOPOPE then
        (case ?left of [] \<Rightarrow> la_free_all_repl_items (get_app i inf2)
         | z # _ \<Rightarrow> la_free_and_add_next_repl_item (get_app i inf2) (Some z) (co_log_lsa c)) else empty_apply)"
    have "?L = Some (NO_ERROR, set_app i a inf2)"
      using Some False x(3) l(1)
      by (cases ?left) (auto simp add: la_apply_repl_log_def Let_def entry_skips_def lsa_simps a_def inf2_def simp del: dropWhile_eq_Nil_conv)
    moreover have "entry_now (li_last_committed_lsa info) c ?its = item # takeWhile (upto_commit (co_log_lsa c)) xs"
      "entry_left (li_last_committed_lsa info) c ?its = (if co_type c = LOG_COMMIT_TOPOPE then ?left else [])"
      using False x(1) by (auto simp: entry_now_def entry_left_def)
    moreover have "apply_ok a \<and> ap_tranid a = co_tranid c \<and> tran_holds items_at a (if co_type c = LOG_COMMIT_TOPOPE then ?left else []) \<or>
        a = empty_apply \<and> (if co_type c = LOG_COMMIT_TOPOPE then ?left else []) = []"
      using list_behind [OF ok2, of "co_log_lsa c" xs] b g2 by (auto simp: a_def simp del: dropWhile_eq_Nil_conv)
    moreover note fin [OF L this]
    ultimately show ?thesis using l(2-5) by (simp add: inf2_def li_src_def set_app_def)
  qed
qed

lemma apply_commit_list_takes:
  assumes "slave_takes en tr" and "src_kept ok en" and "repl_inv (li_repl info)" and "trans_hold items_at (li_repl info) T" and "ok (li_src info)"
    and "commits (li_repl info) = c # cs" and "co_ready c" and "co_tranid c \<noteq> 0"
  shows "\<exists>info'. la_apply_commit_list io cf en up fp info = Some ((NO_ERROR, co_log_lsa c), info') \<and>
    tr (li_w info') = tr (li_w info) @ filter (item_wanted cf (li_last_committed_rep_lsa info))
      (entry_now (li_last_committed_lsa info) c (T (co_tranid c))) \<and>
    trans_hold items_at (li_repl info') (T(co_tranid c := entry_left (li_last_committed_lsa info) c (T (co_tranid c)))) \<and>
    ok (li_src info') \<and> repl_inv (li_repl info') \<and> commits (li_repl info') = cs \<and>
    li_last_committed_rep_lsa info' = li_last_committed_rep_lsa info \<and> li_last_committed_lsa info' = li_last_committed_lsa info"
proof -
  let ?left = "entry_left (li_last_committed_lsa info) c (T (co_tranid c))"
  obtain info1 where a: "la_apply_repl_log io cf en up (co_tranid c) (co_type c) (co_log_lsa c) fp info = Some (NO_ERROR, info1)"
    and A: "tr (li_w info1) = tr (li_w info) @ filter (item_wanted cf (li_last_committed_rep_lsa info))
        (entry_now (li_last_committed_lsa info) c (T (co_tranid c)))"
      "entry_holds items_at (tran_of (li_repl info1) (co_tranid c)) ?left"
      "ok (li_src info1)" "li_last_committed_rep_lsa info1 = li_last_committed_rep_lsa info"
      "li_last_committed_lsa info1 = li_last_committed_lsa info"
    using apply_repl_log_takes [OF assms(1-5,8), of fp] by blast
  define info2 where "info2 = (if co_type c = LOG_COMMIT then info1\<lparr>li_log_record_time := co_log_record_time c\<rparr> else info1)"
  define info' where "info' = set_commits (tl (commits (li_repl info2))) info2"
  have i2: "li_repl info2 = li_repl info1" "li_w info2 = li_w info1" "li_src info' = li_src info1"
    "li_last_committed_rep_lsa info2 = li_last_committed_rep_lsa info1" "li_last_committed_lsa info2 = li_last_committed_lsa info1"
    by (simp_all add: info'_def info2_def li_src_def set_commits_def)
  have r: "la_apply_commit_list io cf en up fp info = Some ((NO_ERROR, co_log_lsa c), info')"
    using a assms(6,7) by (auto simp: la_apply_commit_list_def co_ready_def Let_def info'_def info2_def)
  note R = la_apply_commit_list_repl [OF r assms(3)]
  have "tran_of (li_repl info') = tran_of (li_repl info1)"
    by (rule ext) (simp add: info'_def set_commits_def i2 tran_of_def la_find_apply_list_def)
  then have "trans_hold items_at (li_repl info') (T(co_tranid c := ?left))"
    using A(2) R assms(4,6,7) unfolding trans_hold_def by (auto split: if_splits)
  then show ?thesis using r R A assms(6,7) i2 by (simp add: info'_def set_commits_def)
qed

lemma commit_loop_takes:
  assumes "slave_takes en tr" and "src_kept ok en" and "repl_inv (li_repl info)" and "trans_hold items_at (li_repl info) T" and "ok (li_src info)"
    and "\<forall>c \<in> set (commits (li_repl info)). \<not> LSA_ISNULL (co_log_lsa c) \<and> co_tranid c \<noteq> 0"
    and "serial (li_last_committed_lsa info) (takeWhile co_ready (commits (li_repl info))) T = (applied, rest)"
  shows "\<exists>info'. la_commit_loop io cf en up ty fp info = Some (None, info') \<and>
    commits (li_repl info') = dropWhile co_ready (commits (li_repl info)) \<and>
    tr (li_w info') = tr (li_w info) @ filter (item_wanted cf (li_last_committed_rep_lsa info)) applied \<and>
    trans_hold items_at (li_repl info') rest"
  using assms(3-)
proof (induction "commits (li_repl info)" arbitrary: info T applied rest)
  case Nil
  from Nil(1) [symmetric] have "la_commit_loop io cf en up ty fp info = Some (None, info)"
    by (subst la_commit_loop.simps) (simp add: la_apply_commit_list_def la_commit_stop_def)
  with Nil(1) [symmetric] Nil.prems(2,5) show ?case by simp
next
  case (Cons c cs)
  note q = Cons(2) [symmetric]
  show ?case
  proof (cases "co_ready c")
    case False
    with q have "la_commit_loop io cf en up ty fp info = Some (None, info)"
      by (subst la_commit_loop.simps) (simp add: la_apply_commit_list_def la_commit_stop_def co_ready_def)
    with q False Cons.prems(2,5) show ?thesis by simp
  next
    case True
    let ?T = "T(co_tranid c := entry_left (li_last_committed_lsa info) c (T (co_tranid c)))"
    obtain info1 where a: "la_apply_commit_list io cf en up fp info = Some ((NO_ERROR, co_log_lsa c), info1)"
      and A: "tr (li_w info1) = tr (li_w info) @ filter (item_wanted cf (li_last_committed_rep_lsa info))
          (entry_now (li_last_committed_lsa info) c (T (co_tranid c)))"
        "trans_hold items_at (li_repl info1) ?T" "ok (li_src info1)" "repl_inv (li_repl info1)" "commits (li_repl info1) = cs"
        "li_last_committed_rep_lsa info1 = li_last_committed_rep_lsa info" "li_last_committed_lsa info1 = li_last_committed_lsa info"
      using apply_commit_list_takes [OF assms(1,2) Cons.prems(1-3) q True, of fp] Cons.prems(4) q by auto
    obtain applied' where s: "serial (li_last_committed_lsa info) (takeWhile co_ready cs) ?T = (applied', rest)"
      "applied = entry_now (li_last_committed_lsa info) c (T (co_tranid c)) @ applied'"
      using Cons.prems(5) q True by (auto split: prod.splits)
    define info2 where "info2 = info1\<lparr>li_committed_lsa := co_log_lsa c,
       li_commit_counter := (if ty = LOG_COMMIT then li_commit_counter info1 + 1 else li_commit_counter info1)\<rparr>"
    have i2: "li_repl info2 = li_repl info1" "li_src info2 = li_src info1" "li_w info2 = li_w info1"
      "li_last_committed_rep_lsa info2 = li_last_committed_rep_lsa info" "li_last_committed_lsa info2 = li_last_committed_lsa info"
      using A(6,7) by (simp_all add: info2_def li_src_def)
    have step: "la_commit_loop io cf en up ty fp info = la_commit_loop io cf en up ty fp info2"
      using a Cons.prems(4) q by (subst la_commit_loop.simps) (simp add: la_commit_stop_def info2_def)
    have "\<exists>info'. la_commit_loop io cf en up ty fp info2 = Some (None, info') \<and>
        commits (li_repl info') = dropWhile co_ready (commits (li_repl info2)) \<and>
        tr (li_w info') = tr (li_w info2) @ filter (item_wanted cf (li_last_committed_rep_lsa info2)) applied' \<and>
        trans_hold items_at (li_repl info') rest"
      by (rule Cons(1)) (use A Cons.prems(4) q s(1) i2 in simp_all)
    then show ?thesis unfolding step using A(1,5) True q s(2) i2 by auto
  qed
qed

end

section \<open>Short transactions\<close>

text \<open>Of a transaction of at most a thousand items, the list holds them all.\<close>

definition items_of :: "'v la_repl \<Rightarrow> tranid \<Rightarrow> 'v la_item list" where
  "items_of r t = (case tran_of r t of None \<Rightarrow> [] | Some a \<Rightarrow> ap_items a)"

definition all_short :: "'v la_repl \<Rightarrow> bool" where
  "all_short r \<longleftrightarrow> (\<forall>i < cur_repl r. \<not> ap_is_long_trans (repl_lists r ! i))"

definition short_at :: "'v la_apply \<Rightarrow> 'v la_item \<Rightarrow> 'v la_item list \<Rightarrow> bool" where
  "short_at a x xs \<longleftrightarrow> \<not> ap_is_long_trans a \<and> ap_items a = x # xs"

lemma la_free_head:
  assumes "apply_ok a" and "ap_items a = item # its"
  shows "ap_items (la_free_repl_item a item) = its"
  using assms by (simp add: la_free_repl_item_def la_unlink_repl_item_def)

lemma la_free_long [simp]: "ap_is_long_trans (la_free_repl_item a x) = ap_is_long_trans a"
  by (simp add: la_free_repl_item_def la_unlink_repl_item_def)

lemma short_behind:
  assumes "\<not> ap_is_long_trans a" and "ap_items a = z # zs" and "\<not> upto_commit c z"
  shows "la_free_and_add_next_repl_item a nx c = a"
  using assms by (simp add: la_free_and_add_next_repl_item_def upto_commit_def lsa_simps)

interpretation sr: item_reader io cf up tr short_at "\<lambda>_. True" for io cf up tr
proof (unfold_locales, goal_cases)
  case (1 a x xs s)
  then show ?case by (cases xs) (auto simp: short_at_def la_get_next_repl_item_def la_get_next_repl_item_from_list_def)
next
  case (3 a x z zs c)
  then show ?case using short_behind [of "la_free_repl_item a x" z zs c] la_free_head [OF 3(1), of x "z # zs"]
    by (simp add: short_at_def tran_holds_def)
qed (auto simp: short_at_def la_free_head)

lemma short_kept: "src_kept (\<lambda>_. True) en"
  by (simp add: src_kept_def)

lemma short_trans:
  assumes "repl_inv r" and "all_short r"
  shows "trans_hold short_at r (items_of r)"
proof -
  have "\<not> ap_is_long_trans a" if "tran_of r t = Some a" for t a
    using that assms tran_of_iff [OF assms(1)] by (auto simp: all_short_def)
  then show ?thesis by (auto simp: trans_hold_def entry_holds_def tran_holds_def items_of_def short_at_def split: option.splits list.splits)
qed

text \<open>For complete commits of different transactions the specification is the concatenation of their items.\<close>

definition entry_commits :: "log_lsa \<Rightarrow> (tranid \<Rightarrow> 'v la_item list) \<Rightarrow> la_commit \<Rightarrow> bool" where
  "entry_commits committed T c \<longleftrightarrow> co_type c = LOG_COMMIT \<and> committed < co_log_lsa c \<and>
     (\<forall>x \<in> set (T (co_tranid c)). it_lsa x \<le> co_log_lsa c)"

lemma serial_commits:
  assumes "distinct (map co_tranid cs)" and "\<forall>c \<in> set cs. entry_commits committed T c"
  shows "fst (serial committed cs T) = concat (map (\<lambda>c. T (co_tranid c)) cs)"
  using assms
proof (induction cs arbitrary: T)
  case Nil
  then show ?case by simp
next
  case (Cons c cs)
  define U where "U = T(co_tranid c := entry_left committed c (T (co_tranid c)))"
  have c: "entry_commits committed T c" using Cons.prems by simp
  then have now: "entry_now committed c (T (co_tranid c)) = T (co_tranid c)"
    by (auto simp: entry_now_def entry_skips_def entry_commits_def takeWhile_eq_all_conv upto_commit_def split: list.splits)
  have same: "U (co_tranid d) = T (co_tranid d)" if "d \<in> set cs" for d
    using Cons.prems(1) that by (auto simp: U_def image_iff)
  then have "\<forall>d \<in> set cs. entry_commits committed U d" using Cons.prems(2) by (simp add: entry_commits_def)
  then have "fst (serial committed cs U) = concat (map (\<lambda>d. T (co_tranid d)) cs)"
    using Cons.IH [of U] Cons.prems(1) same by (simp cong: map_cong)
  with now show ?case by (simp add: case_prod_unfold U_def)
qed

section \<open>Properties\<close>

text \<open>An applier with a committed and an open transaction, for the witnesses.\<close>

definition ex_item :: "log_lsa \<Rightarrow> unit la_item" where
  "ex_item lsa = \<lparr>it_log_type = LOG_REPLICATION_DATA, it_item_type = RVREPL_DATA_INSERT, it_class_name = Some [116, 49],
     it_db_user = None, it_ha_sys_prm = None, it_key = Some (), it_lsa = lsa, it_target_lsa = lsa\<rparr>"

definition ex_app :: "tranid \<Rightarrow> unit la_item list \<Rightarrow> unit la_apply" where
  "ex_app t its = \<lparr>ap_tranid = t, ap_num_items = int (length its), ap_is_long_trans = False, ap_start_lsa = LSA 31 0,
     ap_last_lsa = LSA_NULL, ap_items = its\<rparr>"

definition ex_table :: "unit la_repl" where
  "ex_table = \<lparr>repl_lists = [ex_app 4 [ex_item (LSA 31 0), ex_item (LSA 31 80)], ex_app 7 [ex_item (LSA 31 160)]],
     repl_cnt = 2, cur_repl = 2,
     commits = [\<lparr>co_type = LOG_COMMIT, co_tranid = 4, co_log_lsa = LSA 32 0, co_log_record_time = 90\<rparr>,
                \<lparr>co_type = LOG_UNLOCK_COMMIT, co_tranid = 7, co_log_lsa = LSA 32 40, co_log_record_time = 0\<rparr>]\<rparr>"

definition ex_state :: "(unit, unit la_item list) la_info" where
  "ex_state = ex_info\<lparr>li_repl := ex_table\<rparr>"

lemma ex_slave_takes: "slave_takes ex_env id"
  by (simp add: slave_takes_def takes_def ex_env_def ex_take_def)

lemma ex_state_inv: "repl_inv (li_repl ex_state)" "all_short (li_repl ex_state)"
  by (auto simp: ex_state_def ex_table_def repl_inv_def all_short_def ex_app_def apply_ok_def ex_item_def less_Suc_eq
      less_log_lsa_def numeral_2_eq_2)

lemma ex_state_tran [simp]:
  "items_of (li_repl ex_state) 4 = [ex_item (LSA 31 0), ex_item (LSA 31 80)]"
  by (simp add: items_of_def tran_of_def la_find_apply_list_def ex_state_def ex_table_def ex_app_def numeral_2_eq_2)

lemma ex_state_simps [simp]:
  "li_w ex_state = []" "li_last_committed_lsa ex_state = LSA 30 0" "li_last_committed_rep_lsa ex_state = LSA 30 0"
  "commits (li_repl ex_state) = commits ex_table"
  by (simp_all add: ex_state_def ex_info_def)

lemma ex_ready: "takeWhile co_ready (commits (li_repl ex_state)) = [hd (commits ex_table)]"
  by (simp add: ex_table_def co_ready_def)

text \<open>
  C36. A partial commit applies the first item of its transaction even where
  that item lies behind the commit record: the comparison with the address of
  the commit is made for the items after the first only.
\<close>

theorem partial_commit_applies_first_item:
  fixes c :: la_commit
  assumes "slave_takes en tr" and "repl_inv (li_repl info)" and "all_short (li_repl info)" and "co_tranid c \<noteq> 0"
    and "co_type c = LOG_COMMIT_TOPOPE" and "li_last_committed_lsa info < co_log_lsa c"
    and "items_of (li_repl info) (co_tranid c) = x # xs" and "co_log_lsa c < it_lsa x"
    and "item_wanted cf (li_last_committed_rep_lsa info) x"
  shows "\<exists>info'. la_apply_repl_log io cf en up (co_tranid c) (co_type c) (co_log_lsa c) fp info = Some (NO_ERROR, info') \<and>
    tr (li_w info') = tr (li_w info) @ [x]"
proof -
  obtain a where a: "tran_of (li_repl info) (co_tranid c) = Some a" "ap_items a = x # xs"
    using assms(7) by (auto simp: items_of_def split: option.splits)
  then obtain i where "i < cur_repl (li_repl info)" "repl_lists (li_repl info) ! i = a" using tran_of_iff [OF assms(2)] by blast
  then have "apply_ok a" using assms(2) by (auto simp: repl_inv_def)
  then have "sorted_wrt (\<lambda>x y. it_lsa x < it_lsa y) (x # xs)" using a by (simp add: apply_ok_def)
  then have "takeWhile (upto_commit (co_log_lsa c)) xs = []"
    using assms(8) by (cases xs) (auto simp: upto_commit_def)
  then have "entry_now (li_last_committed_lsa info) c (x # xs) = [x]"
    using assms(5,6) by (auto simp: entry_now_def entry_skips_def)
  with sr.apply_repl_log_takes [OF assms(1) short_kept assms(2) short_trans [OF assms(2,3)] TrueI assms(4), of io cf up fp] assms(7,9)
  show ?thesis by auto
qed

lemma partial_commit_applies_first_item_witness:
  "\<exists>info'. la_apply_repl_log ex_io ex_conf ex_env \<lparr>up_mem_value = \<lambda>_. (), mk_string = \<lambda>_. ()\<rparr> 4 LOG_COMMIT_TOPOPE (LSA 30 40) 33 ex_state
     = Some (NO_ERROR, info') \<and> li_w info' = [ex_item (LSA 31 0)]"
proof -
  have "item_wanted ex_conf (LSA 30 0) (ex_item (LSA 31 0))"
    by (simp add: item_wanted_def item_known_def ex_item_def less_log_lsa_def la_need_filter_out_def ex_conf_def)
  with partial_commit_applies_first_item [OF ex_slave_takes ex_state_inv,
      of "\<lparr>co_type = LOG_COMMIT_TOPOPE, co_tranid = 4, co_log_lsa = LSA 30 40, co_log_record_time = 0\<rparr>"
        "ex_item (LSA 31 0)" "[ex_item (LSA 31 80)]" ex_conf ex_io "\<lparr>up_mem_value = \<lambda>_. (), mk_string = \<lambda>_. ()\<rparr>" 33]
  show ?thesis by (simp add: less_log_lsa_def) (simp add: ex_item_def)
qed

end
