(* ===== verification/La_Invariant.thy ===== *)
theory La_Invariant
  imports La_Apply
begin

text \<open>
  The invariant of the transaction table over \<^verbatim>\<open>la_log_record_process\<close>
  (\<^verbatim>\<open>transaction/log_applier.c\<close>): every record, errors included, keeps the
  table well-formed, with all its items before the address of the next record.
\<close>

section \<open>The invariant over the records of the log\<close>

text \<open>
  No item of the table and no last address of a long transaction is at or
  behind \<open>b\<close>. Together with \<open>repl_inv\<close> this is kept by every record, with \<open>b\<close>
  the address the next record is read from.
\<close>

definition app_below :: "log_lsa \<Rightarrow> 'v la_apply \<Rightarrow> bool" where
  "app_below b a \<longleftrightarrow> (\<forall>x \<in> set (ap_items a). it_lsa x < b) \<and> (ap_is_long_trans a \<longrightarrow> ap_last_lsa a < b)"

definition table_inv :: "log_lsa \<Rightarrow> 'v la_repl \<Rightarrow> bool" where
  "table_inv b r \<longleftrightarrow> repl_inv r \<and> (\<forall>a \<in> set (repl_lists r). app_below b a)"

lemma app_below_mono: "app_below b a \<Longrightarrow> b \<le> c \<Longrightarrow> app_below c a"
  by (auto simp: app_below_def)

lemma table_inv_mono: "table_inv b r \<Longrightarrow> b \<le> c \<Longrightarrow> table_inv c r"
  by (auto simp: table_inv_def intro: app_below_mono)

lemma app_below_empty [simp]: "app_below b empty_apply"
  by (simp add: app_below_def)

lemma app_below_free_item: "app_below b a \<Longrightarrow> app_below b (la_free_repl_item a x)"
  by (auto simp: app_below_def la_free_repl_item_def la_unlink_repl_item_def dest: notin_set_remove1)

lemma app_below_free_items: "app_below b a \<Longrightarrow> app_below b (fold (\<lambda>x a. la_free_repl_item a x) xs a)"
  by (induction xs arbitrary: a) (auto simp: app_below_free_item)

lemma table_inv_commits [simp]: "table_inv b (r\<lparr>commits := cs\<rparr>) = table_inv b r"
  by (simp add: table_inv_def)

lemma table_inv_nth: "table_inv b r \<Longrightarrow> i < cur_repl r \<Longrightarrow> app_below b (repl_lists r ! i)"
  by (auto simp: table_inv_def repl_inv_def)

lemma table_inv_set_apply:
  assumes "repl_inv (set_apply i a r)" and "table_inv b r" and "app_below b a"
  shows "table_inv b (set_apply i a r)"
  using assms by (auto simp: table_inv_def set_apply_def dest!: subsetD [OF set_update_subset_insert])

text \<open>The item read from the log is a record up to the last address of the transaction.\<close>

lemma la_make_repl_item_lsa:
  assumes "la_make_repl_item get sz alloc up pg ty lsa s = Some (Some item, s')"
  shows "it_lsa item = lsa"
  using assms
  by (auto simp: la_make_repl_item_def la_fill_repl_item_def la_new_repl_item_def Let_def
      split: if_splits prod.splits option.splits Option.bind_splits)

lemma la_next_from_log_lsa:
  assumes "la_next_from_log io cf up prev last_lsa tr cur s = Some (Some item, s')"
  shows "it_lsa item \<le> last_lsa"
proof -
  have "\<forall>item s'. r = (Some item, s') \<longrightarrow> it_lsa item \<le> last_lsa"
    if "la_next_from_log io cf up prev last_lsa tr cur s = Some r" for r
  proof (rule la_next_from_log.raw_induct [OF _ that], goal_cases)
    case (1 f io cf up prev last_lsa tr cur s r)
    show ?case
    proof (intro allI impI)
      fix item s' assume r: "r = (Some item, s')"
      let ?trid = "\<lambda>pg. case tr of None \<Rightarrow> lr_trid (LOG_GET_LOG_RECORD_HEADER pg cur) | Some t \<Rightarrow> t"
      obtain pg s1 where g: "la_page_src io (cf_cache cf) (lsa_pageid cur) s = Some (Some pg, s1)" and nn: "\<not> LSA_ISNULL cur"
        using 1(2) r by (auto split: option.splits if_splits)
      obtain ok s2 where al: "(if tr = None then src_alloc io s1 else (True, s1)) = (ok, s2)" by (metis surj_pair)
      have ok using 1(2) r g nn al by (auto split: if_splits)
      note st = 1(2) [unfolded if_not_P [OF nn] g option.case prod.case al r, simplified \<open>ok\<close>]
      show "it_lsa item \<le> last_lsa"
      proof (cases "la_next_act prev last_lsa (src_eof s2) (?trid pg) (LOG_GET_LOG_RECORD_HEADER pg cur) cur")
        case Nx_stop
        with st show ?thesis by simp
      next
        case Nx_make
        then have "it_lsa item = cur" using st by (auto dest: la_make_repl_item_lsa)
        moreover have "cur \<le> last_lsa" using Nx_make by (auto simp: la_next_act_def lsa_simps not_less split: if_splits)
        ultimately show ?thesis by simp
      next
        case Nx_skip
        with st have "f io cf up prev last_lsa (Some (?trid pg)) (lr_forw_lsa (LOG_GET_LOG_RECORD_HEADER pg cur))
            (src_release (lsa_pageid cur) s2) = Some (Some item, s')" by simp
        from 1(1) [OF this] show ?thesis by blast
      qed
    qed
  qed
  with assms show ?thesis by blast
qed

lemma next_in_set: "next_in x ys = Some z \<Longrightarrow> z \<in> set ys"
  by (induction x ys rule: next_in.induct) (auto split: if_splits list.splits)

lemma la_get_next_below:
  assumes "la_get_next_repl_item io cf up app item s = Some (Some it, s')" and "app_below b app"
  shows "it_lsa it < b"
  using assms
  by (auto simp: la_get_next_repl_item_def la_get_next_repl_item_from_log_def la_get_next_repl_item_from_list_def app_below_def
      split: if_splits dest: la_next_from_log_lsa next_in_set)

lemma la_apply_loop_below:
  assumes "la_apply_loop io cf en up i commit_lsa fp item cnt info = Some ((err, cnt', behind), info')"
    and "i < length (repl_lists (li_repl info))" and "app_below b (get_app i info)"
  shows "app_below b (get_app i info') \<and> (\<forall>it. behind = Some it \<longrightarrow> it_lsa it < b)"
proof -
  have "i < length (repl_lists (li_repl info)) \<longrightarrow> app_below b (get_app i info) \<longrightarrow>
      (\<forall>err cnt' behind info'. r = ((err, cnt', behind), info') \<longrightarrow>
        app_below b (get_app i info') \<and> (\<forall>it. behind = Some it \<longrightarrow> it_lsa it < b))"
    if "la_apply_loop io cf en up i commit_lsa fp item cnt info = Some r" for r
  proof (rule la_apply_loop.raw_induct [OF _ that], goal_cases)
    case (1 f io cf en up i commit_lsa fp item cnt info r)
    show ?case
    proof (rule impI, rule impI)
      assume i: "i < length (repl_lists (li_repl info))" and bl: "app_below b (get_app i info)"
      obtain out k info1 where a: "la_apply_item cf en fp item info = ((out, k), info1)" by (metis surj_pair)
      have g: "get_app i info1 = get_app i info" "li_repl info1 = li_repl info" by (simp_all add: get_app_def la_apply_item_repl [OF a])
      show "\<forall>err cnt' behind info'. r = ((err, cnt', behind), info') \<longrightarrow>
        app_below b (get_app i info') \<and> (\<forall>it. behind = Some it \<longrightarrow> it_lsa it < b)"
      proof (cases out)
        case (Out_end err)
        with 1(2) a g bl show ?thesis by auto
      next
        case Out_retry
        then have "f io cf en up i commit_lsa fp item (cnt + k) info1 = Some r" using 1(2) a by simp
        from 1(1) [OF this] i bl g show ?thesis by simp
      next
        case (Out_next err)
        obtain nx s2 where n: "la_get_next_repl_item io cf up (get_app i info1) item (li_src info1) = Some (nx, s2)"
          using 1(2) a Out_next by (auto split: option.splits)
        define info3 where "info3 = set_app i (la_free_repl_item (get_app i info1) item) (set_src s2 info1)"
        have g3: "app_below b (get_app i info3)" "i < length (repl_lists (li_repl info3))"
          using i bl g by (simp_all add: info3_def app_below_free_item) (simp add: set_app_def set_apply_def)
        have nx: "\<forall>it. nx = Some it \<longrightarrow> it_lsa it < b" using la_get_next_below n bl g(1) by fastforce
        have step: "(case nx of None \<Rightarrow> Some ((err, cnt + k, None), info3)
           | Some it \<Rightarrow> if LSA_GT (it_lsa it) commit_lsa then Some ((err, cnt + k, Some it), info3)
               else f io cf en up i commit_lsa fp it (cnt + k) info3) = Some r"
          using 1(2) a Out_next n unfolding info3_def by simp
        show ?thesis
        proof (cases "\<exists>it. nx = Some it \<and> \<not> LSA_GT (it_lsa it) commit_lsa")
          case True
          then obtain it where "f io cf en up i commit_lsa fp it (cnt + k) info3 = Some r" using step by auto
          from 1(1) [OF this] g3 show ?thesis by blast
        next
          case False
          with step g3 nx show ?thesis by (auto split: option.splits if_splits)
        qed
      qed
    qed
  qed
  with assms show ?thesis by blast
qed

text \<open>The list of the transaction after an entry of the queue.\<close>

lemma app_below_next:
  assumes "app_below b a" and "\<forall>it. nx = Some it \<longrightarrow> it_lsa it < b"
  shows "app_below b (la_free_and_add_next_repl_item a nx c)" and "app_below b (la_free_all_repl_items a)"
proof -
  show "app_below b (la_free_and_add_next_repl_item a nx c)"
    using assms app_below_free_items [OF assms(1)]
    by (auto simp: la_free_and_add_next_repl_item_def la_add_repl_item_def split: option.splits) (auto simp: app_below_def)
  show "app_below b (la_free_all_repl_items a)" by (simp add: la_free_all_repl_items_eq app_below_def)
qed

lemma la_apply_repl_log_inv:
  assumes "la_apply_repl_log io cf en up t ty commit_lsa fp info = Some (err, info')" and "table_inv b (li_repl info)"
  shows "table_inv b (li_repl info')"
proof (cases "t = 0")
  case True
  with la_apply_repl_log_system [of io cf en up ty commit_lsa fp info err info'] assms show ?thesis by (simp add: table_inv_def)
next
  case False
  have inv: "repl_inv (li_repl info)" and inv': "repl_inv (li_repl info')"
    using la_apply_repl_log_repl(1) [OF assms(1) _ False] assms(2) by (auto simp: table_inv_def)
  show ?thesis
  proof (cases "la_find_apply_list t (li_repl info)")
    case None
    with assms show ?thesis by (simp add: la_apply_repl_log_def)
  next
    case (Some i)
    have i: "i < cur_repl (li_repl info)" "ap_tranid (get_app i info) = t"
      using la_find_apply_list_iff(2) [OF inv False, of i] Some by (simp_all add: get_app_def)
    have len: "i < length (repl_lists (li_repl info))" using i(1) inv by (simp add: repl_inv_def)
    have bl: "app_below b (get_app i info)" using table_inv_nth [OF assms(2) i(1)] by (simp add: get_app_def)
    obtain a r2 where r: "li_repl info' = set_apply i a r2" "app_below b a" "only_list i (li_repl info) r2"
    proof (cases "ty = LOG_ABORT \<or> ap_items (get_app i info) = [] \<or> LSA_LE commit_lsa (li_last_committed_lsa info)")
      case True
      then have "info' = set_app i (if ty = LOG_COMMIT_TOPOPE then la_free_all_repl_items (get_app i info) else empty_apply) info"
        using assms(1) Some by (auto simp: la_apply_repl_log_def Let_def split: list.splits if_splits)
      with app_below_next(2) [OF bl, of None] that [of _ "li_repl info"] show thesis by (simp add: set_app_def)
    next
      case F: False
      then obtain item its where it: "ap_items (get_app i info) = item # its" by (meson neq_Nil_conv)
      obtain err1 cnt behind info1 where l: "la_apply_loop io cf en up i commit_lsa fp item 0 (la_lock_dbname en info) = Some ((err1, cnt, behind), info1)"
        using assms(1) Some F it by (auto simp: la_apply_repl_log_def Let_def split: option.splits)
      have L: "app_below b (get_app i info1)" "\<forall>it. behind = Some it \<longrightarrow> it_lsa it < b" "only_list i (li_repl info) (li_repl info1)"
        using la_apply_loop_below [OF l, of b] la_apply_loop_repl [OF l] inv False i len bl by (simp_all add: get_app_def)
      have "info' = set_app i (if ty = LOG_COMMIT_TOPOPE
          then (if behind \<noteq> None then la_free_and_add_next_repl_item (get_app i info1) behind commit_lsa
                else la_free_all_repl_items (get_app i info1)) else empty_apply)
          (info1\<lparr>li_total_rows := li_total_rows info1 + cnt\<rparr>)"
        using assms(1) Some F it l by (auto simp: la_apply_repl_log_def Let_def get_app_def)
      with L app_below_next [OF L(1,2)] that [of _ "li_repl info1"] show thesis by (simp add: set_app_def)
    qed
    have "app_below b x" if x: "x \<in> set (repl_lists (li_repl info'))" for x
    proof -
      obtain j where j: "j < length (repl_lists (li_repl info))" "x = repl_lists (li_repl info') ! j"
        using x r(1,3) by (auto simp: in_set_conv_nth only_list_def set_apply_def)
      then have "x = (if j = i then a else repl_lists (li_repl info) ! j)"
        using r(1,3) by (simp add: set_apply_def only_list_def nth_list_update_cases)
      with j(1) r(2) assms(2) show ?thesis by (auto simp: table_inv_def)
    qed
    with inv' show ?thesis by (simp add: table_inv_def)
  qed
qed

lemma la_apply_commit_list_inv:
  assumes "la_apply_commit_list io cf en up fp info = Some ((err, lsa), info')" and "table_inv b (li_repl info)"
  shows "table_inv b (li_repl info')"
  using assms
  by (auto simp: la_apply_commit_list_def Let_def set_commits_def
      split: list.splits if_splits option.splits dest!: la_apply_repl_log_inv)

lemma la_commit_loop_inv:
  assumes "la_commit_loop io cf en up ty fp info = Some (res, info')" and "table_inv b (li_repl info)"
  shows "table_inv b (li_repl info')"
proof -
  have "table_inv b (li_repl info) \<longrightarrow> table_inv b (li_repl (snd r))"
    if "la_commit_loop io cf en up ty fp info = Some r" for r
  proof (rule la_commit_loop.raw_induct [OF _ that], goal_cases)
    case (1 f io cf en up ty fp info r)
    show ?case
    proof
      assume inv: "table_inv b (li_repl info)"
      obtain err lsa info1 where a: "la_apply_commit_list io cf en up fp info = Some ((err, lsa), info1)"
        using 1(2) by (auto split: option.splits)
      obtain x info2 where st: "la_commit_stop en err info1 = (x, info2)" by force
      have inv2: "table_inv b (li_repl info2)" using la_apply_commit_list_inv [OF a inv] la_commit_stop_frame [OF st] by simp
      show "table_inv b (li_repl (snd r))"
      proof (cases "x = None \<and> \<not> LSA_ISNULL lsa")
        case True
        then have "f io cf en up ty fp (info2\<lparr>li_committed_lsa := lsa, li_commit_counter := (if ty = LOG_COMMIT
            then li_commit_counter info2 + 1 else li_commit_counter info2)\<rparr>) = Some r" using 1(2) a st by simp
        from 1(1) [OF this] inv2 show ?thesis by simp
      next
        case False
        with 1(2) a st have "r = (x, info2)" by (auto split: option.splits if_splits)
        with inv2 show ?thesis by simp
      qed
    qed
  qed
  with assms show ?thesis by fastforce
qed

text \<open>Opening a transaction.\<close>

lemma la_add_apply_list_table:
  assumes "la_add_apply_list mem t r = (Some i, r')" and "table_inv b r" and "t \<noteq> 0"
  shows "table_inv b r'" and "i < cur_repl r'" and "ap_tranid (repl_lists r' ! i) = t"
proof -
  have inv: "repl_inv r" using assms(2) by (simp add: table_inv_def)
  note A = la_add_apply_list_correct [OF inv assms(3,1)]
  show "i < cur_repl r'" "ap_tranid (repl_lists r' ! i) = t" using A by simp_all
  have "app_below b x" if "x \<in> set (repl_lists r')" for x
  proof (cases "x = empty_apply")
    case False
    with that obtain j where j: "j < cur_repl r'" "x = repl_lists r' ! j" "ap_tranid x \<noteq> 0"
      using A(1) unfolding repl_inv_def in_set_conv_nth by (metis not_le)
    then have "tran_of r' (ap_tranid x) = Some x" using tran_of_iff [OF A(1)] by blast
    then have "tran_of r (ap_tranid x) = Some x \<or> x = empty_apply\<lparr>ap_tranid := t\<rparr>"
      using A(4) by (auto split: if_splits option.splits)
    then show ?thesis
    proof
      assume "tran_of r (ap_tranid x) = Some x"
      then obtain k where "k < cur_repl r" "repl_lists r ! k = x" using tran_of_iff [OF inv] by blast
      with table_inv_nth [OF assms(2)] show ?thesis by blast
    next
      assume "x = empty_apply\<lparr>ap_tranid := t\<rparr>"
      then show ?thesis by (simp add: app_below_def empty_apply_def)
    qed
  qed simp
  with A(1) show "table_inv b r'" by (simp add: table_inv_def)
qed

lemma need_shutdown_set_shutdown [simp]: "need_shutdown (li_vols (set_shutdown info))"
  by (simp add: set_shutdown_def)

lemma table_inv_change_app:
  assumes "table_inv b r" and "i < cur_repl r" and "ap_tranid (repl_lists r ! i) \<noteq> 0"
    and "apply_ok a" and "ap_tranid a = ap_tranid (repl_lists r ! i)" and "app_below b a"
  shows "table_inv b (set_apply i a r)"
proof (rule table_inv_set_apply [OF _ assms(1,6)])
  have inv: "repl_inv r" using assms(1) by (simp add: table_inv_def)
  show "repl_inv (set_apply i a r)"
    by (rule set_apply_inv [OF inv assms(2,4)]) (use assms(3,5) repl_inv_uniq [OF inv assms(2,3)] in auto)
qed

lemma la_record_open_inv:
  assumes "la_record_open en lrec info = (err, info')" and "table_inv b (li_repl info)"
  shows "need_shutdown (li_vols info') \<or> table_inv b (li_repl info') \<and> li_final_lsa info' = li_final_lsa info"
    and "err = NO_ERROR \<Longrightarrow> table_inv b (li_repl info') \<and> li_final_lsa info' = li_final_lsa info"
proof -
  have "err \<noteq> NO_ERROR \<and> need_shutdown (li_vols info') \<or> table_inv b (li_repl info') \<and> li_final_lsa info' = li_final_lsa info"
  proof (cases "la_record_first lrec")
    case False
    with assms show ?thesis by (simp add: la_record_open_def)
  next
    case True
    then have t: "lr_trid lrec \<noteq> 0" by (simp add: la_record_first_def)
    obtain x r1 where a: "la_add_apply_list (en_list_mem en (li_w info)) (lr_trid lrec) (li_repl info) = (x, r1)" by force
    show ?thesis
    proof (cases x)
      case None
      with True a assms(1) show ?thesis by (auto simp: la_record_open_def split: if_splits)
    next
      case (Some i)
      note A = la_add_apply_list_table [OF a [unfolded Some] assms(2) t]
      let ?app = "repl_lists r1 ! i"
      have ok: "apply_ok ?app" "app_below b ?app" using A(1,2) table_inv_nth by (auto simp: table_inv_def repl_inv_def)
      have "table_inv b (set_apply i (?app\<lparr>ap_start_lsa := li_final_lsa info\<rparr>) r1)"
        by (rule table_inv_change_app [OF A(1,2)]) (use A(3) t ok in \<open>simp_all add: apply_ok_def app_below_def\<close>)
      with True Some a A assms(1) show ?thesis
        by (auto simp: la_record_open_def Let_def set_app_def get_app_def split: if_splits)
    qed
  qed
  then show "need_shutdown (li_vols info') \<or> table_inv b (li_repl info') \<and> li_final_lsa info' = li_final_lsa info"
    and "err = NO_ERROR \<Longrightarrow> table_inv b (li_repl info') \<and> li_final_lsa info' = li_final_lsa info" by blast+
qed

text \<open>Recording an item.\<close>

lemma la_set_repl_log_table:
  assumes "la_set_repl_log get sz alloc up pg ty t lsa r s = Some ((err, r'), s')"
    and "table_inv lsa r" and "lsa < b" and "t \<noteq> 0"
  shows "table_inv b r'"
proof -
  have inv: "table_inv b r" "repl_inv r" using table_inv_mono [OF assms(2), of b] assms(2,3) by (simp_all add: table_inv_def)
  show ?thesis
  proof (cases "la_find_apply_list t r")
    case None
    with assms(1) inv show ?thesis by (simp add: la_set_repl_log_def)
  next
    case (Some i)
    then have i: "i < cur_repl r" "ap_tranid (repl_lists r ! i) = t" using la_find_apply_list_iff(2) [OF inv(2) assms(4), of i] by simp_all
    let ?app = "repl_lists r ! i"
    have ok: "apply_ok ?app" "app_below b ?app" "app_below lsa ?app"
      using i inv table_inv_nth assms(2) by (auto simp: repl_inv_def)
    have set: "table_inv b (set_apply i a r)" if "apply_ok a" "ap_tranid a = t" "app_below b a" for a
      by (rule table_inv_change_app [OF inv(1) i(1)]) (use that i assms(4) in simp_all)
    have 1: "table_inv b (set_apply i (?app\<lparr>ap_last_lsa := lsa\<rparr>) r)"
      by (rule set) (use ok i assms(3) in \<open>auto simp: apply_ok_def app_below_def\<close>)
    have 2: "table_inv b (set_apply i ((la_free_all_repl_items_except_head ?app)\<lparr>ap_is_long_trans := True, ap_last_lsa := lsa\<rparr>) r)"
      unfolding la_free_all_repl_items_except_head_eq [OF ok(1)]
      by (rule set) (use ok i assms(3) in \<open>auto simp: apply_ok_def app_below_def sorted_wrt_take dest: in_set_takeD\<close>)
    have 3: "table_inv b (set_apply i (la_add_repl_item ?app item) r)"
      if "\<not> ap_is_long_trans ?app" "ap_num_items ?app < LA_MAX_REPL_ITEMS"
        and mk: "la_make_repl_item get sz alloc up pg ty lsa s = Some (Some item, s1)" for item s1
      by (rule set) (use ok i assms(3) that(1,2) la_make_repl_item_lsa [OF mk] in \<open>auto simp: apply_ok_def app_below_def la_add_repl_item_def sorted_wrt_append\<close>)
    show ?thesis
      using assms(1) Some 1 2 3 inv
      by (auto simp: la_set_repl_log_def Let_def split: if_splits option.splits)
  qed
qed

text \<open>Closing a transaction.\<close>

lemma la_free_repl_items_by_tranid_table:
  assumes "table_inv b r"
  shows "table_inv b (la_free_repl_items_by_tranid t r)"
proof (cases "la_find_apply_list t r")
  case None
  with assms show ?thesis by (simp add: la_free_repl_items_by_tranid_def)
next
  case (Some i)
  have inv: "repl_inv r" using assms by (simp add: table_inv_def)
  have i: "i < cur_repl r" using la_find_apply_list_iff(1) [OF inv, of t i] Some by simp
  have "repl_inv (set_apply i empty_apply r)"
    by (rule set_apply_inv [OF inv i]) (simp_all add: empty_apply_def apply_ok_def)
  then have "table_inv b (set_apply i empty_apply r)" by (rule table_inv_set_apply [OF _ assms]) simp
  with Some show ?thesis by (simp add: la_free_repl_items_by_tranid_def Let_def)
qed

lemma queue_table:
  "la_add_unlock_commit_log ok g t lsa r = (err, r') \<Longrightarrow> table_inv b r' = table_inv b r"
  "la_add_abort_log ok g t lsa r = (err, r') \<Longrightarrow> table_inv b r' = table_inv b r"
  "la_set_commit_log t ty lsa tm r = (n, r') \<Longrightarrow> table_inv b r' = table_inv b r"
  by (auto simp: la_add_unlock_commit_log_def la_add_abort_log_def la_set_commit_log_def split: if_splits prod.splits)

lemma la_record_queue_table:
  assumes "la_record_queue add io en lrec info = (out, info')" and "table_inv b (li_repl info)"
    and "add = la_add_unlock_commit_log \<or> add = la_add_abort_log"
  shows "table_inv b (li_repl info')"
  using assms by (auto simp: la_record_queue_def li_malloc_def split: prod.splits if_splits dest!: queue_table(1,2) [where b = b])

lemma la_record_commit_table:
  assumes "la_record_commit io cf en up lrec pg info = Some (out, info')" and "table_inv b (li_repl info)"
  shows "table_inv b (li_repl info')"
proof (cases "LSA_GT (li_final_lsa info) (li_committed_lsa info)")
  case False
  with assms la_free_repl_items_by_tranid_table show ?thesis by (auto simp: la_record_commit_def)
next
  case True
  obtain eot s1 where e: "(if lr_type lrec = LOG_COMMIT_TOPOPE then Some (0, li_src info)
      else la_retrieve_eot_time (la_page_src io (cf_cache cf)) (cf_area cf) pg (li_final_lsa info) (li_src info)) = Some (eot, s1)"
    using assms(1) True by (auto simp: la_record_commit_def split: option.splits)
  define info2 where "info2 = (let info1 = set_src s1 info in if cf_enable_plugin cf \<and> eot \<noteq> 0
      then info1\<lparr>li_w := en_plugin_time en eot (li_w info1)\<rparr> else info1)"
  have r2: "li_repl info2 = li_repl info" by (simp add: info2_def Let_def)
  obtain n r3 where c: "la_set_commit_log (lr_trid lrec) (lr_type lrec) (li_final_lsa info2) eot (li_repl info2) = (n, r3)" by force
  have r3: "table_inv b r3" using queue_table(3) [OF c, of b] assms(2) r2 by simp
  define info3 where "info3 = info2\<lparr>li_repl := r3\<rparr>"
  define info5 where "info5 = ((if eot \<noteq> 0 then info3\<lparr>li_w := en_delay_replica en eot (li_w info3)\<rparr> else info3)\<lparr>li_busy := True\<rparr>)"
  have r5: "li_repl info5 = r3" by (simp add: info5_def info3_def)
  have step: "(if n \<le> 0 then Some (Rc_break, info3\<lparr>li_repl := la_free_repl_items_by_tranid (lr_trid lrec) r3\<rparr>)
      else case la_commit_loop io cf en up (lr_type lrec) (lp_logical_pageid pg) info5 of
             None \<Rightarrow> None
           | Some (Some e, info6) \<Rightarrow> Some (Rc_return e, info6)
           | Some (None, info6) \<Rightarrow> Some (Rc_break, info6)) = Some (out, info')"
    using assms(1) True e c
    unfolding la_record_commit_def info5_def info3_def info2_def Let_def by (simp only: option.case prod.case not_True_eq_False if_False)
  show ?thesis
  proof (cases "n \<le> 0")
    case True
    with step la_free_repl_items_by_tranid_table [OF r3] show ?thesis by auto
  next
    case False
    then obtain res where "la_commit_loop io cf en up (lr_type lrec) (lp_logical_pageid pg) info5 = Some (res, info')"
      using step by (auto split: option.splits)
    from la_commit_loop_inv [OF this, of b] r3 r5 show ?thesis by simp
  qed
qed

lemma li_page_exist_repl: "li_page_exist io cf p info = Some (r, info') \<Longrightarrow> li_repl info' = li_repl info"
  by (auto simp: li_page_exist_def split: option.splits)

lemma skip_page_repl [simp]: "li_repl (skip_page info) = li_repl info"
  by (simp add: skip_page_def)

lemma la_record_end_of_log_repl:
  "la_record_end_of_log io cf info = Some (out, info') \<Longrightarrow> li_repl info' = li_repl info"
  by (auto simp: la_record_end_of_log_def split: option.splits if_splits dest!: li_page_exist_repl)

lemma la_record_ha_state_repl:
  "la_record_ha_state io cf en pg info = Some (out, info') \<Longrightarrow> li_repl info' = li_repl info"
  by (auto simp: la_record_ha_state_def Let_def commit_frame_def split: option.splits if_splits prod.splits
      dest!: la_log_commit_frame(1))

text \<open>The record itself. Replication records belong to a transaction.\<close>

definition record_ok :: "log_record_header \<Rightarrow> bool" where
  "record_ok lrec \<longleftrightarrow> (lr_type lrec = LOG_REPLICATION_DATA \<or> lr_type lrec = LOG_REPLICATION_SCHEMA \<longrightarrow> lr_trid lrec \<noteq> LOG_SYSTEM_TRANID)"

lemma la_record_switch_table:
  assumes "la_record_switch io cf en up lrec pg info = Some (out, info')" and "table_inv (li_final_lsa info) (li_repl info)"
    and "li_final_lsa info < b" and "record_ok lrec"
  shows "table_inv b (li_repl info')"
proof -
  have inv: "table_inv b (li_repl info)" using table_inv_mono [OF assms(2), of b] assms(3) by simp
  consider (repl) "lr_type lrec = LOG_REPLICATION_DATA \<or> lr_type lrec = LOG_REPLICATION_SCHEMA"
    | (unlock) "lr_type lrec = LOG_UNLOCK_COMMIT" | (topope) "lr_type lrec = LOG_COMMIT_TOPOPE"
    | (commit) "lr_type lrec = LOG_COMMIT" | (abort) "lr_type lrec = LOG_ABORT"
    | (other) "li_repl info' = li_repl info"
    using assms(1) by (auto simp: la_record_switch_def split: if_splits dest: la_record_end_of_log_repl la_record_ha_state_repl)
  then show ?thesis
  proof cases
    case repl
    then obtain err r' s1 where s: "la_set_repl_log (la_page_src io (cf_cache cf)) (cf_area cf) (src_alloc io) up pg
        (lr_type lrec) (lr_trid lrec) (li_final_lsa info) (li_repl info) (li_src info) = Some ((err, r'), s1)" "li_repl info' = r'"
      using assms(1) by (auto simp: la_record_switch_def Let_def split: option.splits if_splits)
    from la_set_repl_log_table [OF s(1) assms(2,3)] repl assms(4) s(2) show ?thesis by (auto simp: record_ok_def)
  next
    case unlock
    then have "la_record_queue la_add_unlock_commit_log io en lrec info = (out, info')"
      using assms(1) by (simp add: la_record_switch_def)
    from la_record_queue_table [OF this inv] show ?thesis by simp
  next
    case topope
    obtain o1 info1 where q: "la_record_queue la_add_unlock_commit_log io en lrec info = (o1, info1)" by force
    have "table_inv b (li_repl info1)" using la_record_queue_table [OF q inv] by simp
    with assms(1) topope q la_record_commit_table show ?thesis by (cases o1) (auto simp: la_record_switch_def)
  next
    case commit
    with assms(1) inv la_record_commit_table show ?thesis by (auto simp: la_record_switch_def)
  next
    case abort
    then have "la_record_queue la_add_abort_log io en lrec info = (out, info')"
      using assms(1) by (simp add: la_record_switch_def)
    from la_record_queue_table [OF this inv] show ?thesis by simp
  next
    case other
    with inv show ?thesis by simp
  qed
qed

lemma la_log_record_process_table:
  assumes "la_log_record_process io cf en up lrec pg info = Some (err, info')"
    and "table_inv (li_final_lsa info) (li_repl info)" and "li_final_lsa info < b" and "record_ok lrec"
  shows "need_shutdown (li_vols info') \<or> table_inv b (li_repl info')"
proof (cases "la_record_corrupt lrec (li_final_lsa info)")
  case True
  with assms(1) show ?thesis by (auto simp: la_log_record_process_def)
next
  case False
  obtain err0 info0 where o: "la_record_open en lrec info = (err0, info0)" by force
  note O = la_record_open_inv [OF o assms(2)]
  show ?thesis
  proof (cases "err0 = NO_ERROR")
    case F: False
    with assms(1) False o have "info' = info0" by (simp add: la_log_record_process_def)
    with O(1) table_inv_mono assms(3) show ?thesis by (auto intro: order.strict_implies_order)
  next
    case True
    define infoA where "infoA = info0\<lparr>li_is_end_of_record := False\<rparr>"
    have A: "table_inv (li_final_lsa infoA) (li_repl infoA)" "li_final_lsa infoA < b"
      using O(2) [OF True] assms(3) by (simp_all add: infoA_def)
    obtain out info1 where s: "la_record_switch io cf en up lrec pg infoA = Some (out, info1)"
      using assms(1) False o True by (auto simp: la_log_record_process_def infoA_def split: option.splits)
    have "li_repl info' = li_repl info1"
      using assms(1) False o True s unfolding infoA_def
      by (cases out) (auto simp: la_log_record_process_def split: option.splits if_splits dest!: li_page_exist_repl)
    with la_record_switch_table [OF s A assms(4)] show ?thesis by simp
  qed
qed

text \<open>A record that fails without asking for a shutdown adds nothing to the table.\<close>

lemma la_log_record_process_failed:
  assumes "la_log_record_process io cf en up lrec pg info = Some (err, info')" and "err \<noteq> NO_ERROR" and "\<not> la_record_last lrec"
    and "table_inv b (li_repl info)"
  shows "need_shutdown (li_vols info') \<or> table_inv b (li_repl info')"
proof (cases "la_record_corrupt lrec (li_final_lsa info)")
  case True
  with assms(1) show ?thesis by (auto simp: la_log_record_process_def)
next
  case False
  obtain err0 info0 where o: "la_record_open en lrec info = (err0, info0)" by force
  note O = la_record_open_inv [OF o assms(4)]
  show ?thesis
  proof (cases "err0 = NO_ERROR")
    case F: False
    with assms(1) False o O(1) show ?thesis by (auto simp: la_log_record_process_def)
  next
    case True
    define infoA where "infoA = info0\<lparr>li_is_end_of_record := False\<rparr>"
    have A: "table_inv b (li_repl infoA)" using O(2) [OF True] by (simp add: infoA_def)
    have s: "la_record_switch io cf en up lrec pg infoA = Some (Rc_return err, info')"
      using assms(1-3) False o True by (auto simp: la_log_record_process_def infoA_def split: option.splits rec_out.splits)
    consider (repl) "lr_type lrec = LOG_REPLICATION_DATA \<or> lr_type lrec = LOG_REPLICATION_SCHEMA"
      | (queue) add where "la_record_queue add io en lrec infoA = (Rc_return err, info')" "add = la_add_unlock_commit_log \<or> add = la_add_abort_log"
      | (commit) infoB where "la_record_commit io cf en up lrec pg infoB = Some (Rc_return err, info')" "table_inv b (li_repl infoB)"
      | (other) "li_repl info' = li_repl infoA"
      using s A
      by (auto simp: la_record_switch_def split: if_splits prod.splits rec_out.splits
          dest: la_record_end_of_log_repl la_record_ha_state_repl la_record_queue_table)
    then show ?thesis
    proof cases
      case repl
      with s show ?thesis by (auto simp: la_record_switch_def Let_def split: option.splits if_splits)
    next
      case queue
      from la_record_queue_table [OF queue(1) A queue(2)] show ?thesis by simp
    next
      case commit
      from la_record_commit_table [OF commit] show ?thesis by simp
    qed (use A in simp)
  qed
qed

section \<open>Runs of the applier\<close>

text \<open>
  The states the applier reaches: from the table it starts with, by processing
  records at growing addresses, by records that fail and may be processed
  again, by committing and by changing its state. Between the steps its caller
  may change everything but the table. \<open>f\<close> is the address of the last record
  processed without an error.
\<close>

inductive la_run :: "'w la_io \<Rightarrow> la_config \<Rightarrow> ('v, 'w) la_env \<Rightarrow> 'v la_values \<Rightarrow> log_lsa \<Rightarrow> ('v, 'w) la_info \<Rightarrow> bool"
  for io cf en up where
  run_start: "la_init_repl_lists mem False r0 = (NO_ERROR, li_repl info) \<Longrightarrow> la_run io cf en up f info"
| run_other: "la_run io cf en up f info \<Longrightarrow> li_repl info' = li_repl info \<Longrightarrow> la_run io cf en up f info'"
| run_record: "la_run io cf en up f info \<Longrightarrow> f < li_final_lsa info \<Longrightarrow> record_ok lrec \<Longrightarrow>
    la_log_record_process io cf en up lrec pg info = Some (err, info') \<Longrightarrow> \<not> need_shutdown (li_vols info') \<Longrightarrow>
    la_run io cf en up (li_final_lsa info) info'"
| run_failed: "la_run io cf en up f info \<Longrightarrow> la_log_record_process io cf en up lrec pg info = Some (err, info') \<Longrightarrow> err \<noteq> NO_ERROR \<Longrightarrow>
    \<not> la_record_last lrec \<Longrightarrow> \<not> need_shutdown (li_vols info') \<Longrightarrow> la_run io cf en up f info'"
| run_commit: "la_run io cf en up f info \<Longrightarrow> la_check_time_commit cf en t threshold info = (res, info') \<Longrightarrow> la_run io cf en up f info'"
| run_state: "la_run io cf en up f info \<Longrightarrow> la_change_state cf en info = (err, info') \<Longrightarrow> la_run io cf en up f info'"

lemma la_clear_all_table:
  assumes "table_inv b r"
  shows "table_inv b (la_clear_all_repl_and_commit_list r)"
proof -
  have "table_inv b (fold (\<lambda>i r. la_free_repl_items_by_tranid (ap_tranid (repl_lists r ! i)) r) is r)" for "is"
    using assms by (induction "is" arbitrary: r) (simp_all add: la_free_repl_items_by_tranid_table)
  then show ?thesis by (simp add: la_clear_all_repl_and_commit_list_def)
qed

lemma la_change_state_table:
  assumes "la_change_state cf en info = (err, info')" and "table_inv b (li_repl info)"
  shows "table_inv b (li_repl info')"
  using assms la_clear_all_table [OF assms(2)]
  by (auto simp: la_change_state_def Let_def commit_frame_def split: if_splits option.splits prod.splits
      dest!: la_log_commit_frame(1))

lemma la_check_time_commit_repl:
  "la_check_time_commit cf en t threshold info = (res, info') \<Longrightarrow> li_repl info' = li_repl info"
  by (auto simp: la_check_time_commit_def Let_def commit_frame_def split: if_splits prod.splits
      dest!: la_log_commit_frame(1))

lemma init_table: "la_init_repl_lists mem False r0 = (NO_ERROR, r) \<Longrightarrow> table_inv b r"
  using la_init_repl_lists_inv(1) [of mem r0 r]
  by (auto simp: table_inv_def la_init_repl_lists_def Let_def split: if_splits)

lemma la_run_table:
  assumes "la_run io cf en up f info" and "f < b"
  shows "table_inv b (li_repl info)"
  using assms
proof (induction arbitrary: b rule: la_run.induct)
  case (run_start mem r0 info f)
  then show ?case by (simp add: init_table)
next
  case (run_other f info info')
  then show ?case by simp
next
  case (run_record f info lrec pg err info')
  then have "table_inv (li_final_lsa info) (li_repl info)" by simp
  from la_log_record_process_table [OF run_record.hyps(4) this run_record.prems run_record.hyps(3)] run_record.hyps(5)
  show ?case by simp
next
  case (run_failed f info lrec pg err info')
  from la_log_record_process_failed [OF run_failed.hyps(2-4) run_failed.IH [OF run_failed.prems]] run_failed.hyps(5)
  show ?case by simp
next
  case (run_commit f info t threshold res info')
  then show ?case using la_check_time_commit_repl by metis
next
  case (run_state f info err info')
  then show ?case using la_change_state_table by metis
qed

section \<open>Properties\<close>

text \<open>
  C8. The invariant of the applier. Whatever records are processed, with
  whatever errors on the way, as long as no shutdown is asked for: each open
  transaction has one list, in which its items are in the order of the log,
  none behind the last record processed, as many as are counted, and never more
  than the limit.
\<close>

theorem applier_transactions_invariant:
  assumes "la_run io cf en up f info" and "tran_of (li_repl info) t = Some a"
  shows "ap_tranid a = t \<and> sorted_wrt (\<lambda>x y. it_lsa x < it_lsa y) (ap_items a) \<and> (\<forall>x \<in> set (ap_items a). it_lsa x \<le> f) \<and>
    ap_num_items a = int (length (ap_items a)) \<and> ap_num_items a \<le> LA_MAX_REPL_ITEMS \<and>
    (ap_is_long_trans a \<longrightarrow> length (ap_items a) \<le> 1 \<and> ap_last_lsa a \<le> f)"
proof -
  have inv: "repl_inv (li_repl info)"
    using la_run_table [OF assms(1), of "LSA (lsa_pageid f + 1) 0"] by (simp add: table_inv_def less_log_lsa_def)
  obtain i where i: "i < cur_repl (li_repl info)" "repl_lists (li_repl info) ! i = a" "ap_tranid a = t"
    using tran_of_iff [OF inv] assms(2) by blast
  have ok: "apply_ok a" using inv i by (auto simp: repl_inv_def)
  have below: "app_below b a" if "f < b" for b using table_inv_nth [OF la_run_table [OF assms(1) that] i(1)] i(2) by simp
  have "it_lsa x \<le> f" if "x \<in> set (ap_items a)" for x
    using below [of "it_lsa x"] that by (force simp: app_below_def not_less [symmetric])
  moreover have "ap_last_lsa a \<le> f" if "ap_is_long_trans a"
    using below [of "ap_last_lsa a"] that by (force simp: app_below_def not_less [symmetric])
  ultimately show ?thesis using ok i(3) by (auto simp: apply_ok_def)
qed

definition ex_first :: log_record_header where
  "ex_first = \<lparr>lr_prev_tranlsa = LSA_NULL, lr_back_lsa = LSA 32 0, lr_forw_lsa = LSA 33 80, lr_trid = 9, lr_type = 5\<rparr>"

lemma ex_first_processed:
  "\<exists>info'. la_log_record_process ex_io ex_conf ex_env up ex_first (ex_page 33) ex_info = Some (NO_ERROR, info') \<and>
     \<not> need_shutdown (li_vols info') \<and> (\<exists>a. tran_of (li_repl info') 9 = Some a)"
proof -
  let ?r = "snd (la_add_apply_list (\<lambda>_. True) 9 (ex_repl :: unit la_repl))"
  obtain i r where a: "la_add_apply_list (\<lambda>_. True) 9 (ex_repl :: unit la_repl) = (Some i, r)"
    using la_add_apply_list_some by metis
  note A = la_add_apply_list_correct [OF ex_repl_inv(1) _ a]
  have t: "tran_of (set_apply i ((repl_lists r ! i)\<lparr>ap_start_lsa := l\<rparr>) r) 9 \<noteq> None" for l
  proof -
    have ok: "apply_ok (repl_lists r ! i)" using A(1,2) by (auto simp: repl_inv_def)
    have "tran_of (set_apply i ((repl_lists r ! i)\<lparr>ap_start_lsa := l\<rparr>) r) =
        (tran_of r)(9 := Some ((repl_lists r ! i)\<lparr>ap_start_lsa := l\<rparr>))"
      using set_apply_tran(2) [OF A(1,2,3), of "(repl_lists r ! i)\<lparr>ap_start_lsa := l\<rparr>"] A(3) ok by (simp add: apply_ok_def)
    then show ?thesis by simp
  qed
  have t': "tran_of r 9 \<noteq> None" using A(4) by simp
  show ?thesis
    using a t t'
    by (auto simp: la_log_record_process_def la_record_corrupt_def ex_first_def ex_info_def LSA_NULL_def lsa_simps less_log_lsa_def
        la_record_open_def la_record_first_def LSA_ISNULL_def ex_env_def la_record_switch_def la_record_last_def Let_def
        set_app_def get_app_def ex_vols_def)
qed

lemma applier_transactions_invariant_witness:
  "\<exists>info' a. la_run ex_io ex_conf ex_env \<lparr>up_mem_value = \<lambda>_. (), mk_string = \<lambda>_. ()\<rparr> (LSA 33 0) info' \<and>
     tran_of (li_repl info') 9 = Some a \<and> ap_num_items a = int (length (ap_items a))"
proof -
  let ?up = "\<lparr>up_mem_value = \<lambda>_ :: byte list. (), mk_string = \<lambda>_ :: byte list option. ()\<rparr>"
  obtain info' a where p: "la_log_record_process ex_io ex_conf ex_env ?up ex_first (ex_page 33) ex_info = Some (NO_ERROR, info')"
    "\<not> need_shutdown (li_vols info')" and a: "tran_of (li_repl info') 9 = Some a"
    using ex_first_processed [of ?up] by blast
  have s: "la_run ex_io ex_conf ex_env ?up (LSA 32 0) ex_info"
    using run_start [of "\<lambda>_. True" _ ex_info] ex_repl_init by (simp add: ex_info_def)
  have f: "li_final_lsa ex_info = LSA 33 0" by (simp add: ex_info_def)
  have r: "la_run ex_io ex_conf ex_env ?up (LSA 33 0) info'"
    using run_record [OF s _ _ p] by (simp add: f less_log_lsa_def record_ok_def ex_first_def)
  from applier_transactions_invariant [OF r a] r a show ?thesis by auto
qed

text \<open>
  C13. The loop over the commit queue, with any slave: where it ends without an
  error to return, it has taken exactly the entries ready at the head of the
  queue, in order, and has not touched any transaction that none of them
  belongs to.
\<close>

theorem commit_queue_prefix:
  assumes "la_commit_loop io cf en up ty fp info = Some (None, info')" and "repl_inv (li_repl info)"
    and "\<forall>c \<in> set (commits (li_repl info)). \<not> LSA_ISNULL (co_log_lsa c)"
  shows "commits (li_repl info') = dropWhile co_ready (commits (li_repl info)) \<and>
    (\<forall>u. u \<notin> co_tranid ` set (takeWhile co_ready (commits (li_repl info))) \<longrightarrow> tran_of (li_repl info') u = tran_of (li_repl info) u)"
  using la_commit_loop_result [OF assms] by blast

lemma commit_queue_prefix_witness:
  "\<exists>info'. la_commit_loop ex_io ex_conf ex_env \<lparr>up_mem_value = \<lambda>_. (), mk_string = \<lambda>_. ()\<rparr> LOG_COMMIT 33 ex_state = Some (None, info') \<and>
     tran_of (li_repl info') 7 = tran_of (li_repl ex_state) 7"
proof -
  have q: "\<forall>c \<in> set (commits (li_repl ex_state)). \<not> LSA_ISNULL (co_log_lsa c) \<and> co_tranid c \<noteq> 0"
    by (simp add: ex_table_def LSA_ISNULL_def)
  obtain info' where l: "la_commit_loop ex_io ex_conf ex_env \<lparr>up_mem_value = \<lambda>_. (), mk_string = \<lambda>_. ()\<rparr> LOG_COMMIT 33 ex_state
      = Some (None, info')"
    using sr.commit_loop_takes [OF ex_slave_takes short_kept ex_state_inv(1) short_trans [OF ex_state_inv] TrueI q] by (metis surj_pair)
  have "7 \<notin> co_tranid ` set (takeWhile co_ready (commits (li_repl ex_state)))" unfolding ex_ready by (simp add: ex_table_def)
  with commit_queue_prefix [OF l ex_state_inv(1)] q l show ?thesis by auto
qed

end
