(* ===== verification/Repl_Roundtrip.thy ===== *)
theory Repl_Roundtrip
  imports Replication La_Invariant
begin

text \<open>
  From the server to the applier: a replication record that the server wrote
  into the log (\<^verbatim>\<open>transaction/replication.c\<close>,
  \<^verbatim>\<open>transaction/log_page_buffer.c\<close>) is read back by the applier
  (\<^verbatim>\<open>transaction/log_applier.c\<close>), through its page cache, as the item the
  server recorded.
\<close>

section \<open>Where the applier looks for the parts of a record\<close>

lemma on_tape_log_bytes:
  assumes "0 < sz" and "on_tape (tape sz pages) (gpos sz (p, off)) data"
  shows "log_bytes pages sz p off (length data) = data"
  using assms by (intro nth_equalityI) (simp_all add: log_bytes_tape on_tape_def)

lemma fixed_at_header:
  assumes "area_size_ok sz" and "rec_ok sz (p, off)" and "hl + 8 < sz"
  shows "fixed_at sz p (SIZEOF_LOG_RECORD_HEADER + off) hl = rec_header_pos sz hl (p, off)"
proof -
  let ?a = "DB_ALIGN (off + 32) 8"
  have "?a \<le> sz"
  proof -
    obtain k where k: "sz = 8 * k" using assms(1) by (auto simp: area_size_ok_def dvd_def)
    have "off + 32 < 8 * k" using assms(2) k by (simp add: rec_ok_def)
    then have "(off + 39) div 8 \<le> k" by presburger
    then show ?thesis using k by (simp add: DB_ALIGN_def)
  qed
  then consider "?a = sz" | "?a < sz" by linarith
  then show ?thesis
  proof cases
    case 1
    then show ?thesis using assms(1,3)
      by (simp add: fixed_at_def rec_header_pos_def LOG_PRIOR_LSA_APPEND_ADD_ALIGN_def LOG_PRIOR_LSA_APPEND_ALIGN_def
          LOG_PRIOR_LSA_APPEND_ADVANCE_WHEN_DOESNOT_FIT_def Let_def add.commute area_size_ok_def)
  next
    case 2
    then show ?thesis
      by (simp add: fixed_at_def rec_header_pos_def LOG_PRIOR_LSA_APPEND_ADD_ALIGN_def LOG_PRIOR_LSA_APPEND_ALIGN_def
          LOG_PRIOR_LSA_APPEND_ADVANCE_WHEN_DOESNOT_FIT_def Let_def add.commute)
  qed
qed

text \<open>Earlier places on the tape are on earlier pages.\<close>

lemma page_mono: "0 < sz \<Longrightarrow> snd a < sz \<Longrightarrow> snd b < sz \<Longrightarrow> gpos sz a \<le> gpos sz b \<Longrightarrow> fst a \<le> fst b"
  using gpos_div_mod [of a sz] gpos_div_mod [of b sz] zdiv_mono1 [of "gpos sz a" "gpos sz b" "int sz"] by simp

lemma tape_page: "0 < sz \<Longrightarrow> gpos sz (p, off) div int sz = p + int (off div sz)"
  by (simp add: gpos_def zdiv_int)

text \<open>The pages from \<open>p\<close> on that hold the tape up to \<open>e\<close> can be had.\<close>

definition pages_before :: "(log_pageid \<Rightarrow> log_page) \<Rightarrow> (log_pageid \<Rightarrow> bool) \<Rightarrow> nat \<Rightarrow> int \<Rightarrow> log_pageid \<Rightarrow> bool" where
  "pages_before page P sz e p \<longleftrightarrow> (\<forall>q. length (lp_area (page q)) = sz) \<and> (\<forall>q. p \<le> q \<and> q * int sz < e \<longrightarrow> P q)"

lemma pages_before_upto:
  assumes "pages_before page P sz e p" and "0 < sz" and "p \<le> p1" and "q \<le> g div int sz" and "g < e"
  shows "pages_upto page P sz p1 q"
proof -
  have "P r" if "p1 < r" "r \<le> q" for r
  proof -
    have "r * int sz \<le> g div int sz * int sz" using that(2) assms(4) by (intro mult_right_mono) simp_all
    also have "\<dots> \<le> g" using assms(2) by (simp add: minus_mod_eq_div_mult [symmetric])
    finally show ?thesis using assms(1,3,5) that(1) by (simp add: pages_before_def)
  qed
  then show ?thesis using assms(1) by (simp add: pages_upto_def pages_before_def)
qed

text \<open>A cursor in the page it is on, at the place \<open>g\<close> of the tape.\<close>

definition cursor_at :: "(log_pageid \<Rightarrow> log_page) \<Rightarrow> nat \<Rightarrow> int \<Rightarrow> log_cursor \<Rightarrow> bool" where
  "cursor_at page sz g cu \<longleftrightarrow> on_page page sz cu \<and> gpos sz (cu_pageid cu, cu_offset cu) = g \<and> cu_offset cu < sz"

lemma cursor_at_page: "cursor_at page sz g cu \<Longrightarrow> cu_pageid cu = g div int sz"
  using gpos_div_mod [of "(cu_pageid cu, cu_offset cu)" sz] by (simp add: cursor_at_def)

text \<open>
  A replication record whose parts are on the tape, before \<open>e\<close>, on pages that
  can be had.
\<close>

definition rec_readable :: "(log_pageid \<Rightarrow> log_page) \<Rightarrow> (log_pageid \<Rightarrow> bool) \<Rightarrow> nat \<Rightarrow> int \<Rightarrow> log_pos \<Rightarrow> log_lsa \<Rightarrow> int \<Rightarrow> byte list \<Rightarrow> bool" where
  "rec_readable page P sz e pos tgt rcv data \<longleftrightarrow> rec_ok sz pos \<and> pages_before page P sz e (fst pos) \<and>
     on_tape (tape sz page) (gpos sz (rec_header_pos sz 16 pos)) (wr_log_replication tgt (int (length data)) rcv) \<and>
     on_tape (tape sz page) (rec_udata_at sz 16 pos) data \<and> rec_udata_at sz 16 pos + int (length data) \<le> e \<and>
     rec_udata_at sz 16 pos < e \<and> lsa_fits tgt \<and> int (length data) < 2 ^ 31 \<and> 0 \<le> rcv \<and> rcv < 2 ^ 31"

lemma repl_header_fields:
  assumes "rec_readable page P sz e pos tgt rcv data"
  shows "rd_int 4 8 (wr_log_replication tgt (int (length data)) rcv @ rest) = int (length data)"
    and "rd_int 4 12 (wr_log_replication tgt (int (length data)) rcv @ rest) = rcv"
    and "rd_lsa 0 (wr_log_replication tgt (int (length data)) rcv @ rest) = tgt"
  using assms rd_wr_int [of 4 "int (length data)" "wr_lsa tgt" "wr_int 4 rcv @ rest"]
    rd_wr_int [of 4 rcv "wr_lsa tgt @ wr_int 4 (int (length data))" rest]
    rd_wr_lsa [of tgt "[]" "wr_int 4 (int (length data)) @ wr_int 4 rcv @ rest"]
  by (simp_all add: wr_log_replication_def rec_readable_def)

context page_source
begin

lemma read_align:
  assumes "MAX_ALIGNMENT dvd sz" and "0 < sz" and "valid s" and "on_page page sz cu"
    and "pages_upto page P sz (cu_pageid cu) (cu_pageid cu + int (DB_ALIGN (cu_offset cu) MAX_ALIGNMENT div sz))"
  shows "\<exists>cu' s'. LA_LOG_READ_ALIGN get sz err cu s = Some ((err, cu'), s') \<and> valid s' \<and> on_page page sz cu' \<and>
    gpos sz (cu_pageid cu', cu_offset cu') = align8 (gpos sz (cu_pageid cu, cu_offset cu)) \<and> cu_offset cu' < sz"
proof -
  let ?a = "DB_ALIGN (cu_offset cu) MAX_ALIGNMENT"
  have "on_page page sz (cu\<lparr>cu_offset := ?a\<rparr>)" using assms(4) by (simp add: on_page_def)
  from align_loop [OF assms(1-3) this, of err] assms(5) obtain cu' s' where
    1: "LA_LOG_READ_ALIGN get sz err cu s = Some ((err, cu'), s')" "valid s'" "on_page page sz cu'"
    "cu_pageid cu' = cu_pageid cu + int (?a div sz)" "cu_offset cu' = ?a mod sz"
    by (auto simp: LA_LOG_READ_ALIGN_def DB_ALIGN_dvd)
  have "8 dvd cu_pageid cu * int sz" using assms(1) by (auto elim!: dvdE)
  then have "align8 (gpos sz (cu_pageid cu, cu_offset cu)) = cu_pageid cu * int sz + int ?a"
    by (simp add: gpos_def align8_add align_int)
  also have "\<dots> = gpos sz (cu_pageid cu', cu_offset cu')"
    using 1(4,5) by (simp add: gpos_def algebra_simps flip: of_nat_mult of_nat_add)
  finally show ?thesis using 1 assms(2) by (intro exI [of _ cu'] exI [of _ s']) simp
qed

text \<open>Reading the fixed part of a record.\<close>

lemma step_fixed:
  assumes "area_size_ok sz" and "valid s" and "pages_before page P sz e p" and "rec_ok sz (p, off)" and "lsa_of (p, off) = lsa"
    and "on_tape (tape sz page) (gpos sz (rec_header_pos sz (length hdr) (p, off))) hdr" and "length hdr + 8 < sz"
    and "gpos sz (rec_header_pos sz (length hdr) (p, off)) < e"
  obtains cu s1 where "la_read_fixed get sz (length hdr) (rec_body (page p) lsa) s = Some ((NO_ERROR, cu), s1)" "valid s1"
    "cursor_at page sz (gpos sz (rec_header_pos sz (length hdr) (p, off))) cu" "take (length hdr) (cu_bytes cu) = hdr" "p \<le> cu_pageid cu"
proof -
  note sz = area_size_okD [OF assms(1)]
  let ?n = "length hdr" and ?cu = "rec_body (page p) lsa"
  obtain hp ho where h: "rec_header_pos sz ?n (p, off) = (hp, ho)" by (cases "rec_header_pos sz ?n (p, off)")
  have "snd (rec_header_pos sz ?n (p, off)) + ?n < sz"
    unfolding rec_header_pos_def using assms(7) by (intro advance_fits) simp
  then have hfit: "ho + ?n < sz" using h by simp
  have len: "\<And>q. length (lp_area (page q)) = sz" using assms(3) by (simp add: pages_before_def)
  have cu: "cu_pageid ?cu = p" "cu_offset ?cu = 32 + off" "on_page page sz ?cu"
    using len assms(5) by (auto simp: rec_body_def lsa_of_def on_page_def)
  have f: "fixed_at sz (cu_pageid ?cu) (cu_offset ?cu) ?n = (hp, ho)"
    using fixed_at_header [OF assms(1,4,7)] h cu by simp
  have hp: "hp \<le> gpos sz (hp, ho) div int sz" using gpos_div_mod [of "(hp, ho)" sz] hfit by simp
  have "pages_upto page P sz p hp" by (rule pages_before_upto [OF assms(3) sz(2) _ hp]) (use assms(8) h in simp_all)
  then obtain cu s1 where 1: "la_read_fixed get sz ?n ?cu s = Some ((NO_ERROR, cu), s1)" "valid s1" "on_page page sz cu"
    "cu_pageid cu = hp" "cu_offset cu = ho"
    using read_fixed [OF sz assms(2) cu(3), of ?n] f cu(1) by auto
  have "log_bytes page sz hp ho ?n = hdr" by (rule on_tape_log_bytes [OF sz(2)]) (use assms(6) h in simp)
  then have "take ?n (cu_bytes cu) = hdr"
    using log_bytes_in_page [of ho ?n sz page hp] hfit len 1 by (simp add: cu_bytes_def on_page_def)
  moreover have "fst (p, off) \<le> fst (hp, ho)"
    using page_mono [OF sz(2), of "(p, off)" "(hp, ho)"] rec_header_after [OF assms(1,4), of ?n] assms(4) h hfit
    by (simp add: rec_ok_def)
  ultimately show thesis using that 1 h hfit by (simp add: cursor_at_def)
qed

text \<open>Moving on by \<open>n\<close> bytes and aligning.\<close>

lemma step_align:
  assumes "area_size_ok sz" and "valid s" and "pages_before page P sz e p" and "cursor_at page sz g cu" and "p \<le> cu_pageid cu"
    and "align8 (g + int n) < e"
  obtains cu' s' where "LA_LOG_READ_ADD_ALIGN get sz NO_ERROR n cu s = Some ((NO_ERROR, cu'), s')" "valid s'"
    "cursor_at page sz (align8 (g + int n)) cu'" "p \<le> cu_pageid cu'"
proof -
  note sz = area_size_okD [OF assms(1)]
  let ?cu = "cu\<lparr>cu_offset := cu_offset cu + n\<rparr>"
  have o: "on_page page sz ?cu" and g: "gpos sz (cu_pageid ?cu, cu_offset ?cu) = g + int n"
    using assms(4) by (simp_all add: cursor_at_def on_page_def gpos_def)
  have "8 dvd cu_pageid cu * int sz" using sz(1) by (auto elim!: dvdE)
  then have ga: "gpos sz (cu_pageid cu, DB_ALIGN (cu_offset cu + n) 8) = align8 (g + int n)"
    unfolding g [symmetric] by (simp add: gpos_def align8_add align_int)
  have "cu_pageid cu + int (DB_ALIGN (cu_offset cu + n) 8 div sz) \<le> align8 (g + int n) div int sz"
    unfolding ga [symmetric] tape_page [OF sz(2)] ..
  from pages_before_upto [OF assms(3) sz(2) assms(5) this assms(6)]
  have "pages_upto page P sz (cu_pageid ?cu) (cu_pageid ?cu + int (DB_ALIGN (cu_offset ?cu) MAX_ALIGNMENT div sz))" by simp
  from read_align [OF sz assms(2) o this, of NO_ERROR] g obtain cu' s' where
    1: "LA_LOG_READ_ALIGN get sz NO_ERROR ?cu s = Some ((NO_ERROR, cu'), s')" "valid s'" "cursor_at page sz (align8 (g + int n)) cu'"
    by (auto simp: cursor_at_def)
  have "cu_pageid cu \<le> cu_pageid cu'"
    unfolding cursor_at_page [OF assms(4)] cursor_at_page [OF 1(3)] using align8_ge [of "g + int n"] sz(2) by (intro zdiv_mono1) simp_all
  then show thesis using that 1 assms(5) by (simp add: LA_LOG_READ_ADD_ALIGN_def)
qed

text \<open>Copying data at the cursor, all of it or its record type first.\<close>

lemma cursor_ahead:
  assumes "area_size_ok sz" and "pages_before page P sz e p" and "cursor_at page sz g cu" and "p \<le> cu_pageid cu" and "g + int n \<le> e"
  shows "pages_ahead page P sz cu n"
proof (cases "n = 0")
  case True
  then show ?thesis using assms(3) by (auto simp: pages_ahead_def pages_upto_def cursor_at_def)
next
  case False
  note sz = area_size_okD [OF assms(1)]
  have "gpos sz (cu_pageid cu, cu_offset cu + n - 1) = g + int n - 1"
    using assms(3) False by (simp add: cursor_at_def gpos_def)
  then have q: "cu_pageid cu + int ((cu_offset cu + n - 1) div sz) \<le> (g + int n - 1) div int sz"
    using tape_page [OF sz(2), of "cu_pageid cu" "cu_offset cu + n - 1"] by simp
  show ?thesis unfolding pages_ahead_def using pages_before_upto [OF assms(2) sz(2) assms(4) q] assms(5) by simp
qed

lemma step_copy:
  assumes "area_size_ok sz" and "valid s" and "pages_before page P sz e p" and "cursor_at page sz g cu" and "p \<le> cu_pageid cu"
    and "on_tape (tape sz page) g data" and "g + int (length data) \<le> e"
  shows "\<exists>s'. la_log_copy_fromlog get sz False (int (length data)) cu s = Some (([], data), s') \<and> valid s'"
proof -
  note sz = area_size_okD [OF assms(1)]
  have "log_bytes page sz (cu_pageid cu) (cu_offset cu) (length data) = data"
    by (rule on_tape_log_bytes [OF sz(2)]) (use assms(4,6) in \<open>simp add: cursor_at_def\<close>)
  then show ?thesis
    using copy_fromlog [OF sz(2) assms(2), of cu "int (length data)"] cursor_ahead [OF assms(1,3-5,7)] assms(4)
    by (simp add: cursor_at_def)
qed

lemma make_repl_item:
  assumes "area_size_ok sz" and "valid s" and "rec_readable page P sz e (p, off) tgt rcv data"
    and "lsa_of (p, off) = lsa" and "\<forall>s. valid s \<longrightarrow> (\<exists>s'. alloc s = (True, s') \<and> valid s')"
  shows "\<exists>s1. valid s1 \<and> la_make_repl_item get sz alloc up (page p) ty lsa s =
    Some (la_fill_repl_item alloc up ty rcv data (la_new_repl_item lsa tgt) s1)"
proof -
  let ?hdr = "wr_log_replication tgt (int (length data)) rcv" and ?h = "gpos sz (rec_header_pos sz 16 (p, off))"
  let ?u = "rec_udata_at sz 16 (p, off)"
  have r: "rec_ok sz (p, off)" "on_tape (tape sz page) ?h ?hdr" "on_tape (tape sz page) ?u data" "?u + int (length data) \<le> e" "?u < e"
    and pb: "pages_before page P sz e p" using assms(3) by (simp_all add: rec_readable_def)
  have u: "?u = align8 (?h + int 16)" by (simp add: rec_udata_at_def)
  have hs: "length ?hdr + 8 < sz" using assms(1) by (simp add: area_size_ok_def)
  obtain cu s1 where 1: "la_read_fixed get sz 16 (rec_body (page p) lsa) s = Some ((NO_ERROR, cu), s1)" "valid s1"
    "cursor_at page sz ?h cu" "take 16 (cu_bytes cu) = ?hdr" "p \<le> cu_pageid cu"
    using step_fixed [OF assms(1,2) pb r(1) assms(4), of ?hdr] r(2,5) hs u align8_ge [of "?h + 16"] by auto
  obtain rest where b: "cu_bytes cu = ?hdr @ rest" using 1(4) append_take_drop_id [of 16 "cu_bytes cu"] by metis
  note fields = repl_header_fields [OF assms(3), of rest, folded b]
  obtain cu2 s2 where 2: "LA_LOG_READ_ADD_ALIGN get sz NO_ERROR 16 cu s1 = Some ((NO_ERROR, cu2), s2)" "valid s2"
    "cursor_at page sz ?u cu2" "p \<le> cu_pageid cu2"
    using step_align [OF assms(1) 1(2) pb 1(3,5), of 16] r(5) unfolding u by blast
  obtain s3 where 3: "alloc s2 = (True, s3)" "valid s3" using assms(5) 2(2) by blast
  obtain s4 where 4: "la_log_copy_fromlog get sz False (int (length data)) cu2 s3 = Some (([], data), s4)" "valid s4"
    using step_copy [OF assms(1) 3(2) pb 2(3,4) r(3,4)] by blast
  obtain s5 where "alloc s4 = (True, s5)" "valid s5" using assms(5) 4(2) by blast
  then show ?thesis using 1(1) 2(1) 3(1) 4(1) fields by (auto simp: la_make_repl_item_def LA_LOG_READ_ADD_ALIGN_def Let_def)
qed

end

section \<open>Unpacking what was packed\<close>

definition str_ok :: "byte list option \<Rightarrow> bool" where
  "str_ok string \<longleftrightarrow> (case string of None \<Rightarrow> True | Some t \<Rightarrow> 0 \<notin> set t \<and> length t + 4 < 2 ^ 31)"

lemma unpack_packed_string:
  assumes "str_ok string" and "\<forall>s. valid s \<longrightarrow> (\<exists>s'. alloc s = (True, s') \<and> valid s')" and "valid s"
  obtains b s' where "la_unpack_string alloc (or_pack_string [] string @ rest) s = ((b, rest), s')" "valid s'" "map_option c_string b = string"
proof -
  let ?ptr = "or_pack_string [] string @ rest"
  obtain s' where s': "valid s'" "la_unpack_string alloc ?ptr s = (or_unpack_string True ?ptr, s')"
    using assms(2,3) by (cases "OR_GET_INT ?ptr = -1") (auto simp: la_unpack_string_def)
  have ok: "\<And>t. string = Some t \<Longrightarrow> 0 \<notin> set t \<and> length t + 4 < 2 ^ 31" using assms(1) by (simp add: str_ok_def)
  have "map_option c_string (fst (or_unpack_string True ?ptr)) = string"
    using or_unpack_pack_string(1,2) [where string = string and rest = rest] ok by (cases string) auto
  moreover have "snd (or_unpack_string True ?ptr) = rest" by (rule or_unpack_pack_string(3) [OF ok])
  ultimately show thesis using that [of "fst (or_unpack_string True ?ptr)" s'] s' by (metis prod.collapse)
qed

text \<open>The item of a schema change, for the statement the server recorded.\<close>

definition schema_item :: "'v la_values \<Rightarrow> repl_info_schema \<Rightarrow> 'v la_item \<Rightarrow> bool" where
  "schema_item up sch item \<longleftrightarrow> it_log_type item = LOG_REPLICATION_SCHEMA \<and> it_item_type item = rs_statement_type sch \<and>
     map_option c_string (it_class_name item) = rs_name sch \<and> map_option c_string (it_db_user item) = rs_db_user sch \<and>
     map_option c_string (it_ha_sys_prm item) = rs_sys_prm_context sch \<and>
     (\<exists>b. it_key item = Some (mk_string up b) \<and> map_option c_string b = rs_ddl sch)"

definition schema_fits :: "repl_info_schema \<Rightarrow> bool" where
  "schema_fits sch \<longleftrightarrow> - (2 ^ 31) \<le> rs_statement_type sch \<and> rs_statement_type sch < 2 ^ 31 \<and>
     str_ok (rs_name sch) \<and> str_ok (rs_ddl sch) \<and> str_ok (rs_db_user sch) \<and> str_ok (rs_sys_prm_context sch) \<and>
     int (length (pack_schema sch)) < 2 ^ 31"

lemma fill_schema_item:
  assumes "schema_fits sch" and "\<forall>s. valid s \<longrightarrow> (\<exists>s'. alloc s = (True, s') \<and> valid s')" and "valid s"
  shows "\<exists>item s'. la_fill_repl_item alloc up LOG_REPLICATION_SCHEMA rcv (pack_schema sch) (la_new_repl_item lsa tgt) s = (Some item, s') \<and>
    schema_item up sch item \<and> it_lsa item = lsa \<and> it_target_lsa item = tgt"
proof -
  note ok = assms(1) [unfolded schema_fits_def]
  note un = unpack_packed_string [OF _ assms(2)]
  let ?r4 = "or_pack_string [] (rs_sys_prm_context sch)"
  let ?r3 = "or_pack_string [] (rs_db_user sch) @ ?r4"
  let ?r2 = "or_pack_string [] (rs_ddl sch) @ ?r3"
  from ok un [where string = "rs_name sch" and rest = ?r2, OF _ assms(3)] obtain b1 s1 where
    1: "la_unpack_string alloc (or_pack_string [] (rs_name sch) @ ?r2) s = ((b1, ?r2), s1)" "valid s1" "map_option c_string b1 = rs_name sch" by blast
  from ok un [where string = "rs_ddl sch" and rest = ?r3, OF _ 1(2)] obtain b2 s2 where
    2: "la_unpack_string alloc ?r2 s1 = ((b2, ?r3), s2)" "valid s2" "map_option c_string b2 = rs_ddl sch" by blast
  from ok un [where string = "rs_db_user sch" and rest = ?r4, OF _ 2(2)] obtain b3 s3 where
    3: "la_unpack_string alloc ?r3 s2 = ((b3, ?r4), s3)" "valid s3" "map_option c_string b3 = rs_db_user sch" by blast
  from ok un [where string = "rs_sys_prm_context sch" and rest = "[]", OF _ 3(2)] obtain b4 s4 where
    4: "la_unpack_string alloc (?r4 @ []) s3 = ((b4, []), s4)" "map_option c_string b4 = rs_sys_prm_context sch" by blast
  have "or_unpack_int (Some (pack_schema sch)) = (rs_statement_type sch, Some (or_pack_string [] (rs_name sch) @ ?r2))"
    using OR_GET_PUT_INT [of "rs_statement_type sch"] ok by (simp add: or_unpack_int_def pack_schema_eq)
  then show ?thesis using 1 2 3 4 by (auto simp: la_fill_repl_item_def la_new_repl_item_def schema_item_def)
qed

text \<open>The item of a change of a row.\<close>

lemma fill_data_item:
  assumes "str_ok (Some nm)" and "\<forall>s. valid s \<longrightarrow> (\<exists>s'. alloc s = (True, s') \<and> valid s')" and "valid s"
  shows "\<exists>b s'. la_fill_repl_item alloc up LOG_REPLICATION_DATA rcv (or_pack_string [] (Some nm) @ key) (la_new_repl_item lsa tgt) s =
    (Some \<lparr>it_log_type = LOG_REPLICATION_DATA, it_item_type = rcv, it_class_name = b, it_db_user = None, it_ha_sys_prm = None,
       it_key = Some (up_mem_value up key), it_lsa = lsa, it_target_lsa = tgt\<rparr>, s') \<and> map_option c_string b = Some nm"
proof -
  obtain b s' where "la_unpack_string alloc (or_pack_string [] (Some nm) @ key) s = ((b, key), s')" "map_option c_string b = Some nm"
    by (rule unpack_packed_string [OF assms])
  then show ?thesis by (simp add: la_fill_repl_item_def la_new_repl_item_def)
qed

section \<open>The records of a commit\<close>

text \<open>The memory of the applier, seen through the state of its page source.\<close>

lemma src_alloc_ok: "\<forall>s. src_ok io cfg page P Q s \<longrightarrow> (\<exists>s'. src_alloc io s = (True, s') \<and> src_ok io cfg page P Q s')"
proof (intro allI impI)
  fix s assume s: "src_ok io cfg page P Q s"
  obtain pb st w where [simp]: "s = (pb, st, w)" by (cases s)
  obtain w' where "io_malloc io w = (True, w')" using s by (cases "io_malloc io w") (auto simp: src_ok_def io_serves_def dest: spec [of _ w])
  then show "\<exists>s'. src_alloc io s = (True, s') \<and> src_ok io cfg page P Q s'"
    using s by (auto simp: src_alloc_def src_ok_def)
qed

definition repl_target :: "log_repl_record \<Rightarrow> log_lsa" where
  "repl_target r = (if rr_rcvindex r = RVREPL_DELETE \<or> rr_rcvindex r = RVREPL_SCHEMA then LSA_NULL else rr_lsa r)"

text \<open>The values of a record fit the fields of the log that hold them.\<close>

definition repl_fits :: "log_repl_record \<Rightarrow> bool" where
  "repl_fits r \<longleftrightarrow> lsa_fits (repl_target r) \<and> rr_length r < 2 ^ 31 \<and> 0 \<le> rr_rcvindex r \<and> rr_rcvindex r < 2 ^ 31"

lemma node_pages_before:
  assumes "0 < sz" and "rec_ok sz (lsa_pos (pn_start_lsa n))" and "node_within sz a b n" and "pos_ok sz a" and "pos_ok sz b"
    and "\<forall>q. fst a \<le> q \<and> q \<le> fst b \<longrightarrow> P q" and "\<And>q. length (lp_area (page q)) = sz"
  shows "pages_before page P sz (gpos sz b + 1) (fst (lsa_pos (pn_start_lsa n)))"
proof -
  let ?pos = "lsa_pos (pn_start_lsa n)"
  have "P q" if "fst ?pos \<le> q" "q * int sz < gpos sz b + 1" for q
  proof -
    have "fst a \<le> fst ?pos" using page_mono [OF assms(1), of a ?pos] assms(2-4) by (simp add: node_within_def rec_ok_def pos_ok_def)
    moreover have "q \<le> fst b" using page_mono [OF assms(1), of "(q, 0)" b] that(2) assms(1,5) by (simp add: gpos_def pos_ok_def)
    ultimately show ?thesis using assms(6) that(1) by simp
  qed
  then show ?thesis using assms(7) by (simp add: pages_before_def)
qed

lemma node_readable:
  assumes "area_size_ok sz" and "rr_ok r" and "rr_repl_data r = Some data" and "repl_fits r" and "node_payload n = node_payload (repl_node r)"
    and "node_on_tape sz (tape sz page) (lsa_pos (pn_start_lsa n)) n" and "rec_ok sz (lsa_pos (pn_start_lsa n))" and "node_within sz a b n"
    and "pos_ok sz a" and "pos_ok sz b" and "\<forall>q. fst a \<le> q \<and> q \<le> fst b \<longrightarrow> P q" and "\<And>q. length (lp_area (page q)) = sz"
  shows "rec_readable page P sz (gpos sz b + 1) (lsa_pos (pn_start_lsa n)) (repl_target r) (rr_rcvindex r) data"
proof -
  note sz = area_size_okD [OF assms(1)]
  let ?pos = "lsa_pos (pn_start_lsa n)"
  have l: "rr_length r = int (length data)" using assms(2,3) by (simp add: rr_ok_def)
  have n: "pn_data_header n = wr_log_replication (repl_target r) (int (length data)) (rr_rcvindex r)" "pn_udata n = data" "pn_rdata n = []"
    using assms(3,5) l by (simp_all add: repl_node_def repl_target_def)
  have h: "length (pn_data_header n) = 16" by (simp add: n(1))
  have "rec_udata_at sz 16 ?pos + int (length data) \<le> gpos sz (rec_end sz 16 (length data) 0 ?pos)"
    using rec_end_after [OF assms(1), of 16 "length data" ?pos 0] align8_ge [of "rec_udata_at sz 16 ?pos + int (length data)"]
    by (simp add: rec_rdata_at_def)
  then have e: "rec_udata_at sz 16 ?pos + int (length data) \<le> gpos sz b"
    using assms(8) h n by (simp add: node_within_def)
  have "pages_before page P sz (gpos sz b + 1) (fst ?pos)" by (rule node_pages_before [OF sz(2) assms(7-12)])
  then show ?thesis
    unfolding rec_readable_def using assms(4,6,7) e l n h by (simp add: node_on_tape_def repl_fits_def)
qed

text \<open>
  Every record that a commit must append is in the list of the log, and the
  applier, reading the pages the list was written into, makes an item from
  the record's type, its addresses and its data.
\<close>

lemma commit_requests_ok:
  assumes "area_size_ok sz" and "map fst reqs = map repl_node (filter (must_append True) rs) @
      [\<lparr>pn_log_header = empty_header LOG_UNLOCK_COMMIT, pn_start_lsa = LSA_NULL, pn_data_header = [], pn_udata = [], pn_rdata = []\<rparr>]"
  shows "\<forall>(node, td) \<in> set reqs. request_ok sz node"
proof -
  have "request_ok sz n" if "n \<in> set (map fst reqs)" for n
    using that assms(1) unfolding assms(2) by (auto simp: request_ok_def repl_node_def empty_header_def must_append_def area_size_ok_def)
  then show ?thesis by fastforce
qed

lemma no_requests: "reserve_all sz [] pi = Some pi" "\<forall>(node, td) \<in> set []. request_ok sz node"
  by simp_all

lemma committed_record_item:
  fixes td :: log_tdes_repl and reqs0 :: "(log_prior_node \<times> log_tdes_repl) list"
  assumes "area_size_ok sz" and "agree sz pi0 gl" and "pi_list pi0 = []" and "\<forall>w. fst (alloc w)" and "repl_reach td"
    and "reserve_all sz reqs0 pi0 = Some pi" and "\<forall>(node, td) \<in> set reqs0. request_ok sz node"
    and "log_append_repl_info_and_unlock_log sz alloc td pi w = Some (td', pi', w')"
    and "logpb_append_prior_lsa_list sz (pi_list pi') gl = Some gl'"
    and "src_ok io cfg (gl_pages gl') P Q s" and "\<forall>q. fst (gl_append gl) \<le> q \<and> q \<le> fst (gl_append gl') \<longrightarrow> P q"
    and "r \<in> set (recs td)" and "must_append True r" and "rr_repl_data r = Some data" and "repl_fits r"
  obtains n s1 where "n \<in> set (pi_list pi')" "lr_type (pn_log_header n) = rr_repl_type r" "lr_trid (pn_log_header n) = td_trid td"
    "src_ok io cfg (gl_pages gl') P Q s1"
    "la_make_repl_item (la_page_src io cfg) sz (src_alloc io) up (gl_pages gl' (lsa_pageid (pn_start_lsa n))) ty (pn_start_lsa n) s =
      Some (la_fill_repl_item (src_alloc io) up ty (rr_rcvindex r) data (la_new_repl_item (pn_start_lsa n) (repl_target r)) s1)"
proof -
  from reserve_and_append [OF assms(1,2,7)] assms(6) obtain gl0 where a0: "agree sz pi gl0" by auto
  have rok: "rec_ok sz (gl_append gl)" "rec_ok sz (pi_prior_lsa pi)" using assms(2) a0 unfolding agree_def by auto
  from log_append_repl_info_ok [OF assms(1,4) repl_reach_inv [OF assms(5)] rok(2), of w] assms(8)
  obtain reqs :: "(log_prior_node \<times> log_tdes_repl) list" where
    1: "reserve_all sz reqs pi = Some pi'" "map fst reqs = map repl_node (filter (must_append True) (recs td)) @
      [\<lparr>pn_log_header = empty_header LOG_UNLOCK_COMMIT, pn_start_lsa = LSA_NULL, pn_data_header = [], pn_udata = [], pn_rdata = []\<rparr>]"
    "\<forall>(n, d) \<in> set reqs. td_trid d = td_trid td" by auto
  have all: "reserve_all sz (reqs0 @ reqs) pi0 = Some pi'" using assms(6) 1(1) by (simp add: reserve_all_append)
  have ok: "\<forall>(node, td) \<in> set (reqs0 @ reqs). request_ok sz node" using assms(7) commit_requests_ok [OF assms(1) 1(2)] by auto
  from reserve_and_append [OF assms(1,2) ok] all assms(3,9)
  have 2: "agree sz pi' gl'"
    "\<forall>n \<in> set (pi_list pi'). node_on_tape sz (tape sz (gl_pages gl')) (lsa_pos (pn_start_lsa n)) n \<and>
       rec_ok sz (lsa_pos (pn_start_lsa n)) \<and> node_within sz (gl_append gl) (gl_append gl') n" by auto
  from reserve_all_nodes [OF 1(1)] obtain ns where ns: "pi_list pi' = pi_list pi @ ns"
    "map node_payload ns = map (\<lambda>(node, td). node_payload node) reqs"
    "map (\<lambda>n. lr_trid (pn_log_header n)) ns = map (\<lambda>(node, td). td_trid td) reqs" by blast
  have tr: "lr_trid (pn_log_header n) = td_trid td" if "n \<in> set ns" for n
  proof -
    have "lr_trid (pn_log_header n) \<in> set (map (\<lambda>(node, td). td_trid td) reqs)" using that ns(3) by (metis imageI list.set_map)
    then show ?thesis using 1(3) by auto
  qed
  have "map node_payload ns = map node_payload (map fst reqs)" using ns(2) by (simp add: comp_def case_prod_unfold)
  then have "node_payload (repl_node r) \<in> set (map node_payload ns)" using assms(12,13) unfolding 1(2) by auto
  then obtain n where nn: "n \<in> set ns" "node_payload n = node_payload (repl_node r)" by auto
  then have n: "n \<in> set (pi_list pi')" "node_payload n = node_payload (repl_node r)" using ns(1) by auto
  let ?pos = "lsa_pos (pn_start_lsa n)"
  have rr: "rr_ok r" using repl_reach_inv [OF assms(5)] assms(12) by (simp add: repl_td_inv_def)
  have bok: "pos_ok sz (gl_append gl)" "pos_ok sz (gl_append gl')" using 2(1) rok(1) unfolding agree_def rec_ok_def by blast+
  have len: "\<And>q. length (lp_area (gl_pages gl' q)) = sz" using 2(1) by (simp add: agree_def areas_ok_def)
  have rd: "rec_readable (gl_pages gl') P sz (gpos sz (gl_append gl') + 1) ?pos (repl_target r) (rr_rcvindex r) data"
    using node_readable [where page = "gl_pages gl'", OF assms(1) rr assms(14,15) n(2) _ _ _ bok assms(11) len] 2(2) n(1) by blast
  have lsa: "lsa_of ?pos = pn_start_lsa n" "fst ?pos = lsa_pageid (pn_start_lsa n)"
    using 2(2) n(1) by (auto simp: node_within_def lsa_of_def lsa_pos_def)
  obtain p off where pos: "?pos = (p, off)" by (cases ?pos)
  with lsa have lsa': "lsa_of (p, off) = pn_start_lsa n" "p = lsa_pageid (pn_start_lsa n)" by simp_all
  from cp.make_repl_item [OF assms(1,10) rd [unfolded pos] lsa'(1) src_alloc_ok, of up ty] obtain s1 where
    "src_ok io cfg (gl_pages gl') P Q s1"
    "la_make_repl_item (la_page_src io cfg) sz (src_alloc io) up (gl_pages gl' (lsa_pageid (pn_start_lsa n))) ty (pn_start_lsa n) s =
      Some (la_fill_repl_item (src_alloc io) up ty (rr_rcvindex r) data (la_new_repl_item (pn_start_lsa n) (repl_target r)) s1)"
    unfolding lsa'(2) by blast
  then show thesis using that n tr [OF nn(1)] by (simp add: repl_node_def empty_header_def)
qed

section \<open>Volumes that hold given pages\<close>

text \<open>An active log of \<open>m\<close> pages from page 30 on, with the contents \<open>pages\<close>, all of which are before its end.\<close>

definition hdr_upto :: "log_pageid \<Rightarrow> log_header" where
  "hdr_upto m = ex_hdr\<lparr>lh_npages := m, lh_append_lsa := LSA m 0, lh_eof_lsa := LSA m 16384\<rparr>"

definition io_upto :: "log_pageid \<Rightarrow> (log_pageid \<Rightarrow> log_page) \<Rightarrow> 'w la_io" where
  "io_upto m pages = ex_io\<lparr>io_read_act := \<lambda>p w. ((NO_ERROR, pages (29 + p)), w), io_read_act_hdr := \<lambda>w. ((NO_ERROR, hdr_upto m), w)\<rparr>"

lemma io_upto_src:
  assumes "\<forall>q \<le> m. lp_logical_pageid (pages q) = q" and "0 < cfg_buffer_size cfg"
  shows "src_ok (io_upto m pages) cfg pages (\<lambda>q. 30 \<le> q \<and> q \<le> m) (\<lambda>st. act_log_hdr st = hdr_upto m)
    (ex_pb, ex_vols\<lparr>act_log_hdr := hdr_upto m\<rparr>, w)"
proof -
  have "\<exists>buf' st' w'. la_log_fetch (io_upto m pages) p buf st w = Some ((NO_ERROR, buf'), st', w') \<and> cb_logpage buf' = pages p \<and>
      act_log_hdr st' = hdr_upto m" if "30 \<le> p" "p \<le> m" "act_log_hdr st = hdr_upto m" for p buf st w
    using that assms(1)
    by (simp add: la_log_fetch_def la_log_fetch_loop.simps la_log_fetch_read_def io_upto_def hdr_upto_def ex_io_def ex_hdr_def
        la_log_phypageid_def LA_LOG_IS_IN_ARCHIVE_def eval_nat_numeral Let_def)
  then have "io_serves (io_upto m pages) pages (\<lambda>q. 30 \<le> q \<and> q \<le> m) (\<lambda>st. act_log_hdr st = hdr_upto m)"
    unfolding io_serves_def by (auto simp: io_upto_def ex_io_def)
  then show ?thesis using ex_pb_inv ex_pb_content [of pages] assms(2) by (simp add: src_ok_def)
qed

lemma io_upto_src_ok:
  assumes "\<forall>q \<le> m. lp_logical_pageid (pages q) = q"
  shows "src_ok (io_upto m pages) ex_cfg pages (\<lambda>q. 30 \<le> q \<and> q \<le> m) (\<lambda>st. act_log_hdr st = hdr_upto m)
    (ex_pb, ex_vols\<lparr>act_log_hdr := hdr_upto m\<rparr>, ())"
  using io_upto_src [OF assms, of ex_cfg "()"] by (simp add: ex_cfg_def)

end
