(* ===== verification/La_Log_Data.thy ===== *)
theory La_Log_Data
  imports Log_Gen Repl_Roundtrip
begin

text \<open>
  Undo and redo data of log records (\<^verbatim>\<open>transaction/log_applier.c\<close>,
  \<^verbatim>\<open>la_get_log_data\<close> and its helpers): the applier reads the images of a row
  out of the log records of the server, decompresses them and undoes the
  difference.

  \<open>None\<close> is a call that does not return or that writes through a null
  pointer or copies a negative number of bytes. The two buffers for decompressed data (\<^verbatim>\<open>la_Info.undo_unzip_ptr\<close>,
  \<^verbatim>\<open>la_Info.redo_unzip_ptr\<close>) are a pair that the functions update. The
  capacity of the area a caller passes for the data is not modelled.
\<close>

section \<open>Reading data\<close>

abbreviation (input) ER_IO_LZO_DECOMPRESS_FAIL :: errcode where "ER_IO_LZO_DECOMPRESS_FAIL \<equiv> -897"

text \<open>
  \<^verbatim>\<open>log_unzip\<close> with the memory of the applier; nothing reads a new buffer
  before it is written, so it is empty.
\<close>

definition la_unzip :: "('s \<Rightarrow> bool \<times> 's) \<Rightarrow> lzo \<Rightarrow> byte list \<Rightarrow> LOG_ZIP \<Rightarrow> 's \<Rightarrow> (bool \<times> LOG_ZIP) \<times> 's" where
  "la_unzip alloc lz data z s =
     (if 0 < rd_int 4 0 data \<and> z_buf_size z < LOG_ZIP_BUF_SIZE (rd_int 4 0 data)
      then (case alloc s of (ok, s') \<Rightarrow> (log_unzip lz (if ok then Some [] else None) data z, s'))
      else (log_unzip lz None data z, s))"

text \<open>The results are the error, whether the undo data is compressed, the undo data with its length, and the cursor behind it.\<close>

definition la_get_undoredo_diff ::
    "'s page_src \<Rightarrow> nat \<Rightarrow> ('s \<Rightarrow> bool \<times> 's) \<Rightarrow> lzo \<Rightarrow> int \<Rightarrow> log_cursor \<Rightarrow> LOG_ZIP \<Rightarrow> 's
      \<Rightarrow> ((errcode \<times> bool \<times> byte list option \<times> log_cursor) \<times> LOG_ZIP \<times> 's) option" where
  "la_get_undoredo_diff get sz alloc lz undo_length0 cu zu s =
     (let is_undo_zip = ZIP_CHECK undo_length0;
          undo_length = (if is_undo_zip then GET_ZIP_LEN undo_length0 else undo_length0)
      in case alloc s of
           (ok, s1) \<Rightarrow>
             if \<not> ok then Some ((ER_OUT_OF_VIRTUAL_MEMORY, is_undo_zip, None, cu), zu, s1)
             else do {
               ((_, undo_data), s2) \<leftarrow> la_log_copy_fromlog get sz False undo_length cu s1;
               (case (if is_undo_zip \<and> 0 < undo_length then la_unzip alloc lz undo_data zu s2 else ((True, zu), s2)) of
                  ((ok2, zu'), s3) \<Rightarrow>
                    if \<not> ok2 then Some ((ER_IO_LZO_DECOMPRESS_FAIL, is_undo_zip, None, cu), zu', s3)
                    else do {
                      ((err, cu'), s4) \<leftarrow> LA_LOG_READ_ADD_ALIGN get sz NO_ERROR (nat undo_length) cu s3;
                      Some ((err, is_undo_zip, Some undo_data, cu'), zu', s4)
                    })
             })"

text \<open>
  The decompressed redo data, after taking away the difference, split into the
  record type and the rest; \<^verbatim>\<open>NULL\<close> when there is no memory. With
  \<open>is_overflow\<close> the area is allocated anew.
\<close>

definition la_get_zipped_data ::
    "('s \<Rightarrow> bool \<times> 's) \<Rightarrow> byte list option \<Rightarrow> bool \<Rightarrow> bool \<Rightarrow> bool \<Rightarrow> bool \<Rightarrow> LOG_ZIP \<times> LOG_ZIP \<Rightarrow> 's
      \<Rightarrow> ((byte list \<times> byte list) option \<times> (LOG_ZIP \<times> LOG_ZIP) \<times> 's) option" where
  "la_get_zipped_data alloc undo_data is_diff is_undo_zip is_overflow want_type zs s =
     (let (zu, zr) = zs;
          undo = (if is_undo_zip then zip_bytes zu else case undo_data of None \<Rightarrow> [] | Some u \<Rightarrow> u);
          redo = (if is_diff then log_diff undo (zip_bytes zr) else zip_bytes zr);
          zr' = zr\<lparr>z_log_data := map_option (wr_at 0 redo) (z_log_data zr)\<rparr>;
          (ok, s') = (if is_overflow then alloc s else (True, s))
      in if \<not> ok then Some (None, (zu, zr'), s')
         else if want_type \<and> length redo < 2 then None
         else Some (Some (if want_type then (take 2 redo, drop 2 redo) else ([], redo)), (zu, zr'), s'))"

section \<open>The data of a record\<close>

record la_log_data =
  ld_error :: errcode
  ld_rcvindex :: "int option"
  ld_logs :: "byte list option"
  ld_type :: "byte list"
  ld_data :: "byte list option"
  ld_length :: int
  ld_old :: "(byte list \<times> byte list) option"

definition ld_fail :: "errcode \<Rightarrow> int option \<Rightarrow> byte list option \<Rightarrow> la_log_data" where
  "ld_fail err rcvindex logs =
     \<lparr>ld_error = err, ld_rcvindex = rcvindex, ld_logs = logs, ld_type = [], ld_data = None, ld_length = 0, ld_old = None\<rparr>"

text \<open>
  The record is one the caller looks for: then its recovery index is returned
  (\<^verbatim>\<open>rcvindex\<close>) and a pointer to its fixed part (\<^verbatim>\<open>logs\<close>).
\<close>

definition la_matches :: "int \<Rightarrow> byte list \<Rightarrow> bool" where
  "la_matches match_rcvindex fixed_part \<longleftrightarrow> match_rcvindex = 0 \<or> rd_int 4 0 fixed_part = match_rcvindex"

definition la_matched :: "int \<Rightarrow> byte list \<Rightarrow> int option \<times> byte list option" where
  "la_matched match_rcvindex fixed_part =
     (if la_matches match_rcvindex fixed_part then (Some (rd_int 4 0 fixed_part), Some fixed_part) else (None, None))"

text \<open>
  The undo image of a record, split into type and data; \<open>None\<close> outside is the
  copy into memory that could not be allocated, or of an image that is too
  short.
\<close>

definition la_old_image ::
    "('s \<Rightarrow> bool \<times> 's) \<Rightarrow> bool \<Rightarrow> byte list option \<Rightarrow> LOG_ZIP \<Rightarrow> 's \<Rightarrow> ((byte list \<times> byte list) option \<times> 's) option" where
  "la_old_image alloc is_undo_zip undo_data zu s =
     (case (if is_undo_zip then Some (zip_bytes zu) else undo_data) of
        None \<Rightarrow> Some (None, s)
      | Some u \<Rightarrow> (case alloc s of (ok, s') \<Rightarrow> if ok \<and> 2 \<le> length u then Some (Some (take 2 u, drop 2 u), s') else None))"

text \<open>What follows the switch on the type: the data itself, at the cursor.\<close>

definition la_log_data_tail ::
    "'s page_src \<Rightarrow> nat \<Rightarrow> ('s \<Rightarrow> bool \<times> 's) \<Rightarrow> lzo \<Rightarrow> bool \<Rightarrow> bool \<Rightarrow> bool \<Rightarrow> int option \<times> byte list option \<Rightarrow> int
      \<Rightarrow> bool \<Rightarrow> bool \<Rightarrow> byte list option \<Rightarrow> log_cursor \<Rightarrow> LOG_ZIP \<times> LOG_ZIP \<Rightarrow> 's \<Rightarrow> (la_log_data \<times> (LOG_ZIP \<times> LOG_ZIP) \<times> 's) option" where
  "la_log_data_tail get sz alloc lz want_old want_type has_data m temp_length is_diff is_undo_zip undo_data cu zs s =
     (case (if has_data then (True, s) else alloc s) of
        (ok, s1) \<Rightarrow>
          if \<not> ok then Some (ld_fail ER_OUT_OF_VIRTUAL_MEMORY (fst m) (snd m), zs, s1)
          else do {
            (r, zs2, s2) \<leftarrow>
              (if ZIP_CHECK temp_length then do {
                 let zip_len = GET_ZIP_LEN temp_length;
                 ((_, data), s2) \<leftarrow> la_log_copy_fromlog get sz False zip_len cu s1;
                 (case (if zip_len \<noteq> 0 then la_unzip alloc lz data (snd zs) s2 else ((True, snd zs), s2)) of
                    ((ok2, zr), s3) \<Rightarrow>
                      if \<not> ok2 then Some (Inl ER_IO_LZO_DECOMPRESS_FAIL, (fst zs, zr), s3)
                      else (case la_get_zipped_data alloc undo_data is_diff is_undo_zip (\<not> has_data) want_type (fst zs, zr) s3 of
                              None \<Rightarrow> None
                            | Some (None, zs4, s4) \<Rightarrow> Some (Inl ER_OUT_OF_VIRTUAL_MEMORY, zs4, s4)
                            | Some (Some (ty, d), zs4, s4) \<Rightarrow> Some (Inr (ty, d, int (length d)), zs4, s4)))
               }
               else do {
                 let len = GET_ZIP_LEN temp_length;
                 ((ty, d), s2) \<leftarrow> la_log_copy_fromlog get sz want_type len cu s1;
                 Some (Inr (ty, d, len), zs, s2)
               });
            (case r of
               Inl err \<Rightarrow> Some (ld_fail err (fst m) (snd m), zs2, s2)
             | Inr (ty, d, len) \<Rightarrow> do {
                 (old, s3) \<leftarrow> (if want_old then la_old_image alloc is_undo_zip undo_data (fst zs2) s2 else Some (None, s2));
                 Some (\<lparr>ld_error = NO_ERROR, ld_rcvindex = fst m, ld_logs = snd m, ld_type = ty, ld_data = Some d,
                        ld_length = len, ld_old = old\<rparr>, zs2, s3)
               })
          })"

definition la_get_log_data ::
    "'s page_src \<Rightarrow> nat \<Rightarrow> ('s \<Rightarrow> bool \<times> 's) \<Rightarrow> lzo \<Rightarrow> int \<Rightarrow> bool \<Rightarrow> bool \<Rightarrow> bool \<Rightarrow> log_record_header \<Rightarrow> log_lsa \<Rightarrow> log_page
      \<Rightarrow> LOG_ZIP \<times> LOG_ZIP \<Rightarrow> 's \<Rightarrow> (la_log_data \<times> (LOG_ZIP \<times> LOG_ZIP) \<times> 's) option" where
  "la_get_log_data get sz alloc lz match_rcvindex want_old want_type has_data lrec lsa pgptr zs s =
     (if lr_type lrec = LOG_UNDOREDO_DATA \<or> lr_type lrec = LOG_DIFF_UNDOREDO_DATA then do {
        let is_diff = (lr_type lrec = LOG_DIFF_UNDOREDO_DATA);
        ((err, cu), s1) \<leftarrow> la_read_fixed get sz 20 (rec_body pgptr lsa) s;
        if err \<noteq> NO_ERROR then Some (ld_fail err None None, zs, s1)
        else do {
          let undoredo = take 20 (cu_bytes cu);
          let undo_length = rd_int 4 12 undoredo;
          let temp_length = rd_int 4 16 undoredo;
          let m = la_matched match_rcvindex undoredo;
          ((err2, cu2), s2) \<leftarrow> LA_LOG_READ_ADD_ALIGN get sz NO_ERROR 20 cu s1;
          if err2 \<noteq> NO_ERROR then Some (ld_fail err2 (fst m) (snd m), zs, s2)
          else if is_diff \<or> want_old then do {
            ((err3, is_undo_zip, undo_data, cu3), zu, s3) \<leftarrow> la_get_undoredo_diff get sz alloc lz undo_length cu2 (fst zs) s2;
            if err3 \<noteq> NO_ERROR then Some (ld_fail err3 (fst m) (snd m), (zu, snd zs), s3)
            else la_log_data_tail get sz alloc lz want_old want_type has_data m temp_length is_diff is_undo_zip undo_data cu3 (zu, snd zs) s3
          }
          else do {
            ((err3, cu3), s3) \<leftarrow> LA_LOG_READ_ADD_ALIGN get sz NO_ERROR (nat (GET_ZIP_LEN undo_length)) cu2 s2;
            if err3 \<noteq> NO_ERROR then Some (ld_fail err3 (fst m) (snd m), zs, s3)
            else la_log_data_tail get sz alloc lz want_old want_type has_data m temp_length False False None cu3 zs s3
          }
        }
      }
      else if lr_type lrec = LOG_UNDO_DATA \<or> lr_type lrec = LOG_REDO_DATA then do {
        ((err, cu), s1) \<leftarrow> la_read_fixed get sz 16 (rec_body pgptr lsa) s;
        if err \<noteq> NO_ERROR then Some (ld_fail err None None, zs, s1)
        else do {
          let redo = take 16 (cu_bytes cu);
          let m = la_matched match_rcvindex redo;
          ((err2, cu2), s2) \<leftarrow> LA_LOG_READ_ADD_ALIGN get sz NO_ERROR 16 cu s1;
          if err2 \<noteq> NO_ERROR then Some (ld_fail err2 (fst m) (snd m), zs, s2)
          else la_log_data_tail get sz alloc lz want_old want_type has_data m (rd_int 4 12 redo) False False None cu2 zs s2
        }
      }
      else do {
        ((err, cu), s1) \<leftarrow> LA_LOG_READ_ALIGN get sz NO_ERROR (rec_body pgptr lsa) s;
        Some (ld_fail err None None, zs, s1)
      })"

section \<open>What is read is what was stored\<close>

lemma la_unzip_stored:
  assumes "lzo_ok lz" and "lzo1x_1_compress lz data = (LZO_E_OK, out)" and "data \<noteq> []" and "int (length data) < 2 ^ 31"
    and "z_log_data z \<noteq> None" and "\<forall>s. valid s \<longrightarrow> (\<exists>s'. alloc s = (True, s') \<and> valid s')" and "valid s"
  shows "\<exists>z' s'. la_unzip alloc lz (wr_int 4 (int (length data)) @ out) z s = ((True, z'), s') \<and> valid s' \<and>
    zip_bytes z' = data \<and> z_log_data z' \<noteq> None"
proof -
  let ?src = "wr_int 4 (int (length data)) @ out"
  have n: "rd_int 4 0 ?src = int (length data)" using rd_wr_int [of 4 "int (length data)" "[]" out] assms(4) by simp
  show ?thesis
  proof (cases "z_buf_size z < LOG_ZIP_BUF_SIZE (int (length data))")
    case True
    obtain s' where "alloc s = (True, s')" "valid s'" using assms(6,7) by blast
    with True n assms(3) log_unzip_zip [OF assms(1-4) _ assms(5), of "Some []"] show ?thesis by (auto simp: la_unzip_def)
  next
    case False
    then have "log_unzip lz None ?src z = log_unzip lz (Some []) ?src z" by (simp add: log_unzip_def zip_buffer_def n Let_def)
    with False n assms(7) log_unzip_zip [OF assms(1-4) _ assms(5), of "Some []"] show ?thesis by (auto simp: la_unzip_def)
  qed
qed

text \<open>The stored length and the mark of stored data.\<close>

lemma stored_plain_iff:
  "stored lz len bs data \<Longrightarrow> int (length bs) < 2 ^ 31 \<Longrightarrow> \<not> ZIP_CHECK len \<Longrightarrow> len = int (length bs) \<and> bs = data"
  using ZIP_CHECK_MAKE by (auto simp: stored_def)

lemma stored_zip:
  assumes "stored lz len bs data" and "int (length bs) < 2 ^ 31" and "ZIP_CHECK len"
  obtains out where "lzo1x_1_compress lz data = (LZO_E_OK, out)" "bs = wr_int 4 (int (length data)) @ out" "data \<noteq> []"
  using assms ZIP_CHECK_plain [of "int (length bs)"] by (auto simp: stored_def)

lemma stored_length: "stored lz len bs data \<Longrightarrow> int (length bs) < 2 ^ 31 \<Longrightarrow> GET_ZIP_LEN len = int (length bs)"
  using GET_ZIP_LEN_plain [of "int (length bs)"] GET_MAKE_ZIP_LEN [of "int (length bs)"] by (auto simp: stored_def)

lemma stored_range: "stored lz len bs data \<Longrightarrow> int (length bs) < 2 ^ 31 \<Longrightarrow> - (2 ^ 31) \<le> len \<and> len < 2 ^ 31"
  using MAKE_ZIP_LEN_range [of "int (length bs)"] by (auto simp: stored_def)

lemma length_wr_log_data [simp]: "length (wr_log_data rcv addr) = 12"
  by (simp add: wr_log_data_def)

lemma undoredo_fields:
  assumes "- (2 ^ 31) \<le> ul" "ul < 2 ^ 31" "- (2 ^ 31) \<le> rl" "rl < 2 ^ 31"
  shows "length (wr_log_undoredo rcv addr ul rl) = 20"
    and "rd_int 4 12 (wr_log_undoredo rcv addr ul rl) = ul" and "rd_int 4 16 (wr_log_undoredo rcv addr ul rl) = rl"
  using assms rd_wr_int [of 4 ul "wr_log_data rcv addr" "wr_int 4 rl"] rd_wr_int [of 4 rl "wr_log_data rcv addr @ wr_int 4 ul" "[]"]
  by (simp_all add: wr_log_undoredo_def)

lemma redo_fields:
  assumes "- (2 ^ 31) \<le> len" "len < 2 ^ 31"
  shows "length (wr_log_redo rcv addr len) = 16" and "rd_int 4 12 (wr_log_redo rcv addr len) = len"
  using assms rd_wr_int [of 4 len "wr_log_data rcv addr" "[]"] by (simp_all add: wr_log_redo_def)

text \<open>A record with fixed part \<open>hdr\<close>, undo data and redo data as stored, on the tape before \<open>e\<close>.\<close>

definition parts_readable :: "(log_pageid \<Rightarrow> log_page) \<Rightarrow> (log_pageid \<Rightarrow> bool) \<Rightarrow> nat \<Rightarrow> int \<Rightarrow> log_pos \<Rightarrow> byte list \<Rightarrow> byte list \<Rightarrow> byte list \<Rightarrow> bool" where
  "parts_readable page P sz e pos hdr ub rb \<longleftrightarrow> rec_ok sz pos \<and> pages_before page P sz e (fst pos) \<and>
     on_tape (tape sz page) (gpos sz (rec_header_pos sz (length hdr) pos)) hdr \<and>
     on_tape (tape sz page) (rec_udata_at sz (length hdr) pos) ub \<and>
     on_tape (tape sz page) (rec_rdata_at sz (length hdr) (length ub) pos) rb \<and>
     rec_rdata_at sz (length hdr) (length ub) pos + int (length rb) \<le> e \<and> rec_rdata_at sz (length hdr) (length ub) pos < e \<and>
     int (length ub) < 2 ^ 31 \<and> int (length rb) < 2 ^ 31"

lemma parts_order:
  assumes "parts_readable page P sz e pos hdr ub rb"
  shows "gpos sz (rec_header_pos sz (length hdr) pos) < e" "rec_udata_at sz (length hdr) pos < e"
    "rec_udata_at sz (length hdr) pos = align8 (gpos sz (rec_header_pos sz (length hdr) pos) + int (length hdr))"
    "rec_rdata_at sz (length hdr) (length ub) pos = align8 (rec_udata_at sz (length hdr) pos + int (length ub))"
  using assms align8_ge [of "gpos sz (rec_header_pos sz (length hdr) pos) + int (length hdr)"]
    align8_ge [of "rec_udata_at sz (length hdr) pos + int (length ub)"]
  by (simp_all add: parts_readable_def rec_rdata_at_def rec_udata_at_def)

context page_source
begin

lemma undoredo_diff:
  assumes "area_size_ok sz" and "valid s" and "pages_before page P sz e p" and "cursor_at page sz g cu" and "p \<le> cu_pageid cu"
    and "on_tape (tape sz page) g ub" and "align8 (g + int (length ub)) < e" and "stored lz ul ub undo" and "lzo_ok lz"
    and "int (length undo) < 2 ^ 31" and "int (length ub) < 2 ^ 31" and "z_log_data zu \<noteq> None" and mem: "\<forall>s. valid s \<longrightarrow> (\<exists>s'. alloc s = (True, s') \<and> valid s')"
  obtains cu' zu' s' where "la_get_undoredo_diff get sz alloc lz ul cu zu s = Some ((NO_ERROR, ZIP_CHECK ul, Some ub, cu'), zu', s')"
    "valid s'" "cursor_at page sz (align8 (g + int (length ub))) cu'" "p \<le> cu_pageid cu'" "z_log_data zu' \<noteq> None"
    "(if ZIP_CHECK ul then zip_bytes zu' else ub) = undo"
proof -
  obtain s1 where 1: "alloc s = (True, s1)" "valid s1" using mem assms(2) by blast
  have "(if ZIP_CHECK ul then GET_ZIP_LEN ul else ul) = int (length ub)"
    using stored_length [OF assms(8,11)] stored_plain_iff [OF assms(8,11)] by auto
  note len = this
  obtain s2 where 2: "la_log_copy_fromlog get sz False (int (length ub)) cu s1 = Some (([], ub), s2)" "valid s2"
    using step_copy [OF assms(1) 1(2) assms(3-6)] assms(7) align8_ge [of "g + int (length ub)"] by auto
  have "\<exists>zu' s3. (if ZIP_CHECK ul \<and> 0 < int (length ub) then la_unzip alloc lz ub zu s2 else ((True, zu), s2)) = ((True, zu'), s3) \<and>
      valid s3 \<and> z_log_data zu' \<noteq> None \<and> (if ZIP_CHECK ul then zip_bytes zu' else ub) = undo"
  proof (cases "ZIP_CHECK ul")
    case True
    from stored_zip [OF assms(8,11) True] obtain out where
      "lzo1x_1_compress lz undo = (LZO_E_OK, out)" "ub = wr_int 4 (int (length undo)) @ out" "undo \<noteq> []" .
    with True la_unzip_stored [OF assms(9) this(1,3) assms(10,12) mem 2(2)] show ?thesis by auto
  next
    case False
    with stored_plain_iff [OF assms(8,11)] 2(2) assms(12) show ?thesis by simp
  qed
  then obtain zu' s3 where 3: "(if ZIP_CHECK ul \<and> 0 < int (length ub) then la_unzip alloc lz ub zu s2 else ((True, zu), s2)) = ((True, zu'), s3)"
    "valid s3" "z_log_data zu' \<noteq> None" "(if ZIP_CHECK ul then zip_bytes zu' else ub) = undo" by blast
  from step_align [OF assms(1) 3(2) assms(3-5,7)] obtain cu' s' where
    4: "LA_LOG_READ_ADD_ALIGN get sz NO_ERROR (length ub) cu s3 = Some ((NO_ERROR, cu'), s')" "valid s'"
    "cursor_at page sz (align8 (g + int (length ub))) cu'" "p \<le> cu_pageid cu'" .
  have "la_get_undoredo_diff get sz alloc lz ul cu zu s = Some ((NO_ERROR, ZIP_CHECK ul, Some ub, cu'), zu', s')"
    unfolding la_get_undoredo_diff_def Let_def len using 1(1) 2(1) 3(1) 4(1) by simp
  then show thesis using that 3 4 by blast
qed

lemma step_copy_type:
  assumes "area_size_ok sz" and "valid s" and "pages_before page P sz e p" and "cursor_at page sz (align8 g) cu" and "p \<le> cu_pageid cu"
    and "on_tape (tape sz page) (align8 g) data" and "align8 g + int (length data) \<le> e" and "2 \<le> length data"
  shows "\<exists>s'. la_log_copy_fromlog get sz True (int (length data)) cu s = Some ((take 2 data, drop 2 data), s') \<and> valid s'"
proof -
  note sz = area_size_okD [OF assms(1)]
  let ?b = "log_bytes page sz (cu_pageid cu)" and ?o = "cu_offset cu"
  have d: "?b ?o (length data) = data"
    by (rule on_tape_log_bytes [OF sz(2)]) (use assms(4,6) in \<open>simp add: cursor_at_def\<close>)
  have "8 dvd ?o"
  proof -
    have "8 dvd gpos sz (cu_pageid cu, ?o)" using assms(4) by (simp add: cursor_at_def align8_def)
    moreover have "8 dvd cu_pageid cu * int sz" using sz(1) by (auto elim!: dvdE)
    ultimately have "int 8 dvd int ?o" by (simp add: gpos_def dvd_add_right_iff)
    then show ?thesis by (simp only: int_dvd_int_iff)
  qed
  then have fit: "?o + 2 \<le> sz" using sz(1) assms(4) unfolding cursor_at_def dvd_def by auto
  have "?b ?o 2 @ ?b (?o + 2) (length data - 2) = data"
    unfolding log_bytes_append le_add_diff_inverse [OF assms(8)] by (rule d)
  then have "?b ?o 2 = take 2 data" "?b (?o + 2) (length data - 2) = drop 2 data"
    by (metis append_eq_conv_conj length_log_bytes)+
  then show ?thesis
    using copy_fromlog_type [OF sz(2) assms(2), of cu "int (length data)"] fit assms(4,8) cursor_ahead [OF assms(1,3-5,7)]
    by (simp add: cursor_at_def)
qed

text \<open>
  The redo data at the cursor, given that the undo data is at hand when the
  record stores a difference. \<open>img\<close> is the redo image.
\<close>

lemma data_tail:
  assumes "area_size_ok sz" and "valid s" and "pages_before page P sz e p" and "cursor_at page sz (align8 g) cu" and "p \<le> cu_pageid cu"
    and "on_tape (tape sz page) (align8 g) rb" and "align8 g + int (length rb) \<le> e" and "stored lz rl rb d" and "lzo_ok lz"
    and "int (length d) < 2 ^ 31" and "int (length rb) < 2 ^ 31" and "z_log_data zr \<noteq> None"
    and mem: "\<forall>s. valid s \<longrightarrow> (\<exists>s'. alloc s = (True, s') \<and> valid s')"
    and "is_diff \<longrightarrow> ZIP_CHECK rl \<and> (if uz then zip_bytes zu else the undo_data) = undo \<and> (uz \<or> undo_data \<noteq> None)"
    and "img = (if is_diff then log_diff undo d else d)" and "want_type \<longrightarrow> 2 \<le> length img"
    and "want_old \<longrightarrow> (if uz then zip_bytes zu else the undo_data) = undo \<and> 2 \<le> length undo \<and> (uz \<or> undo_data \<noteq> None)"
  shows "\<exists>len zr' s'. la_log_data_tail get sz alloc lz want_old want_type has_data m rl is_diff uz undo_data cu (zu, zr) s =
    Some (\<lparr>ld_error = NO_ERROR, ld_rcvindex = fst m, ld_logs = snd m, ld_type = (if want_type then take 2 img else []),
           ld_data = Some (if want_type then drop 2 img else img), ld_length = len,
           ld_old = (if want_old then Some (take 2 undo, drop 2 undo) else None)\<rparr>, (zu, zr'), s') \<and> valid s' \<and> z_log_data zr' \<noteq> None \<and>
    len = (if want_type \<and> ZIP_CHECK rl then int (length img) - 2 else int (length img))"
proof -
  obtain s1 where 1: "(if has_data then (True, s) else alloc s) = (True, s1)" "valid s1" using mem assms(2) by (cases has_data) auto
  have old: "\<exists>s'. (if want_old then la_old_image alloc uz undo_data zu t else Some (None, t)) =
      Some (if want_old then Some (take 2 undo, drop 2 undo) else None, s') \<and> valid s'" if v: "valid t" for t
  proof (cases want_old)
    case True
    obtain t' where "alloc t = (True, t')" "valid t'" using mem v by blast
    with True assms(17) show ?thesis by (auto simp: la_old_image_def)
  qed (use v in simp)
  have len: "GET_ZIP_LEN rl = int (length rb)" by (rule stored_length [OF assms(8,11)])
  show ?thesis
  proof (cases "ZIP_CHECK rl")
    case True
    from stored_zip [OF assms(8,11) True] obtain out where
      z: "lzo1x_1_compress lz d = (LZO_E_OK, out)" "rb = wr_int 4 (int (length d)) @ out" "d \<noteq> []" .
    obtain s2 where 2: "la_log_copy_fromlog get sz False (int (length rb)) cu s1 = Some (([], rb), s2)" "valid s2"
      using step_copy [OF assms(1) 1(2) assms(3-7)] by blast
    obtain zr1 s3 where 3: "la_unzip alloc lz rb zr s2 = ((True, zr1), s3)" "valid s3" "zip_bytes zr1 = d" "z_log_data zr1 \<noteq> None"
      using la_unzip_stored [OF assms(9) z(1,3) assms(10,12) mem 2(2)] z(2) by blast
    obtain s4 where 4: "(if \<not> has_data then alloc s3 else (True, s3)) = (True, s4)" "valid s4" using mem 3(2) by (cases has_data) auto
    have im: "(if is_diff then log_diff (if uz then zip_bytes zu else case undo_data of None \<Rightarrow> [] | Some u \<Rightarrow> u) (zip_bytes zr1) else zip_bytes zr1) = img"
      using assms(14,15) 3(3) by auto
    have ne: "rb \<noteq> []" using z(2) by simp
    define zr2 where "zr2 = zr1\<lparr>z_log_data := map_option (wr_at 0 img) (z_log_data zr1)\<rparr>"
    have "la_get_zipped_data alloc undo_data is_diff uz (\<not> has_data) want_type (zu, zr1) s3 =
        Some (Some (if want_type then (take 2 img, drop 2 img) else ([], img)), (zu, zr2), s4)"
      unfolding la_get_zipped_data_def Let_def prod.case im 4(1) zr2_def using assms(16) by (cases want_type) simp_all
    moreover have "z_log_data zr2 \<noteq> None" using 3(4) by (simp add: zr2_def)
    ultimately have gz: "la_get_zipped_data alloc undo_data is_diff uz (\<not> has_data) want_type (zu, zr1) s3 =
        Some (Some (if want_type then (take 2 img, drop 2 img) else ([], img)), (zu, zr2), s4)" "z_log_data zr2 \<noteq> None" by blast+
    have l2: "want_type \<Longrightarrow> int (length img - 2) = int (length img) - 2" using assms(16) by simp
    from old [OF 4(2)] 1(1) 2(1) 3(1) gz True len ne l2 show ?thesis
      by (cases want_type) (auto simp: la_log_data_tail_def Let_def)
  next
    case False
    have pl: "rl = int (length rb)" "rb = d" using stored_plain_iff [OF assms(8,11) False] by auto
    have im: "img = d" using assms(14,15) False by auto
    obtain s2 where 2: "la_log_copy_fromlog get sz want_type (int (length rb)) cu s1 =
        Some ((if want_type then take 2 img else [], if want_type then drop 2 img else img), s2)" "valid s2"
      using step_copy_type [OF assms(1) 1(2) assms(3-7)] step_copy [OF assms(1) 1(2) assms(3-7)] assms(16) im pl(2) by (cases want_type) auto
    have li: "length rb = length img" using im pl(2) by simp
    from old [OF 2(2)] 1(1) 2(1) False len li assms(12) show ?thesis
      by (auto simp: la_log_data_tail_def Let_def)
  qed
qed

lemma get_log_data_undoredo:
  assumes "area_size_ok sz" and "valid s" and "parts_readable page P sz e (p, off) hdr ub rb" and "lsa_of (p, off) = lsa"
    and "hdr = wr_log_undoredo rcv addr ul rl" and "stored lz ul ub undo" and "stored lz rl rb (if is_diff then log_diff undo redo else redo)"
    and "is_diff \<longrightarrow> ZIP_CHECK rl \<and> undo \<noteq> []" and "lr_type lrec = undoredo_type is_diff" and "lzo_ok lz"
    and "int (length undo) < 2 ^ 31" and "int (length redo) < 2 ^ 31" and "z_log_data zu \<noteq> None" and "z_log_data zr \<noteq> None"
    and mem: "\<forall>s. valid s \<longrightarrow> (\<exists>s'. alloc s = (True, s') \<and> valid s')" and "want_type \<longrightarrow> 2 \<le> length redo" and "want_old \<longrightarrow> 2 \<le> length undo"
  shows "\<exists>len zs' s'. la_get_log_data get sz alloc lz match_rcvindex want_old want_type has_data lrec lsa (page p) (zu, zr) s =
    Some (\<lparr>ld_error = NO_ERROR, ld_rcvindex = fst (la_matched match_rcvindex hdr), ld_logs = snd (la_matched match_rcvindex hdr),
           ld_type = (if want_type then take 2 redo else []), ld_data = Some (if want_type then drop 2 redo else redo), ld_length = len,
           ld_old = (if want_old then Some (take 2 undo, drop 2 undo) else None)\<rparr>, zs', s') \<and>
    valid s' \<and> z_log_data (fst zs') \<noteq> None \<and> z_log_data (snd zs') \<noteq> None \<and>
    len = (if want_type \<and> ZIP_CHECK rl then int (length redo) - 2 else int (length redo))"
proof -
  note R = assms(3) [unfolded parts_readable_def fst_conv]
  have pb: "pages_before page P sz e p" and ok: "rec_ok sz (p, off)" and sm: "int (length ub) < 2 ^ 31" "int (length rb) < 2 ^ 31"
    using R by blast+
  have ur: "- (2 ^ 31) \<le> ul \<and> ul < 2 ^ 31" "- (2 ^ 31) \<le> rl \<and> rl < 2 ^ 31"
    using stored_range [OF assms(6) sm(1)] stored_range [OF assms(7) sm(2)] by blast+
  have f: "length hdr = 20" "rd_int 4 12 hdr = ul" "rd_int 4 16 hdr = rl"
    unfolding assms(5) using undoredo_fields ur by blast+
  have hs: "length hdr + 8 < sz" using assms(1) f(1) by (auto simp: area_size_ok_def)
  let ?h = "gpos sz (rec_header_pos sz 20 (p, off))" and ?u = "rec_udata_at sz 20 (p, off)" and ?r = "rec_rdata_at sz 20 (length ub) (p, off)"
  note ord = parts_order [OF assms(3), unfolded f(1)]
  obtain cu s1 where 1: "la_read_fixed get sz 20 (rec_body (page p) lsa) s = Some ((NO_ERROR, cu), s1)" "valid s1"
    "cursor_at page sz ?h cu" "take 20 (cu_bytes cu) = hdr" "p \<le> cu_pageid cu"
    using step_fixed [OF assms(1,2) pb ok assms(4), of hdr] R ord(1) hs f(1) by auto
  obtain cu2 s2 where 2: "LA_LOG_READ_ADD_ALIGN get sz NO_ERROR 20 cu s1 = Some ((NO_ERROR, cu2), s2)" "valid s2"
    "cursor_at page sz ?u cu2" "p \<le> cu_pageid cu2"
    using step_align [OF assms(1) 1(2) pb 1(3,5), of 20] ord(2,3) by auto
  have tr: "on_tape (tape sz page) ?u ub" "on_tape (tape sz page) ?r rb" "?r + int (length rb) \<le> e" "?r < e" using R f(1) by simp_all
  have dl: "int (length (if is_diff then log_diff undo redo else redo)) < 2 ^ 31" using assms(12) by simp
  have im: "redo = (if is_diff then log_diff undo (if is_diff then log_diff undo redo else redo) else (if is_diff then log_diff undo redo else redo))"
    by simp
  have ty: "lr_type lrec = LOG_UNDOREDO_DATA \<or> lr_type lrec = LOG_DIFF_UNDOREDO_DATA" "(lr_type lrec = LOG_DIFF_UNDOREDO_DATA) = is_diff"
    using assms(9) by (auto simp: undoredo_type_def)
  let ?m = "la_matched match_rcvindex hdr"
  show ?thesis
  proof (cases "is_diff \<or> want_old")
    case True
    from undoredo_diff [OF assms(1) 2(2) pb 2(3,4) tr(1) _ assms(6,10,11) sm(1) assms(13) mem] tr(4) ord(4) obtain cu3 zu' s3 where
      3: "la_get_undoredo_diff get sz alloc lz ul cu2 zu s2 = Some ((NO_ERROR, ZIP_CHECK ul, Some ub, cu3), zu', s3)" "valid s3"
      "cursor_at page sz ?r cu3" "p \<le> cu_pageid cu3" "z_log_data zu' \<noteq> None" "(if ZIP_CHECK ul then zip_bytes zu' else ub) = undo" by metis
    have A: "is_diff \<longrightarrow> ZIP_CHECK rl \<and> (if ZIP_CHECK ul then zip_bytes zu' else the (Some ub)) = undo \<and> (ZIP_CHECK ul \<or> Some ub \<noteq> None)"
      and B: "want_old \<longrightarrow> (if ZIP_CHECK ul then zip_bytes zu' else the (Some ub)) = undo \<and> 2 \<le> length undo \<and> (ZIP_CHECK ul \<or> Some ub \<noteq> None)"
      using 3(6) assms(8,17) by (cases "ZIP_CHECK ul"; simp)+
    from data_tail [OF assms(1) 3(2) pb 3(3) [unfolded ord(4)] 3(4) tr(2) [unfolded ord(4)] tr(3) [unfolded ord(4)] assms(7,10) dl sm(2) assms(14) mem A im assms(16) B,
        of has_data ?m]
    obtain len zr' s' where "la_log_data_tail get sz alloc lz want_old want_type has_data ?m rl is_diff (ZIP_CHECK ul) (Some ub) cu3 (zu', zr) s3 =
        Some (\<lparr>ld_error = NO_ERROR, ld_rcvindex = fst ?m, ld_logs = snd ?m,
           ld_type = (if want_type then take 2 redo else []), ld_data = Some (if want_type then drop 2 redo else redo), ld_length = len,
           ld_old = (if want_old then Some (take 2 undo, drop 2 undo) else None)\<rparr>, (zu', zr'), s')" "valid s'" "z_log_data zr' \<noteq> None"
      "len = (if want_type \<and> ZIP_CHECK rl then int (length redo) - 2 else int (length redo))" by auto
    then show ?thesis using 1 2 3 f(2,3) ty True by (simp add: la_get_log_data_def Let_def)
  next
    case False
    have ul: "GET_ZIP_LEN ul = int (length ub)" by (rule stored_length [OF assms(6) sm(1)])
    obtain cu3 s3 where 3: "LA_LOG_READ_ADD_ALIGN get sz NO_ERROR (length ub) cu2 s2 = Some ((NO_ERROR, cu3), s3)" "valid s3"
      "cursor_at page sz ?r cu3" "p \<le> cu_pageid cu3"
      using step_align [OF assms(1) 2(2) pb 2(3,4), of "length ub"] tr(4) ord(4) by metis
    have A: "is_diff \<longrightarrow> ZIP_CHECK rl \<and> (if False then zip_bytes zu else the None) = undo \<and> (False \<or> (None :: byte list option) \<noteq> None)"
      and B: "want_old \<longrightarrow> (if False then zip_bytes zu else the None) = undo \<and> 2 \<le> length undo \<and> (False \<or> (None :: byte list option) \<noteq> None)"
      using False by simp_all
    from data_tail [OF assms(1) 3(2) pb 3(3) [unfolded ord(4)] 3(4) tr(2) [unfolded ord(4)] tr(3) [unfolded ord(4)] assms(7,10) dl sm(2) assms(14) mem A im assms(16) B,
        of has_data ?m]
    obtain len zr' s' where "la_log_data_tail get sz alloc lz want_old want_type has_data ?m rl is_diff False None cu3 (zu, zr) s3 =
        Some (\<lparr>ld_error = NO_ERROR, ld_rcvindex = fst ?m, ld_logs = snd ?m,
           ld_type = (if want_type then take 2 redo else []), ld_data = Some (if want_type then drop 2 redo else redo), ld_length = len,
           ld_old = (if want_old then Some (take 2 undo, drop 2 undo) else None)\<rparr>, (zu, zr'), s')" "valid s'" "z_log_data zr' \<noteq> None"
      "len = (if want_type \<and> ZIP_CHECK rl then int (length redo) - 2 else int (length redo))" by auto
    then show ?thesis using 1 2 3 f(2,3) ty False ul assms(13) by (simp add: la_get_log_data_def Let_def)
  qed
qed

text \<open>A record with redo data only.\<close>

lemma get_log_data_redo:
  assumes "area_size_ok sz" and "valid s" and "parts_readable page P sz e (p, off) hdr [] rb" and "lsa_of (p, off) = lsa"
    and "hdr = wr_log_redo rcv addr rl" and "stored lz rl rb redo" and "lr_type lrec = LOG_REDO_DATA" and "lzo_ok lz"
    and "int (length redo) < 2 ^ 31" and "z_log_data zr \<noteq> None"
    and mem: "\<forall>s. valid s \<longrightarrow> (\<exists>s'. alloc s = (True, s') \<and> valid s')" and "want_type \<longrightarrow> 2 \<le> length redo"
  shows "\<exists>len zr' s'. la_get_log_data get sz alloc lz match_rcvindex False want_type has_data lrec lsa (page p) (zu, zr) s =
    Some (\<lparr>ld_error = NO_ERROR, ld_rcvindex = fst (la_matched match_rcvindex hdr), ld_logs = snd (la_matched match_rcvindex hdr),
           ld_type = (if want_type then take 2 redo else []), ld_data = Some (if want_type then drop 2 redo else redo), ld_length = len,
           ld_old = None\<rparr>, (zu, zr'), s') \<and>
    valid s' \<and> z_log_data zr' \<noteq> None \<and>
    len = (if want_type \<and> ZIP_CHECK rl then int (length redo) - 2 else int (length redo))"
proof -
  note R = assms(3) [unfolded parts_readable_def fst_conv]
  have pb: "pages_before page P sz e p" and ok: "rec_ok sz (p, off)" and sm: "int (length rb) < 2 ^ 31" using R by blast+
  have f: "length hdr = 16" "rd_int 4 12 hdr = rl" unfolding assms(5) using redo_fields stored_range [OF assms(6) sm] by blast+
  have hs: "length hdr + 8 < sz" using assms(1) f(1) by (auto simp: area_size_ok_def)
  let ?h = "gpos sz (rec_header_pos sz 16 (p, off))" and ?u = "rec_udata_at sz 16 (p, off)"
  note ord = parts_order [OF assms(3), unfolded f(1)]
  have r: "rec_rdata_at sz 16 0 (p, off) = align8 ?u" using ord(4) by simp
  obtain cu s1 where 1: "la_read_fixed get sz 16 (rec_body (page p) lsa) s = Some ((NO_ERROR, cu), s1)" "valid s1"
    "cursor_at page sz ?h cu" "take 16 (cu_bytes cu) = hdr" "p \<le> cu_pageid cu"
    using step_fixed [OF assms(1,2) pb ok assms(4), of hdr] R ord(1) hs f(1) by auto
  obtain cu2 s2 where 2: "LA_LOG_READ_ADD_ALIGN get sz NO_ERROR 16 cu s1 = Some ((NO_ERROR, cu2), s2)" "valid s2"
    "cursor_at page sz ?u cu2" "p \<le> cu_pageid cu2"
    using step_align [OF assms(1) 1(2) pb 1(3,5), of 16] ord(2,3) by auto
  have a: "align8 ?u = ?u" using ord(3) by (simp add: align8_def)
  have tr: "on_tape (tape sz page) (align8 ?u) rb" "align8 ?u + int (length rb) \<le> e" using R f(1) r by simp_all
  have c: "cursor_at page sz (align8 ?u) cu2" using 2(3) by (simp only: a)
  from data_tail [where is_diff = False and uz = False and undo_data = None and want_old = False and undo = "[]" and img = redo and d = redo and
        has_data = has_data and m = "la_matched match_rcvindex hdr" and zu = zu,
      OF assms(1) 2(2) pb c 2(4) tr assms(6,8,9) sm assms(10) mem _ _ assms(12)]
  show ?thesis using 1 2 f(2) assms(7) by (auto simp: la_get_log_data_def Let_def)
qed

end

section \<open>Records the server wrote\<close>

text \<open>The header of a record is found in its page as it was written; of a header with fields that do not fit, the type.\<close>

lemma header_area:
  assumes "0 < sz" and "rec_ok sz (lsa_pos lsa)" and "on_tape (tape sz page) (gpos sz (lsa_pos lsa)) (wr_log_record_header h)"
    and "length (lp_area (page (lsa_pageid lsa))) = sz"
  obtains pre post where "lp_area (page (lsa_pageid lsa)) = pre @ wr_log_record_header h @ post" "length pre = nat (lsa_offset lsa)"
proof -
  let ?o = "nat (lsa_offset lsa)" and ?a = "lp_area (page (lsa_pageid lsa))"
  have o: "?o + 32 \<le> sz" using assms(2) by (simp add: rec_ok_def lsa_pos_def)
  have l: "length (wr_log_record_header h) = 32" by (simp add: wr_log_record_header_def wr_lsa_def)
  have "log_bytes page sz (lsa_pageid lsa) ?o (length (wr_log_record_header h)) = wr_log_record_header h"
    by (rule on_tape_log_bytes [OF assms(1)]) (use assms(3) in \<open>simp add: lsa_pos_def\<close>)
  then have "take 32 (drop ?o ?a) = wr_log_record_header h"
    unfolding l log_bytes_in_page [where page = page, OF o assms(4)] .
  then show thesis
    using that o assms(4) append_take_drop_id [of ?o ?a] append_take_drop_id [of 32 "drop ?o ?a"]
    by (metis add_leD1 length_take min.absorb2)
qed

lemma header_on_tape:
  assumes "0 < sz" and "rec_ok sz (lsa_pos lsa)" and "on_tape (tape sz page) (gpos sz (lsa_pos lsa)) (wr_log_record_header h)"
    and "length (lp_area (page (lsa_pageid lsa))) = sz" and "header_fits h"
  shows "LOG_GET_LOG_RECORD_HEADER (page (lsa_pageid lsa)) lsa = h"
  using header_area [OF assms(1-4)] rd_wr_log_record_header [OF assms(5)] by (metis LOG_GET_LOG_RECORD_HEADER_def)

lemma header_type_on_tape:
  assumes "0 < sz" and "rec_ok sz (lsa_pos lsa)" and "on_tape (tape sz page) (gpos sz (lsa_pos lsa)) (wr_log_record_header h)"
    and "length (lp_area (page (lsa_pageid lsa))) = sz" and "- (2 ^ 31) \<le> lr_type h" and "lr_type h < 2 ^ 31"
  shows "lr_type (LOG_GET_LOG_RECORD_HEADER (page (lsa_pageid lsa)) lsa) = lr_type h"
proof -
  from header_area [OF assms(1-4)] obtain pre post where
    a: "lp_area (page (lsa_pageid lsa)) = pre @ wr_log_record_header h @ post" "length pre = nat (lsa_offset lsa)" .
  let ?pre = "pre @ wr_lsa (lr_prev_tranlsa h) @ wr_lsa (lr_back_lsa h) @ wr_lsa (lr_forw_lsa h) @ wr_int 4 (lr_trid h)"
  have "rd_int 4 (length ?pre) (?pre @ wr_int 4 (lr_type h) @ post) = lr_type h" using assms(5,6) by (intro rd_wr_int) simp_all
  then show ?thesis using a by (simp add: LOG_GET_LOG_RECORD_HEADER_def rd_log_record_header_def wr_log_record_header_def wr_lsa_def)
qed

text \<open>A node that was written, as the reader finds it.\<close>

lemma node_parts_readable:
  assumes "area_size_ok sz" and "node_on_tape sz (tape sz page) (lsa_pos (pn_start_lsa n)) n" and "rec_ok sz (lsa_pos (pn_start_lsa n))"
    and "node_within sz a b n" and "pos_ok sz a" and "pos_ok sz b" and "\<forall>q. fst a \<le> q \<and> q \<le> fst b \<longrightarrow> P q"
    and "\<And>q. length (lp_area (page q)) = sz" and "int (length (pn_udata n)) < 2 ^ 31" and "int (length (pn_rdata n)) < 2 ^ 31"
  shows "parts_readable page P sz (gpos sz b + 1) (lsa_pos (pn_start_lsa n)) (pn_data_header n) (pn_udata n) (pn_rdata n)"
proof -
  note sz = area_size_okD [OF assms(1)]
  have "pages_before page P sz (gpos sz b + 1) (fst (lsa_pos (pn_start_lsa n)))" by (rule node_pages_before [OF sz(2) assms(3-8)])
  moreover have "rec_rdata_at sz (length (pn_data_header n)) (length (pn_udata n)) (lsa_pos (pn_start_lsa n)) + int (length (pn_rdata n)) \<le>
      gpos sz (rec_end sz (length (pn_data_header n)) (length (pn_udata n)) (length (pn_rdata n)) (lsa_pos (pn_start_lsa n)))"
    by (rule rec_end_after [OF assms(1)])
  ultimately show ?thesis
    using assms(2-4,9,10) by (simp add: parts_readable_def node_on_tape_def node_within_def Let_def)
qed

text \<open>A record that was reserved and written, as the reader finds it.\<close>

lemma written_record:
  fixes td :: "'z log_tdes_scheme"
  assumes "area_size_ok sz" and "agree sz pi gl" and "pi_list pi = []" and "request_ok sz node"
    and "prior_lsa_next_record_internal sz node td pi = Some (lsa, td', pi')"
    and "logpb_append_prior_lsa_list sz (pi_list pi') gl = Some gl'"
    and "\<forall>q. fst (gl_append gl) \<le> q \<and> q \<le> fst (gl_append gl') \<longrightarrow> P q"
    and "int (length (pn_udata node)) < 2 ^ 31" and "int (length (pn_rdata node)) < 2 ^ 31"
    and "- (2 ^ 31) \<le> lr_type (pn_log_header node)" and "lr_type (pn_log_header node) < 2 ^ 31"
  shows "parts_readable (gl_pages gl') P sz (gpos sz (gl_append gl') + 1) (lsa_pos lsa) (pn_data_header node) (pn_udata node) (pn_rdata node)"
    and "lr_type (LOG_GET_LOG_RECORD_HEADER (gl_pages gl' (lsa_pageid lsa)) lsa) = lr_type (pn_log_header node)"
    and "lsa_of (lsa_pos lsa) = lsa" and "agree sz pi' gl'"
proof -
  note sz = area_size_okD [OF assms(1)]
  from one_record [OF assms(1,2,4), of td] obtain n pi1 gl1 where
    1: "prior_lsa_next_record_internal sz node td pi = Some (lsa_of (gl_append gl), td_appended (gl_append gl) td, pi1)"
    "pi_list pi1 = pi_list pi @ [n]" "logpb_append_next_record sz n gl = Some gl1" "agree sz pi1 gl1"
    "pn_start_lsa n = lsa_of (gl_append gl)" "node_payload n = node_payload node"
    "node_on_tape sz (tape sz (gl_pages gl1)) (gl_append gl) n"
    "gl_append gl1 = rec_end sz (length (pn_data_header n)) (length (pn_udata n)) (length (pn_rdata n)) (gl_append gl)" .
  have e: "lsa = lsa_of (gl_append gl)" "pi' = pi1" "gl' = gl1" using 1(1-3) assms(3,5,6) by auto
  have ok: "rec_ok sz (gl_append gl)" "pos_ok sz (gl_append gl)" "pos_ok sz (gl_append gl1)"
    using assms(2) 1(4) unfolding agree_def rec_ok_def by blast+
  have len: "\<And>q. length (lp_area (gl_pages gl1 q)) = sz" using 1(4) unfolding agree_def areas_ok_def by blast
  have w: "node_within sz (gl_append gl) (gl_append gl1) n" using 1(5,8) by (simp add: node_within_def lsa_of_def lsa_pos_def)
  show "parts_readable (gl_pages gl') P sz (gpos sz (gl_append gl') + 1) (lsa_pos lsa) (pn_data_header node) (pn_udata node) (pn_rdata node)"
    using node_parts_readable [where page = "gl_pages gl1", OF assms(1) _ _ w ok(2,3) _ len, of P] 1(5-7) ok(1) e assms(7-9) by simp
  show "lr_type (LOG_GET_LOG_RECORD_HEADER (gl_pages gl' (lsa_pageid lsa)) lsa) = lr_type (pn_log_header node)"
    using header_type_on_tape [OF sz(2), of lsa "gl_pages gl1" "pn_log_header n"] 1(6,7) ok(1) e len assms(10,11)
    by (simp add: node_on_tape_def Let_def)
  show "lsa_of (lsa_pos lsa) = lsa" "agree sz pi' gl'" using e 1(4) by simp_all
qed

lemma undoredo_node_request:
  "area_size_ok sz \<Longrightarrow> undoredo_node lz rcv addr undo redo n \<Longrightarrow> request_ok sz n \<and> - (2 ^ 31) \<le> lr_type (pn_log_header n) \<and> lr_type (pn_log_header n) < 2 ^ 31"
  by (auto simp: undoredo_node_def request_ok_def wr_log_undoredo_def undoredo_type_def area_size_ok_def split: if_splits)

lemma stored_shorter: "stored lz len bs data \<Longrightarrow> length bs \<le> length data"
  by (auto simp: stored_def)

lemma undoredo_node_shorter:
  "undoredo_node lz rcv addr undo redo n \<Longrightarrow> length (pn_udata n) \<le> length undo \<and> length (pn_rdata n) \<le> length redo"
  unfolding undoredo_node_def using stored_shorter by (fastforce split: if_splits)

section \<open>Replication records are made the same way\<close>

text \<open>
  The node of a replication record is the node that
  \<^verbatim>\<open>prior_lsa_alloc_and_copy_data\<close> makes for it, with the fixed part filled in.
\<close>

lemma repl_node_made:
  assumes "ge_node_mem en" and "ge_header_mem en" and "ge_udata_mem en" and "must_append c r"
    and "rr_repl_data r = Some data" and "rr_length r = int (length data)"
  shows "\<exists>node. prior_lsa_alloc_and_copy_data (rr_repl_type r) 0 addr data [] en = Some (Some node, en) \<and>
    length (pn_data_header node) = length (pn_data_header (repl_node r)) \<and> repl_node r = node\<lparr>pn_data_header := pn_data_header (repl_node r)\<rparr>"
  using assms
  by (auto simp: prior_lsa_alloc_and_copy_data_def is_plain_record_def prior_lsa_gen_record_def gen_record_header_length_def fresh_block_def
      node_or_null_def new_node_def Let_def must_append_def repl_node_header prior_lsa_copy_undo_data_to_node_def)
    (simp_all add: repl_node_def empty_header_def)

end
