(* ===== verification/Log_Manager.thy ===== *)
theory Log_Manager
  imports Log_Gen Replication La_Control
begin

text \<open>
  Logging changes on the server (\<^verbatim>\<open>transaction/log_manager.c\<close>): the functions
  with which the storage layer logs the undo and redo data of a change of a
  page. They decide whether the change is logged at all, have the node of the
  record made, append it to the prior list, stamp the page with the address of
  the record, and note the addresses of the last insertion and the last update
  of a row in the transaction descriptor, where the replication records take
  them from.

  What they ask of the rest of the server is a record \<open>log_srv_env\<close>; the state
  they change is a record \<open>log_srv\<close>. \<open>None\<close> is a call through a null pointer, or one that appends a
  node without a length. The macros for a debug build are not modelled.
\<close>

section \<open>Environment and state\<close>

abbreviation (input) RV_NOT_DEFINED :: int where "RV_NOT_DEFINED \<equiv> 999"
abbreviation (input) RVDK_LINK_PERM_VOLEXT :: int where "RVDK_LINK_PERM_VOLEXT \<equiv> 10"
abbreviation (input) RVHF_INSERT :: int where "RVHF_INSERT \<equiv> 40"
abbreviation (input) RVHF_UPDATE :: int where "RVHF_UPDATE \<equiv> 43"
abbreviation (input) RVOVF_NEWPAGE_LOGICAL_UNDO :: int where "RVOVF_NEWPAGE_LOGICAL_UNDO \<equiv> 46"
abbreviation (input) RVOVF_NEWPAGE_INSERT :: int where "RVOVF_NEWPAGE_INSERT \<equiv> 47"
abbreviation (input) RVOVF_PAGE_UPDATE :: int where "RVOVF_PAGE_UPDATE \<equiv> 49"
abbreviation (input) RVOVF_CHANGE_LINK :: int where "RVOVF_CHANGE_LINK \<equiv> 50"
abbreviation (input) HA_MODE_OFF :: int where "HA_MODE_OFF \<equiv> 0"

text \<open>
  The flags, in this order: no logging at all (\<^verbatim>\<open>log_No_logging\<close>); the thread
  has a descriptor; a top operation is open; the transaction is active; it is
  being aborted; it has a savepoint; the page is temporary; the address has a
  file; the file is a temporary one; the file is new and has no undo log yet;
  the page takes the address (\<^verbatim>\<open>pgbuf_set_lsa\<close>); the client is a log applier.
\<close>

record log_srv_env =
  lm_no_logging :: bool
  lm_tdes :: bool
  lm_topop :: bool
  lm_active :: bool
  lm_aborted :: bool
  lm_savept :: bool
  lm_temporary :: bool
  lm_vfid :: bool
  lm_tmp_file :: bool
  lm_new_file :: bool
  lm_set_lsa :: bool
  lm_applier :: bool
  lm_ha_mode :: int
  lm_ha_state :: int

record log_srv =
  ls_tdes :: log_tdes_repl
  ls_prior :: log_prior_info
  ls_gen :: gen_env
  ls_page_lsa :: "int \<times> int \<Rightarrow> log_lsa"
  ls_has_undolog :: bool
  ls_logging_skipped :: bool

section \<open>Decisions\<close>

definition log_does_allow_replication :: "int \<Rightarrow> int \<Rightarrow> bool" where
  "log_does_allow_replication ha_mode ha_state \<longleftrightarrow>
     \<not> (ha_mode = HA_MODE_OFF \<or> (ha_state \<noteq> HA_SERVER_STATE_ACTIVE \<and> ha_state \<noteq> HA_SERVER_STATE_TO_BE_STANDBY))"

definition LOG_ISUNSAFE_TO_SKIP_RCVINDEX :: "int \<Rightarrow> bool" where
  "LOG_ISUNSAFE_TO_SKIP_RCVINDEX rcvindex \<longleftrightarrow> rcvindex = RVDK_LINK_PERM_VOLEXT"

definition LOG_NEED_TO_SET_LSA :: "log_srv_env \<Rightarrow> int \<Rightarrow> bool" where
  "LOG_NEED_TO_SET_LSA le rcvindex \<longleftrightarrow> rcvindex \<noteq> RVDK_LINK_PERM_VOLEXT \<or> \<not> lm_temporary le"

definition log_can_skip_undo_logging :: "log_srv_env \<Rightarrow> int \<Rightarrow> log_data_addr \<Rightarrow> log_srv \<Rightarrow> bool \<times> log_srv" where
  "log_can_skip_undo_logging le rcvindex addr st =
     (if LOG_ISUNSAFE_TO_SKIP_RCVINDEX rcvindex then (False, st)
      else if da_vpid addr \<noteq> None \<and> lm_temporary le then (True, st)
      else if da_vpid addr = None \<and> lm_vfid le \<and> lm_tmp_file le then (True, st)
      else if lm_vfid le \<and> lm_new_file le then
        (if \<not> lm_topop le \<and> \<not> lm_savept le then (True, st) else (False, st\<lparr>ls_has_undolog := True\<rparr>))
      else (False, st))"

definition log_can_skip_redo_logging :: "log_srv_env \<Rightarrow> int \<Rightarrow> bool" where
  "log_can_skip_redo_logging le rcvindex \<longleftrightarrow> \<not> LOG_ISUNSAFE_TO_SKIP_RCVINDEX rcvindex \<and> lm_temporary le"

text \<open>The tests every function begins with, after the one for no logging at all.\<close>

definition log_tran_can_log :: "log_srv_env \<Rightarrow> bool" where
  "log_tran_can_log le \<longleftrightarrow> lm_tdes le \<and> (lm_topop le \<or> lm_active le \<or> lm_aborted le)"

section \<open>Appending a node\<close>

definition log_note_repl_lsa :: "log_srv_env \<Rightarrow> int \<Rightarrow> log_tdes_repl \<Rightarrow> log_tdes_repl" where
  "log_note_repl_lsa le rcvindex td =
     (if \<not> lm_applier le \<and> log_does_allow_replication (lm_ha_mode le) (lm_ha_state le) then
        (if rcvindex = RVHF_UPDATE \<or> rcvindex = RVOVF_CHANGE_LINK then td\<lparr>td_repl_update_lsa := td_tail_lsa td\<rparr>
         else if rcvindex = RVHF_INSERT then td\<lparr>td_repl_insert_lsa := td_tail_lsa td\<rparr> else td)
      else td)"

definition log_append_node :: "nat \<Rightarrow> log_prior_node \<Rightarrow> log_srv \<Rightarrow> (log_lsa \<times> log_srv) option" where
  "log_append_node sz node st =
     (case prior_lsa_next_record_internal sz node (ls_tdes st) (ls_prior st) of
        None \<Rightarrow> None
      | Some (start_lsa, td, pi) \<Rightarrow> Some (start_lsa, st\<lparr>ls_tdes := td, ls_prior := pi\<rparr>))"

text \<open>
  A record with redo data: the page is stamped and the address noted, unless
  the page does not take the address. A record with undo data only has no
  address to note and may have no page.
\<close>

definition log_append_redo_node :: "nat \<Rightarrow> log_srv_env \<Rightarrow> int \<Rightarrow> log_data_addr \<Rightarrow> log_prior_node option \<Rightarrow> log_srv \<Rightarrow> log_srv option" where
  "log_append_redo_node sz le rcvindex addr node st =
     (case node of
        None \<Rightarrow> Some st
      | Some n \<Rightarrow> do {
          (start_lsa, st1) \<leftarrow> log_append_node sz n st;
          if LOG_NEED_TO_SET_LSA le rcvindex then do {
            vpid \<leftarrow> da_vpid addr;
            if \<not> lm_set_lsa le then Some st1
            else Some (st1\<lparr>ls_page_lsa := (ls_page_lsa st1)(vpid := start_lsa), ls_tdes := log_note_repl_lsa le rcvindex (ls_tdes st1)\<rparr>)
          }
          else Some (st1\<lparr>ls_tdes := log_note_repl_lsa le rcvindex (ls_tdes st1)\<rparr>)
        })"

definition log_append_undo_node :: "nat \<Rightarrow> log_srv_env \<Rightarrow> int \<Rightarrow> log_data_addr \<Rightarrow> log_prior_node option \<Rightarrow> log_srv \<Rightarrow> log_srv option" where
  "log_append_undo_node sz le rcvindex addr node st =
     (case node of
        None \<Rightarrow> Some st
      | Some n \<Rightarrow> do {
          (start_lsa, st1) \<leftarrow> log_append_node sz n st;
          (case da_vpid addr of
             None \<Rightarrow> Some st1
           | Some vpid \<Rightarrow>
               Some (if LOG_NEED_TO_SET_LSA le rcvindex \<and> lm_set_lsa le
                     then st1\<lparr>ls_page_lsa := (ls_page_lsa st1)(vpid := start_lsa)\<rparr> else st1))
        })"

definition log_data_node :: "int \<Rightarrow> int \<Rightarrow> log_data_addr \<Rightarrow> byte list \<Rightarrow> byte list \<Rightarrow> log_srv \<Rightarrow> (log_prior_node option \<times> log_srv) option" where
  "log_data_node rec_type rcvindex addr udata rdata st =
     map_option (\<lambda>(node, en). (node, st\<lparr>ls_gen := en\<rparr>)) (prior_lsa_alloc_and_copy_data rec_type rcvindex addr udata rdata (ls_gen st))"

definition log_crumbs_node :: "int \<Rightarrow> int \<Rightarrow> log_data_addr \<Rightarrow> byte list list \<Rightarrow> byte list list \<Rightarrow> log_srv \<Rightarrow> log_prior_node option \<times> log_srv" where
  "log_crumbs_node rec_type rcvindex addr ucrumbs rcrumbs st =
     (case prior_lsa_alloc_and_copy_crumbs rec_type rcvindex addr ucrumbs rcrumbs (ls_gen st) of (node, en) \<Rightarrow> (node, st\<lparr>ls_gen := en\<rparr>))"

section \<open>Logging data\<close>

definition log_append_redo_data2 :: "nat \<Rightarrow> log_srv_env \<Rightarrow> int \<Rightarrow> log_data_addr \<Rightarrow> byte list \<Rightarrow> log_srv \<Rightarrow> log_srv option" where
  "log_append_redo_data2 sz le rcvindex addr data st =
     (if lm_no_logging le then Some (st\<lparr>ls_logging_skipped := True\<rparr>)
      else if \<not> log_tran_can_log le then Some st
      else if log_can_skip_redo_logging le rcvindex then Some st
      else do {
        (node, st1) \<leftarrow> log_data_node LOG_REDO_DATA rcvindex addr [] data st;
        log_append_redo_node sz le rcvindex addr node st1
      })"

definition log_append_undo_data2 :: "nat \<Rightarrow> log_srv_env \<Rightarrow> int \<Rightarrow> log_data_addr \<Rightarrow> byte list \<Rightarrow> log_srv \<Rightarrow> log_srv option" where
  "log_append_undo_data2 sz le rcvindex addr data st =
     (if lm_no_logging le then Some (st\<lparr>ls_logging_skipped := True\<rparr>)
      else if \<not> log_tran_can_log le then Some st
      else
        (case log_can_skip_undo_logging le rcvindex addr st of
           (skip, st1) \<Rightarrow>
             if skip then Some st1
             else do {
               (node, st2) \<leftarrow> log_data_node LOG_UNDO_DATA rcvindex addr data [] st1;
               log_append_undo_node sz le rcvindex addr node st2
             }))"

definition log_append_undoredo_data2 ::
    "nat \<Rightarrow> log_srv_env \<Rightarrow> int \<Rightarrow> log_data_addr \<Rightarrow> byte list \<Rightarrow> byte list \<Rightarrow> log_srv \<Rightarrow> log_srv option" where
  "log_append_undoredo_data2 sz le rcvindex addr undo_data redo_data st =
     (if lm_no_logging le then Some (st\<lparr>ls_logging_skipped := True\<rparr>)
      else if \<not> log_tran_can_log le then Some st
      else
        (case log_can_skip_undo_logging le rcvindex addr st of
           (skip, st1) \<Rightarrow>
             if skip then log_append_redo_data2 sz le rcvindex addr redo_data st1
             else do {
               (node, st2) \<leftarrow> log_data_node LOG_UNDOREDO_DATA rcvindex addr undo_data redo_data st1;
               log_append_redo_node sz le rcvindex addr node st2
             }))"

section \<open>Logging data in pieces\<close>

definition log_append_redo_crumbs :: "nat \<Rightarrow> log_srv_env \<Rightarrow> int \<Rightarrow> log_data_addr \<Rightarrow> byte list list \<Rightarrow> log_srv \<Rightarrow> log_srv option" where
  "log_append_redo_crumbs sz le rcvindex addr crumbs st =
     (if lm_no_logging le then Some (st\<lparr>ls_logging_skipped := True\<rparr>)
      else if \<not> log_tran_can_log le then Some st
      else if log_can_skip_redo_logging le rcvindex then Some st
      else
        (case log_crumbs_node LOG_REDO_DATA rcvindex addr [] crumbs st of
           (node, st1) \<Rightarrow> log_append_redo_node sz le rcvindex addr node st1))"

definition log_append_undo_crumbs :: "nat \<Rightarrow> log_srv_env \<Rightarrow> int \<Rightarrow> log_data_addr \<Rightarrow> byte list list \<Rightarrow> log_srv \<Rightarrow> log_srv option" where
  "log_append_undo_crumbs sz le rcvindex addr crumbs st =
     (if lm_no_logging le then Some (st\<lparr>ls_logging_skipped := True\<rparr>)
      else if \<not> log_tran_can_log le then Some st
      else
        (case log_can_skip_undo_logging le rcvindex addr st of
           (skip, st1) \<Rightarrow>
             if skip then Some st1
             else
               (case log_crumbs_node LOG_UNDO_DATA rcvindex addr crumbs [] st1 of
                  (node, st2) \<Rightarrow> log_append_undo_node sz le rcvindex addr node st2)))"

definition log_append_undoredo_crumbs ::
    "nat \<Rightarrow> log_srv_env \<Rightarrow> int \<Rightarrow> log_data_addr \<Rightarrow> byte list list \<Rightarrow> byte list list \<Rightarrow> log_srv \<Rightarrow> log_srv option" where
  "log_append_undoredo_crumbs sz le rcvindex addr undo_crumbs redo_crumbs st =
     (if lm_no_logging le then Some (st\<lparr>ls_logging_skipped := True\<rparr>)
      else if \<not> log_tran_can_log le then Some st
      else
        (case log_can_skip_undo_logging le rcvindex addr st of
           (skip, st1) \<Rightarrow>
             if skip then log_append_redo_crumbs sz le rcvindex addr redo_crumbs st1
             else
               (case log_crumbs_node LOG_UNDOREDO_DATA rcvindex addr undo_crumbs redo_crumbs st1 of
                  (node, st2) \<Rightarrow> log_append_redo_node sz le rcvindex addr node st2)))"

text \<open>A record descriptor as pieces: its type, two bytes, and its data. The descriptor may be absent.\<close>

definition recdes_crumbs :: "(int \<times> byte list) option \<Rightarrow> byte list list" where
  "recdes_crumbs recdes = (case recdes of None \<Rightarrow> [] | Some (ty, data) \<Rightarrow> [wr_int 2 ty, data])"

definition log_append_undoredo_recdes2 ::
    "nat \<Rightarrow> log_srv_env \<Rightarrow> int \<Rightarrow> log_data_addr \<Rightarrow> (int \<times> byte list) option \<Rightarrow> (int \<times> byte list) option \<Rightarrow> log_srv \<Rightarrow> log_srv option" where
  "log_append_undoredo_recdes2 sz le rcvindex addr undo_recdes redo_recdes =
     log_append_undoredo_crumbs sz le rcvindex addr (recdes_crumbs undo_recdes) (recdes_crumbs redo_recdes)"

definition log_append_undo_recdes2 :: "nat \<Rightarrow> log_srv_env \<Rightarrow> int \<Rightarrow> log_data_addr \<Rightarrow> (int \<times> byte list) option \<Rightarrow> log_srv \<Rightarrow> log_srv option" where
  "log_append_undo_recdes2 sz le rcvindex addr recdes = log_append_undo_crumbs sz le rcvindex addr (recdes_crumbs recdes)"

definition log_append_redo_recdes2 :: "nat \<Rightarrow> log_srv_env \<Rightarrow> int \<Rightarrow> log_data_addr \<Rightarrow> (int \<times> byte list) option \<Rightarrow> log_srv \<Rightarrow> log_srv option" where
  "log_append_redo_recdes2 sz le rcvindex addr recdes = log_append_redo_crumbs sz le rcvindex addr (recdes_crumbs recdes)"

section \<open>Records without data\<close>

text \<open>\<open>addr\<close> is absent for \<^verbatim>\<open>NULL\<close>. The node gets an address that is not used.\<close>

definition no_addr :: log_data_addr where
  "no_addr = \<lparr>da_vpid = None, da_offset = 0\<rparr>"

definition log_append_empty_record :: "nat \<Rightarrow> log_srv_env \<Rightarrow> int \<Rightarrow> bool \<Rightarrow> log_srv \<Rightarrow> log_srv option" where
  "log_append_empty_record sz le logrec_type has_addr st =
     (if \<not> lm_tdes le then Some st
      else if has_addr \<and> log_can_skip_redo_logging le RV_NOT_DEFINED then Some st
      else do {
        (node, st1) \<leftarrow> log_data_node logrec_type RV_NOT_DEFINED no_addr [] [] st;
        (case node of None \<Rightarrow> Some st1 | Some n \<Rightarrow> map_option snd (log_append_node sz n st1))
      })"

text \<open>
  The records whose fixed part the function itself fills in: the state of the
  server and the time, and the time of a commit or an abort. Flushing the pages
  is not modelled.
\<close>

definition log_append_ha_server_state :: "nat \<Rightarrow> log_srv_env \<Rightarrow> int \<Rightarrow> int \<Rightarrow> log_srv \<Rightarrow> log_srv option" where
  "log_append_ha_server_state sz le state now st =
     (if \<not> lm_tdes le then Some st
      else do {
        (node, st1) \<leftarrow> log_data_node LOG_DUMMY_HA_SERVER_STATE RV_NOT_DEFINED no_addr [] [] st;
        (case node of
           None \<Rightarrow> Some st1
         | Some n \<Rightarrow> map_option snd (log_append_node sz (n\<lparr>pn_data_header := wr_int 4 state @ wr_int 4 0 @ wr_int 8 now\<rparr>) st1))
      })"

definition log_append_donetime :: "nat \<Rightarrow> int \<Rightarrow> int \<Rightarrow> log_srv \<Rightarrow> log_srv option" where
  "log_append_donetime sz iscommitted now st = do {
     (node, st1) \<leftarrow> log_data_node iscommitted RV_NOT_DEFINED no_addr [] [] st;
     (case node of
        None \<Rightarrow> Some st1
      | Some n \<Rightarrow> map_option snd (log_append_node sz (n\<lparr>pn_data_header := wr_int 8 now\<rparr>) st1))
   }"

end
