(* ===== verification/La_Recdes.thy ===== *)
theory La_Recdes
  imports La_Log_Data Log_Manager
begin

text \<open>
  Record descriptors of rows (\<^verbatim>\<open>transaction/log_applier.c\<close>,
  \<^verbatim>\<open>la_get_recdes\<close> and its helpers): the applier gets the row that an item
  stands for from the log record at the target address of the item. A row that
  fills pages of its own (\<^verbatim>\<open>REC_BIGONE\<close>) is put together from earlier records
  of the transaction, the row of a record that only assigned an address is that
  of a later update, and the row of a relocated record that of the insertion
  before it.

  \<open>rel\<close> releases a page. \<open>None\<close> is a call that does not return, reads through
  a null pointer or copies a negative number of bytes.
\<close>

section \<open>Constants and results\<close>

abbreviation (input) REC_ASSIGN_ADDRESS :: int where "REC_ASSIGN_ADDRESS \<equiv> 1"
abbreviation (input) REC_RELOCATION :: int where "REC_RELOCATION \<equiv> 4"
abbreviation (input) REC_BIGONE :: int where "REC_BIGONE \<equiv> 5"
abbreviation (input) ER_GENERIC_ERROR :: errcode where "ER_GENERIC_ERROR \<equiv> -1"

text \<open>
  \<^verbatim>\<open>RECDES\<close>: \<open>rc_data\<close> are the bytes that were written to its area,
  \<open>rc_length\<close> the length it claims.
\<close>

record la_recdes =
  rc_type :: int
  rc_data :: "byte list"
  rc_length :: int

record la_row =
  rw_error :: errcode
  rw_rcvindex :: "int option"
  rw_recdes :: "la_recdes option"
  rw_old :: "la_recdes option"
  rw_ovfyn :: bool

section \<open>Rows in overflow pages\<close>

text \<open>
  The walk back over the records of the transaction. The parts are collected
  in front, so that they end up in the order in which they were written; the
  error is that of the last record with redo data. One step looks at the record
  at \<open>ov_lsa\<close> and either ends the walk (\<open>Inl\<close>), with an error or with what has
  been collected, or goes on (\<open>Inr\<close>).
\<close>

record la_ovf_list =
  ov_lsa :: log_lsa
  ov_error :: errcode
  ov_parts :: "(byte list \<times> int) list"
  ov_length :: int

type_synonym 's la_ovf_state = "la_ovf_list \<times> (LOG_ZIP \<times> LOG_ZIP) \<times> 's"

definition la_overflow_add :: "la_log_data \<Rightarrow> la_ovf_list \<Rightarrow> la_ovf_list" where
  "la_overflow_add r ov =
     (case (if ld_error r = NO_ERROR \<and> ld_logs r \<noteq> None then ld_data r else None) of
        None \<Rightarrow> ov\<lparr>ov_error := ld_error r\<rparr>
      | Some data \<Rightarrow> ov\<lparr>ov_error := ld_error r, ov_parts := (data, ld_length r) # ov_parts ov, ov_length := ov_length ov + ld_length r\<rparr>)"

definition la_overflow_step ::
    "'s page_src \<Rightarrow> (log_pageid \<Rightarrow> 's \<Rightarrow> 's) \<Rightarrow> nat \<Rightarrow> ('s \<Rightarrow> bool \<times> 's) \<Rightarrow> lzo \<Rightarrow> int \<Rightarrow> tranid \<Rightarrow> 's la_ovf_state
      \<Rightarrow> ((errcode option \<times> 's la_ovf_state) + 's la_ovf_state) option" where
  "la_overflow_step get rel sz alloc lz rcvindex trid st =
     (case st of (ov, zs, s) \<Rightarrow>
        let lsa = ov_lsa ov; pageid = lsa_pageid lsa
        in if LSA_ISNULL lsa then Some (Inl (None, st))
           else do {
             (page, s1) \<leftarrow> get pageid s;
             pg \<leftarrow> page;
             let lrec = LOG_GET_LOG_RECORD_HEADER pg lsa;
             if lr_trid lrec \<noteq> trid \<or> lr_type lrec = LOG_DUMMY_OVF_RECORD then Some (Inl (None, ov, zs, rel pageid s1))
             else if lr_type lrec = LOG_REDO_DATA then
               (case alloc s1 of
                  (ok, s2) \<Rightarrow>
                    if \<not> ok then Some (Inl (Some ER_OUT_OF_VIRTUAL_MEMORY, ov, zs, rel pageid s2))
                    else do {
                      (r, zs', s3) \<leftarrow> la_get_log_data get sz alloc lz rcvindex False False False lrec lsa pg zs s2;
                      Some (Inr ((la_overflow_add r ov)\<lparr>ov_lsa := lr_prev_tranlsa lrec\<rparr>, zs', rel pageid s3))
                    })
             else Some (Inr (ov\<lparr>ov_lsa := lr_prev_tranlsa lrec\<rparr>, zs, rel pageid s1))
           })"

partial_function (option) la_overflow_loop ::
    "'s page_src \<Rightarrow> (log_pageid \<Rightarrow> 's \<Rightarrow> 's) \<Rightarrow> nat \<Rightarrow> ('s \<Rightarrow> bool \<times> 's) \<Rightarrow> lzo \<Rightarrow> int \<Rightarrow> tranid \<Rightarrow> 's la_ovf_state
      \<Rightarrow> (errcode option \<times> 's la_ovf_state) option" where
  "la_overflow_loop get rel sz alloc lz rcvindex trid st =
     (case la_overflow_step get rel sz alloc lz rcvindex trid st of
        None \<Rightarrow> None
      | Some (Inl r) \<Rightarrow> Some r
      | Some (Inr st') \<Rightarrow> la_overflow_loop get rel sz alloc lz rcvindex trid st')"

text \<open>
  Copying the parts without their headers: 12 bytes of the first
  (\<^verbatim>\<open>LA_OVF_FIRST_PART\<close>), 8 of the others (\<^verbatim>\<open>LA_OVF_REST_PARTS\<close>).
\<close>

fun la_overflow_copy :: "nat \<Rightarrow> (byte list \<times> int) list \<Rightarrow> byte list option" where
  "la_overflow_copy area_offset [] = Some []"
| "la_overflow_copy area_offset ((data, len) # parts) =
     (if len < int area_offset then None
      else map_option (\<lambda>area. take (nat len - area_offset) (drop area_offset data) @ area) (la_overflow_copy 8 parts))"

text \<open>The area has the length of all parts with their headers; the bytes are those copied to its start.\<close>

definition la_get_overflow_recdes ::
    "'s page_src \<Rightarrow> (log_pageid \<Rightarrow> 's \<Rightarrow> 's) \<Rightarrow> nat \<Rightarrow> ('s \<Rightarrow> bool \<times> 's) \<Rightarrow> lzo \<Rightarrow> log_record_header \<Rightarrow> int \<Rightarrow> int
      \<Rightarrow> LOG_ZIP \<times> LOG_ZIP \<Rightarrow> 's \<Rightarrow> ((errcode \<times> byte list option \<times> int) \<times> (LOG_ZIP \<times> LOG_ZIP) \<times> 's) option" where
  "la_get_overflow_recdes get rel sz alloc lz log_record rcvindex length0 zs s =
     (case la_overflow_loop get rel sz alloc lz rcvindex (lr_trid log_record)
             (\<lparr>ov_lsa = lr_prev_tranlsa log_record, ov_error = NO_ERROR, ov_parts = [], ov_length = length0\<rparr>, zs, s) of
        None \<Rightarrow> None
      | Some (Some err, ov, zs1, s1) \<Rightarrow> Some ((err, None, ov_length ov), zs1, s1)
      | Some (None, ov, zs1, s1) \<Rightarrow>
          (case alloc s1 of
             (ok, s2) \<Rightarrow>
               if \<not> ok then Some ((ER_OUT_OF_VIRTUAL_MEMORY, None, ov_length ov), zs1, s2)
               else (case la_overflow_copy 12 (ov_parts ov) of
                       None \<Rightarrow> None
                     | Some area \<Rightarrow> Some ((ov_error ov, Some area, ov_length ov), zs1, s2))))"

section \<open>The update after the assignment of an address\<close>

text \<open>The fixed parts belong to changes of the same row.\<close>

definition la_same_row :: "byte list \<Rightarrow> byte list \<Rightarrow> bool" where
  "la_same_row prev_log undoredo \<longleftrightarrow> rd_int 4 0 undoredo = RVHF_UPDATE \<and> rd_int 4 4 undoredo = rd_int 4 4 prev_log \<and>
     rd_int 2 8 undoredo = rd_int 2 8 prev_log \<and> rd_int 2 10 undoredo = rd_int 2 10 prev_log"

text \<open>The data of the record found, at its fixed part.\<close>

definition la_next_update_data ::
    "'s page_src \<Rightarrow> nat \<Rightarrow> ('s \<Rightarrow> bool \<times> 's) \<Rightarrow> lzo \<Rightarrow> bool \<Rightarrow> byte list \<Rightarrow> log_cursor \<Rightarrow> LOG_ZIP \<times> LOG_ZIP \<Rightarrow> 's
      \<Rightarrow> (la_log_data \<times> (LOG_ZIP \<times> LOG_ZIP) \<times> 's) option" where
  "la_next_update_data get sz alloc lz is_diff undoredo cu zs s = do {
     ((err1, cu1), s1) \<leftarrow> LA_LOG_READ_ADD_ALIGN get sz NO_ERROR 20 cu s;
     if is_diff then do {
       ((err2, is_undo_zip, undo_data, cu2), zu, s2) \<leftarrow> la_get_undoredo_diff get sz alloc lz (rd_int 4 12 undoredo) cu1 (fst zs) s1;
       if err2 \<noteq> NO_ERROR then Some (ld_fail err2 None None, (zu, snd zs), s2)
       else la_log_data_tail get sz alloc lz False True True (None, None) (rd_int 4 16 undoredo) True is_undo_zip undo_data cu2 (zu, snd zs) s2
     }
     else do {
       ((err2, cu2), s2) \<leftarrow> LA_LOG_READ_ADD_ALIGN get sz err1 (nat (GET_ZIP_LEN (rd_int 4 12 undoredo))) cu1 s1;
       (r, zs', s3) \<leftarrow> la_log_data_tail get sz alloc lz False True True (None, None) (rd_int 4 16 undoredo) False False None cu2 zs s2;
       Some (if ld_error r = NO_ERROR then r\<lparr>ld_error := err2\<rparr> else r, zs', s3)
     }
   }"

text \<open>
  Forward over all records, page after page, up to the update of the row or the
  end of the transaction. The state is the page at hand, the address and the
  error so far; a step ends the search (\<open>Inl\<close>) or goes on.
\<close>

type_synonym 's la_upd_state = "log_page option \<times> log_lsa \<times> errcode \<times> 's"

definition la_next_update_step ::
    "'s page_src \<Rightarrow> nat \<Rightarrow> ('s \<Rightarrow> bool \<times> 's) \<Rightarrow> lzo \<Rightarrow> tranid \<Rightarrow> byte list \<Rightarrow> LOG_ZIP \<times> LOG_ZIP \<Rightarrow> 's la_upd_state
      \<Rightarrow> ((la_log_data \<times> (LOG_ZIP \<times> LOG_ZIP) \<times> 's) + 's la_upd_state) option" where
  "la_next_update_step get sz alloc lz trid prev_log zs st =
     (case st of (pg, lsa, error, s) \<Rightarrow>
        (case (case pg of None \<Rightarrow> None | Some p \<Rightarrow> if lp_logical_pageid p = lsa_pageid lsa then Some p else None) of
           None \<Rightarrow> do { (pg', s') \<leftarrow> get (lsa_pageid lsa) s; Some (Inr (pg', lsa, error, s')) }
         | Some p \<Rightarrow>
             let lrec = LOG_GET_LOG_RECORD_HEADER p lsa
             in if lr_trid lrec = trid \<and> (lr_type lrec = LOG_UNDOREDO_DATA \<or> lr_type lrec = LOG_DIFF_UNDOREDO_DATA) then do {
                  ((err1, cu1), s1) \<leftarrow> LA_LOG_READ_ALIGN get sz error (rec_body p lsa) s;
                  ((err2, cu2), s2) \<leftarrow> LA_LOG_READ_ADVANCE_WHEN_DOESNT_FIT get sz err1 20 cu1 s1;
                  if err2 = NO_ERROR \<and> la_same_row prev_log (take 20 (cu_bytes cu2))
                  then map_option Inl
                    (la_next_update_data get sz alloc lz (lr_type lrec = LOG_DIFF_UNDOREDO_DATA) (take 20 (cu_bytes cu2)) cu2 zs s2)
                  else Some (Inr (cu_page cu2, lr_forw_lsa lrec, err2, s2))
                }
                else if lr_trid lrec = trid \<and> (lr_type lrec = LOG_COMMIT \<or> lr_type lrec = LOG_ABORT)
                then Some (Inl (ld_fail ER_GENERIC_ERROR None None, zs, s))
                else Some (Inr (pg, lr_forw_lsa lrec, error, s))))"

partial_function (option) la_next_update_loop ::
    "'s page_src \<Rightarrow> nat \<Rightarrow> ('s \<Rightarrow> bool \<times> 's) \<Rightarrow> lzo \<Rightarrow> tranid \<Rightarrow> byte list \<Rightarrow> LOG_ZIP \<times> LOG_ZIP \<Rightarrow> 's la_upd_state
      \<Rightarrow> (la_log_data \<times> (LOG_ZIP \<times> LOG_ZIP) \<times> 's) option" where
  "la_next_update_loop get sz alloc lz trid prev_log zs st =
     (case la_next_update_step get sz alloc lz trid prev_log zs st of
        None \<Rightarrow> None
      | Some (Inl r) \<Rightarrow> Some r
      | Some (Inr st') \<Rightarrow> la_next_update_loop get sz alloc lz trid prev_log zs st')"

definition la_get_next_update_log ::
    "'s page_src \<Rightarrow> nat \<Rightarrow> ('s \<Rightarrow> bool \<times> 's) \<Rightarrow> lzo \<Rightarrow> log_record_header \<Rightarrow> log_page \<Rightarrow> byte list
      \<Rightarrow> LOG_ZIP \<times> LOG_ZIP \<Rightarrow> 's \<Rightarrow> (la_log_data \<times> (LOG_ZIP \<times> LOG_ZIP) \<times> 's) option" where
  "la_get_next_update_log get sz alloc lz prev_lrec pgptr prev_log zs s =
     la_next_update_loop get sz alloc lz (lr_trid prev_lrec) prev_log zs (Some pgptr, lr_forw_lsa prev_lrec, NO_ERROR, s)"

section \<open>Relocated rows\<close>

definition la_get_relocation_recdes ::
    "'s page_src \<Rightarrow> (log_pageid \<Rightarrow> 's \<Rightarrow> 's) \<Rightarrow> nat \<Rightarrow> ('s \<Rightarrow> bool \<times> 's) \<Rightarrow> lzo \<Rightarrow> log_record_header
      \<Rightarrow> LOG_ZIP \<times> LOG_ZIP \<Rightarrow> 's \<Rightarrow> (la_log_data \<times> (LOG_ZIP \<times> LOG_ZIP) \<times> 's) option" where
  "la_get_relocation_recdes get rel sz alloc lz lrec zs s =
     (let lsa = lr_prev_tranlsa lrec
      in if LSA_ISNULL lsa then Some (ld_fail ER_LOG_PAGE_CORRUPTED None None, zs, s)
         else
           (case get (lsa_pageid lsa) s of
              None \<Rightarrow> None
            | Some (None, s1) \<Rightarrow> None
            | Some (Some pg, s1) \<Rightarrow>
                let tmp_lrec = LOG_GET_LOG_RECORD_HEADER pg lsa
                in if lr_trid tmp_lrec \<noteq> lr_trid lrec
                   then Some (ld_fail ER_LOG_PAGE_CORRUPTED None None, zs, rel (lsa_pageid lsa) s1)
                   else (case la_get_log_data get sz alloc lz RVHF_INSERT False True True tmp_lrec lsa pg zs s1 of
                           None \<Rightarrow> None
                         | Some (r, zs', s2) \<Rightarrow> Some (r, zs', rel (lsa_pageid lsa) s2))))"

section \<open>The record descriptor\<close>

text \<open>
  The descriptor after another read into the areas of type and data: when
  nothing was read, the type and the data stay and only the length changes.
\<close>

definition recdes_of :: "la_log_data \<Rightarrow> la_recdes \<Rightarrow> la_recdes" where
  "recdes_of r old =
     (case ld_data r of
        None \<Rightarrow> old\<lparr>rc_length := ld_length r\<rparr>
      | Some data \<Rightarrow> \<lparr>rc_type = rd_int 2 0 (ld_type r), rc_data = data, rc_length = ld_length r\<rparr>)"

definition old_recdes_of :: "la_log_data \<Rightarrow> la_recdes" where
  "old_recdes_of r =
     (case ld_old r of
        None \<Rightarrow> \<lparr>rc_type = 0, rc_data = [], rc_length = 0\<rparr>
      | Some (ty, data) \<Rightarrow> \<lparr>rc_type = rd_int 2 0 ty, rc_data = data, rc_length = int (length data)\<rparr>)"

text \<open>The end of \<^verbatim>\<open>la_get_recdes\<close> after a row was put together from overflow pages.\<close>

definition overflow_row ::
    "la_row \<Rightarrow> (errcode \<times> byte list option \<times> int) \<times> (LOG_ZIP \<times> LOG_ZIP) \<times> 's \<Rightarrow> la_row \<times> (LOG_ZIP \<times> LOG_ZIP) \<times> 's" where
  "overflow_row row r =
     (case r of ((err, area, len), zs, s) \<Rightarrow>
        if err \<noteq> NO_ERROR then (row\<lparr>rw_error := err\<rparr>, zs, s)
        else (row\<lparr>rw_error := err, rw_ovfyn := True,
                  rw_recdes := map_option (\<lambda>d. d\<lparr>rc_data := (case area of None \<Rightarrow> [] | Some a \<Rightarrow> a), rc_length := len\<rparr>) (rw_recdes row)\<rparr>, zs, s))"

definition la_get_recdes ::
    "'s page_src \<Rightarrow> (log_pageid \<Rightarrow> 's \<Rightarrow> 's) \<Rightarrow> nat \<Rightarrow> ('s \<Rightarrow> bool \<times> 's) \<Rightarrow> lzo \<Rightarrow> bool \<Rightarrow> log_lsa \<Rightarrow> log_page
      \<Rightarrow> LOG_ZIP \<times> LOG_ZIP \<Rightarrow> 's \<Rightarrow> (la_row \<times> (LOG_ZIP \<times> LOG_ZIP) \<times> 's) option" where
  "la_get_recdes get rel sz alloc lz want_old lsa pgptr zs s =
     (let lrec = LOG_GET_LOG_RECORD_HEADER pgptr lsa
      in do {
        (r, zs1, s1) \<leftarrow> la_get_log_data get sz alloc lz 0 want_old True True lrec lsa pgptr zs s;
        (case (if ld_error r = NO_ERROR then ld_logs r else None) of
           None \<Rightarrow> Some (\<lparr>rw_error = (if ld_error r \<noteq> NO_ERROR then ld_error r else ER_FAILED), rw_rcvindex = ld_rcvindex r,
                          rw_recdes = None, rw_old = None, rw_ovfyn = False\<rparr>, zs1, s1)
         | Some logs \<Rightarrow>
             (let rcvindex = ld_rcvindex r;
                  recdes = recdes_of r \<lparr>rc_type = 0, rc_data = [], rc_length = 0\<rparr>;
                  row = \<lparr>rw_error = NO_ERROR, rw_rcvindex = rcvindex, rw_recdes = Some recdes,
                         rw_old = (if want_old then Some (old_recdes_of r) else None), rw_ovfyn = False\<rparr>
              in if rcvindex = Some RVOVF_CHANGE_LINK then
                   map_option (overflow_row (row\<lparr>rw_recdes := Some (recdes\<lparr>rc_type := REC_BIGONE\<rparr>)\<rparr>))
                     (la_get_overflow_recdes get rel sz alloc lz lrec RVOVF_PAGE_UPDATE 0 zs1 s1)
                 else if rc_type recdes = REC_BIGONE then
                   map_option (overflow_row row) (la_get_overflow_recdes get rel sz alloc lz lrec RVOVF_NEWPAGE_INSERT 0 zs1 s1)
                 else if rcvindex = Some RVHF_INSERT \<and> rc_type recdes = REC_ASSIGN_ADDRESS then do {
                   (u, zs2, s2) \<leftarrow> la_get_next_update_log get sz alloc lz lrec pgptr logs zs1 s1;
                   if ld_error u \<noteq> NO_ERROR then Some (row\<lparr>rw_error := ld_error u\<rparr>, zs2, s2)
                   else
                     (let recdes' = recdes_of u recdes
                      in if rc_type recdes' = REC_BIGONE then
                           map_option (overflow_row (row\<lparr>rw_recdes := Some (recdes\<lparr>rc_type := REC_BIGONE\<rparr>)\<rparr>))
                             (la_get_overflow_recdes get rel sz alloc lz lrec RVOVF_NEWPAGE_INSERT (ld_length u) zs2 s2)
                         else Some (row\<lparr>rw_recdes := Some recdes'\<rparr>, zs2, s2))
                 }
                 else if rcvindex = Some RVHF_UPDATE \<and> rc_type recdes = REC_RELOCATION then do {
                   (u, zs2, s2) \<leftarrow> la_get_relocation_recdes get rel sz alloc lz lrec zs1 s1;
                   if ld_error u \<noteq> NO_ERROR then Some (row\<lparr>rw_error := ld_error u\<rparr>, zs2, s2)
                   else Some (row\<lparr>rw_recdes := Some (recdes_of u recdes)\<rparr>, zs2, s2)
                 }
                 else Some (row, zs1, s1)))
      })"

section \<open>Reading with release and memory\<close>

text \<open>
  The interface the functions above rely on: pages that can be had and given
  back, and memory.
\<close>

locale page_reader = page_source +
  fixes rel :: "log_pageid \<Rightarrow> 's \<Rightarrow> 's" and alloc :: "'s \<Rightarrow> bool \<times> 's"
  assumes release: "valid s \<Longrightarrow> valid (rel p s)"
    and memory: "\<forall>s. valid s \<longrightarrow> (\<exists>s'. alloc s = (True, s') \<and> valid s')"

lemma release_same_page [simp]:
  "cb_logpage (bufs[j := (bufs ! j)\<lparr>cb_fix_count := c, cb_recently_free := f\<rparr>] ! i) = cb_logpage (bufs ! i)"
  "cb_pageid (bufs[j := (bufs ! j)\<lparr>cb_fix_count := c, cb_recently_free := f\<rparr>] ! i) = cb_pageid (bufs ! i)"
  by (cases "j < length bufs"; cases "i = j"; simp add: list_update_beyond)+

lemma src_release_ok: "src_ok io cfg page P Q s \<Longrightarrow> src_ok io cfg page P Q (src_release p s)"
proof -
  assume ok: "src_ok io cfg page P Q s"
  obtain pb st w where s: "s = (pb, st, w)" by (cases s)
  obtain r ht where g: "pb_get (pb_log_buffer pb) (pb_hash_table pb) (Kval p) = (r, ht)" by force
  have "pb_content page (la_release_page_buffer p pb)"
    using ok s g pb_tabled_get [OF g] by (auto simp: src_ok_def pb_content_def la_release_page_buffer_def Let_def split: option.splits)
  then show ?thesis using ok s la_release_page_buffer_result(1) by (auto simp: src_ok_def src_release_def)
qed

interpretation cr: page_reader "la_page_src io cfg" page P "src_ok io cfg page P Q" src_release "src_alloc io" for io cfg page P Q
  by unfold_locales (rule src_release_ok, assumption, rule src_alloc_ok)

section \<open>Rows in overflow pages, from the log\<close>

text \<open>
  The record at \<open>lsa\<close> has the header \<open>h\<close>, in a page that can be had; and a
  record of redo data is readable there, which stores \<open>data\<close>.
\<close>

definition header_at :: "(log_pageid \<Rightarrow> log_page) \<Rightarrow> (log_pageid \<Rightarrow> bool) \<Rightarrow> log_lsa \<Rightarrow> log_record_header \<Rightarrow> bool" where
  "header_at page P lsa h \<longleftrightarrow> \<not> LSA_ISNULL lsa \<and> P (lsa_pageid lsa) \<and> LOG_GET_LOG_RECORD_HEADER (page (lsa_pageid lsa)) lsa = h"

definition redo_at :: "(log_pageid \<Rightarrow> log_page) \<Rightarrow> (log_pageid \<Rightarrow> bool) \<Rightarrow> nat \<Rightarrow> lzo \<Rightarrow> log_lsa \<Rightarrow> int \<Rightarrow> byte list \<Rightarrow> bool" where
  "redo_at page P sz lz lsa rcv data \<longleftrightarrow> lsa_of (lsa_pos lsa) = lsa \<and> int (length data) < 2 ^ 31 \<and> - (2 ^ 31) \<le> rcv \<and> rcv < 2 ^ 31 \<and>
     (\<exists>e addr rl rb. parts_readable page P sz e (lsa_pos lsa) (wr_log_redo rcv addr rl) [] rb \<and> stored lz rl rb data)"

text \<open>
  The records of a transaction from \<open>lsa\<close> back to the mark of an overflow row,
  or to the first record: \<open>parts\<close> are the data of the redo records with the
  recovery index, in the order in which they were written.
\<close>

inductive ovf_chain :: "(log_pageid \<Rightarrow> log_page) \<Rightarrow> (log_pageid \<Rightarrow> bool) \<Rightarrow> nat \<Rightarrow> lzo \<Rightarrow> int \<Rightarrow> tranid \<Rightarrow> log_lsa \<Rightarrow> byte list list \<Rightarrow> bool"
  for page P sz lz rcvindex trid where
  ovf_null: "LSA_ISNULL lsa \<Longrightarrow> ovf_chain page P sz lz rcvindex trid lsa []"
| ovf_mark: "header_at page P lsa h \<Longrightarrow> lr_trid h \<noteq> trid \<or> lr_type h = LOG_DUMMY_OVF_RECORD \<Longrightarrow>
    ovf_chain page P sz lz rcvindex trid lsa []"
| ovf_skip: "header_at page P lsa h \<Longrightarrow> lr_trid h = trid \<Longrightarrow> lr_type h \<noteq> LOG_DUMMY_OVF_RECORD \<Longrightarrow> lr_type h \<noteq> LOG_REDO_DATA \<Longrightarrow>
    ovf_chain page P sz lz rcvindex trid (lr_prev_tranlsa h) parts \<Longrightarrow> ovf_chain page P sz lz rcvindex trid lsa parts"
| ovf_redo: "header_at page P lsa h \<Longrightarrow> lr_trid h = trid \<Longrightarrow> lr_type h = LOG_REDO_DATA \<Longrightarrow> redo_at page P sz lz lsa rcv data \<Longrightarrow>
    ovf_chain page P sz lz rcvindex trid (lr_prev_tranlsa h) parts \<Longrightarrow>
    ovf_chain page P sz lz rcvindex trid lsa (if rcv = rcvindex then parts @ [data] else parts)"

lemma redo_rcvindex: "- (2 ^ 31) \<le> rcv \<Longrightarrow> rcv < 2 ^ 31 \<Longrightarrow> rd_int 4 0 (wr_log_redo rcv addr len) = rcv"
  using rd_wr_int [of 4 rcv "[]" "wr_int 4 (addr_pageid addr) @ wr_int 2 (da_offset addr) @ wr_int 2 (addr_volid addr) @ wr_int 4 len"]
  by (simp add: wr_log_redo_def wr_log_data_def)

definition zips_ok :: "LOG_ZIP \<times> LOG_ZIP \<Rightarrow> bool" where
  "zips_ok zs \<longleftrightarrow> z_log_data (fst zs) \<noteq> None \<and> z_log_data (snd zs) \<noteq> None"

abbreviation (input) with_length :: "byte list \<Rightarrow> byte list \<times> int" where
  "with_length data \<equiv> (data, int (length data))"

context page_reader
begin

lemma overflow_redo_step:
  assumes "area_size_ok sz" and "lzo_ok lz" and "rcvindex \<noteq> 0" and "header_at page P lsa h" and "lr_trid h = trid" and "lr_type h = LOG_REDO_DATA"
    and "redo_at page P sz lz lsa rcv data" and "valid s" and "zips_ok zs"
  shows "\<exists>zs' s'. la_overflow_step get rel sz alloc lz rcvindex trid (\<lparr>ov_lsa = lsa, ov_error = NO_ERROR, ov_parts = ps, ov_length = n\<rparr>, zs, s) =
    Some (Inr (\<lparr>ov_lsa = lr_prev_tranlsa h, ov_error = NO_ERROR, ov_parts = (if rcv = rcvindex then with_length data # ps else ps),
      ov_length = (if rcv = rcvindex then n + int (length data) else n)\<rparr>, zs', s')) \<and> valid s' \<and> zips_ok zs'"
proof -
  obtain zu zr where zs: "zs = (zu, zr)" "z_log_data zu \<noteq> None" "z_log_data zr \<noteq> None" using assms(9) by (cases zs) (simp add: zips_ok_def)
  obtain s1 where 1: "get (lsa_pageid lsa) s = Some (Some (page (lsa_pageid lsa)), s1)" "valid s1"
    using get_page [OF assms(8)] assms(4) unfolding header_at_def by blast
  obtain s2 where 2: "alloc s1 = (True, s2)" "valid s2" using memory 1(2) by blast
  from assms(7) obtain e addr rl rb where r: "lsa_of (lsa_pos lsa) = lsa" "int (length data) < 2 ^ 31" "- (2 ^ 31) \<le> rcv" "rcv < 2 ^ 31"
    "parts_readable page P sz e (lsa_pos lsa) (wr_log_redo rcv addr rl) [] rb" "stored lz rl rb data" unfolding redo_at_def by blast
  have pos: "lsa_pos lsa = (lsa_pageid lsa, nat (lsa_offset lsa))" by (simp add: lsa_pos_def)
  from get_log_data_redo [where want_type = False and has_data = False and match_rcvindex = rcvindex and zu = zu,
      OF assms(1) 2(2) r(5) [unfolded pos] r(1) [unfolded pos] refl r(6) assms(6,2) r(2) zs(3) memory]
  obtain zr' s3 where 3: "la_get_log_data get sz alloc lz rcvindex False False False h lsa (page (lsa_pageid lsa)) (zu, zr) s2 =
      Some (\<lparr>ld_error = NO_ERROR, ld_rcvindex = fst (la_matched rcvindex (wr_log_redo rcv addr rl)),
        ld_logs = snd (la_matched rcvindex (wr_log_redo rcv addr rl)), ld_type = [], ld_data = Some data, ld_length = int (length data),
        ld_old = None\<rparr>, (zu, zr'), s3)" "valid s3" "z_log_data zr' \<noteq> None" by auto
  have m: "snd (la_matched rcvindex (wr_log_redo rcv addr rl)) \<noteq> None \<longleftrightarrow> rcv = rcvindex"
    using redo_rcvindex [OF r(3,4)] assms(3) by (simp add: la_matched_def la_matches_def)
  show ?thesis
    using assms(4-6) 1(1) 2(1) 3 m zs release [OF 3(2)]
    by (auto simp: la_overflow_step_def header_at_def Let_def la_overflow_add_def zips_ok_def)
qed

text \<open>The walk ends with the parts in front of those collected before.\<close>

lemma overflow_loop:
  assumes "area_size_ok sz" and "lzo_ok lz" and "rcvindex \<noteq> 0" and "ovf_chain page P sz lz rcvindex trid lsa parts" and "valid s" and "zips_ok zs"
  shows "\<exists>l zs' s'. la_overflow_loop get rel sz alloc lz rcvindex trid (\<lparr>ov_lsa = lsa, ov_error = NO_ERROR, ov_parts = ps, ov_length = n\<rparr>, zs, s) =
    Some (None, \<lparr>ov_lsa = l, ov_error = NO_ERROR, ov_parts = map with_length parts @ ps, ov_length = n + int (length (concat parts))\<rparr>, zs', s') \<and>
    valid s' \<and> zips_ok zs'"
  using assms(4-6)
proof (induction arbitrary: ps n zs s rule: ovf_chain.induct)
  case (ovf_null lsa)
  then show ?case by (subst la_overflow_loop.simps) (simp add: la_overflow_step_def)
next
  case (ovf_mark lsa h)
  obtain s1 where "get (lsa_pageid lsa) s = Some (Some (page (lsa_pageid lsa)), s1)" "valid s1"
    using get_page [OF ovf_mark.prems(1)] ovf_mark.hyps(1) unfolding header_at_def by blast
  with ovf_mark release show ?case by (subst la_overflow_loop.simps) (auto simp: la_overflow_step_def header_at_def Let_def)
next
  case (ovf_skip lsa h parts)
  obtain s1 where "get (lsa_pageid lsa) s = Some (Some (page (lsa_pageid lsa)), s1)" "valid s1"
    using get_page [OF ovf_skip.prems(1)] ovf_skip.hyps(1) unfolding header_at_def by blast
  with ovf_skip release show ?case by (subst la_overflow_loop.simps) (auto simp: la_overflow_step_def header_at_def Let_def)
next
  case (ovf_redo lsa h rcv data parts)
  from overflow_redo_step [OF assms(1-3) ovf_redo.hyps(1-4) ovf_redo.prems, of ps n] obtain zs1 s1 where
    1: "la_overflow_step get rel sz alloc lz rcvindex trid (\<lparr>ov_lsa = lsa, ov_error = NO_ERROR, ov_parts = ps, ov_length = n\<rparr>, zs, s) =
      Some (Inr (\<lparr>ov_lsa = lr_prev_tranlsa h, ov_error = NO_ERROR, ov_parts = (if rcv = rcvindex then with_length data # ps else ps),
        ov_length = (if rcv = rcvindex then n + int (length data) else n)\<rparr>, zs1, s1))" "valid s1" "zips_ok zs1" by blast
  show ?case
    using ovf_redo.IH [OF 1(2,3), of "if rcv = rcvindex then with_length data # ps else ps" "if rcv = rcvindex then n + int (length data) else n"] 1(1)
    by (subst la_overflow_loop.simps) (auto simp: algebra_simps)
qed

end

end
