(* ===== verification/Row_Roundtrip.thy ===== *)
theory Row_Roundtrip
  imports La_Recdes
begin

text \<open>
  A row from the server to the applier: the record that
  \<^verbatim>\<open>log_append_undoredo_recdes\<close> logs for a change of a row
  (\<^verbatim>\<open>transaction/log_manager.c\<close>), the address of it that the replication
  record of the change carries (\<^verbatim>\<open>transaction/replication.c\<close>), and what
  \<^verbatim>\<open>la_get_recdes\<close> (\<^verbatim>\<open>transaction/log_applier.c\<close>) makes of the record at that
  address.
\<close>

section \<open>The record of a row\<close>

text \<open>A record with both images, or with the redo image only when undo logging was skipped.\<close>

definition row_node :: "lzo \<Rightarrow> int \<Rightarrow> log_data_addr \<Rightarrow> byte list \<Rightarrow> byte list \<Rightarrow> log_prior_node \<Rightarrow> bool" where
  "row_node lz rcvindex addr undo redo n \<longleftrightarrow> undoredo_node lz rcvindex addr undo redo n \<or> redo_node lz rcvindex addr redo n"

lemma redo_node_request:
  "area_size_ok sz \<Longrightarrow> redo_node lz rcv addr redo n \<Longrightarrow> request_ok sz n"
  by (auto simp: redo_node_def request_ok_def wr_log_redo_def area_size_ok_def)

lemma row_node_request: "area_size_ok sz \<Longrightarrow> row_node lz rcv addr undo redo n \<Longrightarrow> request_ok sz n"
  using undoredo_node_request redo_node_request unfolding row_node_def by blast

lemma row_node_short:
  assumes "row_node lz rcv addr undo redo n"
  shows "length (pn_udata n) \<le> length undo" "length (pn_rdata n) \<le> length redo"
  using assms undoredo_node_shorter stored_shorter unfolding row_node_def redo_node_def by fastforce+

section \<open>Logging a row\<close>

text \<open>
  What the server needs to log a change with replication: logging is on, the
  transaction may log, the page is a permanent one and takes the address, and
  the change is to be replicated.
\<close>

definition logs_rows :: "log_srv_env \<Rightarrow> log_data_addr \<Rightarrow> gen_env \<Rightarrow> bool" where
  "logs_rows le addr en \<longleftrightarrow> \<not> lm_no_logging le \<and> log_tran_can_log le \<and> \<not> lm_temporary le \<and> lm_set_lsa le \<and> \<not> lm_applier le \<and>
     log_does_allow_replication (lm_ha_mode le) (lm_ha_state le) \<and> da_vpid addr \<noteq> None \<and>
     ge_node_mem en \<and> ge_header_mem en \<and> ge_udata_mem en \<and> ge_rdata_mem en"

lemma crumbs_node_row:
  assumes "prior_lsa_alloc_and_copy_crumbs (if skip then LOG_REDO_DATA else LOG_UNDOREDO_DATA) rcvindex addr (if skip then [] else uc) rc en = (Some n, en')"
    and "ge_udata_mem en"
  shows "row_node (ge_lzo en) rcvindex addr (concat uc) (concat rc) n"
proof (cases skip)
  case False
  obtain en1 where "prior_lsa_gen_undoredo_record_from_crumbs rcvindex addr uc rc (new_node LOG_UNDOREDO_DATA) en = ((NO_ERROR, n), en1)"
    using assms(1) False by (auto simp: prior_lsa_alloc_and_copy_crumbs_def node_or_null_def split: if_splits prod.splits)
  from gen_undoredo_record_from_crumbs [OF this assms(2)] show ?thesis by (simp add: row_node_def)
next
  case True
  obtain en1 where "prior_lsa_gen_redo_record_from_crumbs rcvindex addr rc (new_node LOG_REDO_DATA) en = ((NO_ERROR, n), en1)"
    using assms(1) True by (auto simp: prior_lsa_alloc_and_copy_crumbs_def node_or_null_def split: if_splits prod.splits)
  from gen_redo_record_from_crumbs [OF this] show ?thesis by (simp add: row_node_def)
qed

lemma crumbs_node_made:
  assumes "ge_node_mem en" "ge_header_mem en" "ge_rdata_mem en" and "ty = LOG_UNDOREDO_DATA \<or> ty = LOG_REDO_DATA"
  shows "\<exists>n en'. prior_lsa_alloc_and_copy_crumbs ty rcvindex addr uc rc en = (Some n, en')"
proof -
  have "fst (fst (prior_lsa_gen_redo_record_from_crumbs rcvindex addr rc node en)) = NO_ERROR" for node
    using assms copy_mem_redo by (auto simp: prior_lsa_gen_redo_record_from_crumbs_def Let_def case_prod_unfold)
  then have "\<exists>n en'. prior_lsa_alloc_and_copy_crumbs LOG_REDO_DATA rcvindex addr uc rc en = (Some n, en')"
    using assms(1) by (auto simp: prior_lsa_alloc_and_copy_crumbs_def node_or_null_def case_prod_unfold)
  then show ?thesis using undoredo_crumbs_total [OF assms(1-3)] assms(4) by blast
qed

lemma append_row:
  assumes "area_size_ok sz" and "agree sz (ls_prior st) gl" and "logs_rows le addr (ls_gen st)"
  obtains n st1 where "log_append_undoredo_crumbs sz le rcvindex addr uc rc st = Some st1"
    "row_node (ge_lzo (ls_gen st)) rcvindex addr (concat uc) (concat rc) n"
    "reserve_all sz [(n, ls_tdes st)] (ls_prior st) = Some (ls_prior st1)"
    "ls_tdes st1 = log_note_repl_lsa le rcvindex (td_appended (gl_append gl) (ls_tdes st))"
proof -
  obtain skip st0 where sk: "log_can_skip_undo_logging le rcvindex addr st = (skip, st0)" by (metis surj_pair)
  have s0: "ls_gen st0 = ls_gen st" "ls_prior st0 = ls_prior st" "ls_tdes st0 = ls_tdes st"
    using sk by (auto simp: log_can_skip_undo_logging_def split: if_splits)
  let ?ty = "if skip then LOG_REDO_DATA else LOG_UNDOREDO_DATA" and ?uc = "if skip then [] else uc"
  note L = assms(3) [unfolded logs_rows_def]
  obtain vpid where v: "da_vpid addr = Some vpid" using L by blast
  obtain n en' where n: "prior_lsa_alloc_and_copy_crumbs ?ty rcvindex addr ?uc rc (ls_gen st) = (Some n, en')"
    using crumbs_node_made [of "ls_gen st" ?ty rcvindex addr ?uc rc] L by (cases skip) auto
  have r: "row_node (ge_lzo (ls_gen st)) rcvindex addr (concat uc) (concat rc) n" using crumbs_node_row [OF n] L by blast
  from one_record [OF assms(1,2) row_node_request [OF assms(1) r], of "ls_tdes st"] obtain pi1 where
    1: "prior_lsa_next_record_internal sz n (ls_tdes st) (ls_prior st) = Some (lsa_of (gl_append gl), td_appended (gl_append gl) (ls_tdes st), pi1)" .
  define st1 where "st1 = st0\<lparr>ls_gen := en', ls_tdes := log_note_repl_lsa le rcvindex (td_appended (gl_append gl) (ls_tdes st)), ls_prior := pi1,
      ls_page_lsa := (ls_page_lsa st0)(vpid := lsa_of (gl_append gl))\<rparr>"
  have "log_append_redo_node sz le rcvindex addr (Some n) (st0\<lparr>ls_gen := en'\<rparr>) = Some st1"
    using 1 s0 L v by (simp add: log_append_redo_node_def log_append_node_def LOG_NEED_TO_SET_LSA_def st1_def)
  then have "log_append_undoredo_crumbs sz le rcvindex addr uc rc st = Some st1"
    using sk n s0 L
    by (cases skip) (simp_all add: log_append_undoredo_crumbs_def log_append_redo_crumbs_def log_crumbs_node_def log_can_skip_redo_logging_def)
  moreover have "reserve_all sz [(n, ls_tdes st)] (ls_prior st) = Some (ls_prior st1)" using 1 by (simp add: st1_def)
  moreover have "ls_tdes st1 = log_note_repl_lsa le rcvindex (td_appended (gl_append gl) (ls_tdes st))" by (simp add: st1_def)
  ultimately show thesis using that r by blast
qed

section \<open>Getting a row from its record\<close>

lemma undoredo_rcvindex: "- (2 ^ 31) \<le> rcv \<Longrightarrow> rcv < 2 ^ 31 \<Longrightarrow> rd_int 4 0 (wr_log_undoredo rcv addr ul rl) = rcv"
  using rd_wr_int [of 4 rcv "[]" "wr_int 4 (addr_pageid addr) @ wr_int 2 (da_offset addr) @ wr_int 2 (addr_volid addr) @ wr_int 4 ul @ wr_int 4 rl"]
  by (simp add: wr_log_undoredo_def wr_log_data_def)

text \<open>A record whose data is the row itself.\<close>

definition plain_row :: "int \<Rightarrow> int \<Rightarrow> bool" where
  "plain_row rcv ty \<longleftrightarrow> - (2 ^ 31) \<le> rcv \<and> rcv < 2 ^ 31 \<and> - (2 ^ 15) \<le> ty \<and> ty < 2 ^ 15 \<and> rcv \<noteq> RVOVF_CHANGE_LINK \<and> ty \<noteq> REC_BIGONE \<and>
     \<not> (rcv = RVHF_INSERT \<and> ty = REC_ASSIGN_ADDRESS) \<and> \<not> (rcv = RVHF_UPDATE \<and> ty = REC_RELOCATION)"

context page_reader
begin

lemma get_log_data_row:
  assumes "area_size_ok sz" and "valid s" and "parts_readable page P sz e (p, off) (pn_data_header n) (pn_udata n) (pn_rdata n)"
    and "lsa_of (p, off) = lsa" and "row_node lz rcv addr undo redo n" and "lr_type lrec = lr_type (pn_log_header n)" and "lzo_ok lz"
    and "int (length undo) < 2 ^ 31" and "int (length redo) < 2 ^ 31" and "zips_ok zs" and "2 \<le> length redo" and "- (2 ^ 31) \<le> rcv" and "rcv < 2 ^ 31"
  shows "\<exists>len zs' s'. la_get_log_data get sz alloc lz 0 False True has_data lrec lsa (page p) zs s =
    Some (\<lparr>ld_error = NO_ERROR, ld_rcvindex = Some rcv, ld_logs = Some (pn_data_header n), ld_type = take 2 redo, ld_data = Some (drop 2 redo),
           ld_length = len, ld_old = None\<rparr>, zs', s') \<and>
    valid s' \<and> zips_ok zs' \<and> len \<in> {int (length redo) - 2, int (length redo)}"
proof -
  obtain zu zr where zs: "zs = (zu, zr)" "z_log_data zu \<noteq> None" "z_log_data zr \<noteq> None" using assms(10) by (cases zs) (simp add: zips_ok_def)
  from assms(5) consider "undoredo_node lz rcv addr undo redo n" | "redo_node lz rcv addr redo n" unfolding row_node_def by blast
  then show ?thesis
  proof cases
    case 1
    then obtain is_diff ul rl where d: "lr_type (pn_log_header n) = undoredo_type is_diff" "pn_data_header n = wr_log_undoredo rcv addr ul rl"
      "stored lz ul (pn_udata n) undo" "stored lz rl (pn_rdata n) (if is_diff then log_diff undo redo else redo)"
      "is_diff \<longrightarrow> ZIP_CHECK rl \<and> undo \<noteq> []" unfolding undoredo_node_def by blast
    from get_log_data_undoredo [where want_type = True and want_old = False and match_rcvindex = 0 and has_data = has_data,
        OF assms(1-4) d(2-5) assms(6) [unfolded d(1)] assms(7-9) zs(2,3) memory] assms(11)
    show ?thesis using undoredo_rcvindex [OF assms(12,13)] d(2) zs(1) by (auto simp: la_matched_def la_matches_def zips_ok_def)
  next
    case 2
    then obtain rl where d: "lr_type (pn_log_header n) = LOG_REDO_DATA" "pn_udata n = []" "pn_data_header n = wr_log_redo rcv addr rl"
      "stored lz rl (pn_rdata n) redo" unfolding redo_node_def by blast
    from get_log_data_redo [where want_type = True and match_rcvindex = 0 and has_data = has_data and zu = zu,
        OF assms(1,2) assms(3) [unfolded d(2)] assms(4) d(3,4) assms(6) [unfolded d(1)] assms(7,9) zs(3) memory] assms(11)
    show ?thesis using redo_rcvindex [OF assms(12,13)] d(3) zs by (auto simp: la_matched_def la_matches_def zips_ok_def)
  qed
qed

lemma get_recdes_row:
  assumes "area_size_ok sz" and "valid s" and "parts_readable page P sz e (p, off) (pn_data_header n) (pn_udata n) (pn_rdata n)"
    and "lsa_of (p, off) = lsa" and "row_node lz rcv addr undo (wr_int 2 ty @ data) n"
    and "lr_type (LOG_GET_LOG_RECORD_HEADER (page p) lsa) = lr_type (pn_log_header n)" and "lzo_ok lz"
    and "int (length undo) < 2 ^ 31" and "int (length data) + 2 < 2 ^ 31" and "zips_ok zs" and "plain_row rcv ty"
  shows "\<exists>len zs' s'. la_get_recdes get rel sz alloc lz False lsa (page p) zs s =
    Some (\<lparr>rw_error = NO_ERROR, rw_rcvindex = Some rcv, rw_recdes = Some \<lparr>rc_type = ty, rc_data = data, rc_length = len\<rparr>, rw_old = None,
      rw_ovfyn = False\<rparr>, zs', s') \<and>
    valid s' \<and> zips_ok zs' \<and> len \<in> {int (length data), int (length data) + 2}"
proof -
  note pr = assms(11) [unfolded plain_row_def]
  have ty: "rd_int 2 0 (wr_int 2 ty) = ty" using rd_wr_int [of 2 ty "[]" "[]"] pr by simp
  obtain len zs' s' where g: "la_get_log_data get sz alloc lz 0 False True True (LOG_GET_LOG_RECORD_HEADER (page p) lsa) lsa (page p) zs s =
      Some (\<lparr>ld_error = NO_ERROR, ld_rcvindex = Some rcv, ld_logs = Some (pn_data_header n), ld_type = wr_int 2 ty, ld_data = Some data,
        ld_length = len, ld_old = None\<rparr>, zs', s')" "valid s'" "zips_ok zs'" "len \<in> {int (length data), int (length data) + 2}"
    using get_log_data_row [OF assms(1-8) _ assms(10), where has_data = True] assms(9) pr by auto
  have "la_get_recdes get rel sz alloc lz False lsa (page p) zs s =
    Some (\<lparr>rw_error = NO_ERROR, rw_rcvindex = Some rcv, rw_recdes = Some \<lparr>rc_type = ty, rc_data = data, rc_length = len\<rparr>, rw_old = None,
      rw_ovfyn = False\<rparr>, zs', s')"
    using g(1) pr by (auto simp: la_get_recdes_def Let_def recdes_of_def ty)
  with g show ?thesis by blast
qed

end

section \<open>Records reserved together\<close>

text \<open>The requests of a commit.\<close>

lemma commit_requests:
  fixes td :: log_tdes_repl
  assumes "area_size_ok sz" and "\<forall>w. fst (alloc w)" and "repl_reach td" and "rec_ok sz (pi_prior_lsa pi)"
    and "log_append_repl_info_and_unlock_log sz alloc td pi w = Some (td', pi', w')"
  obtains reqs :: "(log_prior_node \<times> log_tdes_repl) list" where "reserve_all sz reqs pi = Some pi'" "\<forall>(node, td) \<in> set reqs. request_ok sz node"
proof -
  from log_append_repl_info_ok [OF assms(1,2) repl_reach_inv [OF assms(3)] assms(4), of w] assms(5)
  obtain reqs :: "(log_prior_node \<times> log_tdes_repl) list" where
    1: "reserve_all sz reqs pi = Some pi'" "map fst reqs = map repl_node (filter (must_append True) (recs td)) @
      [\<lparr>pn_log_header = empty_header LOG_UNLOCK_COMMIT, pn_start_lsa = LSA_NULL, pn_data_header = [], pn_udata = [], pn_rdata = []\<rparr>]"
    by auto
  show thesis using that [OF 1(1) commit_requests_ok [OF assms(1) 1(2)]] .
qed

text \<open>Every record of the list, once the list was written.\<close>

lemma written_nodes:
  fixes reqs :: "(log_prior_node \<times> 'z log_tdes_scheme) list"
  assumes "area_size_ok sz" and "agree sz pi gl" and "pi_list pi = []" and "reserve_all sz reqs pi = Some pi'"
    and "\<forall>(node, td) \<in> set reqs. request_ok sz node" and "logpb_append_prior_lsa_list sz (pi_list pi') gl = Some gl'"
    and "\<forall>q. fst (gl_append gl) \<le> q \<and> q \<le> fst (gl_append gl') \<longrightarrow> P q" and "n \<in> set (pi_list pi')"
  shows "int (length (pn_udata n)) < 2 ^ 31 \<Longrightarrow> int (length (pn_rdata n)) < 2 ^ 31 \<Longrightarrow>
      parts_readable (gl_pages gl') P sz (gpos sz (gl_append gl') + 1) (lsa_pos (pn_start_lsa n)) (pn_data_header n) (pn_udata n) (pn_rdata n)"
    and "- (2 ^ 31) \<le> lr_type (pn_log_header n) \<Longrightarrow> lr_type (pn_log_header n) < 2 ^ 31 \<Longrightarrow>
      lr_type (LOG_GET_LOG_RECORD_HEADER (gl_pages gl' (lsa_pageid (pn_start_lsa n))) (pn_start_lsa n)) = lr_type (pn_log_header n)"
    and "header_fits (pn_log_header n) \<Longrightarrow> LOG_GET_LOG_RECORD_HEADER (gl_pages gl' (lsa_pageid (pn_start_lsa n))) (pn_start_lsa n) = pn_log_header n"
    and "lsa_of (lsa_pos (pn_start_lsa n)) = pn_start_lsa n" and "P (lsa_pageid (pn_start_lsa n))"
proof -
  note sz = area_size_okD [OF assms(1)]
  from reserve_and_append [OF assms(1,2,5)] assms(3,4,6) have
    1: "agree sz pi' gl'" "node_on_tape sz (tape sz (gl_pages gl')) (lsa_pos (pn_start_lsa n)) n" "rec_ok sz (lsa_pos (pn_start_lsa n))"
    "node_within sz (gl_append gl) (gl_append gl') n" using assms(8) by auto
  have ok: "pos_ok sz (gl_append gl)" "pos_ok sz (gl_append gl')" using assms(2) 1(1) unfolding agree_def rec_ok_def by blast+
  have len: "\<And>q. length (lp_area (gl_pages gl' q)) = sz" using 1(1) unfolding agree_def areas_ok_def by blast
  have h: "on_tape (tape sz (gl_pages gl')) (gpos sz (lsa_pos (pn_start_lsa n))) (wr_log_record_header (pn_log_header n))"
    using 1(2) by (simp add: node_on_tape_def Let_def)
  show pr: "int (length (pn_udata n)) < 2 ^ 31 \<Longrightarrow> int (length (pn_rdata n)) < 2 ^ 31 \<Longrightarrow>
      parts_readable (gl_pages gl') P sz (gpos sz (gl_append gl') + 1) (lsa_pos (pn_start_lsa n)) (pn_data_header n) (pn_udata n) (pn_rdata n)"
    using node_parts_readable [where page = "gl_pages gl'", OF assms(1) 1(2-4) ok assms(7) len] by blast
  show "- (2 ^ 31) \<le> lr_type (pn_log_header n) \<Longrightarrow> lr_type (pn_log_header n) < 2 ^ 31 \<Longrightarrow>
      lr_type (LOG_GET_LOG_RECORD_HEADER (gl_pages gl' (lsa_pageid (pn_start_lsa n))) (pn_start_lsa n)) = lr_type (pn_log_header n)"
    by (rule header_type_on_tape [OF sz(2) 1(3) h len])
  show "header_fits (pn_log_header n) \<Longrightarrow> LOG_GET_LOG_RECORD_HEADER (gl_pages gl' (lsa_pageid (pn_start_lsa n))) (pn_start_lsa n) = pn_log_header n"
    by (rule header_on_tape [OF sz(2) 1(3) h len])
  show "lsa_of (lsa_pos (pn_start_lsa n)) = pn_start_lsa n" using 1(4) by (simp add: node_within_def lsa_of_def lsa_pos_def)
  have "gpos sz (gl_append gl) \<le> gpos sz (lsa_pos (pn_start_lsa n))" using 1(4) by (simp add: node_within_def)
  moreover have "gpos sz (lsa_pos (pn_start_lsa n)) \<le> gpos sz (gl_append gl')"
    using 1(4) rec_header_after [OF assms(1) 1(3), of "length (pn_data_header n)"]
      rec_end_after [OF assms(1), of "length (pn_data_header n)" "length (pn_udata n)" "lsa_pos (pn_start_lsa n)" "length (pn_rdata n)"]
      align8_ge
    unfolding node_within_def rec_rdata_at_def rec_udata_at_def by (smt (verit) of_nat_0_le_iff)
  ultimately have "fst (gl_append gl) \<le> fst (lsa_pos (pn_start_lsa n)) \<and> fst (lsa_pos (pn_start_lsa n)) \<le> fst (gl_append gl')"
    using page_mono [OF sz(2)] ok 1(3) unfolding pos_ok_def rec_ok_def by blast
  then show "P (lsa_pageid (pn_start_lsa n))" using assms(7) by (simp add: lsa_pos_def)
qed

text \<open>The first of them is at the end of the log as it was.\<close>

lemma first_written:
  fixes reqs :: "(log_prior_node \<times> 'z log_tdes_scheme) list"
  assumes "area_size_ok sz" and "agree sz pi gl" and "pi_list pi = []" and "reserve_all sz ((node, td) # reqs) pi = Some pi'"
    and "\<forall>(node, td) \<in> set ((node, td) # reqs). request_ok sz node"
  obtains n where "n \<in> set (pi_list pi')" "pn_start_lsa n = lsa_of (gl_append gl)" "node_payload n = node_payload node"
proof -
  from reserve_and_append [OF assms(1,2,5)] obtain pi1 :: log_prior_info and ns and gl' :: log_gl where
    ns: "reserve_all sz ((node, td) # reqs) pi = Some pi1" "pi_list pi1 = pi_list pi @ ns"
    "map node_payload ns = map (\<lambda>(node, td). node_payload node) ((node, td) # reqs)"
    "chained (gl_prev_lsa gl) (lsa_of (gl_append gl)) ns (lsa_of (gl_append gl'))" by blast
  have "pi_list pi' = ns" using ns(1,2) assms(3,4) by simp
  with ns(3,4) that show thesis by (cases ns) auto
qed

text \<open>A row that was logged first, read from the written log.\<close>

lemma logged_row_read:
  fixes reqs :: "(log_prior_node \<times> log_tdes_repl) list"
  assumes "area_size_ok sz" and "agree sz pi gl" and "pi_list pi = []" and "reserve_all sz ((node, td) # reqs) pi = Some pi'"
    and "\<forall>(node, td) \<in> set reqs. request_ok sz node" and "logpb_append_prior_lsa_list sz (pi_list pi') gl = Some gl'"
    and "\<forall>q. fst (gl_append gl) \<le> q \<and> q \<le> fst (gl_append gl') \<longrightarrow> P q" and "src_ok io cfg (gl_pages gl') P Q s"
    and "row_node lz rcv addr undo (wr_int 2 ty @ data) node" and "lzo_ok lz"
    and "int (length undo) < 2 ^ 31" and "int (length data) + 2 < 2 ^ 31" and "zips_ok zs" and "plain_row rcv ty"
  shows "\<exists>len zs' s'. la_get_recdes (la_page_src io cfg) src_release sz (src_alloc io) lz False (lsa_of (gl_append gl))
      (gl_pages gl' (fst (gl_append gl))) zs s =
    Some (\<lparr>rw_error = NO_ERROR, rw_rcvindex = Some rcv, rw_recdes = Some \<lparr>rc_type = ty, rc_data = data, rc_length = len\<rparr>, rw_old = None,
      rw_ovfyn = False\<rparr>, zs', s') \<and>
    src_ok io cfg (gl_pages gl') P Q s' \<and> zips_ok zs' \<and> len \<in> {int (length data), int (length data) + 2}"
proof -
  have rq: "\<forall>(node, td) \<in> set ((node, td) # reqs). request_ok sz node" using row_node_request [OF assms(1,9)] assms(5) by simp
  obtain n where n: "n \<in> set (pi_list pi')" "pn_start_lsa n = lsa_of (gl_append gl)" "node_payload n = node_payload node"
    by (rule first_written [OF assms(1-4) rq])
  have r: "row_node lz rcv addr undo (wr_int 2 ty @ data) n"
    using assms(9) n(3) by (auto simp: row_node_def undoredo_node_def redo_node_def)
  have sh: "int (length (pn_udata n)) < 2 ^ 31" "int (length (pn_rdata n)) < 2 ^ 31" "- (2 ^ 31) \<le> lr_type (pn_log_header n)"
    "lr_type (pn_log_header n) < 2 ^ 31"
    using row_node_short [OF r] r undoredo_node_request [OF assms(1)] assms(11,12) by (auto simp: row_node_def redo_node_def)
  note W = written_nodes [OF assms(1-4) rq assms(6,7) n(1)]
  obtain p off where p: "gl_append gl = (p, off)" by (cases "gl_append gl")
  have q: "lsa_pos (pn_start_lsa n) = (p, off)" "lsa_pageid (lsa_of (p, off)) = p" by (simp_all add: n(2) p lsa_of_def lsa_pos_def)
  show ?thesis
    unfolding p fst_conv
    by (rule cr.get_recdes_row [OF assms(1,8) W(1) [OF sh(1,2), unfolded q(1)] refl r _ assms(10-14)])
      (use W(2) [OF sh(3,4)] n(2) p q(2) in simp)
qed

text \<open>
  The commit of a transaction, and the pages its records and those reserved
  before are written into.
\<close>

lemma commit_written:
  fixes td :: log_tdes_repl and reqs0 :: "(log_prior_node \<times> log_tdes_repl) list"
  assumes "area_size_ok sz" and "agree sz pi0 gl" and "pi_list pi0 = []"
    and "reserve_all sz reqs0 pi0 = Some pi" and "\<forall>(node, td) \<in> set reqs0. request_ok sz node" and "\<forall>w. fst (alloc w)" and "repl_reach td"
  obtains td' pi' w' gl' where "log_append_repl_info_and_unlock_log sz alloc td pi w = Some (td', pi', w')"
    "logpb_append_prior_lsa_list sz (pi_list pi') gl = Some gl'" "agree sz pi' gl'"
proof -
  have p: "rec_ok sz (pi_prior_lsa pi)" using reserve_and_append [OF assms(1,2,5)] assms(4) unfolding agree_def by auto
  from log_append_repl_info_ok [OF assms(1,6) repl_reach_inv [OF assms(7)] p, of w] obtain td' pi' w' where
    1: "log_append_repl_info_and_unlock_log sz alloc td pi w = Some (td', pi', w')" by blast
  obtain reqs :: "(log_prior_node \<times> log_tdes_repl) list" where
    2: "reserve_all sz reqs pi = Some pi'" "\<forall>(node, td) \<in> set reqs. request_ok sz node" by (rule commit_requests [OF assms(1,6,7) p 1])
  have "\<forall>(node, td) \<in> set (reqs0 @ reqs). request_ok sz node" using assms(5) 2(2) by auto
  from reserve_and_append [OF assms(1,2) this] assms(3,4) 2(1) obtain gl' where
    "logpb_append_prior_lsa_list sz (pi_list pi') gl = Some gl'" "agree sz pi' gl'" by (auto simp: reserve_all_append)
  with 1 that show thesis by blast
qed

text \<open>Logging a change keeps the replication records.\<close>

lemma repl_reach_logged:
  assumes "repl_reach td"
  shows "repl_reach (log_note_repl_lsa le rcv (td_appended pos td))"
proof -
  let ?td = "log_note_repl_lsa le rcv (td_appended pos td)"
  have "?td = td\<lparr>td_head_lsa := td_head_lsa ?td, td_tail_lsa := td_tail_lsa ?td, td_undo_nxlsa := td_undo_nxlsa ?td,
      td_repl_insert_lsa := td_repl_insert_lsa ?td, td_repl_update_lsa := td_repl_update_lsa ?td\<rparr>"
    by (cases td) (simp add: log_note_repl_lsa_def td_appended_def)
  then show ?thesis using reach_log [OF assms] by metis
qed

end
