(* ===== verification/La_Long.thy ===== *)
theory La_Long
  imports Row_Roundtrip
begin

text \<open>
  Transactions with more than a thousand replication items
  (\<^verbatim>\<open>transaction/log_applier.c\<close>). The list of such a transaction keeps the
  first item only, and \<^verbatim>\<open>la_get_next_repl_item_from_log\<close> reads the others back
  from the log. Here: reading the log leaves the slave alone, the search finds
  the replication records of the transaction one after the other, the locale
  \<open>item_reader\<close> of \<^theory_text>\<open>La_Apply\<close> is interpreted on a table with short and long
  transactions, and the commit queue is applied as its specification says.
\<close>

section \<open>Reading the log leaves the slave alone\<close>

text \<open>The volumes and the memory leave alone what \<open>f\<close> sees of the world.\<close>

definition io_keeps :: "'w la_io \<Rightarrow> ('w \<Rightarrow> 'a) \<Rightarrow> bool" where
  "io_keeps io f \<longleftrightarrow> (\<forall>n w. f (snd (io_open_arv io n w)) = f w) \<and> (\<forall>n w. f (snd (io_read_arv_hdr io n w)) = f w) \<and>
     (\<forall>n p w. f (snd (io_read_arv io n p w)) = f w) \<and> (\<forall>p w. f (snd (io_read_act io p w)) = f w) \<and>
     (\<forall>w. f (snd (io_read_act_hdr io w)) = f w) \<and> (\<forall>w. f (snd (io_malloc io w)) = f w)"

lemma io_keepsD:
  assumes "io_keeps io f"
  shows "io_open_arv io n w = (v, w') \<Longrightarrow> f w' = f w" and "io_read_arv_hdr io n w = (ah, w') \<Longrightarrow> f w' = f w"
    and "io_read_arv io n p w = (pg, w') \<Longrightarrow> f w' = f w" and "io_read_act io p w = (pg, w') \<Longrightarrow> f w' = f w"
    and "io_read_act_hdr io w = (h, w') \<Longrightarrow> f w' = f w" and "io_malloc io w = (b, w') \<Longrightarrow> f w' = f w"
  using assms unfolding io_keeps_def by (metis snd_conv)+

lemma la_arv_range_reopen_keeps:
  assumes "io_keeps io f" and "la_arv_range_reopen io n w = Some (r, w')"
  shows "f w' = f w"
proof -
  have "io_keeps io f \<longrightarrow> f (snd (r, w')) = f w"
  proof (rule la_arv_range_reopen.raw_induct [OF _ assms(2)], goal_cases)
    case (1 g io n w y)
    show ?case
    proof
      assume k: "io_keeps io f"
      have g: "g io n w = Some y \<Longrightarrow> f (snd y) = f w" for w y using 1(1) k by blast
      show "f (snd y) = f w" using 1(2) by (auto split: prod.splits if_splits dest!: io_keepsD(1,2) [OF k] g)
    qed
  qed
  with assms(1) show ?thesis by simp
qed

lemma la_get_range_of_archive_keeps:
  assumes "io_keeps io f" and "la_get_range_of_archive io n w = Some (r, w')"
  shows "f w' = f w"
  using assms(2) by (auto simp: la_get_range_of_archive_def split: prod.splits if_splits
      dest!: la_arv_range_reopen_keeps [OF assms(1)] io_keepsD(6) [OF assms(1)])

lemma la_find_archive_step_keeps:
  assumes "io_keeps io f" and "la_find_archive_step io st p arv0 g l r w = Some y"
  shows "f (case y of Arv_ret _ _ w' \<Rightarrow> w' | Arv_go _ _ w' \<Rightarrow> w') = f w"
  using assms(2) by (auto simp: la_find_archive_step_def la_archive_range_def split: option.splits prod.splits if_splits
      dest!: la_get_range_of_archive_keeps [OF assms(1)])

lemma la_find_archive_loop_keeps:
  assumes "io_keeps io f" and "la_find_archive_loop io st p arv0 l r w = Some (y, w')"
  shows "f w' = f w"
  using assms
proof (induction io st p arv0 l r w rule: la_find_archive_loop.induct)
  case (1 io st p arv0 l r w)
  let ?g = "CEIL_PTVDIV (int l + r) 2"
  note s = 1(3) [unfolded la_find_archive_loop.simps [of io st p arv0 l r w] Let_def]
  show ?case
  proof (cases "0 \<le> ?g \<and> ?g < lh_nxarv_num (act_log_hdr st) \<and> int l \<le> r")
    case False
    then show ?thesis using s [unfolded if_not_P [OF False]] by simp
  next
    case True
    then obtain z where z: "la_find_archive_step io st p arv0 ?g l r w = Some z" using s by (auto split: option.splits)
    show ?thesis
      using la_find_archive_step_keeps [OF 1(2) z] s True z 1(1) [OF refl True z] 1(2) by (cases z) auto
  qed
qed

lemma la_find_archive_num_keeps:
  assumes "io_keeps io f" and "la_find_archive_num io st arv0 p w = Some (y, w')"
  shows "f w' = f w"
  using assms(2) unfolding la_find_archive_num_def Let_def
  by (auto split: option.splits arv_step.splits dest!: la_find_archive_step_keeps [OF assms(1)] la_find_archive_loop_keeps [OF assms(1)])

lemma la_arv_choose_keeps:
  assumes "io_keeps io f" and "la_arv_choose io p st w = Some (y, st', w')"
  shows "f w' = f w"
  using assms(2) by (auto simp: la_arv_choose_def Let_def split: if_splits option.splits prod.splits
      dest!: la_find_archive_num_keeps [OF assms(1)])

lemma la_arv_prepare_keeps:
  assumes "io_keeps io f" and "la_arv_prepare io st w = (y, st', w')"
  shows "f w' = f w"
proof -
  obtain vdes w1 where 1: "(if arv_log_vdes st = NULL_VOLDES then io_open_arv io (arv_log_num st) w else (arv_log_vdes st, w)) = (vdes, w1)"
    by (metis surj_pair)
  obtain ok w2 where 2: "(if arv_hdr_page st then (True, w1) else io_malloc io w1) = (ok, w2)" by (metis surj_pair)
  obtain err hdr w3 where 3: "io_read_arv_hdr io (arv_log_num st) w2 = ((err, hdr), w3)" by (metis surj_pair)
  have "f w1 = f w" "f w2 = f w1" "f w3 = f w2"
    using 1 2 io_keepsD(1,6) [OF assms(1)] io_keepsD(2) [OF assms(1) 3] by (auto split: if_splits)
  then show ?thesis using assms(2) 1 2 3 by (auto simp: la_arv_prepare_def Let_def split: if_splits)
qed

lemma la_arv_reopen_keeps:
  assumes "io_keeps io f" and "la_arv_reopen io p data st w = Some (y, st', w')"
  shows "f w' = f w"
proof -
  have "io_keeps io f \<longrightarrow> f (snd (snd (y, st', w'))) = f w"
  proof (rule la_arv_reopen.raw_induct [OF _ assms(2)], goal_cases)
    case (1 g io p data st w y)
    show ?case
    proof
      assume k: "io_keeps io f"
      obtain prep st1 w1 where p: "la_arv_prepare io st w = (prep, st1, w1)" by (metis surj_pair)
      obtain err pg w2 where r: "la_arv_read_page io p st1 w1 = ((err, pg), w2)" by (metis surj_pair)
      have w: "f w1 = f w" "f w2 = f w1"
        using la_arv_prepare_keeps [OF k p] r io_keepsD(3) [OF k] by (auto simp: la_arv_read_page_def Let_def)
      have g: "g io p data st w = Some y \<Longrightarrow> f (snd (snd y)) = f w" for data st w y using 1(1) k by blast
      show "f (snd (snd y)) = f w" using 1(2) p r w by (cases prep) (auto split: if_splits dest!: g)
    qed
  qed
  with assms(1) show ?thesis by simp
qed

lemma la_fetch_log_hdr_keeps:
  assumes "io_keeps io f" and "la_fetch_log_hdr io st w = (y, st', w')"
  shows "f w' = f w"
  using assms(2) by (auto simp: la_fetch_log_hdr_def split: prod.splits dest!: io_keepsD(5) [OF assms(1)])

lemma la_log_fetch_read_keeps:
  assumes "io_keeps io f" and "la_log_fetch_read io p phy buf st w = Some (y, st', w')"
  shows "f w' = f w"
  using assms(2) by (auto simp: la_log_fetch_read_def la_log_fetch_from_archive_def split: if_splits option.splits prod.splits
      dest!: la_arv_choose_keeps [OF assms(1)] la_arv_reopen_keeps [OF assms(1)] io_keepsD(4) [OF assms(1)])

lemma la_log_fetch_loop_keeps:
  assumes "io_keeps io f" and "la_log_fetch_loop io p phy k buf st w = Some (y, st', w')"
  shows "f w' = f w"
  using assms(2)
proof (induction k arbitrary: buf st w)
  case (Suc k)
  show ?case using Suc.prems
    by (auto split: option.splits prod.splits if_splits
        dest!: Suc.IH la_log_fetch_read_keeps [OF assms(1)] la_fetch_log_hdr_keeps [OF assms(1)])
qed simp

lemma la_log_fetch_keeps:
  assumes "io_keeps io f" and "la_log_fetch io p buf st w = Some (y, st', w')"
  shows "f w' = f w"
  using assms(2) by (auto simp: la_log_fetch_def Let_def split: option.splits prod.splits if_splits
      dest!: la_log_fetch_loop_keeps [OF assms(1)] la_fetch_log_hdr_keeps [OF assms(1)])

lemma la_cache_victim_keeps:
  assumes "io_keeps io f" and "la_cache_victim io cfg pb w = Some (y, w')"
  shows "f w' = f w"
proof -
  have "io_keeps io f \<longrightarrow> f (snd (y, w')) = f w"
  proof (rule la_cache_victim.raw_induct [OF _ assms(2)], goal_cases)
    case (1 g io cfg pb w y)
    show ?case
    proof
      assume k: "io_keeps io f"
      have e: "la_expand_cache_log_buffer io cfg pb w = (z, w2) \<Longrightarrow> f w2 = f w" for pb w z w2
        by (auto simp: la_expand_cache_log_buffer_def split: prod.splits if_splits dest!: io_keepsD(6) [OF k])
      have g: "g io cfg pb w = Some y \<Longrightarrow> f (snd y) = f w" for pb w y using 1(1) k by blast
      show "f (snd y) = f w" using 1(2) by (auto split: prod.splits option.splits if_splits dest!: e g)
    qed
  qed
  with assms(1) show ?thesis by simp
qed

lemma la_get_page_buffer_keeps:
  assumes "io_keeps io f" and "la_get_page_buffer io cfg p pb st w = Some (y, st', w')"
  shows "f w' = f w"
  using assms(2) by (auto simp: la_get_page_buffer_def la_cache_buffer_replace_def la_cache_load_def Let_def
      split: option.splits prod.splits if_splits
      dest!: la_cache_victim_keeps [OF assms(1)] la_log_fetch_keeps [OF assms(1)] io_keepsD(6) [OF assms(1)])

lemma la_get_page_loop_keeps:
  assumes "io_keeps io f" and "la_get_page_loop io cfg p pb st w = Some (y, st', w')"
  shows "f w' = f w"
proof -
  have "io_keeps io f \<longrightarrow> f (snd (snd (y, st', w'))) = f w"
  proof (rule la_get_page_loop.raw_induct [OF _ assms(2)], goal_cases)
    case (1 g io cfg p pb st w y)
    show ?case
    proof
      assume k: "io_keeps io f"
      have g: "g io cfg p pb st w = Some y \<Longrightarrow> f (snd (snd y)) = f w" for pb st w y using 1(1) k by blast
      show "f (snd (snd y)) = f w" using 1(2) by (auto split: prod.splits option.splits dest!: la_get_page_buffer_keeps [OF k] g)
    qed
  qed
  with assms(1) show ?thesis by simp
qed

lemma la_page_src_keeps:
  assumes "io_keeps io f" and "la_page_src io cfg p s = Some (y, s')"
  shows "f (snd (snd s')) = f (snd (snd s))"
  using assms(2) by (auto simp: la_page_src_def la_get_page_def split: prod.splits option.splits if_splits
      dest!: la_get_page_loop_keeps [OF assms(1)])

section \<open>The items of a long transaction, in the log\<close>

abbreviation log_hdr :: "(log_pageid \<Rightarrow> log_page) \<Rightarrow> log_lsa \<Rightarrow> log_record_header" where
  "log_hdr page l \<equiv> LOG_GET_LOG_RECORD_HEADER (page (lsa_pageid l)) l"

text \<open>The record at \<open>l\<close> is the last that is looked at for an item of the transaction.\<close>

definition tran_ends :: "(log_lsa \<Rightarrow> log_record_header) \<Rightarrow> log_lsa \<Rightarrow> log_lsa \<Rightarrow> tranid \<Rightarrow> log_lsa \<Rightarrow> bool" where
  "tran_ends hdr last_lsa eof t l \<longleftrightarrow> lr_trid (hdr l) = t \<and>
     (last_lsa < l \<or> lr_type (hdr l) = LOG_COMMIT \<or> lr_type (hdr l) = LOG_ABORT \<or> eof \<le> l)"

text \<open>
  The records of the log from \<open>start\<close> on, each the one the record before it
  points to, up to the end of the transaction or to the end of the log.
\<close>

fun log_upto :: "(log_lsa \<Rightarrow> log_record_header) \<Rightarrow> (log_pageid \<Rightarrow> bool) \<Rightarrow> log_lsa \<Rightarrow> log_lsa \<Rightarrow> tranid \<Rightarrow> log_lsa \<Rightarrow> log_lsa list \<Rightarrow> bool" where
  "log_upto hdr P last_lsa eof t start [] \<longleftrightarrow> LSA_ISNULL start"
| "log_upto hdr P last_lsa eof t start (l # ls) \<longleftrightarrow> l = start \<and> \<not> LSA_ISNULL l \<and> P (lsa_pageid l) \<and>
     (ls = [] \<and> tran_ends hdr last_lsa eof t l \<or> log_upto hdr P last_lsa eof t (lr_forw_lsa (hdr l)) ls)"

text \<open>The replication records of the transaction among them.\<close>

fun repl_after :: "(log_lsa \<Rightarrow> log_record_header) \<Rightarrow> log_lsa \<Rightarrow> log_lsa \<Rightarrow> tranid \<Rightarrow> log_lsa list \<Rightarrow> log_lsa list" where
  "repl_after hdr last_lsa eof t [] = []"
| "repl_after hdr last_lsa eof t (l # ls) =
     (if tran_ends hdr last_lsa eof t l then []
      else if lr_trid (hdr l) = t \<and> (lr_type (hdr l) = LOG_REPLICATION_DATA \<or> lr_type (hdr l) = LOG_REPLICATION_SCHEMA)
      then l # repl_after hdr last_lsa eof t ls else repl_after hdr last_lsa eof t ls)"

lemma repl_after_suffix:
  assumes "repl_after hdr last_lsa eof t ls = z # zs" and "log_upto hdr P last_lsa eof t start ls"
  shows "\<exists>pre ls'. ls = pre @ z # ls' \<and> repl_after hdr last_lsa eof t ls' = zs \<and> log_upto hdr P last_lsa eof t (lr_forw_lsa (hdr z)) ls' \<and>
    lr_trid (hdr z) = t \<and> \<not> LSA_ISNULL z \<and> P (lsa_pageid z)"
  using assms
proof (induction ls arbitrary: start)
  case (Cons l ls)
  show ?case
  proof (cases "l = z \<and> repl_after hdr last_lsa eof t ls = zs \<and> lr_trid (hdr z) = t")
    case True
    then show ?thesis using Cons.prems by (intro exI [of _ "[]"] exI [of _ ls]) (auto split: if_splits)
  next
    case False
    then have r: "repl_after hdr last_lsa eof t ls = z # zs" and n: "\<not> tran_ends hdr last_lsa eof t l"
      using Cons.prems(1) by (auto split: if_splits)
    then have "log_upto hdr P last_lsa eof t (lr_forw_lsa (hdr l)) ls" using Cons.prems(2) by auto
    from Cons.IH [OF r this] obtain pre ls' where "ls = pre @ z # ls'" "repl_after hdr last_lsa eof t ls' = zs"
      "log_upto hdr P last_lsa eof t (lr_forw_lsa (hdr z)) ls'" "lr_trid (hdr z) = t" "\<not> LSA_ISNULL z" "P (lsa_pageid z)" by blast
    then show ?thesis by (intro exI [of _ "l # pre"] exI [of _ ls']) simp
  qed
qed simp

text \<open>
  The state in which the log with the pages \<open>page\<close> can be read: the cache and
  the volumes deliver its pages, the end of the log is \<open>eof\<close>, and reading does
  not touch what the slave has. The record at \<open>l\<close> holds the item \<open>x\<close>: that is
  what the applier makes of it, whatever its cache holds.
\<close>

definition log_ok :: "'w la_io \<Rightarrow> la_config \<Rightarrow> (log_pageid \<Rightarrow> log_page) \<Rightarrow> (log_pageid \<Rightarrow> bool) \<Rightarrow> (la_vols \<Rightarrow> bool) \<Rightarrow> log_lsa
    \<Rightarrow> ('w \<Rightarrow> 'v la_item list) \<Rightarrow> 'w la_src \<Rightarrow> bool" where
  "log_ok io cf page P Q eof tr s \<longleftrightarrow> src_ok io (cf_cache cf) page P Q s \<and> io_keeps io tr \<and>
     (\<forall>st. Q st \<longrightarrow> lh_eof_lsa (act_log_hdr st) = eof)"

definition item_at :: "'w la_io \<Rightarrow> la_config \<Rightarrow> 'v la_values \<Rightarrow> (log_pageid \<Rightarrow> log_page) \<Rightarrow> (log_pageid \<Rightarrow> bool) \<Rightarrow> (la_vols \<Rightarrow> bool) \<Rightarrow> log_lsa
    \<Rightarrow> ('w \<Rightarrow> 'v la_item list) \<Rightarrow> log_lsa \<Rightarrow> 'v la_item \<Rightarrow> bool" where
  "item_at io cf up page P Q eof tr l x \<longleftrightarrow> it_lsa x = l \<and>
     (\<forall>s. log_ok io cf page P Q eof tr s \<longrightarrow>
        (\<exists>s'. la_make_repl_item (la_page_src io (cf_cache cf)) (cf_area cf) (src_alloc io) up (page (lsa_pageid l)) (lr_type (log_hdr page l)) l s =
            Some (Some x, s') \<and> log_ok io cf page P Q eof tr s' \<and> tr (snd (snd s')) = tr (snd (snd s))))"

lemma log_ok_get:
  assumes "log_ok io cf page P Q eof tr s" and "P p"
  obtains s' where "la_page_src io (cf_cache cf) p s = Some (Some (page p), s')" "log_ok io cf page P Q eof tr s'"
    "tr (snd (snd s')) = tr (snd (snd s))"
proof -
  obtain s' where "la_page_src io (cf_cache cf) p s = Some (Some (page p), s')" "src_ok io (cf_cache cf) page P Q s'"
    using cp.get_page [where P = P and p = p and s = s] assms by (fastforce simp: log_ok_def)
  then show thesis using that la_page_src_keeps [of io tr] assms(1) by (auto simp: log_ok_def)
qed

lemma log_ok_release:
  assumes "log_ok io cf page P Q eof tr s"
  shows "log_ok io cf page P Q eof tr (src_release p s)" and "snd (snd (src_release p s)) = snd (snd s)"
  using assms src_release_ok by (auto simp: log_ok_def src_release_def split: prod.splits)

lemma log_ok_alloc:
  assumes "log_ok io cf page P Q eof tr s"
  obtains s' where "src_alloc io s = (True, s')" "log_ok io cf page P Q eof tr s'" "tr (snd (snd s')) = tr (snd (snd s))"
proof -
  obtain s' where "src_alloc io s = (True, s')" "src_ok io (cf_cache cf) page P Q s'" using src_alloc_ok assms by (fastforce simp: log_ok_def)
  then show thesis using that assms io_keepsD(6) [of io tr] by (auto simp: log_ok_def src_alloc_def split: prod.splits)
qed

lemma log_ok_eof: "log_ok io cf page P Q eof tr s \<Longrightarrow> src_eof s = eof"
  by (auto simp: log_ok_def src_ok_def src_eof_def split: prod.splits)

text \<open>One step of the search, for the records behind the item it starts at.\<close>

lemma next_act_cases:
  assumes "l \<noteq> prev"
  shows "la_next_act prev last_lsa eof t (hdr l) l =
    (if tran_ends hdr last_lsa eof t l then Nx_stop
     else if lr_trid (hdr l) = t \<and> (lr_type (hdr l) = LOG_REPLICATION_DATA \<or> lr_type (hdr l) = LOG_REPLICATION_SCHEMA) then Nx_make else Nx_skip)"
  using assms by (auto simp: la_next_act_def tran_ends_def lsa_simps)

lemma search_log:
  assumes "log_upto (log_hdr page) P last_lsa eof t start ls" and "prev \<notin> set ls"
    and "\<forall>l \<in> set (repl_after (log_hdr page) last_lsa eof t ls). item_at io cf up page P Q eof tr l (it l)"
    and "log_ok io cf page P Q eof tr s"
  shows "\<exists>s'. la_next_from_log io cf up prev last_lsa (Some t) start s =
      Some (case repl_after (log_hdr page) last_lsa eof t ls of [] \<Rightarrow> None | z # _ \<Rightarrow> Some (it z), s') \<and>
    log_ok io cf page P Q eof tr s' \<and> tr (snd (snd s')) = tr (snd (snd s))"
  using assms
proof (induction ls arbitrary: start s)
  case Nil
  then show ?case by (subst la_next_from_log.simps) simp
next
  case (Cons l ls)
  have l: "start = l" "\<not> LSA_ISNULL l" "P (lsa_pageid l)" using Cons.prems(1) by auto
  obtain s1 where 1: "la_page_src io (cf_cache cf) (lsa_pageid l) s = Some (Some (page (lsa_pageid l)), s1)" "log_ok io cf page P Q eof tr s1"
    "tr (snd (snd s1)) = tr (snd (snd s))" by (rule log_ok_get [OF Cons.prems(4) l(3)])
  note act = next_act_cases [of l prev last_lsa eof t "log_hdr page"]
  have ne: "l \<noteq> prev" using Cons.prems(2) by auto
  let ?over = "tran_ends (log_hdr page) last_lsa eof t l"
  let ?repl = "lr_trid (log_hdr page l) = t \<and> (lr_type (log_hdr page l) = LOG_REPLICATION_DATA \<or> lr_type (log_hdr page l) = LOG_REPLICATION_SCHEMA)"
  consider (ends) ?over | (makes) "\<not> ?over" ?repl | (skips) "\<not> ?over" "\<not> ?repl" by blast
  then show ?case
  proof cases
    case ends
    then show ?thesis using l 1 act [OF ne] log_ok_eof [OF 1(2)] by (subst la_next_from_log.simps) simp
  next
    case makes
    then have "item_at io cf up page P Q eof tr l (it l)" using Cons.prems(3) by auto
    then obtain s2 where 2: "la_make_repl_item (la_page_src io (cf_cache cf)) (cf_area cf) (src_alloc io) up (page (lsa_pageid l))
        (lr_type (log_hdr page l)) l s1 = Some (Some (it l), s2)" "log_ok io cf page P Q eof tr s2" "tr (snd (snd s2)) = tr (snd (snd s1))"
      using 1(2) unfolding item_at_def by blast
    have "la_next_from_log io cf up prev last_lsa (Some t) start s = Some (Some (it l), s2)"
      using makes l 1 2(1) act [OF ne] log_ok_eof [OF 1(2)] by (subst la_next_from_log.simps) simp
    then show ?thesis using makes 1(3) 2 by simp
  next
    case skips
    then have nx: "la_next_act prev last_lsa eof t (log_hdr page l) l = Nx_skip" using act [OF ne] by presburger
    have up: "log_upto (log_hdr page) P last_lsa eof t (lr_forw_lsa (log_hdr page l)) ls" using Cons.prems(1) skips by auto
    have "la_next_from_log io cf up prev last_lsa (Some t) start s =
        la_next_from_log io cf up prev last_lsa (Some t) (lr_forw_lsa (log_hdr page l)) (src_release (lsa_pageid l) s1)"
      using nx l 1 log_ok_eof [OF 1(2)] by (subst la_next_from_log.simps) simp
    moreover have "repl_after (log_hdr page) last_lsa eof t (l # ls) = repl_after (log_hdr page) last_lsa eof t ls" using skips by auto
    moreover note Cons.IH [OF up _ _ log_ok_release(1) [OF 1(2), of "lsa_pageid l"]] log_ok_release(2) [OF 1(2), of "lsa_pageid l"]
    ultimately show ?thesis using Cons.prems(2,3) 1(3) by simp
  qed
qed

text \<open>
  A long transaction at the item \<open>x\<close>: the items after it are those of the
  replication records of the transaction in the log behind \<open>x\<close>, up to the last
  one that was noted for it.
\<close>

definition long_at :: "'w la_io \<Rightarrow> la_config \<Rightarrow> 'v la_values \<Rightarrow> (log_pageid \<Rightarrow> log_page) \<Rightarrow> (log_pageid \<Rightarrow> bool) \<Rightarrow> (la_vols \<Rightarrow> bool) \<Rightarrow> log_lsa
    \<Rightarrow> ('w \<Rightarrow> 'v la_item list) \<Rightarrow> (log_lsa \<Rightarrow> 'v la_item) \<Rightarrow> 'v la_apply \<Rightarrow> 'v la_item \<Rightarrow> 'v la_item list \<Rightarrow> bool" where
  "long_at io cf up page P Q eof tr it a x xs \<longleftrightarrow>
     ap_is_long_trans a \<and> (ap_items a = [x] \<or> ap_items a = []) \<and> \<not> LSA_ISNULL (it_lsa x) \<and> P (lsa_pageid (it_lsa x)) \<and>
     lr_trid (log_hdr page (it_lsa x)) = ap_tranid a \<and>
     (\<exists>ls. log_upto (log_hdr page) P (ap_last_lsa a) eof (ap_tranid a) (lr_forw_lsa (log_hdr page (it_lsa x))) ls \<and> distinct (it_lsa x # ls) \<and>
        (\<forall>l \<in> set (repl_after (log_hdr page) (ap_last_lsa a) eof (ap_tranid a) ls). item_at io cf up page P Q eof tr l (it l)) \<and>
        xs = map it (repl_after (log_hdr page) (ap_last_lsa a) eof (ap_tranid a) ls))"

definition items_at :: "'w la_io \<Rightarrow> la_config \<Rightarrow> 'v la_values \<Rightarrow> (log_pageid \<Rightarrow> log_page) \<Rightarrow> (log_pageid \<Rightarrow> bool) \<Rightarrow> (la_vols \<Rightarrow> bool) \<Rightarrow> log_lsa
    \<Rightarrow> ('w \<Rightarrow> 'v la_item list) \<Rightarrow> (log_lsa \<Rightarrow> 'v la_item) \<Rightarrow> 'v la_apply \<Rightarrow> 'v la_item \<Rightarrow> 'v la_item list \<Rightarrow> bool" where
  "items_at io cf up page P Q eof tr it a x xs \<longleftrightarrow> short_at a x xs \<or> long_at io cf up page P Q eof tr it a x xs"

lemma long_next:
  assumes "long_at io cf up page P Q eof tr it a x xs" and "log_ok io cf page P Q eof tr s"
  shows "\<exists>s'. la_get_next_repl_item io cf up a x s = Some (case xs of [] \<Rightarrow> None | z # _ \<Rightarrow> Some z, s') \<and>
    log_ok io cf page P Q eof tr s' \<and> tr (snd (snd s')) = tr (snd (snd s))"
proof -
  let ?l = "it_lsa x" and ?t = "ap_tranid a"
  obtain ls where a: "ap_is_long_trans a" "\<not> LSA_ISNULL ?l" "P (lsa_pageid ?l)" "lr_trid (log_hdr page ?l) = ?t"
    "log_upto (log_hdr page) P (ap_last_lsa a) eof ?t (lr_forw_lsa (log_hdr page ?l)) ls" "?l \<notin> set ls"
    "\<forall>l \<in> set (repl_after (log_hdr page) (ap_last_lsa a) eof ?t ls). item_at io cf up page P Q eof tr l (it l)"
    "xs = map it (repl_after (log_hdr page) (ap_last_lsa a) eof ?t ls)" using assms(1) unfolding long_at_def by auto
  obtain s1 where 1: "la_page_src io (cf_cache cf) (lsa_pageid ?l) s = Some (Some (page (lsa_pageid ?l)), s1)" "log_ok io cf page P Q eof tr s1"
    "tr (snd (snd s1)) = tr (snd (snd s))" by (rule log_ok_get [OF assms(2) a(3)])
  obtain s2 where 2: "src_alloc io s1 = (True, s2)" "log_ok io cf page P Q eof tr s2" "tr (snd (snd s2)) = tr (snd (snd s1))"
    by (rule log_ok_alloc [OF 1(2)])
  have "la_get_next_repl_item io cf up a x s =
      la_next_from_log io cf up ?l (ap_last_lsa a) (Some ?t) (lr_forw_lsa (log_hdr page ?l)) (src_release (lsa_pageid ?l) s2)"
    unfolding la_get_next_repl_item_def la_get_next_repl_item_from_log_def
    using a(1-4) 1(1) 2(1) by (subst la_next_from_log.simps) (simp add: la_next_act_def lsa_simps)
  with search_log [OF a(5-7) log_ok_release(1) [OF 2(2), of "lsa_pageid ?l"]] log_ok_release(2) [OF 2(2), of "lsa_pageid ?l"] 1(3) 2(3) a(8)
  show ?thesis by (auto split: list.splits)
qed

lemma long_moves:
  assumes "long_at io cf up page P Q eof tr it a x (z # zs)" and "ap_is_long_trans b" and "ap_items b = [z] \<or> ap_items b = []"
    and "ap_tranid b = ap_tranid a" and "ap_last_lsa b = ap_last_lsa a"
  shows "long_at io cf up page P Q eof tr it b z zs"
proof -
  let ?l = "it_lsa x" and ?t = "ap_tranid a"
  obtain ls where a: "log_upto (log_hdr page) P (ap_last_lsa a) eof ?t (lr_forw_lsa (log_hdr page ?l)) ls" "distinct ls"
    "\<forall>l \<in> set (repl_after (log_hdr page) (ap_last_lsa a) eof ?t ls). item_at io cf up page P Q eof tr l (it l)"
    "z # zs = map it (repl_after (log_hdr page) (ap_last_lsa a) eof ?t ls)" using assms(1) unfolding long_at_def by auto
  obtain l ks where r: "repl_after (log_hdr page) (ap_last_lsa a) eof ?t ls = l # ks" "z = it l" "zs = map it ks" using a(4) by auto
  have "it_lsa z = l" using a(3) r by (simp add: item_at_def)
  moreover from repl_after_suffix [OF r(1) a(1)] obtain pre ls' where "ls = pre @ l # ls'" "repl_after (log_hdr page) (ap_last_lsa a) eof ?t ls' = ks"
    "log_upto (log_hdr page) P (ap_last_lsa a) eof ?t (lr_forw_lsa (log_hdr page l)) ls'" "lr_trid (log_hdr page l) = ?t"
    "\<not> LSA_ISNULL l" "P (lsa_pageid l)" by blast
  ultimately show ?thesis unfolding long_at_def using assms(2-5) a(2,3) r by auto
qed

lemma la_free_repl_item_fields [simp]:
  "ap_tranid (la_free_repl_item a x) = ap_tranid a" "ap_last_lsa (la_free_repl_item a x) = ap_last_lsa a"
  by (simp_all add: la_free_repl_item_def la_unlink_repl_item_def)

lemma long_free_items: "long_at io cf up page P Q eof tr it a x xs \<Longrightarrow> ap_items (la_free_repl_item a x) = []"
  by (auto simp: long_at_def la_free_repl_item_def la_unlink_repl_item_def)

interpretation lr: item_reader io cf up tr "items_at io cf up page P Q eof tr it" "log_ok io cf page P Q eof tr" for io cf up tr page P Q eof it
proof (unfold_locales, goal_cases)
  case (1 a x xs s)
  show ?case
  proof (cases "short_at a x xs")
    case True
    then have "la_get_next_repl_item io cf up a x s = Some (case xs of [] \<Rightarrow> None | z # _ \<Rightarrow> Some z, s)"
      by (cases xs) (simp_all add: short_at_def la_get_next_repl_item_def la_get_next_repl_item_from_list_def)
    then show ?thesis using 1(2) by (intro exI [of _ s] conjI) simp_all
  next
    case False
    then show ?thesis using 1 long_next [of io cf up page P Q eof tr it a x xs s] by (simp add: items_at_def)
  qed
next
  case (2 a x z zs)
  show ?case
  proof (cases "short_at a x (z # zs)")
    case True
    then show ?thesis using sr.free_item [OF 2(1), of x z zs] by (simp add: items_at_def)
  next
    case False
    then have l: "long_at io cf up page P Q eof tr it a x (z # zs)" using 2(2) by (simp add: items_at_def)
    then have "ap_is_long_trans a" by (simp add: long_at_def)
    then show ?thesis using long_moves [OF l, of "la_free_repl_item a x"] long_free_items [OF l] by (simp add: items_at_def)
  qed
next
  case (3 a x z zs c)
  show ?case
  proof (cases "short_at a x (z # zs)")
    case True
    then show ?thesis using sr.behind_item [OF 3(1) _ 3(3), of x zs] by (auto simp: tran_holds_def items_at_def)
  next
    case False
    then have l: "long_at io cf up page P Q eof tr it a x (z # zs)" using 3(2) by (simp add: items_at_def)
    let ?b = "la_free_and_add_next_repl_item (la_free_repl_item a x) (Some z) c"
    have "ap_is_long_trans a" using l by (simp add: long_at_def)
    then have "?b = la_add_repl_item (la_free_repl_item a x) z" using long_free_items [OF l] by (simp add: la_free_and_add_next_repl_item_def)
    then show ?thesis using long_moves [OF l, of ?b] long_free_items [OF l] \<open>ap_is_long_trans a\<close>
      by (simp add: tran_holds_def items_at_def la_add_repl_item_def)
  qed
qed

section \<open>What the calls between two items leave of the log\<close>

lemma la_release_all_content:
  assumes "pb_inv pb" and "pb_content page pb"
  shows "pb_content page (la_release_all_page_buffers p pb)"
  using assms(2) pb_tabled_len [OF assms(1)]
  by (auto simp: pb_content_def la_release_all_page_buffers_def release_buffer_def)

lemma log_ok_world: "log_ok io cf page P Q eof tr (pb, st, w) \<Longrightarrow> log_ok io cf page P Q eof tr (pb, st, w')"
  by (simp add: log_ok_def src_ok_def)

lemma log_ok_release_all:
  "log_ok io cf page P Q eof tr (pb, st, w) \<Longrightarrow> log_ok io cf page P Q eof tr (la_release_all_page_buffers p pb, st, w)"
  by (simp add: log_ok_def src_ok_def la_release_all_page_buffers_inv la_release_all_content)

text \<open>
  With a slave whose functions leave the page cache and the volumes as they
  find them, the log stays readable while items are applied.
\<close>

lemma log_ok_kept:
  assumes "\<And>st. Q st \<Longrightarrow> Q (st\<lparr>need_shutdown := True\<rparr>)"
    and "\<And>f item pb st w. f \<in> {en_apply_update en, en_apply_update_server_side en, en_apply_insert en, en_apply_delete en, en_apply_schema en} \<Longrightarrow>
      \<exists>err w'. f item (pb, st, w) = (err, pb, st, w')"
  shows "src_kept (log_ok io cf page P Q eof tr) en"
proof -
  have "log_ok io cf page P Q eof tr (snd (f item s))" if "log_ok io cf page P Q eof tr s"
    and f: "f \<in> {en_apply_update en, en_apply_update_server_side en, en_apply_insert en, en_apply_delete en, en_apply_schema en}" for f item s
  proof -
    obtain pb st w where s: "s = (pb, st, w)" by (cases s)
    obtain err w' where "f item (pb, st, w) = (err, pb, st, w')" using assms(2) [OF f] by blast
    then show ?thesis using that(1) log_ok_world s by auto
  qed
  moreover have "log_ok io cf page P Q eof tr (pb, st\<lparr>need_shutdown := True\<rparr>, w)" if "log_ok io cf page P Q eof tr (pb, st, w)" for pb st w
    using that assms(1) by (simp add: log_ok_def src_ok_def)
  ultimately show ?thesis unfolding src_kept_def by (simp add: log_ok_world log_ok_release_all)
qed

section \<open>The records of the log that hold items\<close>

interpretation kp: page_source "la_page_src io (cf_cache cf)" page P "\<lambda>s. log_ok io cf page P Q eof tr s \<and> tr (snd (snd s)) = t"
  for io cf page P Q eof tr t
  by unfold_locales (metis log_ok_get)

text \<open>
  The item of a record of a changed row: its class name is what the applier
  unpacks of the name that the server packed.
\<close>

definition data_item :: "'v la_values \<Rightarrow> int \<Rightarrow> byte list \<Rightarrow> byte list \<Rightarrow> log_lsa \<Rightarrow> log_lsa \<Rightarrow> 'v la_item" where
  "data_item up rcv nm key lsa tgt = \<lparr>it_log_type = LOG_REPLICATION_DATA, it_item_type = rcv,
     it_class_name = fst (or_unpack_string True (or_pack_string [] (Some nm) @ key)), it_db_user = None, it_ha_sys_prm = None,
     it_key = Some (up_mem_value up key), it_lsa = lsa, it_target_lsa = tgt\<rparr>"

lemma readable_item_at:
  assumes "area_size_ok (cf_area cf)" and "rec_readable page P (cf_area cf) e (p, off) tgt rcv (or_pack_string [] (Some nm) @ key)"
    and "str_ok (Some nm)" and "lsa_of (p, off) = lsa" and "lr_type (log_hdr page lsa) = LOG_REPLICATION_DATA"
  shows "item_at io cf up page P Q eof tr lsa (data_item up rcv nm key lsa tgt)"
proof -
  let ?data = "or_pack_string [] (Some nm) @ key"
  have p: "p = lsa_pageid lsa" using assms(4) by (auto simp: lsa_of_def)
  have "\<exists>s'. la_make_repl_item (la_page_src io (cf_cache cf)) (cf_area cf) (src_alloc io) up (page p) LOG_REPLICATION_DATA lsa s =
      Some (Some (data_item up rcv nm key lsa tgt), s') \<and> log_ok io cf page P Q eof tr s' \<and> tr (snd (snd s')) = tr (snd (snd s))"
    if s: "log_ok io cf page P Q eof tr s" for s
  proof -
    let ?valid = "\<lambda>s'. log_ok io cf page P Q eof tr s' \<and> tr (snd (snd s')) = tr (snd (snd s))"
    have a: "\<forall>s. ?valid s \<longrightarrow> (\<exists>s'. src_alloc io s = (True, s') \<and> ?valid s')" using log_ok_alloc by metis
    from s kp.make_repl_item [OF assms(1) _ assms(2,4) a] obtain s1 where
      1: "?valid s1" "la_make_repl_item (la_page_src io (cf_cache cf)) (cf_area cf) (src_alloc io) up (page p) LOG_REPLICATION_DATA lsa s =
        Some (la_fill_repl_item (src_alloc io) up LOG_REPLICATION_DATA rcv ?data (la_new_repl_item lsa tgt) s1)" by blast
    obtain s2 where "?valid s2" "la_unpack_string (src_alloc io) ?data s1 = (or_unpack_string True ?data, s2)"
    proof -
      obtain s2 where 2: "src_alloc io s1 = (True, s2)" "?valid s2" using a 1(1) by blast
      show thesis
        by (cases "OR_GET_INT ?data = -1"; rule that) (use 1(1) 2 in \<open>simp_all add: la_unpack_string_def or_unpack_string_def\<close>)
    qed
    moreover have "snd (or_unpack_string True ?data) = key"
      by (rule or_unpack_pack_string(3)) (use assms(3) in \<open>simp add: str_ok_def\<close>)
    ultimately show ?thesis using 1(2) by (intro exI [of _ s2]) (auto simp: la_fill_repl_item_def la_new_repl_item_def data_item_def split: prod.splits)
  qed
  then show ?thesis unfolding item_at_def using p assms(5) by (simp add: data_item_def)
qed

section \<open>The table, with short and long transactions\<close>

lemma trans_hold_mono:
  assumes "trans_hold f r T" and "\<And>t a x xs. tran_of r t = Some a \<Longrightarrow> f a x xs \<Longrightarrow> g a x xs"
  shows "trans_hold g r T"
  using assms unfolding trans_hold_def entry_holds_def tran_holds_def by (fastforce split: option.splits list.splits)

lemma short_in_log:
  assumes "repl_inv r" and "all_short r" and "trans_hold (items_at io cf up page P Q eof tr it) r T"
  shows "trans_hold short_at r T"
proof (rule trans_hold_mono [OF assms(3)])
  fix t a x xs assume "tran_of r t = Some a" and i: "items_at io cf up page P Q eof tr it a x xs"
  then have "\<not> ap_is_long_trans a" using assms(1,2) tran_of_iff [OF assms(1)] by (auto simp: all_short_def)
  then show "short_at a x xs" using i by (simp add: items_at_def long_at_def)
qed

text \<open>
  Where no transaction is long, the log is not read for items, and nothing
  needs to be known of it; otherwise it must be readable and stay so.
\<close>

definition log_serves :: "'w la_io \<Rightarrow> la_config \<Rightarrow> (log_pageid \<Rightarrow> log_page) \<Rightarrow> (log_pageid \<Rightarrow> bool) \<Rightarrow> (la_vols \<Rightarrow> bool) \<Rightarrow> log_lsa
    \<Rightarrow> ('w \<Rightarrow> 'v la_item list) \<Rightarrow> ('v, 'w) la_env \<Rightarrow> ('v, 'w) la_info \<Rightarrow> bool" where
  "log_serves io cf page P Q eof tr en info \<longleftrightarrow> all_short (li_repl info) \<or>
     src_kept (log_ok io cf page P Q eof tr) en \<and> log_ok io cf page P Q eof tr (li_src info)"

lemma commit_loop_serial:
  assumes "slave_takes en tr" and "repl_inv (li_repl info)" and "log_serves io cf page P Q eof tr en info"
    and "trans_hold (items_at io cf up page P Q eof tr it) (li_repl info) T"
    and "\<forall>c \<in> set (commits (li_repl info)). \<not> LSA_ISNULL (co_log_lsa c) \<and> co_tranid c \<noteq> 0"
    and "serial (li_last_committed_lsa info) (takeWhile co_ready (commits (li_repl info))) T = (applied, left)"
  shows "\<exists>info'. la_commit_loop io cf en up ty fp info = Some (None, info') \<and>
    commits (li_repl info') = dropWhile co_ready (commits (li_repl info)) \<and>
    tr (li_w info') = tr (li_w info) @ filter (item_wanted cf (li_last_committed_rep_lsa info)) applied \<and>
    trans_hold (items_at io cf up page P Q eof tr it) (li_repl info') left"
proof (cases "all_short (li_repl info)")
  case True
  obtain info' where "la_commit_loop io cf en up ty fp info = Some (None, info')"
    "commits (li_repl info') = dropWhile co_ready (commits (li_repl info))"
    "tr (li_w info') = tr (li_w info) @ filter (item_wanted cf (li_last_committed_rep_lsa info)) applied" "trans_hold short_at (li_repl info') left"
    using sr.commit_loop_takes [OF assms(1) short_kept assms(2) short_in_log [OF assms(2) True assms(4)] TrueI assms(5,6), of io cf up ty fp] by blast
  then show ?thesis using trans_hold_mono [of short_at _ _ "items_at io cf up page P Q eof tr it"] by (auto simp: items_at_def)
next
  case False
  then have "src_kept (log_ok io cf page P Q eof tr) en" "log_ok io cf page P Q eof tr (li_src info)"
    using assms(3) by (simp_all add: log_serves_def)
  from lr.commit_loop_takes [OF assms(1) this(1) assms(2,4) this(2) assms(5,6)] show ?thesis by blast
qed

section \<open>A long transaction, for the witnesses\<close>

text \<open>
  A log whose pages 31 and 32 hold the replication records of transaction 4 and
  page 33 its commit. The applier has met them and holds the first item only.
\<close>

definition ex_long_hdr :: "log_pageid \<Rightarrow> log_record_header" where
  "ex_long_hdr p = \<lparr>lr_prev_tranlsa = LSA_NULL, lr_back_lsa = LSA_NULL, lr_forw_lsa = LSA (p + 1) 0, lr_trid = 4,
     lr_type = (if p = 33 then LOG_COMMIT else LOG_REPLICATION_DATA)\<rparr>"

definition ex_long_page :: "log_pageid \<Rightarrow> log_page" where
  "ex_long_page p = \<lparr>lp_logical_pageid = p, lp_offset = 0,
     lp_area = wr_log_record_header (ex_long_hdr p) @ wr_log_replication (LSA 30 0) 8 RVREPL_DATA_INSERT @
       or_pack_string [] (Some [116]) @ replicate 24 0\<rparr>"

definition ex_long_conf :: la_config where
  "ex_long_conf = ex_conf\<lparr>cf_cache := ex_cfg\<lparr>cfg_logpagesize := 96\<rparr>\<rparr>"

definition ex_long_values :: "unit la_values" where
  "ex_long_values = \<lparr>up_mem_value = \<lambda>_. (), mk_string = \<lambda>_. ()\<rparr>"

definition ex_long_item :: "log_lsa \<Rightarrow> unit la_item" where
  "ex_long_item l = data_item ex_long_values RVREPL_DATA_INSERT [116] [] l (LSA 30 0)"

definition ex_long_info :: "(unit, unit la_item list) la_info" where
  "ex_long_info = ex_info\<lparr>li_vols := ex_vols\<lparr>act_log_hdr := hdr_upto 33\<rparr>,
     li_repl := \<lparr>repl_lists = [\<lparr>ap_tranid = 4, ap_num_items = 1, ap_is_long_trans = True, ap_start_lsa = LSA 31 0,
         ap_last_lsa = LSA 32 0, ap_items = [ex_long_item (LSA 31 0)]\<rparr>], repl_cnt = 1, cur_repl = 1,
       commits = [\<lparr>co_type = LOG_COMMIT, co_tranid = 4, co_log_lsa = LSA 33 0, co_log_record_time = 90\<rparr>]\<rparr>\<rparr>"

abbreviation ex_long_io :: "'w la_io" where
  "ex_long_io \<equiv> io_upto 33 ex_long_page"

abbreviation ex_long_pages :: "log_pageid \<Rightarrow> bool" where
  "ex_long_pages q \<equiv> 30 \<le> q \<and> q \<le> 33"

abbreviation ex_long_vols :: "la_vols \<Rightarrow> bool" where
  "ex_long_vols st \<equiv> act_log_hdr st = hdr_upto 33"

lemma ex_long_area [simp]: "cf_area ex_long_conf = 80" "length (lp_area (ex_long_page p)) = 80"
  by (simp_all add: cf_area_def ex_long_conf_def ex_cfg_def ex_long_page_def or_pack_string_def Let_def LA_LOGAREA_SIZE_def)

lemma ex_long_header:
  assumes "31 \<le> p" and "p \<le> 33"
  shows "log_hdr ex_long_page (LSA p 0) = ex_long_hdr p"
proof -
  have "header_fits (ex_long_hdr p)" using assms by (simp add: header_fits_def ex_long_hdr_def lsa_fits_def LSA_NULL_def)
  from rd_wr_log_record_header [OF this, of "[]"] show ?thesis by (simp add: LOG_GET_LOG_RECORD_HEADER_def ex_long_page_def)
qed

lemma page_on_tape:
  assumes "lp_area (page p) = pre @ data @ post" and "length pre + length data \<le> sz" and "g = p * int sz + int (length pre)"
  shows "on_tape (tape sz page) g data"
proof -
  have "tape sz page (g + int k) = data ! k" if "k < length data" for k
  proof -
    have l: "int (length pre) + int k < int sz" using that assms(2) by simp
    then have "(g + int k) div int sz = p" "(g + int k) mod int sz = int (length pre + k)"
      using assms(3) by (simp_all add: div_pos_pos_trivial add.assoc)
    then have "tape sz page (g + int k) = lp_area (page p) ! (length pre + k)" unfolding tape_def by (metis nat_int)
    then show ?thesis using assms(1) that by (simp add: nth_append)
  qed
  then show ?thesis by (simp add: on_tape_def)
qed

lemma ex_long_readable:
  assumes "31 \<le> p" and "p \<le> 32"
  shows "rec_readable ex_long_page ex_long_pages 80 2720 (p, 0) (LSA 30 0) RVREPL_DATA_INSERT (or_pack_string [] (Some [116]) @ [])"
proof -
  have h: "rec_header_pos 80 16 (p, 0) = (p, 32)"
    by (simp add: rec_header_pos_def LOG_PRIOR_LSA_APPEND_ADD_ALIGN_def LOG_PRIOR_LSA_APPEND_ALIGN_def DB_ALIGN_def
        LOG_PRIOR_LSA_APPEND_ADVANCE_WHEN_DOESNOT_FIT_def Let_def)
  have u: "rec_udata_at 80 16 (p, 0) = p * 80 + 48"
    unfolding rec_udata_at_def h gpos_def align8_def by simp presburger
  have l: "length (or_pack_string [] (Some [116])) = 8" by (simp add: or_pack_string_def Let_def)
  have "on_tape (tape 80 ex_long_page) (p * 80 + 32) (wr_log_replication (LSA 30 0) 8 RVREPL_DATA_INSERT)"
    by (rule page_on_tape [where p = p and pre = "wr_log_record_header (ex_long_hdr p)" and post = "or_pack_string [] (Some [116]) @ replicate 24 0"])
      (simp_all add: ex_long_page_def)
  moreover have "on_tape (tape 80 ex_long_page) (p * 80 + 48) (or_pack_string [] (Some [116]))"
    by (rule page_on_tape [where p = p and pre = "wr_log_record_header (ex_long_hdr p) @ wr_log_replication (LSA 30 0) 8 RVREPL_DATA_INSERT"
          and post = "replicate 24 0"]) (simp_all add: ex_long_page_def l)
  ultimately show ?thesis using assms
    by (simp add: rec_readable_def h u l gpos_def rec_ok_def pos_ok_def pages_before_def lsa_fits_def)
qed

lemma ex_long_item_at:
  assumes "31 \<le> p" and "p \<le> 32"
  shows "item_at ex_long_io ex_long_conf ex_long_values ex_long_page ex_long_pages ex_long_vols (LSA 33 16384) id (LSA p 0) (ex_long_item (LSA p 0))"
  unfolding ex_long_item_def
  by (rule readable_item_at [where e = 2720 and p = p and off = 0])
    (use ex_long_readable [OF assms] ex_long_header [of p] assms in \<open>simp_all add: area_size_ok_def str_ok_def lsa_of_def ex_long_hdr_def\<close>)

lemma ex_long_log_ok: "log_ok ex_long_io ex_long_conf ex_long_page ex_long_pages ex_long_vols (LSA 33 16384) id (li_src ex_long_info)"
proof -
  have "io_keeps ex_long_io id" by (simp add: io_keeps_def io_upto_def ex_io_def)
  moreover have "src_ok ex_long_io (cf_cache ex_long_conf) ex_long_page ex_long_pages ex_long_vols (li_src ex_long_info)"
    using io_upto_src [of 33 ex_long_page "cf_cache ex_long_conf" "[]"]
    by (simp add: ex_long_page_def ex_long_conf_def ex_cfg_def ex_long_info_def li_src_def ex_info_def)
  ultimately show ?thesis by (simp add: log_ok_def hdr_upto_def)
qed

lemma ex_long_serves: "log_serves ex_long_io ex_long_conf ex_long_page ex_long_pages ex_long_vols (LSA 33 16384) id ex_env ex_long_info"
proof -
  have "src_kept (log_ok ex_long_io ex_long_conf ex_long_page ex_long_pages ex_long_vols (LSA 33 16384) id) ex_env"
    by (rule log_ok_kept) (auto simp: ex_env_def ex_take_def)
  then show ?thesis using ex_long_log_ok by (simp add: log_serves_def)
qed

abbreviation ex_long_T :: "tranid \<Rightarrow> unit la_item list" where
  "ex_long_T \<equiv> (\<lambda>_. [])(4 := [ex_long_item (LSA 31 0), ex_long_item (LSA 32 0)])"

lemma ex_long_holds:
  "trans_hold (items_at ex_long_io ex_long_conf ex_long_values ex_long_page ex_long_pages ex_long_vols (LSA 33 16384) id ex_long_item)
     (li_repl ex_long_info) ex_long_T"
proof -
  let ?a = "hd (repl_lists (li_repl ex_long_info))"
  have t: "tran_of (li_repl ex_long_info) t = (if t = 4 then Some ?a else None)" for t
    by (simp add: tran_of_def la_find_apply_list_def ex_long_info_def)
  note hdr = ex_long_header [of 31] ex_long_header [of 32] ex_long_header [of 33]
  have r: "repl_after (log_hdr ex_long_page) (LSA 32 0) (LSA 33 16384) 4 [LSA 32 0, LSA 33 0] = [LSA 32 0]"
    using hdr by (simp add: tran_ends_def ex_long_hdr_def less_log_lsa_def less_eq_log_lsa_def)
  have "log_upto (log_hdr ex_long_page) ex_long_pages (LSA 32 0) (LSA 33 16384) 4 (LSA 32 0) [LSA 32 0, LSA 33 0]"
    using hdr by (simp add: tran_ends_def ex_long_hdr_def less_log_lsa_def less_eq_log_lsa_def LSA_ISNULL_def)
  moreover have "lr_forw_lsa (log_hdr ex_long_page (LSA 31 0)) = LSA 32 0" "lr_trid (log_hdr ex_long_page (LSA 31 0)) = 4"
    using hdr by (simp_all add: ex_long_hdr_def)
  moreover have "?a = \<lparr>ap_tranid = 4, ap_num_items = 1, ap_is_long_trans = True, ap_start_lsa = LSA 31 0,
      ap_last_lsa = LSA 32 0, ap_items = [ex_long_item (LSA 31 0)]\<rparr>" "it_lsa (ex_long_item (LSA 31 0)) = LSA 31 0"
    by (simp_all add: ex_long_info_def ex_long_item_def data_item_def)
  ultimately have "long_at ex_long_io ex_long_conf ex_long_values ex_long_page ex_long_pages ex_long_vols (LSA 33 16384) id ex_long_item
      ?a (ex_long_item (LSA 31 0)) [ex_long_item (LSA 32 0)]"
    unfolding long_at_def using r ex_long_item_at [of 32]
    by (intro conjI exI [of _ "[LSA 32 0, LSA 33 0]"]) (simp_all add: LSA_ISNULL_def del: repl_after.simps log_upto.simps)
  then show ?thesis unfolding trans_hold_def
    by (simp add: t entry_holds_def tran_holds_def items_at_def) (simp add: ex_long_info_def)
qed

lemma ex_long_inv: "repl_inv (li_repl ex_long_info)"
  by (simp add: ex_long_info_def repl_inv_def apply_ok_def)

lemma ex_long_queue:
  "\<forall>c \<in> set (commits (li_repl ex_long_info)). \<not> LSA_ISNULL (co_log_lsa c) \<and> co_tranid c \<noteq> 0"
  "takeWhile co_ready (commits (li_repl ex_long_info)) = commits (li_repl ex_long_info)"
  "li_last_committed_lsa ex_long_info = LSA 30 0" "li_last_committed_rep_lsa ex_long_info = LSA 30 0" "li_w ex_long_info = []"
  by (simp_all add: ex_long_info_def ex_info_def LSA_ISNULL_def co_ready_def)

lemma ex_long_wanted: "item_wanted ex_long_conf (LSA 30 0) (ex_long_item (LSA (31 + int k) 0))"
  by (simp add: item_wanted_def item_known_def ex_long_item_def data_item_def less_log_lsa_def la_need_filter_out_def ex_long_conf_def ex_conf_def)

section \<open>Properties\<close>

text \<open>
  C6. With a slave that takes every item, the commit queue is applied as its
  sequential specification says, transactions of more than a thousand items
  included. \<open>T\<close> gives the items of each transaction: those of its list, and
  for a long one the first of the list and then the items of its replication
  records in the log, which the volumes deliver and which the slave's functions
  leave readable. The loop over the queue ends; it takes the entries that are
  ready at the head of the queue; what the slave gets is what the specification
  applies for them, each entry on what the entries before it left, without the
  items applied before the restart, unknown or filtered out; and the table then
  holds what the specification leaves.
\<close>

theorem commit_queue_refines_serial:
  assumes "slave_takes en tr" and "repl_inv (li_repl info)" and "log_serves io cf page P Q eof tr en info"
    and "trans_hold (items_at io cf up page P Q eof tr it) (li_repl info) T"
    and "\<forall>c \<in> set (commits (li_repl info)). \<not> LSA_ISNULL (co_log_lsa c) \<and> co_tranid c \<noteq> 0"
    and "serial (li_last_committed_lsa info) (takeWhile co_ready (commits (li_repl info))) T = (applied, left)"
  shows "\<exists>info'. la_commit_loop io cf en up ty fp info = Some (None, info') \<and>
    commits (li_repl info') = dropWhile co_ready (commits (li_repl info)) \<and>
    tr (li_w info') = tr (li_w info) @ filter (item_wanted cf (li_last_committed_rep_lsa info)) applied \<and>
    trans_hold (items_at io cf up page P Q eof tr it) (li_repl info') left"
  by (rule commit_loop_serial [OF assms])

lemma commit_queue_refines_serial_witness:
  "\<exists>info'. la_commit_loop ex_long_io ex_long_conf ex_env ex_long_values LOG_COMMIT 33 ex_long_info = Some (None, info') \<and>
     commits (li_repl info') = [] \<and> li_w info' = [ex_long_item (LSA 31 0), ex_long_item (LSA 32 0)]"
proof -
  have "serial (li_last_committed_lsa ex_long_info) (takeWhile co_ready (commits (li_repl ex_long_info))) ex_long_T =
      ([ex_long_item (LSA 31 0), ex_long_item (LSA 32 0)], ex_long_T(4 := []))"
    by (simp add: ex_long_queue(2,3))
      (simp add: ex_long_info_def entry_now_def entry_left_def entry_skips_def upto_commit_def ex_long_item_def data_item_def less_eq_log_lsa_def less_log_lsa_def)
  from commit_queue_refines_serial [OF ex_slave_takes ex_long_inv ex_long_serves ex_long_holds ex_long_queue(1) this, of LOG_COMMIT 33]
    ex_long_wanted [of 0] ex_long_wanted [of 1]
  show ?thesis by (auto simp: ex_long_queue(3-)) (simp add: ex_long_info_def co_ready_def)
qed

text \<open>
  C7. Committed transactions reach the slave whole, in commit order and without
  interleaving: where the entries ready at the head of the queue are complete
  commits of different transactions, none committed before the restart and none
  with an item behind its commit record, a slave that takes every item gets the
  items of the first, then those of the second, and so on, and nothing of any
  other transaction. The items of a transaction are as in the property before:
  those of its list, or for one of more than a thousand items those of its
  records in the log.
\<close>

theorem committed_transactions_in_order:
  assumes "slave_takes en tr" and "repl_inv (li_repl info)" and "log_serves io cf page P Q eof tr en info"
    and "trans_hold (items_at io cf up page P Q eof tr it) (li_repl info) T"
    and "\<forall>c \<in> set (commits (li_repl info)). \<not> LSA_ISNULL (co_log_lsa c) \<and> co_tranid c \<noteq> 0"
    and "ready = takeWhile co_ready (commits (li_repl info))" and "distinct (map co_tranid ready)"
    and "\<forall>c \<in> set ready. entry_commits (li_last_committed_lsa info) T c"
  shows "\<exists>info'. la_commit_loop io cf en up ty fp info = Some (None, info') \<and>
    tr (li_w info') = tr (li_w info) @
      filter (item_wanted cf (li_last_committed_rep_lsa info)) (concat (map (\<lambda>c. T (co_tranid c)) ready))"
proof -
  obtain applied left where s: "serial (li_last_committed_lsa info) ready T = (applied, left)" by force
  with serial_commits [OF assms(7,8)] have "applied = concat (map (\<lambda>c. T (co_tranid c)) ready)" by simp
  with commit_loop_serial [OF assms(1-5) s [unfolded assms(6)], of ty fp] show ?thesis by blast
qed

lemma committed_transactions_in_order_witness:
  "\<exists>info'. la_commit_loop ex_long_io ex_long_conf ex_env ex_long_values LOG_COMMIT 33 ex_long_info = Some (None, info') \<and>
     li_w info' = [ex_long_item (LSA 31 0), ex_long_item (LSA 32 0)]"
proof -
  have c: "commits (li_repl ex_long_info) = [\<lparr>co_type = LOG_COMMIT, co_tranid = 4, co_log_lsa = LSA 33 0, co_log_record_time = 90\<rparr>]"
    by (simp add: ex_long_info_def)
  have "\<forall>c \<in> set (commits (li_repl ex_long_info)). entry_commits (li_last_committed_lsa ex_long_info) ex_long_T c"
    unfolding c ex_long_queue(3) by (simp add: entry_commits_def ex_long_item_def data_item_def less_log_lsa_def less_eq_log_lsa_def)
  from committed_transactions_in_order [OF ex_slave_takes ex_long_inv ex_long_serves ex_long_holds ex_long_queue(1) ex_long_queue(2) [symmetric] _ this,
      of LOG_COMMIT 33] ex_long_wanted [of 0] ex_long_wanted [of 1]
  show ?thesis by (auto simp: ex_long_queue(3-) c)
qed

end
