(* ===== verification/La_Object.thy ===== *)
theory La_Object
  imports La_Recdes
begin

text \<open>
  Rows of the slave (\<^verbatim>\<open>transaction/log_applier.c\<close>, \<^verbatim>\<open>la_disk_to_obj\<close>,
  \<^verbatim>\<open>la_get_current\<close> and \<^verbatim>\<open>la_diff_representation_id\<close>): the bytes of a row are
  taken apart into the values of its columns, which are put into a template of
  the object. The buffer they are read from is that of
  \<^verbatim>\<open>object/object_representation.c\<close>.

  Reading past the end of the buffer jumps out of the function (\<open>Or_jump\<close>);
  reading past the bytes there are, where the buffer does not know its end, is
  undefined (\<open>Or_undef\<close>, or \<open>None\<close> of the functions above it).
\<close>

section \<open>Buffers\<close>

abbreviation (input) OR_BYTE_SIZE :: nat where "OR_BYTE_SIZE \<equiv> 1"
abbreviation (input) OR_SHORT_SIZE :: nat where "OR_SHORT_SIZE \<equiv> 2"
abbreviation (input) DB_INT32_MAX :: int where "DB_INT32_MAX \<equiv> 2147483647"

record or_buf =
  bf_data :: "byte list"
  bf_ptr :: int
  bf_end :: "int option"

datatype 'a or_out = Or_ok 'a | Or_jump | Or_undef

definition or_init :: "byte list \<Rightarrow> int \<Rightarrow> or_buf" where
  "or_init data len =
     \<lparr>bf_data = data, bf_ptr = 0, bf_end = (if len = 0 \<or> len = -1 \<or> len = DB_INT32_MAX then None else Some len)\<rparr>"

definition or_past_end :: "or_buf \<Rightarrow> int \<Rightarrow> bool" where
  "or_past_end buf n = (case bf_end buf of None \<Rightarrow> False | Some e \<Rightarrow> e < bf_ptr buf + n)"

text \<open>The next \<open>n\<close> bytes, which all the reading functions start with.\<close>

definition or_take :: "nat \<Rightarrow> or_buf \<Rightarrow> (byte list \<times> or_buf) or_out" where
  "or_take n buf =
     (if or_past_end buf (int n) then Or_jump
      else if bf_ptr buf < 0 \<or> int (length (bf_data buf)) < bf_ptr buf + int n then Or_undef
      else Or_ok (take n (drop (nat (bf_ptr buf)) (bf_data buf)), buf\<lparr>bf_ptr := bf_ptr buf + int n\<rparr>))"

definition or_get :: "nat \<Rightarrow> (byte list \<Rightarrow> int) \<Rightarrow> or_buf \<Rightarrow> (int \<times> or_buf) or_out" where
  "or_get n f buf =
     (case or_take n buf of Or_jump \<Rightarrow> Or_jump | Or_undef \<Rightarrow> Or_undef | Or_ok (bs, buf') \<Rightarrow> Or_ok (f bs, buf'))"

definition or_get_byte :: "or_buf \<Rightarrow> (int \<times> or_buf) or_out" where
  "or_get_byte = or_get OR_BYTE_SIZE (\<lambda>bs. int (le_nat bs))"

definition or_get_short :: "or_buf \<Rightarrow> (int \<times> or_buf) or_out" where
  "or_get_short = or_get OR_SHORT_SIZE (\<lambda>bs. rd_int 2 0 (rev bs))"

definition or_get_int :: "or_buf \<Rightarrow> (int \<times> or_buf) or_out" where
  "or_get_int = or_get OR_INT_SIZE OR_GET_INT"

definition or_get_offset_internal :: "nat \<Rightarrow> or_buf \<Rightarrow> (int \<times> or_buf) or_out" where
  "or_get_offset_internal offset_size buf =
     (if offset_size = OR_BYTE_SIZE then or_get_byte buf
      else if offset_size = OR_SHORT_SIZE then or_get_short buf
      else or_get_int buf)"

definition or_advance :: "int \<Rightarrow> or_buf \<Rightarrow> or_buf or_out" where
  "or_advance offset buf = (if or_past_end buf offset then Or_jump else Or_ok (buf\<lparr>bf_ptr := bf_ptr buf + offset\<rparr>))"

text \<open>The word that a row begins with: the representation, and flags.\<close>

definition OR_BOUND_BIT_FLAG :: "int \<Rightarrow> bool" where
  "OR_BOUND_BIT_FLAG repid_bits = (2 ^ 31 \<le> repid_bits mod 2 ^ 32)"

definition OR_GET_OFFSET_SIZE :: "int \<Rightarrow> nat" where
  "OR_GET_OFFSET_SIZE repid_bits =
     (let flag = repid_bits mod 2 ^ 32 div 2 ^ 29 mod 4
      in if flag = 1 then OR_BYTE_SIZE else if flag = 2 then OR_SHORT_SIZE else OR_INT_SIZE)"

definition OR_GET_REPID :: "int \<Rightarrow> int" where
  "OR_GET_REPID repid_bits = repid_bits mod 2 ^ 29"

definition OR_BOUND_BIT_BYTES :: "nat \<Rightarrow> nat" where
  "OR_BOUND_BIT_BYTES count = (count + 31) div 32 * 4"

definition OR_GET_BOUND_BIT :: "byte list \<Rightarrow> int \<Rightarrow> nat \<Rightarrow> bool option" where
  "OR_GET_BOUND_BIT data bitptr i =
     (let p = bitptr + int (i div 8)
      in if p < 0 \<or> int (length data) \<le> p then None else Some (bit (data ! nat p) (i mod 8)))"

section \<open>Classes and templates\<close>

text \<open>
  A column: how much room it takes when it is fixed, and reading its value,
  which is up to its type: the value and how far the buffer moves, or a jump.
  \<open>te_put\<close> puts a value into a template (\<^verbatim>\<open>dbt_put_internal\<close>), \<open>te_mem\<close> is whether
  memory can be had.
\<close>

record 'v sm_attribute =
  at_name :: "byte list"
  at_disk_size :: int
  at_is_fk_cache_attr :: bool
  at_readval :: "byte list \<Rightarrow> int \<Rightarrow> ('v \<times> int) option"

record 'v sm_class =
  sm_fixed_count :: nat
  sm_variable_count :: nat
  sm_att_count :: nat
  sm_fixed_size :: nat
  sm_attributes :: "'v sm_attribute list"

record ('v, 'w) tmpl_env =
  te_null :: 'v
  te_mem :: "'w \<Rightarrow> bool \<times> 'w"
  te_put :: "nat \<Rightarrow> byte list \<Rightarrow> 'v \<Rightarrow> 'w \<Rightarrow> errcode \<times> 'w"

datatype cur_out = Cu_go or_buf | Cu_return errcode | Cu_jump

definition or_readval :: "'v sm_attribute \<Rightarrow> int \<Rightarrow> or_buf \<Rightarrow> ('v \<times> or_buf) or_out" where
  "or_readval att sz buf =
     (if bf_ptr buf < 0 then Or_undef
      else case at_readval att (drop (nat (bf_ptr buf)) (bf_data buf)) sz of
             None \<Rightarrow> Or_jump
           | Some (v, n) \<Rightarrow> Or_ok (v, buf\<lparr>bf_ptr := bf_ptr buf + n\<rparr>))"

section \<open>Taking a row apart\<close>

fun la_var_sizes :: "nat \<Rightarrow> nat \<Rightarrow> int \<Rightarrow> or_buf \<Rightarrow> (int list \<times> or_buf) or_out" where
  "la_var_sizes offset_size 0 offset buf = Or_ok ([], buf)"
| "la_var_sizes offset_size (Suc n) offset buf =
     (case or_get_offset_internal offset_size buf of
        Or_jump \<Rightarrow> Or_jump
      | Or_undef \<Rightarrow> Or_undef
      | Or_ok (offset2, buf1) \<Rightarrow>
          (case la_var_sizes offset_size n offset2 buf1 of
             Or_ok (vars, buf2) \<Rightarrow> Or_ok ((offset2 - offset) # vars, buf2)
           | out \<Rightarrow> out))"

text \<open>
  The alignment is that of an address; the data of a row begins at a block that
  \<^verbatim>\<open>malloc\<close> returned, so that it is the alignment of the offset in the row.
\<close>

definition la_var_table :: "nat \<Rightarrow> nat \<Rightarrow> or_buf \<Rightarrow> (int list \<times> or_buf) or_out" where
  "la_var_table offset_size n buf =
     (case or_get_offset_internal offset_size buf of
        Or_jump \<Rightarrow> Or_jump
      | Or_undef \<Rightarrow> Or_undef
      | Or_ok (offset, buf1) \<Rightarrow>
          (case la_var_sizes offset_size n offset buf1 of
             Or_ok (vars, buf2) \<Rightarrow> Or_ok (vars, buf2\<lparr>bf_ptr := int (DB_ALIGN (nat (bf_ptr buf2)) 4)\<rparr>)
           | out \<Rightarrow> out))"

text \<open>Without bound bits every column has a value.\<close>

definition la_bound_bit :: "byte list \<Rightarrow> int option \<Rightarrow> nat \<Rightarrow> bool option" where
  "la_bound_bit data bits i = (case bits of None \<Rightarrow> Some True | Some p \<Rightarrow> OR_GET_BOUND_BIT data p i)"

definition la_fixed_value :: "'v \<Rightarrow> int option \<Rightarrow> nat \<Rightarrow> 'v sm_attribute \<Rightarrow> or_buf \<Rightarrow> ('v \<times> or_buf) or_out" where
  "la_fixed_value null bits i att buf =
     (case la_bound_bit (bf_data buf) bits i of
        None \<Rightarrow> Or_undef
      | Some True \<Rightarrow> or_readval att (-1) buf
      | Some False \<Rightarrow>
          (case or_advance (at_disk_size att) buf of Or_ok buf1 \<Rightarrow> Or_ok (null, buf1) | Or_jump \<Rightarrow> Or_jump | Or_undef \<Rightarrow> Or_undef))"

fun la_get_fixed ::
    "('v, 'w) tmpl_env \<Rightarrow> nat \<Rightarrow> int option \<Rightarrow> nat \<Rightarrow> 'v sm_attribute list \<Rightarrow> or_buf \<Rightarrow> 'w \<Rightarrow> (cur_out \<times> 'w) option" where
  "la_get_fixed te def bits i [] buf w = Some (Cu_go buf, w)"
| "la_get_fixed te def bits i (att # atts) buf w =
     (case la_fixed_value (te_null te) bits i att buf of
        Or_undef \<Rightarrow> None
      | Or_jump \<Rightarrow> Some (Cu_jump, w)
      | Or_ok (value, buf1) \<Rightarrow>
          if at_is_fk_cache_attr att then la_get_fixed te def bits (Suc i) atts buf1 w
          else (case te_put te def (at_name att) value w of
                  (err, w1) \<Rightarrow>
                    if err \<noteq> NO_ERROR then Some (Cu_return err, w1) else la_get_fixed te def bits (Suc i) atts buf1 w1))"

fun la_get_variable ::
    "('v, 'w) tmpl_env \<Rightarrow> nat \<Rightarrow> ('v sm_attribute \<times> int) list \<Rightarrow> or_buf \<Rightarrow> 'w \<Rightarrow> (cur_out \<times> 'w) option" where
  "la_get_variable te def [] buf w = Some (Cu_go buf, w)"
| "la_get_variable te def ((att, sz) # atts) buf w =
     (case or_readval att sz buf of
        Or_undef \<Rightarrow> None
      | Or_jump \<Rightarrow> Some (Cu_jump, w)
      | Or_ok (value, _) \<Rightarrow>
          (case te_put te def (at_name att) value w of
             (err, w1) \<Rightarrow>
               if err \<noteq> NO_ERROR then Some (Cu_return err, w1)
               else la_get_variable te def atts (buf\<lparr>bf_ptr := bf_ptr buf + sz\<rparr>) w1))"

text \<open>Between the two: the rest of the fixed block and the bound bits are skipped.\<close>

definition la_skip_fixed :: "bool \<Rightarrow> 'v sm_class \<Rightarrow> int \<Rightarrow> or_buf \<Rightarrow> or_buf or_out" where
  "la_skip_fixed bound_bit_flag cls start buf =
     (let pad = bf_ptr buf - start
      in case (if pad < int (sm_fixed_size cls) then or_advance (int (sm_fixed_size cls) - pad) buf else Or_ok buf) of
           Or_ok buf1 \<Rightarrow> (if bound_bit_flag then or_advance (int (OR_BOUND_BIT_BYTES (sm_fixed_count cls))) buf1 else Or_ok buf1)
         | out \<Rightarrow> out)"

definition la_get_columns ::
    "('v, 'w) tmpl_env \<Rightarrow> nat \<Rightarrow> 'v sm_class \<Rightarrow> bool \<Rightarrow> int list \<Rightarrow> or_buf \<Rightarrow> 'w \<Rightarrow> (cur_out \<times> 'w) option" where
  "la_get_columns te def cls bound_bit_flag vars buf w =
     (let start = bf_ptr buf; bits = (if bound_bit_flag then Some (start + int (sm_fixed_size cls)) else None);
          n = min (sm_att_count cls - sm_fixed_count cls) (sm_variable_count cls);
          atts = sm_attributes cls
      in if length atts < sm_fixed_count cls + n then None
         else
           (case la_get_fixed te def bits 0 (take (sm_fixed_count cls) atts) buf w of
              None \<Rightarrow> None
            | Some (Cu_go buf1, w1) \<Rightarrow>
                (case la_skip_fixed bound_bit_flag cls start buf1 of
                   Or_undef \<Rightarrow> None
                 | Or_jump \<Rightarrow> Some (Cu_jump, w1)
                 | Or_ok buf2 \<Rightarrow> la_get_variable te def (zip (take n (drop (sm_fixed_count cls) atts)) (take n vars)) buf2 w1)
            | Some (out, w1) \<Rightarrow> Some (out, w1)))"

definition la_get_current ::
    "('v, 'w) tmpl_env \<Rightarrow> nat \<Rightarrow> 'v sm_class \<Rightarrow> bool \<Rightarrow> nat \<Rightarrow> or_buf \<Rightarrow> 'w \<Rightarrow> (cur_out \<times> 'w) option" where
  "la_get_current te def cls bound_bit_flag offset_size buf w =
     (if sm_variable_count cls = 0 then la_get_columns te def cls bound_bit_flag [] buf w
      else
        (case te_mem te w of
           (ok, w1) \<Rightarrow>
             if \<not> ok then Some (Cu_return ER_OUT_OF_VIRTUAL_MEMORY, w1)
             else
               (case la_var_table offset_size (sm_variable_count cls) buf of
                  Or_undef \<Rightarrow> None
                | Or_jump \<Rightarrow> Some (Cu_jump, w1)
                | Or_ok (vars, buf1) \<Rightarrow> la_get_columns te def cls bound_bit_flag vars buf1 w1)))"

definition la_disk_to_obj ::
    "('v, 'w) tmpl_env \<Rightarrow> 'v sm_class \<Rightarrow> la_recdes \<Rightarrow> nat \<Rightarrow> 'w \<Rightarrow> (errcode \<times> 'w) option" where
  "la_disk_to_obj te cls record def w =
     (let buf = or_init (rc_data record) (rc_length record)
      in if length (rc_data record) < 4 then None
         else
           (case or_get_int buf of
              Or_undef \<Rightarrow> None
            | Or_jump \<Rightarrow> Some (ER_GENERIC_ERROR, w)
            | Or_ok (repid_bits, buf1) \<Rightarrow>
                (case or_get_int buf1 of
                   Or_undef \<Rightarrow> None
                 | Or_jump \<Rightarrow> Some (ER_GENERIC_ERROR, w)
                 | Or_ok (chn, buf2) \<Rightarrow>
                     (case la_get_current te def cls (OR_BOUND_BIT_FLAG repid_bits)
                             (OR_GET_OFFSET_SIZE (OR_GET_INT (rc_data record))) buf2 w of
                        None \<Rightarrow> None
                      | Some (Cu_go _, w1) \<Rightarrow> Some (NO_ERROR, w1)
                      | Some (Cu_return err, w1) \<Rightarrow> Some (err, w1)
                      | Some (Cu_jump, w1) \<Rightarrow> Some (ER_GENERIC_ERROR, w1)))))"

text \<open>Here the buffer does not jump; a value that cannot be read is 0.\<close>

definition la_repid :: "la_recdes \<Rightarrow> int option" where
  "la_repid record =
     (case or_get_int (or_init (rc_data record) (rc_length record)) of
        Or_undef \<Rightarrow> None | Or_jump \<Rightarrow> Some 0 | Or_ok (bits, _) \<Rightarrow> Some (OR_GET_REPID bits))"

definition la_diff_representation_id :: "la_recdes \<Rightarrow> la_recdes \<Rightarrow> int option" where
  "la_diff_representation_id old_record record =
     (case (la_repid old_record, la_repid record) of (Some old_repid, Some repid) \<Rightarrow> Some (old_repid - repid) | _ \<Rightarrow> None)"

section \<open>What is read from a row\<close>

text \<open>Putting columns into a template, up to the first error.\<close>

fun put_all :: "('v, 'w) tmpl_env \<Rightarrow> nat \<Rightarrow> (byte list \<times> 'v) list \<Rightarrow> 'w \<Rightarrow> errcode \<times> 'w" where
  "put_all te def [] w = (NO_ERROR, w)"
| "put_all te def ((name, value) # cs) w =
     (case te_put te def name value w of (err, w1) \<Rightarrow> if err \<noteq> NO_ERROR then (err, w1) else put_all te def cs w1)"

text \<open>
  A column of a class with its value and its bytes in a row. A fixed column is
  read with its own size, a variable one with the number of its bytes.
\<close>

record 'v row_col =
  co_att :: "'v sm_attribute"
  co_value :: 'v
  co_bytes :: "byte list"

definition fixed_ok :: "bool \<Rightarrow> 'v row_col \<Rightarrow> bool" where
  "fixed_ok bound c \<longleftrightarrow> int (length (co_bytes c)) = at_disk_size (co_att c) \<and>
     (bound \<longrightarrow> (\<forall>rest. at_readval (co_att c) (co_bytes c @ rest) (-1) = Some (co_value c, at_disk_size (co_att c))))"

definition variable_ok :: "'v row_col \<Rightarrow> bool" where
  "variable_ok c \<longleftrightarrow> (\<forall>rest. \<exists>n. at_readval (co_att c) (co_bytes c @ rest) (int (length (co_bytes c))) = Some (co_value c, n))"

text \<open>The columns that a row puts: \<open>bound i\<close> is whether the fixed column \<open>i\<close> has a value.\<close>

fun fixed_cols :: "'v \<Rightarrow> (nat \<Rightarrow> bool) \<Rightarrow> nat \<Rightarrow> 'v row_col list \<Rightarrow> (byte list \<times> 'v) list" where
  "fixed_cols null bound i [] = []"
| "fixed_cols null bound i (c # cs) =
     (if at_is_fk_cache_attr (co_att c) then [] else [(at_name (co_att c), if bound i then co_value c else null)]) @
     fixed_cols null bound (Suc i) cs"

definition variable_cols :: "'v row_col list \<Rightarrow> (byte list \<times> 'v) list" where
  "variable_cols cs = map (\<lambda>c. (at_name (co_att c), co_value c)) cs"

definition put_out :: "or_buf \<Rightarrow> errcode \<times> 'w \<Rightarrow> (cur_out \<times> 'w) option" where
  "put_out buf r = (case r of (err, w) \<Rightarrow> Some (if err = NO_ERROR then Cu_go buf else Cu_return err, w))"

lemma put_all_append:
  "put_all te def (xs @ ys) w = (case put_all te def xs w of (err, w1) \<Rightarrow> if err \<noteq> NO_ERROR then (err, w1) else put_all te def ys w1)"
  by (induction te def xs w rule: put_all.induct) (auto split: prod.splits)

text \<open>A buffer at the bytes \<open>bs\<close> of a row.\<close>

definition at_bytes :: "or_buf \<Rightarrow> byte list \<Rightarrow> bool" where
  "at_bytes buf bs \<longleftrightarrow> (\<exists>pre. bf_data buf = pre @ bs \<and> bf_ptr buf = int (length pre)) \<and> (\<forall>e. bf_end buf = Some e \<longrightarrow> int (length (bf_data buf)) \<le> e)"

lemma at_bytes_move: "at_bytes buf (xs @ ys) \<Longrightarrow> at_bytes (buf\<lparr>bf_ptr := bf_ptr buf + int (length xs)\<rparr>) ys"
  unfolding at_bytes_def by (auto intro: exI [of _ "_ @ xs"])

lemma at_bytes_room: "at_bytes buf bs \<Longrightarrow> n \<le> int (length bs) \<Longrightarrow> \<not> or_past_end buf n"
  by (auto simp: at_bytes_def or_past_end_def split: option.splits)

lemma at_bytes_read: "at_bytes buf bs \<Longrightarrow> 0 \<le> bf_ptr buf \<and> drop (nat (bf_ptr buf)) (bf_data buf) = bs"
  by (auto simp: at_bytes_def)

lemma at_bytes_take: "at_bytes buf (xs @ ys) \<Longrightarrow> or_take (length xs) buf = Or_ok (xs, buf\<lparr>bf_ptr := bf_ptr buf + int (length xs)\<rparr>)"
proof -
  assume at: "at_bytes buf (xs @ ys)"
  then have "int (length (bf_data buf)) = bf_ptr buf + int (length (xs @ ys))" by (auto simp: at_bytes_def)
  then show ?thesis using at_bytes_room [OF at] at_bytes_read [OF at] by (simp add: or_take_def)
qed

lemma get_fixed_reads:
  assumes "at_bytes buf (concat (map co_bytes cs) @ rest)"
    and "\<forall>k < length cs. la_bound_bit (bf_data buf) bits (i + k) = Some (bound (i + k))"
    and "\<forall>k < length cs. fixed_ok (bound (i + k)) (cs ! k)"
  shows "la_get_fixed te def bits i (map co_att cs) buf w =
    put_out (buf\<lparr>bf_ptr := bf_ptr buf + int (length (concat (map co_bytes cs)))\<rparr>) (put_all te def (fixed_cols (te_null te) bound i cs) w)"
  using assms
proof (induction cs arbitrary: i buf w)
  case Nil
  then show ?case by (simp add: put_out_def)
next
  case (Cons c cs)
  let ?buf = "buf\<lparr>bf_ptr := bf_ptr buf + int (length (co_bytes c))\<rparr>"
  have at: "at_bytes buf (co_bytes c @ concat (map co_bytes cs) @ rest)" using Cons.prems(1) by simp
  have b0: "la_bound_bit (bf_data buf) bits i = Some (bound i)" using spec [OF Cons.prems(2), of 0] by simp
  have ok: "fixed_ok (bound i) c" using spec [OF Cons.prems(3), of 0] by simp
  have v: "la_fixed_value (te_null te) bits i (co_att c) buf = Or_ok (if bound i then co_value c else te_null te, ?buf)"
    using b0 ok at_bytes_read [OF at] at_bytes_room [OF at]
    by (auto simp: la_fixed_value_def fixed_ok_def or_readval_def or_advance_def split: bool.splits)
  have r: "la_get_fixed te def bits (Suc i) (map co_att cs) ?buf w' =
    put_out (?buf\<lparr>bf_ptr := bf_ptr ?buf + int (length (concat (map co_bytes cs)))\<rparr>) (put_all te def (fixed_cols (te_null te) bound (Suc i) cs) w')" for w'
  proof (rule Cons.IH)
    show "at_bytes ?buf (concat (map co_bytes cs) @ rest)" by (rule at_bytes_move [OF at])
    show "\<forall>k < length cs. la_bound_bit (bf_data ?buf) bits (Suc i + k) = Some (bound (Suc i + k))"
      using Cons.prems(2) by (auto dest: spec [of _ "Suc _"])
    show "\<forall>k < length cs. fixed_ok (bound (Suc i + k)) (cs ! k)" using Cons.prems(3) by (auto dest: spec [of _ "Suc _"])
  qed
  have u: "?buf\<lparr>bf_ptr := bf_ptr ?buf + int (length (concat (map co_bytes cs)))\<rparr> =
      buf\<lparr>bf_ptr := bf_ptr buf + int (length (concat (map co_bytes (c # cs))))\<rparr>" by simp
  show ?case
    unfolding u [symmetric] using v r by (auto simp: put_out_def put_all_append split: prod.splits)
qed

lemma get_variable_reads:
  assumes "at_bytes buf (concat (map co_bytes cs) @ rest)" and "\<forall>c \<in> set cs. variable_ok c"
  shows "la_get_variable te def (map (\<lambda>c. (co_att c, int (length (co_bytes c)))) cs) buf w =
    put_out (buf\<lparr>bf_ptr := bf_ptr buf + int (length (concat (map co_bytes cs)))\<rparr>) (put_all te def (variable_cols cs) w)"
  using assms
proof (induction cs arbitrary: buf w)
  case Nil
  then show ?case by (simp add: put_out_def variable_cols_def)
next
  case (Cons c cs)
  let ?buf = "buf\<lparr>bf_ptr := bf_ptr buf + int (length (co_bytes c))\<rparr>"
  have at: "at_bytes buf (co_bytes c @ concat (map co_bytes cs) @ rest)" using Cons.prems(1) by simp
  have "variable_ok c" using Cons.prems(2) by simp
  then obtain n where "at_readval (co_att c) (co_bytes c @ concat (map co_bytes cs) @ rest) (int (length (co_bytes c))) = Some (co_value c, n)"
    unfolding variable_ok_def by blast
  then obtain buf1 where v: "or_readval (co_att c) (int (length (co_bytes c))) buf = Or_ok (co_value c, buf1)"
    using at_bytes_read [OF at] by (simp add: or_readval_def)
  note r = Cons.IH [OF at_bytes_move [OF at]]
  have u: "?buf\<lparr>bf_ptr := bf_ptr ?buf + int (length (concat (map co_bytes cs)))\<rparr> =
      buf\<lparr>bf_ptr := bf_ptr buf + int (length (concat (map co_bytes (c # cs))))\<rparr>" by simp
  show ?case
    unfolding u [symmetric] using v r Cons.prems(2) by (auto simp: put_out_def variable_cols_def split: prod.splits)
qed

section \<open>Rows\<close>

text \<open>
  A row as it is stored: the word with the representation and the flags, a
  counter, the table of offsets of the variable columns, one more than there
  are columns, padded, the fixed columns, padded, the bound bits and the
  variable columns.
\<close>

fun offsets :: "int \<Rightarrow> byte list list \<Rightarrow> int list" where
  "offsets off [] = [off]"
| "offsets off (b # bs) = off # offsets (off + int (length b)) bs"

definition put_offset :: "nat \<Rightarrow> int \<Rightarrow> byte list" where
  "put_offset offset_size off = rev (wr_int offset_size off)"

definition offset_fits :: "nat \<Rightarrow> int \<Rightarrow> bool" where
  "offset_fits offset_size off \<longleftrightarrow> 0 \<le> off \<and> off < (if offset_size = OR_BYTE_SIZE then 2 ^ 8 else 2 ^ (8 * offset_size - 1))"

definition var_table :: "nat \<Rightarrow> int \<Rightarrow> byte list list \<Rightarrow> byte list" where
  "var_table offset_size off bs =
     (let t = concat (map (put_offset offset_size) (offsets off bs)) in t @ replicate (DB_ALIGN (8 + length t) 4 - (8 + length t)) 0)"

lemma length_put_offset [simp]: "length (put_offset k off) = k"
  by (simp add: put_offset_def)

lemma get_offset_reads:
  assumes "at_bytes buf (put_offset k off @ rest)" and "offset_fits k off" and "k = 1 \<or> k = 2 \<or> k = 4"
  shows "or_get_offset_internal k buf = Or_ok (off, buf\<lparr>bf_ptr := bf_ptr buf + int k\<rparr>)"
proof -
  have t: "or_take k buf = Or_ok (put_offset k off, buf\<lparr>bf_ptr := bf_ptr buf + int k\<rparr>)"
    using at_bytes_take [OF assms(1)] by simp
  have "rd_int k 0 (rev (put_offset k off)) = off" if "k \<noteq> 1"
  proof -
    have "- (2 ^ (8 * k - 1)) \<le> off" "off < 2 ^ (8 * k - 1)"
      using assms(2) that unfolding offset_fits_def by (auto intro: order_trans [of _ 0])
    then show ?thesis using rd_wr_int [of k off "[]" "[]"] assms(3) by (auto simp: put_offset_def)
  qed
  moreover have "int (le_nat (put_offset 1 off)) = off" if "k = 1"
  proof -
    have "put_offset 1 off = wr_int 1 off" by (simp add: put_offset_def wr_int_def)
    moreover have "le_nat (wr_int 1 off) = nat (off mod 256)" using le_nat_bytes [of 1 "nat (off mod 256)"] by (simp add: wr_int_def unsigned_of_def)
    ultimately show ?thesis using assms(2) that by (simp add: offset_fits_def)
  qed
  ultimately show ?thesis
    using t assms(3) by (auto simp: or_get_offset_internal_def or_get_byte_def or_get_short_def or_get_int_def or_get_def OR_GET_INT_def)
qed

lemma var_sizes_reads:
  assumes "at_bytes buf (concat (map (put_offset k) (tl (offsets off bs))) @ rest)" and "\<forall>x \<in> set (offsets off bs). offset_fits k x"
    and "k = 1 \<or> k = 2 \<or> k = 4"
  shows "la_var_sizes k (length bs) off buf = Or_ok (map (\<lambda>b. int (length b)) bs, buf\<lparr>bf_ptr := bf_ptr buf + int (k * length bs)\<rparr>)"
  using assms
proof (induction bs arbitrary: off buf)
  case Nil
  then show ?case by simp
next
  case (Cons b bs)
  let ?off = "off + int (length b)"
  have h: "\<exists>xs. offsets ?off bs = ?off # xs" by (cases bs) auto
  then have at: "at_bytes buf (put_offset k ?off @ concat (map (put_offset k) (tl (offsets ?off bs))) @ rest)"
    and f: "offset_fits k ?off" using Cons.prems(1,2) by auto
  note g = get_offset_reads [OF at f assms(3)]
  have "at_bytes (buf\<lparr>bf_ptr := bf_ptr buf + int k\<rparr>) (concat (map (put_offset k) (tl (offsets ?off bs))) @ rest)"
    using at_bytes_move [OF at] by simp
  from Cons.IH [OF this] Cons.prems(2) assms(3) g show ?case by (simp add: algebra_simps)
qed

definition row_bytes :: "int \<Rightarrow> int \<Rightarrow> int \<Rightarrow> 'v row_col list \<Rightarrow> byte list \<Rightarrow> byte list \<Rightarrow> 'v row_col list \<Rightarrow> byte list" where
  "row_bytes bits chn base fs pad bbs vs =
     OR_PUT_INT bits @ OR_PUT_INT chn @ (if vs = [] then [] else var_table (OR_GET_OFFSET_SIZE bits) base (map co_bytes vs)) @
     concat (map co_bytes fs) @ pad @ bbs @ concat (map co_bytes vs)"

definition row_class :: "nat \<Rightarrow> 'v row_col list \<Rightarrow> 'v row_col list \<Rightarrow> 'v sm_class" where
  "row_class fixed_size fs vs =
     \<lparr>sm_fixed_count = length fs, sm_variable_count = length vs, sm_att_count = length fs + length vs, sm_fixed_size = fixed_size,
      sm_attributes = map co_att (fs @ vs)\<rparr>"

definition has_value :: "int \<Rightarrow> byte list \<Rightarrow> nat \<Rightarrow> bool" where
  "has_value bits bbs i \<longleftrightarrow> \<not> OR_BOUND_BIT_FLAG bits \<or> bit (bbs ! (i div 8)) (i mod 8)"

lemma offset_size_cases: "OR_GET_OFFSET_SIZE bits = 1 \<or> OR_GET_OFFSET_SIZE bits = 2 \<or> OR_GET_OFFSET_SIZE bits = 4"
  by (simp add: OR_GET_OFFSET_SIZE_def Let_def)

lemma length_offsets [simp]: "length (offsets off bs) = Suc (length bs)"
  by (induction bs arbitrary: off) auto

lemma length_put_offsets [simp]: "length (concat (map (put_offset k) xs)) = k * length xs"
  by (induction xs) auto

lemma var_table_reads:
  assumes "at_bytes buf (var_table k off bs @ rest)" and "bf_ptr buf = 8" and "\<forall>x \<in> set (offsets off bs). offset_fits k x"
    and "k = 1 \<or> k = 2 \<or> k = 4"
  shows "la_var_table k (length bs) buf =
    Or_ok (map (\<lambda>b. int (length b)) bs, buf\<lparr>bf_ptr := bf_ptr buf + int (length (var_table k off bs))\<rparr>)"
proof -
  define p where "p = replicate (DB_ALIGN (8 + k * Suc (length bs)) 4 - (8 + k * Suc (length bs))) (0 :: byte)"
  have h: "offsets off bs = off # tl (offsets off bs)" by (cases bs) auto
  have vt: "var_table k off bs = put_offset k off @ concat (map (put_offset k) (tl (offsets off bs))) @ p"
    unfolding var_table_def Let_def length_put_offsets length_offsets p_def by (subst h) simp
  have at: "at_bytes buf (put_offset k off @ concat (map (put_offset k) (tl (offsets off bs))) @ p @ rest)" using assms(1) vt by simp
  have f: "offset_fits k off" using assms(3) h by (metis list.set_intros(1))
  have at1: "at_bytes (buf\<lparr>bf_ptr := bf_ptr buf + int k\<rparr>) (concat (map (put_offset k) (tl (offsets off bs))) @ p @ rest)"
    using at_bytes_move [OF at] by simp
  have l: "length (var_table k off bs) = DB_ALIGN (8 + k * Suc (length bs)) 4 - 8"
    using DB_ALIGN_bounds [of 4 "8 + k * Suc (length bs)"] by (simp add: var_table_def Let_def)
  have "8 \<le> DB_ALIGN (8 + k * Suc (length bs)) 4" using DB_ALIGN_bounds [of 4 "8 + k * Suc (length bs)"] by simp
  then show ?thesis
    using get_offset_reads [OF at f assms(4)] var_sizes_reads [OF at1 assms(3,4)] assms(2)
    by (simp add: la_var_table_def l nat_add_distrib nat_mult_distrib add.assoc)
qed

lemma has_value_bit:
  assumes "bf_data buf = pre @ bbs @ post" and "length bbs = OR_BOUND_BIT_BYTES n" and "k < n" and "OR_BOUND_BIT_FLAG bits"
  shows "la_bound_bit (bf_data buf) (Some (int (length pre))) k = Some (has_value bits bbs k)"
proof -
  have k: "k div 8 < length bbs" using assms(2,3) by (simp add: OR_BOUND_BIT_BYTES_def)
  then have "nat (int (length pre) + int (k div 8)) = length pre + k div 8" by simp
  then show ?thesis using assms(1,4) k by (auto simp: la_bound_bit_def OR_GET_BOUND_BIT_def Let_def has_value_def nth_append)
qed

text \<open>The columns of a row, from where the fixed ones begin.\<close>

lemma get_columns_reads:
  assumes "at_bytes buf (concat (map co_bytes fs) @ pad @ bbs @ concat (map co_bytes vs))"
    and "length (concat (map co_bytes fs)) + length pad = fixed_size"
    and "if OR_BOUND_BIT_FLAG bits then length bbs = OR_BOUND_BIT_BYTES (length fs) else bbs = []"
    and "\<forall>k < length fs. fixed_ok (has_value bits bbs k) (fs ! k)" and "\<forall>c \<in> set vs. variable_ok c"
  shows "\<exists>buf'. la_get_columns te def (row_class fixed_size fs vs) (OR_BOUND_BIT_FLAG bits) (map (\<lambda>c. int (length (co_bytes c))) vs) buf w =
    put_out buf' (put_all te def (fixed_cols (te_null te) (has_value bits bbs) 0 fs @ variable_cols vs) w)"
proof -
  let ?F = "concat (map co_bytes fs)" let ?V = "concat (map co_bytes vs)"
  define b where "b = (if OR_BOUND_BIT_FLAG bits then Some (bf_ptr buf + int fixed_size) else None)"
  obtain pre where pre: "bf_data buf = pre @ ?F @ pad @ bbs @ ?V" "bf_ptr buf = int (length pre)" using assms(1) by (auto simp: at_bytes_def)
  have "la_bound_bit (bf_data buf) b (0 + k) = Some (has_value bits bbs (0 + k))" if "k < length fs" for k
    using has_value_bit [of buf "pre @ ?F @ pad" bbs ?V "length fs" k bits] pre assms(2,3) that
    by (cases "OR_BOUND_BIT_FLAG bits") (simp_all add: b_def add.assoc, simp add: la_bound_bit_def has_value_def)
  then have fx: "la_get_fixed te def b 0 (map co_att fs) buf w =
      put_out (buf\<lparr>bf_ptr := bf_ptr buf + int (length ?F)\<rparr>) (put_all te def (fixed_cols (te_null te) (has_value bits bbs) 0 fs) w)"
    using get_fixed_reads [OF assms(1), where i = 0 and bits = b and bound = "has_value bits bbs"] assms(4) by simp
  define buf1 where "buf1 = buf\<lparr>bf_ptr := bf_ptr buf + int (length ?F)\<rparr>"
  define buf2 where "buf2 = buf\<lparr>bf_ptr := bf_ptr buf + int (length (?F @ pad @ bbs))\<rparr>"
  have en: "bf_ptr buf + int (length (?F @ pad @ bbs @ ?V)) \<le> e" if "bf_end buf = Some e" for e using assms(1) that by (auto simp: at_bytes_def)
  have at3: "at_bytes buf2 (?V @ [])" using at_bytes_move [of buf "?F @ pad @ bbs" ?V] assms(1) unfolding buf2_def by simp
  have sk: "la_skip_fixed (OR_BOUND_BIT_FLAG bits) (row_class fixed_size fs vs) (bf_ptr buf) buf1 = Or_ok buf2"
    using en assms(2,3)
    by (auto simp: la_skip_fixed_def row_class_def or_advance_def buf1_def buf2_def or_past_end_def Let_def split: option.splits)
  have z: "zip (map co_att vs) (map (\<lambda>c. int (length (co_bytes c))) vs) = map (\<lambda>c. (co_att c, int (length (co_bytes c)))) vs"
    by (simp add: zip_map_map zip_same_conv_map)
  have "la_get_columns te def (row_class fixed_size fs vs) (OR_BOUND_BIT_FLAG bits) (map (\<lambda>c. int (length (co_bytes c))) vs) buf w =
      (case put_all te def (fixed_cols (te_null te) (has_value bits bbs) 0 fs) w of
         (err, w1) \<Rightarrow> if err = NO_ERROR then la_get_variable te def (map (\<lambda>c. (co_att c, int (length (co_bytes c)))) vs) buf2 w1 else Some (Cu_return err, w1))"
    using fx sk z unfolding b_def buf1_def [symmetric] by (auto simp: la_get_columns_def row_class_def put_out_def Let_def split: prod.splits)
  then show ?thesis
    using get_variable_reads [OF at3 assms(5), of te def] by (auto simp: put_out_def put_all_append split: prod.splits)
qed

text \<open>The parts of a row fit together.\<close>

definition row_ok :: "nat \<Rightarrow> int \<Rightarrow> int \<Rightarrow> 'v row_col list \<Rightarrow> byte list \<Rightarrow> byte list \<Rightarrow> 'v row_col list \<Rightarrow> bool" where
  "row_ok fixed_size bits base fs pad bbs vs \<longleftrightarrow>
     length (concat (map co_bytes fs)) + length pad = fixed_size \<and>
     (if OR_BOUND_BIT_FLAG bits then length bbs = OR_BOUND_BIT_BYTES (length fs) else bbs = []) \<and>
     (\<forall>k < length fs. fixed_ok (has_value bits bbs k) (fs ! k)) \<and> (\<forall>c \<in> set vs. variable_ok c) \<and>
     (\<forall>x \<in> set (offsets base (map co_bytes vs)). offset_fits (OR_GET_OFFSET_SIZE bits) x) \<and> - (2 ^ 31) \<le> bits \<and> bits < 2 ^ 31"

text \<open>Its columns: the fixed ones, with a null value where the bound bit is not set, and the variable ones.\<close>

definition row_columns :: "'v \<Rightarrow> int \<Rightarrow> 'v row_col list \<Rightarrow> byte list \<Rightarrow> 'v row_col list \<Rightarrow> (byte list \<times> 'v) list" where
  "row_columns null bits fs bbs vs = fixed_cols null (has_value bits bbs) 0 fs @ variable_cols vs"

lemma disk_to_obj_columns:
  assumes "data = row_bytes bits chn base fs pad bbs vs" and ok: "row_ok fixed_size bits base fs pad bbs vs"
    and "int (length data) \<le> len" and "len < DB_INT32_MAX" and "\<forall>w. te_mem te w = (True, w)"
  shows "la_disk_to_obj te (row_class fixed_size fs vs) \<lparr>rc_type = ty, rc_data = data, rc_length = len\<rparr> def w =
    Some (put_all te def (row_columns (te_null te) bits fs bbs vs) w)"
proof -
  note r = ok [unfolded row_ok_def]
  have c1: "length (concat (map co_bytes fs)) + length pad = fixed_size"
    and c2: "if OR_BOUND_BIT_FLAG bits then length bbs = OR_BOUND_BIT_BYTES (length fs) else bbs = []"
    and c3: "\<forall>k < length fs. fixed_ok (has_value bits bbs k) (fs ! k)" and c4: "\<forall>c \<in> set vs. variable_ok c"
    and c5: "\<forall>x \<in> set (offsets base (map co_bytes vs)). offset_fits (OR_GET_OFFSET_SIZE bits) x"
    and c6: "- (2 ^ 31) \<le> bits" "bits < 2 ^ 31" using r by blast+
  let ?k = "OR_GET_OFFSET_SIZE bits" let ?C = "concat (map co_bytes fs) @ pad @ bbs @ concat (map co_bytes vs)"
  let ?T = "if vs = [] then [] else var_table ?k base (map co_bytes vs)"
  define buf where "buf = or_init data len"
  have d: "data = OR_PUT_INT bits @ OR_PUT_INT chn @ ?T @ ?C" using assms(1) by (simp add: row_bytes_def)
  have len: "8 \<le> length data" by (subst d) simp
  have at: "at_bytes buf (OR_PUT_INT bits @ OR_PUT_INT chn @ ?T @ ?C)" "bf_ptr buf = 0"
    using len assms(3,4) d by (auto simp: buf_def or_init_def at_bytes_def)
  define buf2 where "buf2 = buf\<lparr>bf_ptr := 8\<rparr>"
  have i1: "or_get_int buf = Or_ok (bits, buf\<lparr>bf_ptr := 4\<rparr>)"
    using at_bytes_take [OF at(1)] at(2) OR_GET_PUT_INT [OF c6, of "[]"] by (simp add: or_get_int_def or_get_def)
  have at1: "at_bytes (buf\<lparr>bf_ptr := 4\<rparr>) (OR_PUT_INT chn @ ?T @ ?C)" using at_bytes_move [OF at(1)] at(2) by simp
  have i2: "\<exists>x. or_get_int (buf\<lparr>bf_ptr := 4\<rparr>) = Or_ok (x, buf2)"
    using at_bytes_take [OF at1] by (simp add: or_get_int_def or_get_def buf2_def)
  have at2: "at_bytes buf2 (?T @ ?C)" using at_bytes_move [OF at1] by (simp add: buf2_def)
  have o: "OR_GET_INT data = bits" by (subst d) (rule OR_GET_PUT_INT [OF c6])
  have "\<exists>buf'. la_get_current te def (row_class fixed_size fs vs) (OR_BOUND_BIT_FLAG bits) ?k buf2 w =
      put_out buf' (put_all te def (row_columns (te_null te) bits fs bbs vs) w)"
  proof (cases "vs = []")
    case True
    then show ?thesis
      using get_columns_reads [of buf2 fs pad bbs "[]", OF _ c1 c2 c3] at2 by (simp add: la_get_current_def row_class_def row_columns_def)
  next
    case False
    let ?vt = "var_table ?k base (map co_bytes vs)"
    have at3: "at_bytes buf2 (?vt @ ?C)" using at2 False by simp
    have "la_var_table ?k (length (map co_bytes vs)) buf2 =
        Or_ok (map (\<lambda>b. int (length b)) (map co_bytes vs), buf2\<lparr>bf_ptr := bf_ptr buf2 + int (length ?vt)\<rparr>)"
      by (rule var_table_reads [OF at3 _ c5 offset_size_cases]) (simp add: buf2_def)
    then show ?thesis
      using get_columns_reads [OF at_bytes_move [OF at3] c1 c2 c3 c4, of te def w] assms(5) False
      by (simp add: la_get_current_def row_class_def row_columns_def comp_def)
  qed
  then obtain buf' where "la_get_current te def (row_class fixed_size fs vs) (OR_BOUND_BIT_FLAG bits) ?k buf2 w =
      put_out buf' (put_all te def (row_columns (te_null te) bits fs bbs vs) w)" by blast
  then show ?thesis
    using i1 i2 len o by (auto simp: la_disk_to_obj_def Let_def buf_def [symmetric] put_out_def split: prod.splits)
qed

section \<open>A row of two columns\<close>

definition ex_att :: "byte list \<Rightarrow> byte list sm_attribute" where
  "ex_att name = \<lparr>at_name = name, at_disk_size = 4, at_is_fk_cache_attr = False,
     at_readval = \<lambda>bs n. Some (if n < 0 then (take 4 bs, 4) else (take (nat n) bs, n))\<rparr>"

definition ex_fixed :: "byte list row_col" where
  "ex_fixed = \<lparr>co_att = ex_att [97], co_value = [0, 0, 0, 7], co_bytes = [0, 0, 0, 7]\<rparr>"

definition ex_variable :: "byte list row_col" where
  "ex_variable = \<lparr>co_att = ex_att [98], co_value = [65, 66, 67], co_bytes = [65, 66, 67]\<rparr>"

definition ex_bits :: int where
  "ex_bits = 0x20000001"

definition ex_row_data :: "byte list" where
  "ex_row_data = row_bytes ex_bits 0 16 [ex_fixed] [] [] [ex_variable]"

definition ex_columns :: "(byte list \<times> byte list) list" where
  "ex_columns = [([97], [0, 0, 0, 7]), ([98], [65, 66, 67])]"

lemma ex_row_ok: "row_ok 4 ex_bits 16 [ex_fixed] [] [] [ex_variable]"
  by (simp add: row_ok_def ex_fixed_def ex_variable_def ex_att_def ex_bits_def OR_BOUND_BIT_FLAG_def fixed_ok_def variable_ok_def
      OR_GET_OFFSET_SIZE_def offset_fits_def Let_def)

lemma ex_row_columns: "row_columns null ex_bits [ex_fixed] [] [ex_variable] = ex_columns"
  by (simp add: row_columns_def variable_cols_def has_value_def ex_columns_def ex_fixed_def ex_variable_def ex_att_def ex_bits_def
      OR_BOUND_BIT_FLAG_def)

lemma ex_row_length: "length ex_row_data = 19"
  by (simp add: ex_row_data_def row_bytes_def var_table_def ex_fixed_def ex_variable_def ex_bits_def OR_GET_OFFSET_SIZE_def DB_ALIGN_def
      put_offset_def Let_def)

text \<open>A slave whose world is the list of the columns it was given.\<close>

type_synonym ex_world = "(byte list \<times> byte list) list"

definition ex_tmpl :: "(byte list, ex_world) tmpl_env" where
  "ex_tmpl = \<lparr>te_null = [], te_mem = \<lambda>w. (True, w), te_put = \<lambda>tp name v w. (NO_ERROR, w @ [(name, v)])\<rparr>"

section \<open>The property\<close>

text \<open>
  C11. The columns of a row reach the template. A row of a class (its header,
  the table of offsets where the class has variable columns, the fixed columns,
  the bound bits and the variable columns, with any width of the offsets) is
  read into exactly the columns it was made of: each column of the class gets
  its value under its own name in the order of the class, null where the bound
  bit of a fixed column is not set or a variable column has no bytes, up to the
  first one the template refuses, whose error is the result. The length that
  comes with the row may be larger than its data.
\<close>

theorem row_columns_reach_template:
  assumes "data = row_bytes bits chn base fs pad bbs vs" and "row_ok fixed_size bits base fs pad bbs vs"
    and "int (length data) \<le> len" and "len < DB_INT32_MAX" and "\<forall>w. te_mem te w = (True, w)"
  shows "la_disk_to_obj te (row_class fixed_size fs vs) \<lparr>rc_type = ty, rc_data = data, rc_length = len\<rparr> def w =
    Some (put_all te def (row_columns (te_null te) bits fs bbs vs) w)"
  by (rule disk_to_obj_columns [OF assms])

lemma row_columns_reach_template_witness:
  "la_disk_to_obj ex_tmpl (row_class 4 [ex_fixed] [ex_variable]) \<lparr>rc_type = 2, rc_data = ex_row_data, rc_length = 19\<rparr> 5 [] = Some (NO_ERROR, ex_columns)"
  using row_columns_reach_template [OF ex_row_data_def ex_row_ok, of 19 ex_tmpl 2 5 "[]"]
  by (simp add: ex_row_length ex_row_columns ex_columns_def ex_tmpl_def)

end
