(* ===== verification/La_Slave.thy ===== *)
theory La_Slave
  imports La_Object
begin

text \<open>
  Applying one item to the slave database (\<^verbatim>\<open>transaction/log_applier.c\<close>,
  \<^verbatim>\<open>la_apply_insert_log\<close>, \<^verbatim>\<open>la_apply_update_log\<close>,
  \<^verbatim>\<open>la_apply_update_log_server_side\<close>, \<^verbatim>\<open>la_apply_delete_log\<close>,
  \<^verbatim>\<open>la_apply_schema_log\<close> and \<^verbatim>\<open>la_flush_unflushed_insert\<close>): the row of the item
  is read from the log, the object layer of the client makes the change, and
  counters and the plug-in are served.

  The object layer, the plug-in and the SQL log are functions on the world.
  \<open>None\<close> is a call that does not return or has no defined behaviour. Messages
  and the stack of errors have no effect here.
\<close>

section \<open>State and object layer\<close>

abbreviation (input) ER_PLUGIN_JVM_WARNING_EXCEPTION :: errcode where "ER_PLUGIN_JVM_WARNING_EXCEPTION \<equiv> -1166"
abbreviation (input) DB_MAX_IDENTIFIER_LENGTH :: nat where "DB_MAX_IDENTIFIER_LENGTH \<equiv> 255"

text \<open>
  \<open>sv_last_class\<close> is the static \<^verbatim>\<open>last_inserted_class_name\<close>, \<open>sv_au_disable\<close> the
  flag \<^verbatim>\<open>Au_disable\<close> that switches authorization off, \<open>sv_zips\<close> the two areas for
  uncompressed data.
\<close>

record la_plugin_info =
  pl_sent_lsa :: log_lsa
  pl_insert_cnt :: int
  pl_update_cnt :: int
  pl_delete_cnt :: int
  pl_ddl_cnt :: int
  pl_fatal_cnt :: int
  pl_warning_cnt :: int

record la_slave =
  sv_num_unflushed_insert :: int
  sv_insert_counter :: int
  sv_update_counter :: int
  sv_delete_counter :: int
  sv_schema_counter :: int
  sv_fail_counter :: int
  sv_last_class :: "byte list"
  sv_au_disable :: int
  sv_enable_JVM :: bool
  sv_plugin :: la_plugin_info
  sv_zips :: "LOG_ZIP \<times> LOG_ZIP"

type_synonym 'w slv = "la_slave \<times> 'w la_src"

text \<open>What is configured: the plug-in with the messages it takes, whether changes are applied, and the SQL log.\<close>

record la_slave_conf =
  sc_master :: bool
  sc_msg_insert :: bool
  sc_msg_update :: bool
  sc_msg_delete :: bool
  sc_apply_log :: bool
  sc_sql_logging :: bool

text \<open>
  The object layer. Classes, objects, templates and users are handles. The
  errors of a partly failed flush are taken one by one: error, class and object.
\<close>

record ('v, 'w) obj_env =
  oe_tmpl :: "('v, 'w) tmpl_env"
  oe_errid :: "'w \<Rightarrow> errcode"
  oe_find_class :: "byte list \<Rightarrow> 'w \<Rightarrow> nat option \<times> 'w"
  oe_fetch_class :: "nat \<Rightarrow> 'w \<Rightarrow> 'v sm_class option \<times> 'w"
  oe_flush_class :: "nat \<Rightarrow> 'w \<Rightarrow> errcode \<times> 'w"
  oe_flush_all :: "'w \<Rightarrow> errcode \<times> 'w"
  oe_next_error :: "'w \<Rightarrow> (errcode \<times> nat \<times> nat) option \<times> 'w"
  oe_class_mop :: "nat \<Rightarrow> 'w \<Rightarrow> nat option \<times> 'w"
  oe_mop :: "nat \<Rightarrow> nat option \<Rightarrow> 'w \<Rightarrow> nat option \<times> 'w"
  oe_clear_errors :: "'w \<Rightarrow> 'w"
  oe_decache :: "nat \<Rightarrow> 'w \<Rightarrow> 'w"
  oe_release :: "nat \<Rightarrow> 'w \<Rightarrow> 'w"
  oe_delete :: "nat \<Rightarrow> 'v option \<Rightarrow> 'w \<Rightarrow> errcode \<times> 'w"
  oe_update :: "nat \<Rightarrow> 'v option \<Rightarrow> la_recdes \<Rightarrow> 'w \<Rightarrow> errcode \<times> 'w"
  oe_find_object :: "nat \<Rightarrow> 'v option \<Rightarrow> 'w \<Rightarrow> nat option \<times> 'w"
  oe_create_object :: "nat \<Rightarrow> 'w \<Rightarrow> nat option \<times> 'w"
  oe_edit_object :: "nat \<Rightarrow> 'w \<Rightarrow> nat option \<times> 'w"
  oe_set_bulk_flush :: "nat \<Rightarrow> 'w \<Rightarrow> 'w"
  oe_finish_object :: "nat \<Rightarrow> 'w \<Rightarrow> nat option \<times> 'w"
  oe_abort_object :: "nat \<Rightarrow> 'w \<Rightarrow> 'w"
  oe_tmpl_object :: "nat \<Rightarrow> 'w \<Rightarrow> nat option"
  oe_sql_insert :: "nat \<Rightarrow> 'v option \<Rightarrow> 'w \<Rightarrow> 'w"
  oe_sql_update :: "nat option \<Rightarrow> 'v option \<Rightarrow> 'w \<Rightarrow> 'w"
  oe_sql_delete :: "byte list \<Rightarrow> 'v option \<Rightarrow> 'w \<Rightarrow> 'w"
  oe_sql_schema :: "'v la_item \<Rightarrow> 'w \<Rightarrow> 'w"
  oe_plugin_start :: "'w \<Rightarrow> errcode \<times> 'w"
  oe_plugin_insert :: "nat \<Rightarrow> log_lsa \<Rightarrow> 'w \<Rightarrow> errcode \<times> 'w"
  oe_plugin_update :: "nat option \<Rightarrow> nat option \<Rightarrow> 'v option \<Rightarrow> log_lsa \<Rightarrow> 'w \<Rightarrow> errcode \<times> 'w"
  oe_plugin_update_with_apply_log :: "nat option \<Rightarrow> nat option \<Rightarrow> 'v option \<Rightarrow> log_lsa \<Rightarrow> 'w \<Rightarrow> errcode \<times> 'w"
  oe_plugin_delete :: "byte list \<Rightarrow> 'v option \<Rightarrow> log_lsa \<Rightarrow> 'w \<Rightarrow> errcode \<times> 'w"
  oe_plugin_ddl :: "byte list option \<Rightarrow> byte list option \<Rightarrow> 'w \<Rightarrow> errcode \<times> 'w"
  oe_get_string :: "'v option \<Rightarrow> byte list option"
  oe_find_user :: "byte list \<Rightarrow> 'w \<Rightarrow> nat option \<times> 'w"
  oe_user :: "'w \<Rightarrow> nat option"
  oe_set_user :: "nat \<Rightarrow> 'w \<Rightarrow> errcode \<times> 'w"
  oe_set_parameters :: "byte list \<Rightarrow> 'w \<Rightarrow> 'w"
  oe_reset_parameters :: "byte list \<Rightarrow> 'w \<Rightarrow> 'w"
  oe_execute :: "byte list option \<Rightarrow> 'w \<Rightarrow> errcode \<times> 'w"
  oe_query_end :: "'w \<Rightarrow> errcode \<times> 'w"

text \<open>Calls of the object layer from the state of the applier.\<close>

definition call :: "('w \<Rightarrow> 'a \<times> 'w) \<Rightarrow> 'w slv \<Rightarrow> 'a \<times> 'w slv" where
  "call f st = (case st of (sv, pb, vols, w) \<Rightarrow> (case f w of (x, w1) \<Rightarrow> (x, sv, pb, vols, w1)))"

definition effect :: "('w \<Rightarrow> 'w) \<Rightarrow> 'w slv \<Rightarrow> 'w slv" where
  "effect f st = (case st of (sv, pb, vols, w) \<Rightarrow> (sv, pb, vols, f w))"

definition errid :: "('v, 'w) obj_env \<Rightarrow> 'w slv \<Rightarrow> errcode" where
  "errid oe st = (case st of (sv, pb, vols, w) \<Rightarrow> oe_errid oe w)"

definition on_sv :: "(la_slave \<Rightarrow> la_slave) \<Rightarrow> 'w slv \<Rightarrow> 'w slv" where
  "on_sv f st = (case st of (sv, src) \<Rightarrow> (f sv, src))"

definition fail_count :: "'w slv \<Rightarrow> 'w slv" where
  "fail_count = on_sv (\<lambda>sv. sv\<lparr>sv_fail_counter := sv_fail_counter sv + 1\<rparr>)"

definition slv_shutdown :: "'w slv \<Rightarrow> 'w slv" where
  "slv_shutdown st = (case st of (sv, pb, vols, w) \<Rightarrow> (sv, pb, vols\<lparr>need_shutdown := True\<rparr>, w))"

definition release_page :: "log_pageid \<Rightarrow> 'w slv \<Rightarrow> 'w slv" where
  "release_page pageid st = (case st of (sv, src) \<Rightarrow> (sv, src_release pageid src))"

definition AU_SAVE_AND_DISABLE :: "'w slv \<Rightarrow> int \<times> 'w slv" where
  "AU_SAVE_AND_DISABLE st = (sv_au_disable (fst st), on_sv (\<lambda>sv. sv\<lparr>sv_au_disable := 1\<rparr>) st)"

definition AU_RESTORE :: "int \<Rightarrow> 'w slv \<Rightarrow> 'w slv" where
  "AU_RESTORE save = on_sv (\<lambda>sv. sv\<lparr>sv_au_disable := save\<rparr>)"

text \<open>A lost connection has one error code.\<close>

definition connect_error :: "errcode \<Rightarrow> errcode" where
  "connect_error err = (if err = ER_NET_CANT_CONNECT_SERVER \<or> err = ER_OBJ_NO_CONNECT then ER_NET_CANT_CONNECT_SERVER else err)"

definition item_class :: "'v la_item \<Rightarrow> byte list option" where
  "item_class item = map_option c_string (it_class_name item)"

section \<open>Flushing insertions\<close>

text \<open>The errors of a flush that failed in part; \<open>True\<close>: the applier has to start again.\<close>

partial_function (option) la_flush_errors ::
    "la_config \<Rightarrow> ('v, 'w) obj_env \<Rightarrow> nat option \<Rightarrow> 'w slv \<Rightarrow> (bool \<times> 'w slv) option" where
  "la_flush_errors cf oe class_mop st =
     (case call (oe_next_error oe) st of
        (None, st1) \<Rightarrow> Some (False, st1)
      | (Some (err, class_oid, oid), st1) \<Rightarrow>
          (case (case class_mop of None \<Rightarrow> call (oe_class_mop oe class_oid) st1 | Some m \<Rightarrow> (Some m, st1)) of
             (cm, st2) \<Rightarrow>
               (case call (oe_mop oe oid cm) st2 of
                  (None, st3) \<Rightarrow> Some (False, st3)
                | (Some mop, st3) \<Rightarrow>
                    let st4 = fail_count (effect (oe_decache oe mop) st3)
                    in if la_restart_on_bulk_flush_error cf err then Some (True, slv_shutdown st4)
                       else la_flush_errors cf oe cm st4)))"

definition la_flush_unflushed_insert ::
    "la_config \<Rightarrow> ('v, 'w) obj_env \<Rightarrow> nat option \<Rightarrow> 'w slv \<Rightarrow> (errcode \<times> 'w slv) option" where
  "la_flush_unflushed_insert cf oe class_mop st =
     (if \<not> 0 < sv_num_unflushed_insert (fst st) then Some (NO_ERROR, st)
      else
        (case call (case class_mop of None \<Rightarrow> oe_flush_all oe | Some m \<Rightarrow> oe_flush_class oe m) st of
           (err, st1) \<Rightarrow>
             if err = ER_LC_PARTIALLY_FAILED_TO_FLUSH then
               (case la_flush_errors cf oe class_mop st1 of
                  None \<Rightarrow> None
                | Some (True, st2) \<Rightarrow> Some (ER_LC_PARTIALLY_FAILED_TO_FLUSH, effect (oe_clear_errors oe) st2)
                | Some (False, st2) \<Rightarrow>
                    Some (NO_ERROR, on_sv (\<lambda>sv. sv\<lparr>sv_num_unflushed_insert := 0\<rparr>) (effect (oe_clear_errors oe) st2)))
             else if err \<noteq> NO_ERROR then Some (err, effect (oe_clear_errors oe) (fail_count st1))
             else Some (NO_ERROR, on_sv (\<lambda>sv. sv\<lparr>sv_num_unflushed_insert := 0\<rparr>) st1)))"

section \<open>The plug-in\<close>

definition la_plugin_up :: "('v, 'w) obj_env \<Rightarrow> 'w slv \<Rightarrow> bool \<times> 'w slv" where
  "la_plugin_up oe st =
     (if sv_enable_JVM (fst st) then (True, st)
      else case call (oe_plugin_start oe) st of
             (err, st1) \<Rightarrow> if err \<noteq> NO_ERROR then (False, st1) else (True, on_sv (\<lambda>sv. sv\<lparr>sv_enable_JVM := True\<rparr>) st1))"

text \<open>What follows a call of the plug-in: the address it was sent, and the counters.\<close>

definition la_plugin_count ::
    "(la_plugin_info \<Rightarrow> la_plugin_info) \<Rightarrow> log_lsa \<Rightarrow> errcode \<times> 'w slv \<Rightarrow> errcode \<times> 'w slv" where
  "la_plugin_count cnt lsa r =
     (case r of (err, st) \<Rightarrow>
        (if err = ER_PLUGIN_JVM_WARNING_EXCEPTION then NO_ERROR else err,
         on_sv (\<lambda>sv. sv\<lparr>sv_plugin :=
             (let p = (sv_plugin sv)\<lparr>pl_sent_lsa := lsa\<rparr>
              in if err = NO_ERROR then cnt p
                 else if err = ER_PLUGIN_JVM_FATAL_EXCEPTION then p\<lparr>pl_fatal_cnt := pl_fatal_cnt p + 1\<rparr>
                 else if err = ER_PLUGIN_JVM_WARNING_EXCEPTION then p\<lparr>pl_warning_cnt := pl_warning_cnt p + 1\<rparr>
                 else p)\<rparr>) st))"

section \<open>Deletions\<close>

definition la_delete_object ::
    "la_slave_conf \<Rightarrow> ('v, 'w) obj_env \<Rightarrow> byte list \<Rightarrow> 'v la_item \<Rightarrow> 'w slv \<Rightarrow> errcode \<times> 'w slv" where
  "la_delete_object sc oe cn item st =
     (case call (oe_find_class oe cn) st of
        (None, st1) \<Rightarrow> (errid oe st1, st1)
      | (Some c, st1) \<Rightarrow>
          (case call (oe_fetch_class oe c) st1 of
             (mclass, st2) \<Rightarrow>
               let st3 = (if sc_sql_logging sc then effect (oe_sql_delete oe cn (it_key item)) st2 else st2)
               in if sc_apply_log sc then
                    (case call (oe_delete oe c (it_key item)) st3 of
                       (err, st4) \<Rightarrow>
                         (err, if err = NO_ERROR then on_sv (\<lambda>sv. sv\<lparr>sv_delete_counter := sv_delete_counter sv + 1\<rparr>) st4 else st4))
                  else (NO_ERROR, st3)))"

definition la_apply_delete_log ::
    "la_config \<Rightarrow> la_slave_conf \<Rightarrow> ('v, 'w) obj_env \<Rightarrow> 'v la_item \<Rightarrow> 'w slv \<Rightarrow> (errcode \<times> 'w slv) option" where
  "la_apply_delete_log cf sc oe item st =
     (case la_flush_unflushed_insert cf oe None st of
        None \<Rightarrow> None
      | Some (err0, st0) \<Rightarrow>
          if err0 \<noteq> NO_ERROR then Some (err0, st0)
          else
            (case item_class item of
               None \<Rightarrow> None
             | Some cn \<Rightarrow>
                 Some (case la_delete_object sc oe cn item st0 of
                         (err, st1) \<Rightarrow>
                           if err \<noteq> NO_ERROR then (err, fail_count st1)
                           else if \<not> (cf_enable_plugin cf \<and> sc_master sc \<and> sc_msg_delete sc) then (NO_ERROR, st1)
                           else
                             (case la_plugin_up oe st1 of
                                (ok, st2) \<Rightarrow>
                                  if \<not> ok then (ER_PLUGIN_JVM_FATAL_EXCEPTION, st2)
                                  else la_plugin_count (\<lambda>p. p\<lparr>pl_delete_cnt := pl_delete_cnt p + 1\<rparr>) (it_lsa item)
                                         (call (oe_plugin_delete oe cn (it_key item) (it_lsa item)) st2)))))"

section \<open>The row of an item\<close>

text \<open>
  The page and the row: an error before there is a page, or the page, the row and
  what it takes to go on.
\<close>

definition la_item_row ::
    "'w la_io \<Rightarrow> la_config \<Rightarrow> lzo \<Rightarrow> bool \<Rightarrow> 'v la_item \<Rightarrow> 'w slv \<Rightarrow> (la_row option \<times> 'w slv) option" where
  "la_item_row io cf lz want_old item st =
     (case st of (sv, src) \<Rightarrow>
        case la_page_src io (cf_cache cf) (lsa_pageid (it_target_lsa item)) src of
          None \<Rightarrow> None
        | Some (None, src1) \<Rightarrow> Some (None, sv, src1)
        | Some (Some pg, src1) \<Rightarrow>
            (case la_get_recdes (la_page_src io (cf_cache cf)) src_release (cf_area cf) (src_alloc io) lz want_old
                    (it_target_lsa item) pg (sv_zips sv) src1 of
               None \<Rightarrow> None
             | Some (row, zs, src2) \<Rightarrow> Some (Some row, sv\<lparr>sv_zips := zs\<rparr>, src2)))"

text \<open>
  The end of a function that failed: the object is taken out of the cache, the
  templates are given back.
\<close>

definition abort_all :: "('v, 'w) obj_env \<Rightarrow> nat option list \<Rightarrow> 'w slv \<Rightarrow> 'w slv" where
  "abort_all oe ts st = fold (\<lambda>t st. case t of None \<Rightarrow> st | Some tp \<Rightarrow> effect (oe_abort_object oe tp) st) ts st"

definition la_error_rtn ::
    "('v, 'w) obj_env \<Rightarrow> log_pageid \<Rightarrow> nat option \<Rightarrow> nat option list \<Rightarrow> errcode \<Rightarrow> 'w slv \<Rightarrow> errcode \<times> 'w slv" where
  "la_error_rtn oe pageid obj ts err st =
     (let err1 = (if err = NO_ERROR then errid oe st else err);
          st1 = fail_count st;
          st2 = (case obj of None \<Rightarrow> st1 | Some ob \<Rightarrow> effect (oe_decache oe ob) (effect (oe_release oe ob) st1))
      in (connect_error err1, release_page pageid (abort_all oe ts st2)))"

section \<open>Insertions\<close>

text \<open>Another class than that of the insertion before: what is not flushed yet is.\<close>

definition la_insert_class ::
    "la_config \<Rightarrow> ('v, 'w) obj_env \<Rightarrow> byte list \<Rightarrow> 'w slv \<Rightarrow> (errcode \<times> 'w slv) option" where
  "la_insert_class cf oe cn st =
     (let last_class = sv_last_class (fst st); note_class = on_sv (\<lambda>sv. sv\<lparr>sv_last_class := take (DB_MAX_IDENTIFIER_LENGTH - 1) cn\<rparr>)
      in if last_class = cn then Some (NO_ERROR, st)
         else if last_class = [] then Some (NO_ERROR, note_class st)
         else
           (case call (oe_find_class oe last_class) st of
              (c, st1) \<Rightarrow>
                (case la_flush_unflushed_insert cf oe c st1 of
                   None \<Rightarrow> None
                 | Some (err, st2) \<Rightarrow> Some (err, if err \<noteq> NO_ERROR then st2 else note_class st2))))"

text \<open>The plug-in, applying the template, and the end; \<open>au\<close> is the saved flag.\<close>

definition la_insert_finish ::
    "la_config \<Rightarrow> la_slave_conf \<Rightarrow> ('v, 'w) obj_env \<Rightarrow> 'v la_item \<Rightarrow> int \<Rightarrow> nat \<Rightarrow> errcode \<times> 'w slv \<Rightarrow> errcode \<times> 'w slv" where
  "la_insert_finish cf sc oe item au tp r =
     (case r of (err, st) \<Rightarrow>
        let pageid = lsa_pageid (it_target_lsa item)
        in if \<not> sc_apply_log sc then (err, release_page pageid (abort_all oe [Some tp] (AU_RESTORE au st)))
           else
             (case call (oe_finish_object oe tp) (effect (oe_set_bulk_flush oe tp) st) of
                (None, st1) \<Rightarrow> la_error_rtn oe pageid None [Some tp] err (AU_RESTORE au st1)
              | (Some ob, st1) \<Rightarrow>
                  let st2 = on_sv (\<lambda>sv. sv\<lparr>sv_num_unflushed_insert := sv_num_unflushed_insert sv + 1,
                                            sv_insert_counter := sv_insert_counter sv + 1\<rparr>) st1
                  in (err, release_page pageid (effect (oe_release oe ob) (abort_all oe [Some tp] (AU_RESTORE au st2))))))"

definition la_insert_plugin ::
    "la_config \<Rightarrow> la_slave_conf \<Rightarrow> ('v, 'w) obj_env \<Rightarrow> 'v la_item \<Rightarrow> int \<Rightarrow> nat \<Rightarrow> 'w slv \<Rightarrow> errcode \<times> 'w slv" where
  "la_insert_plugin cf sc oe item au tp st =
     (if \<not> (cf_enable_plugin cf \<and> sc_master sc \<and> sc_msg_insert sc) then la_insert_finish cf sc oe item au tp (NO_ERROR, st)
      else
        (case la_plugin_up oe st of
           (ok, st1) \<Rightarrow>
             if \<not> ok then la_error_rtn oe (lsa_pageid (it_target_lsa item)) None [Some tp] ER_PLUGIN_JVM_FATAL_EXCEPTION st1
             else la_insert_finish cf sc oe item au tp
                    (la_plugin_count (\<lambda>p. p\<lparr>pl_insert_cnt := pl_insert_cnt p + 1\<rparr>) (it_lsa item)
                       (call (oe_plugin_insert oe tp (it_lsa item)) st1))))"

definition la_insert_template ::
    "la_config \<Rightarrow> la_slave_conf \<Rightarrow> ('v, 'w) obj_env \<Rightarrow> 'v la_item \<Rightarrow> la_recdes \<Rightarrow> nat \<Rightarrow> 'v sm_class \<Rightarrow> 'w slv
      \<Rightarrow> (errcode \<times> 'w slv) option" where
  "la_insert_template cf sc oe item recdes c mclass st =
     (case AU_SAVE_AND_DISABLE st of
        (au, st0) \<Rightarrow>
          let pageid = lsa_pageid (it_target_lsa item)
          in (case call (oe_create_object oe c) st0 of
                (None, st1) \<Rightarrow> Some (la_error_rtn oe pageid None [] (errid oe st1) (AU_RESTORE au st1))
              | (Some tp, sv, pb, vols, w) \<Rightarrow>
                  (case la_disk_to_obj (oe_tmpl oe) mclass recdes tp w of
                     None \<Rightarrow> None
                   | Some (err, w1) \<Rightarrow>
                       let st1 = (sv, pb, vols, w1)
                       in if err \<noteq> NO_ERROR then Some (la_error_rtn oe pageid None [Some tp] err (AU_RESTORE au st1))
                          else Some (la_insert_plugin cf sc oe item au tp
                                       (if sc_sql_logging sc then effect (oe_sql_insert oe tp (it_key item)) st1 else st1)))))"

definition la_insert_object ::
    "la_config \<Rightarrow> la_slave_conf \<Rightarrow> ('v, 'w) obj_env \<Rightarrow> byte list \<Rightarrow> 'v la_item \<Rightarrow> la_recdes \<Rightarrow> 'w slv \<Rightarrow> (errcode \<times> 'w slv) option" where
  "la_insert_object cf sc oe cn item recdes st =
     (let pageid = lsa_pageid (it_target_lsa item)
      in case call (oe_find_class oe cn) st of
           (None, st1) \<Rightarrow> Some (la_error_rtn oe pageid None [] NO_ERROR st1)
         | (Some c, st1) \<Rightarrow>
             (case call (oe_fetch_class oe c) st1 of
                (None, st2) \<Rightarrow> Some (la_error_rtn oe pageid None [] NO_ERROR st2)
              | (Some mclass, st2) \<Rightarrow> la_insert_template cf sc oe item recdes c mclass st2))"

definition la_apply_insert_log ::
    "'w la_io \<Rightarrow> la_config \<Rightarrow> la_slave_conf \<Rightarrow> lzo \<Rightarrow> ('v, 'w) obj_env \<Rightarrow> 'v la_item \<Rightarrow> 'w slv \<Rightarrow> (errcode \<times> 'w slv) option" where
  "la_apply_insert_log io cf sc lz oe item st =
     (let pageid = lsa_pageid (it_target_lsa item)
      in case la_item_row io cf lz False item st of
           None \<Rightarrow> None
         | Some (None, st1) \<Rightarrow> Some (errid oe st1, st1)
         | Some (Some row, st1) \<Rightarrow>
             if rw_error row \<noteq> NO_ERROR then Some (connect_error (rw_error row), st1)
             else
               (case rw_recdes row of
                  None \<Rightarrow> None
                | Some recdes \<Rightarrow>
                    if rc_type recdes = REC_ASSIGN_ADDRESS \<or> rc_type recdes = REC_RELOCATION \<or> rw_rcvindex row \<noteq> Some RVHF_INSERT
                    then Some (NO_ERROR, release_page pageid st1)
                    else
                      (case item_class item of
                         None \<Rightarrow> None
                       | Some cn \<Rightarrow>
                           (case la_insert_class cf oe cn st1 of
                              None \<Rightarrow> None
                            | Some (err, st2) \<Rightarrow>
                                if err \<noteq> NO_ERROR then Some (err, release_page pageid st2)
                                else la_insert_object cf sc oe cn item recdes st2))))"

section \<open>Updates\<close>

definition want_old_image :: "la_config \<Rightarrow> la_slave_conf \<Rightarrow> bool" where
  "want_old_image cf sc \<longleftrightarrow> cf_enable_plugin cf \<and> sc_master sc \<and> sc_msg_update sc \<and> \<not> sc_apply_log sc"

definition slv_disk_to_obj ::
    "('v, 'w) obj_env \<Rightarrow> 'v sm_class \<Rightarrow> la_recdes \<Rightarrow> nat \<Rightarrow> 'w slv \<Rightarrow> (errcode \<times> 'w slv) option" where
  "slv_disk_to_obj oe mclass recdes tp st =
     (case st of (sv, pb, vols, w) \<Rightarrow>
        map_option (\<lambda>(err, w1). (err, sv, pb, vols, w1)) (la_disk_to_obj (oe_tmpl oe) mclass recdes tp w))"

text \<open>
  The templates of an update: for the plug-in alone, one of the new and one of
  the old row, or that of the object that is changed. The result is an error
  with the templates there are, or the templates: the new and the old one.
\<close>

type_synonym 'w up_out = "((errcode \<times> nat option list) + (nat option \<times> nat option)) \<times> 'w slv"

definition la_update_old ::
    "('v, 'w) obj_env \<Rightarrow> 'v sm_class \<Rightarrow> la_recdes \<Rightarrow> la_recdes \<Rightarrow> nat \<Rightarrow> nat \<Rightarrow> 'w slv \<Rightarrow> 'w up_out option" where
  "la_update_old oe mclass recdes old tp old_tp st =
     (case (if rc_data old \<noteq> [] then la_diff_representation_id old recdes else Some 1) of
        None \<Rightarrow> None
      | Some d \<Rightarrow>
          if d \<noteq> 0 then Some (Inr (Some tp, None), effect (oe_abort_object oe old_tp) st)
          else
            (case slv_disk_to_obj oe mclass old old_tp st of
               None \<Rightarrow> None
             | Some (err, st1) \<Rightarrow>
                 Some (if err \<noteq> NO_ERROR then Inl (err, [Some tp, Some old_tp]) else Inr (Some tp, Some old_tp), st1)))"

definition la_update_templates_plugin ::
    "('v, 'w) obj_env \<Rightarrow> nat \<Rightarrow> 'v sm_class \<Rightarrow> la_recdes \<Rightarrow> la_recdes \<Rightarrow> 'w slv \<Rightarrow> 'w up_out option" where
  "la_update_templates_plugin oe c mclass recdes old st =
     (case call (oe_create_object oe c) st of
        (None, st1) \<Rightarrow> Some (Inl (errid oe st1, []), st1)
      | (Some tp, st1) \<Rightarrow>
          (case call (oe_create_object oe c) st1 of
             (None, st2) \<Rightarrow> Some (Inl (errid oe st2, [Some tp]), st2)
           | (Some old_tp, st2) \<Rightarrow>
               (case slv_disk_to_obj oe mclass recdes tp st2 of
                  None \<Rightarrow> None
                | Some (err, st3) \<Rightarrow>
                    if err \<noteq> NO_ERROR then Some (Inl (err, [Some tp, Some old_tp]), st3)
                    else la_update_old oe mclass recdes old tp old_tp st3)))"

definition la_update_template_edit ::
    "la_slave_conf \<Rightarrow> ('v, 'w) obj_env \<Rightarrow> nat option \<Rightarrow> 'v sm_class \<Rightarrow> la_recdes \<Rightarrow> 'w slv \<Rightarrow> 'w up_out option" where
  "la_update_template_edit sc oe obj mclass recdes st =
     (case (if sc_apply_log sc then obj else None) of
        None \<Rightarrow> Some (Inr (None, None), st)
      | Some ob \<Rightarrow>
          (case call (oe_edit_object oe ob) st of
             (None, st1) \<Rightarrow> Some (Inl (errid oe st1, []), st1)
           | (Some tp, st1) \<Rightarrow>
               (case slv_disk_to_obj oe mclass recdes tp st1 of
                  None \<Rightarrow> None
                | Some (err, st2) \<Rightarrow> Some (if err \<noteq> NO_ERROR then Inl (err, [Some tp]) else Inr (Some tp, None), st2))))"

definition la_update_finish ::
    "la_slave_conf \<Rightarrow> ('v, 'w) obj_env \<Rightarrow> 'v la_item \<Rightarrow> int \<Rightarrow> nat option \<Rightarrow> nat option \<times> nat option \<Rightarrow> errcode \<times> 'w slv
      \<Rightarrow> (errcode \<times> 'w slv) option" where
  "la_update_finish sc oe item au obj tps r =
     (case (tps, r) of ((tp, old_tp), err, st) \<Rightarrow>
        let pageid = lsa_pageid (it_target_lsa item)
        in if \<not> sc_apply_log sc then Some (err, release_page pageid (abort_all oe [tp, old_tp] (AU_RESTORE au st)))
           else
             (case tp of
                None \<Rightarrow> None
              | Some t \<Rightarrow>
                  Some (case call (oe_finish_object oe t) st of
                          (None, st1) \<Rightarrow> la_error_rtn oe pageid obj [tp, old_tp] err (AU_RESTORE au st1)
                        | (Some new_ob, st1) \<Rightarrow>
                            let st2 = on_sv (\<lambda>sv. sv\<lparr>sv_update_counter := sv_update_counter sv + 1\<rparr>) st1
                            in (err, release_page pageid
                                       (effect (oe_release oe new_ob) (abort_all oe [tp, old_tp] (AU_RESTORE au st2)))))))"

definition la_update_plugin ::
    "la_config \<Rightarrow> la_slave_conf \<Rightarrow> ('v, 'w) obj_env \<Rightarrow> 'v la_item \<Rightarrow> int \<Rightarrow> nat option \<Rightarrow> nat option \<times> nat option \<Rightarrow> 'w slv
      \<Rightarrow> (errcode \<times> 'w slv) option" where
  "la_update_plugin cf sc oe item au obj tps st =
     (if \<not> (cf_enable_plugin cf \<and> sc_master sc \<and> sc_msg_update sc) then la_update_finish sc oe item au obj tps (NO_ERROR, st)
      else
        (case la_plugin_up oe st of
           (ok, st1) \<Rightarrow>
             if \<not> ok
             then Some (la_error_rtn oe (lsa_pageid (it_target_lsa item)) obj [fst tps, snd tps] ER_PLUGIN_JVM_FATAL_EXCEPTION st1)
             else la_update_finish sc oe item au obj tps
                    (la_plugin_count (\<lambda>p. p\<lparr>pl_update_cnt := pl_update_cnt p + 1\<rparr>) (it_lsa item)
                       (call (if sc_apply_log sc
                              then oe_plugin_update_with_apply_log oe obj (fst tps) (it_key item) (it_lsa item)
                              else oe_plugin_update oe (snd tps) (fst tps) (it_key item) (it_lsa item)) st1))))"

definition la_update_object ::
    "la_config \<Rightarrow> la_slave_conf \<Rightarrow> ('v, 'w) obj_env \<Rightarrow> 'v la_item \<Rightarrow> la_recdes \<Rightarrow> la_recdes option \<Rightarrow> nat \<Rightarrow> 'v sm_class \<Rightarrow> nat option
      \<Rightarrow> 'w slv \<Rightarrow> (errcode \<times> 'w slv) option" where
  "la_update_object cf sc oe item recdes old c mclass obj st =
     (case AU_SAVE_AND_DISABLE st of
        (au, st0) \<Rightarrow>
          (case (if want_old_image cf sc
                 then la_update_templates_plugin oe c mclass recdes
                        (case old of None \<Rightarrow> \<lparr>rc_type = 0, rc_data = [], rc_length = 0\<rparr> | Some r \<Rightarrow> r) st0
                 else la_update_template_edit sc oe obj mclass recdes st0) of
             None \<Rightarrow> None
           | Some (Inl (err, ts), st1) \<Rightarrow> Some (la_error_rtn oe (lsa_pageid (it_target_lsa item)) obj ts err st1)
           | Some (Inr tps, st1) \<Rightarrow>
               la_update_plugin cf sc oe item au obj tps
                 (if sc_sql_logging sc then effect (oe_sql_update oe (fst tps) (it_key item)) st1 else st1)))"

definition la_update_class ::
    "la_config \<Rightarrow> la_slave_conf \<Rightarrow> ('v, 'w) obj_env \<Rightarrow> byte list \<Rightarrow> 'v la_item \<Rightarrow> la_recdes \<Rightarrow> la_recdes option \<Rightarrow> 'w slv
      \<Rightarrow> (errcode \<times> 'w slv) option" where
  "la_update_class cf sc oe cn item recdes old st =
     (let pageid = lsa_pageid (it_target_lsa item)
      in case call (oe_find_class oe cn) st of
           (None, st1) \<Rightarrow> Some (la_error_rtn oe pageid None [] NO_ERROR st1)
         | (Some c, st1) \<Rightarrow>
             (case (if sc_apply_log sc then call (oe_find_object oe c (it_key item)) st1 else (None, st1)) of
                (obj, st2) \<Rightarrow>
                  if sc_apply_log sc \<and> obj = None then Some (la_error_rtn oe pageid None [] (errid oe st2) st2)
                  else
                    (case call (oe_fetch_class oe c) st2 of
                       (None, st3) \<Rightarrow> Some (la_error_rtn oe pageid obj [] NO_ERROR st3)
                     | (Some mclass, st3) \<Rightarrow> la_update_object cf sc oe item recdes old c mclass obj st3)))"

text \<open>What the two functions for updates do before they differ: the row is read and checked, insertions are flushed.\<close>

definition la_update_begin ::
    "'w la_io \<Rightarrow> la_config \<Rightarrow> la_slave_conf \<Rightarrow> lzo \<Rightarrow> ('v, 'w) obj_env \<Rightarrow> 'v la_item \<Rightarrow> 'w slv
      \<Rightarrow> ((errcode + (la_recdes \<times> la_recdes option)) \<times> 'w slv) option" where
  "la_update_begin io cf sc lz oe item st =
     (let pageid = lsa_pageid (it_target_lsa item)
      in case la_item_row io cf lz (want_old_image cf sc) item st of
           None \<Rightarrow> None
         | Some (None, st1) \<Rightarrow> Some (Inl (errid oe st1), st1)
         | Some (Some row, st1) \<Rightarrow>
             if rw_error row \<noteq> NO_ERROR then Some (Inl (connect_error (rw_error row)), release_page pageid st1)
             else
               (case rw_recdes row of
                  None \<Rightarrow> None
                | Some recdes \<Rightarrow>
                    if rc_type recdes = REC_ASSIGN_ADDRESS \<or> rc_type recdes = REC_RELOCATION
                       \<or> rw_rcvindex row \<noteq> Some RVHF_UPDATE \<and> rw_rcvindex row \<noteq> Some RVOVF_CHANGE_LINK
                    then Some (Inl NO_ERROR, release_page pageid st1)
                    else
                      (case la_flush_unflushed_insert cf oe None st1 of
                         None \<Rightarrow> None
                       | Some (err, st2) \<Rightarrow>
                           if err \<noteq> NO_ERROR then Some (Inl err, release_page pageid st2) else Some (Inr (recdes, rw_old row), st2))))"

definition la_apply_update_log ::
    "'w la_io \<Rightarrow> la_config \<Rightarrow> la_slave_conf \<Rightarrow> lzo \<Rightarrow> ('v, 'w) obj_env \<Rightarrow> 'v la_item \<Rightarrow> 'w slv \<Rightarrow> (errcode \<times> 'w slv) option" where
  "la_apply_update_log io cf sc lz oe item st =
     (case la_update_begin io cf sc lz oe item st of
        None \<Rightarrow> None
      | Some (Inl err, st1) \<Rightarrow> Some (err, st1)
      | Some (Inr (recdes, old), st1) \<Rightarrow>
          (case item_class item of None \<Rightarrow> None | Some cn \<Rightarrow> la_update_class cf sc oe cn item recdes old st1))"

section \<open>Updates by the server\<close>

text \<open>The SQL log of an update; the template stays for the end of the function.\<close>

definition la_server_sql ::
    "('v, 'w) obj_env \<Rightarrow> nat \<Rightarrow> 'v la_item \<Rightarrow> la_recdes \<Rightarrow> 'w slv \<Rightarrow> (nat option \<times> 'w slv) option" where
  "la_server_sql oe c item recdes st =
     (case call (oe_fetch_class oe c) st of
        (None, st1) \<Rightarrow> Some (None, st1)
      | (Some mclass, st1) \<Rightarrow>
          (case AU_SAVE_AND_DISABLE st1 of
             (au, st2) \<Rightarrow>
               (case call (oe_create_object oe c) st2 of
                  (None, st3) \<Rightarrow> Some (None, AU_RESTORE au st3)
                | (Some tp, st3) \<Rightarrow>
                    (case slv_disk_to_obj oe mclass recdes tp st3 of
                       None \<Rightarrow> None
                     | Some (rc, st4) \<Rightarrow>
                         Some (Some tp, AU_RESTORE au
                           (if rc \<noteq> NO_ERROR then st4 else effect (oe_sql_update oe (Some tp) (it_key item)) st4))))))"

text \<open>
  The templates for the plug-in and its start: \<open>Inr\<close> the old template when
  everything is ready, otherwise \<open>Inl\<close> the error to report, if there is one; and
  the template of the new row.
\<close>

definition la_server_ready ::
    "('v, 'w) obj_env \<Rightarrow> int \<Rightarrow> nat \<Rightarrow> 'w up_out \<Rightarrow> ((errcode option + nat option) \<times> nat option) \<times> 'w slv" where
  "la_server_ready oe au tp r =
     (case r of
        (Inl _, st) \<Rightarrow> ((Inl None, Some tp), AU_RESTORE au st)
      | (Inr (_, old_tp), st) \<Rightarrow>
          (case la_plugin_up oe st of
             (ok, st1) \<Rightarrow>
               if \<not> ok then ((Inl (Some ER_PLUGIN_JVM_FATAL_EXCEPTION), Some tp), AU_RESTORE au st1)
               else ((Inr old_tp, Some tp), st1)))"

definition la_server_templates ::
    "('v, 'w) obj_env \<Rightarrow> nat \<Rightarrow> la_recdes \<Rightarrow> la_recdes \<Rightarrow> nat option \<Rightarrow> 'w slv
      \<Rightarrow> (int \<times> ((errcode option + nat option) \<times> nat option) \<times> 'w slv) option" where
  "la_server_templates oe c recdes old tp0 st =
     (case call (oe_fetch_class oe c) st of
        (None, st1) \<Rightarrow> Some (0, (Inl None, tp0), st1)
      | (Some mclass, st1) \<Rightarrow>
          (case AU_SAVE_AND_DISABLE st1 of
             (au, st2) \<Rightarrow>
               (case call (oe_create_object oe c) st2 of
                  (None, st3) \<Rightarrow> Some (au, (Inl None, None), AU_RESTORE au st3)
                | (Some tp, st3) \<Rightarrow>
                    (case call (oe_create_object oe c) st3 of
                       (None, st4) \<Rightarrow> Some (au, (Inl None, Some tp), AU_RESTORE au st4)
                     | (Some old_tp, st4) \<Rightarrow>
                         (case slv_disk_to_obj oe mclass recdes tp st4 of
                            None \<Rightarrow> None
                          | Some (rc, st5) \<Rightarrow>
                              if rc \<noteq> NO_ERROR then Some (au, (Inl None, Some tp), AU_RESTORE au st5)
                              else map_option (\<lambda>r. (au, la_server_ready oe au tp r)) (la_update_old oe mclass recdes old tp old_tp st5))))))"

definition la_server_plugin ::
    "('v, 'w) obj_env \<Rightarrow> nat \<Rightarrow> 'v la_item \<Rightarrow> la_recdes \<Rightarrow> la_recdes \<Rightarrow> errcode \<times> nat option \<Rightarrow> 'w slv
      \<Rightarrow> ((errcode \<times> nat option) \<times> 'w slv) option" where
  "la_server_plugin oe c item recdes old et st =
     (case la_server_templates oe c recdes old (snd et) st of
        None \<Rightarrow> None
      | Some (au, (Inl err, tp), st1) \<Rightarrow> Some ((case err of None \<Rightarrow> fst et | Some e \<Rightarrow> e, tp), st1)
      | Some (au, (Inr old_tp, tp), st1) \<Rightarrow>
          (case la_plugin_count (\<lambda>p. p\<lparr>pl_update_cnt := pl_update_cnt p + 1\<rparr>) (it_lsa item)
                  (call (oe_plugin_update oe old_tp tp (it_key item) (it_lsa item)) st1) of
             (err, st2) \<Rightarrow> Some ((err, tp), AU_RESTORE au st2)))"

definition la_server_end ::
    "('v, 'w) obj_env \<Rightarrow> log_pageid \<Rightarrow> (errcode \<times> nat option) \<times> 'w slv \<Rightarrow> errcode \<times> 'w slv" where
  "la_server_end oe pageid r =
     (case r of ((err, tp), st) \<Rightarrow>
        let st1 = (if err \<noteq> NO_ERROR then fail_count st else on_sv (\<lambda>sv. sv\<lparr>sv_update_counter := sv_update_counter sv + 1\<rparr>) st);
            st2 = (case tp of
                     None \<Rightarrow> st1
                   | Some t \<Rightarrow>
                       effect (\<lambda>w. oe_abort_object oe t
                                 (case oe_tmpl_object oe t w of None \<Rightarrow> w | Some ob \<Rightarrow> oe_decache oe ob (oe_release oe ob w))) st1)
        in (connect_error err, release_page pageid st2))"

definition la_apply_update_log_server_side ::
    "'w la_io \<Rightarrow> la_config \<Rightarrow> la_slave_conf \<Rightarrow> lzo \<Rightarrow> ('v, 'w) obj_env \<Rightarrow> 'v la_item \<Rightarrow> 'w slv \<Rightarrow> (errcode \<times> 'w slv) option" where
  "la_apply_update_log_server_side io cf sc lz oe item st =
     (case la_update_begin io cf sc lz oe item st of
        None \<Rightarrow> None
      | Some (Inl err, st1) \<Rightarrow> Some (err, st1)
      | Some (Inr (recdes, old), st1) \<Rightarrow>
          (case item_class item of
             None \<Rightarrow> None
           | Some cn \<Rightarrow>
               let fin = la_server_end oe (lsa_pageid (it_target_lsa item))
               in (case call (oe_find_class oe cn) st1 of
                     (None, st2) \<Rightarrow> Some (fin ((if errid oe st2 = NO_ERROR then ER_FAILED else errid oe st2, None), st2))
                   | (Some c, st2) \<Rightarrow>
                       (case call (oe_update oe c (it_key item) recdes) st2 of
                          (err, st3) \<Rightarrow>
                            (case (if sc_sql_logging sc then la_server_sql oe c item recdes st3 else Some (None, st3)) of
                               None \<Rightarrow> None
                             | Some (tp, st4) \<Rightarrow>
                                 if \<not> (cf_enable_plugin cf \<and> sc_master sc \<and> sc_msg_update sc) then Some (fin ((err, tp), st4))
                                 else map_option fin
                                        (la_server_plugin oe c item recdes
                                           (case old of None \<Rightarrow> \<lparr>rc_type = 0, rc_data = [], rc_length = 0\<rparr> | Some r \<Rightarrow> r) (err, tp) st4))))))"

section \<open>Schema changes\<close>

definition la_update_query_execute :: "('v, 'w) obj_env \<Rightarrow> byte list option \<Rightarrow> bool \<Rightarrow> 'w slv \<Rightarrow> errcode \<times> 'w slv" where
  "la_update_query_execute oe sql au_disable st =
     (case (if au_disable then AU_SAVE_AND_DISABLE st else (0, st)) of
        (au, st0) \<Rightarrow>
          (case call (oe_execute oe sql) st0 of
             (err, st1) \<Rightarrow>
               (case (if 0 \<le> err then call (oe_query_end oe) st1 else (err, st1)) of
                  (err2, st2) \<Rightarrow> (err2, if au_disable then AU_RESTORE au st2 else st2))))"

text \<open>The statements that are repeated on the slave, and those whose object belongs to a user (\<^verbatim>\<open>CUBRID_STMT_TYPE\<close>).\<close>

definition schema_stmts :: "int list" where
  "schema_stmts = [4, 0, 15, 9, 5, 46, 10, 7, 1, 13, 8, 11, 47, 59, 48, CUBRID_STMT_TRUNCATE, 42, 44, 43, 17, 18, 6, 37, 12, 36, 31]"

definition owner_stmts :: "int list" where
  "owner_stmts = [4, 7, 47, 6, 0]"

text \<open>The owner: the error to go on with and the user to go back to, or an error to stop with.\<close>

definition la_schema_owner :: "('v, 'w) obj_env \<Rightarrow> 'v la_item \<Rightarrow> 'w slv \<Rightarrow> (errcode + (errcode \<times> nat option)) \<times> 'w slv" where
  "la_schema_owner oe item st =
     (let user = (case it_db_user item of None \<Rightarrow> [] | Some u \<Rightarrow> c_string u)
      in if it_item_type item \<notin> set owner_stmts \<or> user = [] then (Inr (NO_ERROR, None), st)
         else
           (case call (oe_find_user oe user) st of
              (None, st1) \<Rightarrow> (Inl (connect_error (errid oe st1)), st1)
            | (Some u, st1) \<Rightarrow>
                let save_user = (case st1 of (sv, pb, vols, w) \<Rightarrow> oe_user oe w)
                in (case call (oe_set_user oe u) st1 of
                      (err, st2) \<Rightarrow> (Inr (err, if err \<noteq> NO_ERROR then None else save_user), st2))))"

text \<open>The statement, with the parameters of the session it ran in; the last step goes back to the user.\<close>

definition la_schema_execute ::
    "la_slave_conf \<Rightarrow> ('v, 'w) obj_env \<Rightarrow> 'v la_item \<Rightarrow> errcode \<Rightarrow> nat option \<Rightarrow> 'w slv \<Rightarrow> (errcode \<times> 'w slv) option" where
  "la_schema_execute sc oe item err save_user st =
     (let ddl = oe_get_string oe (it_key item);
          prm = map_option c_string (it_ha_sys_prm item);
          st1 = (if sc_sql_logging sc then effect (oe_sql_schema oe item) st else st);
          st2 = (case prm of None \<Rightarrow> st1 | Some p \<Rightarrow> effect (oe_set_parameters oe p) st1)
      in case la_update_query_execute oe ddl False st2 of
           (rc, st3) \<Rightarrow>
             let err1 = (if rc \<noteq> NO_ERROR then connect_error (errid oe st3) else err);
                 st4 = (if rc \<noteq> NO_ERROR then st3 else on_sv (\<lambda>sv. sv\<lparr>sv_schema_counter := sv_schema_counter sv + 1\<rparr>) st3);
                 st5 = (case prm of None \<Rightarrow> st4 | Some p \<Rightarrow> effect (oe_reset_parameters oe p) st4)
             in (case save_user of
                   None \<Rightarrow> Some (err1, st5)
                 | Some u \<Rightarrow> (case call (oe_set_user oe u) st5 of (rc2, st6) \<Rightarrow> if rc2 \<noteq> 0 then None else Some (err1, st6))))"

definition la_apply_schema_log ::
    "la_config \<Rightarrow> la_slave_conf \<Rightarrow> ('v, 'w) obj_env \<Rightarrow> 'v la_item \<Rightarrow> 'w slv \<Rightarrow> (errcode \<times> 'w slv) option" where
  "la_apply_schema_log cf sc oe item st =
     (if cf_enable_plugin cf \<and> \<not> sc_master sc then Some (NO_ERROR, st)
      else
        (case la_flush_unflushed_insert cf oe None st of
           None \<Rightarrow> None
         | Some (err0, st0) \<Rightarrow>
             if err0 \<noteq> NO_ERROR then Some (err0, st0)
             else if it_item_type item \<notin> set schema_stmts
                     \<or> it_item_type item = CUBRID_STMT_TRUNCATE \<and> la_need_filter_out (cf_filter cf) item
             then Some (NO_ERROR, st0)
             else
               (case (case la_schema_owner oe item st0 of
                        (Inl err, st1) \<Rightarrow> Some (err, st1)
                      | (Inr (err, save_user), st1) \<Rightarrow> la_schema_execute sc oe item err save_user st1) of
                  None \<Rightarrow> None
                | Some (err, st2) \<Rightarrow>
                    Some (if err \<noteq> NO_ERROR then (err, fail_count st2)
                          else if \<not> cf_enable_plugin cf then (NO_ERROR, st2)
                          else
                            (case la_plugin_up oe st2 of
                               (ok, st3) \<Rightarrow>
                                 if \<not> ok then (ER_PLUGIN_JVM_FATAL_EXCEPTION, st3)
                                 else la_plugin_count (\<lambda>p. p\<lparr>pl_ddl_cnt := pl_ddl_cnt p + 1\<rparr>) (it_lsa item)
                                        (call (oe_plugin_ddl oe (item_class item) (oe_get_string oe (it_key item))) st3))))))"

end
