(* ===== verification/La_Slave_Run.thy ===== *)
theory La_Slave_Run
  imports La_Slave Row_Roundtrip
begin

text \<open>
  What applying one item does: authorization is restored, the columns of a
  logged row get to the object layer, and the paths on which an error is lost
  or the state is left behind.
\<close>

section \<open>Authorization\<close>

abbreviation au_of :: "'w slv \<Rightarrow> int" where
  "au_of st \<equiv> sv_au_disable (fst st)"

lemma fst_call [simp]: "fst (snd (call f st)) = fst st"
  by (simp add: call_def split: prod.splits)

lemma call_fst: "call f st = (x, st') \<Longrightarrow> fst st' = fst st"
  using fst_call [of f st] by simp

lemma fst_simps [simp]:
  "fst (effect g st) = fst st" "fst (slv_shutdown st) = fst st" "fst (release_page p st) = fst st" "fst (on_sv h st) = h (fst st)"
  by (simp_all add: effect_def slv_shutdown_def release_page_def on_sv_def split: prod.splits)

lemma au_fail_count [simp]: "au_of (fail_count st) = au_of st"
  by (simp add: fail_count_def)

lemma au_restore [simp]: "au_of (AU_RESTORE s st) = s"
  by (simp add: AU_RESTORE_def)

lemma au_disable: "AU_SAVE_AND_DISABLE st = (s, st') \<Longrightarrow> s = au_of st \<and> au_of st' = 1"
  by (auto simp: AU_SAVE_AND_DISABLE_def)

lemma fst_abort_all [simp]: "fst (abort_all oe ts st) = fst st"
proof -
  have "fst (fold (\<lambda>t st. case t of None \<Rightarrow> st | Some tp \<Rightarrow> effect (oe_abort_object oe tp) st) ts st) = fst st"
    by (induction ts arbitrary: st) (auto split: option.splits)
  then show ?thesis by (simp add: abort_all_def)
qed

lemma au_error_rtn: "la_error_rtn oe p obj ts err st = (e, st') \<Longrightarrow> au_of st' = au_of st"
  by (auto simp: la_error_rtn_def Let_def split: option.splits)

lemma au_flush_errors:
  assumes "la_flush_errors cf oe cm st = Some (b, st')"
  shows "au_of st' = au_of st"
proof -
  have "\<forall>b st'. r = (b, st') \<longrightarrow> au_of st' = au_of st" if "la_flush_errors cf oe cm st = Some r" for r
  proof (rule la_flush_errors.raw_induct [OF _ that], goal_cases)
    case (1 f cf oe cm st r)
    then show ?case
      by (auto split: prod.splits option.splits if_splits simp: Let_def slv_shutdown_def fail_count_def effect_def on_sv_def dest!: call_fst)
  qed
  then show ?thesis using assms by blast
qed

lemma au_flush: "la_flush_unflushed_insert cf oe cm st = Some (err, st') \<Longrightarrow> au_of st' = au_of st"
  by (auto simp: la_flush_unflushed_insert_def split: prod.splits option.splits if_splits bool.splits
      dest!: call_fst au_flush_errors)

lemma au_plugin_up: "la_plugin_up oe st = (ok, st') \<Longrightarrow> au_of st' = au_of st"
  by (auto simp: la_plugin_up_def split: prod.splits if_splits dest!: call_fst)

lemma au_plugin_count: "la_plugin_count cnt lsa (call f st) = (err, st') \<Longrightarrow> au_of st' = au_of st"
  by (auto simp: la_plugin_count_def split: prod.splits dest!: call_fst)

lemma au_item_row: "la_item_row io cf lz old item st = Some (r, st') \<Longrightarrow> au_of st' = au_of st"
  by (auto simp: la_item_row_def split: prod.splits option.splits)

lemma au_slv_disk_to_obj: "slv_disk_to_obj oe mclass rec tp st = Some (err, st') \<Longrightarrow> fst st' = fst st"
  by (auto simp: slv_disk_to_obj_def split: prod.splits)

lemma au_delete_object: "la_delete_object sc oe cn item st = (err, st') \<Longrightarrow> au_of st' = au_of st"
  by (auto simp: la_delete_object_def Let_def split: prod.splits option.splits if_splits dest!: call_fst)

lemma au_apply_delete: "la_apply_delete_log cf sc oe item st = Some (err, st') \<Longrightarrow> au_of st' = au_of st"
  by (auto simp: la_apply_delete_log_def split: prod.splits option.splits if_splits
      dest!: au_flush au_delete_object au_plugin_up au_plugin_count)

lemma au_insert_class: "la_insert_class cf oe cn st = Some (err, st') \<Longrightarrow> au_of st' = au_of st"
  by (auto simp: la_insert_class_def Let_def split: prod.splits option.splits if_splits dest!: call_fst au_flush)

lemma au_insert_finish: "la_insert_finish cf sc oe item au tp r = (err, st') \<Longrightarrow> au_of st' = au"
  by (auto simp: la_insert_finish_def Let_def split: prod.splits option.splits if_splits dest!: call_fst au_error_rtn)

lemma au_insert_plugin:
  assumes "la_insert_plugin cf sc oe item au tp st = (err, st')"
    and "cf_enable_plugin cf \<and> sc_master sc \<and> sc_msg_insert sc \<longrightarrow> fst (la_plugin_up oe st)"
  shows "au_of st' = au"
  using assms by (auto simp: la_insert_plugin_def split: prod.splits if_splits dest!: au_insert_finish)

lemma au_query: "la_update_query_execute oe sql b st = (err, st') \<Longrightarrow> au_of st' = au_of st"
  by (auto simp: la_update_query_execute_def split: prod.splits if_splits dest!: call_fst au_disable)

lemma au_schema_owner: "la_schema_owner oe item st = (r, st') \<Longrightarrow> au_of st' = au_of st"
  by (auto simp: la_schema_owner_def Let_def split: prod.splits option.splits if_splits dest!: call_fst)

lemma au_schema_execute: "la_schema_execute sc oe item err u st = Some (err', st') \<Longrightarrow> au_of st' = au_of st"
  by (auto simp: la_schema_execute_def Let_def split: prod.splits option.splits if_splits dest!: call_fst au_query)

lemma au_apply_schema: "la_apply_schema_log cf sc oe item st = Some (err, st') \<Longrightarrow> au_of st' = au_of st"
  by (auto simp: la_apply_schema_log_def split: prod.splits option.splits if_splits sum.splits
      dest!: au_flush au_schema_owner au_schema_execute au_plugin_up au_plugin_count)

lemma au_update_begin: "la_update_begin io cf sc lz oe item st = Some (r, st') \<Longrightarrow> au_of st' = au_of st"
  by (auto simp: la_update_begin_def Let_def split: prod.splits option.splits if_splits dest!: au_item_row au_flush)

lemma au_update_old: "la_update_old oe mclass rec old tp old_tp st = Some (r, st') \<Longrightarrow> fst st' = fst st"
  by (auto simp: la_update_old_def split: prod.splits option.splits if_splits dest!: au_slv_disk_to_obj)

lemma au_server_sql: "la_server_sql oe c item rec st = Some (r, st') \<Longrightarrow> au_of st' = au_of st"
  by (auto simp: la_server_sql_def split: prod.splits option.splits if_splits dest!: call_fst au_disable)

lemma plugin_up_ok: "\<forall>w. fst (oe_plugin_start oe w) = NO_ERROR \<Longrightarrow> fst (la_plugin_up oe st)"
  by (cases st) (auto simp: la_plugin_up_def call_def split: prod.splits, metis fst_conv)

lemma au_insert_template:
  assumes "la_insert_template cf sc oe item rec c mclass st = Some (err, st')"
    and "\<not> (cf_enable_plugin cf \<and> sc_master sc \<and> sc_msg_insert sc) \<or> (\<forall>w. fst (oe_plugin_start oe w) = NO_ERROR)"
  shows "au_of st' = au_of st"
proof -
  obtain au st0 where 0: "AU_SAVE_AND_DISABLE st = (au, st0)" by (metis surj_pair)
  note A = au_disable [OF 0]
  show ?thesis
    using assms 0 A
    by (auto simp: la_insert_template_def Let_def split: prod.splits option.splits if_splits dest!: au_error_rtn au_insert_plugin plugin_up_ok)
qed

lemma au_insert_object:
  assumes "la_insert_object cf sc oe cn item rec st = Some (err, st')"
    and "\<not> (cf_enable_plugin cf \<and> sc_master sc \<and> sc_msg_insert sc) \<or> (\<forall>w. fst (oe_plugin_start oe w) = NO_ERROR)"
  shows "au_of st' = au_of st"
proof -
  note T = au_insert_template [OF _ assms(2)]
  show ?thesis using assms(1)
    by (auto simp: la_insert_object_def Let_def split: prod.splits option.splits dest!: call_fst au_error_rtn T)
qed

lemma au_apply_insert:
  assumes "la_apply_insert_log io cf sc lz oe item st = Some (err, st')"
    and "\<not> (cf_enable_plugin cf \<and> sc_master sc \<and> sc_msg_insert sc) \<or> (\<forall>w. fst (oe_plugin_start oe w) = NO_ERROR)"
  shows "au_of st' = au_of st"
proof -
  note T = au_insert_object [OF _ assms(2)]
  show ?thesis using assms(1)
    by (auto simp: la_apply_insert_log_def Let_def split: prod.splits option.splits if_splits dest!: au_item_row au_insert_class T)
qed

lemma au_server_ready: "la_server_ready oe au tp r = (out, st') \<Longrightarrow> fst out = Inl e \<Longrightarrow> au_of st' = au"
  by (cases r; cases "fst r") (auto simp: la_server_ready_def split: prod.splits if_splits)

lemma au_server_templates:
  assumes "la_server_templates oe c rec old tp st = Some (au, r, st')"
  shows "fst r = Inl e \<Longrightarrow> au_of st' = au_of st" and "fst r = Inr q \<Longrightarrow> au = au_of st"
  using assms
  by (auto simp: la_server_templates_def split: prod.splits option.splits if_splits
      dest!: call_fst au_disable au_server_ready)

lemma au_server_plugin: "la_server_plugin oe c item rec old et st = Some (r, st') \<Longrightarrow> au_of st' = au_of st"
  by (auto simp: la_server_plugin_def split: prod.splits option.splits sum.splits dest: au_server_templates)

lemma au_server_end: "la_server_end oe p (r, st) = (err, st') \<Longrightarrow> au_of st' = au_of st"
  by (auto simp: la_server_end_def Let_def split: prod.splits option.splits if_splits)

lemma au_apply_update_server_side:
  assumes "la_apply_update_log_server_side io cf sc lz oe item st = Some (err, st')"
  shows "au_of st' = au_of st"
proof -
  show ?thesis
    using assms
    by (auto simp: la_apply_update_log_server_side_def Let_def split: prod.splits option.splits if_splits sum.splits
        dest!: au_update_begin call_fst au_server_sql au_server_plugin au_server_end)
qed

section \<open>Insertions reach the slave\<close>

text \<open>
  The object layer takes an insertion: it finds the class, makes a template,
  takes the columns and makes the object, and the world goes from \<open>w\<close> to \<open>w3\<close>.
\<close>

definition takes_insert ::
    "('v, 'w) obj_env \<Rightarrow> byte list \<Rightarrow> 'v sm_class \<Rightarrow> (byte list \<times> 'v) list \<Rightarrow> nat \<Rightarrow> nat \<Rightarrow> 'w \<Rightarrow> 'w \<Rightarrow> bool" where
  "takes_insert oe cn cls cols tp ob w w3 \<longleftrightarrow>
     (\<exists>c w1 w2. oe_find_class oe cn w = (Some c, w) \<and> oe_fetch_class oe c w = (Some cls, w) \<and> oe_create_object oe c w = (Some tp, w1) \<and>
        put_all (oe_tmpl oe) tp cols w1 = (NO_ERROR, w2) \<and> oe_finish_object oe tp (oe_set_bulk_flush oe tp w2) = (Some ob, w3))"

lemma insert_object_takes:
  assumes "takes_insert oe cn cls cols tp ob w w3"
    and "\<And>w. la_disk_to_obj (oe_tmpl oe) cls rec tp w = Some (put_all (oe_tmpl oe) tp cols w)"
    and "sc_apply_log sc" and "\<not> sc_sql_logging sc" and "\<not> cf_enable_plugin cf"
  shows "la_insert_object cf sc oe cn item rec (sv, pb, vols, w) =
    Some (NO_ERROR, sv\<lparr>sv_num_unflushed_insert := sv_num_unflushed_insert sv + 1, sv_insert_counter := sv_insert_counter sv + 1\<rparr>,
      src_release (lsa_pageid (it_target_lsa item)) (pb, vols, oe_release oe ob (oe_abort_object oe tp w3)))"
  using assms unfolding takes_insert_def
  by (auto simp: la_insert_object_def la_insert_template_def la_insert_plugin_def la_insert_finish_def call_def effect_def on_sv_def
      AU_SAVE_AND_DISABLE_def AU_RESTORE_def release_page_def abort_all_def Let_def)

lemma insert_item_applied:
  assumes "la_item_row io cf lz False item (sv, src) = Some (Some row, sv1, pb, vols, w)"
    and "rw_error row = NO_ERROR" and "rw_rcvindex row = Some RVHF_INSERT"
    and "rw_recdes row = Some \<lparr>rc_type = ty, rc_data = data, rc_length = len\<rparr>" and "ty \<notin> {REC_ASSIGN_ADDRESS, REC_RELOCATION}"
    and "item_class item = Some cn" and "sv_last_class sv \<in> {[], cn}"
    and "data = row_bytes bits chn base fs pad bbs vs" and "row_ok fixed_size bits base fs pad bbs vs"
    and "int (length data) \<le> len" and "len < DB_INT32_MAX" and "\<forall>w. te_mem (oe_tmpl oe) w = (True, w)"
    and "takes_insert oe cn (row_class fixed_size fs vs) (row_columns (te_null (oe_tmpl oe)) bits fs bbs vs) tp ob w w3"
    and "sc_apply_log sc" and "\<not> sc_sql_logging sc" and "\<not> cf_enable_plugin cf"
  shows "\<exists>sv'. la_apply_insert_log io cf sc lz oe item (sv, src) =
      Some (NO_ERROR, sv', src_release (lsa_pageid (it_target_lsa item)) (pb, vols, oe_release oe ob (oe_abort_object oe tp w3))) \<and>
    sv_insert_counter sv' = sv_insert_counter sv + 1 \<and> sv_num_unflushed_insert sv' = sv_num_unflushed_insert sv + 1 \<and>
    sv_fail_counter sv' = sv_fail_counter sv \<and> sv_au_disable sv' = sv_au_disable sv"
proof -
  have d: "la_disk_to_obj (oe_tmpl oe) (row_class fixed_size fs vs) \<lparr>rc_type = ty, rc_data = data, rc_length = len\<rparr> tp w' =
      Some (put_all (oe_tmpl oe) tp (row_columns (te_null (oe_tmpl oe)) bits fs bbs vs) w')" for w'
    by (rule disk_to_obj_columns [OF assms(8-12)])
  have "\<exists>zs. sv1 = sv\<lparr>sv_zips := zs\<rparr>" using assms(1) by (auto simp: la_item_row_def split: option.splits prod.splits)
  then obtain sv2 where sv2: "la_insert_class cf oe cn (sv1, pb, vols, w) = Some (NO_ERROR, sv2, pb, vols, w)"
    "sv_insert_counter sv2 = sv_insert_counter sv" "sv_num_unflushed_insert sv2 = sv_num_unflushed_insert sv"
    "sv_fail_counter sv2 = sv_fail_counter sv" "sv_au_disable sv2 = sv_au_disable sv"
    using assms(7) by (cases "sv_last_class sv = cn") (auto simp: la_insert_class_def on_sv_def)
  then have "la_apply_insert_log io cf sc lz oe item (sv, src) =
      la_insert_object cf sc oe cn item \<lparr>rc_type = ty, rc_data = data, rc_length = len\<rparr> (sv2, pb, vols, w)"
    using assms(1-6) by (simp add: la_apply_insert_log_def Let_def)
  then show ?thesis using insert_object_takes [OF assms(13) d assms(14-16), of item sv2 pb vols] sv2 by auto
qed

section \<open>The row of an item, from the log\<close>

lemma append_page_le:
  assumes "rec_ok sz p'" and "gpos sz p \<le> gpos sz p'"
  shows "fst p \<le> fst p'"
proof -
  have o: "snd p' < sz" using assms(1) by (simp add: rec_ok_def pos_ok_def)
  then have "fst p * int sz < (fst p' + 1) * int sz" using assms(2) by (simp add: gpos_def algebra_simps)
  then show ?thesis using o by (simp add: mult_less_cancel_right)
qed

lemma item_row_read:
  assumes "src_ok io (cf_cache cf) page P Q src" and "P (lsa_pageid (it_target_lsa item))" and "zips_ok (sv_zips sv)"
    and "\<And>zs s. src_ok io (cf_cache cf) page P Q s \<Longrightarrow> zips_ok zs \<Longrightarrow>
      \<exists>len zs' s'. la_get_recdes (la_page_src io (cf_cache cf)) src_release (cf_area cf) (src_alloc io) lz False (it_target_lsa item)
        (page (lsa_pageid (it_target_lsa item))) zs s = Some (row len, zs', s') \<and> R len"
  shows "\<exists>len zs' src'. la_item_row io cf lz False item (sv, src) = Some (Some (row len), sv\<lparr>sv_zips := zs'\<rparr>, src') \<and> R len"
proof -
  from cp.get_page [OF assms(1,2)] obtain s where
    s: "la_page_src io (cf_cache cf) (lsa_pageid (it_target_lsa item)) src = Some (Some (page (lsa_pageid (it_target_lsa item))), s)"
    "src_ok io (cf_cache cf) page P Q s" by blast
  from assms(4) [OF s(2) assms(3)] obtain len zs' s' where
    "la_get_recdes (la_page_src io (cf_cache cf)) src_release (cf_area cf) (src_alloc io) lz False (it_target_lsa item)
      (page (lsa_pageid (it_target_lsa item))) (sv_zips sv) s = Some (row len, zs', s')" "R len" by blast
  with s(1) have "la_item_row io cf lz False item (sv, src) = Some (Some (row len), sv\<lparr>sv_zips := zs'\<rparr>, s')" by (simp add: la_item_row_def)
  with \<open>R len\<close> show ?thesis by blast
qed

text \<open>
  An insertion that the applier reads from the log, with whatever its page
  cache holds: the columns of the row get to the object layer.
\<close>

lemma logged_insert_applied:
  assumes "src_ok io (cf_cache cf) page P Q src" and "P (lsa_pageid (it_target_lsa item))" and "zips_ok (sv_zips sv)"
    and "\<And>zs s. src_ok io (cf_cache cf) page P Q s \<Longrightarrow> zips_ok zs \<Longrightarrow>
      \<exists>len zs' s'. la_get_recdes (la_page_src io (cf_cache cf)) src_release (cf_area cf) (src_alloc io) lz False (it_target_lsa item)
        (page (lsa_pageid (it_target_lsa item))) zs s =
        Some (\<lparr>rw_error = NO_ERROR, rw_rcvindex = Some RVHF_INSERT, rw_recdes = Some \<lparr>rc_type = ty, rc_data = data, rc_length = len\<rparr>,
          rw_old = None, rw_ovfyn = False\<rparr>, zs', s') \<and> len \<in> {int (length data), int (length data) + 2}"
    and "ty \<notin> {REC_ASSIGN_ADDRESS, REC_RELOCATION}" and "item_class item = Some cn" and "sv_last_class sv \<in> {[], cn}"
    and "data = row_bytes bits chn base fs pad bbs vs" and "row_ok fixed_size bits base fs pad bbs vs"
    and "int (length data) + 2 < DB_INT32_MAX" and "\<forall>w. te_mem (oe_tmpl oe) w = (True, w)"
    and "\<And>w. takes_insert oe cn (row_class fixed_size fs vs) (row_columns (te_null (oe_tmpl oe)) bits fs bbs vs) tp ob w (g w)"
    and "sc_apply_log sc" and "\<not> sc_sql_logging sc" and "\<not> cf_enable_plugin cf"
  shows "\<exists>sv' pb vols w. la_apply_insert_log io cf sc lz oe item (sv, src) =
      Some (NO_ERROR, sv', src_release (lsa_pageid (it_target_lsa item)) (pb, vols, oe_release oe ob (oe_abort_object oe tp (g w)))) \<and>
    sv_insert_counter sv' = sv_insert_counter sv + 1 \<and> sv_num_unflushed_insert sv' = sv_num_unflushed_insert sv + 1 \<and>
    sv_fail_counter sv' = sv_fail_counter sv \<and> sv_au_disable sv' = sv_au_disable sv"
proof -
  let ?row = "\<lambda>len. \<lparr>rw_error = NO_ERROR, rw_rcvindex = Some RVHF_INSERT, rw_recdes = Some \<lparr>rc_type = ty, rc_data = data, rc_length = len\<rparr>,
      rw_old = None, rw_ovfyn = False\<rparr>"
  obtain len zs' pb vols w where r: "la_item_row io cf lz False item (sv, src) = Some (Some (?row len), sv\<lparr>sv_zips := zs'\<rparr>, pb, vols, w)"
    "len \<in> {int (length data), int (length data) + 2}"
    using item_row_read [where row = ?row, OF assms(1-4)] by auto
  have len: "int (length data) \<le> len" "len < DB_INT32_MAX" using r(2) assms(10) by auto
  from insert_item_applied [OF r(1) _ _ _ assms(5-9) len assms(11,12,13-15)] show ?thesis by auto
qed

section \<open>A slave and a logged row\<close>

definition ex_slave :: "(byte list, ex_world) obj_env" where
  "ex_slave = \<lparr>oe_tmpl = ex_tmpl, oe_errid = \<lambda>w. -1, oe_find_class = \<lambda>n w. (Some 1, w),
     oe_fetch_class = \<lambda>c w. (Some (row_class 4 [ex_fixed] [ex_variable]), w), oe_flush_class = \<lambda>c w. (NO_ERROR, w),
     oe_flush_all = \<lambda>w. (NO_ERROR, w), oe_next_error = \<lambda>w. (None, w), oe_class_mop = \<lambda>c w. (Some c, w), oe_mop = \<lambda>i c w. (Some i, w),
     oe_clear_errors = id, oe_decache = \<lambda>i w. w, oe_release = \<lambda>i w. w, oe_delete = \<lambda>c k w. (NO_ERROR, w), oe_update = \<lambda>c k r w. (NO_ERROR, w),
     oe_find_object = \<lambda>c k w. (Some 9, w), oe_create_object = \<lambda>c w. (Some 5, w), oe_edit_object = \<lambda>i w. (Some 6, w),
     oe_set_bulk_flush = \<lambda>t w. w, oe_finish_object = \<lambda>t w. (Some 9, w), oe_abort_object = \<lambda>t w. w, oe_tmpl_object = \<lambda>t w. None,
     oe_sql_insert = \<lambda>t k w. w, oe_sql_update = \<lambda>t k w. w, oe_sql_delete = \<lambda>n k w. w, oe_sql_schema = \<lambda>i w. w,
     oe_plugin_start = \<lambda>w. (NO_ERROR, w), oe_plugin_insert = \<lambda>t l w. (NO_ERROR, w), oe_plugin_update = \<lambda>i t k l w. (NO_ERROR, w),
     oe_plugin_update_with_apply_log = \<lambda>i t k l w. (NO_ERROR, w), oe_plugin_delete = \<lambda>n k l w. (NO_ERROR, w),
     oe_plugin_ddl = \<lambda>n d w. (NO_ERROR, w), oe_get_string = id, oe_find_user = \<lambda>n w. (Some 2, w), oe_user = \<lambda>w. Some 3,
     oe_set_user = \<lambda>u w. (NO_ERROR, w), oe_set_parameters = \<lambda>p w. w, oe_reset_parameters = \<lambda>p w. w, oe_execute = \<lambda>s w. (0, w),
     oe_query_end = \<lambda>w. (NO_ERROR, w)\<rparr>"

lemma ex_takes_insert: "takes_insert ex_slave cn (row_class 4 [ex_fixed] [ex_variable]) ex_columns 5 9 w (w @ ex_columns)"
  by (simp add: takes_insert_def ex_slave_def ex_tmpl_def ex_columns_def)

definition ex_slave_state :: la_slave where
  "ex_slave_state = \<lparr>sv_num_unflushed_insert = 0, sv_insert_counter = 0, sv_update_counter = 0, sv_delete_counter = 0, sv_schema_counter = 0,
     sv_fail_counter = 0, sv_last_class = [116], sv_au_disable = 0, sv_enable_JVM = True,
     sv_plugin = \<lparr>pl_sent_lsa = LSA_NULL, pl_insert_cnt = 0, pl_update_cnt = 0, pl_delete_cnt = 0, pl_ddl_cnt = 0, pl_fatal_cnt = 0, pl_warning_cnt = 0\<rparr>,
     sv_zips = (ex_zip, ex_zip)\<rparr>"

definition ex_slave_conf :: la_slave_conf where
  "ex_slave_conf = \<lparr>sc_master = True, sc_msg_insert = True, sc_msg_update = True, sc_msg_delete = True, sc_apply_log = True, sc_sql_logging = False\<rparr>"

definition ex_la_conf :: la_config where
  "ex_la_conf = ex_conf\<lparr>cf_cache := \<lparr>cfg_logpagesize = 96, cfg_buffer_size = 3\<rparr>\<rparr>"

definition ex_row_item :: "byte list la_item" where
  "ex_row_item = \<lparr>it_log_type = LOG_REPLICATION_DATA, it_item_type = 0, it_class_name = Some [116, 0], it_db_user = None, it_ha_sys_prm = None,
     it_key = Some [1], it_lsa = LSA 33 0, it_target_lsa = LSA 31 40\<rparr>"

lemma ex_area: "cf_area ex_la_conf = 80" "cfg_buffer_size (cf_cache ex_la_conf) = 3" "cf_enable_plugin ex_la_conf = False"
  by (simp_all add: cf_area_def ex_la_conf_def LA_LOGAREA_SIZE_def ex_conf_def)

lemma ex_item_class: "item_class ex_row_item = Some [116]"
  by (simp add: item_class_def ex_row_item_def c_string_def)

definition ex_srv_env :: log_srv_env where
  "ex_srv_env = \<lparr>lm_no_logging = False, lm_tdes = True, lm_topop = False, lm_active = True, lm_aborted = False, lm_savept = False,
     lm_temporary = False, lm_vfid = True, lm_tmp_file = False, lm_new_file = False, lm_set_lsa = True, lm_applier = False,
     lm_ha_mode = 1, lm_ha_state = HA_SERVER_STATE_ACTIVE\<rparr>"

definition ex_srv :: log_srv where
  "ex_srv = \<lparr>ls_tdes = ex_repl_td, ls_prior = ex_prior, ls_gen = ex_gen, ls_page_lsa = \<lambda>_. LSA_NULL, ls_has_undolog = False,
     ls_logging_skipped = False\<rparr>"

lemma ex_logs_rows: "logs_rows ex_srv_env ex_addr ex_gen"
  by (simp add: logs_rows_def ex_srv_env_def ex_addr_def ex_gen_def log_tran_can_log_def log_does_allow_replication_def)

text \<open>A log in which the server logged the row of the example, and what the applier gets for an item of that row.\<close>

lemma ex_logged_row:
  assumes "plain_row rcv 2" and "cf_cache cf = cf_cache ex_la_conf"
  obtains io :: "'w la_io" and src len zs' src' where
    "la_item_row io cf ex_lzo False ex_row_item (ex_slave_state, src) =
      Some (Some \<lparr>rw_error = NO_ERROR, rw_rcvindex = Some rcv, rw_recdes = Some \<lparr>rc_type = 2, rc_data = ex_row_data, rc_length = len\<rparr>,
        rw_old = None, rw_ovfyn = False\<rparr>, ex_slave_state\<lparr>sv_zips := zs'\<rparr>, src')" "len \<in> {19, 21}"
proof -
  note a = ex_append_ok(1-3)
  have i: "ls_prior ex_srv = ex_prior" "ls_tdes ex_srv = ex_repl_td" "ls_gen ex_srv = ex_gen" "ge_lzo ex_gen = ex_lzo"
    by (simp_all add: ex_srv_def ex_gen_def)
  have b: "agree 80 (ls_prior ex_srv) ex_gl" "logs_rows ex_srv_env ex_addr (ls_gen ex_srv)" using a(2) ex_logs_rows i by simp_all
  obtain node and st1 :: log_srv where "row_node (ge_lzo (ls_gen ex_srv)) rcv ex_addr (concat []) (concat (recdes_crumbs (Some (2, ex_row_data)))) node"
    and "reserve_all 80 [(node, ls_tdes ex_srv)] (ls_prior ex_srv) = Some (ls_prior st1)"
    by (rule append_row [OF a(1) b, where rcvindex = rcv and uc = "[]" and rc = "recdes_crumbs (Some (2, ex_row_data))"]) blast
  then have row: "row_node ex_lzo rcv ex_addr [] (wr_int 2 2 @ ex_row_data) node" by (simp add: recdes_crumbs_def i)
  have rq: "\<forall>(node, td) \<in> set [(node, ls_tdes ex_srv)]. request_ok 80 node" using row_node_request [OF a(1) row] by simp
  obtain pi' gl' where g: "reserve_all 80 [(node, ls_tdes ex_srv)] ex_prior = Some pi'" "logpb_append_prior_lsa_list 80 (pi_list pi') ex_gl = Some gl'"
    "agree 80 pi' gl'" "gpos 80 (gl_append ex_gl) \<le> gpos 80 (gl_append gl')"
    using reserve_and_append [OF a(1,2) rq] a(3) by auto
  let ?m = "fst (gl_append gl')" let ?P = "\<lambda>q. 30 \<le> q \<and> q \<le> ?m" let ?Q = "\<lambda>st. act_log_hdr st = hdr_upto ?m"
  let ?io = "io_upto ?m (gl_pages gl') :: 'w la_io"
  have "\<forall>q \<le> ?m. lp_logical_pageid (gl_pages gl' q) = q" using g(3) unfolding agree_def areas_ok_def by metis
  note s = io_upto_src [OF this, of "cf_cache cf"]
  have src: "src_ok ?io (cf_cache cf) (gl_pages gl') ?P ?Q (ex_pb, ex_vols\<lparr>act_log_hdr := hdr_upto ?m\<rparr>, undefined)"
    using s assms(2) ex_area(2) by simp
  have p: "\<forall>q. fst (gl_append ex_gl) \<le> q \<and> q \<le> ?m \<longrightarrow> ?P q" by (simp add: ex_gl_def)
  have "rec_ok 80 (gl_append gl')" using g(3) unfolding agree_def by blast
  then have m: "31 \<le> ?m" using append_page_le [OF _ g(4)] by (simp add: ex_gl_def)
  have t: "it_target_lsa ex_row_item = lsa_of (gl_append ex_gl)" "lsa_pageid (it_target_lsa ex_row_item) = 31" "fst (gl_append ex_gl) = 31"
    by (simp_all add: ex_row_item_def ex_gl_def lsa_of_def)
  have ar: "cf_area cf = 80" using ex_area(1) assms(2) by (simp add: cf_area_def)
  have u: "lsa_pageid (lsa_of (gl_append ex_gl)) = fst (gl_append ex_gl)" by (simp add: lsa_of_def)
  have z: "zips_ok (sv_zips ex_slave_state)" by (simp add: ex_slave_state_def zips_ok_def ex_zip_def)
  have l: "int (length ([] :: byte list)) < 2 ^ 31" "int (length ex_row_data) + 2 < 2 ^ 31" by (simp_all add: ex_row_length)
  have "\<exists>len zs' src'. la_item_row ?io cf ex_lzo False ex_row_item (ex_slave_state, ex_pb, ex_vols\<lparr>act_log_hdr := hdr_upto ?m\<rparr>, undefined) =
      Some (Some \<lparr>rw_error = NO_ERROR, rw_rcvindex = Some rcv, rw_recdes = Some \<lparr>rc_type = 2, rc_data = ex_row_data, rc_length = len\<rparr>,
        rw_old = None, rw_ovfyn = False\<rparr>, ex_slave_state\<lparr>sv_zips := zs'\<rparr>, src') \<and> len \<in> {19, 21}"
  proof (rule item_row_read [OF src _ z])
    show "?P (lsa_pageid (it_target_lsa ex_row_item))" using m t by simp
    fix zs s assume "src_ok ?io (cf_cache cf) (gl_pages gl') ?P ?Q s" "zips_ok zs"
    from logged_row_read [OF a(1-3) g(1) _ g(2) p this(1) row ex_lzo_ok l this(2) assms(1)]
    show "\<exists>len zs' s'. la_get_recdes (la_page_src ?io (cf_cache cf)) src_release (cf_area cf) (src_alloc ?io) ex_lzo False (it_target_lsa ex_row_item)
        (gl_pages gl' (lsa_pageid (it_target_lsa ex_row_item))) zs s =
        Some (\<lparr>rw_error = NO_ERROR, rw_rcvindex = Some rcv, rw_recdes = Some \<lparr>rc_type = 2, rc_data = ex_row_data, rc_length = len\<rparr>,
          rw_old = None, rw_ovfyn = False\<rparr>, zs', s') \<and> len \<in> {19, 21}"
      unfolding t(1) ar u by (auto simp: ex_row_length)
  qed
  then show thesis using that by blast
qed

lemma ex_disk_to_obj:
  "len \<in> {19, 21} \<Longrightarrow> la_disk_to_obj ex_tmpl (row_class 4 [ex_fixed] [ex_variable]) \<lparr>rc_type = 2, rc_data = ex_row_data, rc_length = len\<rparr> tp w =
     Some (NO_ERROR, w @ ex_columns)"
  using disk_to_obj_columns [OF ex_row_data_def ex_row_ok, of len ex_tmpl 2 tp w]
  by (auto simp: ex_row_length ex_row_columns ex_columns_def ex_tmpl_def)

lemma ex_update_begin:
  fixes oe :: "(byte list, 'w) obj_env"
  assumes "cf_cache cf = cf_cache ex_la_conf"
  obtains io src len zs' src' where
    "la_update_begin io cf ex_slave_conf ex_lzo oe ex_row_item (ex_slave_state, src) =
      Some (Inr (\<lparr>rc_type = 2, rc_data = ex_row_data, rc_length = len\<rparr>, None), ex_slave_state\<lparr>sv_zips := zs'\<rparr>, src')" "len \<in> {19, 21}"
proof -
  have p: "plain_row RVHF_UPDATE 2" by (simp add: plain_row_def)
  obtain io :: "'w la_io" and src len zs' src' where r: "la_item_row io cf ex_lzo False ex_row_item (ex_slave_state, src) =
      Some (Some \<lparr>rw_error = NO_ERROR, rw_rcvindex = Some RVHF_UPDATE, rw_recdes = Some \<lparr>rc_type = 2, rc_data = ex_row_data, rc_length = len\<rparr>,
        rw_old = None, rw_ovfyn = False\<rparr>, ex_slave_state\<lparr>sv_zips := zs'\<rparr>, src')" "len \<in> {19, 21}"
    by (rule ex_logged_row [OF p assms])
  have w: "\<not> want_old_image cf ex_slave_conf" by (simp add: want_old_image_def ex_slave_conf_def)
  have "la_update_begin io cf ex_slave_conf ex_lzo oe ex_row_item (ex_slave_state, src) =
      Some (Inr (\<lparr>rc_type = 2, rc_data = ex_row_data, rc_length = len\<rparr>, None), ex_slave_state\<lparr>sv_zips := zs'\<rparr>, src')"
    using r(1) w by (simp add: la_update_begin_def la_flush_unflushed_insert_def ex_slave_state_def)
  then show thesis using that r(2) by blast
qed

section \<open>The properties\<close>

text \<open>
  C25. Authorization is switched off while a change is applied and is as it was
  when the call returns, for insertions, deletions, updates on the server side
  and schema changes, whatever the object layer answers, errors included; for
  insertions where a plug-in is sent the changes, provided that it starts.
\<close>

theorem authorization_restored:
  assumes "\<not> (cf_enable_plugin cf \<and> sc_master sc \<and> sc_msg_insert sc) \<or> (\<forall>w. fst (oe_plugin_start oe w) = NO_ERROR)"
    and "la_apply_insert_log io cf sc lz oe item st = Some (err, st') \<or> la_apply_delete_log cf sc oe item st = Some (err, st') \<or>
      la_apply_update_log_server_side io cf sc lz oe item st = Some (err, st') \<or> la_apply_schema_log cf sc oe item st = Some (err, st')"
  shows "sv_au_disable (fst st') = sv_au_disable (fst st)"
  using assms(2)
  by (elim disjE) (erule au_apply_insert [OF _ assms(1)] au_apply_delete au_apply_update_server_side au_apply_schema)+

lemma authorization_restored_witness:
  "\<exists>st'. la_apply_delete_log ex_la_conf ex_slave_conf ex_slave ex_row_item (ex_slave_state, ex_pb, ex_vols, []) = Some (NO_ERROR, st') \<and>
     sv_au_disable (fst st') = 0"
proof -
  let ?st = "(ex_slave_state, ex_pb, ex_vols, []) :: ex_world slv"
  obtain st' where d: "la_apply_delete_log ex_la_conf ex_slave_conf ex_slave ex_row_item ?st = Some (NO_ERROR, st')"
    by (simp add: la_apply_delete_log_def la_flush_unflushed_insert_def ex_slave_state_def ex_item_class la_delete_object_def call_def
        ex_slave_def ex_slave_conf_def ex_area)
  from authorization_restored [of ex_la_conf ex_slave_conf ex_slave, where err = NO_ERROR and st = ?st and st' = st' and item = ex_row_item]
  show ?thesis using d by (simp add: ex_area ex_slave_state_def)
qed

text \<open>
  C38. An update whose object is found but cannot be edited leaves
  authorization switched off: the call returns by its error path, which counts
  the failure and does not restore what was saved.
\<close>

theorem failed_update_leaves_authorization_off:
  assumes "la_update_begin io cf sc lz oe item st = Some (Inr (rec, old), st1)" and "item_class item = Some cn" and "sc_apply_log sc"
    and "call (oe_find_class oe cn) st1 = (Some c, st2)" and "call (oe_find_object oe c (it_key item)) st2 = (Some ob, st3)"
    and "call (oe_fetch_class oe c) st3 = (Some mclass, st4)"
    and "\<forall>w. fst (oe_edit_object oe ob w) = None"
  shows "\<exists>err st'. la_apply_update_log io cf sc lz oe item st = Some (err, st') \<and> sv_au_disable (fst st') = 1 \<and>
    sv_fail_counter (fst st') = sv_fail_counter (fst st4) + 1"
proof -
  define st5 where "st5 = snd (AU_SAVE_AND_DISABLE st4)"
  obtain r st6 where e: "call (oe_edit_object oe ob) st5 = (r, st6)" by (metis surj_pair)
  have r: "r = None" using e assms(7) by (cases st5) (auto simp: call_def split: prod.splits dest: spec, metis fst_conv)
  have a: "AU_SAVE_AND_DISABLE st4 = (au_of st4, st5)" by (simp add: AU_SAVE_AND_DISABLE_def st5_def)
  have w: "\<not> want_old_image cf sc" using assms(3) by (simp add: want_old_image_def)
  have "la_apply_update_log io cf sc lz oe item st = Some (la_error_rtn oe (lsa_pageid (it_target_lsa item)) (Some ob) [] (errid oe st6) st6)"
    using assms a w e r
    by (simp add: la_apply_update_log_def la_update_class_def la_update_object_def la_update_template_edit_def)
  moreover obtain err st' where l: "la_error_rtn oe (lsa_pageid (it_target_lsa item)) (Some ob) [] (errid oe st6) st6 = (err, st')"
    by (metis surj_pair)
  moreover have "fst st6 = (fst st4)\<lparr>sv_au_disable := 1\<rparr>" using call_fst [OF e] by (simp add: st5_def AU_SAVE_AND_DISABLE_def)
  moreover have "fst st' = (fst st6)\<lparr>sv_fail_counter := sv_fail_counter (fst st6) + 1\<rparr>"
    using l by (auto simp: la_error_rtn_def Let_def fail_count_def)
  ultimately show ?thesis by auto
qed

lemma failed_update_leaves_authorization_off_witness:
  "\<exists>io src err st'. la_apply_update_log io ex_la_conf ex_slave_conf ex_lzo (ex_slave\<lparr>oe_edit_object := \<lambda>i w. (None, w)\<rparr>) ex_row_item
     (ex_slave_state, src) = Some (err, st') \<and> sv_au_disable ex_slave_state = 0 \<and> sv_au_disable (fst st') = 1"
proof -
  let ?oe = "ex_slave\<lparr>oe_edit_object := \<lambda>i w. (None, w)\<rparr>"
  obtain io :: "ex_world la_io" and src len zs' src' where b: "la_update_begin io ex_la_conf ex_slave_conf ex_lzo ?oe ex_row_item (ex_slave_state, src) =
      Some (Inr (\<lparr>rc_type = 2, rc_data = ex_row_data, rc_length = len\<rparr>, None), ex_slave_state\<lparr>sv_zips := zs'\<rparr>, src')"
    by (rule ex_update_begin [OF refl])
  have c: "call (oe_find_class ?oe [116]) s = (Some 1, s)" "call (oe_find_object ?oe 1 k) s = (Some 9, s)"
    "call (oe_fetch_class ?oe 1) s = (Some (row_class 4 [ex_fixed] [ex_variable]), s)" for s k
    by (cases s; simp add: call_def ex_slave_def)+
  have e: "sc_apply_log ex_slave_conf" "\<forall>w. fst (oe_edit_object ?oe 9 w) = None" by (simp_all add: ex_slave_conf_def)
  from failed_update_leaves_authorization_off [OF b ex_item_class e(1) c e(2)] have
    "\<exists>err st'. la_apply_update_log io ex_la_conf ex_slave_conf ex_lzo ?oe ex_row_item (ex_slave_state, src) = Some (err, st') \<and> au_of st' = 1" by blast
  moreover have "sv_au_disable ex_slave_state = 0" by (simp add: ex_slave_state_def)
  ultimately show ?thesis by blast
qed

text \<open>
  A failed update on the server side is reported as a success when a
  plug-in takes it: the result of the plug-in replaces the error of the update,
  so the update is counted, no failure is, and the call returns no error.
\<close>

theorem failed_update_reported_as_success:
  assumes "la_update_begin io cf sc lz oe item st = Some (Inr (rec, old), st1)" and "item_class item = Some cn"
    and "cf_enable_plugin cf" and "sc_master sc" and "sc_msg_update sc" and "\<not> sc_sql_logging sc"
    and "call (oe_find_class oe cn) st1 = (Some c, st2)" and "call (oe_update oe c (it_key item) rec) st2 = (err, st3)" and "err \<noteq> NO_ERROR"
    and "la_server_templates oe c rec (case old of None \<Rightarrow> \<lparr>rc_type = 0, rc_data = [], rc_length = 0\<rparr> | Some r \<Rightarrow> r) None st3 =
      Some (au, (Inr old_tp, Some tp), st4)"
    and "call (oe_plugin_update oe old_tp (Some tp) (it_key item) (it_lsa item)) st4 = (NO_ERROR, st5)"
  shows "\<exists>st'. la_apply_update_log_server_side io cf sc lz oe item st = Some (NO_ERROR, st') \<and>
    sv_update_counter (fst st') = sv_update_counter (fst st5) + 1 \<and> sv_fail_counter (fst st') = sv_fail_counter (fst st5)"
proof -
  have p: "la_plugin_count (\<lambda>p. p\<lparr>pl_update_cnt := pl_update_cnt p + 1\<rparr>) (it_lsa item) (NO_ERROR, st5) =
      (NO_ERROR, on_sv (\<lambda>sv. sv\<lparr>sv_plugin := (sv_plugin sv)\<lparr>pl_sent_lsa := it_lsa item, pl_update_cnt := pl_update_cnt (sv_plugin sv) + 1\<rparr>\<rparr>) st5)"
    by (simp add: la_plugin_count_def Let_def)
  have "la_server_plugin oe c item rec (case old of None \<Rightarrow> \<lparr>rc_type = 0, rc_data = [], rc_length = 0\<rparr> | Some r \<Rightarrow> r) (err, None) st3 =
      Some ((NO_ERROR, Some tp), AU_RESTORE au (on_sv (\<lambda>sv. sv\<lparr>sv_plugin :=
        (sv_plugin sv)\<lparr>pl_sent_lsa := it_lsa item, pl_update_cnt := pl_update_cnt (sv_plugin sv) + 1\<rparr>\<rparr>) st5))"
    unfolding la_server_plugin_def using assms(10,11) p by simp
  then show ?thesis
    unfolding la_apply_update_log_server_side_def using assms(1-8)
    by (simp add: la_server_end_def Let_def AU_RESTORE_def connect_error_def)
qed

lemma failed_update_reported_as_success_witness:
  "\<exists>io src st'. la_apply_update_log_server_side io (ex_la_conf\<lparr>cf_enable_plugin := True\<rparr>) ex_slave_conf ex_lzo
     (ex_slave\<lparr>oe_update := \<lambda>c k r w. (-5, w)\<rparr>) ex_row_item (ex_slave_state, src) = Some (NO_ERROR, st') \<and> sv_update_counter (fst st') = 1"
proof -
  let ?oe = "ex_slave\<lparr>oe_update := \<lambda>c k r w. (-5, w)\<rparr>" let ?cf = "ex_la_conf\<lparr>cf_enable_plugin := True\<rparr>"
  obtain io :: "ex_world la_io" and src len zs' src' where b: "la_update_begin io ?cf ex_slave_conf ex_lzo ?oe ex_row_item (ex_slave_state, src) =
      Some (Inr (\<lparr>rc_type = 2, rc_data = ex_row_data, rc_length = len\<rparr>, None), ex_slave_state\<lparr>sv_zips := zs'\<rparr>, src')" "len \<in> {19, 21}"
    by (rule ex_update_begin [of ?cf]) simp_all
  obtain pb vols w where src': "src' = (pb, vols, w)" by (cases src')
  define s1 where "s1 = (ex_slave_state\<lparr>sv_zips := zs'\<rparr>, pb, vols, w)"
  define s4 where "s4 = (ex_slave_state\<lparr>sv_zips := zs', sv_au_disable := 1\<rparr>, pb, vols, w @ ex_columns)"
  have c: "call (oe_find_class ?oe [116]) s1 = (Some 1, s1)" "call (oe_update ?oe 1 k r) s1 = (-5, s1)" "(-5 :: errcode) \<noteq> NO_ERROR"
    "call (oe_plugin_update ?oe None (Some 5) k l) s4 = (NO_ERROR, s4)" for k r l
    by (simp_all add: call_def ex_slave_def s1_def s4_def)
  have t: "la_server_templates ?oe 1 \<lparr>rc_type = 2, rc_data = ex_row_data, rc_length = len\<rparr>
      (case None of None \<Rightarrow> \<lparr>rc_type = 0, rc_data = [], rc_length = 0\<rparr> | Some r \<Rightarrow> r) None s1 = Some (0, (Inr None, Some 5), s4)"
    using ex_disk_to_obj [OF b(2), of 5 w]
    by (simp add: la_server_templates_def s1_def s4_def call_def ex_slave_def AU_SAVE_AND_DISABLE_def on_sv_def slv_disk_to_obj_def
        la_update_old_def la_server_ready_def effect_def la_plugin_up_def ex_slave_state_def)
  have e: "cf_enable_plugin ?cf" "sc_master ex_slave_conf" "sc_msg_update ex_slave_conf" "\<not> sc_sql_logging ex_slave_conf"
    by (simp_all add: ex_slave_conf_def)
  have "sv_update_counter (fst s4) + 1 = 1" by (simp add: s4_def ex_slave_state_def)
  with failed_update_reported_as_success [OF b(1) [unfolded src', folded s1_def] ex_item_class e c(1,2,3) t c(4)] show ?thesis by metis
qed

text \<open>
  A schema change is applied and counted as failed. When switching to the
  owner of the statement fails, the statement is run all the same; it succeeds,
  is counted as applied, and the call returns the error of the switch and counts
  a failure.
\<close>

theorem schema_change_applied_and_failed:
  assumes "\<not> cf_enable_plugin cf" and "la_flush_unflushed_insert cf oe None st = Some (NO_ERROR, st0)"
    and "it_item_type item \<in> set owner_stmts" and "it_db_user item = Some user" and "c_string user \<noteq> []"
    and "call (oe_find_user oe (c_string user)) st0 = (Some u, st1)" and "call (oe_set_user oe u) st1 = (err, st2)" and "err \<noteq> NO_ERROR"
    and "\<forall>w. fst (oe_execute oe (oe_get_string oe (it_key item)) w) = 0" and "\<forall>w. fst (oe_query_end oe w) = NO_ERROR"
  shows "\<exists>st'. la_apply_schema_log cf sc oe item st = Some (err, st') \<and>
    sv_schema_counter (fst st') = sv_schema_counter (fst st2) + 1 \<and> sv_fail_counter (fst st') = sv_fail_counter (fst st2) + 1"
proof -
  have ow: "la_schema_owner oe item st0 = (Inr (err, None), st2)"
    using assms(3-8) by (simp add: la_schema_owner_def Let_def)
  have q: "\<exists>st''. la_update_query_execute oe (oe_get_string oe (it_key item)) False s = (NO_ERROR, st'') \<and> fst st'' = fst s" for s
  proof -
    obtain r s1 where e: "call (oe_execute oe (oe_get_string oe (it_key item))) s = (r, s1)" by (metis surj_pair)
    obtain r2 s2 where f: "call (oe_query_end oe) s1 = (r2, s2)" by (metis surj_pair)
    have "r = 0" using e assms(9) by (cases s) (auto simp: call_def split: prod.splits, metis fst_conv)
    moreover have "r2 = 0" using f assms(10) by (cases s1) (auto simp: call_def split: prod.splits, metis fst_conv)
    ultimately show ?thesis using e f call_fst [OF e] call_fst [OF f] by (simp add: la_update_query_execute_def)
  qed
  have x: "\<exists>st3. la_schema_execute sc oe item err None st2 = Some (err, st3) \<and>
      fst st3 = (fst st2)\<lparr>sv_schema_counter := sv_schema_counter (fst st2) + 1\<rparr>"
  proof -
    let ?s1 = "if sc_sql_logging sc then effect (oe_sql_schema oe item) st2 else st2"
    let ?s2 = "case map_option c_string (it_ha_sys_prm item) of None \<Rightarrow> ?s1 | Some p \<Rightarrow> effect (oe_set_parameters oe p) ?s1"
    have "fst ?s2 = fst st2" by (auto split: option.splits)
    moreover obtain st'' where "la_update_query_execute oe (oe_get_string oe (it_key item)) False ?s2 = (NO_ERROR, st'')" "fst st'' = fst ?s2"
      using q by blast
    ultimately show ?thesis by (simp add: la_schema_execute_def Let_def split: option.split)
  qed
  have t: "it_item_type item \<in> set schema_stmts" "it_item_type item \<noteq> CUBRID_STMT_TRUNCATE"
    using assms(3) by (auto simp: owner_stmts_def schema_stmts_def)
  from x obtain st3 where "la_schema_execute sc oe item err None st2 = Some (err, st3)"
    "fst st3 = (fst st2)\<lparr>sv_schema_counter := sv_schema_counter (fst st2) + 1\<rparr>" by blast
  then show ?thesis using assms(1,2,8) t ow by (simp add: la_apply_schema_log_def fail_count_def)
qed

lemma schema_change_applied_and_failed_witness:
  "\<exists>st'. la_apply_schema_log ex_la_conf ex_slave_conf (ex_slave\<lparr>oe_set_user := \<lambda>u w. (-7, w), oe_get_string := \<lambda>v. v\<rparr>)
     (ex_row_item\<lparr>it_item_type := 4, it_db_user := Some [100, 0]\<rparr>) (ex_slave_state, ex_pb, ex_vols, []) = Some (-7, st') \<and>
     sv_schema_counter (fst st') = 1 \<and> sv_fail_counter (fst st') = 1"
proof -
  let ?oe = "ex_slave\<lparr>oe_set_user := \<lambda>u w. (-7, w), oe_get_string := \<lambda>v. v\<rparr>"
  let ?st = "(ex_slave_state, ex_pb, ex_vols, []) :: ex_world slv"
  have f: "la_flush_unflushed_insert ex_la_conf ?oe None ?st = Some (NO_ERROR, ?st)" by (simp add: la_flush_unflushed_insert_def ex_slave_state_def)
  have c: "call (oe_find_user ?oe (c_string [100, 0])) ?st = (Some 2, ?st)" "call (oe_set_user ?oe 2) ?st = (-7, ?st)"
    by (simp_all add: call_def ex_slave_def)
  from schema_change_applied_and_failed [OF _ f _ _ _ c, of "ex_row_item\<lparr>it_item_type := 4, it_db_user := Some [100, 0]\<rparr>" ex_slave_conf]
  show ?thesis by (simp add: ex_area owner_stmts_def c_string_def ex_slave_def ex_slave_state_def)
qed

end
