(* ===== verification/Row_Insert.thy ===== *)
theory Row_Insert
  imports La_Slave_Run
begin

text \<open>
  An insertion from the server to the slave: what the server records for a row
  that is inserted (\<^verbatim>\<open>transaction/log_manager.c\<close>, \<^verbatim>\<open>transaction/replication.c\<close>),
  the item that the applier makes of it and the row that it gets for the item
  (\<^verbatim>\<open>transaction/log_applier.c\<close>), for the properties of the root theory.
\<close>

text \<open>The log record and the replication record of a row that is inserted.\<close>

lemma insert_recorded:
  fixes st st1 :: log_srv and td :: log_tdes_repl
  assumes "area_size_ok sz" and "agree sz (ls_prior st) gl" and "repl_reach (ls_tdes st)" and "logs_rows le addr (ls_gen st)"
    and "env_ok en" and "re_data_mem en" and "td_suppress_replication (ls_tdes st) = 0" and "re_class_name en = Some nm"
    and "log_append_undoredo_recdes2 sz le RVHF_INSERT addr None (Some (ty, data)) st = Some st1"
    and "repl_log_insert_td en inst_oid LOG_REPLICATION_DATA RVREPL_INSERT key (length key) repl_info (ls_tdes st1) = Some (err, td)"
    and "lsa_fits (lsa_of (gl_append gl))" and "\<not> LSA_ISNULL (lsa_of (gl_append gl))"
    and "int (length (or_pack_string [] (Some nm) @ key)) < 2 ^ 31"
  obtains node r where "row_node (ge_lzo (ls_gen st)) RVHF_INSERT addr [] (wr_int 2 ty @ data) node"
    "reserve_all sz [(node, ls_tdes st)] (ls_prior st) = Some (ls_prior st1)" "repl_reach td" "r \<in> set (recs td)" "must_append True r"
    "rr_repl_type r = LOG_REPLICATION_DATA" "rr_rcvindex r = RVREPL_INSERT" "rr_repl_data r = Some (or_pack_string [] (Some nm) @ key)"
    "repl_target r = lsa_of (gl_append gl)" "repl_fits r"
proof -
  let ?lsa = "lsa_of (gl_append gl)"
  from append_row [OF assms(1,2,4), of RVHF_INSERT "recdes_crumbs None" "recdes_crumbs (Some (ty, data))"] assms(9) obtain node where
    1: "row_node (ge_lzo (ls_gen st)) RVHF_INSERT addr [] (wr_int 2 ty @ data) node"
    "reserve_all sz [(node, ls_tdes st)] (ls_prior st) = Some (ls_prior st1)"
    "ls_tdes st1 = log_note_repl_lsa le RVHF_INSERT (td_appended (gl_append gl) (ls_tdes st))"
    by (auto simp: log_append_undoredo_recdes2_def recdes_crumbs_def)
  have t1: "ls_tdes st1 = td_appended (gl_append gl) (ls_tdes st)\<lparr>td_repl_insert_lsa := ?lsa\<rparr>"
    using 1(3) assms(4) by (simp add: log_note_repl_lsa_def logs_rows_def td_appended_def)
  have reach1: "repl_reach (ls_tdes st1)" unfolding 1(3) by (rule repl_reach_logged [OF assms(3)])
  from repl_log_insert_ok [OF assms(5) repl_reach_inv [OF reach1] order_refl, where key = key and inst_oid = inst_oid and
      log_type = LOG_REPLICATION_DATA and rcvindex = RVREPL_INSERT and repl_info = repl_info and nm = nm]
  obtain r where r: "recs td = recs (ls_tdes st1) @ [r]" "rr_repl_type r = LOG_REPLICATION_DATA" "rr_rcvindex r = RVREPL_INSERT"
    "rr_repl_data r = Some (or_pack_string [] (Some nm) @ key)" "rr_lsa r = ?lsa" "rr_must_flush r \<noteq> LOG_REPL_DONT_NEED_FLUSH"
    using assms(6-8,10,12) t1 by (auto simp: repl_insert_rcvindex_def td_appended_def)
  have reach: "repl_reach td" by (rule reach_insert [OF reach1 assms(5) order_refl assms(10)])
  have rm: "r \<in> set (recs td)" "must_append True r" using r by (simp_all add: must_append_def)
  have rr: "rr_ok r" using repl_reach_inv [OF reach] rm(1) by (simp add: repl_td_inv_def)
  have tg: "repl_target r = ?lsa" using r(3,5) by (simp add: repl_target_def)
  have "repl_fits r" using rr r(3,4) tg assms(11,13) by (simp add: repl_fits_def rr_ok_def)
  then show thesis using that [OF 1(1,2) reach rm r(2-4) tg] by blast
qed

text \<open>
  A row that is inserted, as the applier finds it: the item that it makes of
  the replication record and, whatever its page cache holds when it gets the
  row of the item, the row.
\<close>

lemma inserted_row_item:
  fixes st st1 :: log_srv and td :: log_tdes_repl
  assumes "area_size_ok sz" and "agree sz (ls_prior st) gl" and "pi_list (ls_prior st) = []" and "\<forall>w. fst (alloc w)"
    and "repl_reach (ls_tdes st)" and "logs_rows le addr (ls_gen st)" and "lzo_ok (ge_lzo (ls_gen st))"
    and "env_ok en" and "re_data_mem en" and "td_suppress_replication (ls_tdes st) = 0" and "re_class_name en = Some nm" and "str_ok (Some nm)"
    and "log_append_undoredo_recdes2 sz le RVHF_INSERT addr None (Some (ty, data)) st = Some st1"
    and "repl_log_insert_td en inst_oid LOG_REPLICATION_DATA RVREPL_INSERT key (length key) repl_info (ls_tdes st1) = Some (err, td)"
    and "log_append_repl_info_and_unlock_log sz alloc td (ls_prior st1) w = Some (td', pi', w')"
    and "logpb_append_prior_lsa_list sz (pi_list pi') gl = Some gl'"
    and "src_ok io cfg (gl_pages gl') P Q s"
    and "\<forall>q. fst (gl_append gl) \<le> q \<and> q \<le> fst (gl_append gl') \<longrightarrow> P q"
    and "lsa_fits (lsa_of (gl_append gl))" and "\<not> LSA_ISNULL (lsa_of (gl_append gl))"
    and "int (length (or_pack_string [] (Some nm) @ key)) < 2 ^ 31" and "int (length data) + 2 < 2 ^ 31"
    and "plain_row RVHF_INSERT ty"
  obtains n item s' where "n \<in> set (pi_list pi')" "lr_type (pn_log_header n) = LOG_REPLICATION_DATA"
    "lr_trid (pn_log_header n) = td_trid td"
    "la_make_repl_item (la_page_src io cfg) sz (src_alloc io) up (gl_pages gl' (lsa_pageid (pn_start_lsa n)))
      LOG_REPLICATION_DATA (pn_start_lsa n) s = Some (Some item, s')"
    "map_option c_string (it_class_name item) = Some nm" "it_item_type item = RVREPL_INSERT" "it_key item = Some (up_mem_value up key)"
    "P (lsa_pageid (it_target_lsa item))"
    "\<And>zs s. zips_ok zs \<Longrightarrow> src_ok io cfg (gl_pages gl') P Q s \<Longrightarrow>
      \<exists>len zs' s'. la_get_recdes (la_page_src io cfg) src_release sz (src_alloc io) (ge_lzo (ls_gen st)) False (it_target_lsa item)
        (gl_pages gl' (lsa_pageid (it_target_lsa item))) zs s =
       Some (\<lparr>rw_error = NO_ERROR, rw_rcvindex = Some RVHF_INSERT, rw_recdes = Some \<lparr>rc_type = ty, rc_data = data, rc_length = len\<rparr>,
         rw_old = None, rw_ovfyn = False\<rparr>, zs', s') \<and> len \<in> {int (length data), int (length data) + 2}"
proof -
  let ?lsa = "lsa_of (gl_append gl)"
  obtain node r where 1: "row_node (ge_lzo (ls_gen st)) RVHF_INSERT addr [] (wr_int 2 ty @ data) node"
    "reserve_all sz [(node, ls_tdes st)] (ls_prior st) = Some (ls_prior st1)" and reach: "repl_reach td"
    and rm: "r \<in> set (recs td)" "must_append True r"
    and r: "rr_repl_type r = LOG_REPLICATION_DATA" "rr_rcvindex r = RVREPL_INSERT" "rr_repl_data r = Some (or_pack_string [] (Some nm) @ key)"
    and tg: "repl_target r = ?lsa" and fits: "repl_fits r"
    by (rule insert_recorded [OF assms(1,2,5,6,8-11,13,14,19-21)])
  have rq: "\<forall>(node, td) \<in> set [(node, ls_tdes st)]. request_ok sz node" using row_node_request [OF assms(1) 1(1)] by simp
  from committed_record_item [OF assms(1-4) reach 1(2) rq assms(15-18) rm r(3) fits] obtain n s1 where
    n: "n \<in> set (pi_list pi')" "lr_type (pn_log_header n) = rr_repl_type r" "lr_trid (pn_log_header n) = td_trid td"
    "src_ok io cfg (gl_pages gl') P Q s1"
    "la_make_repl_item (la_page_src io cfg) sz (src_alloc io) up (gl_pages gl' (lsa_pageid (pn_start_lsa n)))
      LOG_REPLICATION_DATA (pn_start_lsa n) s =
     Some (la_fill_repl_item (src_alloc io) up LOG_REPLICATION_DATA (rr_rcvindex r) (or_pack_string [] (Some nm) @ key)
       (la_new_repl_item (pn_start_lsa n) (repl_target r)) s1)" .
  from fill_data_item [OF assms(12) src_alloc_ok n(4), of up "rr_rcvindex r" key "pn_start_lsa n" "repl_target r"] n(5) obtain item s' where
    item: "la_make_repl_item (la_page_src io cfg) sz (src_alloc io) up (gl_pages gl' (lsa_pageid (pn_start_lsa n)))
      LOG_REPLICATION_DATA (pn_start_lsa n) s = Some (Some item, s')" "map_option c_string (it_class_name item) = Some nm"
    "it_item_type item = RVREPL_INSERT" "it_key item = Some (up_mem_value up key)" "it_target_lsa item = ?lsa"
    using r(2) tg by auto
  have pr: "rec_ok sz (pi_prior_lsa (ls_prior st1))"
    using reserve_and_append [OF assms(1,2) rq] 1(2) unfolding agree_def by auto
  then obtain reqs :: "(log_prior_node \<times> log_tdes_repl) list" where
    reqs: "reserve_all sz reqs (ls_prior st1) = Some pi'" "\<forall>(node, td) \<in> set reqs. request_ok sz node"
    using commit_requests [OF assms(1,4) reach _ assms(15)] by blast
  have all: "reserve_all sz ((node, ls_tdes st) # reqs) (ls_prior st) = Some pi'"
    using reserve_all_append [of sz "[(node, ls_tdes st)]" reqs "ls_prior st"] 1(2) reqs(1) by simp
  have "\<forall>(node, td) \<in> set ((node, ls_tdes st) # reqs). request_ok sz node" using rq reqs(2) by simp
  from reserve_and_append [OF assms(1,2) this] all assms(3,16) have "agree sz pi' gl'" "gpos sz (gl_append gl) \<le> gpos sz (gl_append gl')" by auto
  then have "fst (gl_append gl) \<le> fst (gl_append gl')" using append_page_le unfolding agree_def by blast
  then have P: "P (lsa_pageid (it_target_lsa item))" using assms(18) item(5) by (simp add: lsa_of_def)
  have u: "int (length ([] :: byte list)) < 2 ^ 31" "fst (gl_append gl) = lsa_pageid ?lsa" by (simp_all add: lsa_of_def)
  have "\<exists>len zs' s'. la_get_recdes (la_page_src io cfg) src_release sz (src_alloc io) (ge_lzo (ls_gen st)) False (it_target_lsa item)
        (gl_pages gl' (lsa_pageid (it_target_lsa item))) zs s =
       Some (\<lparr>rw_error = NO_ERROR, rw_rcvindex = Some RVHF_INSERT, rw_recdes = Some \<lparr>rc_type = ty, rc_data = data, rc_length = len\<rparr>,
         rw_old = None, rw_ovfyn = False\<rparr>, zs', s') \<and> len \<in> {int (length data), int (length data) + 2}"
    if "zips_ok zs" "src_ok io cfg (gl_pages gl') P Q s" for zs s
    using logged_row_read [OF assms(1-3) all reqs(2) assms(16,18) that(2) 1(1) assms(7) u(1) assms(22) that(1) assms(23), unfolded u(2)]
    unfolding item(5) by blast
  with n(1-3) item(1-4) r(1) P show thesis using that by metis
qed

section \<open>A row that is inserted, for the witnesses\<close>

lemma ex_insert_server:
  "agree 80 (ls_prior ex_srv) ex_gl" "pi_list (ls_prior ex_srv) = []" "\<forall>w. fst ((\<lambda>w :: unit. (True, w)) w)" "repl_reach (ls_tdes ex_srv)"
  "logs_rows ex_srv_env ex_addr (ls_gen ex_srv)" "lzo_ok (ge_lzo (ls_gen ex_srv))" "env_ok ex_mem" "re_data_mem ex_mem"
  "td_suppress_replication (ls_tdes ex_srv) = 0" "re_class_name ex_mem = Some [116]" "str_ok (Some [116])" "ge_lzo (ls_gen ex_srv) = ex_lzo"
  "lsa_fits (lsa_of (gl_append ex_gl))" "\<not> LSA_ISNULL (lsa_of (gl_append ex_gl))"
  "int (length (or_pack_string [] (Some [116]) @ [1, 2, 3, 4])) < 2 ^ 31" "plain_row RVHF_INSERT 2" "zips_ok (ex_zip, ex_zip)"
proof -
  have i: "ls_prior ex_srv = ex_prior" "ls_tdes ex_srv = ex_repl_td" "ls_gen ex_srv = ex_gen" "ge_lzo ex_gen = ex_lzo"
    by (simp_all add: ex_srv_def ex_gen_def)
  show "agree 80 (ls_prior ex_srv) ex_gl" "pi_list (ls_prior ex_srv) = []" "\<forall>w. fst ((\<lambda>w :: unit. (True, w)) w)" "repl_reach (ls_tdes ex_srv)"
    "logs_rows ex_srv_env ex_addr (ls_gen ex_srv)" "lzo_ok (ge_lzo (ls_gen ex_srv))" "ge_lzo (ls_gen ex_srv) = ex_lzo"
    using ex_append_ok(2,3) ex_repl_td_reach ex_logs_rows ex_lzo_ok by (simp_all add: i)
  show "env_ok ex_mem" "re_data_mem ex_mem" "td_suppress_replication (ls_tdes ex_srv) = 0" "re_class_name ex_mem = Some [116]" "str_ok (Some [116])"
    "lsa_fits (lsa_of (gl_append ex_gl))" "\<not> LSA_ISNULL (lsa_of (gl_append ex_gl))"
    "int (length (or_pack_string [] (Some [116]) @ [1, 2, 3, 4])) < 2 ^ 31" "plain_row RVHF_INSERT 2" "zips_ok (ex_zip, ex_zip)"
    by (simp_all add: i env_ok_def ex_mem_def str_ok_def ex_repl_td_def ex_gl_def lsa_of_def lsa_fits_def LSA_ISNULL_def length_or_pack_string
        or_packed_string_length_def Let_def zips_ok_def ex_zip_def plain_row_def)
qed

lemma ex_insert_run:
  obtains st1 :: log_srv and td td' :: log_tdes_repl and pi' :: log_prior_info and gl' where
    "log_append_undoredo_recdes2 80 ex_srv_env RVHF_INSERT ex_addr None (Some (2, data)) ex_srv = Some st1"
    "repl_log_insert_td ex_mem OID_NULL LOG_REPLICATION_DATA RVREPL_INSERT [1, 2, 3, 4] (length [1, 2, 3, 4 :: byte])
       REPL_INFO_TYPE_STMT_NORMAL (ls_tdes st1) = Some (NO_ERROR, td)"
    "log_append_repl_info_and_unlock_log 80 (\<lambda>w :: unit. (True, w)) td (ls_prior st1) () = Some (td', pi', ())"
    "logpb_append_prior_lsa_list 80 (pi_list pi') ex_gl = Some gl'"
    "\<forall>q \<le> fst (gl_append gl'). lp_logical_pageid (gl_pages gl' q) = q"
    "\<forall>q. fst (gl_append ex_gl) \<le> q \<and> q \<le> fst (gl_append gl') \<longrightarrow> 30 \<le> q \<and> q \<le> fst (gl_append gl')"
proof -
  note A = ex_insert_server
  note a = ex_append_ok(1)
  obtain node st1 where r0: "log_append_undoredo_crumbs 80 ex_srv_env RVHF_INSERT ex_addr (recdes_crumbs None) (recdes_crumbs (Some (2, data))) ex_srv = Some st1"
    "row_node (ge_lzo (ls_gen ex_srv)) RVHF_INSERT ex_addr (concat (recdes_crumbs None)) (concat (recdes_crumbs (Some (2, data)))) node"
    and rn: "reserve_all 80 [(node, ls_tdes ex_srv)] (ls_prior ex_srv) = Some (ls_prior st1)"
    and t1: "ls_tdes st1 = log_note_repl_lsa ex_srv_env RVHF_INSERT (td_appended (gl_append ex_gl) (ls_tdes ex_srv))"
    by (rule append_row [OF a A(1,5)])
  have s1: "log_append_undoredo_recdes2 80 ex_srv_env RVHF_INSERT ex_addr None (Some (2, data)) ex_srv = Some st1"
    using r0(1) by (simp add: log_append_undoredo_recdes2_def)
  have reach1: "repl_reach (ls_tdes st1)" unfolding t1 by (rule repl_reach_logged [OF A(4)])
  have "td_suppress_replication (ls_tdes st1) = 0" by (simp add: t1 log_note_repl_lsa_def td_appended_def A(9))
  with repl_log_insert_ok [OF A(7) repl_reach_inv [OF reach1] order_refl, where key = "[1, 2, 3, 4]" and inst_oid = OID_NULL and
      log_type = LOG_REPLICATION_DATA and rcvindex = RVREPL_INSERT and repl_info = REPL_INFO_TYPE_STMT_NORMAL and nm = "[116]"] A(8,10)
  obtain td where td: "repl_log_insert_td ex_mem OID_NULL LOG_REPLICATION_DATA RVREPL_INSERT [1, 2, 3, 4] (length [1, 2, 3, 4 :: byte])
      REPL_INFO_TYPE_STMT_NORMAL (ls_tdes st1) = Some (NO_ERROR, td)" by auto
  have reach: "repl_reach td" by (rule reach_insert [OF reach1 A(7) order_refl td])
  have rq: "\<forall>(node, td) \<in> set [(node, ls_tdes ex_srv)]. request_ok 80 node" using row_node_request [OF a r0(2)] by simp
  obtain td' pi' w' gl' where c: "log_append_repl_info_and_unlock_log 80 (\<lambda>w :: unit. (True, w)) td (ls_prior st1) () = Some (td', pi', w')"
    "logpb_append_prior_lsa_list 80 (pi_list pi') ex_gl = Some gl'" "agree 80 pi' gl'"
    by (rule commit_written [OF a A(1,2) rn rq A(3) reach])
  have "\<forall>q \<le> fst (gl_append gl'). lp_logical_pageid (gl_pages gl' q) = q" using c(3) unfolding agree_def areas_ok_def by metis
  then show thesis using that [OF s1 td _ c(2)] c(1) by (simp add: ex_gl_def)
qed

end
