(* ===== verification/La_Main.thy ===== *)
theory La_Main
  imports La_Invariant
begin

text \<open>
  The main loop of the log applier (\<^verbatim>\<open>transaction/log_applier.c\<close>,
  \<^verbatim>\<open>la_apply_log_file\<close> from line 9815 on, with \<^verbatim>\<open>la_apply_pre\<close> and
  \<^verbatim>\<open>la_unlock_dbname\<close>): fetch the log header, remove archives, let go of the
  database when there is nothing more to apply, get the page of the next
  record, process its records, commit and report the state.

  One round is a sequence of stages; a stage goes on to the next one
  (\<open>It_go\<close>) or ends the round the way the source does, by \<^verbatim>\<open>continue\<close>,
  \<^verbatim>\<open>break\<close> or \<^verbatim>\<open>return\<close>. \<open>None\<close> is a call that does not return. Sleeping
  and messages have no effect on the state and are left out, and so is what
  \<^verbatim>\<open>la_shutdown\<close> frees before the process ends.
\<close>

section \<open>State and environment\<close>

abbreviation (input) LOGPAGEID_MAX :: int where "LOGPAGEID_MAX \<equiv> 0x7fffffffffff"
abbreviation (input) LA_GET_PAGE_RETRY_COUNT :: nat where "LA_GET_PAGE_RETRY_COUNT \<equiv> 10"
abbreviation (input) INT_MAX :: int where "INT_MAX \<equiv> 2147483647"

text \<open>
  What the main loop asks of its surroundings: the allocations of
  \<^verbatim>\<open>la_apply_pre\<close>; releasing the lock of the database (whether it is still
  locked, and the descriptor afterwards); removing archive files and noting the
  last one removed; the apply plug-in, whose state is part of the world: its
  synchronization with the state of the server, the page it needs, whether it
  waits for the other side at a page, stopping it (and clearing the flag that
  the server is the master) and reporting its failure;
  and the HA mode of the slave server.
\<close>

record 'w la_main_env =
  mn_pre_mem :: "'w \<Rightarrow> bool \<times> 'w"
  mn_unlock :: "bool \<Rightarrow> int \<Rightarrow> 'w \<Rightarrow> (bool \<times> int) \<times> 'w"
  mn_unlink :: "int list \<Rightarrow> 'w \<Rightarrow> 'w"
  mn_save_deleted :: "int \<Rightarrow> 'w \<Rightarrow> 'w"
  mn_plugin_sync :: "int \<Rightarrow> 'w \<Rightarrow> 'w"
  mn_plugin_required :: "'w \<Rightarrow> log_pageid option"
  mn_plugin_waits :: "log_pageid \<Rightarrow> 'w \<Rightarrow> bool"
  mn_plugin_stop :: "'w \<Rightarrow> 'w"
  mn_plugin_failed :: "'w \<Rightarrow> 'w"
  mn_ha_mode :: "'w \<Rightarrow> int \<times> 'w"

record la_main_conf =
  mc_remove_interval :: int
  mc_log_max_archives :: int
  mc_wait_time :: int
  mc_max_commit_interval :: int

text \<open>
  The local variables that live across rounds; \<open>lo_last_time_deleted\<close> is
  \<^verbatim>\<open>la_Info.last_time_archive_deleted\<close> and \<open>lo_delay_idx\<close> the static index of
  \<^verbatim>\<open>la_get_adaptive_time_commit_interval\<close>.
\<close>

record la_loop =
  lo_error :: errcode
  lo_last_nxarv_num :: int
  lo_last_time_deleted :: int
  lo_last_eof_time :: int
  lo_last_eof_lsa :: log_lsa
  lo_commit_interval :: int
  lo_delay_hist :: "int list"
  lo_delay_idx :: nat
  lo_time_commit :: int
  lo_retry_count :: nat

datatype la_iter = It_go | It_continue | It_break | It_return errcode

type_synonym ('v, 'w) la_main = "la_loop \<times> ('v, 'w) la_info"

section \<open>The lock of the database\<close>

definition la_unlock_dbname :: "'w la_main_env \<Rightarrow> bool \<Rightarrow> ('v, 'w) la_info \<Rightarrow> errcode \<times> ('v, 'w) la_info" where
  "la_unlock_dbname mn clear_owner info =
     (if li_db_lockf_vdes info = NULL_VOLDES then (NO_ERROR, info)
      else case mn_unlock mn clear_owner (li_db_lockf_vdes info) (li_w info) of
             ((locked, vdes), w) \<Rightarrow>
               if locked then (ER_FAILED, info\<lparr>li_w := w, li_db_lockf_vdes := vdes\<rparr>)
               else (NO_ERROR, info\<lparr>li_w := w, li_db_lockf_vdes := vdes, li_is_role_changed := False\<rparr>))"

text \<open>Stopping the plug-in and releasing the lock, which the loop does at three places.\<close>

definition la_main_release :: "la_config \<Rightarrow> 'w la_main_env \<Rightarrow> ('v, 'w) la_main \<Rightarrow> ('v, 'w) la_main" where
  "la_main_release cf mn st =
     (case st of (lo, info) \<Rightarrow>
        case la_unlock_dbname mn True (if cf_enable_plugin cf then info\<lparr>li_w := mn_plugin_stop mn (li_w info)\<rparr> else info) of
          (err, info') \<Rightarrow> (lo\<lparr>lo_error := err\<rparr>, info'))"

section \<open>The header and the archives\<close>

definition la_main_header :: "'w la_io \<Rightarrow> ('v, 'w) la_main \<Rightarrow> la_iter \<times> ('v, 'w) la_main" where
  "la_main_header io st =
     (case st of (lo, info) \<Rightarrow>
        let pb = la_decache_page_buffers (lsa_pageid (li_final_lsa info)) LOGPAGEID_MAX
              (la_release_all_page_buffers NULL_PAGEID (li_pb info))
        in case la_fetch_log_hdr io (li_vols info) (li_w info) of
             (err, vols, w) \<Rightarrow>
               let info1 = info\<lparr>li_pb := pb, li_vols := vols, li_w := w\<rparr>; lo1 = lo\<lparr>lo_error := err\<rparr>
               in if err \<noteq> NO_ERROR then (It_break, lo1, set_shutdown info1) else (It_go, lo1, info1))"

text \<open>How many archives may be removed in this round.\<close>

definition la_main_arv_count :: "la_main_conf \<Rightarrow> ('v, 'w) la_env \<Rightarrow> ('v, 'w) la_main \<Rightarrow> int \<times> 'w" where
  "la_main_arv_count mc en st =
     (case st of (lo, info) \<Rightarrow>
        if mc_remove_interval mc = 0
        then (if lo_last_nxarv_num lo \<noteq> lh_nxarv_num (act_log_hdr (li_vols info)) then INT_MAX else 0, li_w info)
        else case en_time en (li_w info) of
               (now, w) \<Rightarrow> (if mc_remove_interval mc < now - lo_last_time_deleted lo then 1 else 0, w))"

definition la_main_archives ::
    "'w la_io \<Rightarrow> la_main_conf \<Rightarrow> la_config \<Rightarrow> ('v, 'w) la_env \<Rightarrow> 'w la_main_env \<Rightarrow> ('v, 'w) la_main \<Rightarrow> ('v, 'w) la_main option" where
  "la_main_archives io mc cf en mn st =
     (case st of (lo0, info0) \<Rightarrow>
        let hdr = act_log_hdr (li_vols info0); nx = lh_nxarv_num hdr;
            lo = (if lo_last_nxarv_num lo0 = 0 then lo0\<lparr>lo_last_nxarv_num := nx\<rparr> else lo0)
        in case la_main_arv_count mc en (lo, info0) of
             (max_count, w0) \<Rightarrow>
               let w1 = (if cf_enable_plugin cf then mn_plugin_sync mn (lh_ha_server_state hdr) w0 else w0);
                   required = (case (if cf_enable_plugin cf then mn_plugin_required mn w1 else None) of
                                 None \<Rightarrow> lsa_pageid (li_required_lsa info0) | Some p \<Rightarrow> p)
               in if \<not> 0 < max_count then Some (lo, info0\<lparr>li_w := w1\<rparr>)
                  else
                    (case la_remove_archive_logs io (li_vols info0) (mc_log_max_archives mc) required
                            (last_deleted_arv (li_vols info0)) nx max_count w1 of
                       None \<Rightarrow> None
                     | Some ((deleted, dels), w2) \<Rightarrow>
                         (case en_time en ((if 0 \<le> deleted then mn_save_deleted mn deleted else id) (mn_unlink mn dels w2)) of
                            (now, w3) \<Rightarrow>
                              Some (lo\<lparr>lo_last_nxarv_num := nx, lo_last_time_deleted := now\<rparr>,
                                    info0\<lparr>li_w := w3, li_vols := (li_vols info0)\<lparr>last_deleted_arv := deleted\<rparr>\<rparr>))))"

section \<open>A server that is gone, and nothing more to apply\<close>

definition la_main_dead ::
    "la_main_conf \<Rightarrow> la_config \<Rightarrow> ('v, 'w) la_env \<Rightarrow> 'w la_main_env \<Rightarrow> log_header \<Rightarrow> ('v, 'w) la_main \<Rightarrow> ('v, 'w) la_main" where
  "la_main_dead mc cf en mn hdr st =
     (case st of (lo, info) \<Rightarrow>
        if mc_wait_time mc < 0 then st
        else
          (case en_time en (li_w info) of
             (now, w) \<Rightarrow>
               (case (if lh_ha_server_state hdr = HA_SERVER_STATE_DEAD \<and> LSA_EQ (lo_last_eof_lsa lo) (lh_eof_lsa hdr) then
                        (if mc_wait_time mc \<le> now - lo_last_eof_time lo then la_main_release cf mn (lo, info\<lparr>li_w := w\<rparr>)
                         else (lo, info\<lparr>li_w := w\<rparr>))
                      else (lo\<lparr>lo_last_eof_time := now\<rparr>, info\<lparr>li_w := w\<rparr>)) of
                  (lo1, info1) \<Rightarrow> (lo1\<lparr>lo_last_eof_lsa := lh_eof_lsa hdr\<rparr>, info1))))"

definition la_main_done ::
    "la_config \<Rightarrow> ('v, 'w) la_env \<Rightarrow> 'w la_main_env \<Rightarrow> log_header \<Rightarrow> ('v, 'w) la_main \<Rightarrow> la_iter \<times> ('v, 'w) la_main" where
  "la_main_done cf en mn hdr st =
     (if \<not> (li_apply_state (snd st) = HA_LOG_APPLIER_STATE_DONE \<and> lh_ha_server_state hdr \<noteq> HA_SERVER_STATE_ACTIVE \<and>
            lh_ha_server_state hdr \<noteq> HA_SERVER_STATE_TO_BE_STANDBY)
      then (It_go, st)
      else
        (case la_main_release cf mn st of
           (lo, info) \<Rightarrow>
             let info1 = (if lh_ha_server_state hdr \<noteq> HA_SERVER_STATE_DEAD then info\<lparr>li_committed_lsa := li_final_lsa info\<rparr> else info)
             in if LSA_GE (li_final_lsa info1) (li_committed_lsa info1) then
                  (case la_log_commit cf en False info1 of
                     (err, info2) \<Rightarrow>
                       let lo2 = lo\<lparr>lo_error := err\<rparr>
                       in if err = ER_NET_CANT_CONNECT_SERVER \<or> err = ER_OBJ_NO_CONNECT then (It_break, lo2, set_shutdown info2)
                          else if err = ER_LC_PARTIALLY_FAILED_TO_FLUSH \<and> need_shutdown (li_vols info2) then (It_break, lo2, info2)
                          else (It_continue, lo2, info2\<lparr>li_apply_state := HA_LOG_APPLIER_STATE_RECOVERING\<rparr>))
                else (It_continue, lo, info1\<lparr>li_apply_state := HA_LOG_APPLIER_STATE_RECOVERING\<rparr>)))"

text \<open>The modes of the slave server in which the plug-in works.\<close>

definition la_main_mode :: "'w la_main_env \<Rightarrow> la_iter \<Rightarrow> ('v, 'w) la_main \<Rightarrow> la_iter \<times> ('v, 'w) la_main" where
  "la_main_mode mn out st =
     (case st of (lo, info) \<Rightarrow>
        case mn_ha_mode mn (li_w info) of
          (mode, w) \<Rightarrow>
            if mode \<noteq> HA_SERVER_STATE_ACTIVE \<and> mode \<noteq> HA_SERVER_STATE_TO_BE_ACTIVE
            then (It_break, lo, set_shutdown (info\<lparr>li_w := w\<rparr>)) else (out, lo, info\<lparr>li_w := w\<rparr>))"

definition la_main_wait :: "la_config \<Rightarrow> 'w la_main_env \<Rightarrow> log_header \<Rightarrow> ('v, 'w) la_main \<Rightarrow> la_iter \<times> ('v, 'w) la_main" where
  "la_main_wait cf mn hdr st =
     (if lsa_pageid (lh_eof_lsa hdr) < lsa_pageid (li_final_lsa (snd st)) then (It_continue, st)
      else if cf_enable_plugin cf \<and> mn_plugin_waits mn (lsa_pageid (li_final_lsa (snd st))) (li_w (snd st))
      then la_main_mode mn It_continue st
      else (It_go, st))"

section \<open>The page of the next record\<close>

definition invalidate :: "nat \<Rightarrow> ('v, 'w) la_info \<Rightarrow> ('v, 'w) la_info" where
  "invalidate i info = info\<lparr>li_pb := la_invalidate_page_buffer (Some i) (li_pb info)\<rparr>"

definition la_main_no_page :: "log_header \<Rightarrow> ('v, 'w) la_main \<Rightarrow> la_iter \<times> ('v, 'w) la_main" where
  "la_main_no_page hdr st =
     (case st of (lo, info) \<Rightarrow>
        if need_shutdown (li_vols info) then (It_break, lo\<lparr>lo_error := ER_LOG_PAGE_CORRUPTED\<rparr>, info)
        else if lh_ha_file_status hdr \<noteq> LOG_HA_FILESTAT_SYNCHRONIZED then (It_continue, st)
        else if lsa_pageid (lh_append_lsa hdr) < lsa_pageid (li_final_lsa info) then (It_continue, st)
        else if lo_retry_count lo < LA_GET_PAGE_RETRY_COUNT then (It_continue, lo\<lparr>lo_retry_count := lo_retry_count lo + 1\<rparr>, info)
        else (It_break, lo\<lparr>lo_error := ER_LOG_PAGE_CORRUPTED, lo_retry_count := lo_retry_count lo + 1\<rparr>, set_shutdown info))"

text \<open>A page without a record: skipped when the next page is there and this one is not.\<close>

definition la_main_empty_page ::
    "'w la_io \<Rightarrow> la_config \<Rightarrow> log_header \<Rightarrow> ('v, 'w) la_info \<Rightarrow> ('v, 'w) la_info option" where
  "la_main_empty_page io cf hdr info =
     (let p = lsa_pageid (li_final_lsa info)
      in if \<not> (lh_ha_file_status hdr = LOG_HA_FILESTAT_SYNCHRONIZED \<and> p + 1 \<le> lsa_pageid (lh_eof_lsa hdr)) then Some info
         else
           (case li_page_exist io cf (p + 1) info of
              None \<Rightarrow> None
            | Some (r1, info1) \<Rightarrow>
                if r1 = LA_PAGE_DOESNOT_EXIST then Some info1
                else
                  (case li_page_exist io cf p info1 of
                     None \<Rightarrow> None
                   | Some (r2, info2) \<Rightarrow>
                       Some (if r2 = LA_PAGE_DOESNOT_EXIST \<and> p < lsa_pageid (lh_eof_lsa hdr) then skip_page info2 else info2))))"

definition la_main_page ::
    "'w la_io \<Rightarrow> la_config \<Rightarrow> log_header \<Rightarrow> ('v, 'w) la_main \<Rightarrow> ((la_iter + nat) \<times> ('v, 'w) la_main) option" where
  "la_main_page io cf hdr st =
     (case st of (lo, info) \<Rightarrow>
        let p = lsa_pageid (li_final_lsa info)
        in case la_get_page_buffer io (cf_cache cf) p (li_pb info) (li_vols info) (li_w info) of
             None \<Rightarrow> None
           | Some ((None, pb), vols, w) \<Rightarrow>
               (case la_main_no_page hdr (lo, set_src (pb, vols, w) info) of (out, st') \<Rightarrow> Some (Inl out, st'))
           | Some ((Some i, pb), vols, w) \<Rightarrow>
               let info1 = set_src (pb, vols, w) info; lo1 = lo\<lparr>lo_retry_count := 0\<rparr>; page = cb_logpage (pb_log_buffer pb ! i)
               in if lp_logical_pageid page \<noteq> p then Some (Inl It_continue, lo1, invalidate i info1)
                  else if lp_offset page < 0
                  then map_option (\<lambda>info2. (Inl It_continue, lo1, info2)) (la_main_empty_page io cf hdr (invalidate i info1))
                  else Some (Inr i, lo1, info1))"

section \<open>The records of a page\<close>

text \<open>
  The loop over the records of the page in buffer \<open>i\<close>. A round ends it
  (\<open>Inl\<close>), with an error to return from the function or not, or goes on with
  the address of the record as \<^verbatim>\<open>prev_final\<close>.
\<close>

definition la_page_error ::
    "'w la_main_env \<Rightarrow> nat \<Rightarrow> errcode \<Rightarrow> ('v, 'w) la_info \<Rightarrow> errcode option \<times> ('v, 'w) la_info" where
  "la_page_error mn i err info =
     (if err = ER_NET_CANT_CONNECT_SERVER \<or> err = ER_OBJ_NO_CONNECT then (Some ER_NET_CANT_CONNECT_SERVER, info)
      else if err = ER_HA_LA_EXCEED_MAX_MEM_SIZE then (Some err, info)
      else if err = ER_LC_PARTIALLY_FAILED_TO_FLUSH \<and> need_shutdown (li_vols info) then (Some err, info)
      else if err = ER_PLUGIN_JVM_FATAL_EXCEPTION \<or> err = ER_PLUGIN_CREATE_OBJECT_FAIL
      then (Some err, info\<lparr>li_w := mn_plugin_failed mn (li_w info)\<rparr>)
      else if err = ER_LOG_PAGE_CORRUPTED \<and> \<not> need_shutdown (li_vols info) then (None, invalidate i info)
      else (None, info))"

definition page_at :: "nat \<Rightarrow> ('v, 'w) la_info \<Rightarrow> log_page" where
  "page_at i info = cb_logpage (pb_log_buffer (li_pb info) ! i)"

definition la_page_final :: "nat \<Rightarrow> ('v, 'w) la_info \<Rightarrow> log_lsa" where
  "la_page_final i info =
     (let f = li_final_lsa info
      in if lsa_offset f = 0 \<or> lsa_offset f = NULL_OFFSET then LSA (lsa_pageid f) (lp_offset (page_at i info)) else f)"

definition la_page_record ::
    "'w la_io \<Rightarrow> la_config \<Rightarrow> ('v, 'w) la_env \<Rightarrow> 'v la_values \<Rightarrow> 'w la_main_env \<Rightarrow> nat \<Rightarrow> ('v, 'w) la_info
      \<Rightarrow> ((errcode option \<times> ('v, 'w) la_info) + (log_lsa \<times> ('v, 'w) la_info)) option" where
  "la_page_record io cf en up mn i info =
     (let f = li_final_lsa info
      in case la_log_record_process io cf en up (LOG_GET_LOG_RECORD_HEADER (page_at i info) f) (page_at i info) info of
           None \<Rightarrow> None
         | Some (err, info1) \<Rightarrow>
             if err \<noteq> NO_ERROR then Some (Inl (la_page_error mn i err info1))
             else
               let forw = lr_forw_lsa (LOG_GET_LOG_RECORD_HEADER (page_at i info1) f)
               in if \<not> LSA_ISNULL forw \<and> LSA_GT (li_final_lsa info1) forw then Some (Inl (Some ER_LOG_PAGE_CORRUPTED, info1))
                  else Some (Inr (li_final_lsa info1, info1\<lparr>li_final_lsa := forw\<rparr>)))"

definition la_page_step ::
    "'w la_io \<Rightarrow> la_config \<Rightarrow> ('v, 'w) la_env \<Rightarrow> 'v la_values \<Rightarrow> 'w la_main_env \<Rightarrow> log_header \<Rightarrow> nat \<Rightarrow> log_lsa \<times> ('v, 'w) la_info
      \<Rightarrow> ((errcode option \<times> ('v, 'w) la_info) + (log_lsa \<times> ('v, 'w) la_info)) option" where
  "la_page_step io cf en up mn hdr i st =
     (case st of (prev_final, info0) \<Rightarrow>
        if lsa_pageid (li_final_lsa info0) \<noteq> cb_pageid (pb_log_buffer (li_pb info0) ! i) \<or> need_shutdown (li_vols info0)
        then Some (Inl (None, info0))
        else
          let f = la_page_final i info0; info = info0\<lparr>li_final_lsa := f\<rparr>; lrec = LOG_GET_LOG_RECORD_HEADER (page_at i info) f
          in if LSA_GT f (lh_eof_lsa hdr) then Some (Inl (None, invalidate i (info\<lparr>li_is_end_of_record := True\<rparr>)))
             else if LSA_GT f (lh_append_lsa hdr) then Some (Inl (None, invalidate i info))
             else if \<not> LSA_ISNULL prev_final \<and> \<not> LSA_EQ prev_final (lr_back_lsa lrec)
             then Some (Inl (Some ER_LOG_PAGE_CORRUPTED, info))
             else if LSA_EQ f (lh_eof_lsa hdr) \<and> lr_type lrec \<noteq> LOG_END_OF_LOG
             then Some (Inl (None, invalidate i (info\<lparr>li_is_end_of_record := True\<rparr>)))
             else la_page_record io cf en up mn i info)"

partial_function (option) la_page_loop ::
    "'w la_io \<Rightarrow> la_config \<Rightarrow> ('v, 'w) la_env \<Rightarrow> 'v la_values \<Rightarrow> 'w la_main_env \<Rightarrow> log_header \<Rightarrow> nat \<Rightarrow> log_lsa \<times> ('v, 'w) la_info
      \<Rightarrow> (errcode option \<times> ('v, 'w) la_info) option" where
  "la_page_loop io cf en up mn hdr i st =
     (case la_page_step io cf en up mn hdr i st of
        None \<Rightarrow> None
      | Some (Inl r) \<Rightarrow> Some r
      | Some (Inr st') \<Rightarrow> la_page_loop io cf en up mn hdr i st')"

section \<open>After the page\<close>

definition la_main_interval :: "la_main_conf \<Rightarrow> ('v, 'w) la_env \<Rightarrow> ('v, 'w) la_main \<Rightarrow> ('v, 'w) la_main" where
  "la_main_interval mc en st =
     (case st of (lo, info) \<Rightarrow>
        if li_log_record_time info = 0 then st
        else case en_time en (li_w info) of
               (now, w) \<Rightarrow>
                 (case la_get_adaptive_time_commit_interval (mc_max_commit_interval mc) (li_log_record_time info) now
                         (lo_commit_interval lo, lo_delay_hist lo, lo_delay_idx lo) of
                    (interval, hist, idx) \<Rightarrow>
                      (lo\<lparr>lo_commit_interval := interval, lo_delay_hist := hist, lo_delay_idx := idx\<rparr>, info\<lparr>li_w := w\<rparr>)))"

definition la_main_commit :: "la_config \<Rightarrow> ('v, 'w) la_env \<Rightarrow> ('v, 'w) la_main \<Rightarrow> la_iter \<times> ('v, 'w) la_main" where
  "la_main_commit cf en st =
     (case st of (lo, info) \<Rightarrow>
        case la_check_time_commit cf en (lo_time_commit lo) (lo_commit_interval lo) info of
          ((err, time_commit), info1) \<Rightarrow>
            let lo1 = lo\<lparr>lo_error := err, lo_time_commit := time_commit\<rparr>
            in if err = ER_NET_CANT_CONNECT_SERVER \<or> err = ER_OBJ_NO_CONNECT then (It_break, lo1, set_shutdown info1)
               else if err = ER_LC_PARTIALLY_FAILED_TO_FLUSH \<and> need_shutdown (li_vols info1) then (It_break, lo1, info1)
               else
                 (case en_mem_size en (li_w info1) of
                    (err2, w2) \<Rightarrow>
                      let info2 = info1\<lparr>li_w := w2\<rparr>; lo2 = lo1\<lparr>lo_error := err2\<rparr>
                      in if err2 = ER_HA_LA_EXCEED_MAX_MEM_SIZE then (It_break, lo2, set_shutdown info2)
                         else
                           (case la_change_state cf en info2 of
                              (err3, info3) \<Rightarrow>
                                let lo3 = lo2\<lparr>lo_error := err3\<rparr>
                                in if err3 \<noteq> NO_ERROR then (It_break, lo3, set_shutdown info3) else (It_go, lo3, info3))))"

definition la_main_end :: "la_config \<Rightarrow> 'w la_main_env \<Rightarrow> log_header \<Rightarrow> nat \<Rightarrow> ('v, 'w) la_main \<Rightarrow> la_iter \<times> ('v, 'w) la_main" where
  "la_main_end cf mn hdr i st =
     (case (if cf_enable_plugin cf then la_main_mode mn It_go st else (It_go, st)) of
        (out, lo, info) \<Rightarrow>
          if out \<noteq> It_go then (out, lo, info)
          else
            let p = lsa_pageid (li_final_lsa info);
                info1 = (if lsa_pageid (lh_eof_lsa hdr) \<le> p \<or> lsa_pageid (lh_append_lsa hdr) \<le> p \<or> li_is_end_of_record info
                         then invalidate i info else info)
            in (It_continue, if li_is_role_changed info1 then la_main_release cf mn (lo, info1) else (lo, info1)))"

section \<open>The loops\<close>

text \<open>Everything before the records of a page: the round ends, or the page is in a buffer.\<close>

definition la_main_front ::
    "'w la_io \<Rightarrow> la_main_conf \<Rightarrow> la_config \<Rightarrow> ('v, 'w) la_env \<Rightarrow> 'w la_main_env \<Rightarrow> ('v, 'w) la_main
      \<Rightarrow> ((la_iter + (log_header \<times> nat)) \<times> ('v, 'w) la_main) option" where
  "la_main_front io mc cf en mn st =
     (case la_main_header io st of
        (out1, st1) \<Rightarrow>
          if out1 \<noteq> It_go then Some (Inl out1, st1)
          else
            (case la_main_archives io mc cf en mn st1 of
               None \<Rightarrow> None
             | Some st2 \<Rightarrow>
                 let hdr = act_log_hdr (li_vols (snd st2))
                 in (case la_main_done cf en mn hdr (la_main_dead mc cf en mn hdr st2) of
                       (out3, st3) \<Rightarrow>
                         if out3 \<noteq> It_go then Some (Inl out3, st3)
                         else
                           (case la_main_wait cf mn hdr st3 of
                              (out4, st4) \<Rightarrow>
                                if out4 \<noteq> It_go then Some (Inl out4, st4)
                                else
                                  (case la_main_page io cf hdr st4 of
                                     None \<Rightarrow> None
                                   | Some (Inl out5, st5) \<Rightarrow> Some (Inl out5, st5)
                                   | Some (Inr i, st5) \<Rightarrow> Some (Inr (hdr, i), st5))))))"

definition la_main_iter ::
    "'w la_io \<Rightarrow> la_main_conf \<Rightarrow> la_config \<Rightarrow> ('v, 'w) la_env \<Rightarrow> 'v la_values \<Rightarrow> 'w la_main_env \<Rightarrow> ('v, 'w) la_main
      \<Rightarrow> (la_iter \<times> ('v, 'w) la_main) option" where
  "la_main_iter io mc cf en up mn st =
     (case la_main_front io mc cf en mn st of
        None \<Rightarrow> None
      | Some (Inl out, st1) \<Rightarrow> Some (out, st1)
      | Some (Inr (hdr, i), lo, info) \<Rightarrow>
          (case la_page_loop io cf en up mn hdr i (LSA_NULL, info) of
             None \<Rightarrow> None
           | Some (Some err, info1) \<Rightarrow> Some (It_return err, lo, info1)
           | Some (None, info1) \<Rightarrow>
               Some (case la_main_commit cf en (la_main_interval mc en (lo, info1)) of
                       (out, st2) \<Rightarrow> if out \<noteq> It_go then (out, st2) else la_main_end cf mn hdr i st2)))"

text \<open>The inner loop; it ends by itself, by a \<^verbatim>\<open>break\<close>, or by a \<^verbatim>\<open>return\<close> with an error.\<close>

partial_function (option) la_main_while ::
    "'w la_io \<Rightarrow> la_main_conf \<Rightarrow> la_config \<Rightarrow> ('v, 'w) la_env \<Rightarrow> 'v la_values \<Rightarrow> 'w la_main_env \<Rightarrow> ('v, 'w) la_main
      \<Rightarrow> (errcode option \<times> ('v, 'w) la_main) option" where
  "la_main_while io mc cf en up mn st =
     (if LSA_ISNULL (li_final_lsa (snd st)) \<or> need_shutdown (li_vols (snd st)) then Some (None, st)
      else
        (case la_main_iter io mc cf en up mn st of
           None \<Rightarrow> None
         | Some (It_return err, st') \<Rightarrow> Some (Some err, st')
         | Some (It_break, st') \<Rightarrow> Some (None, st')
         | Some (_, st') \<Rightarrow> la_main_while io mc cf en up mn st'))"

definition la_apply_pre :: "'w la_main_env \<Rightarrow> ('v, 'w) la_info \<Rightarrow> bool \<times> ('v, 'w) la_info" where
  "la_apply_pre mn info =
     (case mn_pre_mem mn (li_w info) of (ok, w) \<Rightarrow> (ok, info\<lparr>li_final_lsa := li_committed_lsa info, li_w := w\<rparr>))"

text \<open>
  The outer loop: the error the function returns. A signal may ask for the
  shutdown as well and changes the error that is returned; it is not modelled.
\<close>

partial_function (option) la_main_loop ::
    "'w la_io \<Rightarrow> la_main_conf \<Rightarrow> la_config \<Rightarrow> ('v, 'w) la_env \<Rightarrow> 'v la_values \<Rightarrow> 'w la_main_env \<Rightarrow> ('v, 'w) la_main
      \<Rightarrow> (errcode \<times> ('v, 'w) la_main) option" where
  "la_main_loop io mc cf en up mn st =
     (case la_apply_pre mn (snd st) of
        (ok, info) \<Rightarrow>
          if \<not> ok then Some (en_errid en (li_w info), (fst st)\<lparr>lo_error := en_errid en (li_w info)\<rparr>, set_shutdown info)
          else
            (case la_main_while io mc cf en up mn ((fst st)\<lparr>lo_retry_count := 0\<rparr>, info) of
               None \<Rightarrow> None
             | Some (r, st') \<Rightarrow>
                 (case r of
                    Some err \<Rightarrow> Some (err, st')
                  | None \<Rightarrow>
                      if need_shutdown (li_vols (snd st')) then Some (lo_error (fst st'), st')
                      else la_main_loop io mc cf en up mn st')))"

end
