(* ===== verification/La_Main_Run.thy ===== *)
theory La_Main_Run
  imports La_Main
begin

text \<open>
  What the main loop does to the transactions (\<^verbatim>\<open>la_apply_log_file\<close> in
  \<^verbatim>\<open>transaction/log_applier.c\<close>): the records of a page, a round of the loop and
  every state it reaches are runs of the applier (\<open>la_run\<close>, of La_Invariant), so
  its invariant holds between any two rounds. The loop over the records of a
  page ends when every record points forward; a record that points to itself
  keeps it there forever.
\<close>

section \<open>What processing a record does to the address\<close>

lemma li_final_set_src [simp]: "li_final_lsa (set_src s info) = li_final_lsa info"
  by (simp add: set_src_def split: prod.splits)

lemma li_final_set_shutdown [simp]: "li_final_lsa (set_shutdown info) = li_final_lsa info"
  by (simp add: set_shutdown_def)

lemma la_log_commit_final: "la_log_commit cf en upd info = (err, info') \<Longrightarrow> li_final_lsa info' = li_final_lsa info"
  using la_log_commit_frame(1) by (fastforce simp: commit_frame_def)

lemma la_apply_item_final:
  "la_apply_item cf en fp item info = (out, info') \<Longrightarrow> li_final_lsa info' = li_final_lsa info"
  by (auto simp: la_apply_item_def la_before_apply_def la_after_apply_def la_count_item_def Let_def split: if_splits prod.splits
      dest!: la_log_commit_final)

lemma la_apply_loop_final:
  assumes "la_apply_loop io cf en up i commit_lsa fp item cnt info = Some (res, info')"
  shows "li_final_lsa info' = li_final_lsa info"
proof -
  have "\<forall>res info'. r = (res, info') \<longrightarrow> li_final_lsa info' = li_final_lsa info"
    if "la_apply_loop io cf en up i commit_lsa fp item cnt info = Some r" for r
  proof (rule la_apply_loop.raw_induct [OF _ that], goal_cases)
    case (1 f io cf en up i commit_lsa fp item cnt info r)
    obtain out k info1 where a: "la_apply_item cf en fp item info = ((out, k), info1)" by (metis surj_pair)
    note F = la_apply_item_final [OF a]
    show ?case
      using 1(2) a F 1(1)
      by (auto simp: set_app_def split: apply_out.splits option.splits if_splits)
  qed
  then show ?thesis using assms by blast
qed

lemma la_apply_repl_log_final:
  "la_apply_repl_log io cf en up t ty lsa fp info = Some (err, info') \<Longrightarrow> li_final_lsa info' = li_final_lsa info"
  by (auto simp: la_apply_repl_log_def Let_def set_app_def la_lock_dbname_def split: option.splits if_splits list.splits prod.splits
      dest!: la_apply_loop_final)

lemma la_commit_loop_final:
  assumes "la_commit_loop io cf en up ty fp info = Some (res, info')"
  shows "li_final_lsa info' = li_final_lsa info"
proof -
  have "\<forall>res info'. r = (res, info') \<longrightarrow> li_final_lsa info' = li_final_lsa info"
    if "la_commit_loop io cf en up ty fp info = Some r" for r
  proof (rule la_commit_loop.raw_induct [OF _ that], goal_cases)
    case (1 f io cf en up ty fp info r)
    obtain err lsa info1 where a: "la_apply_commit_list io cf en up fp info = Some ((err, lsa), info1)"
      using 1(2) by (auto split: option.splits)
    have F: "li_final_lsa info1 = li_final_lsa info"
      using a by (auto simp: la_apply_commit_list_def set_commits_def Let_def split: list.splits if_splits option.splits
          dest!: la_apply_repl_log_final)
    obtain x info2 where s: "la_commit_stop en err info1 = (x, info2)" by force
    have S: "li_final_lsa info2 = li_final_lsa info1" using s by (auto simp: la_commit_stop_def split: if_splits)
    define info3 where "info3 = info2\<lparr>li_committed_lsa := lsa,
      li_commit_counter := (if ty = LOG_COMMIT then li_commit_counter info2 + 1 else li_commit_counter info2)\<rparr>"
    have "r = (x, info2) \<or> f io cf en up ty fp info3 = Some r"
      using 1(2) a s by (cases x) (auto simp: info3_def split: if_splits)
    moreover have "li_final_lsa info3 = li_final_lsa info2" by (simp add: info3_def)
    ultimately show ?case using 1(1) [of io cf en up ty fp info3 r] F S by auto
  qed
  then show ?thesis using assms by blast
qed

lemma li_page_exist_final: "li_page_exist io cf p info = Some (r, info') \<Longrightarrow> li_final_lsa info' = li_final_lsa info"
  by (auto simp: li_page_exist_def split: option.splits)

lemma la_record_commit_final:
  "la_record_commit io cf en up lrec pg info = Some (out, info') \<Longrightarrow> li_final_lsa info' = li_final_lsa info"
  by (auto simp: la_record_commit_def Let_def split: option.splits if_splits prod.splits dest!: la_commit_loop_final)

lemma la_record_queue_final: "la_record_queue add io en lrec info = (out, info') \<Longrightarrow> li_final_lsa info' = li_final_lsa info"
  by (auto simp: la_record_queue_def li_malloc_def split: prod.splits if_splits)

lemma la_record_ha_state_final:
  "la_record_ha_state io cf en pg info = Some (out, info') \<Longrightarrow> li_final_lsa info' = li_final_lsa info"
  by (auto simp: la_record_ha_state_def Let_def split: option.splits if_splits prod.splits dest!: la_log_commit_final)

lemmas record_final = la_record_commit_final la_record_queue_final la_record_ha_state_final li_page_exist_final

text \<open>The addresses the applier may go on with after a record.\<close>

definition next_page :: "log_lsa \<Rightarrow> log_lsa" where
  "next_page l = LSA (lsa_pageid l + 1) 0"

lemma la_record_switch_final:
  assumes "la_record_switch io cf en up lrec pg info = Some (out, info')"
  shows "li_final_lsa info' = li_final_lsa info \<or>
    out = Rc_return ER_INTERRUPTED \<and> li_final_lsa info' \<in> {lr_forw_lsa lrec, next_page (li_final_lsa info)}"
proof -
  have e: "li_final_lsa j = li_final_lsa info \<or> o1 = Rc_return ER_INTERRUPTED \<and> li_final_lsa j = next_page (li_final_lsa info)"
    if "la_record_end_of_log io cf info = Some (o1, j)" for o1 j
    using that by (auto simp: la_record_end_of_log_def skip_page_def next_page_def split: option.splits if_splits dest!: li_page_exist_final)
  show ?thesis
    using assms
    by (auto simp: la_record_switch_def skip_page_def next_page_def [symmetric] Let_def split: if_splits option.splits prod.splits rec_out.splits
        dest!: record_final e)
qed

lemma la_record_open_final: "la_record_open en lrec info = (err, info') \<Longrightarrow> li_final_lsa info' = li_final_lsa info"
  by (auto simp: la_record_open_def set_app_def Let_def split: if_splits prod.splits option.splits)

lemma la_log_record_process_final:
  assumes "la_log_record_process io cf en up lrec pg info = Some (err, info')"
  shows "if err = NO_ERROR then li_final_lsa info' = li_final_lsa info
    else li_final_lsa info' \<in> {li_final_lsa info, lr_forw_lsa lrec, next_page (li_final_lsa info)}"
proof (cases "la_record_corrupt lrec (li_final_lsa info)")
  case True
  with assms show ?thesis by (auto simp: la_log_record_process_def)
next
  case False
  obtain err0 info0 where o: "la_record_open en lrec info = (err0, info0)" by force
  note O = la_record_open_final [OF o]
  show ?thesis
  proof (cases "err0 = NO_ERROR")
    case F: False
    with assms False o O show ?thesis by (simp add: la_log_record_process_def)
  next
    case True
    obtain out info1 where s: "la_record_switch io cf en up lrec pg (info0\<lparr>li_is_end_of_record := False\<rparr>) = Some (out, info1)"
      using assms False o True by (auto simp: la_log_record_process_def split: option.splits)
    from la_record_switch_final [OF s] O assms False o True s show ?thesis
      by (cases out) (auto simp: la_log_record_process_def skip_page_def next_page_def split: option.splits if_splits dest!: li_page_exist_final)
  qed
qed

section \<open>The records of a page are a run of the applier\<close>

text \<open>The buffer holds the same page.\<close>

definition same_page :: "nat \<Rightarrow> ('v, 'w) la_info \<Rightarrow> ('v, 'w) la_info \<Rightarrow> bool" where
  "same_page i info info' \<longleftrightarrow> page_at i info' = page_at i info \<and>
     cb_pageid (pb_log_buffer (li_pb info') ! i) = cb_pageid (pb_log_buffer (li_pb info) ! i)"

text \<open>
  The record that the loop meets next, if it processes one: it belongs to a
  transaction if it is a replication record, it is not the end of an archive,
  it points forward, processing it returns, and the buffer still holds the page
  afterwards.
\<close>

definition record_met :: "nat \<Rightarrow> ('v, 'w) la_info \<Rightarrow> log_record_header" where
  "record_met i info = LOG_GET_LOG_RECORD_HEADER (page_at i info) (la_page_final i info)"

definition met_ok :: "'w la_io \<Rightarrow> la_config \<Rightarrow> ('v, 'w) la_env \<Rightarrow> 'v la_values \<Rightarrow> log_header \<Rightarrow> nat \<Rightarrow> ('v, 'w) la_info \<Rightarrow> bool" where
  "met_ok io cf en up hdr i info \<longleftrightarrow>
     (lsa_pageid (li_final_lsa info) = cb_pageid (pb_log_buffer (li_pb info) ! i) \<and> \<not> need_shutdown (li_vols info) \<and>
        la_page_final i info \<le> lh_eof_lsa hdr \<longrightarrow>
      record_ok (record_met i info) \<and> \<not> la_record_last (record_met i info) \<and>
      la_page_final i info < lr_forw_lsa (record_met i info) \<and>
      (\<exists>err info'. la_log_record_process io cf en up (record_met i info) (page_at i info) (info\<lparr>li_final_lsa := la_page_final i info\<rparr>) =
          Some (err, info') \<and> (err = NO_ERROR \<longrightarrow> same_page i info info')))"

lemma page_final_ge:
  assumes "0 \<le> lp_offset (page_at i info)"
  shows "li_final_lsa info \<le> la_page_final i info"
  using assms by (cases "li_final_lsa info") (auto simp: la_page_final_def Let_def less_eq_log_lsa_def less_log_lsa_def)

lemma invalidate_simps [simp]:
  "li_repl (invalidate i info) = li_repl info" "li_final_lsa (invalidate i info) = li_final_lsa info" "li_vols (invalidate i info) = li_vols info"
  by (simp_all add: invalidate_def)

lemma page_error_frame:
  "la_page_error mn i err info = (r, info') \<Longrightarrow> li_repl info' = li_repl info \<and> li_final_lsa info' = li_final_lsa info \<and> li_vols info' = li_vols info"
  by (auto simp: la_page_error_def split: if_splits)

lemma page_record_run:
  assumes "la_run io cf en up f info" and "f < li_final_lsa info" and "lrec = LOG_GET_LOG_RECORD_HEADER (page_at i info) (li_final_lsa info)"
    and "record_ok lrec" and "\<not> la_record_last lrec" and "li_final_lsa info < lr_forw_lsa lrec"
    and "la_log_record_process io cf en up lrec (page_at i info) info = Some (err, info1)" and "err = NO_ERROR \<longrightarrow> same_page i info info1"
  shows "(\<exists>r info'. la_page_record io cf en up mn i info = Some (Inl (r, info')) \<and>
      (need_shutdown (li_vols info') \<or> la_run io cf en up f info' \<and> f < li_final_lsa info')) \<or>
    (\<exists>info'. la_page_record io cf en up mn i info = Some (Inr (li_final_lsa info, info')) \<and> same_page i info info' \<and>
      li_final_lsa info' = lr_forw_lsa lrec \<and> (need_shutdown (li_vols info') \<or> la_run io cf en up (li_final_lsa info) info'))"
proof (cases "err = NO_ERROR")
  case False
  obtain r info' where e: "la_page_error mn i err info1 = (r, info')" by force
  note E = page_error_frame [OF e]
  have "la_page_record io cf en up mn i info = Some (Inl (r, info'))" using assms(3,7) False e by (simp add: la_page_record_def Let_def)
  moreover have "need_shutdown (li_vols info1) \<or> la_run io cf en up f info1" using run_failed [OF assms(1,7) False assms(5)] by blast
  then have "need_shutdown (li_vols info') \<or> la_run io cf en up f info'" using run_other E by metis
  moreover have "f < li_final_lsa info'"
  proof -
    have "f < l" if "l \<in> {li_final_lsa info, lr_forw_lsa lrec, next_page (li_final_lsa info)}" for l
      using that assms(2,6) by (cases f; cases "li_final_lsa info") (auto simp: next_page_def less_log_lsa_def)
    then show ?thesis using la_log_record_process_final [OF assms(7)] False E by simp
  qed
  ultimately show ?thesis by blast
next
  case True
  have f1: "li_final_lsa info1 = li_final_lsa info" using la_log_record_process_final [OF assms(7)] True by simp
  let ?info' = "info1\<lparr>li_final_lsa := lr_forw_lsa lrec\<rparr>"
  have p: "page_at i info1 = page_at i info" using assms(8) True by (simp add: same_page_def)
  have "\<not> LSA_GT (li_final_lsa info1) (lr_forw_lsa lrec)" using assms(6) f1 by (simp add: lsa_simps)
  then have "la_page_record io cf en up mn i info = Some (Inr (li_final_lsa info, ?info'))"
    using assms(3,7) True f1 p by (simp add: la_page_record_def Let_def)
  moreover have "same_page i info ?info'" using assms(8) True by (simp add: same_page_def page_at_def)
  moreover have "need_shutdown (li_vols info1) \<or> la_run io cf en up (li_final_lsa info) info1"
    using run_record [OF assms(1,2,4,7)] by blast
  then have "need_shutdown (li_vols ?info') \<or> la_run io cf en up (li_final_lsa info) ?info'" using run_other [of io cf en up _ info1 ?info'] by auto
  ultimately show ?thesis by force
qed

lemma page_step_run:
  assumes "la_run io cf en up f info" and "f < li_final_lsa info" and "met_ok io cf en up hdr i info"
    and "0 \<le> lp_offset (page_at i info)"
  shows "(\<exists>r info'. la_page_step io cf en up mn hdr i (prev, info) = Some (Inl (r, info')) \<and>
      (need_shutdown (li_vols info') \<or> la_run io cf en up f info' \<and> f < li_final_lsa info')) \<or>
    (\<exists>info'. la_page_step io cf en up mn hdr i (prev, info) = Some (Inr (la_page_final i info, info')) \<and> same_page i info info' \<and>
      li_final_lsa info \<le> la_page_final i info \<and> la_page_final i info < li_final_lsa info' \<and> li_final_lsa info' = lr_forw_lsa (record_met i info) \<and>
      (need_shutdown (li_vols info') \<or> la_run io cf en up (la_page_final i info) info'))"
proof (cases "lsa_pageid (li_final_lsa info) \<noteq> cb_pageid (pb_log_buffer (li_pb info) ! i) \<or> need_shutdown (li_vols info)")
  case True
  then have "la_page_step io cf en up mn hdr i (prev, info) = Some (Inl (None, info))" by (simp add: la_page_step_def)
  then show ?thesis using assms(1,2) by blast
next
  case False
  define g where "g = la_page_final i info"
  define info1 where "info1 = info\<lparr>li_final_lsa := g\<rparr>"
  have ge: "li_final_lsa info \<le> g" unfolding g_def using page_final_ge assms(4) by blast
  have r1: "la_run io cf en up f info1" "f < li_final_lsa info1" using run_other [OF assms(1)] assms(2) ge by (auto simp: info1_def)
  have at: "page_at i info1 = page_at i info" by (simp add: page_at_def info1_def)
  have stop: "(need_shutdown (li_vols info') \<or> la_run io cf en up f info' \<and> f < li_final_lsa info')"
    if "li_repl info' = li_repl info1" "li_final_lsa info' = g" for info'
    using run_other [OF r1(1)] r1(2) that by (auto simp: info1_def)
  let ?lrec = "LOG_GET_LOG_RECORD_HEADER (page_at i info1) g"
  have s: "la_page_step io cf en up mn hdr i (prev, info) =
      (if LSA_GT g (lh_eof_lsa hdr) then Some (Inl (None, invalidate i (info1\<lparr>li_is_end_of_record := True\<rparr>)))
       else if LSA_GT g (lh_append_lsa hdr) then Some (Inl (None, invalidate i info1))
       else if \<not> LSA_ISNULL prev \<and> \<not> LSA_EQ prev (lr_back_lsa ?lrec) then Some (Inl (Some ER_LOG_PAGE_CORRUPTED, info1))
       else if LSA_EQ g (lh_eof_lsa hdr) \<and> lr_type ?lrec \<noteq> LOG_END_OF_LOG
       then Some (Inl (None, invalidate i (info1\<lparr>li_is_end_of_record := True\<rparr>)))
       else la_page_record io cf en up mn i info1)"
    using False unfolding la_page_step_def g_def info1_def Let_def by simp
  show ?thesis
  proof (cases "la_page_step io cf en up mn hdr i (prev, info) = la_page_record io cf en up mn i info1 \<and> \<not> LSA_GT g (lh_eof_lsa hdr)")
    case True
    then have "g \<le> lh_eof_lsa hdr" by (simp add: lsa_simps not_less)
    with assms(3) False obtain err info2 where m: "record_ok (record_met i info)" "\<not> la_record_last (record_met i info)" "g < lr_forw_lsa (record_met i info)"
      "la_log_record_process io cf en up (record_met i info) (page_at i info) info1 = Some (err, info2)" "err = NO_ERROR \<longrightarrow> same_page i info info2"
      unfolding met_ok_def g_def [symmetric] info1_def by blast
    have sp: "err = NO_ERROR \<longrightarrow> same_page i info1 info2" "\<And>j. same_page i info1 j = same_page i info j"
      using m(5) by (simp_all add: same_page_def at) (simp_all add: info1_def)
    have g1: "li_final_lsa info1 = g" by (simp add: info1_def)
    have rm: "record_met i info = LOG_GET_LOG_RECORD_HEADER (page_at i info1) (li_final_lsa info1)" by (simp add: record_met_def at g1 g_def)
    from page_record_run [OF r1 rm m(1,2) m(3) [folded g1] m(4) [folded at] sp(1), of mn] True ge m(3) show ?thesis
      unfolding g1 sp(2) g_def [symmetric] by (smt (verit, best))
  next
    case F: False
    then show ?thesis using s stop [of "invalidate i (info1\<lparr>li_is_end_of_record := True\<rparr>)"] stop [of "invalidate i info1"] stop [of info1]
      by (auto simp: info1_def split: if_splits)
  qed
qed

definition page_next :: "'w la_io \<Rightarrow> la_config \<Rightarrow> ('v, 'w) la_env \<Rightarrow> 'v la_values \<Rightarrow> 'w la_main_env \<Rightarrow> log_header \<Rightarrow> nat
    \<Rightarrow> log_lsa \<times> ('v, 'w) la_info \<Rightarrow> log_lsa \<times> ('v, 'w) la_info \<Rightarrow> bool" where
  "page_next io cf en up mn hdr i st st' \<longleftrightarrow> la_page_step io cf en up mn hdr i st = Some (Inr st')"

text \<open>Every record the loop meets is a good one.\<close>

definition page_ok :: "'w la_io \<Rightarrow> la_config \<Rightarrow> ('v, 'w) la_env \<Rightarrow> 'v la_values \<Rightarrow> 'w la_main_env \<Rightarrow> log_header \<Rightarrow> nat
    \<Rightarrow> log_lsa \<times> ('v, 'w) la_info \<Rightarrow> bool" where
  "page_ok io cf en up mn hdr i st \<longleftrightarrow> (\<forall>p info. rtranclp (page_next io cf en up mn hdr i) st (p, info) \<longrightarrow> met_ok io cf en up hdr i info)"

lemma page_okD:
  assumes "page_ok io cf en up mn hdr i (prev, info)"
  shows "met_ok io cf en up hdr i info" and "la_page_step io cf en up mn hdr i (prev, info) = Some (Inr st) \<Longrightarrow> page_ok io cf en up mn hdr i st"
proof -
  note A = assms [unfolded page_ok_def, rule_format]
  show "met_ok io cf en up hdr i info" by (rule A [OF rtranclp.rtrancl_refl])
  show "page_ok io cf en up mn hdr i st" if "la_page_step io cf en up mn hdr i (prev, info) = Some (Inr st)"
    unfolding page_ok_def using A converse_rtranclp_into_rtranclp [of "page_next io cf en up mn hdr i" "(prev, info)" st] that
    by (auto simp: page_next_def)
qed

lemma page_loop_stop:
  "lsa_pageid (li_final_lsa info) \<noteq> cb_pageid (pb_log_buffer (li_pb info) ! i) \<or> need_shutdown (li_vols info) \<Longrightarrow>
   la_page_loop io cf en up mn hdr i (prev, info) = Some (None, info)"
  by (subst la_page_loop.simps) (simp add: la_page_step_def)

lemma header_forw_offset: "lsa_offset (lr_forw_lsa (LOG_GET_LOG_RECORD_HEADER pg l)) < 2 ^ 15"
  using rd_int_range(2) [of 2] by (simp add: LOG_GET_LOG_RECORD_HEADER_def rd_log_record_header_def rd_lsa_def)

lemma page_loop_run:
  assumes "la_run io cf en up f info" and "f < li_final_lsa info" and "page_ok io cf en up mn hdr i (prev, info)"
    and "0 \<le> lp_offset (page_at i info)"
  shows "\<exists>r info' f'. la_page_loop io cf en up mn hdr i (prev, info) = Some (r, info') \<and>
    (need_shutdown (li_vols info') \<or> la_run io cf en up f' info' \<and> f \<le> f' \<and> f' < li_final_lsa info')"
  using assms
proof (induction "nat (2 ^ 15 - lsa_offset (li_final_lsa info))" arbitrary: prev info f rule: less_induct)
  case less
  define g where "g = la_page_final i info"
  note M = page_okD [OF less.prems(3)]
  from page_step_run [OF less.prems(1,2) M(1) less.prems(4), of mn prev] consider
    (stop) r info' where "la_page_step io cf en up mn hdr i (prev, info) = Some (Inl (r, info'))"
      "need_shutdown (li_vols info') \<or> la_run io cf en up f info' \<and> f < li_final_lsa info'"
    | (go) info' where "la_page_step io cf en up mn hdr i (prev, info) = Some (Inr (g, info'))" "same_page i info info'" "li_final_lsa info \<le> g"
      "g < li_final_lsa info'" "li_final_lsa info' = lr_forw_lsa (record_met i info)"
      "need_shutdown (li_vols info') \<or> la_run io cf en up g info'" unfolding g_def by blast
  then show ?case
  proof cases
    case stop
    then have "la_page_loop io cf en up mn hdr i (prev, info) = Some (r, info')" by (subst la_page_loop.simps) simp
    then show ?thesis using stop(2) by blast
  next
    case go
    have l: "la_page_loop io cf en up mn hdr i (prev, info) = la_page_loop io cf en up mn hdr i (g, info')"
      using go(1) by (subst la_page_loop.simps) simp
    have fg: "f \<le> g" using less.prems(2) go(3) by simp
    let ?p = "cb_pageid (pb_log_buffer (li_pb info') ! i)"
    show ?thesis
    proof (cases "lsa_pageid (li_final_lsa info') \<noteq> ?p \<or> need_shutdown (li_vols info')")
      case True
      with l go(4,6) fg page_loop_stop [OF True, of io cf en up mn hdr g] show ?thesis by auto
    next
      case False
      then have run: "la_run io cf en up g info'" using go(6) by blast
      have "lsa_pageid (li_final_lsa info) = ?p"
        using go(1,2) by (auto simp: la_page_step_def same_page_def split: if_splits)
      then have "lsa_offset (li_final_lsa info) < lsa_offset (li_final_lsa info')"
        using False go(3,4) by (cases "li_final_lsa info"; cases g; cases "li_final_lsa info'") (auto simp: less_log_lsa_def less_eq_log_lsa_def)
      moreover have "lsa_offset (li_final_lsa info') < 2 ^ 15" unfolding go(5) record_met_def by (rule header_forw_offset)
      ultimately have m: "nat (2 ^ 15 - lsa_offset (li_final_lsa info')) < nat (2 ^ 15 - lsa_offset (li_final_lsa info))" by simp
      have off: "0 \<le> lp_offset (page_at i info')" using less.prems(4) go(2) by (simp add: same_page_def)
      from less.hyps [OF m run go(4) M(2) [OF go(1)] off] obtain r info'' f' where
        "la_page_loop io cf en up mn hdr i (g, info') = Some (r, info'')"
        "need_shutdown (li_vols info'') \<or> la_run io cf en up f' info'' \<and> g \<le> f' \<and> f' < li_final_lsa info''" by blast
      then show ?thesis using l fg by (metis order_trans)
    qed
  qed
qed

lemma page_okI:
  assumes "met_ok io cf en up hdr i info"
    and "\<And>p j. la_page_step io cf en up mn hdr i (prev, info) = Some (Inr (p, j)) \<Longrightarrow>
      lsa_pageid (li_final_lsa j) \<noteq> cb_pageid (pb_log_buffer (li_pb j) ! i)"
  shows "page_ok io cf en up mn hdr i (prev, info)"
  unfolding page_ok_def
proof (intro allI impI)
  fix p j assume "rtranclp (page_next io cf en up mn hdr i) (prev, info) (p, j)"
  then consider "info = j" | st where "la_page_step io cf en up mn hdr i (prev, info) = Some (Inr st)" "rtranclp (page_next io cf en up mn hdr i) st (p, j)"
    by (cases rule: converse_rtranclpE) (auto simp: page_next_def)
  then show "met_ok io cf en up hdr i j"
  proof cases
    case 2
    obtain q k where st: "st = (q, k)" by (cases st)
    have n: "lsa_pageid (li_final_lsa k) \<noteq> cb_pageid (pb_log_buffer (li_pb k) ! i)" using assms(2) 2(1) st by simp
    then have "la_page_step io cf en up mn hdr i st = Some (Inl (None, k))" by (simp add: la_page_step_def st)
    with 2(2) have "(p, j) = st" by - (erule converse_rtranclpE, auto simp: page_next_def)
    then show ?thesis using n st by (simp add: met_ok_def)
  qed (use assms(1) in simp)
qed

section \<open>A round of the main loop is a run of the applier\<close>

text \<open>What the stages before the records leave of the state: the table, and the address or a later one.\<close>

definition stage_frame :: "('v, 'w) la_main \<Rightarrow> ('v, 'w) la_main \<Rightarrow> bool" where
  "stage_frame st st' \<longleftrightarrow> li_repl (snd st') = li_repl (snd st) \<and> li_final_lsa (snd st') = li_final_lsa (snd st) \<and>
     (need_shutdown (li_vols (snd st)) \<longrightarrow> need_shutdown (li_vols (snd st')))"

lemma main_release_simps [simp]:
  "li_repl (snd (la_main_release cf mn st)) = li_repl (snd st)" "li_final_lsa (snd (la_main_release cf mn st)) = li_final_lsa (snd st)"
  "li_vols (snd (la_main_release cf mn st)) = li_vols (snd st)"
  by (auto simp: la_main_release_def la_unlock_dbname_def split: prod.splits if_splits)

lemma main_release_frame:
  "la_main_release cf mn st = (lo, info) \<Longrightarrow> li_repl info = li_repl (snd st) \<and> li_final_lsa info = li_final_lsa (snd st) \<and> li_vols info = li_vols (snd st)"
  using main_release_simps [of cf mn st] by simp

lemma log_commit_frame:
  "la_log_commit cf en upd info = (err, info') \<Longrightarrow> li_repl info' = li_repl info \<and> li_final_lsa info' = li_final_lsa info \<and>
   (need_shutdown (li_vols info) \<longrightarrow> need_shutdown (li_vols info'))"
  by (auto simp: la_log_commit_def la_commit_prepare_def la_commit_flush_def la_commit_apply_info_def set_shutdown_def Let_def
      split: prod.splits if_splits)

lemma main_header_frame: "la_main_header io st = (out, st') \<Longrightarrow> stage_frame st st'"
  by (auto simp: stage_frame_def la_main_header_def la_fetch_log_hdr_def Let_def split: prod.splits if_splits)

lemma main_archives_frame: "la_main_archives io mc cf en mn st = Some st' \<Longrightarrow> stage_frame st st'"
  by (auto simp: stage_frame_def la_main_archives_def Let_def split: prod.splits if_splits option.splits)

lemma main_dead_frame: "stage_frame st (la_main_dead mc cf en mn hdr st)"
  by (auto simp: stage_frame_def la_main_dead_def split: prod.splits if_splits dest!: main_release_frame)

lemma main_done_frame: "la_main_done cf en mn hdr st = (out, st') \<Longrightarrow> stage_frame st st'"
  by (auto simp: stage_frame_def la_main_done_def Let_def split: prod.splits if_splits dest!: main_release_frame log_commit_frame)

lemma main_mode_frame: "la_main_mode mn out st = (out', st') \<Longrightarrow> stage_frame st st'"
  by (auto simp: stage_frame_def la_main_mode_def split: prod.splits if_splits)

lemma main_wait_frame: "la_main_wait cf mn hdr st = (out, st') \<Longrightarrow> stage_frame st st'"
  by (auto simp: la_main_wait_def stage_frame_def split: if_splits dest!: main_mode_frame)

lemma main_interval_frame: "stage_frame st (la_main_interval mc en st)"
  by (auto simp: stage_frame_def la_main_interval_def split: prod.splits if_splits)

lemma main_end_frame: "la_main_end cf mn hdr i st = (out, st') \<Longrightarrow> stage_frame st st'"
  by (auto simp: la_main_end_def Let_def stage_frame_def split: prod.splits if_splits dest!: main_mode_frame)

lemma li_page_exist_frame:
  "li_page_exist io cf p info = Some (r, info') \<Longrightarrow> li_repl info' = li_repl info \<and> li_final_lsa info' = li_final_lsa info"
  by (auto simp: li_page_exist_def split: option.splits)

lemma main_empty_page_frame:
  "la_main_empty_page io cf hdr info = Some info' \<Longrightarrow>
   li_repl info' = li_repl info \<and> li_final_lsa info' \<in> {li_final_lsa info, next_page (li_final_lsa info)}"
  by (auto simp: la_main_empty_page_def Let_def skip_page_def next_page_def split: if_splits option.splits
      dest!: li_page_exist_frame)

lemma main_page_frame:
  assumes "la_main_page io cf hdr st = Some (out, st')"
  shows "li_repl (snd st') = li_repl (snd st) \<and> li_final_lsa (snd st') \<in> {li_final_lsa (snd st), next_page (li_final_lsa (snd st))}"
    and "out = Inr i \<Longrightarrow> li_final_lsa (snd st') = li_final_lsa (snd st) \<and> 0 \<le> lp_offset (page_at i (snd st'))"
  using assms
  by (auto simp: la_main_page_def la_main_no_page_def Let_def page_at_def set_src_def split: prod.splits if_splits option.splits
      dest!: main_empty_page_frame)

lemma main_front_frame:
  assumes "la_main_front io mc cf en mn st = Some (out, st')"
  shows "li_repl (snd st') = li_repl (snd st) \<and> li_final_lsa (snd st') \<in> {li_final_lsa (snd st), next_page (li_final_lsa (snd st))}"
    and "out = Inr (hdr, i) \<Longrightarrow> li_final_lsa (snd st') = li_final_lsa (snd st) \<and> 0 \<le> lp_offset (page_at i (snd st'))"
proof -
  obtain out1 st1 where 1: "la_main_header io st = (out1, st1)" by (metis surj_pair)
  note F1 = main_header_frame [OF 1]
  have "(li_repl (snd st') = li_repl (snd st) \<and> li_final_lsa (snd st') \<in> {li_final_lsa (snd st), next_page (li_final_lsa (snd st))}) \<and>
    (out = Inr (hdr, i) \<longrightarrow> li_final_lsa (snd st') = li_final_lsa (snd st) \<and> 0 \<le> lp_offset (page_at i (snd st')))"
  proof (cases "out1 = It_go")
    case False
    with assms 1 F1 show ?thesis by (auto simp: la_main_front_def stage_frame_def)
  next
    case True
    then obtain st2 where 2: "la_main_archives io mc cf en mn st1 = Some st2"
      using assms 1 by (auto simp: la_main_front_def split: option.splits)
    let ?h = "act_log_hdr (li_vols (snd st2))"
    obtain out3 st3 where 3: "la_main_done cf en mn ?h (la_main_dead mc cf en mn ?h st2) = (out3, st3)" by (metis surj_pair)
    have F3: "stage_frame st st3"
      using F1 main_archives_frame [OF 2] main_dead_frame [of st2 mc cf en mn ?h] main_done_frame [OF 3] by (simp add: stage_frame_def)
    obtain out4 st4 where 4: "la_main_wait cf mn ?h st3 = (out4, st4)" by (metis surj_pair)
    have F4: "stage_frame st st4" using F3 main_wait_frame [OF 4] by (simp add: stage_frame_def)
    have "la_main_front io mc cf en mn st =
        (if out3 \<noteq> It_go then Some (Inl out3, st3) else if out4 \<noteq> It_go then Some (Inl out4, st4)
         else map_option (map_prod (map_sum id (\<lambda>i. (?h, i))) id) (la_main_page io cf ?h st4))"
      using 1 2 3 4 True by (simp add: la_main_front_def Let_def split: option.split sum.split)
    then have "out = Inl out3 \<and> st' = st3 \<or> out = Inl out4 \<and> st' = st4 \<or>
      (\<exists>o5. la_main_page io cf ?h st4 = Some (o5, st') \<and> out = map_sum id (\<lambda>i. (?h, i)) o5)"
      using assms by (cases "la_main_page io cf ?h st4") (auto split: if_splits)
    then show ?thesis
    proof (elim disjE exE conjE)
      fix o5
      assume p: "la_main_page io cf ?h st4 = Some (o5, st')" and o: "out = map_sum id (\<lambda>i. (?h, i)) o5"
      from main_page_frame [OF p] F4 o show ?thesis by (cases o5) (auto simp: stage_frame_def)
    qed (use F3 F4 in \<open>simp_all add: stage_frame_def\<close>)
  qed
  then show "li_repl (snd st') = li_repl (snd st) \<and> li_final_lsa (snd st') \<in> {li_final_lsa (snd st), next_page (li_final_lsa (snd st))}"
    and "out = Inr (hdr, i) \<Longrightarrow> li_final_lsa (snd st') = li_final_lsa (snd st) \<and> 0 \<le> lp_offset (page_at i (snd st'))" by blast+
qed

lemma main_commit_run:
  assumes "la_main_commit cf en st = (out, st')" and "la_run io cf en up f (snd st)"
  shows "la_run io cf en up f (snd st') \<and> li_final_lsa (snd st') = li_final_lsa (snd st)"
proof -
  obtain lo info where st: "st = (lo, info)" by (cases st)
  obtain err tc info1 where c: "la_check_time_commit cf en (lo_time_commit lo) (lo_commit_interval lo) info = ((err, tc), info1)"
    by (metis surj_pair)
  have r1: "la_run io cf en up f info1" using run_commit [OF assms(2) [unfolded st snd_conv] c] .
  have f1: "li_final_lsa info1 = li_final_lsa info"
    using c by (auto simp: la_check_time_commit_def Let_def split: prod.splits if_splits dest!: la_log_commit_final)
  obtain err2 w2 where m: "en_mem_size en (li_w info1) = (err2, w2)" by (metis surj_pair)
  have r2: "la_run io cf en up f (info1\<lparr>li_w := w2\<rparr>)" using run_other [OF r1] by simp
  obtain err3 info3 where s: "la_change_state cf en (info1\<lparr>li_w := w2\<rparr>) = (err3, info3)" by (metis surj_pair)
  have r3: "la_run io cf en up f info3" using run_state [OF r2 s] .
  have f3: "li_final_lsa info3 = li_final_lsa info1"
    using s by (auto simp: la_change_state_def Let_def split: prod.splits if_splits option.splits dest!: la_log_commit_final)
  have sh: "la_run io cf en up f (set_shutdown j)" if "la_run io cf en up f j" for j using run_other [OF that] by simp
  have "snd st' \<in> {set_shutdown info1, info1, set_shutdown (info1\<lparr>li_w := w2\<rparr>), set_shutdown info3, info3}"
    using assms(1) unfolding la_main_commit_def st c m s prod.case Let_def by (auto split: if_splits)
  moreover have "\<forall>j \<in> {set_shutdown info1, info1, set_shutdown (info1\<lparr>li_w := w2\<rparr>), set_shutdown info3, info3}.
      la_run io cf en up f j \<and> li_final_lsa j = li_final_lsa info"
    using sh [OF r1] r1 sh [OF r2] sh [OF r3] r3 f1 f3 by simp
  ultimately show ?thesis unfolding st snd_conv by blast
qed

lemma check_time_commit_shutdown:
  "la_check_time_commit cf en t threshold info = (res, info') \<Longrightarrow> need_shutdown (li_vols info) \<Longrightarrow> need_shutdown (li_vols info')"
  by (auto simp: la_check_time_commit_def Let_def split: prod.splits if_splits dest!: log_commit_frame)

lemma change_state_shutdown:
  "la_change_state cf en info = (err, info') \<Longrightarrow> need_shutdown (li_vols info) \<Longrightarrow> need_shutdown (li_vols info')"
  by (auto simp: la_change_state_def Let_def split: if_splits option.splits prod.splits dest!: log_commit_frame)

lemma main_commit_shutdown:
  assumes "la_main_commit cf en st = (out, st')" and "need_shutdown (li_vols (snd st))"
  shows "need_shutdown (li_vols (snd st'))"
proof -
  obtain lo info where st: "st = (lo, info)" by (cases st)
  obtain err tc info1 where c: "la_check_time_commit cf en (lo_time_commit lo) (lo_commit_interval lo) info = ((err, tc), info1)"
    by (metis surj_pair)
  obtain err2 w2 where m: "en_mem_size en (li_w info1) = (err2, w2)" by (metis surj_pair)
  obtain err3 info3 where s: "la_change_state cf en (info1\<lparr>li_w := w2\<rparr>) = (err3, info3)" by (metis surj_pair)
  have "need_shutdown (li_vols info1)" using check_time_commit_shutdown [OF c] assms(2) st by simp
  moreover from this have "need_shutdown (li_vols info3)" using change_state_shutdown [OF s] by simp
  moreover have "snd st' \<in> {set_shutdown info1, info1, set_shutdown (info1\<lparr>li_w := w2\<rparr>), set_shutdown info3, info3}"
    using assms(1) unfolding la_main_commit_def st c m s prod.case Let_def by (auto split: if_splits)
  ultimately show ?thesis by auto
qed

text \<open>
  The round is good: it gets as far as the records, or ends before, and the
  records it meets are good ones.
\<close>

definition main_ok :: "'w la_io \<Rightarrow> la_main_conf \<Rightarrow> la_config \<Rightarrow> ('v, 'w) la_env \<Rightarrow> 'v la_values \<Rightarrow> 'w la_main_env \<Rightarrow> ('v, 'w) la_main \<Rightarrow> bool" where
  "main_ok io mc cf en up mn st \<longleftrightarrow> la_main_front io mc cf en mn st \<noteq> None \<and>
     (\<forall>hdr i lo info. la_main_front io mc cf en mn st = Some (Inr (hdr, i), lo, info) \<longrightarrow> page_ok io cf en up mn hdr i (LSA_NULL, info))"

lemma less_next_page: "f < l \<Longrightarrow> f < next_page l"
  by (cases f; cases l) (auto simp: next_page_def less_log_lsa_def)

lemma main_iter_run:
  assumes "la_run io cf en up f (snd st)" and "f < li_final_lsa (snd st)" and "main_ok io mc cf en up mn st"
  shows "\<exists>out st' f'. la_main_iter io mc cf en up mn st = Some (out, st') \<and>
    (need_shutdown (li_vols (snd st')) \<or> la_run io cf en up f' (snd st') \<and> f \<le> f' \<and> f' < li_final_lsa (snd st'))"
proof -
  obtain out1 st1 where 1: "la_main_front io mc cf en mn st = Some (out1, st1)" using assms(3) by (auto simp: main_ok_def)
  have F: "li_repl (snd st1) = li_repl (snd st)" "f < li_final_lsa (snd st1)"
    using main_front_frame(1) [OF 1] assms(2) less_next_page by auto
  have r1: "la_run io cf en up f (snd st1)" using run_other [OF assms(1)] F(1) by simp
  show ?thesis
  proof (cases out1)
    case (Inl o1)
    with 1 have "la_main_iter io mc cf en up mn st = Some (o1, st1)" by (simp add: la_main_iter_def)
    with r1 F(2) show ?thesis by blast
  next
    case (Inr hi)
    obtain hdr i lo info where x: "hi = (hdr, i)" "st1 = (lo, info)" by (cases hi; cases st1)
    have ok: "page_ok io cf en up mn hdr i (LSA_NULL, info)" using assms(3) 1 Inr x by (simp add: main_ok_def)
    have off: "0 \<le> lp_offset (page_at i info)" using main_front_frame(2) [OF 1, of hdr i] Inr x by simp
    from page_loop_run [OF r1 [unfolded x(2) snd_conv] F(2) [unfolded x(2) snd_conv] ok off] obtain r info1 f1 where
      2: "la_page_loop io cf en up mn hdr i (LSA_NULL, info) = Some (r, info1)"
      "need_shutdown (li_vols info1) \<or> la_run io cf en up f1 info1 \<and> f \<le> f1 \<and> f1 < li_final_lsa info1" by blast
    show ?thesis
    proof (cases r)
      case (Some err)
      with 1 2(1) Inr x have "la_main_iter io mc cf en up mn st = Some (It_return err, lo, info1)" by (simp add: la_main_iter_def)
      then show ?thesis using 2(2) by force
    next
      case None
      define st2 where "st2 = la_main_interval mc en (lo, info1)"
      obtain o3 st3 where 3: "la_main_commit cf en st2 = (o3, st3)" by (metis surj_pair)
      obtain o4 st4 where 4: "la_main_end cf mn hdr i st3 = (o4, st4)" by (metis surj_pair)
      define res where "res = (if o3 \<noteq> It_go then (o3, st3) else (o4, st4))"
      have it: "la_main_iter io mc cf en up mn st = Some res"
        using 1 2(1) 3 4 Inr x None by (simp add: la_main_iter_def st2_def [symmetric] res_def)
      show ?thesis
      proof (cases "need_shutdown (li_vols info1)")
        case True
        then have "need_shutdown (li_vols (snd (snd res)))"
          using main_interval_frame [of "(lo, info1)" mc en] main_commit_shutdown [OF 3] main_end_frame [OF 4]
          by (auto simp: stage_frame_def st2_def res_def)
        then show ?thesis using it by (metis prod.collapse)
      next
        case False
        then have r2: "la_run io cf en up f1 (snd st2)" "li_final_lsa (snd st2) = li_final_lsa info1"
          using main_interval_frame [of "(lo, info1)" mc en] 2(2) run_other by (auto simp: stage_frame_def st2_def)
        note C = main_commit_run [OF 3 r2(1)]
        have "la_run io cf en up f1 (snd (snd res)) \<and> li_final_lsa (snd (snd res)) = li_final_lsa info1"
          using C r2(2) main_end_frame [OF 4] run_other [of io cf en up f1 "snd st3" "snd st4"] by (auto simp: stage_frame_def res_def)
        then show ?thesis using it 2(2) False by (metis prod.collapse)
      qed
    qed
  qed
qed

section \<open>The states of the main loop\<close>

text \<open>
  The states between two rounds: the state before the first round, whose table
  is the initial one, and what a round that goes on makes of such a state.
\<close>

inductive main_run :: "'w la_io \<Rightarrow> la_main_conf \<Rightarrow> la_config \<Rightarrow> ('v, 'w) la_env \<Rightarrow> 'v la_values \<Rightarrow> 'w la_main_env \<Rightarrow> ('v, 'w) la_main \<Rightarrow> bool"
  for io mc cf en up mn where
  main_start: "la_init_repl_lists mem False r0 = (NO_ERROR, li_repl info) \<Longrightarrow> main_run io mc cf en up mn (lo, info)"
| main_round: "main_run io mc cf en up mn st \<Longrightarrow> \<not> LSA_ISNULL (li_final_lsa (snd st)) \<Longrightarrow> \<not> need_shutdown (li_vols (snd st)) \<Longrightarrow>
    main_ok io mc cf en up mn st \<Longrightarrow> la_main_iter io mc cf en up mn st = Some (It_continue, st') \<Longrightarrow> main_run io mc cf en up mn st'"

lemma main_run_run:
  assumes "main_run io mc cf en up mn st"
  shows "need_shutdown (li_vols (snd st)) \<or> (\<exists>f. la_run io cf en up f (snd st) \<and> f < li_final_lsa (snd st))"
  using assms
proof induction
  case (main_start mem r0 info lo)
  let ?f = "LSA (lsa_pageid (li_final_lsa info) - 1) 0"
  have "?f < li_final_lsa info" by (cases "li_final_lsa info") (simp add: less_log_lsa_def)
  then show ?case using run_start [OF main_start, of io cf en up ?f] by auto
next
  case (main_round st st')
  then obtain f where "la_run io cf en up f (snd st)" "f < li_final_lsa (snd st)" by blast
  from main_iter_run [OF this main_round.hyps(4)] main_round.hyps(5) show ?case by auto
qed

section \<open>Pages that never end\<close>

lemma page_loop_diverges:
  assumes step: "\<And>st. P st \<Longrightarrow> \<exists>st'. la_page_step io cf en up mn hdr i st = Some (Inr st') \<and> P st'" and "P st"
  shows "la_page_loop io cf en up mn hdr i st = None"
proof -
  have "\<not> (io' = io \<and> cf' = cf \<and> en' = en \<and> up' = up \<and> mn' = mn \<and> hdr' = hdr \<and> i' = i \<and> P s)"
    if "la_page_loop io' cf' en' up' mn' hdr' i' s = Some r" for io' cf' en' up' mn' hdr' i' s r
  proof (rule la_page_loop.raw_induct [OF _ that], goal_cases)
    case (1 f io' cf' en' up' mn' hdr' i' s r)
    show ?case
    proof
      assume e: "io' = io \<and> cf' = cf \<and> en' = en \<and> up' = up \<and> mn' = mn \<and> hdr' = hdr \<and> i' = i \<and> P s"
      with step obtain s' where s: "la_page_step io cf en up mn hdr i s = Some (Inr s')" "P s'" by blast
      with 1(2) e have "f io cf en up mn hdr i s' = Some r" by simp
      from 1(1) [OF this] s(2) show False by simp
    qed
  qed
  then show ?thesis using assms(2) by (cases "la_page_loop io cf en up mn hdr i st") auto
qed

text \<open>The records that the applier passes over.\<close>

definition record_ignored :: "log_record_header \<Rightarrow> bool" where
  "record_ignored lrec \<longleftrightarrow> lr_type lrec \<notin> {LOG_DUMMY_FILLPAGE_FORARCHIVE, LOG_END_OF_LOG, LOG_REPLICATION_DATA, LOG_REPLICATION_SCHEMA,
     LOG_UNLOCK_COMMIT, LOG_COMMIT_TOPOPE, LOG_COMMIT, LOG_ABORT, LOG_DUMMY_CRASH_RECOVERY, LOG_DUMMY_HA_SERVER_STATE} \<and>
     LOG_SMALLER_LOGREC_TYPE < lr_type lrec \<and> lr_type lrec < LOG_LARGER_LOGREC_TYPE \<and> lr_trid lrec \<noteq> NULL_TRANID"

lemma ignored_processed:
  assumes "record_ignored lrec" and "lr_prev_tranlsa lrec \<le> li_final_lsa info" and "lr_back_lsa lrec \<le> li_final_lsa info"
    and "\<not> LSA_ISNULL (lr_prev_tranlsa lrec)" and "lsa_pageid (lr_forw_lsa lrec) \<noteq> -1"
  shows "la_log_record_process io cf en up lrec pg info = Some (NO_ERROR, info\<lparr>li_is_end_of_record := False\<rparr>)"
  using assms
  by (auto simp: la_log_record_process_def record_ignored_def la_record_corrupt_def la_record_open_def la_record_first_def
      la_record_switch_def la_record_last_def lsa_simps)

section \<open>A round on a log with one record\<close>

definition ex_main_rec :: log_record_header where
  "ex_main_rec = \<lparr>lr_prev_tranlsa = LSA_NULL, lr_back_lsa = LSA 32 0, lr_forw_lsa = LSA 34 0, lr_trid = 9, lr_type = 5\<rparr>"

definition ex_main_page :: "log_pageid \<Rightarrow> log_page" where
  "ex_main_page p = \<lparr>lp_logical_pageid = p, lp_offset = 0, lp_area = wr_log_record_header ex_main_rec @ replicate 8 0\<rparr>"

definition ex_main_io :: "'w la_io" where
  "ex_main_io = ex_io\<lparr>io_read_act := \<lambda>p w. ((NO_ERROR, ex_main_page (29 + p)), w)\<rparr>"

definition ex_main_env :: "'w la_main_env" where
  "ex_main_env = \<lparr>mn_pre_mem = \<lambda>w. (True, w), mn_unlock = \<lambda>c v w. ((False, NULL_VOLDES), w), mn_unlink = \<lambda>l w. w, mn_save_deleted = \<lambda>n w. w,
     mn_plugin_sync = \<lambda>s w. w, mn_plugin_required = \<lambda>w. None, mn_plugin_waits = \<lambda>p w. False, mn_plugin_stop = \<lambda>w. w,
     mn_plugin_failed = \<lambda>w. w, mn_ha_mode = \<lambda>w. (0, w)\<rparr>"

definition ex_main_conf :: la_main_conf where
  "ex_main_conf = \<lparr>mc_remove_interval = 60, mc_log_max_archives = 1, mc_wait_time = -1, mc_max_commit_interval = 500\<rparr>"

definition ex_main :: "(unit, unit la_item list) la_main" where
  "ex_main = (\<lparr>lo_error = 0, lo_last_nxarv_num = 0, lo_last_time_deleted = 90, lo_last_eof_time = 0, lo_last_eof_lsa = LSA_NULL,
     lo_commit_interval = 500, lo_delay_hist = [], lo_delay_idx = 0, lo_time_commit = 0, lo_retry_count = 0\<rparr>, ex_info)"

definition ex_up :: "unit la_values" where
  "ex_up = \<lparr>up_mem_value = \<lambda>_. (), mk_string = \<lambda>_. ()\<rparr>"

lemma ex_main_serves: "io_serves ex_main_io ex_main_page ex_active (\<lambda>st. act_log_hdr st = ex_hdr \<and> \<not> need_shutdown st)"
proof -
  have "\<exists>buf' st' w'. la_log_fetch ex_main_io p buf st w = Some ((NO_ERROR, buf'), st', w') \<and> cb_logpage buf' = ex_main_page p \<and>
      act_log_hdr st' = ex_hdr \<and> \<not> need_shutdown st'" if "30 \<le> p" "p \<le> 38" "act_log_hdr st = ex_hdr" "\<not> need_shutdown st" for p buf st w
    using that
    by (simp add: la_log_fetch_def la_log_fetch_loop.simps la_log_fetch_read_def ex_main_io_def ex_io_def ex_hdr_def
        la_log_phypageid_def LA_LOG_IS_IN_ARCHIVE_def ex_main_page_def eval_nat_numeral Let_def)
  moreover have "fst (io_malloc ex_main_io w)" for w by (simp add: ex_main_io_def ex_io_def)
  ultimately show ?thesis unfolding io_serves_def ex_active_def by auto
qed

text \<open>The cache after the first stage of the round, which has nothing to take out of it.\<close>

definition ex_main_pb :: la_cache_pb where
  "ex_main_pb = la_decache_page_buffers 33 LOGPAGEID_MAX (la_release_all_page_buffers NULL_PAGEID ex_pb)"

lemma ex_main_pb_ok: "pb_inv ex_main_pb" "pb_content page ex_main_pb"
proof -
  have r: "pb_inv (la_release_all_page_buffers NULL_PAGEID ex_pb)" by (rule la_release_all_page_buffers_inv [OF ex_pb_inv])
  show "pb_inv ex_main_pb"
    using la_decache_page_buffers_upto [OF r order_refl] by (simp add: ex_main_pb_def la_decache_page_buffers_def)
  have e: "\<forall>b \<in> set (pb_log_buffer ex_pb). cb_pageid b = 0 \<and> cb_fix_count b = 0"
    by (simp add: ex_pb_def la_init_cache_log_buffer_def la_expand_cache_log_buffer_def ex_io_def ex_cfg_def Let_def zero_buffer_def split: option.split)
  have "map (release_buffer NULL_PAGEID) (pb_log_buffer ex_pb) = pb_log_buffer ex_pb"
    by (rule map_idI) (use e in \<open>simp add: release_buffer_def\<close>)
  then have r: "la_release_all_page_buffers NULL_PAGEID ex_pb = ex_pb" by (simp add: la_release_all_page_buffers_def)
  have "fold (la_decache_buffer lo hi) is ex_pb = ex_pb" if "set is \<subseteq> {0..<length (pb_log_buffer ex_pb)}" for lo hi "is"
    using that by (induction "is") (use e in \<open>auto simp: la_decache_buffer_def Let_def\<close>)
  then have "ex_main_pb = ex_pb" by (simp add: ex_main_pb_def r la_decache_page_buffers_def)
  then show "pb_content page ex_main_pb" using ex_pb_content by simp
qed

lemma ex_main_record: "LOG_GET_LOG_RECORD_HEADER (ex_main_page p) (LSA q 0) = ex_main_rec"
proof -
  have "header_fits ex_main_rec" by (simp add: header_fits_def lsa_fits_def ex_main_rec_def LSA_NULL_def)
  then show ?thesis using rd_wr_log_record_header [of ex_main_rec "[]" "replicate 8 0"] by (simp add: LOG_GET_LOG_RECORD_HEADER_def ex_main_page_def)
qed

text \<open>The first record of a transaction opens it.\<close>

lemma ex_main_processed:
  assumes "li_repl info = ex_repl" and "li_final_lsa info = LSA 33 0"
  shows "\<exists>r a. la_log_record_process io cf ex_env up ex_main_rec pg info = Some (NO_ERROR, info\<lparr>li_repl := r, li_is_end_of_record := False\<rparr>) \<and>
     tran_of r 9 = Some a"
proof -
  obtain i r where a: "la_add_apply_list (\<lambda>_. True) 9 (ex_repl :: unit la_repl) = (Some i, r)"
    using la_add_apply_list_some by metis
  note A = la_add_apply_list_correct [OF ex_repl_inv(1) _ a]
  define a0 where "a0 = repl_lists r ! i"
  define r' where "r' = (if LSA_ISNULL (ap_start_lsa a0) then set_apply i (a0\<lparr>ap_start_lsa := LSA 33 0\<rparr>) r else r)"
  have ok: "apply_ok a0" using A(1,2) by (auto simp: repl_inv_def a0_def)
  have "tran_of r' 9 \<noteq> None"
    using A(4) set_apply_tran(2) [OF A(1,2,3), of "a0\<lparr>ap_start_lsa := LSA 33 0\<rparr>"] A(3) ok by (auto simp: r'_def apply_ok_def a0_def)
  moreover have "la_record_open ex_env ex_main_rec info = (NO_ERROR, info\<lparr>li_repl := r'\<rparr>)"
    using a assms by (simp add: la_record_open_def la_record_first_def ex_main_rec_def LSA_NULL_def LSA_ISNULL_def ex_env_def
        Let_def set_app_def get_app_def r'_def a0_def)
  then have "la_log_record_process io cf ex_env up ex_main_rec pg info = Some (NO_ERROR, info\<lparr>li_repl := r', li_is_end_of_record := False\<rparr>)"
    using assms(2) by (simp add: la_log_record_process_def la_record_corrupt_def ex_main_rec_def LSA_NULL_def lsa_simps less_log_lsa_def
        la_record_switch_def la_record_last_def)
  ultimately show ?thesis by blast
qed

lemma ex_main_front:
  "\<exists>i pb vols w info. la_main_front ex_main_io ex_main_conf ex_conf ex_env ex_main_env ex_main =
       Some (Inr (ex_hdr, i), (fst ex_main)\<lparr>lo_last_nxarv_num := 3, lo_retry_count := 0\<rparr>, info) \<and>
     info = ex_info\<lparr>li_pb := pb, li_vols := vols, li_w := w\<rparr> \<and>
     page_at i info = ex_main_page 33 \<and> cb_pageid (pb_log_buffer (li_pb info) ! i) = 33 \<and>
     act_log_hdr vols = ex_hdr \<and> \<not> need_shutdown vols"
proof -
  define info0 where "info0 = ex_info\<lparr>li_pb := ex_main_pb\<rparr>"
  define lo0 where "lo0 = (fst ex_main)\<lparr>lo_last_nxarv_num := 3\<rparr>"
  obtain i pb vols and w :: "unit la_item list" where g: "la_get_page_buffer ex_main_io ex_cfg 33 ex_main_pb ex_vols [] = Some ((Some i, pb), vols, w)"
    and q: "act_log_hdr vols = ex_hdr" "\<not> need_shutdown vols" and pg: "cb_logpage (pb_log_buffer pb ! i) = ex_main_page 33"
    using la_get_page_buffer_serves [OF ex_main_serves _ _ _ ex_main_pb_ok, of ex_cfg 33 ex_vols "[]"]
    by (auto simp: ex_cfg_def ex_active_def ex_vols_def)
  have id: "cb_pageid (pb_log_buffer pb ! i) = 33"
    using la_get_page_buffer_result [OF ex_main_pb_ok(1) _ g] by (simp add: pb_holds_def)
  have h: "la_main_header ex_main_io ex_main = (It_go, fst ex_main, info0)"
    by (simp add: la_main_header_def ex_main_def ex_info_def la_fetch_log_hdr_def ex_main_io_def ex_io_def ex_vols_def info0_def ex_main_pb_def)
  have a: "la_main_archives ex_main_io ex_main_conf ex_conf ex_env ex_main_env (fst ex_main, info0) = Some (lo0, info0)"
    by (simp add: la_main_archives_def la_main_arv_count_def ex_main_conf_def ex_main_def ex_env_def ex_conf_def info0_def lo0_def
        ex_info_def ex_vols_def ex_hdr_def Let_def)
  have d: "la_main_done ex_conf ex_env ex_main_env ex_hdr (la_main_dead ex_main_conf ex_conf ex_env ex_main_env ex_hdr (lo0, info0)) = (It_go, lo0, info0)"
    by (simp add: la_main_dead_def la_main_done_def ex_main_conf_def info0_def ex_info_def)
  have wt: "la_main_wait ex_conf ex_main_env ex_hdr (lo0, info0) = (It_go, lo0, info0)"
    by (simp add: la_main_wait_def ex_conf_def ex_hdr_def info0_def ex_info_def)
  have v: "li_vols info0 = ex_vols" "li_w info0 = []" "li_pb info0 = ex_main_pb" "li_final_lsa info0 = LSA 33 0" "act_log_hdr ex_vols = ex_hdr"
    by (simp_all add: info0_def ex_info_def ex_vols_def)
  have "la_main_page ex_main_io ex_conf ex_hdr (lo0, info0) = Some (Inr i, lo0\<lparr>lo_retry_count := 0\<rparr>, set_src (pb, vols, w) info0)"
    using g pg v by (simp add: la_main_page_def ex_conf_def ex_main_page_def Let_def)
  then have "la_main_front ex_main_io ex_main_conf ex_conf ex_env ex_main_env ex_main =
      Some (Inr (ex_hdr, i), lo0\<lparr>lo_retry_count := 0\<rparr>, set_src (pb, vols, w) info0)"
    using h a d wt v by (simp add: la_main_front_def Let_def)
  then show ?thesis using q pg id by (auto simp: set_src_def page_at_def info0_def lo0_def)
qed

text \<open>The records of the page: one, after which the next page is wanted.\<close>

lemma ex_main_page_step:
  assumes "page_at i info = ex_main_page 33" and "cb_pageid (pb_log_buffer (li_pb info) ! i) = 33" and "li_repl info = ex_repl"
    and "li_final_lsa info = LSA 33 0" and "\<not> need_shutdown (li_vols info)"
  shows "page_ok io cf ex_env up mn ex_hdr i (LSA_NULL, info)" and "\<exists>r a. la_page_loop io cf ex_env up mn ex_hdr i (LSA_NULL, info) =
      Some (None, info\<lparr>li_repl := r, li_is_end_of_record := False, li_final_lsa := LSA 34 0\<rparr>) \<and> tran_of r 9 = Some a"
proof -
  obtain r a where p: "la_log_record_process io cf ex_env up ex_main_rec (ex_main_page 33) info = Some (NO_ERROR, info\<lparr>li_repl := r, li_is_end_of_record := False\<rparr>)"
    and a: "tran_of r 9 = Some a" using ex_main_processed [OF assms(3,4)] by blast
  have f: "la_page_final i info = LSA 33 0" using assms(1,4) by (simp add: la_page_final_def Let_def ex_main_page_def)
  have u: "info\<lparr>li_final_lsa := LSA 33 0\<rparr> = info" using assms(4) by simp
  have m: "record_met i info = ex_main_rec" using assms(1) f ex_main_record by (simp add: record_met_def)
  have at: "page_at i (info\<lparr>li_repl := r, li_is_end_of_record := False\<rparr>) = ex_main_page 33" using assms(1) by (simp add: page_at_def)
  have fw: "lr_forw_lsa ex_main_rec = LSA 34 0" by (simp add: ex_main_rec_def)
  have rec: "la_page_record io cf ex_env up mn i info = Some (Inr (LSA 33 0, info\<lparr>li_repl := r, li_is_end_of_record := False, li_final_lsa := LSA 34 0\<rparr>))"
    using p at assms(1,4) ex_main_record fw by (simp add: la_page_record_def Let_def lsa_simps less_log_lsa_def)
  have step: "la_page_step io cf ex_env up mn ex_hdr i (LSA_NULL, info) =
      Some (Inr (LSA 33 0, info\<lparr>li_repl := r, li_is_end_of_record := False, li_final_lsa := LSA 34 0\<rparr>))"
    unfolding la_page_step_def prod.case f u Let_def rec [symmetric] using assms ex_main_record
    by (simp add: ex_hdr_def lsa_simps less_log_lsa_def LSA_NULL_def LSA_ISNULL_def)
  have "met_ok io cf ex_env up ex_hdr i info"
    unfolding met_ok_def m f u using p assms(1) at
    by (simp add: same_page_def page_at_def) (simp add: record_ok_def la_record_last_def ex_main_rec_def less_log_lsa_def)
  then show "page_ok io cf ex_env up mn ex_hdr i (LSA_NULL, info)" using step assms(2) by (auto intro: page_okI)
  show "\<exists>r a. la_page_loop io cf ex_env up mn ex_hdr i (LSA_NULL, info) =
      Some (None, info\<lparr>li_repl := r, li_is_end_of_record := False, li_final_lsa := LSA 34 0\<rparr>) \<and> tran_of r 9 = Some a"
    using step a assms(2) by (subst la_page_loop.simps) (auto simp: page_loop_stop)
qed

lemma ex_main_round:
  "\<exists>st' a. main_ok ex_main_io ex_main_conf ex_conf ex_env ex_up ex_main_env ex_main \<and>
     la_main_iter ex_main_io ex_main_conf ex_conf ex_env ex_up ex_main_env ex_main = Some (It_continue, st') \<and>
     \<not> need_shutdown (li_vols (snd st')) \<and> li_final_lsa (snd st') = LSA 34 0 \<and> tran_of (li_repl (snd st')) 9 = Some a"
proof -
  obtain i pb vols w and info :: "(unit, unit la_item list) la_info" where
    fr: "la_main_front ex_main_io ex_main_conf ex_conf ex_env ex_main_env ex_main =
       Some (Inr (ex_hdr, i), (fst ex_main)\<lparr>lo_last_nxarv_num := 3, lo_retry_count := 0\<rparr>, info)"
    and info: "info = ex_info\<lparr>li_pb := pb, li_vols := vols, li_w := w\<rparr>"
    and q: "page_at i info = ex_main_page 33" "cb_pageid (pb_log_buffer (li_pb info) ! i) = 33" "act_log_hdr vols = ex_hdr" "\<not> need_shutdown vols"
    using ex_main_front by blast
  have e: "li_repl info = ex_repl" "li_final_lsa info = LSA 33 0" "\<not> need_shutdown (li_vols info)" using info q by (simp_all add: ex_info_def)
  note P = ex_main_page_step [OF q(1,2) e]
  have ok: "main_ok ex_main_io ex_main_conf ex_conf ex_env ex_up ex_main_env ex_main" using fr P(1) by (simp add: main_ok_def)
  obtain r a where l: "la_page_loop ex_main_io ex_conf ex_env ex_up ex_main_env ex_hdr i (LSA_NULL, info) =
      Some (None, info\<lparr>li_repl := r, li_is_end_of_record := False, li_final_lsa := LSA 34 0\<rparr>)" and a: "tran_of r 9 = Some a"
    using P(2) by blast
  define info1 where "info1 = info\<lparr>li_repl := r, li_is_end_of_record := False, li_final_lsa := LSA 34 0\<rparr>"
  define lo1 where "lo1 = (fst ex_main)\<lparr>lo_last_nxarv_num := 3, lo_retry_count := 0\<rparr>"
  have c: "la_main_commit ex_conf ex_env (la_main_interval ex_main_conf ex_env (lo1, info1)) = (It_go, lo1\<lparr>lo_time_commit := 100000\<rparr>, info1)"
    using q(3) by (simp add: la_main_commit_def la_main_interval_def info1_def info ex_info_def lo1_def ex_main_def la_check_time_commit_def
        ex_env_def la_change_state_def Let_def ex_hdr_def)
  have d: "la_main_end ex_conf ex_main_env ex_hdr i (lo1\<lparr>lo_time_commit := 100000\<rparr>, info1) = (It_continue, lo1\<lparr>lo_time_commit := 100000\<rparr>, info1)"
    by (simp add: la_main_end_def ex_conf_def info1_def info ex_info_def ex_hdr_def)
  have "la_main_iter ex_main_io ex_main_conf ex_conf ex_env ex_up ex_main_env ex_main = Some (It_continue, lo1\<lparr>lo_time_commit := 100000\<rparr>, info1)"
    using fr l c d by (simp add: la_main_iter_def info1_def [symmetric] lo1_def [symmetric])
  then show ?thesis using ok a q(4) by (auto simp: info1_def info)
qed

definition ex_self_rec :: log_record_header where
  "ex_self_rec = \<lparr>lr_prev_tranlsa = LSA 31 0, lr_back_lsa = LSA 33 8, lr_forw_lsa = LSA 33 8, lr_trid = 9, lr_type = 5\<rparr>"

definition ex_self_info :: "(unit, unit la_item list) la_info" where
  "ex_self_info = ex_info\<lparr>li_final_lsa := LSA 33 8,
     li_pb := ex_pb\<lparr>pb_log_buffer := [(zero_buffer 56)\<lparr>cb_pageid := 33, cb_logpage := \<lparr>lp_logical_pageid = 33, lp_offset = 0,
       lp_area = replicate 8 0 @ wr_log_record_header ex_self_rec\<rparr>\<rparr>]\<rparr>\<rparr>"

section \<open>Properties\<close>

text \<open>
  C9. The invariant of the main loop, over rounds with good records. Between any
  two rounds, as long as no shutdown is asked for, each open transaction has its
  items in the order of the log, all of them before the address the loop goes on
  from, as many as are counted and never more than the limit, provided that the
  address of each round is not null and each record met in the rounds is good
  (\<open>main_ok\<close>, \<open>met_ok\<close>): it belongs to a transaction if it is a replication
  record, it is not the last one of an archive, it points forward, processing it
  returns, with or without an error, and after a success the buffer still holds
  its page. A record that does not point forward is outside the property: where
  a replication record in the active log has no successor, it is recorded, the
  loop comes back to it, and its item is not before the address.
\<close>

theorem main_loop_transactions:
  assumes "main_run io mc cf en up mn st" and "\<not> need_shutdown (li_vols (snd st))" and "tran_of (li_repl (snd st)) t = Some a"
  shows "ap_tranid a = t \<and> sorted_wrt (\<lambda>x y. it_lsa x < it_lsa y) (ap_items a) \<and>
    (\<forall>x \<in> set (ap_items a). it_lsa x < li_final_lsa (snd st)) \<and>
    ap_num_items a = int (length (ap_items a)) \<and> ap_num_items a \<le> LA_MAX_REPL_ITEMS"
proof -
  obtain f where r: "la_run io cf en up f (snd st)" "f < li_final_lsa (snd st)" using main_run_run [OF assms(1)] assms(2) by blast
  note T = la_run_table [OF r]
  have inv: "repl_inv (li_repl (snd st))" using T by (simp add: table_inv_def)
  obtain i where i: "i < cur_repl (li_repl (snd st))" "repl_lists (li_repl (snd st)) ! i = a" "ap_tranid a = t"
    using tran_of_iff [OF inv] assms(3) by blast
  have "apply_ok a" using inv i by (auto simp: repl_inv_def)
  moreover have "app_below (li_final_lsa (snd st)) a" using table_inv_nth [OF T i(1)] i(2) by simp
  ultimately show ?thesis using i(3) by (auto simp: apply_ok_def app_below_def)
qed

lemma main_loop_transactions_witness:
  "\<exists>st a. main_run ex_main_io ex_main_conf ex_conf ex_env ex_up ex_main_env st \<and> li_final_lsa (snd st) = LSA 34 0 \<and>
     tran_of (li_repl (snd st)) 9 = Some a \<and> ap_num_items a = int (length (ap_items a))"
proof -
  obtain st' a where ok: "main_ok ex_main_io ex_main_conf ex_conf ex_env ex_up ex_main_env ex_main"
    and it: "la_main_iter ex_main_io ex_main_conf ex_conf ex_env ex_up ex_main_env ex_main = Some (It_continue, st')"
    and s: "\<not> need_shutdown (li_vols (snd st'))" "li_final_lsa (snd st') = LSA 34 0" "tran_of (li_repl (snd st')) 9 = Some a"
    using ex_main_round by blast
  have i: "la_init_repl_lists (\<lambda>_. True) False \<lparr>repl_lists = [], repl_cnt = 0, cur_repl = 0, commits = []\<rparr> = (NO_ERROR, li_repl ex_info)"
    using ex_repl_init by (simp add: ex_info_def)
  have "main_run ex_main_io ex_main_conf ex_conf ex_env ex_up ex_main_env ex_main" unfolding ex_main_def by (rule main_start [OF i])
  from main_round [OF this _ _ ok it] have "main_run ex_main_io ex_main_conf ex_conf ex_env ex_up ex_main_env st'"
    by (simp add: ex_main_def ex_info_def ex_vols_def LSA_ISNULL_def)
  with main_loop_transactions [OF this s(1,3)] s show ?thesis by blast
qed

text \<open>
  C10. The loop over the records of a page ends: when the records it meets are
  good ones it returns, and either a shutdown is asked for or the loop has come
  to an address behind the last record it processed.
\<close>

theorem page_records_end:
  assumes "la_run io cf en up f info" and "f < li_final_lsa info" and "page_ok io cf en up mn hdr i (prev, info)"
    and "0 \<le> lp_offset (page_at i info)"
  shows "\<exists>r info' f'. la_page_loop io cf en up mn hdr i (prev, info) = Some (r, info') \<and>
    (need_shutdown (li_vols info') \<or> la_run io cf en up f' info' \<and> f \<le> f' \<and> f' < li_final_lsa info')"
  using page_loop_run [OF assms] .

lemma page_records_end_witness:
  "\<exists>i info r info'. la_page_loop ex_main_io ex_conf ex_env ex_up ex_main_env ex_hdr i (LSA_NULL, info) = Some (r, info') \<and>
     page_at i info = ex_main_page 33 \<and> li_final_lsa info = LSA 33 0"
proof -
  obtain i pb vols w and info :: "(unit, unit la_item list) la_info" where info: "info = ex_info\<lparr>li_pb := pb, li_vols := vols, li_w := w\<rparr>"
    and q: "page_at i info = ex_main_page 33" "cb_pageid (pb_log_buffer (li_pb info) ! i) = 33" "\<not> need_shutdown vols"
    using ex_main_front by blast
  have e: "li_repl info = ex_repl" "li_final_lsa info = LSA 33 0" "\<not> need_shutdown (li_vols info)" using info q by (simp_all add: ex_info_def)
  have r: "la_run ex_main_io ex_conf ex_env ex_up (LSA 32 0) info"
    using run_start [of "\<lambda>_. True" _ info] ex_repl_init e(1) by simp
  from page_records_end [OF r _ ex_main_page_step(1) [OF q(1,2) e], of ex_main_env] q(1) e(2) show ?thesis
    by (force simp: less_log_lsa_def ex_main_page_def)
qed

text \<open>
  C39. A record whose forward and backward addresses are both its own passes
  every check of the loop, and the loop never leaves the page: the check at the
  end only refuses a forward address that is behind the record.
\<close>

theorem self_linked_record_never_ends:
  fixes info :: "('a, 'b) la_info"
  assumes "li_final_lsa info = f" and "lsa_pageid f = cb_pageid (pb_log_buffer (li_pb info) ! i)" and "\<not> need_shutdown (li_vols info)"
    and "0 < lsa_offset f" and "0 \<le> lsa_pageid f" and "f < lh_eof_lsa hdr" and "f \<le> lh_append_lsa hdr"
    and "LOG_GET_LOG_RECORD_HEADER (page_at i info) f = lrec" and "record_ignored lrec"
    and "lr_back_lsa lrec = f" and "lr_forw_lsa lrec = f" and "lr_prev_tranlsa lrec < f" and "\<not> LSA_ISNULL (lr_prev_tranlsa lrec)"
  shows "la_page_loop io cf en up mn hdr i (LSA_NULL, info) = None"
proof (rule page_loop_diverges)
  let ?P = "\<lambda>st :: log_lsa \<times> ('a, 'b) la_info. fst st \<in> {LSA_NULL, f} \<and> li_final_lsa (snd st) = f \<and> li_pb (snd st) = li_pb info \<and> li_vols (snd st) = li_vols info"
  show "?P (LSA_NULL, info)" using assms(1) by simp
  fix st assume P: "?P st"
  obtain prev and j :: "('a, 'b) la_info" where st: "st = (prev, j)" by (cases st)
  have at: "page_at i j = page_at i info" using P st by (simp add: page_at_def)
  have fin: "la_page_final i j = f" using P st assms(4) by (simp add: la_page_final_def Let_def)
  let ?j = "j\<lparr>li_final_lsa := f\<rparr>"
  have at': "page_at i ?j = page_at i info" using at by (simp add: page_at_def)
  have p: "la_log_record_process io cf en up lrec (page_at i info) ?j = Some (NO_ERROR, ?j\<lparr>li_is_end_of_record := False\<rparr>)"
    by (rule ignored_processed) (use assms in auto)
  have at2: "page_at i (?j\<lparr>li_is_end_of_record := False\<rparr>) = page_at i info" using at by (simp add: page_at_def)
  have "la_page_record io cf en up mn i ?j = Some (Inr (f, ?j\<lparr>li_is_end_of_record := False, li_final_lsa := f\<rparr>))"
    using p at2 assms(8,11) by (simp add: la_page_record_def at' Let_def lsa_simps)
  moreover have "la_page_step io cf en up mn hdr i st = la_page_record io cf en up mn i ?j"
    using P st assms(2,3,6,7,8,10) by (auto simp: la_page_step_def fin at' Let_def lsa_simps)
  ultimately show "\<exists>st'. la_page_step io cf en up mn hdr i st = Some (Inr st') \<and> ?P st'"
    using P st by auto
qed

lemma self_linked_record_never_ends_witness:
  "la_page_loop ex_main_io ex_conf ex_env ex_up ex_main_env ex_hdr 0 (LSA_NULL, ex_self_info) = None"
proof (rule self_linked_record_never_ends)
  have "header_fits ex_self_rec" by (simp add: header_fits_def lsa_fits_def ex_self_rec_def)
  then show "LOG_GET_LOG_RECORD_HEADER (page_at 0 ex_self_info) (LSA 33 8) = ex_self_rec"
    using rd_wr_log_record_header [of ex_self_rec "replicate 8 0" "[]"]
    by (simp add: LOG_GET_LOG_RECORD_HEADER_def ex_self_info_def page_at_def)
qed (simp_all add: ex_self_info_def ex_self_rec_def ex_info_def ex_vols_def ex_hdr_def record_ignored_def less_log_lsa_def less_eq_log_lsa_def LSA_ISNULL_def)

end
