(* ===== verification/Spec2Isabelle.thy ===== *)
theory Spec2Isabelle
  imports La_Long Row_Insert La_Main_Run
begin

text \<open>
  A verification of the log reader of CUBRID 9.3.6. The sources are under
  \<^verbatim>\<open>src/9.3.6+log_reader/src\<close>; file names below are relative to that
  directory.

  \<^bold>\<open>The program.\<close> A server of CUBRID logs every change of its database and, for
  replication, what a slave has to repeat. The log applier reads the log of such
  a server, from the active volume and from archives, collects the replication
  records of each transaction and, when it meets the commit, applies them to
  the slave database. The two sides share nothing but the bytes of the log, so
  the development models both: the part of the server that makes and writes
  those bytes, and the applier that reads them back.

  \<^bold>\<open>The server side.\<close>
  \<^item> \<^theory_text>\<open>Log_Append\<close> (\<^verbatim>\<open>transaction/log_page_buffer.c\<close>, \<^verbatim>\<open>log_impl.h\<close>): addresses are
    reserved in the prior list (\<^verbatim>\<open>prior_lsa_next_record_internal\<close>) and the list is
    written into pages later (\<^verbatim>\<open>logpb_append_prior_lsa_list\<close>). Both passes are
    modelled and shown to agree on every address.
  \<^item> \<^theory_text>\<open>Log_Compress\<close> (\<^verbatim>\<open>transaction/log_compress.c\<close>): \<^verbatim>\<open>log_zip\<close>, \<^verbatim>\<open>log_unzip\<close>, \<^verbatim>\<open>log_diff\<close>.
    The LZO library is the parameter \<open>lzo\<close>; \<open>lzo_ok\<close> says that decompressing what
    it compressed gives the data back.
  \<^item> \<^theory_text>\<open>Log_Gen\<close> (\<^verbatim>\<open>log_page_buffer.c\<close>, \<^verbatim>\<open>prior_lsa_alloc_and_copy_data\<close>,
    \<^verbatim>\<open>prior_lsa_alloc_and_copy_crumbs\<close> and the \<^verbatim>\<open>prior_lsa_gen_...\<close> functions): the
    records made for every type of change, with their error paths.
  \<^item> \<^theory_text>\<open>Log_Manager\<close> (\<^verbatim>\<open>transaction/log_manager.c\<close>): the \<^verbatim>\<open>log_append_...\<close> functions
    that the storage layer calls, and the addresses they note for replication.
  \<^item> \<^theory_text>\<open>Replication\<close> (\<^verbatim>\<open>transaction/replication.c\<close> and the commit in
    \<^verbatim>\<open>log_manager.c\<close>): the replication records in the transaction descriptor, and
    how a commit appends them to the log.

  \<^bold>\<open>The applier\<close> (\<^verbatim>\<open>transaction/log_applier.c\<close>).
  \<^item> \<^theory_text>\<open>La_Page\<close>: physical pages, archives, reading a page from the volumes.
  \<^item> \<^theory_text>\<open>Memory_Hash\<close> (\<^verbatim>\<open>base/memory_hash.c\<close>): the hash table of the page cache; its
    interface is the locale \<open>mht_interface\<close>, interpreted on \<open>mht_put\<close> and its
    companions.
  \<^item> \<^theory_text>\<open>La_Cache\<close>: the page cache, with replacement by a clock.
  \<^item> \<^theory_text>\<open>La_Read\<close>: reading bytes of records over page bounds. The readers are proved in
    the locale \<open>page_source\<close> for anything that delivers pages and used through its
    interpretation on the cache.
  \<^item> \<^theory_text>\<open>Or_Pack\<close> (\<^verbatim>\<open>object/object_representation.c\<close>): strings and integers in
    replication records.
  \<^item> \<^theory_text>\<open>La_Repl\<close>: the table of open transactions, their items and the commit queue;
    the locale \<open>tran_table\<close> is what the rest relies on.
  \<^item> \<^theory_text>\<open>La_Control\<close>: the state \<open>la_info\<close> (the globals \<^verbatim>\<open>la_Info\<close>), commits, states, the
    commit interval and the removal of archives.
  \<^item> \<^theory_text>\<open>La_Record\<close>: \<^verbatim>\<open>la_log_record_process\<close> and the application of a transaction.
  \<^item> \<^theory_text>\<open>La_Log_Data\<close>, \<^theory_text>\<open>La_Recdes\<close>: the images of a row from the records of the log
    (\<^verbatim>\<open>la_get_log_data\<close>, \<^verbatim>\<open>la_get_recdes\<close>), overflow rows and updates of the
    same row included; the locale \<open>page_reader\<close> extends \<open>page_source\<close>.
  \<^item> \<^theory_text>\<open>La_Object\<close> (with \<^verbatim>\<open>object/object_representation.c\<close>, \<^verbatim>\<open>base/object_representation.h\<close>):
    from the image of a row to the columns of a template (\<^verbatim>\<open>la_disk_to_obj\<close>,
    \<^verbatim>\<open>la_get_current\<close>).
  \<^item> \<^theory_text>\<open>La_Slave\<close>: applying one item, \<^verbatim>\<open>la_apply_insert_log\<close>, \<^verbatim>\<open>la_apply_update_log\<close>,
    \<^verbatim>\<open>la_apply_update_log_server_side\<close>, \<^verbatim>\<open>la_apply_delete_log\<close> and
    \<^verbatim>\<open>la_apply_schema_log\<close>, with the flush of insertions and the calls of the plug-in;
    its state is \<open>la_slave\<close>, the object layer the parameter \<open>obj_env\<close>.
  \<^item> \<^theory_text>\<open>La_Main\<close>: the loops of \<^verbatim>\<open>la_apply_log_file\<close>.

  \<^bold>\<open>What is shown.\<close>
  \<^item> From end to end (this theory, over \<^theory_text>\<open>Repl_Roundtrip\<close>, \<^theory_text>\<open>Row_Roundtrip\<close> and
    \<^theory_text>\<open>Row_Insert\<close>): what the server logs for a row or a schema change, commits and
    writes is what the applier gets, through its page cache and whatever that
    holds: the class, the kind of the change, the key, the row and its old image.
    For an insertion this goes on to the slave: an object layer that takes the
    insertion is given exactly the columns of the row. Rows here are those in one
    record, without overflow pages and without an address assigned before.
  \<^item> Applying transactions (\<^theory_text>\<open>La_Apply\<close>, \<^theory_text>\<open>La_Long\<close>): with a slave that takes every
    item, the commit queue is applied as a sequential specification says; where
    its ready entries are complete commits of different transactions, these
    reach the slave whole and in the order of their commits. Transactions of
    more than a thousand items, which the applier reads back from the log, are
    included, for a log that stays readable. How the next item of a transaction is
    found is the locale \<open>item_reader\<close>, interpreted on the lists of items and on
    the log.
  \<^item> Runs (\<^theory_text>\<open>La_Invariant\<close>, \<^theory_text>\<open>La_Main_Run\<close>): the transaction table keeps its
    invariant over records with growing addresses, failed ones included, and over
    the rounds of the main loop that meet only good records (those that point
    forward and whose processing returns); the address recorded for a restart is
    at or before the start of every open transaction, a commit makes that address
    durable or nothing, and archives from the one a restart needs are kept.
  \<^item> Applying one item (\<^theory_text>\<open>La_Object\<close>, \<^theory_text>\<open>La_Slave_Run\<close>): rows are read into their
    columns; insertions are applied; authorization is restored on every path of
    four of the five functions (of the insertion, provided that a plug-in
    starts), and not on all paths of the fifth, the update.
  \<^item> The components: the cache holds the page it says, as long as page 0 (its mark
    of an empty buffer) is not asked for, never takes a page in use, and its
    searches end; a byte read is the byte of the log; fixed parts and strings are
    read as they were written; the hash table is a map; collecting replication
    records stays within their array, as long as that can be extended.
  \<^item> What the code does not do: theorems on concrete defects (a partial commit that
    applies an item too many, a lost array after a failed \<^verbatim>\<open>realloc\<close>, undo data
    that is lost, a page that is never left, authorization left off, and others).

  \<^bold>\<open>Conventions.\<close> Integers of the source are \<open>int\<close>, with the width written out where
  a value is read from or written to bytes (\<open>rd_int\<close>, \<open>wr_int\<close>) or may overflow.
  Error codes are the numbers of the source. The outcome of a call is \<open>None\<close> where
  the source does not return or has no defined behaviour (a null pointer, an
  index outside an array); the loops that may not end are partial functions into
  \<open>option\<close>, and the theorems that they return are about \<open>Some\<close>. There is no fuel.
  The world outside the sources is a parameter, a record of functions on a state
  \<open>'w\<close> of any type: \<open>la_io\<close> (volumes and memory), \<open>la_values\<close> (values of the
  database from their bytes), \<open>la_env\<close> (the slave, the clock, notifications),
  \<open>la_main_env\<close> (locks, the plug-in), \<open>obj_env\<close> (classes, objects, templates and
  users of the slave), \<open>repl_env\<close>, \<open>gen_env\<close> and \<open>log_srv_env\<close> (the
  configuration and the memory of the server). What a theorem needs of them is
  among its assumptions, and its witness has a concrete instance of them.

  \<^bold>\<open>Not modelled.\<close> The object layer of the client library, a parameter of
  \<^theory_text>\<open>La_Slave\<close>. In the loops of the applier (\<^theory_text>\<open>La_Record\<close> and above) the functions that
  apply one item are fields of \<open>la_env\<close>, so that the theorems there hold for any
  slave with the properties they name; \<^theory_text>\<open>La_Slave\<close> models the functions themselves.
  The queries on the applier's rows of the catalog are fields of \<open>la_env\<close> too.
  Sleeping, messages and the error stack have no effect on
  the state here. The prefetcher works in threads of its own on the buffers of the
  slave. Start and end of the process, \<^verbatim>\<open>la_log_page_check\<close> and the utility
  \<^verbatim>\<open>logreader\<close> (\<^verbatim>\<open>executables/util_cs.c\<close>) are options, connections and printing.
  Flushing, archiving, recovery, locking, storage, SQL and the drivers are parts
  of the server that the log reader does not use.
\<close>

section \<open>From the server to the applier\<close>

text \<open>
  C1. A row that is inserted reaches the applier. The server logs the row,
  records the insertion for replication, commits and writes the log. The
  applier makes an item of it, of the same transaction, with the name of the
  class, the kind of the change and the key; and when it gets the row that the
  item stands for, at any later time and whatever its page cache holds by then,
  it gets the type and the data of the row as they were logged.
\<close>

theorem row_insert_reaches_applier:
  fixes st st1 :: log_srv and td :: log_tdes_repl
  assumes "area_size_ok sz" and "agree sz (ls_prior st) gl" and "pi_list (ls_prior st) = []" and "\<forall>w. fst (alloc w)"
    and "repl_reach (ls_tdes st)" and "logs_rows le addr (ls_gen st)" and "lzo_ok (ge_lzo (ls_gen st))"
    and "env_ok en" and "re_data_mem en" and "td_suppress_replication (ls_tdes st) = 0" and "re_class_name en = Some nm" and "str_ok (Some nm)"
    and "log_append_undoredo_recdes2 sz le RVHF_INSERT addr None (Some (ty, data)) st = Some st1"
    and "repl_log_insert_td en inst_oid LOG_REPLICATION_DATA RVREPL_INSERT key (length key) repl_info (ls_tdes st1) = Some (err, td)"
    and "log_append_repl_info_and_unlock_log sz alloc td (ls_prior st1) w = Some (td', pi', w')"
    and "logpb_append_prior_lsa_list sz (pi_list pi') gl = Some gl'"
    and "src_ok io cfg (gl_pages gl') P Q s" and "src_ok io cfg (gl_pages gl') P Q s2"
    and "\<forall>q. fst (gl_append gl) \<le> q \<and> q \<le> fst (gl_append gl') \<longrightarrow> P q"
    and "lsa_fits (lsa_of (gl_append gl))" and "\<not> LSA_ISNULL (lsa_of (gl_append gl))"
    and "int (length (or_pack_string [] (Some nm) @ key)) < 2 ^ 31" and "int (length data) + 2 < 2 ^ 31"
    and "zips_ok zs" and "plain_row RVHF_INSERT ty"
  shows "\<exists>n item s' row zs' s''. n \<in> set (pi_list pi') \<and> lr_type (pn_log_header n) = LOG_REPLICATION_DATA \<and>
    lr_trid (pn_log_header n) = td_trid td \<and>
    la_make_repl_item (la_page_src io cfg) sz (src_alloc io) up (gl_pages gl' (lsa_pageid (pn_start_lsa n)))
      LOG_REPLICATION_DATA (pn_start_lsa n) s = Some (Some item, s') \<and>
    map_option c_string (it_class_name item) = Some nm \<and> it_item_type item = RVREPL_INSERT \<and> it_key item = Some (up_mem_value up key) \<and>
    la_get_recdes (la_page_src io cfg) src_release sz (src_alloc io) (ge_lzo (ls_gen st)) False (it_target_lsa item)
      (gl_pages gl' (lsa_pageid (it_target_lsa item))) zs s2 = Some (row, zs', s'') \<and>
    rw_error row = NO_ERROR \<and> map_option (\<lambda>d. (rc_type d, rc_data d)) (rw_recdes row) = Some (ty, data)"
proof (rule inserted_row_item [OF assms(1-17,19-23,25), where up = up], goal_cases)
  case (1 n item s')
  from 1(9) [OF assms(24,18)] obtain len zs' s'' where
    "la_get_recdes (la_page_src io cfg) src_release sz (src_alloc io) (ge_lzo (ls_gen st)) False (it_target_lsa item)
      (gl_pages gl' (lsa_pageid (it_target_lsa item))) zs s2 =
     Some (\<lparr>rw_error = NO_ERROR, rw_rcvindex = Some RVHF_INSERT, rw_recdes = Some \<lparr>rc_type = ty, rc_data = data, rc_length = len\<rparr>,
       rw_old = None, rw_ovfyn = False\<rparr>, zs', s'')" by blast
  then show ?case using 1(1-7)
    by (intro exI [of _ n] exI [of _ item] exI [of _ s'] exI [of _ "\<lparr>rw_error = NO_ERROR, rw_rcvindex = Some RVHF_INSERT,
        rw_recdes = Some \<lparr>rc_type = ty, rc_data = data, rc_length = len\<rparr>, rw_old = None, rw_ovfyn = False\<rparr>"] exI [of _ zs'] exI [of _ s'']) simp
qed

lemma row_insert_reaches_applier_witness:
  "\<exists>(st1 :: log_srv) td (pi' :: log_prior_info) gl' n item s' row zs' s''.
     log_append_undoredo_recdes2 80 ex_srv_env RVHF_INSERT ex_addr None (Some (2, replicate 50 7)) ex_srv = Some st1 \<and>
     repl_log_insert_td ex_mem OID_NULL LOG_REPLICATION_DATA RVREPL_INSERT [1, 2, 3, 4] 4 REPL_INFO_TYPE_STMT_NORMAL (ls_tdes st1) = Some (NO_ERROR, td) \<and>
     logpb_append_prior_lsa_list 80 (pi_list pi') ex_gl = Some gl' \<and> n \<in> set (pi_list pi') \<and>
     la_make_repl_item (la_page_src (io_upto (fst (gl_append gl')) (gl_pages gl')) ex_cfg) 80 (src_alloc (io_upto (fst (gl_append gl')) (gl_pages gl')))
       \<lparr>up_mem_value = Some, mk_string = id\<rparr> (gl_pages gl' (lsa_pageid (pn_start_lsa n))) LOG_REPLICATION_DATA (pn_start_lsa n)
       (ex_pb, ex_vols\<lparr>act_log_hdr := hdr_upto (fst (gl_append gl'))\<rparr>, ()) = Some (Some item, s') \<and>
     la_get_recdes (la_page_src (io_upto (fst (gl_append gl')) (gl_pages gl')) ex_cfg) src_release 80
       (src_alloc (io_upto (fst (gl_append gl')) (gl_pages gl'))) ex_lzo False (it_target_lsa item)
       (gl_pages gl' (lsa_pageid (it_target_lsa item))) (ex_zip, ex_zip)
       (ex_pb, ex_vols\<lparr>act_log_hdr := hdr_upto (fst (gl_append gl'))\<rparr>, ()) = Some (row, zs', s'') \<and>
     map_option (\<lambda>d. (rc_type d, rc_data d)) (rw_recdes row) = Some (2, replicate 50 7)"
proof -
  note A = ex_insert_server
  let ?data = "replicate 50 7 :: byte list"
  obtain st1 td td' and pi' :: log_prior_info and gl' where
    r: "log_append_undoredo_recdes2 80 ex_srv_env RVHF_INSERT ex_addr None (Some (2, ?data)) ex_srv = Some st1"
    "repl_log_insert_td ex_mem OID_NULL LOG_REPLICATION_DATA RVREPL_INSERT [1, 2, 3, 4] (length [1, 2, 3, 4 :: byte])
       REPL_INFO_TYPE_STMT_NORMAL (ls_tdes st1) = Some (NO_ERROR, td)"
    "log_append_repl_info_and_unlock_log 80 (\<lambda>w :: unit. (True, w)) td (ls_prior st1) () = Some (td', pi', ())"
    "logpb_append_prior_lsa_list 80 (pi_list pi') ex_gl = Some gl'"
    and g: "\<forall>q \<le> fst (gl_append gl'). lp_logical_pageid (gl_pages gl' q) = q"
    and p: "\<forall>q. fst (gl_append ex_gl) \<le> q \<and> q \<le> fst (gl_append gl') \<longrightarrow> 30 \<le> q \<and> q \<le> fst (gl_append gl')" by (rule ex_insert_run)
  note s = io_upto_src_ok [OF g]
  have d: "int (length ?data) + 2 < 2 ^ 31" by simp
  from row_insert_reaches_applier [where up = "\<lparr>up_mem_value = Some, mk_string = id\<rparr>", OF ex_append_ok(1) A(1-11) r s s p A(13-15) d A(17,16)]
  obtain n item s' row zs' s'' where "n \<in> set (pi_list pi')"
    "la_make_repl_item (la_page_src (io_upto (fst (gl_append gl')) (gl_pages gl')) ex_cfg) 80 (src_alloc (io_upto (fst (gl_append gl')) (gl_pages gl')))
       \<lparr>up_mem_value = Some, mk_string = id\<rparr> (gl_pages gl' (lsa_pageid (pn_start_lsa n))) LOG_REPLICATION_DATA (pn_start_lsa n)
       (ex_pb, ex_vols\<lparr>act_log_hdr := hdr_upto (fst (gl_append gl'))\<rparr>, ()) = Some (Some item, s')"
    "la_get_recdes (la_page_src (io_upto (fst (gl_append gl')) (gl_pages gl')) ex_cfg) src_release 80
       (src_alloc (io_upto (fst (gl_append gl')) (gl_pages gl'))) ex_lzo False (it_target_lsa item)
       (gl_pages gl' (lsa_pageid (it_target_lsa item))) (ex_zip, ex_zip)
       (ex_pb, ex_vols\<lparr>act_log_hdr := hdr_upto (fst (gl_append gl'))\<rparr>, ()) = Some (row, zs', s'')"
    "map_option (\<lambda>d. (rc_type d, rc_data d)) (rw_recdes row) = Some (2, ?data)"
    unfolding A(12) by blast
  moreover have "length [1, 2, 3, 4 :: byte] = 4" by simp
  note r(2) [unfolded this]
  ultimately show ?thesis using r(1,4) by blast
qed

text \<open>
  C2. The columns of a row that is inserted reach the slave. The server logs a
  row of a class with fixed and variable columns, records the insertion, commits
  and writes the log. The applier makes an item of it, and when it applies the
  item, at any later time and whatever its page cache holds by then, it gives
  the object layer exactly the columns of the row, null where the row has
  none, in a template of the class of that name, finishes the template, counts
  one insertion and no failure, and returns without error. The object layer is one that takes the
  insertion; plug-ins and the logging of statements are off, and no other class
  has insertions that are not flushed.
\<close>

theorem inserted_columns_reach_slave:
  fixes st st1 :: log_srv and td :: log_tdes_repl
  assumes "area_size_ok (cf_area cf)" and "agree (cf_area cf) (ls_prior st) gl" and "pi_list (ls_prior st) = []" and "\<forall>w. fst (alloc w)"
    and "repl_reach (ls_tdes st)" and "logs_rows le addr (ls_gen st)" and "lzo_ok (ge_lzo (ls_gen st))"
    and "env_ok en" and "re_data_mem en" and "td_suppress_replication (ls_tdes st) = 0" and "re_class_name en = Some nm" and "str_ok (Some nm)"
    and "log_append_undoredo_recdes2 (cf_area cf) le RVHF_INSERT addr None (Some (ty, row_bytes bits chn base fs pad bbs vs)) st = Some st1"
    and "repl_log_insert_td en inst_oid LOG_REPLICATION_DATA RVREPL_INSERT key (length key) repl_info (ls_tdes st1) = Some (err, td)"
    and "log_append_repl_info_and_unlock_log (cf_area cf) alloc td (ls_prior st1) w = Some (td', pi', w')"
    and "logpb_append_prior_lsa_list (cf_area cf) (pi_list pi') gl = Some gl'"
    and "src_ok io (cf_cache cf) (gl_pages gl') P Q s" and "src_ok io (cf_cache cf) (gl_pages gl') P Q src"
    and "\<forall>q. fst (gl_append gl) \<le> q \<and> q \<le> fst (gl_append gl') \<longrightarrow> P q"
    and "lsa_fits (lsa_of (gl_append gl))" and "\<not> LSA_ISNULL (lsa_of (gl_append gl))"
    and "int (length (or_pack_string [] (Some nm) @ key)) < 2 ^ 31"
    and "plain_row RVHF_INSERT ty" and "ty \<notin> {REC_ASSIGN_ADDRESS, REC_RELOCATION}"
    and "row_ok fixed_size bits base fs pad bbs vs" and "int (length (row_bytes bits chn base fs pad bbs vs)) + 2 < DB_INT32_MAX"
    and "zips_ok (sv_zips sv)" and "sv_last_class sv \<in> {[], nm}" and "\<forall>w. te_mem (oe_tmpl oe) w = (True, w)"
    and "\<And>w. takes_insert oe nm (row_class fixed_size fs vs) (row_columns (te_null (oe_tmpl oe)) bits fs bbs vs) tp ob w (g w)"
    and "sc_apply_log sc" and "\<not> sc_sql_logging sc" and "\<not> cf_enable_plugin cf"
  shows "\<exists>n item s' sv' pb vols w. n \<in> set (pi_list pi') \<and> lr_type (pn_log_header n) = LOG_REPLICATION_DATA \<and>
    la_make_repl_item (la_page_src io (cf_cache cf)) (cf_area cf) (src_alloc io) up (gl_pages gl' (lsa_pageid (pn_start_lsa n)))
      LOG_REPLICATION_DATA (pn_start_lsa n) s = Some (Some item, s') \<and>
    la_apply_insert_log io cf sc (ge_lzo (ls_gen st)) oe item (sv, src) =
      Some (NO_ERROR, sv', src_release (lsa_pageid (it_target_lsa item)) (pb, vols, oe_release oe ob (oe_abort_object oe tp (g w)))) \<and>
    sv_insert_counter sv' = sv_insert_counter sv + 1 \<and> sv_num_unflushed_insert sv' = sv_num_unflushed_insert sv + 1 \<and>
    sv_fail_counter sv' = sv_fail_counter sv \<and> sv_au_disable sv' = sv_au_disable sv"
proof -
  let ?data = "row_bytes bits chn base fs pad bbs vs"
  have len: "int (length ?data) + 2 < 2 ^ 31" using assms(26) by simp
  show ?thesis
  proof (rule inserted_row_item [OF assms(1-17,19-22) len assms(23), where up = up], goal_cases)
    case (1 n item s')
    have "item_class item = Some nm" using 1(5) by (simp add: item_class_def)
    from logged_insert_applied [OF assms(18) 1(8) assms(27) 1(9) assms(24) this assms(28) refl assms(25,26,29-33)]
    show ?case using 1(1,2,4) by blast
  qed
qed

lemma inserted_columns_reach_slave_witness:
  "\<exists>(st1 :: log_srv) td (pi' :: log_prior_info) gl' item sv' pb vols w.
     log_append_undoredo_recdes2 80 ex_srv_env RVHF_INSERT ex_addr None (Some (2, ex_row_data)) ex_srv = Some st1 \<and>
     logpb_append_prior_lsa_list 80 (pi_list pi') ex_gl = Some gl' \<and>
     la_apply_insert_log (io_upto (fst (gl_append gl')) (gl_pages gl')) ex_la_conf ex_slave_conf ex_lzo ex_slave item
       (ex_slave_state, ex_pb, ex_vols\<lparr>act_log_hdr := hdr_upto (fst (gl_append gl'))\<rparr>, []) =
     Some (NO_ERROR, sv', src_release (lsa_pageid (it_target_lsa item)) (pb, vols, w @ ex_columns)) \<and> sv_insert_counter sv' = 1"
proof -
  note A = ex_insert_server
  obtain st1 td td' and pi' :: log_prior_info and gl' where
    r: "log_append_undoredo_recdes2 80 ex_srv_env RVHF_INSERT ex_addr None (Some (2, ex_row_data)) ex_srv = Some st1"
    "repl_log_insert_td ex_mem OID_NULL LOG_REPLICATION_DATA RVREPL_INSERT [1, 2, 3, 4] (length [1, 2, 3, 4 :: byte])
       REPL_INFO_TYPE_STMT_NORMAL (ls_tdes st1) = Some (NO_ERROR, td)"
    "log_append_repl_info_and_unlock_log 80 (\<lambda>w :: unit. (True, w)) td (ls_prior st1) () = Some (td', pi', ())"
    "logpb_append_prior_lsa_list 80 (pi_list pi') ex_gl = Some gl'"
    and g: "\<forall>q \<le> fst (gl_append gl'). lp_logical_pageid (gl_pages gl' q) = q"
    and p: "\<forall>q. fst (gl_append ex_gl) \<le> q \<and> q \<le> fst (gl_append gl') \<longrightarrow> 30 \<le> q \<and> q \<le> fst (gl_append gl')" by (rule ex_insert_run)
  have s: "src_ok (io_upto (fst (gl_append gl')) (gl_pages gl')) (cf_cache ex_la_conf) (gl_pages gl') (\<lambda>q. 30 \<le> q \<and> q \<le> fst (gl_append gl'))
      (\<lambda>st. act_log_hdr st = hdr_upto (fst (gl_append gl'))) (ex_pb, ex_vols\<lparr>act_log_hdr := hdr_upto (fst (gl_append gl'))\<rparr>, [])"
    by (rule io_upto_src [OF g]) (simp add: ex_area(2))
  have d: "int (length (row_bytes ex_bits 0 16 [ex_fixed] [] [] [ex_variable])) + 2 < DB_INT32_MAX"
    using ex_row_length by (simp add: ex_row_data_def)
  have y: "(2 :: int) \<notin> {REC_ASSIGN_ADDRESS, REC_RELOCATION}" by simp
  have v: "zips_ok (sv_zips ex_slave_state)" "sv_last_class ex_slave_state \<in> {[], [116]}" "\<forall>w. te_mem (oe_tmpl ex_slave) w = (True, w)"
    "sc_apply_log ex_slave_conf" "\<not> sc_sql_logging ex_slave_conf" "\<not> cf_enable_plugin ex_la_conf" "sv_insert_counter ex_slave_state = 0"
    by (simp_all add: ex_slave_state_def A(17) ex_slave_def ex_tmpl_def ex_slave_conf_def ex_area(3))
  have t: "takes_insert ex_slave [116] (row_class 4 [ex_fixed] [ex_variable])
      (row_columns (te_null (oe_tmpl ex_slave)) ex_bits [ex_fixed] [] [ex_variable]) 5 9 w (w @ ex_columns)" for w
    using ex_takes_insert by (simp add: ex_row_columns)
  from inserted_columns_reach_slave [where cf = ex_la_conf, unfolded ex_area(1), OF ex_append_ok(1) A(1-11) r(1) [unfolded ex_row_data_def] r(2-4)
      s s p A(13-16) y ex_row_ok d v(1-3) t v(4-6), where up = "\<lparr>up_mem_value = id, mk_string = \<lambda>b. []\<rparr>"]
  obtain item sv' pb vols w where "la_apply_insert_log (io_upto (fst (gl_append gl')) (gl_pages gl')) ex_la_conf ex_slave_conf ex_lzo ex_slave item
      (ex_slave_state, ex_pb, ex_vols\<lparr>act_log_hdr := hdr_upto (fst (gl_append gl'))\<rparr>, []) =
     Some (NO_ERROR, sv', src_release (lsa_pageid (it_target_lsa item)) (pb, vols, oe_release ex_slave 9 (oe_abort_object ex_slave 5 (w @ ex_columns))))"
    "sv_insert_counter sv' = 1" unfolding A(12) v(7) by auto
  with r(1,4) show ?thesis by (simp add: ex_slave_def) blast
qed

text \<open>
  C3. A schema change reaches the applier as the server recorded it. The
  server collects the statement, commits and writes the log; the applier, with
  its page cache over the written volumes, makes an item from the record that
  the commit appended, of the same transaction, and the item has the
  statement's type, the class, the text, the user and the parameters the server
  was called with, whatever the record's place in the pages and however many
  pages its data crosses.
\<close>

theorem schema_change_reaches_applier:
  fixes td0 td :: log_tdes_repl
  assumes "area_size_ok sz" and "agree sz pi gl" and "pi_list pi = []" and "\<forall>w. fst (alloc w)"
    and "repl_reach td0" and "env_ok en" and "re_data_mem en" and "td_suppress_replication td0 = 0" and "schema_fits sch"
    and "repl_log_insert_schema_td en sch td0 = Some (err, td)"
    and "log_append_repl_info_and_unlock_log sz alloc td pi w = Some (td', pi', w')"
    and "logpb_append_prior_lsa_list sz (pi_list pi') gl = Some gl'"
    and "src_ok io cfg (gl_pages gl') P Q s" and "\<forall>q. fst (gl_append gl) \<le> q \<and> q \<le> fst (gl_append gl') \<longrightarrow> P q"
  shows "\<exists>n item s'. n \<in> set (pi_list pi') \<and> lr_type (pn_log_header n) = LOG_REPLICATION_SCHEMA \<and>
    lr_trid (pn_log_header n) = td_trid td \<and>
    la_make_repl_item (la_page_src io cfg) sz (src_alloc io) up (gl_pages gl' (lsa_pageid (pn_start_lsa n)))
      LOG_REPLICATION_SCHEMA (pn_start_lsa n) s = Some (Some item, s') \<and>
    schema_item up sch item \<and> it_lsa item = pn_start_lsa n"
proof -
  have reach: "repl_reach td" by (rule reach_schema [OF assms(5,6,10)])
  obtain r where r0: "recs td = recs td0 @ [r]" "rr_must_flush r = LOG_REPL_COMMIT_NEED_FLUSH" and
    rt: "rr_repl_type r = LOG_REPLICATION_SCHEMA" "rr_rcvindex r = RVREPL_SCHEMA"
    "rr_repl_data r = Some (pack_schema sch)" "rr_length r = int (length (pack_schema sch))"
    using repl_log_insert_schema_ok [OF assms(6) repl_reach_inv [OF assms(5)], of sch] assms(7,8,10) by auto
  then have r: "r \<in> set (recs td)" "must_append True r" by (simp_all add: must_append_def)
  have fits: "repl_fits r" using rt(2,4) assms(9) by (simp add: repl_fits_def repl_target_def schema_fits_def lsa_fits_def LSA_NULL_def)
  from committed_record_item [where ?reqs0.0 = "[]", OF assms(1-4) reach no_requests assms(11-14) r rt(3) fits] obtain n s1 where
    n: "n \<in> set (pi_list pi')" "lr_type (pn_log_header n) = rr_repl_type r" "lr_trid (pn_log_header n) = td_trid td"
    "src_ok io cfg (gl_pages gl') P Q s1"
    "la_make_repl_item (la_page_src io cfg) sz (src_alloc io) up (gl_pages gl' (lsa_pageid (pn_start_lsa n)))
      LOG_REPLICATION_SCHEMA (pn_start_lsa n) s =
     Some (la_fill_repl_item (src_alloc io) up LOG_REPLICATION_SCHEMA (rr_rcvindex r) (pack_schema sch)
       (la_new_repl_item (pn_start_lsa n) (repl_target r)) s1)" .
  with fill_schema_item [OF assms(9) src_alloc_ok n(4), where up = up and lsa = "pn_start_lsa n"] rt(1) show ?thesis by metis
qed

lemma schema_change_reaches_applier_witness:
  "\<exists>td (pi' :: log_prior_info) gl' n item s'. repl_log_insert_schema_td ex_mem ex_schema ex_repl_td = Some (NO_ERROR, td) \<and>
     logpb_append_prior_lsa_list 80 (pi_list pi') ex_gl = Some gl' \<and> n \<in> set (pi_list pi') \<and>
     la_make_repl_item (la_page_src (io_upto (fst (gl_append gl')) (gl_pages gl')) ex_cfg) 80 (src_alloc (io_upto (fst (gl_append gl')) (gl_pages gl')))
       \<lparr>up_mem_value = \<lambda>b. None, mk_string = id\<rparr> (gl_pages gl' (lsa_pageid (pn_start_lsa n))) LOG_REPLICATION_SCHEMA (pn_start_lsa n)
       (ex_pb, ex_vols\<lparr>act_log_hdr := hdr_upto (fst (gl_append gl'))\<rparr>, ()) = Some (Some item, s') \<and>
     it_item_type item = 3"
proof -
  note a = ex_append_ok(1-3)
  have m: "\<forall>w. fst ((\<lambda>w :: unit. (True, w)) w)" by simp
  have e: "env_ok ex_mem" "re_data_mem ex_mem" "td_suppress_replication ex_repl_td = 0"
    by (simp_all add: env_ok_def ex_mem_def ex_repl_td_def)
  have f: "schema_fits ex_schema"
    by (simp add: schema_fits_def ex_schema_def str_ok_def length_pack_schema schema_length_def or_packed_string_length_def Let_def)
  obtain td where td: "repl_log_insert_schema_td ex_mem ex_schema ex_repl_td = Some (NO_ERROR, td)"
    using repl_log_insert_schema_ok [OF e(1) repl_reach_inv [OF ex_repl_td_reach], of ex_schema] e by auto
  have r: "repl_reach td" by (rule reach_schema [OF ex_repl_td_reach e(1) td])
  obtain td' pi' w' gl' where c: "log_append_repl_info_and_unlock_log 80 (\<lambda>w :: unit. (True, w)) td ex_prior () = Some (td', pi', w')"
    "logpb_append_prior_lsa_list 80 (pi_list pi') ex_gl = Some gl'" "agree 80 pi' gl'" by (rule commit_written [OF a no_requests m r])
  have "\<forall>q \<le> fst (gl_append gl'). lp_logical_pageid (gl_pages gl' q) = q" using c(3) unfolding agree_def areas_ok_def by metis
  note s = io_upto_src_ok [OF this]
  have p: "\<forall>q. fst (gl_append ex_gl) \<le> q \<and> q \<le> fst (gl_append gl') \<longrightarrow> 30 \<le> q \<and> q \<le> fst (gl_append gl')" by (simp add: ex_gl_def)
  from schema_change_reaches_applier [OF a m ex_repl_td_reach e f td c(1,2) s p, where up = "\<lparr>up_mem_value = \<lambda>b. None, mk_string = id\<rparr>"]
  obtain n item s' where "n \<in> set (pi_list pi')"
    "la_make_repl_item (la_page_src (io_upto (fst (gl_append gl')) (gl_pages gl')) ex_cfg) 80 (src_alloc (io_upto (fst (gl_append gl')) (gl_pages gl')))
       \<lparr>up_mem_value = \<lambda>b. None, mk_string = id\<rparr> (gl_pages gl' (lsa_pageid (pn_start_lsa n))) LOG_REPLICATION_SCHEMA (pn_start_lsa n)
       (ex_pb, ex_vols\<lparr>act_log_hdr := hdr_upto (fst (gl_append gl'))\<rparr>, ()) = Some (Some item, s')" "it_item_type item = 3"
    by (auto simp: schema_item_def ex_schema_def)
  with td c(2) show ?thesis by blast
qed

text \<open>
  C5. A change of a row reaches the applier as well: for every record of the
  transaction with the name of a class and a packed key, the applier makes an
  item of the class with that name, the kind of the change, the key unpacked
  from the same bytes, and the address of the log record with the row.
\<close>

theorem row_change_reaches_applier:
  fixes td :: log_tdes_repl
  assumes "area_size_ok sz" and "agree sz pi gl" and "pi_list pi = []" and "\<forall>w. fst (alloc w)" and "repl_reach td"
    and "log_append_repl_info_and_unlock_log sz alloc td pi w = Some (td', pi', w')"
    and "logpb_append_prior_lsa_list sz (pi_list pi') gl = Some gl'"
    and "src_ok io cfg (gl_pages gl') P Q s" and "\<forall>q. fst (gl_append gl) \<le> q \<and> q \<le> fst (gl_append gl') \<longrightarrow> P q"
    and "r \<in> set (recs td)" and "must_append True r" and "rr_repl_type r = LOG_REPLICATION_DATA" and "repl_fits r"
    and "rr_repl_data r = Some (or_pack_string [] (Some nm) @ key)" and "str_ok (Some nm)"
  shows "\<exists>n item s'. n \<in> set (pi_list pi') \<and> lr_type (pn_log_header n) = LOG_REPLICATION_DATA \<and>
    lr_trid (pn_log_header n) = td_trid td \<and>
    la_make_repl_item (la_page_src io cfg) sz (src_alloc io) up (gl_pages gl' (lsa_pageid (pn_start_lsa n)))
      LOG_REPLICATION_DATA (pn_start_lsa n) s = Some (Some item, s') \<and>
    map_option c_string (it_class_name item) = Some nm \<and> it_item_type item = rr_rcvindex r \<and>
    it_key item = Some (up_mem_value up key) \<and> it_lsa item = pn_start_lsa n \<and> it_target_lsa item = repl_target r"
proof -
  from committed_record_item [where ?reqs0.0 = "[]", OF assms(1-5) no_requests assms(6-11,14,13)] obtain n s1 where
    n: "n \<in> set (pi_list pi')" "lr_type (pn_log_header n) = rr_repl_type r" "lr_trid (pn_log_header n) = td_trid td"
    "src_ok io cfg (gl_pages gl') P Q s1"
    "la_make_repl_item (la_page_src io cfg) sz (src_alloc io) up (gl_pages gl' (lsa_pageid (pn_start_lsa n)))
      LOG_REPLICATION_DATA (pn_start_lsa n) s =
     Some (la_fill_repl_item (src_alloc io) up LOG_REPLICATION_DATA (rr_rcvindex r) (or_pack_string [] (Some nm) @ key)
       (la_new_repl_item (pn_start_lsa n) (repl_target r)) s1)" .
  from fill_data_item [OF assms(15) src_alloc_ok n(4), of up "rr_rcvindex r" key "pn_start_lsa n" "repl_target r"] n assms(12)
  show ?thesis by auto
qed

lemma row_change_reaches_applier_witness:
  "\<exists>td (pi' :: log_prior_info) gl' n item s'. repl_log_insert_td ex_mem OID_NULL LOG_REPLICATION_DATA RVREPL_DELETE [1, 2, 3, 4] 4
       REPL_INFO_TYPE_STMT_NORMAL ex_repl_td = Some (NO_ERROR, td) \<and>
     logpb_append_prior_lsa_list 80 (pi_list pi') ex_gl = Some gl' \<and> n \<in> set (pi_list pi') \<and>
     la_make_repl_item (la_page_src (io_upto (fst (gl_append gl')) (gl_pages gl')) ex_cfg) 80 (src_alloc (io_upto (fst (gl_append gl')) (gl_pages gl')))
       \<lparr>up_mem_value = Some, mk_string = id\<rparr> (gl_pages gl' (lsa_pageid (pn_start_lsa n))) LOG_REPLICATION_DATA (pn_start_lsa n)
       (ex_pb, ex_vols\<lparr>act_log_hdr := hdr_upto (fst (gl_append gl'))\<rparr>, ()) = Some (Some item, s') \<and>
     it_key item = Some (Some [1, 2, 3, 4])"
proof -
  note a = ex_append_ok(1-3)
  have m: "\<forall>w. fst ((\<lambda>w :: unit. (True, w)) w)" by simp
  have e: "env_ok ex_mem" "re_data_mem ex_mem" "td_suppress_replication ex_repl_td = 0" "re_class_name ex_mem = Some [116]" "recs ex_repl_td = []"
    by (simp_all add: env_ok_def ex_mem_def ex_repl_td_def recs_def)
  obtain td r where td: "repl_log_insert_td ex_mem OID_NULL LOG_REPLICATION_DATA RVREPL_DELETE [1, 2, 3, 4] 4
      REPL_INFO_TYPE_STMT_NORMAL ex_repl_td = Some (NO_ERROR, td)" "repl_td_inv td"
    and rr: "recs td = [r]" "rr_repl_type r = LOG_REPLICATION_DATA" "rr_rcvindex r = RVREPL_DELETE"
      "rr_repl_data r = Some (or_pack_string [] (Some [116]) @ [1, 2, 3, 4])" "rr_must_flush r \<noteq> LOG_REPL_DONT_NEED_FLUSH"
    using repl_log_insert_ok [OF e(1) repl_reach_inv [OF ex_repl_td_reach], of "[1, 2, 3, 4]" 4 OID_NULL LOG_REPLICATION_DATA RVREPL_DELETE
        REPL_INFO_TYPE_STMT_NORMAL "[116]"] e by (auto simp: repl_insert_rcvindex_def)
  have reach: "repl_reach td" by (rule reach_insert [OF ex_repl_td_reach e(1) _ td(1)]) simp
  have r: "r \<in> set (recs td)" "must_append True r" using rr by (simp_all add: must_append_def)
  have fits: "repl_fits r" "str_ok (Some [116])"
    using td(2) rr by (simp_all add: repl_fits_def repl_target_def repl_td_inv_def rr_ok_def length_or_pack_string or_packed_string_length_def
        Let_def lsa_fits_def LSA_NULL_def str_ok_def)
  obtain td' pi' w' gl' where c: "log_append_repl_info_and_unlock_log 80 (\<lambda>w :: unit. (True, w)) td ex_prior () = Some (td', pi', w')"
    "logpb_append_prior_lsa_list 80 (pi_list pi') ex_gl = Some gl'" "agree 80 pi' gl'" by (rule commit_written [OF a no_requests m reach])
  have "\<forall>q \<le> fst (gl_append gl'). lp_logical_pageid (gl_pages gl' q) = q" using c(3) unfolding agree_def areas_ok_def by metis
  note s = io_upto_src_ok [OF this]
  have p: "\<forall>q. fst (gl_append ex_gl) \<le> q \<and> q \<le> fst (gl_append gl') \<longrightarrow> 30 \<le> q \<and> q \<le> fst (gl_append gl')" by (simp add: ex_gl_def)
  from row_change_reaches_applier [OF a m reach c(1,2) s p r rr(2) fits(1) rr(4) fits(2), where up = "\<lparr>up_mem_value = Some, mk_string = id\<rparr>"]
  obtain n item s' where "n \<in> set (pi_list pi')"
    "la_make_repl_item (la_page_src (io_upto (fst (gl_append gl')) (gl_pages gl')) ex_cfg) 80 (src_alloc (io_upto (fst (gl_append gl')) (gl_pages gl')))
       \<lparr>up_mem_value = Some, mk_string = id\<rparr> (gl_pages gl' (lsa_pageid (pn_start_lsa n))) LOG_REPLICATION_DATA (pn_start_lsa n)
       (ex_pb, ex_vols\<lparr>act_log_hdr := hdr_upto (fst (gl_append gl'))\<rparr>, ()) = Some (Some item, s')" "it_key item = Some (Some [1, 2, 3, 4])"
    by auto
  with td(1) c(2) show ?thesis by blast
qed



end
